(* ===== verification/Prelude.thy ===== *)
theory Prelude
  imports Main "HOL-Library.Word" "HOL-Library.Sublist"
begin

text \<open>
  What the theories of the development share: the types that every component speaks
  (bytes, error codes, what a resumed reader does), the collections of rewrite rules the
  component proofs draw on, and generic facts about lists.

  An error code is a value of \<open>error_code\<close>, one constructor for each code the sources
  name (\<^verbatim>\<open>include/anyhttp/asio/runtime.hpp\<close>, namespace \<open>errors\<close>, and the members of
  \<open>boost::system::errc\<close> the backends use); \<open>Success\<close> is the default constructed
  \<open>error_code{}\<close>, the one that tests as false.

  A view of memory (\<open>boost::asio::const_buffer\<close>, \<open>std::string_view\<close>, \<open>std::span\<close>) is the
  list of what it shows. \<open>buffer_copy(dest, source)\<close> copies as much of the source as the
  destination has room for, so it is \<open>take\<close>, and \<open>source += n\<close> is \<open>drop n\<close>.
\<close>

type_synonym byte = "8 word"
type_synonym bytes = "byte list"

datatype error_code =
    Success
  | Eof
  | Partial_message
  | Canceled
  | Would_block
  | Connection_aborted
  | Connection_reset
  | Broken_pipe
  | Already_started
  | Header_limit
  | Bad_descriptor
  | End_of_stream
  | Invalid_argument
  | Operation_not_supported

text \<open>
  What the application does from within a read completion. Completing a read resumes the
  coroutine that waits for it, right inside the library's call (\<open>swap_and_invoke\<close>,
  \<^verbatim>\<open>include/anyhttp/common.hpp\<close>), and what it does there the library has to cope with: issue
  the next read with a buffer of so many bytes, drop its handle on the message, or return.
  The application is not part of the library, so a stream carries a \<^emph>\<open>script\<close>, one entry for
  each completion to come, over which every theorem quantifies; past its end the application
  does nothing. A script is finite, as is every real sequence of completions within one call.
\<close>

datatype read_action = Do_nothing | Read_again nat | Drop_reader

named_theorems stream_defs \<open>the operations of the stream models, to unfold\<close>
named_theorems stream_simps \<open>what the operations do to the fields of a stream\<close>

section \<open>Lists\<close>

lemma take_drop_min [simp]: "take (min n (length xs)) xs = take n xs"
  by (metis min.commute min_def order.refl take_all)

lemma drop_min [simp]: "drop (min n (length xs)) xs = drop n xs"
  by (cases "n \<le> length xs") (simp_all add: min_def)

lemma concat_snoc [simp]: "concat (xss @ [xs]) = concat xss @ xs"
  by simp

lemma concat_hd_tl: "xss \<noteq> [] \<Longrightarrow> hd xss @ concat (tl xss) = concat xss"
  by (cases xss) simp_all

lemma take_drop_append: "take n xs @ take m (drop n xs) = take (n + m) xs"
  by (simp add: take_add)

lemma sum_list_length_concat: "sum_list (map length xss) = length (concat xss)"
  by (simp add: length_concat)

lemma prefix_all: "prefix xs ys \<Longrightarrow> length ys \<le> length xs \<Longrightarrow> xs = ys"
  by (auto simp: prefix_def)

end
