(* ===== verification/Body_Contract.thy ===== *)
theory Body_Contract
  imports Prelude
begin

text \<open>
  What every protocol backend promises its user, whatever runs below: the contracts of
  \<open>Reader\<close> and \<open>Writer\<close> (\<^verbatim>\<open>include/anyhttp/reader.hpp\<close>, \<^verbatim>\<open>include/anyhttp/writer.hpp\<close>,
  \<^verbatim>\<open>docs/end-of-body.rst\<close>), as locales that the stream models interpret.

  \<^item> \<open>machine\<close>: operations with preconditions that keep an invariant, and runs of them.
  \<^item> \<open>body_reader\<close>: a machine that receives a body and hands it out. What was handed out is
    a prefix of what was received, and as long as the exchange is intact the rest is still there.
  \<^item> \<open>accounting\<close>: a machine that is asked for something and owes an answer, exactly one.
  \<^item> \<open>writer_contract\<close>: how a write is answered at the door, depending on how the body stands.
\<close>

section \<open>Machines and their runs\<close>

fun run :: "('op \<Rightarrow> 's \<Rightarrow> 's) \<Rightarrow> ('op \<Rightarrow> 's \<Rightarrow> bool) \<Rightarrow> 's \<Rightarrow> 'op list \<Rightarrow> 's option" where
  "run exec enabled s [] = Some s"
| "run exec enabled s (a # as) =
     (if enabled a s then run exec enabled (exec a s) as else None)"

lemma run_append:
  "run exec enabled s (as @ bs) =
     (case run exec enabled s as of None \<Rightarrow> None | Some s' \<Rightarrow> run exec enabled s' bs)"
  by (induction as arbitrary: s) auto

locale machine =
  fixes exec :: "'op \<Rightarrow> 's \<Rightarrow> 's"
    and enabled :: "'op \<Rightarrow> 's \<Rightarrow> bool"
    and inv :: "'s \<Rightarrow> bool"
  assumes exec_inv: "inv s \<Longrightarrow> enabled a s \<Longrightarrow> inv (exec a s)"
begin

lemma run_inv: "inv s \<Longrightarrow> run exec enabled s as = Some s' \<Longrightarrow> inv s'"
  by (induction as arbitrary: s) (auto split: if_splits intro: exec_inv)

text \<open>What a step keeps, once it holds, holds from then on; what starts with a certain step can be
  traced back to it.\<close>

lemma run_stable:
  assumes "inv s" and "run exec enabled s as = Some s'" and "P s"
    and "\<And>a t. inv t \<Longrightarrow> enabled a t \<Longrightarrow> P t \<Longrightarrow> P (exec a t)"
  shows "P s'"
  using assms(1-3)
  by (induction as arbitrary: s) (auto split: if_splits intro: exec_inv assms(4))

lemma run_cause:
  assumes "inv s" and "run exec enabled s as = Some s'" and "\<not> P s" and "P s'"
    and "\<And>a t. inv t \<Longrightarrow> enabled a t \<Longrightarrow> \<not> P t \<Longrightarrow> P (exec a t) \<Longrightarrow> C a"
  shows "\<exists>a \<in> set as. C a"
  using assms(1-4)
proof (induction as arbitrary: s)
  case (Cons a as)
  then have e: "enabled a s" "run exec enabled (exec a s) as = Some s'" by (auto split: if_splits)
  show ?case
  proof (cases "P (exec a s)")
    case True
    with assms(5) [OF Cons.prems(1) e(1) Cons.prems(3)] show ?thesis by simp
  next
    case False
    with Cons.IH [of "exec a s"] e Cons.prems(1,4) exec_inv show ?thesis by auto
  qed
qed simp

end

text \<open>Every request is answered once, or still waiting for its answer.\<close>

locale accounting = machine exec enabled inv
  for exec :: "'op \<Rightarrow> 's \<Rightarrow> 's" and enabled :: "'op \<Rightarrow> 's \<Rightarrow> bool" and inv :: "'s \<Rightarrow> bool" +
  fixes asked :: "'op \<Rightarrow> nat"
    and answered :: "'s \<Rightarrow> nat"
    and waiting :: "'s \<Rightarrow> nat"
  assumes exec_accounts:
    "inv s \<Longrightarrow> enabled a s \<Longrightarrow>
     answered (exec a s) + waiting (exec a s) = answered s + waiting s + asked a"
begin

lemma run_accounts:
  "inv s \<Longrightarrow> run exec enabled s as = Some s' \<Longrightarrow>
   answered s' + waiting s' = answered s + waiting s + sum_list (map asked as)"
proof (induction as arbitrary: s)
  case (Cons a as)
  then have "enabled a s" and "run exec enabled (exec a s) as = Some s'"
    by (auto split: if_splits)
  with Cons.IH [of "exec a s"] Cons.prems(1) show ?case
    by (simp add: exec_inv exec_accounts)
qed simp

end

section \<open>Reading a body\<close>

locale body_reader = machine exec enabled inv
  for exec :: "'op \<Rightarrow> 's \<Rightarrow> 's" and enabled :: "'op \<Rightarrow> 's \<Rightarrow> bool" and inv :: "'s \<Rightarrow> bool" +
  fixes input :: "'op \<Rightarrow> bytes"
    and received :: "'s \<Rightarrow> bytes"
    and delivered :: "'s \<Rightarrow> bytes"
    and buffered :: "'s \<Rightarrow> bytes"
    and intact :: "'s \<Rightarrow> bool"
  assumes received_exec: "inv s \<Longrightarrow> enabled a s \<Longrightarrow> received (exec a s) = received s @ input a"
    and delivered_prefix: "inv s \<Longrightarrow> prefix (delivered s) (received s)"
    and conserved: "inv s \<Longrightarrow> intact s \<Longrightarrow> delivered s @ buffered s = received s"
begin

lemma run_received:
  "inv s \<Longrightarrow> run exec enabled s as = Some s' \<Longrightarrow>
   received s' = received s @ concat (map input as)"
proof (induction as arbitrary: s)
  case (Cons a as)
  then have "enabled a s" and "run exec enabled (exec a s) as = Some s'"
    by (auto split: if_splits)
  moreover from this Cons.prems have "received s' = received (exec a s) @ concat (map input as)"
    by (intro Cons.IH exec_inv)
  ultimately show ?case using Cons.prems by (simp add: received_exec)
qed simp

lemma run_delivers_prefix:
  assumes "inv s" and "received s = []" and "run exec enabled s as = Some s'"
  shows "prefix (delivered s') (concat (map input as))"
  using assms run_inv run_received delivered_prefix by fastforce

lemma run_conserves:
  assumes "inv s" and "received s = []" and "run exec enabled s as = Some s'" and "intact s'"
  shows "delivered s' @ buffered s' = concat (map input as)"
  using assms run_inv run_received conserved by fastforce

end

section \<open>Writing a body\<close>

text \<open>
  The entry ladder of the Writer contract: an empty write that does not end the body is free
  wherever the body stands; once the body has been ended there is nothing for more data to
  belong to; and re-ending it changes nothing. \<open>None\<close> is a write that is taken on, to be
  completed later.
\<close>

locale writer_contract =
  fixes answer :: "'s \<Rightarrow> bytes \<Rightarrow> bool \<Rightarrow> error_code option"
    and ended :: "'s \<Rightarrow> bool"
    and gone_out :: "'s \<Rightarrow> bool"
  assumes empty_write: "answer s [] False = Some Success"
    and data_after_end: "ended s \<Longrightarrow> buffer \<noteq> [] \<Longrightarrow> answer s buffer eof = Some Broken_pipe"
    and end_again: "ended s \<Longrightarrow> gone_out s \<Longrightarrow> answer s [] True = Some Success"
begin

text \<open>Once the end of a body has gone out, the answer to any write is known.\<close>

lemma ended_answers:
  assumes "ended s" and "gone_out s"
  shows "answer s buffer eof = Some (if buffer = [] then Success else Broken_pipe)"
  using assms empty_write data_after_end end_again by (cases eof; cases "buffer = []") auto

text \<open>A write is only ever taken on while the body is open, or to end it.\<close>

lemma taken_on_only_if_open:
  assumes "answer s buffer eof = None"
  shows "\<not> ended s \<or> (buffer = [] \<and> eof \<and> \<not> gone_out s)"
proof (rule ccontr)
  assume "\<not> ?thesis"
  then have "ended s" and "buffer \<noteq> [] \<or> \<not> eof \<or> gone_out s" by auto
  then have "answer s buffer eof \<noteq> None"
    using empty_write [of s] data_after_end [of s buffer eof] ended_answers [of s buffer eof]
    by (cases "buffer = []"; cases eof) auto
  with assms show False by simp
qed

end

end
