(* ===== verification/Quic_Stream.thy ===== *)
theory Quic_Stream
  imports Body_Contract
begin

text \<open>
  One QUIC stream, \<^verbatim>\<open>src/quic/stream.cpp\<close> and \<^verbatim>\<open>include/anyhttp/quic/stream.hpp\<close>: the state
  of \<open>QuicStream\<close> as a record with the source's fields, and one definition for each of its
  member functions. The record can be extended, as the class is derived from: HTTP/3 adds its
  header sections (theory \<open>H3_Stream\<close>), plain streams their place in the write queue (theory
  \<open>Quic_Streams\<close>).

  What the code does to the world outside of the stream is appended to \<open>qs_events\<close>: handlers
  that run (or are posted to run), and calls into the session. A parked handler is the option
  of what the completion needs: the room in the buffer for a read, nothing for a write. The
  field \<open>qs_script\<close> is what the application does when a read completes, see \<open>Prelude\<close>; what
  it does from within another completion is a later operation. \<open>qs_received\<close>, \<open>qs_body\<close> and
  \<open>qs_wire\<close> are history only: all that was ever delivered by the peer, all that was ever queued to
  be sent, and all that the stack below was given of it. None is read by an operation.

  Positions in a body are natural numbers: QUIC offsets are below 2^62, so that the
  \<open>uint64_t\<close> of the source never wraps.
\<close>

section \<open>State\<close>

datatype write_mode = ZeroCopy | Staged

datatype stream_class = Plain_class | Http3_class

datatype chunk = Chunk (chunk_offset: nat) (chunk_data: bytes)

definition kWriteChunkSize :: nat where
  "kWriteChunkSize = 16 * 1024"

datatype quic_event =
    Read_done error_code bytes
  | Write_done error_code
  | Consume_stream nat
  | Stop_reading
  | Reset_writing
  | Reset_stream
  | On_writable
  | On_failed error_code
  | Erase_stream
  | Reader_detach error_code
  | Writer_detach bool

record quic_stream =
  qs_pending_read :: "bytes list"
  qs_read_head :: bytes
  qs_incoming :: bytes
  qs_eof_received :: bool
  qs_read_handler :: "nat option"
  qs_call_read_handler_active :: bool
  qs_write_mode :: write_mode
  qs_write_active :: bool
  qs_write_source :: bytes
  qs_write_is_eof :: bool
  qs_write_handler :: bool
  qs_write_token :: nat
  qs_next_write_token :: nat
  qs_eof_submitted :: bool
  qs_fin_offered :: bool
  qs_write_base :: nat
  qs_write_copied :: nat
  qs_tx_queued :: nat
  qs_tx_offered :: nat
  qs_tx_sent :: nat
  qs_tx_acked :: nat
  qs_chunks :: "chunk list"
  qs_reader :: bool
  qs_writer :: bool
  qs_closed :: bool
  qs_read_aborted :: bool
  qs_write_aborted :: bool
  qs_class :: stream_class
  qs_script :: "read_action list"
  qs_events :: "quic_event list"
  qs_received :: bytes
  qs_body :: bytes
  qs_wire :: bytes

definition qs_init :: "stream_class \<Rightarrow> write_mode \<Rightarrow> quic_stream" where
  "qs_init c m = \<lparr>
     qs_pending_read = [], qs_read_head = [], qs_incoming = [], qs_eof_received = False,
     qs_read_handler = None, qs_call_read_handler_active = False,
     qs_write_mode = m, qs_write_active = False, qs_write_source = [],
     qs_write_is_eof = False, qs_write_handler = False,
     qs_write_token = 0, qs_next_write_token = 1,
     qs_eof_submitted = False, qs_fin_offered = False,
     qs_write_base = 0, qs_write_copied = 0,
     qs_tx_queued = 0, qs_tx_offered = 0, qs_tx_sent = 0, qs_tx_acked = 0,
     qs_chunks = [], qs_reader = True, qs_writer = True,
     qs_closed = False, qs_read_aborted = False, qs_write_aborted = False,
     qs_class = c, qs_script = [], qs_events = [], qs_received = [], qs_body = [], qs_wire = []\<rparr>"

definition qs_emit :: "quic_event \<Rightarrow> 'a quic_stream_scheme \<Rightarrow> 'a quic_stream_scheme" where
  [stream_defs]: "qs_emit e s = s\<lparr>qs_events := qs_events s @ [e]\<rparr>"

section \<open>Lifecycle helpers\<close>

text \<open>\<open>maybe_close\<close>: the stream leaves the session once both adapters are gone and ngtcp2 is
  done with it.\<close>

definition qs_maybe_close :: "'a quic_stream_scheme \<Rightarrow> 'a quic_stream_scheme" where
  [stream_defs]: "qs_maybe_close s =
     (if qs_reader s \<or> qs_writer s then s
      else if \<not> qs_closed s then s
      else qs_emit Erase_stream s)"

definition qs_delete_reader :: "'a quic_stream_scheme \<Rightarrow> 'a quic_stream_scheme" where
  [stream_defs]: "qs_delete_reader s =
     (let s1 = s\<lparr>qs_pending_read := [], qs_read_head := [], qs_incoming := []\<rparr>;
          s2 = (if \<not> qs_eof_received s1 \<and> \<not> qs_closed s1 \<and> \<not> qs_read_aborted s1
                then qs_emit Stop_reading s1 else s1)
      in qs_maybe_close s2)"

text \<open>\<open>~QuicReader\<close>, with the stream still there: the adapter lets go of the stream first.\<close>

definition qs_reader_dtor :: "'a quic_stream_scheme \<Rightarrow> 'a quic_stream_scheme" where
  [stream_defs]: "qs_reader_dtor s = qs_delete_reader (s\<lparr>qs_reader := False\<rparr>)"

section \<open>Incoming body\<close>

text \<open>What a resumed reader does. Its next read finds \<open>call_read_handler_active\<close> set, so that
  the nested \<open>call_read_handler()\<close> returns at once and the read is just parked; see
  \<open>nested_read_is_parked\<close> below.\<close>

definition qs_reader_acts :: "'a quic_stream_scheme \<Rightarrow> 'a quic_stream_scheme" where
  [stream_defs]: "qs_reader_acts s =
     (case qs_script s of
        [] \<Rightarrow> s
      | Do_nothing # as \<Rightarrow> s\<lparr>qs_script := as\<rparr>
      | Read_again n # as \<Rightarrow>
          if \<not> qs_reader s then s\<lparr>qs_script := as\<rparr>
          else if n = 0 then qs_emit (Read_done Success []) (s\<lparr>qs_script := as\<rparr>)
          else s\<lparr>qs_script := as, qs_read_handler := Some n\<rparr>
      | Drop_reader # as \<Rightarrow>
          if qs_reader s then qs_reader_dtor (s\<lparr>qs_script := as\<rparr>) else s\<lparr>qs_script := as\<rparr>)"

text \<open>\<open>swap_and_invoke(read_handler, ec, n)\<close>: the handler is moved away, then run.\<close>

definition qs_invoke_read :: "error_code \<Rightarrow> bytes \<Rightarrow> 'a quic_stream_scheme \<Rightarrow> 'a quic_stream_scheme" where
  [stream_defs]: "qs_invoke_read ec d s =
     qs_reader_acts (qs_emit (Read_done ec d) (s\<lparr>qs_read_handler := None\<rparr>))"

text \<open>The inner loop of \<open>call_read_handler\<close>: fills the caller's buffer from as many queued chunks
  as it takes. Returns the bytes copied, the room left, and what is left of the queue.\<close>

function fill_from_queue :: "nat \<Rightarrow> bytes \<Rightarrow> bytes list \<Rightarrow> bytes \<times> nat \<times> bytes \<times> bytes list" where
  "fill_from_queue dest read_head pending =
     (if dest > 0 \<and> read_head \<noteq> [] then
        let n = min dest (length read_head);
            rest = drop n read_head;
            pending' = (if rest = [] then tl pending else pending);
            read_head' = (if rest = [] then (case pending' of [] \<Rightarrow> [] | b # _ \<Rightarrow> b) else rest);
            (copied, dest', h, p) = fill_from_queue (dest - n) read_head' pending'
        in (take n read_head @ copied, dest', h, p)
      else ([], dest, read_head, pending))"
  by pat_completeness auto
termination
  by (relation "measure (\<lambda>(dest, _, _). dest)") (auto simp: min_def)

declare fill_from_queue.simps [simp del]

definition qs_read_measure :: "'a quic_stream_scheme \<Rightarrow> nat" where
  "qs_read_measure s = length (qs_script s) + (case qs_read_handler s of None \<Rightarrow> 0 | Some _ \<Rightarrow> 1)"

lemma qs_invoke_read_measure:
  "qs_read_handler s = Some n \<Longrightarrow> qs_read_measure (qs_invoke_read ec d s) < qs_read_measure s"
  by (auto simp: stream_defs qs_read_measure_def Let_def split: list.splits read_action.splits)

text \<open>The outer loop: delivers as long as reads keep being issued.\<close>

function qs_read_loop :: "'a quic_stream_scheme \<Rightarrow> nat \<Rightarrow> 'a quic_stream_scheme \<times> nat" where
  "qs_read_loop s consumed =
     (case qs_read_handler s of
        None \<Rightarrow> (s, consumed)
      | Some dest \<Rightarrow>
          if qs_read_head s \<noteq> [] \<or> qs_incoming s \<noteq> [] then
            let (d1, dest', h, p) = fill_from_queue dest (qs_read_head s) (qs_pending_read s);
                d2 = (if dest' > 0 \<and> qs_incoming s \<noteq> [] then take dest' (qs_incoming s) else []);
                s' = s\<lparr>qs_read_head := h, qs_pending_read := p,
                       qs_incoming := drop (length d2) (qs_incoming s)\<rparr>
            in qs_read_loop (qs_invoke_read Success (d1 @ d2) s') (consumed + length (d1 @ d2))
          else if qs_eof_received s then
            qs_read_loop (qs_invoke_read Eof [] s) consumed
          else if qs_closed s \<or> qs_read_aborted s then
            qs_read_loop (qs_invoke_read Partial_message [] s) consumed
          else (s, consumed))"
  by pat_completeness auto
termination
proof (relation "measure (\<lambda>(s, _). qs_read_measure s)", goal_cases)
  case 1 then show ?case by simp
next
  case (2 s consumed dest x d1 y dest' z h p d2 s')
  then show ?case
    using qs_invoke_read_measure [of s' dest Success "d1 @ d2"]
    by (simp add: qs_read_measure_def)
next
  case (3 s consumed dest)
  then show ?case by (simp add: qs_invoke_read_measure)
next
  case (4 s consumed dest)
  then show ?case by (simp add: qs_invoke_read_measure)
qed

declare qs_read_loop.simps [simp del]

text \<open>\<open>QuicSession::consume_stream\<close>: credit for what the application took, nothing for nothing.\<close>

definition qs_consume :: "nat \<Rightarrow> 'a quic_stream_scheme \<Rightarrow> 'a quic_stream_scheme" where
  [stream_defs]: "qs_consume n s = (if n = 0 then s else qs_emit (Consume_stream n) s)"

definition qs_call_read_handler :: "'a quic_stream_scheme \<Rightarrow> 'a quic_stream_scheme" where
  "qs_call_read_handler s =
     (if qs_read_handler s = None \<or> qs_call_read_handler_active s then s
      else let (s', consumed) = qs_read_loop (s\<lparr>qs_call_read_handler_active := True\<rparr>) 0
           in qs_consume consumed (s'\<lparr>qs_call_read_handler_active := False\<rparr>))"

definition qs_on_data_chunk :: "bytes \<Rightarrow> 'a quic_stream_scheme \<Rightarrow> 'a quic_stream_scheme" where
  "qs_on_data_chunk data s =
     (if data = [] then s
      else let s1 = qs_call_read_handler (s\<lparr>qs_incoming := data, qs_received := qs_received s @ data\<rparr>)
           in if qs_incoming s1 \<noteq> [] then
                let p = qs_pending_read s1 @ [qs_incoming s1]
                in s1\<lparr>qs_pending_read := p,
                      qs_read_head := (if qs_read_head s1 = [] then hd p else qs_read_head s1),
                      qs_incoming := []\<rparr>
              else s1)"

definition qs_on_eof :: "'a quic_stream_scheme \<Rightarrow> 'a quic_stream_scheme" where
  "qs_on_eof s = qs_call_read_handler (s\<lparr>qs_eof_received := True\<rparr>)"

definition qs_reading_finished :: "'a quic_stream_scheme \<Rightarrow> bool" where
  "qs_reading_finished s = (qs_eof_received s \<and> qs_read_head s = [] \<and> qs_incoming s = [])"

text \<open>\<open>QuicReader::async_read_some\<close> with the adapter attached. The buffer has room for \<open>n\<close> bytes.\<close>

definition qs_async_read_some :: "nat \<Rightarrow> 'a quic_stream_scheme \<Rightarrow> 'a quic_stream_scheme" where
  "qs_async_read_some n s =
     (if n = 0 then qs_emit (Read_done Success []) s
      else qs_call_read_handler (s\<lparr>qs_read_handler := Some n\<rparr>))"

text \<open>... its cancellation, and the same read with the stream gone (\<open>detached_ec\<close>).\<close>

definition qs_cancel_read :: "'a quic_stream_scheme \<Rightarrow> 'a quic_stream_scheme" where
  "qs_cancel_read s =
     (if qs_read_handler s \<noteq> None
      then qs_emit (Read_done Canceled []) (s\<lparr>qs_read_handler := None\<rparr>) else s)"

definition detached_read :: "error_code \<Rightarrow> nat \<Rightarrow> quic_event" where
  "detached_read detached_ec n = Read_done (if n = 0 then Success else detached_ec) []"

definition qs_reader_detach_ec :: "'a quic_stream_scheme \<Rightarrow> error_code" where
  "qs_reader_detach_ec s = (if qs_reading_finished s then Eof else Partial_message)"

section \<open>Outgoing body\<close>

definition qs_complete_write :: "error_code \<Rightarrow> 'a quic_stream_scheme \<Rightarrow> 'a quic_stream_scheme" where
  [stream_defs]: "qs_complete_write ec s =
     (if qs_write_handler s then qs_emit (Write_done ec) (s\<lparr>qs_write_handler := False\<rparr>) else s)"

definition qs_finish_active_write :: "'a quic_stream_scheme \<Rightarrow> 'a quic_stream_scheme" where
  [stream_defs]: "qs_finish_active_write s =
     qs_complete_write Success (s\<lparr>qs_write_source := [], qs_write_active := False\<rparr>)"

text \<open>\<open>reset_writing\<close> is virtual: a plain stream resets its sending side, HTTP/3 the whole stream
  (\<^verbatim>\<open>src/h3/stream.cpp\<close>).\<close>

definition qs_reset_writing :: "'a quic_stream_scheme \<Rightarrow> 'a quic_stream_scheme" where
  [stream_defs]: "qs_reset_writing s =
     (case qs_class s of
        Plain_class \<Rightarrow> (qs_emit Reset_writing s)\<lparr>qs_write_aborted := True\<rparr>
      | Http3_class \<Rightarrow> (qs_emit Reset_stream s)\<lparr>qs_closed := True\<rparr>)"

text \<open>\<open>start_write\<close>, in the order of the source: the entry ladder of the Writer contract first.\<close>

definition qs_start_write :: "bytes \<Rightarrow> bool \<Rightarrow> 'a quic_stream_scheme \<Rightarrow> 'a quic_stream_scheme" where
  "qs_start_write buffer eof s =
     (if buffer = [] \<and> \<not> eof then qs_emit (Write_done Success) s
      else if qs_eof_submitted s then
        (if buffer \<noteq> [] then qs_emit (Write_done Broken_pipe) s
         else if qs_write_active s \<and> qs_write_is_eof s \<and> \<not> qs_closed s \<and> \<not> qs_write_aborted s
         then s\<lparr>qs_write_handler := True\<rparr>
         else if (qs_closed s \<or> qs_write_aborted s) \<and> \<not> qs_fin_offered s
         then qs_emit (Write_done Connection_reset) s
         else qs_emit (Write_done Success) s)
      else if qs_closed s \<or> qs_write_aborted s then qs_emit (Write_done Connection_reset) s
      else
        let s1 = (if eof then s\<lparr>qs_eof_submitted := True\<rparr> else s);
            token = qs_next_write_token s1;
            s2 = s1\<lparr>qs_next_write_token := token + 1,
                    qs_write_active := True, qs_write_source := buffer,
                    qs_write_base := qs_tx_queued s1, qs_write_copied := 0,
                    qs_write_is_eof := eof, qs_write_token := token,
                    qs_write_handler := True\<rparr>;
            s3 = (if qs_write_mode s2 = ZeroCopy
                  then s2\<lparr>qs_tx_queued := qs_write_base s2 + length buffer,
                          qs_body := qs_body s2 @ buffer\<rparr> else s2)
        in qs_emit On_writable s3)"

text \<open>The cancellation \<open>bind_write_cancellation\<close> arms, for the write that was given \<open>token\<close>.\<close>

definition qs_cancel_write :: "nat \<Rightarrow> 'a quic_stream_scheme \<Rightarrow> 'a quic_stream_scheme" where
  "qs_cancel_write token s =
     (if qs_write_token s \<noteq> token \<or> \<not> qs_write_handler s then s
      else if qs_write_is_eof s \<and> qs_write_source s = [] then qs_complete_write Canceled s
      else
        let s1 = (if qs_write_mode s = ZeroCopy then
                    let s' = (if qs_tx_offered s > qs_tx_acked s \<and> \<not> qs_closed s \<and> \<not> qs_write_aborted s
                              then qs_reset_writing s else s)
                    in s'\<lparr>qs_tx_queued := qs_tx_offered s',
                          qs_body := take (qs_tx_offered s') (qs_body s')\<rparr>
                  else s);
            s2 = (if qs_write_is_eof s1 \<and> (qs_write_mode s1 = ZeroCopy \<or> \<not> qs_fin_offered s1)
                  then s1\<lparr>qs_eof_submitted := False\<rparr> else s1)
        in qs_complete_write Canceled (s2\<lparr>qs_write_active := False, qs_write_source := []\<rparr>))"

text \<open>The chunks of a staged write from body offset \<open>from\<close> on, at most \<open>cap\<close> of them, with the
  end of the last one.\<close>

fun chunks_from :: "nat \<Rightarrow> nat \<Rightarrow> nat \<Rightarrow> chunk list \<Rightarrow> bytes list \<times> nat" where
  "chunks_from cap from e [] = ([], e)"
| "chunks_from cap from e (c # cs) =
     (let chunk_end = chunk_offset c + length (chunk_data c)
      in if chunk_end \<le> from then chunks_from cap from e cs
         else if cap = 0 then ([], e)
         else let skip = (if from > chunk_offset c then from - chunk_offset c else 0);
                  (v, e') = chunks_from (cap - 1) from chunk_end cs
              in (drop skip (chunk_data c) # v, e'))"

text \<open>Staged: the next slice of the caller's buffer, carved off once everything queued before it
  is in packets.\<close>

definition qs_stage :: "'a quic_stream_scheme \<Rightarrow> 'a quic_stream_scheme" where
  [stream_defs]: "qs_stage s =
     (if qs_write_mode s = Staged \<and> qs_write_active s \<and> qs_tx_sent s \<ge> qs_tx_queued s \<and>
         qs_write_copied s < length (qs_write_source s)
      then let n = min (length (qs_write_source s) - qs_write_copied s) kWriteChunkSize;
               d = take n (drop (qs_write_copied s) (qs_write_source s))
           in s\<lparr>qs_chunks := qs_chunks s @ [Chunk (qs_tx_queued s) d],
                qs_write_copied := qs_write_copied s + n,
                qs_tx_queued := qs_tx_queued s + n,
                qs_body := qs_body s @ d\<rparr>
      else s)"

text \<open>\<open>pending_data(from, vec, fin)\<close> with a \<open>vec\<close> of \<open>cap\<close> entries: what it points them at, and
  \<open>fin\<close>.\<close>

definition qs_pending_data ::
  "nat \<Rightarrow> nat \<Rightarrow> 'a quic_stream_scheme \<Rightarrow> 'a quic_stream_scheme \<times> bytes list \<times> bool" where
  "qs_pending_data from cap s =
     (if cap = 0 \<or> qs_closed s \<or> qs_write_aborted s then (s, [], False)
      else
        let s1 = qs_stage s;
            total = length (qs_write_source s1);
            (vec, e) =
              (if qs_write_mode s1 = ZeroCopy then
                 (if qs_write_active s1 \<and> from < qs_tx_queued s1
                  then ([take (qs_tx_queued s1 - from) (drop (from - qs_write_base s1) (qs_write_source s1))],
                        qs_tx_queued s1)
                  else ([], from))
               else chunks_from cap from from (qs_chunks s1));
            all_queued = (qs_write_mode s1 = ZeroCopy \<or> qs_write_copied s1 = total)
        in (s1, vec, qs_write_active s1 \<and> qs_write_is_eof s1 \<and> all_queued \<and> e \<ge> qs_tx_queued s1))"

definition qs_on_offered :: "nat \<Rightarrow> bool \<Rightarrow> 'a quic_stream_scheme \<Rightarrow> 'a quic_stream_scheme" where
  "qs_on_offered e fin s =
     (let s1 = s\<lparr>qs_tx_offered := max (qs_tx_offered s) (min e (qs_tx_queued s))\<rparr>
      in if \<not> fin then s1
         else let s2 = s1\<lparr>qs_fin_offered := True\<rparr>
              in if qs_write_active s2 \<and> qs_write_source s2 = [] then qs_finish_active_write s2
                 else s2)"

definition qs_on_sent :: "nat \<Rightarrow> 'a quic_stream_scheme \<Rightarrow> 'a quic_stream_scheme" where
  "qs_on_sent e s =
     (if e \<le> qs_tx_sent s then s
      else let s1 = s\<lparr>qs_tx_sent := min e (qs_tx_offered s)\<rparr>
           in if qs_write_mode s1 \<noteq> Staged \<or> \<not> qs_write_active s1 \<or> qs_tx_sent s1 < qs_tx_queued s1
              then s1
              else if qs_write_source s1 = [] then s1
              else if qs_write_copied s1 = length (qs_write_source s1) then qs_finish_active_write s1
              else qs_emit On_writable s1)"

definition drop_acked :: "nat \<Rightarrow> chunk list \<Rightarrow> chunk list" where
  "drop_acked acked cs = dropWhile (\<lambda>c. chunk_offset c + length (chunk_data c) \<le> acked) cs"

definition qs_on_acked :: "nat \<Rightarrow> 'a quic_stream_scheme \<Rightarrow> 'a quic_stream_scheme" where
  "qs_on_acked e0 s =
     (let e = min e0 (qs_tx_offered s)
      in if e \<le> qs_tx_acked s then s
         else let s1 = s\<lparr>qs_tx_acked := e, qs_chunks := drop_acked e (qs_chunks s)\<rparr>
              in if qs_write_mode s1 = ZeroCopy \<and> qs_write_active s1 \<and> qs_write_source s1 \<noteq> [] \<and>
                    qs_tx_acked s1 \<ge> qs_write_base s1 + length (qs_write_source s1)
                 then qs_finish_active_write s1 else s1)"

section \<open>How the stack below takes the body\<close>

text \<open>HTTP/3 (\<^verbatim>\<open>src/h3/stream.cpp\<close>): nghttp3 asks for what it has not seen yet, and is told to come
  back when there is nothing.\<close>

datatype pulled = Pull_would_block | Pulled "bytes list" bool

definition data_reader :: "nat \<Rightarrow> 'a quic_stream_scheme \<Rightarrow> 'a quic_stream_scheme \<times> pulled" where
  "data_reader veccnt s =
     (if veccnt = 0 then (s, Pulled [] False)
      else let (s1, vec, fin) = qs_pending_data (qs_tx_offered s) veccnt s
           in if vec = [] \<and> \<not> fin then (s1, Pull_would_block)
              else let e = qs_tx_offered s1 + sum_list (map length vec)
                   in (qs_on_offered e fin (s1\<lparr>qs_wire := qs_wire s1 @ concat vec\<rparr>), Pulled vec fin))"

definition on_write_acked :: "nat \<Rightarrow> 'a quic_stream_scheme \<Rightarrow> 'a quic_stream_scheme" where
  "on_write_acked n s = (if n > 0 then qs_on_acked (qs_tx_acked s + n) s else s)"

definition on_write_offered :: "nat \<Rightarrow> 'a quic_stream_scheme \<Rightarrow> 'a quic_stream_scheme" where
  "on_write_offered n s =
     (if n > 0 then qs_on_sent (qs_tx_sent s + min n (qs_tx_offered s - qs_tx_sent s)) s else s)"

text \<open>Plain streams (\<^verbatim>\<open>src/quic/streams.cpp\<close>, \<^verbatim>\<open>src/quic/session.cpp\<close>): ngtcp2 is offered what
  is not in packets yet, takes the first \<open>n\<close> bytes of it, and is offered the rest again. The end
  goes with the last of the data, so only if all of it went into the packet.\<close>

definition qs_data_written :: "nat \<Rightarrow> bool \<Rightarrow> 'a quic_stream_scheme \<Rightarrow> 'a quic_stream_scheme" where
  "qs_data_written n fin s =
     (let s1 = qs_on_offered (qs_tx_sent s + n) fin s in qs_on_sent (qs_tx_sent s1 + n) s1)"

definition qs_packet :: "nat \<Rightarrow> nat \<Rightarrow> 'a quic_stream_scheme \<Rightarrow> 'a quic_stream_scheme" where
  "qs_packet cap n s =
     (let (s1, vec, stream_fin) = qs_pending_data (qs_tx_sent s) cap s;
          datalen = sum_list (map length vec);
          taken = min n datalen
      in if vec = [] \<and> (\<not> stream_fin \<or> qs_fin_offered s1) then s1
         else qs_data_written taken (stream_fin \<and> taken = datalen)
                (s1\<lparr>qs_wire := qs_wire s1 @ take taken (concat vec)\<rparr>))"

section \<open>Lifecycle\<close>

definition qs_abort_active_write :: "error_code \<Rightarrow> 'a quic_stream_scheme \<Rightarrow> 'a quic_stream_scheme" where
  [stream_defs]: "qs_abort_active_write ec s =
     (if qs_write_active s
      then qs_complete_write ec (s\<lparr>qs_write_active := False, qs_write_source := []\<rparr>) else s)"

text \<open>\<open>fail\<close>. The handler of the read is run, so the reader acts from within. A read it issues there
  is not nested in \<open>call_read_handler()\<close>, and is answered right away.\<close>

definition qs_fail :: "error_code \<Rightarrow> 'a quic_stream_scheme \<Rightarrow> 'a quic_stream_scheme" where
  "qs_fail ec s =
     (let s1 = s\<lparr>qs_closed := True\<rparr>;
          s2 = (if qs_read_handler s1 \<noteq> None
                then qs_call_read_handler
                       (qs_invoke_read (if ec \<noteq> Success \<and> \<not> qs_eof_received s1 then Partial_message else ec) [] s1)
                else s1);
          s3 = qs_emit (On_failed ec) s2;
          s4 = qs_abort_active_write (if ec \<noteq> Success then ec else Connection_reset) s3
      in qs_maybe_close s4)"

definition qs_abort_reading :: "'a quic_stream_scheme \<Rightarrow> 'a quic_stream_scheme" where
  "qs_abort_reading s =
     (if qs_eof_received s \<or> qs_read_aborted s then s
      else qs_call_read_handler (s\<lparr>qs_read_aborted := True, qs_pending_read := [],
                                   qs_read_head := [], qs_incoming := []\<rparr>))"

definition qs_abort_writing :: "error_code \<Rightarrow> 'a quic_stream_scheme \<Rightarrow> 'a quic_stream_scheme" where
  "qs_abort_writing ec s = qs_abort_active_write ec (s\<lparr>qs_write_aborted := True\<rparr>)"

text \<open>\<open>QuicStream::delete_writer\<close>, of plain streams; \<open>~QuicWriter\<close> lets go of the stream first.\<close>

definition qs_delete_writer :: "'a quic_stream_scheme \<Rightarrow> 'a quic_stream_scheme" where
  "qs_delete_writer s =
     (if qs_closed s \<or> qs_write_aborted s then qs_maybe_close s
      else if \<not> qs_eof_submitted s
      then qs_maybe_close (qs_abort_writing Connection_reset (qs_reset_writing s))
      else qs_maybe_close s)"

definition qs_writer_dtor :: "'a quic_stream_scheme \<Rightarrow> 'a quic_stream_scheme" where
  "qs_writer_dtor s = qs_delete_writer (s\<lparr>qs_writer := False\<rparr>)"

text \<open>\<open>QuicWriter::detach\<close> latches whether the body was cleanly ended, and answers for the stream
  from then on.\<close>

definition qs_detached_body_ended :: "'a quic_stream_scheme \<Rightarrow> bool" where
  "qs_detached_body_ended s = (qs_eof_submitted s \<and> qs_fin_offered s)"

definition detached_write :: "bool \<Rightarrow> bytes \<Rightarrow> bool \<Rightarrow> error_code" where
  "detached_write detached_body_ended buffer eof =
     (if buffer = [] \<and> \<not> eof then Success
      else if detached_body_ended then (if buffer = [] then Success else Broken_pipe)
      else Connection_reset)"

text \<open>\<open>detach_all\<close>, which the destructor of the stream runs.\<close>

definition qs_detach_all :: "'a quic_stream_scheme \<Rightarrow> 'a quic_stream_scheme" where
  "qs_detach_all s =
     (let s1 = (if qs_reader s then (qs_emit (Reader_detach (qs_reader_detach_ec s)) s)\<lparr>qs_reader := False\<rparr> else s);
          s2 = (if qs_writer s1 then (qs_emit (Writer_detach (qs_detached_body_ended s1)) s1)\<lparr>qs_writer := False\<rparr> else s1);
          s3 = (if qs_read_handler s2 \<noteq> None
                then qs_emit (Read_done Connection_reset []) (s2\<lparr>qs_read_handler := None\<rparr>) else s2)
      in if qs_write_active s3 \<and> qs_write_handler s3 then qs_complete_write Connection_reset s3 else s3)"

end
