(* ===== verification/Read_Queue.thy ===== *)
theory Read_Queue
  imports Prelude
begin

text \<open>
  The queue of received buffers that both stream implementations keep for their reader
  (\<open>pending_read\<close>, \<open>read_head\<close> in \<^verbatim>\<open>include/anyhttp/quic/stream.hpp\<close>; \<open>pending_read_buffers_\<close>,
  \<open>read_buffer_\<close> in \<^verbatim>\<open>include/anyhttp/h2/stream.hpp\<close>): buffers in the order they arrived, and a
  view of what is left of the first one.
\<close>

text \<open>\<open>h\<close> views what has not been delivered of the first buffer in \<open>p\<close>; no buffer is empty.\<close>

definition queue_ok :: "bytes \<Rightarrow> bytes list \<Rightarrow> bool" where
  "queue_ok h p = ((p = [] \<longrightarrow> h = []) \<and> (p \<noteq> [] \<longrightarrow> h \<noteq> [] \<and> suffix h (hd p)) \<and>
                   (\<forall>b \<in> set (tl p). b \<noteq> []))"

lemma queue_ok_empty [simp]: "queue_ok [] []"
  by (simp add: queue_ok_def)

lemma queue_ok_next:
  "queue_ok h p \<Longrightarrow> h \<noteq> [] \<Longrightarrow> queue_ok (case tl p of [] \<Rightarrow> [] | b # _ \<Rightarrow> b) (tl p)"
  by (cases p; cases "tl p") (auto simp: queue_ok_def)

lemma queue_ok_rest: "queue_ok h p \<Longrightarrow> drop n h \<noteq> [] \<Longrightarrow> queue_ok (drop n h) p"
  by (auto simp: queue_ok_def intro: suffix_drop suffix_order.trans)

lemma queue_ok_push: "queue_ok h p \<Longrightarrow> d \<noteq> [] \<Longrightarrow> queue_ok (if h = [] then hd (p @ [d]) else h) (p @ [d])"
  by (cases p) (auto simp: queue_ok_def)

lemma queue_ok_head_Nil: "queue_ok [] p \<Longrightarrow> p = []"
  by (auto simp: queue_ok_def)

lemma queue_concat_next:
  "queue_ok h p \<Longrightarrow> h \<noteq> [] \<Longrightarrow>
   (case tl p of [] \<Rightarrow> [] | b # _ \<Rightarrow> b) @ concat (tl (tl p)) = concat (tl p)"
  by (cases p; cases "tl p") (auto simp: queue_ok_def)

end
