(* ===== verification/Quic_Stream_Read.thy ===== *)
theory Quic_Stream_Read
  imports Quic_Stream Read_Queue
begin

text \<open>
  The incoming body of a QUIC stream. The invariant \<open>qs_read_inv\<close> says how the queue of
  \<open>QuicStream\<close> hangs together and that nothing of the body is lost, repeated or reordered on
  its way to the reader; every operation keeps it (\<open>qs_*_read_inv\<close>).
\<close>

section \<open>What the reader has seen\<close>

fun read_bytes :: "quic_event \<Rightarrow> bytes" where
  "read_bytes (Read_done ec d) = d"
| "read_bytes _ = []"

fun read_credit :: "quic_event \<Rightarrow> nat" where
  "read_credit (Consume_stream n) = n"
| "read_credit _ = 0"

definition qs_delivered :: "'a quic_stream_scheme \<Rightarrow> bytes" where
  "qs_delivered s = concat (map read_bytes (qs_events s))"

definition qs_credited :: "'a quic_stream_scheme \<Rightarrow> nat" where
  "qs_credited s = sum_list (map read_credit (qs_events s))"

text \<open>What is still to be delivered: the rest of the first chunk, the other chunks, and the one
  being delivered right now.\<close>

definition qs_buffered :: "'a quic_stream_scheme \<Rightarrow> bytes" where
  "qs_buffered s = qs_read_head s @ concat (tl (qs_pending_read s)) @ qs_incoming s"

section \<open>Filling the reader's buffer\<close>

lemma fill_from_queue_ok:
  "queue_ok h p \<Longrightarrow> fill_from_queue dest h p = (c, dest', h', p') \<Longrightarrow>
   queue_ok h' p' \<and> c @ h' @ concat (tl p') = h @ concat (tl p) \<and> dest = dest' + length c \<and>
   (dest' > 0 \<longrightarrow> h' = [])"
proof (induction dest h p arbitrary: c dest' h' p' rule: fill_from_queue.induct)
  case (1 dest h p)
  define n where "n = min dest (length h)"
  define rest where "rest = drop n h"
  define q where "q = (if rest = [] then tl p else p)"
  define g where "g = (if rest = [] then (case q of [] \<Rightarrow> [] | b # _ \<Rightarrow> b) else rest)"
  show ?case
  proof (cases "dest > 0 \<and> h \<noteq> []")
    case True
    obtain c2 d2 h2 p2 where rec: "fill_from_queue (dest - n) g q = (c2, d2, h2, p2)"
      by (metis prod_cases4)
    have "fill_from_queue dest h p =
            (let (c, r) = fill_from_queue (dest - n) g q in (take n h @ c, r))"
      using True by (subst fill_from_queue.simps) (simp add: Let_def n_def rest_def q_def g_def)
    with "1.prems"(2) rec have eqs: "c = take n h @ c2" "dest' = d2" "h' = h2" "p' = p2"
      by simp_all
    have ok: "queue_ok g q"
      using "1.prems"(1) True queue_ok_rest [of h p n] by (simp add: g_def q_def rest_def queue_ok_next)
    have all: "take n h @ g @ concat (tl q) = h @ concat (tl p)"
    proof (cases "rest = []")
      case True
      with \<open>dest > 0 \<and> h \<noteq> []\<close> "1.prems"(1) show ?thesis
        by (simp add: g_def q_def queue_concat_next rest_def)
    next
      case False
      then show ?thesis by (simp add: g_def q_def rest_def)
    qed
    from "1.IH" [OF True n_def rest_def q_def g_def ok rec] all
    show ?thesis by (auto simp: eqs n_def)
  next
    case False
    with "1.prems" show ?thesis by (auto simp: fill_from_queue.simps [of dest h p])
  qed
qed

section \<open>The invariant\<close>

text \<open>The fields reading has nothing to do with, to state that it leaves them alone.\<close>

definition qs_rest :: "'a quic_stream_scheme \<Rightarrow> 'a quic_stream_scheme" where
  "qs_rest s = s\<lparr>qs_pending_read := [], qs_read_head := [], qs_incoming := [], qs_read_handler := None,
                 qs_call_read_handler_active := False, qs_reader := False, qs_script := [], qs_events := []\<rparr>"

lemma qs_rest_eqD:
  assumes "qs_rest s = qs_rest t"
  shows "qs_eof_received s = qs_eof_received t" and "qs_closed s = qs_closed t"
    and "qs_read_aborted s = qs_read_aborted t" and "qs_received s = qs_received t"
  using assms by (cases s; cases t; simp add: qs_rest_def)+

lemma qs_rest_upd [simp]:
  "qs_rest (s\<lparr>qs_pending_read := p\<rparr>) = qs_rest s" "qs_rest (s\<lparr>qs_read_head := h\<rparr>) = qs_rest s"
  "qs_rest (s\<lparr>qs_incoming := i\<rparr>) = qs_rest s" "qs_rest (s\<lparr>qs_read_handler := r\<rparr>) = qs_rest s"
  "qs_rest (s\<lparr>qs_call_read_handler_active := b\<rparr>) = qs_rest s" "qs_rest (s\<lparr>qs_reader := b\<rparr>) = qs_rest s"
  "qs_rest (s\<lparr>qs_script := as\<rparr>) = qs_rest s" "qs_rest (s\<lparr>qs_events := es\<rparr>) = qs_rest s"
  by (simp_all add: qs_rest_def)

lemma qs_rest_emit [simp]: "qs_rest (qs_emit e s) = qs_rest s"
  by (simp add: qs_emit_def)

lemma qs_rest_reader_acts [simp]: "qs_rest (qs_reader_acts s) = qs_rest s"
  by (simp add: stream_defs Let_def split: list.splits read_action.splits)

lemma qs_rest_invoke [simp]: "qs_rest (qs_invoke_read ec d s) = qs_rest s"
  by (simp add: qs_invoke_read_def)

lemma qs_rest_consume [simp]: "qs_rest (qs_consume n s) = qs_rest s"
  by (simp add: qs_consume_def)

lemma qs_rest_read_loop [simp]: "qs_rest (fst (qs_read_loop s c)) = qs_rest s"
proof (induction s c rule: qs_read_loop.induct)
  case (1 s c)
  then show ?case
    by (subst qs_read_loop.simps) (auto simp: Let_def split: option.splits prod.splits)
qed

lemma qs_rest_call_read_handler [simp]: "qs_rest (qs_call_read_handler s) = qs_rest s"
  using qs_rest_read_loop [of "s\<lparr>qs_call_read_handler_active := True\<rparr>" 0]
  by (simp add: qs_call_read_handler_def split_beta)

lemmas qs_rest_fields [simp] =
  qs_rest_eqD [OF qs_rest_call_read_handler] qs_rest_eqD [OF qs_rest_invoke]
  qs_rest_eqD [OF qs_rest_read_loop]

lemma qs_delivered_emit [simp]: "qs_delivered (qs_emit e s) = qs_delivered s @ read_bytes e"
  by (simp add: qs_delivered_def qs_emit_def)

lemma qs_credited_emit [simp]: "qs_credited (qs_emit e s) = qs_credited s + read_credit e"
  by (simp add: qs_credited_def qs_emit_def)

text \<open>\<open>qs_eof_seen\<close>: the end of the body has been reported.\<close>

definition qs_eof_seen :: "'a quic_stream_scheme \<Rightarrow> bool" where
  "qs_eof_seen s = (\<exists>d. Read_done Eof d \<in> set (qs_events s))"

definition qs_read_inv :: "'a quic_stream_scheme \<Rightarrow> bool" where
  "qs_read_inv s =
     (queue_ok (qs_read_head s) (qs_pending_read s) \<and>
      prefix (qs_delivered s) (qs_received s) \<and>
      (qs_reader s \<and> \<not> qs_read_aborted s \<longrightarrow> qs_delivered s @ qs_buffered s = qs_received s) \<and>
      (qs_read_aborted s \<longrightarrow> qs_buffered s = [] \<and> \<not> qs_eof_received s) \<and>
      (\<forall>n. qs_read_handler s = Some n \<longrightarrow> n > 0 \<and> qs_reader s) \<and>
      (qs_eof_seen s \<longrightarrow> qs_eof_received s \<and> qs_delivered s = qs_received s))"

lemma qs_read_invI [intro?]:
  assumes "queue_ok (qs_read_head s) (qs_pending_read s)"
    and "prefix (qs_delivered s) (qs_received s)"
    and "qs_reader s \<Longrightarrow> \<not> qs_read_aborted s \<Longrightarrow> qs_delivered s @ qs_buffered s = qs_received s"
    and "qs_read_aborted s \<Longrightarrow> qs_buffered s = [] \<and> \<not> qs_eof_received s"
    and "\<And>n. qs_read_handler s = Some n \<Longrightarrow> n > 0 \<and> qs_reader s"
    and "qs_eof_seen s \<Longrightarrow> qs_eof_received s \<and> qs_delivered s = qs_received s"
  shows "qs_read_inv s"
  using assms by (simp add: qs_read_inv_def)

lemma qs_read_invD:
  assumes "qs_read_inv s"
  shows "queue_ok (qs_read_head s) (qs_pending_read s)"
    and "prefix (qs_delivered s) (qs_received s)"
    and "qs_reader s \<Longrightarrow> \<not> qs_read_aborted s \<Longrightarrow> qs_delivered s @ qs_buffered s = qs_received s"
    and "qs_read_aborted s \<Longrightarrow> qs_buffered s = [] \<and> \<not> qs_eof_received s"
    and "qs_read_handler s = Some n \<Longrightarrow> n > 0 \<and> qs_reader s"
    and "qs_eof_seen s \<Longrightarrow> qs_eof_received s \<and> qs_delivered s = qs_received s"
  using assms by (simp_all add: qs_read_inv_def)

text \<open>Between operations, moreover: nothing is being delivered, credit has been given for exactly
  what the reader took, and a read is only ever left waiting when there is nothing to tell it. (An
  HTTP/3 stream marks itself closed when it resets both directions; a read that waits then is
  told by the \<open>fail()\<close> that follows from the stack.)\<close>

definition qs_read_idle :: "'a quic_stream_scheme \<Rightarrow> bool" where
  "qs_read_idle s =
     (qs_incoming s = [] \<and> \<not> qs_call_read_handler_active s \<and>
      qs_credited s = length (qs_delivered s) \<and>
      (qs_read_handler s \<noteq> None \<longrightarrow>
         qs_buffered s = [] \<and> \<not> qs_eof_received s \<and> \<not> qs_read_aborted s \<and>
         (qs_closed s \<longrightarrow> qs_class s = Http3_class)))"

lemma qs_reader_acts_inv:
  assumes "qs_read_inv s" and "qs_read_handler s = None"
  shows "qs_read_inv (qs_reader_acts s)"
    and "qs_credited (qs_reader_acts s) = qs_credited s"
    and "qs_delivered (qs_reader_acts s) = qs_delivered s"
  using assms
  by (auto simp: stream_defs Let_def qs_read_inv_def qs_delivered_def qs_credited_def qs_buffered_def qs_eof_seen_def
      split: list.splits read_action.splits)

lemma qs_invoke_read_inv:
  assumes "qs_read_inv s" and "qs_read_handler s = Some n"
    and "queue_ok h p" and "d @ h @ concat (tl p) @ i = qs_buffered s"
    and "ec = Eof \<longrightarrow> qs_eof_received s \<and> qs_buffered s = [] "
    and "t = s\<lparr>qs_read_head := h, qs_pending_read := p, qs_incoming := i\<rparr>"
  shows "qs_read_inv (qs_invoke_read ec d t)"
    and "qs_credited (qs_invoke_read ec d t) = qs_credited s"
    and "qs_delivered (qs_invoke_read ec d t) = qs_delivered s @ d"
proof -
  let ?u = "qs_emit (Read_done ec d) (t\<lparr>qs_read_handler := None\<rparr>)"
  have r: "qs_reader s" using assms(1,2) by (simp add: qs_read_inv_def)
  have del: "qs_delivered ?u = qs_delivered s @ d" and cred: "qs_credited ?u = qs_credited s"
    by (simp_all add: qs_delivered_def qs_credited_def qs_emit_def assms(6))
  have buf: "d @ qs_buffered ?u = qs_buffered s"
    using assms(4) by (simp add: qs_buffered_def qs_emit_def assms(6))
  have ab: "qs_read_aborted s \<longrightarrow> d = [] \<and> qs_buffered ?u = []"
    using assms(1) buf by (auto simp: qs_read_inv_def)
  have same: "qs_delivered ?u @ qs_buffered ?u = qs_delivered s @ qs_buffered s"
    by (simp only: del append.assoc buf)
  have fields: "qs_received ?u = qs_received s" "qs_reader ?u = qs_reader s" "qs_read_handler ?u = None"
    "qs_read_aborted ?u = qs_read_aborted s" "qs_eof_received ?u = qs_eof_received s"
    "qs_eof_seen ?u = (ec = Eof \<or> qs_eof_seen s)"
    by (auto simp: qs_emit_def assms(6) qs_eof_seen_def)
  have inv: "qs_read_inv ?u"
  proof (rule qs_read_invI)
    show "queue_ok (qs_read_head ?u) (qs_pending_read ?u)"
      using assms(3) by (simp add: qs_emit_def assms(6))
    show "prefix (qs_delivered ?u) (qs_received ?u)"
      using qs_read_invD(2,3) [OF assms(1)] r same ab del by (metis append_Nil2 fields(1) prefixI)
    show "qs_delivered ?u @ qs_buffered ?u = qs_received ?u" if "qs_reader ?u" "\<not> qs_read_aborted ?u"
      using qs_read_invD(3) [OF assms(1)] that same fields by metis
    show "qs_buffered ?u = [] \<and> \<not> qs_eof_received ?u" if "qs_read_aborted ?u"
      using qs_read_invD(4) [OF assms(1)] that ab fields by metis
    show "n > 0 \<and> qs_reader ?u" if "qs_read_handler ?u = Some n" for n
      using that fields by simp
    show "qs_eof_received ?u \<and> qs_delivered ?u = qs_received ?u" if "qs_eof_seen ?u"
    proof (cases "qs_eof_seen s")
      case True
      then have "qs_buffered s = [] "
        using qs_read_invD(3,4,6) [OF assms(1)] r by auto
      with True show ?thesis using qs_read_invD(6) [OF assms(1)] del buf fields by auto
    next
      case False
      then have "qs_eof_received s" "qs_buffered s = []" using that assms(5) fields by auto
      then show ?thesis using qs_read_invD(3,4) [OF assms(1)] r del buf fields by auto
    qed
  qed
  show "qs_read_inv (qs_invoke_read ec d t)"
    and "qs_credited (qs_invoke_read ec d t) = qs_credited s"
    and "qs_delivered (qs_invoke_read ec d t) = qs_delivered s @ d"
    using qs_reader_acts_inv [OF inv] del cred by (simp_all add: qs_invoke_read_def qs_emit_def)
qed


section \<open>Delivering\<close>

lemma qs_read_loop_inv:
  "qs_read_inv s \<Longrightarrow> qs_read_loop s c = (s', c') \<Longrightarrow>
   qs_read_inv s' \<and> length (qs_delivered s') + c = length (qs_delivered s) + c' \<and>
   qs_credited s' = qs_credited s \<and>
   (qs_read_handler s' \<noteq> None \<longrightarrow>
      qs_read_head s' = [] \<and> qs_incoming s' = [] \<and> \<not> qs_eof_received s' \<and> \<not> qs_closed s' \<and>
      \<not> qs_read_aborted s')"
proof (induction s c arbitrary: s' c' rule: qs_read_loop.induct)
  case (1 s c)
  show ?case
  proof (cases "qs_read_handler s")
    case None
    with "1.prems" show ?thesis by (auto simp: qs_read_loop.simps [of s c])
  next
    case (Some n)
    consider (data) "qs_read_head s \<noteq> [] \<or> qs_incoming s \<noteq> []"
      | (eof) "qs_read_head s = []" "qs_incoming s = []" "qs_eof_received s"
      | (dead) "qs_read_head s = []" "qs_incoming s = []" "\<not> qs_eof_received s" "qs_closed s \<or> qs_read_aborted s"
      | (wait) "qs_read_head s = []" "qs_incoming s = []" "\<not> qs_eof_received s" "\<not> (qs_closed s \<or> qs_read_aborted s)"
      by blast
    then show ?thesis
    proof cases
      case data
      obtain d1 dest' h p where fill: "fill_from_queue n (qs_read_head s) (qs_pending_read s) = (d1, dest', h, p)"
        by (metis prod_cases4)
      note ok = fill_from_queue_ok [OF qs_read_invD(1) [OF "1.prems"(1)] fill]
      define d2 where "d2 = (if dest' > 0 \<and> qs_incoming s \<noteq> [] then take dest' (qs_incoming s) else [])"
      define t where "t = s\<lparr>qs_read_head := h, qs_pending_read := p,
                            qs_incoming := drop (length d2) (qs_incoming s)\<rparr>"
      have step: "qs_read_loop s c = qs_read_loop (qs_invoke_read Success (d1 @ d2) t) (c + length (d1 @ d2))"
        using Some data fill by (simp add: qs_read_loop.simps [of s c] Let_def d2_def t_def)
      have "d2 @ drop (length d2) (qs_incoming s) = qs_incoming s"
        by (simp add: d2_def min_def)
      moreover have "h = [] \<and> p = []" if "d2 \<noteq> []"
        using that ok queue_ok_head_Nil [of p] by (auto simp: d2_def split: if_splits)
      ultimately have buf: "(d1 @ d2) @ h @ concat (tl p) @ drop (length d2) (qs_incoming s) = qs_buffered s"
        using ok by (cases "d2 = []") (auto simp: qs_buffered_def)
      have inv: "qs_read_inv (qs_invoke_read Success (d1 @ d2) t)"
        and cred: "qs_credited (qs_invoke_read Success (d1 @ d2) t) = qs_credited s"
        and del: "qs_delivered (qs_invoke_read Success (d1 @ d2) t) = qs_delivered s @ d1 @ d2"
        using qs_invoke_read_inv [OF "1.prems"(1) Some conjunct1 [OF ok] buf _ t_def, of Success] by simp_all
      have rec: "qs_read_loop (qs_invoke_read Success (d1 @ d2) t) (c + length (d1 @ d2)) = (s', c')"
        using step "1.prems"(2) by simp
      show ?thesis
        using "1.IH"(1) [OF Some data fill [symmetric] refl refl refl d2_def t_def inv rec] cred del by simp
    next
      case eof
      then have b: "qs_buffered s = []"
        using queue_ok_head_Nil qs_read_invD(1) [OF "1.prems"(1)] by (fastforce simp: qs_buffered_def)
      have step: "qs_read_loop s c = qs_read_loop (qs_invoke_read Eof [] s) c"
        using Some eof by (simp add: qs_read_loop.simps [of s c])
      have "qs_read_inv (qs_invoke_read Eof [] s)" "qs_credited (qs_invoke_read Eof [] s) = qs_credited s"
        "qs_delivered (qs_invoke_read Eof [] s) = qs_delivered s"
        using qs_invoke_read_inv [OF "1.prems"(1) Some qs_read_invD(1) [OF "1.prems"(1)], of "[]" "qs_incoming s" Eof s]
          eof b by (simp_all add: qs_buffered_def)
      moreover have "qs_read_loop (qs_invoke_read Eof [] s) c = (s', c')"
        using step "1.prems"(2) by simp
      ultimately show ?thesis using "1.IH"(2) [OF Some, of s' c'] eof by simp
    next
      case dead
      have step: "qs_read_loop s c = qs_read_loop (qs_invoke_read Partial_message [] s) c"
        using Some dead by (simp add: qs_read_loop.simps [of s c])
      have "qs_read_inv (qs_invoke_read Partial_message [] s)"
        "qs_credited (qs_invoke_read Partial_message [] s) = qs_credited s"
        "qs_delivered (qs_invoke_read Partial_message [] s) = qs_delivered s"
        using qs_invoke_read_inv [OF "1.prems"(1) Some qs_read_invD(1) [OF "1.prems"(1)],
          of "[]" "qs_incoming s" Partial_message s] by (simp_all add: qs_buffered_def)
      moreover have "qs_read_loop (qs_invoke_read Partial_message [] s) c = (s', c')"
        using step "1.prems"(2) by simp
      ultimately show ?thesis using "1.IH"(3) [OF Some, of s' c'] dead by simp
    next
      case wait
      with Some "1.prems" show ?thesis by (auto simp: qs_read_loop.simps [of s c])
    qed
  qed
qed

lemma qs_call_read_handler_inv:
  assumes "qs_read_inv s" and "\<not> qs_call_read_handler_active s"
    and "qs_credited s = length (qs_delivered s)"
  shows "qs_read_inv (qs_call_read_handler s)"
    and "\<not> qs_call_read_handler_active (qs_call_read_handler s)"
    and "qs_credited (qs_call_read_handler s) = length (qs_delivered (qs_call_read_handler s))"
    and "qs_read_handler (qs_call_read_handler s) \<noteq> None \<Longrightarrow>
         qs_read_head (qs_call_read_handler s) = [] \<and> qs_incoming (qs_call_read_handler s) = [] \<and>
         \<not> qs_eof_received s \<and> \<not> qs_closed s \<and> \<not> qs_read_aborted s"
proof -
  let ?s = "s\<lparr>qs_call_read_handler_active := True\<rparr>"
  obtain t c where loop: "qs_read_loop ?s 0 = (t, c)" by fastforce
  have inv: "qs_read_inv ?s"
    using assms(1) by (simp add: qs_read_inv_def qs_buffered_def qs_delivered_def qs_eof_seen_def)
  have del: "qs_delivered ?s = qs_delivered s" "qs_credited ?s = qs_credited s"
    by (simp_all add: qs_delivered_def qs_credited_def)
  note L = qs_read_loop_inv [OF inv loop]
  have rest: "qs_rest t = qs_rest s"
    using qs_rest_read_loop [of ?s 0] by (simp add: loop)
  have call: "qs_call_read_handler s =
     (if qs_read_handler s = None then s else qs_consume c (t\<lparr>qs_call_read_handler_active := False\<rparr>))"
    using assms(2) by (simp add: qs_call_read_handler_def loop)
  have upd: "qs_read_inv (qs_consume n (t\<lparr>qs_call_read_handler_active := False\<rparr>)) = qs_read_inv t" for n
    by (simp add: qs_read_inv_def qs_consume_def qs_emit_def qs_buffered_def qs_delivered_def qs_eof_seen_def)
  show "qs_read_inv (qs_call_read_handler s)"
    using assms(1) L by (simp add: call upd)
  show "\<not> qs_call_read_handler_active (qs_call_read_handler s)"
    using assms(2) by (simp add: call qs_consume_def qs_emit_def)
  show "qs_credited (qs_call_read_handler s) = length (qs_delivered (qs_call_read_handler s))"
    using assms(3) L del by (simp add: call qs_consume_def qs_credited_def qs_delivered_def qs_emit_def)
  show "qs_read_head (qs_call_read_handler s) = [] \<and> qs_incoming (qs_call_read_handler s) = [] \<and>
         \<not> qs_eof_received s \<and> \<not> qs_closed s \<and> \<not> qs_read_aborted s"
    if "qs_read_handler (qs_call_read_handler s) \<noteq> None"
    using that L qs_rest_eqD [OF rest] by (auto simp: call qs_consume_def qs_emit_def split: if_splits)
qed


text \<open>Delivering takes from \<open>incoming\<close> and never adds to it.\<close>

lemma qs_invoke_read_no_incoming: "qs_incoming s = [] \<Longrightarrow> qs_incoming (qs_invoke_read ec d s) = []"
  by (simp add: stream_defs Let_def split: list.splits read_action.splits)

lemma qs_read_loop_no_incoming: "qs_incoming s = [] \<Longrightarrow> qs_incoming (fst (qs_read_loop s c)) = []"
proof (induction s c rule: qs_read_loop.induct)
  case (1 s c)
  then show ?case
    by (subst qs_read_loop.simps)
      (auto simp: Let_def qs_invoke_read_no_incoming split: option.splits prod.splits)
qed

lemma qs_call_read_handler_keeps_no_incoming:
  "qs_incoming s = [] \<Longrightarrow> qs_incoming (qs_call_read_handler s) = []"
  using qs_read_loop_no_incoming [of "s\<lparr>qs_call_read_handler_active := True\<rparr>" 0]
  by (simp add: qs_call_read_handler_def split_beta qs_consume_def qs_emit_def)

lemma qs_read_invE:
  assumes "qs_read_inv s" and "qs_read_idle s"
  shows "qs_incoming s = []" and "\<not> qs_call_read_handler_active s"
    and "qs_credited s = length (qs_delivered s)"
    and "qs_read_handler s \<noteq> None \<Longrightarrow>
         qs_buffered s = [] \<and> \<not> qs_eof_received s \<and> \<not> qs_read_aborted s"
  using assms by (auto simp: qs_read_idle_def)

lemma qs_call_read_handler_idle:
  assumes "qs_read_inv s" and "\<not> qs_call_read_handler_active s"
    and "qs_credited s = length (qs_delivered s)" and "qs_incoming s = []"
  shows "qs_read_idle (qs_call_read_handler s)"
proof -
  note C = qs_call_read_handler_inv [OF assms(1-3)]
  have "qs_incoming (qs_call_read_handler s) = []"
    using assms(4) qs_call_read_handler_keeps_no_incoming by blast
  with C show ?thesis
    using queue_ok_head_Nil [of "qs_pending_read (qs_call_read_handler s)"]
      qs_read_invD(1) [OF C(1)]
    by (auto simp: qs_read_idle_def qs_buffered_def)
qed

section \<open>Every operation keeps the invariant\<close>

text \<open>What reading looks at, so that an operation that changes nothing of it keeps the invariant.\<close>

lemma qs_read_frame:
  assumes "qs_read_head t = qs_read_head s" "qs_pending_read t = qs_pending_read s"
    "qs_incoming t = qs_incoming s" "qs_read_handler t = qs_read_handler s"
    "qs_call_read_handler_active t = qs_call_read_handler_active s" "qs_reader t = qs_reader s"
    "qs_eof_received t = qs_eof_received s" "qs_read_aborted t = qs_read_aborted s"
    "qs_received t = qs_received s"
    "qs_class t = qs_class s"
    "qs_closed t = qs_closed s \<or> qs_read_handler s = None \<or> qs_class s = Http3_class"
    "qs_delivered t = qs_delivered s" "qs_credited t = qs_credited s" "qs_eof_seen t = qs_eof_seen s"
  shows "qs_read_inv t = qs_read_inv s" and "qs_read_idle s \<Longrightarrow> qs_read_idle t"
  using assms by (auto simp: qs_read_inv_def qs_read_idle_def qs_buffered_def)

text \<open>A read that finds the delivering loop active above it on the stack is parked, and nothing
  else: this is what the script of the reader relies on.\<close>

lemma nested_read_is_parked:
  "qs_call_read_handler_active s \<Longrightarrow> n > 0 \<Longrightarrow>
   qs_async_read_some n s = s\<lparr>qs_read_handler := Some n\<rparr>"
  by (simp add: qs_async_read_some_def qs_call_read_handler_def)

lemma qs_async_read_some_read_inv:
  assumes "qs_read_inv s" and "qs_read_idle s" and "qs_reader s"
  shows "qs_read_inv (qs_async_read_some n s)" and "qs_read_idle (qs_async_read_some n s)"
proof -
  let ?t = "s\<lparr>qs_read_handler := Some n\<rparr>"
  have inv: "qs_read_inv ?t" if "n > 0"
    using assms(1,3) that by (simp add: qs_read_inv_def qs_buffered_def qs_delivered_def qs_eof_seen_def)
  have cred: "qs_credited ?t = length (qs_delivered ?t)" and "qs_incoming ?t = []" "\<not> qs_call_read_handler_active ?t"
    using qs_read_invE [OF assms(1,2)] by (simp_all add: qs_credited_def qs_delivered_def)
  with inv have "n > 0 \<Longrightarrow> qs_read_inv (qs_call_read_handler ?t) \<and> qs_read_idle (qs_call_read_handler ?t)"
    using qs_call_read_handler_inv(1) qs_call_read_handler_idle by blast
  moreover have "qs_read_inv (qs_emit (Read_done Success []) s)" "qs_read_idle (qs_emit (Read_done Success []) s)"
    using qs_read_frame [of "qs_emit (Read_done Success []) s" s] assms(1,2)
    by (simp_all add: qs_emit_def qs_delivered_def qs_credited_def qs_eof_seen_def)
  ultimately show "qs_read_inv (qs_async_read_some n s)" and "qs_read_idle (qs_async_read_some n s)"
    by (simp_all add: qs_async_read_some_def)
qed


lemma qs_cancel_read_read_inv:
  assumes "qs_read_inv s" and "qs_read_idle s"
  shows "qs_read_inv (qs_cancel_read s)" and "qs_read_idle (qs_cancel_read s)"
  using assms
  by (auto simp: qs_cancel_read_def qs_read_inv_def qs_read_idle_def qs_emit_def qs_delivered_def
      qs_credited_def qs_eof_seen_def qs_buffered_def)

lemma qs_on_data_chunk_read_inv:
  assumes "qs_read_inv s" and "qs_read_idle s" and "\<not> qs_eof_received s" and "\<not> qs_read_aborted s"
  shows "qs_read_inv (qs_on_data_chunk d s)" and "qs_read_idle (qs_on_data_chunk d s)"
proof -
  let ?t = "s\<lparr>qs_incoming := d, qs_received := qs_received s @ d\<rparr>"
  let ?c = "qs_call_read_handler ?t"
  have fields: "qs_delivered ?t = qs_delivered s" "qs_credited ?t = qs_credited s" "qs_eof_seen ?t = qs_eof_seen s"
    "qs_buffered ?t = qs_buffered s @ d"
    using qs_read_invE(1) [OF assms(1,2)]
    by (simp_all add: qs_delivered_def qs_credited_def qs_eof_seen_def qs_buffered_def)
  have inv: "qs_read_inv ?t"
    using qs_read_invD [OF assms(1)] assms(3,4) fields by (intro qs_read_invI) auto
  have act: "\<not> qs_call_read_handler_active ?t" and cred: "qs_credited ?t = length (qs_delivered ?t)"
    using qs_read_invE [OF assms(1,2)] fields by simp_all
  note C = qs_call_read_handler_inv [OF inv act cred]
  let ?p = "qs_pending_read ?c @ [qs_incoming ?c]"
  let ?u = "?c\<lparr>qs_pending_read := ?p,
               qs_read_head := (if qs_read_head ?c = [] then hd ?p else qs_read_head ?c), qs_incoming := []\<rparr>"
  have u: "qs_on_data_chunk d s = (if d = [] then s else if qs_incoming ?c \<noteq> [] then ?u else ?c)"
    by (simp add: qs_on_data_chunk_def Let_def)
  have same: "qs_delivered ?u = qs_delivered ?c" "qs_credited ?u = qs_credited ?c" "qs_eof_seen ?u = qs_eof_seen ?c"
    by (simp_all add: qs_delivered_def qs_credited_def qs_eof_seen_def)
  have "qs_pending_read ?c = [] \<longleftrightarrow> qs_read_head ?c = []"
    using qs_read_invD(1) [OF C(1)] by (auto simp: queue_ok_def)
  then have buf: "qs_buffered ?u = qs_buffered ?c"
    by (cases "qs_pending_read ?c") (auto simp: qs_buffered_def)
  have "qs_read_inv ?u" if "qs_incoming ?c \<noteq> []"
  proof (rule qs_read_invI)
    show "queue_ok (qs_read_head ?u) (qs_pending_read ?u)"
      using queue_ok_push [OF qs_read_invD(1) [OF C(1)] that] by simp
  qed (use qs_read_invD [OF C(1)] same buf in auto)
  then show "qs_read_inv (qs_on_data_chunk d s)"
    using assms(1) C(1) by (simp add: u)
  have "qs_read_idle ?u" if "qs_incoming ?c \<noteq> []"
    using C(2,3,4) that same by (auto simp: qs_read_idle_def)
  moreover have "qs_read_idle ?c" if "qs_incoming ?c = []"
    using C(2,3,4) that queue_ok_head_Nil [of "qs_pending_read ?c"] qs_read_invD(1) [OF C(1)]
    by (auto simp: qs_read_idle_def qs_buffered_def)
  ultimately show "qs_read_idle (qs_on_data_chunk d s)"
    using assms(2) by (simp add: u)
qed

lemma qs_on_eof_read_inv:
  assumes "qs_read_inv s" and "qs_read_idle s" and "\<not> qs_read_aborted s"
  shows "qs_read_inv (qs_on_eof s)" and "qs_read_idle (qs_on_eof s)"
proof -
  let ?t = "s\<lparr>qs_eof_received := True\<rparr>"
  have "qs_read_inv ?t"
    using assms(1,3) by (simp add: qs_read_inv_def qs_delivered_def qs_eof_seen_def qs_buffered_def)
  moreover have "\<not> qs_call_read_handler_active ?t" "qs_credited ?t = length (qs_delivered ?t)" "qs_incoming ?t = []"
    using qs_read_invE [OF assms(1,2)] by (simp_all add: qs_delivered_def qs_credited_def)
  ultimately show "qs_read_inv (qs_on_eof s)" and "qs_read_idle (qs_on_eof s)"
    unfolding qs_on_eof_def by (blast intro: qs_call_read_handler_inv qs_call_read_handler_idle)+
qed

lemma qs_abort_reading_read_inv:
  assumes "qs_read_inv s" and "qs_read_idle s"
  shows "qs_read_inv (qs_abort_reading s)" and "qs_read_idle (qs_abort_reading s)"
proof -
  let ?t = "s\<lparr>qs_read_aborted := True, qs_pending_read := [], qs_read_head := [], qs_incoming := []\<rparr>"
  have "qs_read_inv ?t" if "\<not> qs_eof_received s"
    using assms(1) that by (simp add: qs_read_inv_def qs_delivered_def qs_eof_seen_def qs_buffered_def)
  moreover have "\<not> qs_call_read_handler_active ?t" "qs_credited ?t = length (qs_delivered ?t)" "qs_incoming ?t = []"
    using qs_read_invE [OF assms(1,2)] by (simp_all add: qs_delivered_def qs_credited_def)
  ultimately have "\<not> qs_eof_received s \<Longrightarrow>
      qs_read_inv (qs_call_read_handler ?t) \<and> qs_read_idle (qs_call_read_handler ?t)"
    by (blast intro: qs_call_read_handler_inv qs_call_read_handler_idle)
  with assms show "qs_read_inv (qs_abort_reading s)" and "qs_read_idle (qs_abort_reading s)"
    by (simp_all add: qs_abort_reading_def)
qed

lemma qs_reader_dtor_read_inv:
  assumes "qs_read_inv s" and "qs_read_idle s" and "qs_read_handler s = None"
  shows "qs_read_inv (qs_reader_dtor s)" and "qs_read_idle (qs_reader_dtor s)"
  using assms
  by (auto simp: stream_defs Let_def qs_read_inv_def qs_read_idle_def qs_delivered_def qs_credited_def
      qs_eof_seen_def qs_buffered_def)

end
