(* ===== verification/Quic_Stream_Write.thy ===== *)
theory Quic_Stream_Write
  imports Quic_Stream
begin

text \<open>
  The outgoing body of a QUIC stream: the positions of \<open>QuicStream\<close>, the chunks of a staged
  write, and what the stack is handed. \<open>qs_write_inv\<close> ties them to the body as the user wrote it
  (\<open>qs_body\<close>) and to the memory of the caller; every operation keeps it (\<open>qs_*_write_inv\<close>).
\<close>

section \<open>Chunks\<close>

text \<open>The chunks from one offset to another, without a gap and none of them empty.\<close>

fun chain :: "nat \<Rightarrow> chunk list \<Rightarrow> nat \<Rightarrow> bool" where
  "chain a [] b = (a = b)"
| "chain a (c # cs) b =
     (chunk_offset c = a \<and> chunk_data c \<noteq> [] \<and> chain (a + length (chunk_data c)) cs b)"

definition chunk_bytes :: "chunk list \<Rightarrow> bytes" where
  "chunk_bytes cs = concat (map chunk_data cs)"

lemma chunk_bytes_simps [simp]:
  "chunk_bytes [] = []" "chunk_bytes (c # cs) = chunk_data c @ chunk_bytes cs"
  "chunk_bytes (cs @ ds) = chunk_bytes cs @ chunk_bytes ds"
  by (simp_all add: chunk_bytes_def)

lemma chain_length: "chain a cs b \<Longrightarrow> b = a + length (chunk_bytes cs)"
  by (induction a cs b rule: chain.induct) auto

lemma chain_snoc:
  "chain a cs b \<Longrightarrow> d \<noteq> [] \<Longrightarrow> chain a (cs @ [Chunk b d]) (b + length d)"
  by (induction a cs b rule: chain.induct) auto

lemma chunks_from_after:
  "chain a cs q \<Longrightarrow> from \<le> a \<Longrightarrow> chunks_from cap from a cs = (v, e) \<Longrightarrow>
   prefix (concat v) (chunk_bytes cs) \<and> e = a + length (concat v)"
proof (induction cs arbitrary: a cap v e)
  case (Cons c cs)
  have c: "chunk_offset c = a" "\<not> chunk_offset c + length (chunk_data c) \<le> from"
    using Cons.prems(1,2) by (auto simp: length_greater_0_conv [symmetric] simp del: length_greater_0_conv)
  show ?case
  proof (cases "cap = 0")
    case True
    with c Cons.prems(2,3) have "v = []" "e = a" by (auto simp: Let_def split: if_splits)
    then show ?thesis by simp
  next
    case False
    obtain v' e' where rec: "chunks_from (cap - 1) from (a + length (chunk_data c)) cs = (v', e')"
      by fastforce
    have "chain (a + length (chunk_data c)) cs q" "from \<le> a + length (chunk_data c)"
      using Cons.prems by auto
    note IH = Cons.IH [OF this rec]
    with c rec False Cons.prems(2,3) have "v = chunk_data c # v'" "e = e'"
      by (auto simp: Let_def split: if_splits)
    with IH show ?thesis by simp
  qed
qed auto

lemma chunks_from_chain:
  "chain a cs q \<Longrightarrow> a \<le> from \<Longrightarrow> chunks_from cap from from cs = (v, e) \<Longrightarrow>
   prefix (concat v) (drop (from - a) (chunk_bytes cs)) \<and> e = from + length (concat v)"
proof (induction cs arbitrary: a)
  case (Cons c cs)
  let ?b = "a + length (chunk_data c)"
  have chain: "chunk_offset c = a" "chain ?b cs q" using Cons.prems by auto
  show ?case
  proof (cases "?b \<le> from")
    case True
    then have "chunks_from cap from from cs = (v, e)"
      using Cons.prems chain by (simp add: Let_def)
    with Cons.IH [OF chain(2) True] True show ?thesis by simp
  next
    case False
    show ?thesis
    proof (cases "cap = 0")
      case True
      with False Cons.prems chain show ?thesis by (auto simp: Let_def)
    next
      case cap: False
      obtain v' e' where rec: "chunks_from (cap - 1) from ?b cs = (v', e')" by fastforce
      have v: "v = drop (from - a) (chunk_data c) # v'" "e = e'"
        using False cap Cons.prems chain rec by (auto simp: Let_def split: if_splits)
      with chunks_from_after [OF chain(2) _ rec] False Cons.prems(2) show ?thesis by auto
    qed
  qed
qed auto

lemma drop_acked_chain:
  "chain a cs q \<Longrightarrow> a \<le> acked \<Longrightarrow>
   \<exists>b \<le> acked. a \<le> b \<and> chain b (drop_acked acked cs) q \<and>
     chunk_bytes (drop_acked acked cs) = drop (b - a) (chunk_bytes cs)"
proof (induction cs arbitrary: a)
  case (Cons c cs)
  let ?b = "a + length (chunk_data c)"
  show ?case
  proof (cases "?b \<le> acked")
    case True
    with Cons.IH [of ?b] Cons.prems obtain b where
      "b \<le> acked" "?b \<le> b" "chain b (drop_acked acked cs) q"
      "chunk_bytes (drop_acked acked cs) = drop (b - ?b) (chunk_bytes cs)" by auto
    with True Cons.prems show ?thesis
      by (intro exI [of _ b]) (auto simp: drop_acked_def)
  next
    case False
    with Cons.prems show ?thesis by (intro exI [of _ a]) (auto simp: drop_acked_def)
  qed
qed (auto simp: drop_acked_def)

section \<open>The invariant\<close>

text \<open>The positions: each is the end of a prefix of the body.\<close>

definition qs_positions_ok :: "'a quic_stream_scheme \<Rightarrow> bool" where
  "qs_positions_ok s =
     (qs_tx_acked s \<le> qs_tx_offered s \<and> qs_tx_sent s \<le> qs_tx_offered s \<and>
      qs_tx_offered s \<le> qs_tx_queued s \<and> length (qs_body s) = qs_tx_queued s)"

text \<open>The body ends with what has been taken over of the active write.\<close>

fun taken :: "write_mode \<Rightarrow> nat \<Rightarrow> bytes \<Rightarrow> bytes" where
  "taken ZeroCopy copied source = source"
| "taken Staged copied source = take copied source"

definition qs_source_ok :: "'a quic_stream_scheme \<Rightarrow> bool" where
  "qs_source_ok s =
     (qs_write_active s \<longrightarrow>
        qs_write_copied s \<le> length (qs_write_source s) \<and>
        qs_tx_queued s = qs_write_base s + length (taken (qs_write_mode s) (qs_write_copied s) (qs_write_source s)) \<and>
        drop (qs_write_base s) (qs_body s) = taken (qs_write_mode s) (qs_write_copied s) (qs_write_source s))"

text \<open>Staged: the stream owns a copy of all that is not acknowledged. ZeroCopy: all that is not
  acknowledged is memory of the write in progress.\<close>

definition qs_memory_ok :: "'a quic_stream_scheme \<Rightarrow> bool" where
  "qs_memory_ok s =
     ((qs_write_mode s = Staged \<longrightarrow>
         (\<exists>a \<le> qs_tx_acked s. chain a (qs_chunks s) (qs_tx_queued s) \<and>
            chunk_bytes (qs_chunks s) = drop a (qs_body s))) \<and>
      (qs_write_mode s = ZeroCopy \<and> \<not> qs_closed s \<and> \<not> qs_write_aborted s \<longrightarrow>
         (qs_write_active s \<longrightarrow> qs_write_base s \<le> qs_tx_acked s) \<and>
         (\<not> qs_write_active s \<longrightarrow> qs_tx_acked s = qs_tx_queued s)))"

text \<open>The handler: only the end of a body waits without one, its handler having been cancelled.\<close>

definition qs_handler_ok :: "'a quic_stream_scheme \<Rightarrow> bool" where
  "qs_handler_ok s =
     ((qs_write_handler s \<longrightarrow> qs_write_active s) \<and>
      (qs_write_active s \<and> \<not> qs_write_handler s \<longrightarrow> qs_write_is_eof s \<and> qs_write_source s = []) \<and>
      (qs_write_active s \<and> qs_write_is_eof s \<longrightarrow> qs_eof_submitted s) \<and>
      (qs_write_active s \<and> \<not> qs_write_is_eof s \<longrightarrow> qs_write_source s \<noteq> [] \<and> \<not> qs_eof_submitted s) \<and>
      (\<not> qs_write_active s \<longrightarrow> qs_write_source s = []) \<and>
      qs_write_token s < qs_next_write_token s)"

text \<open>The end: once handed over, there is nothing behind it. And no write is left waiting that is
  through: acknowledged in full, or copied and in packets.\<close>

definition qs_end_ok :: "'a quic_stream_scheme \<Rightarrow> bool" where
  "qs_end_ok s =
     ((qs_fin_offered s \<longrightarrow>
         qs_tx_offered s = qs_tx_queued s \<and> (qs_closed s \<or> qs_write_aborted s \<or> qs_eof_submitted s) \<and>
         (qs_write_active s \<longrightarrow> qs_write_is_eof s \<and> qs_write_source s \<noteq> [] \<and>
            (qs_write_mode s = Staged \<longrightarrow> qs_write_copied s = length (qs_write_source s)))) \<and>
      (qs_write_mode s = ZeroCopy \<and> qs_write_active s \<and> qs_write_source s \<noteq> [] \<longrightarrow>
         qs_tx_acked s < qs_tx_queued s) \<and>
      (qs_write_mode s = Staged \<and> qs_write_active s \<and> qs_write_source s \<noteq> [] \<and>
         qs_write_copied s = length (qs_write_source s) \<longrightarrow> qs_tx_sent s < qs_tx_queued s))"

definition qs_write_inv :: "'a quic_stream_scheme \<Rightarrow> bool" where
  "qs_write_inv s =
     (qs_positions_ok s \<and> qs_source_ok s \<and> qs_memory_ok s \<and> qs_handler_ok s \<and> qs_end_ok s)"

lemmas qs_write_inv_defs =
  qs_write_inv_def qs_positions_ok_def qs_source_ok_def qs_memory_ok_def qs_handler_ok_def
  qs_end_ok_def

lemma qs_init_write_inv: "qs_write_inv (qs_init c m)"
  by (cases m) (simp_all add: qs_write_inv_defs qs_init_def)

text \<open>What writing looks at: an operation that changes nothing of it keeps the invariant.\<close>

definition qs_wside :: "'a quic_stream_scheme \<Rightarrow> quic_stream" where
  "qs_wside s = quic_stream.truncate
     (s\<lparr>qs_pending_read := [], qs_read_head := [], qs_incoming := [], qs_eof_received := False,
        qs_read_handler := None, qs_call_read_handler_active := False, qs_read_aborted := False,
        qs_reader := False, qs_writer := False, qs_class := Plain_class,
        qs_script := [], qs_events := [], qs_received := []\<rparr>)"

lemma qs_wside_eqD:
  assumes "qs_wside s = qs_wside t"
  shows "qs_write_mode s = qs_write_mode t" "qs_write_active s = qs_write_active t"
    "qs_write_source s = qs_write_source t" "qs_write_is_eof s = qs_write_is_eof t"
    "qs_write_handler s = qs_write_handler t" "qs_write_token s = qs_write_token t"
    "qs_next_write_token s = qs_next_write_token t" "qs_eof_submitted s = qs_eof_submitted t"
    "qs_fin_offered s = qs_fin_offered t" "qs_write_base s = qs_write_base t"
    "qs_write_copied s = qs_write_copied t" "qs_tx_queued s = qs_tx_queued t"
    "qs_tx_offered s = qs_tx_offered t" "qs_tx_sent s = qs_tx_sent t" "qs_tx_acked s = qs_tx_acked t"
    "qs_chunks s = qs_chunks t" "qs_closed s = qs_closed t" "qs_write_aborted s = qs_write_aborted t"
    "qs_body s = qs_body t" "qs_wire s = qs_wire t"
  using assms by (cases s; cases t; simp add: qs_wside_def quic_stream.defs)+

lemma qs_wside_cong:
  assumes "qs_wside s = qs_wside t"
  shows "qs_write_inv s = qs_write_inv t"
  unfolding qs_write_inv_defs by (simp only: qs_wside_eqD [OF assms])

section \<open>Every operation keeps the invariant\<close>

lemma qs_write_invI:
  assumes "qs_positions_ok s" "qs_source_ok s" "qs_memory_ok s" "qs_handler_ok s" "qs_end_ok s"
  shows "qs_write_inv s"
  using assms by (simp add: qs_write_inv_def)

lemma qs_write_inv_emit [simp]: "qs_write_inv (qs_emit e s) = qs_write_inv s"
  by (rule qs_wside_cong) (simp add: qs_wside_def qs_emit_def quic_stream.defs)

text \<open>A write can be let go of when it leaves nothing behind that refers to its memory.\<close>

lemma qs_release_inv:
  assumes "qs_write_inv s"
    and "qs_write_mode s = ZeroCopy \<Longrightarrow> \<not> qs_closed s \<Longrightarrow> \<not> qs_write_aborted s \<Longrightarrow> qs_tx_acked s = qs_tx_queued s"
  shows "qs_write_inv (s\<lparr>qs_write_active := False, qs_write_source := [], qs_write_handler := False\<rparr>)"
  using assms by (intro qs_write_invI; cases "qs_write_mode s"; force simp: qs_write_inv_defs)

lemma qs_finish_active_write_eq:
  "qs_finish_active_write s =
     (if qs_write_handler s then qs_emit (Write_done Success) else id)
       (s\<lparr>qs_write_active := False, qs_write_source := [], qs_write_handler := False\<rparr>)"
  by (cases s) (simp add: qs_finish_active_write_def qs_complete_write_def qs_emit_def)

lemma qs_abort_active_write_eq:
  "qs_abort_active_write ec s =
     (if qs_write_active s
      then (if qs_write_handler s then qs_emit (Write_done ec) else id)
        (s\<lparr>qs_write_active := False, qs_write_source := [], qs_write_handler := False\<rparr>)
      else s)"
  by (cases s) (simp add: qs_abort_active_write_def qs_complete_write_def qs_emit_def)

lemma qs_finish_active_write_inv:
  assumes "qs_write_inv s" and "qs_write_mode s = ZeroCopy \<Longrightarrow> qs_tx_acked s = qs_tx_queued s"
  shows "qs_write_inv (qs_finish_active_write s)"
  using assms qs_release_inv [of s] by (simp add: qs_finish_active_write_eq)

lemma qs_abort_active_write_inv:
  assumes "qs_write_inv s" and "qs_closed s \<or> qs_write_aborted s"
  shows "qs_write_inv (qs_abort_active_write ec s)"
  using assms qs_release_inv [of s] by (auto simp: qs_abort_active_write_eq)

lemma qs_start_write_write_inv:
  assumes "qs_write_inv s" and "\<not> qs_write_handler s"
  shows "qs_write_inv (qs_start_write b eof s)"
proof (cases "b = [] \<and> \<not> eof \<or> qs_eof_submitted s \<or> qs_closed s \<or> qs_write_aborted s")
  case True
  moreover have "qs_write_inv (s\<lparr>qs_write_handler := True\<rparr>)" if "qs_write_active s"
    using assms(1) that by (intro qs_write_invI; cases "qs_write_mode s"; force simp: qs_write_inv_defs)
  ultimately show ?thesis using assms(1) by (auto simp: qs_start_write_def)
next
  case False
  then have inactive: "\<not> qs_write_active s" using assms by (auto simp: qs_write_inv_defs)
  let ?t = "s\<lparr>qs_eof_submitted := eof, qs_next_write_token := Suc (qs_next_write_token s),
              qs_write_active := True, qs_write_source := b, qs_write_base := qs_tx_queued s,
              qs_write_copied := 0, qs_write_is_eof := eof,
              qs_write_token := qs_next_write_token s, qs_write_handler := True\<rparr>"
  let ?u = "if qs_write_mode s = ZeroCopy
            then ?t\<lparr>qs_tx_queued := qs_tx_queued s + length b, qs_body := qs_body s @ b\<rparr> else ?t"
  have "qs_start_write b eof s = qs_emit On_writable ?u"
    using False by (cases s; cases eof) (simp_all add: qs_start_write_def Let_def)
  moreover have "qs_write_inv ?u"
    using False inactive assms(1)
    by (intro qs_write_invI; cases eof; cases "qs_write_mode s"; force simp: qs_write_inv_defs)
  ultimately show ?thesis by simp
qed

lemma qs_write_inv_positionsD:
  assumes "qs_write_inv s"
  shows "qs_tx_acked s \<le> qs_tx_offered s" "qs_tx_sent s \<le> qs_tx_offered s"
    "qs_tx_offered s \<le> qs_tx_queued s" "length (qs_body s) = qs_tx_queued s"
  using assms by (simp_all add: qs_write_inv_def qs_positions_ok_def)

text \<open>A stream may die any time: nothing but what is promised of a live one changes.\<close>

lemma qs_die_inv:
  assumes "qs_write_inv s"
  shows "qs_write_inv (s\<lparr>qs_closed := True\<rparr>)" and "qs_write_inv (s\<lparr>qs_write_aborted := True\<rparr>)"
  using assms by (cases "qs_write_mode s"; simp add: qs_write_inv_defs)+

lemma qs_reset_writing_write_inv: "qs_write_inv s \<Longrightarrow> qs_write_inv (qs_reset_writing s)"
  by (cases "qs_class s") (simp_all add: qs_reset_writing_def qs_die_inv)

lemma qs_reset_writing_fields:
  "qs_write_mode (qs_reset_writing s) = qs_write_mode s"
  "qs_write_handler (qs_reset_writing s) = qs_write_handler s"
  "qs_write_is_eof (qs_reset_writing s) = qs_write_is_eof s"
  "qs_eof_submitted (qs_reset_writing s) = qs_eof_submitted s"
  "qs_closed (qs_reset_writing s) \<or> qs_write_aborted (qs_reset_writing s)"
  by (cases "qs_class s"; simp add: qs_reset_writing_def qs_emit_def)+

text \<open>Cancelling a write by reference: what was not handed over is dropped, and what was handed over
  and not acknowledged is let go of by the reset.\<close>

lemma qs_truncate_inv:
  assumes "qs_write_inv s" and "qs_write_mode s = ZeroCopy"
    and "qs_closed s \<or> qs_write_aborted s \<or> qs_tx_offered s = qs_tx_acked s"
    and "e \<or> \<not> qs_fin_offered s \<or> qs_closed s \<or> qs_write_aborted s"
  shows "qs_write_inv (s\<lparr>qs_tx_queued := qs_tx_offered s, qs_body := take (qs_tx_offered s) (qs_body s),
           qs_eof_submitted := e, qs_write_active := False, qs_write_source := [], qs_write_handler := False\<rparr>)"
  (is "qs_write_inv ?t")
proof (rule qs_write_invI)
  note pos = qs_write_inv_positionsD [OF assms(1)]
  show "qs_positions_ok ?t" using pos by (simp add: qs_positions_ok_def)
  show "qs_source_ok ?t" by (simp add: qs_source_ok_def)
  show "qs_memory_ok ?t" using assms(2,3) by (auto simp: qs_memory_ok_def)
  show "qs_handler_ok ?t" using assms(1) by (simp add: qs_write_inv_def qs_handler_ok_def)
  show "qs_end_ok ?t" using assms(4) by (auto simp: qs_end_ok_def)
qed

lemma qs_cancel_write_write_inv:
  assumes "qs_write_inv s"
  shows "qs_write_inv (qs_cancel_write token s)"
proof (cases "qs_write_token s \<noteq> token \<or> \<not> qs_write_handler s")
  case True
  with assms show ?thesis by (auto simp: qs_cancel_write_def)
next
  case h: False
  then have active: "qs_write_active s" using assms by (simp add: qs_write_inv_defs)
  show ?thesis
  proof (cases "qs_write_is_eof s \<and> qs_write_source s = []")
    case True
    then have "qs_write_inv (s\<lparr>qs_write_handler := False\<rparr>)"
      using assms active by (intro qs_write_invI; cases "qs_write_mode s"; force simp: qs_write_inv_defs)
    with h True show ?thesis by (simp add: qs_cancel_write_def qs_complete_write_def)
  next
    case data: False
    show ?thesis
    proof (cases "qs_write_mode s")
      case Staged
      let ?e = "qs_eof_submitted s \<and> \<not> (qs_write_is_eof s \<and> \<not> qs_fin_offered s)"
      have "qs_write_inv (s\<lparr>qs_eof_submitted := ?e, qs_write_active := False, qs_write_source := [],
              qs_write_handler := False\<rparr>)"
        using assms active Staged by (intro qs_write_invI; force simp: qs_write_inv_defs)
      moreover have "qs_cancel_write token s = qs_emit (Write_done Canceled)
          (s\<lparr>qs_eof_submitted := ?e, qs_write_active := False, qs_write_source := [], qs_write_handler := False\<rparr>)"
        using h data Staged by (cases s) (auto simp: qs_cancel_write_def qs_complete_write_def Let_def)
      ultimately show ?thesis by simp
    next
      case ZeroCopy
      have src: "qs_write_source s \<noteq> []"
        using data assms active by (auto simp: qs_write_inv_defs)
      then have busy: "qs_tx_acked s < qs_tx_queued s"
        using ZeroCopy active assms by (simp add: qs_write_inv_defs)
      define r where "r = (if qs_tx_offered s > qs_tx_acked s \<and> \<not> qs_closed s \<and> \<not> qs_write_aborted s
                           then qs_reset_writing s else s)"
      have r: "qs_write_inv r" "qs_write_mode r = ZeroCopy" "qs_write_handler r" "qs_write_is_eof r = qs_write_is_eof s"
        "qs_eof_submitted r = qs_eof_submitted s"
        using assms h ZeroCopy
        by (simp_all add: r_def qs_reset_writing_write_inv qs_reset_writing_fields)
      have safe: "qs_closed r \<or> qs_write_aborted r \<or> qs_tx_offered r = qs_tx_acked r"
        using qs_write_inv_positionsD(1) [OF assms] qs_reset_writing_fields(5) [of s]
        by (auto simp: r_def)
      have nofin: "\<not> qs_fin_offered r \<or> qs_closed r \<or> qs_write_aborted r"
        using safe busy assms qs_reset_writing_fields(5) [of s]
        by (auto simp: r_def qs_write_inv_def qs_end_ok_def)
      let ?e = "qs_eof_submitted r \<and> \<not> qs_write_is_eof r"
      have "qs_cancel_write token s = qs_emit (Write_done Canceled)
          (r\<lparr>qs_tx_queued := qs_tx_offered r, qs_body := take (qs_tx_offered r) (qs_body r),
             qs_eof_submitted := ?e, qs_write_active := False, qs_write_source := [], qs_write_handler := False\<rparr>)"
        using h data ZeroCopy r unfolding qs_cancel_write_def
        by (cases r) (auto simp: qs_complete_write_def Let_def r_def [symmetric])
      with qs_truncate_inv [OF r(1,2) safe, of ?e] nofin show ?thesis by auto
    qed
  qed
qed

lemma kWriteChunkSize_pos [simp]: "kWriteChunkSize > 0"
  by (simp add: kWriteChunkSize_def)

lemma qs_stage_write_inv:
  assumes "qs_write_inv s"
  shows "qs_write_inv (qs_stage s)"
proof (cases "qs_write_mode s = Staged \<and> qs_write_active s \<and> qs_tx_sent s \<ge> qs_tx_queued s \<and>
              qs_write_copied s < length (qs_write_source s)")
  case True
  define n where "n = min (length (qs_write_source s) - qs_write_copied s) kWriteChunkSize"
  define d where "d = take n (drop (qs_write_copied s) (qs_write_source s))"
  have d: "length d = n" "d \<noteq> []" "n > 0" "qs_write_copied s + n \<le> length (qs_write_source s)"
    using True by (auto simp: d_def n_def min_def)
  let ?t = "s\<lparr>qs_chunks := qs_chunks s @ [Chunk (qs_tx_queued s) d], qs_write_copied := qs_write_copied s + n,
              qs_tx_queued := qs_tx_queued s + n, qs_body := qs_body s @ d\<rparr>"
  have t: "qs_stage s = ?t" using True by (simp add: qs_stage_def Let_def n_def d_def)
  have "qs_write_inv ?t"
  proof (rule qs_write_invI)
    note pos = qs_write_inv_positionsD [OF assms]
    show "qs_positions_ok ?t" using pos d by (simp add: qs_positions_ok_def)
    have "take (qs_write_copied s) (qs_write_source s) @ d = take (qs_write_copied s + n) (qs_write_source s)"
      by (simp add: d_def take_drop_append)
    then show "qs_source_ok ?t"
      using assms True d pos by (auto simp: qs_write_inv_def qs_source_ok_def)
    obtain a where "a \<le> qs_tx_acked s" "chain a (qs_chunks s) (qs_tx_queued s)"
      "chunk_bytes (qs_chunks s) = drop a (qs_body s)"
      using assms True by (auto simp: qs_write_inv_def qs_memory_ok_def)
    moreover from this have "chain a (qs_chunks s @ [Chunk (qs_tx_queued s) d]) (qs_tx_queued s + n)"
      using chain_snoc d by metis
    ultimately show "qs_memory_ok ?t"
      using True pos by (auto simp: qs_memory_ok_def intro!: exI [of _ a])
    show "qs_handler_ok ?t" using assms by (simp add: qs_write_inv_def qs_handler_ok_def)
    show "qs_end_ok ?t" using assms True d pos by (auto simp: qs_write_inv_def qs_end_ok_def)
  qed
  with t show ?thesis by simp
next
  case False
  with assms show ?thesis by (auto simp: qs_stage_def)
qed

text \<open>What the stack is told must come from \<open>pending_data\<close>: it is given no end of the body but
  the one that was handed out.\<close>

definition qs_offer_ok :: "nat \<Rightarrow> bool \<Rightarrow> 'a quic_stream_scheme \<Rightarrow> bool" where
  "qs_offer_ok e fin s =
     (fin \<longrightarrow> qs_write_active s \<and> qs_write_is_eof s \<and> e \<ge> qs_tx_queued s \<and>
             (qs_write_mode s = Staged \<longrightarrow> qs_write_copied s = length (qs_write_source s)))"

lemma qs_set_offered_inv:
  assumes "qs_write_inv s" and "qs_tx_offered s \<le> p" and "p \<le> qs_tx_queued s"
  shows "qs_write_inv (s\<lparr>qs_tx_offered := p\<rparr>)" (is "qs_write_inv ?t")
proof (rule qs_write_invI)
  show "qs_positions_ok ?t"
    using qs_write_inv_positionsD [OF assms(1)] assms(2,3) by (simp add: qs_positions_ok_def)
  show "qs_source_ok ?t" using assms(1) by (simp add: qs_write_inv_def qs_source_ok_def)
  show "qs_memory_ok ?t" using assms(1) by (simp add: qs_write_inv_def qs_memory_ok_def)
  show "qs_handler_ok ?t" using assms(1) by (simp add: qs_write_inv_def qs_handler_ok_def)
  show "qs_end_ok ?t" using assms by (auto simp: qs_write_inv_def qs_end_ok_def)
qed

lemma qs_on_offered_write_inv:
  assumes "qs_write_inv s" and "qs_offer_ok e fin s"
  shows "qs_write_inv (qs_on_offered e fin s)"
proof -
  let ?o = "max (qs_tx_offered s) (min e (qs_tx_queued s))"
  let ?s1 = "s\<lparr>qs_tx_offered := ?o\<rparr>"
  note pos = qs_write_inv_positionsD [OF assms(1)]
  have s1: "qs_write_inv ?s1"
    using qs_set_offered_inv [OF assms(1)] pos by simp
  show ?thesis
  proof (cases fin)
    case True
    with assms pos have o: "?o = qs_tx_queued s" by (simp add: qs_offer_ok_def)
    have "qs_write_inv (qs_finish_active_write (?s1\<lparr>qs_fin_offered := True\<rparr>))" if "qs_write_source s = []"
    proof -
      have zc: "qs_write_mode s = ZeroCopy \<Longrightarrow> \<not> qs_closed s \<Longrightarrow> \<not> qs_write_aborted s \<Longrightarrow> qs_tx_acked s = qs_tx_queued s"
        using that assms True pos by (auto simp: qs_write_inv_defs qs_offer_ok_def)
      have "qs_write_inv (?s1\<lparr>qs_fin_offered := True, qs_write_active := False, qs_write_source := [],
              qs_write_handler := False\<rparr>)"
        using qs_release_inv [OF s1] zc o assms True by (simp add: qs_write_inv_defs qs_offer_ok_def)
      then show ?thesis by (simp add: qs_finish_active_write_eq)
    qed
    moreover have "qs_write_inv (?s1\<lparr>qs_fin_offered := True\<rparr>)" if "qs_write_source s \<noteq> []"
      using that assms True s1 o by (simp add: qs_write_inv_defs qs_offer_ok_def)
    moreover have "qs_write_active s" using assms True by (simp add: qs_offer_ok_def)
    ultimately show ?thesis using True by (simp add: qs_on_offered_def Let_def)
  qed (use s1 in \<open>simp add: qs_on_offered_def\<close>)
qed

lemma qs_set_sent_inv:
  assumes "qs_write_inv s" and "p \<le> qs_tx_offered s"
    and "qs_write_mode s = Staged \<Longrightarrow> qs_write_active s \<Longrightarrow> qs_write_source s \<noteq> [] \<Longrightarrow>
         qs_write_copied s = length (qs_write_source s) \<Longrightarrow> p < qs_tx_queued s"
  shows "qs_write_inv (s\<lparr>qs_tx_sent := p\<rparr>)" (is "qs_write_inv ?t")
proof (rule qs_write_invI)
  show "qs_positions_ok ?t" using assms(1,2) by (simp add: qs_write_inv_def qs_positions_ok_def)
  show "qs_source_ok ?t" using assms(1) by (simp add: qs_write_inv_def qs_source_ok_def)
  show "qs_memory_ok ?t" using assms(1) by (simp add: qs_write_inv_def qs_memory_ok_def)
  show "qs_handler_ok ?t" using assms(1) by (simp add: qs_write_inv_def qs_handler_ok_def)
  show "qs_end_ok ?t" using assms(1,3) by (simp add: qs_write_inv_def qs_end_ok_def)
qed

lemma qs_on_sent_write_inv:
  assumes "qs_write_inv s"
  shows "qs_write_inv (qs_on_sent e s)"
proof -
  define p where "p = min e (qs_tx_offered s)"
  define full where "full \<longleftrightarrow> qs_write_mode s = Staged \<and> qs_write_active s \<and> qs_write_source s \<noteq> [] \<and>
    qs_write_copied s = length (qs_write_source s) \<and> p \<ge> qs_tx_queued s"
  let ?t = "s\<lparr>qs_tx_sent := p\<rparr>"
  have eq: "qs_on_sent e s =
     (if e \<le> qs_tx_sent s then s
      else if full then qs_finish_active_write ?t
      else if qs_write_mode s \<noteq> Staged \<or> \<not> qs_write_active s \<or> p < qs_tx_queued s \<or> qs_write_source s = []
      then ?t else qs_emit On_writable ?t)"
    unfolding qs_on_sent_def p_def [symmetric] full_def Let_def by (cases "qs_write_source s = []") simp_all
  have "qs_write_inv ?t" if "\<not> full"
    by (rule qs_set_sent_inv [OF assms]) (use that in \<open>auto simp: full_def p_def\<close>)
  moreover have "qs_write_inv (qs_finish_active_write ?t)" if full
  proof -
    have "qs_write_inv ((s\<lparr>qs_write_active := False, qs_write_source := [], qs_write_handler := False\<rparr>)
            \<lparr>qs_tx_sent := p\<rparr>)"
      by (rule qs_set_sent_inv [OF qs_release_inv [OF assms]]) (use that in \<open>simp_all add: full_def p_def\<close>)
    then show ?thesis by (cases s) (simp add: qs_finish_active_write_eq)
  qed
  ultimately show ?thesis using eq assms by auto
qed

lemma qs_on_acked_write_inv:
  assumes "qs_write_inv s"
  shows "qs_write_inv (qs_on_acked e0 s)"
proof -
  define e where "e = min e0 (qs_tx_offered s)"
  define t where "t = s\<lparr>qs_tx_acked := e, qs_chunks := drop_acked e (qs_chunks s)\<rparr>"
  define full where "full \<longleftrightarrow> qs_write_mode s = ZeroCopy \<and> qs_write_active s \<and> qs_write_source s \<noteq> [] \<and>
                       e \<ge> qs_write_base s + length (qs_write_source s)"
  note pos = qs_write_inv_positionsD [OF assms]
  have eq: "qs_on_acked e0 s = (if e \<le> qs_tx_acked s then s else if full then qs_finish_active_write t else t)"
    by (auto simp: qs_on_acked_def Let_def e_def t_def full_def)
  show ?thesis
  proof (cases "e \<le> qs_tx_acked s")
    case False
    have mem: "qs_memory_ok t"
    proof (cases "qs_write_mode s")
      case Staged
      with assms obtain a where a: "a \<le> qs_tx_acked s" "chain a (qs_chunks s) (qs_tx_queued s)"
        "chunk_bytes (qs_chunks s) = drop a (qs_body s)"
        by (auto simp: qs_write_inv_def qs_memory_ok_def)
      then obtain b where "b \<le> e" "a \<le> b" "chain b (drop_acked e (qs_chunks s)) (qs_tx_queued s)"
        "chunk_bytes (drop_acked e (qs_chunks s)) = drop (b - a) (chunk_bytes (qs_chunks s))"
        using drop_acked_chain [OF a(2), of e] False by auto
      with a Staged show ?thesis by (auto simp: qs_memory_ok_def t_def intro!: exI [of _ b])
    next
      case ZeroCopy
      with assms False pos show ?thesis by (auto simp: qs_write_inv_def qs_memory_ok_def t_def e_def)
    qed
    have top: "e = qs_tx_queued s" if full
      using that assms pos by (auto simp: full_def e_def qs_write_inv_def qs_source_ok_def)
    have rest: "qs_positions_ok t" "qs_source_ok t" "qs_handler_ok t"
      using assms pos by (simp_all add: t_def e_def qs_write_inv_def qs_positions_ok_def qs_source_ok_def qs_handler_ok_def)
    have "qs_end_ok t" if "\<not> full"
      using that assms pos
      by (auto simp: t_def full_def e_def qs_write_inv_def qs_end_ok_def qs_source_ok_def)
    with rest mem have "qs_write_inv t" if "\<not> full" using that by (simp add: qs_write_inv_def)
    moreover have "qs_write_inv (qs_finish_active_write t)" if full
    proof -
      let ?u = "t\<lparr>qs_write_active := False, qs_write_source := [], qs_write_handler := False\<rparr>"
      have "qs_write_inv ?u"
      proof (rule qs_write_invI)
        show "qs_positions_ok ?u" using rest(1) by (simp add: qs_positions_ok_def)
        show "qs_source_ok ?u" by (simp add: qs_source_ok_def)
        show "qs_memory_ok ?u" using mem top [OF that] by (simp add: qs_memory_ok_def t_def)
        show "qs_handler_ok ?u" using rest(3) by (simp add: qs_handler_ok_def)
        show "qs_end_ok ?u" using assms by (simp add: qs_write_inv_def qs_end_ok_def t_def)
      qed
      then show ?thesis by (simp add: qs_finish_active_write_eq)
    qed
    ultimately show ?thesis using eq False by auto
  qed (use eq assms in simp)
qed

lemma qs_abort_writing_write_inv: "qs_write_inv s \<Longrightarrow> qs_write_inv (qs_abort_writing ec s)"
  by (simp add: qs_abort_writing_def qs_abort_active_write_inv qs_die_inv)

lemma qs_write_inv_writer [simp]: "qs_write_inv (s\<lparr>qs_writer := b\<rparr>) = qs_write_inv s"
  by (rule qs_wside_cong) (simp add: qs_wside_def quic_stream.defs)

lemma qs_maybe_close_write_inv [simp]: "qs_write_inv (qs_maybe_close s) = qs_write_inv s"
  by (simp add: qs_maybe_close_def)

lemma qs_writer_dtor_write_inv: "qs_write_inv s \<Longrightarrow> qs_write_inv (qs_writer_dtor s)"
  by (simp add: qs_writer_dtor_def qs_delete_writer_def qs_abort_writing_write_inv qs_reset_writing_write_inv)

lemma qs_pending_data_write_inv: "qs_write_inv s \<Longrightarrow> qs_write_inv (fst (qs_pending_data from cap s))"
  by (simp add: qs_pending_data_def Let_def split_beta qs_stage_write_inv)

section \<open>What the stack is handed\<close>

lemma qs_stage_fields [simp]:
  "qs_tx_offered (qs_stage s) = qs_tx_offered s" "qs_tx_acked (qs_stage s) = qs_tx_acked s"
  "qs_tx_sent (qs_stage s) = qs_tx_sent s" "qs_write_mode (qs_stage s) = qs_write_mode s"
  "qs_write_active (qs_stage s) = qs_write_active s" "qs_write_source (qs_stage s) = qs_write_source s"
  "qs_write_is_eof (qs_stage s) = qs_write_is_eof s" "qs_wire (qs_stage s) = qs_wire s"
  "qs_closed (qs_stage s) = qs_closed s" "qs_write_aborted (qs_stage s) = qs_write_aborted s"
  "qs_fin_offered (qs_stage s) = qs_fin_offered s" "qs_class (qs_stage s) = qs_class s"
  "prefix (qs_body s) (qs_body (qs_stage s))"
  by (simp_all add: qs_stage_def Let_def)

lemma zero_copy_view:
  assumes "qs_write_inv t" "qs_write_mode t = ZeroCopy" "qs_write_active t" "\<not> qs_closed t" "\<not> qs_write_aborted t"
    and "qs_tx_acked t \<le> from" "from < qs_tx_queued t"
  shows "qs_write_base t \<le> from"
    and "take (qs_tx_queued t - from) (drop (from - qs_write_base t) (qs_write_source t)) = drop from (qs_body t)"
proof -
  show base: "qs_write_base t \<le> from"
    using assms by (auto simp: qs_write_inv_def qs_memory_ok_def)
  have "drop (qs_write_base t) (qs_body t) = qs_write_source t"
    using assms by (simp add: qs_write_inv_def qs_source_ok_def)
  with base have "drop (from - qs_write_base t) (qs_write_source t) = drop from (qs_body t)"
    by (metis drop_drop le_add_diff_inverse2)
  then show "take (qs_tx_queued t - from) (drop (from - qs_write_base t) (qs_write_source t)) = drop from (qs_body t)"
    using qs_write_inv_positionsD(4) [OF assms(1)] by simp
qed

lemma staged_view:
  assumes "qs_write_inv t" "qs_write_mode t = Staged" "qs_tx_acked t \<le> from"
    and "chunks_from cap from from (qs_chunks t) = (v, e)"
  shows "prefix (concat v) (drop from (qs_body t))" and "e = from + length (concat v)"
proof -
  obtain a where "a \<le> qs_tx_acked t" "chain a (qs_chunks t) (qs_tx_queued t)"
    "chunk_bytes (qs_chunks t) = drop a (qs_body t)"
    using assms by (auto simp: qs_write_inv_def qs_memory_ok_def)
  with chunks_from_chain [OF this(2) _ assms(4)] assms(3)
  show "prefix (concat v) (drop from (qs_body t))" and "e = from + length (concat v)" by simp_all
qed

text \<open>The one place that decides what goes out: a piece of the body from exactly where it was asked
  for, the end only with the very last of it, and by reference only what lies in the buffer of the
  write in progress.\<close>

lemma qs_pending_data_cases:
  assumes inv: "qs_write_inv s" and acked: "qs_tx_acked s \<le> from" "from \<le> qs_tx_queued s"
    and p: "qs_pending_data from cap s = (s', vec, fin)"
  obtains (none) "s' = s" "vec = []" "\<not> fin"
  | (some) "s' = qs_stage s" "prefix (concat vec) (drop from (qs_body s'))"
      "qs_write_mode s' = ZeroCopy \<and> vec \<noteq> [] \<longrightarrow>
         qs_write_active s' \<and> qs_write_base s' \<le> from \<and> from + length (concat vec) = qs_tx_queued s'"
      "fin \<longleftrightarrow> qs_write_active s' \<and> qs_write_is_eof s' \<and> from + length (concat vec) \<ge> qs_tx_queued s' \<and>
         (qs_write_mode s' = ZeroCopy \<or> qs_write_copied s' = length (qs_write_source s'))"
proof (cases "cap = 0 \<or> qs_closed s \<or> qs_write_aborted s")
  case True
  with p none show thesis by (auto simp: qs_pending_data_def)
next
  case False
  define t where "t = qs_stage s"
  have t: "qs_write_inv t" unfolding t_def by (rule qs_stage_write_inv [OF inv])
  have open': "\<not> qs_closed t" "\<not> qs_write_aborted t" and a: "qs_tx_acked t \<le> from"
    using False acked by (simp_all add: t_def)
  note pos = qs_write_inv_positionsD(4) [OF t]
  show thesis
  proof (cases "qs_write_mode t")
    case ZeroCopy
    show thesis
    proof (cases "qs_write_active t \<and> from < qs_tx_queued t")
      case True
      note v = zero_copy_view [OF t ZeroCopy conjunct1 [OF True] open' a conjunct2 [OF True]]
      have "s' = t" "vec = [drop from (qs_body t)]" "fin \<longleftrightarrow> qs_write_is_eof t"
        using False p ZeroCopy True v(2) by (auto simp: qs_pending_data_def Let_def t_def [symmetric])
      with True v(1) ZeroCopy pos show thesis by (intro some) (auto simp: t_def)
    next
      case no: False
      have "s' = t" "vec = []" "fin \<longleftrightarrow> qs_write_active t \<and> qs_write_is_eof t \<and> from \<ge> qs_tx_queued t"
        using False p ZeroCopy no by (auto simp: qs_pending_data_def Let_def t_def [symmetric])
      with ZeroCopy show thesis by (intro some) (auto simp: t_def)
    qed
  next
    case Staged
    obtain e where c: "chunks_from cap from from (qs_chunks t) = (vec, e)"
      using False p Staged by (auto simp: qs_pending_data_def Let_def t_def [symmetric] split: prod.splits)
    then have "s' = t" "fin \<longleftrightarrow> qs_write_active t \<and> qs_write_is_eof t \<and> e \<ge> qs_tx_queued t \<and>
        qs_write_copied t = length (qs_write_source t)"
      using False p Staged by (auto simp: qs_pending_data_def Let_def t_def [symmetric])
    with staged_view [OF t Staged a c] Staged show thesis by (intro some) (auto simp: t_def)
  qed
qed

lemma qs_pending_data_content:
  assumes inv: "qs_write_inv s" and acked: "qs_tx_acked s \<le> from" "from \<le> qs_tx_queued s"
    and p: "qs_pending_data from cap s = (s', vec, fin)"
  shows "prefix (concat vec) (drop from (qs_body s')) \<and>
         (fin \<longrightarrow> concat vec = drop from (qs_body s')) \<and> qs_offer_ok (from + length (concat vec)) fin s'"
  using inv acked p
proof (cases rule: qs_pending_data_cases)
  case some
  have "concat vec = drop from (qs_body s')" if fin
  proof (rule prefix_all [OF some(2)])
    show "length (drop from (qs_body s')) \<le> length (concat vec)"
      using some(1,4) that qs_write_inv_positionsD(4) [OF qs_stage_write_inv [OF inv]]
      by (auto simp: algebra_simps)
  qed
  with some(2,4) show ?thesis by (auto simp: qs_offer_ok_def)
qed (simp add: qs_offer_ok_def)

section \<open>The wire\<close>

text \<open>What the stack was given is the body up to \<open>tx_offered\<close>. What a plain stream hands out goes
  into a packet or is offered again. And the end goes with the last of the data.\<close>

definition qs_fin_due :: "'a quic_stream_scheme \<Rightarrow> bool" where
  "qs_fin_due s =
     (qs_write_active s \<and> qs_write_is_eof s \<and> qs_write_source s \<noteq> [] \<and>
      (qs_write_mode s = Staged \<longrightarrow> qs_write_copied s = length (qs_write_source s)) \<and>
      qs_tx_offered s = qs_tx_queued s)"

definition qs_wire_ok :: "'a quic_stream_scheme \<Rightarrow> bool" where
  "qs_wire_ok s = (qs_wire s = take (qs_tx_offered s) (qs_body s) \<and>
                   (qs_class s = Plain_class \<longrightarrow> qs_tx_sent s = qs_tx_offered s) \<and>
                   (qs_fin_due s \<longrightarrow> qs_fin_offered s))"

lemma qs_on_offered_wire:
  assumes "qs_tx_offered s + length d \<le> qs_tx_queued s"
  shows "qs_tx_offered (qs_on_offered (qs_tx_offered s + length d) fin s) = qs_tx_offered s + length d"
  using assms by (simp add: qs_on_offered_def Let_def qs_finish_active_write_def qs_complete_write_def qs_emit_def)

lemma qs_on_offered_frame [simp]:
  "qs_body (qs_on_offered e fin s) = qs_body s" "qs_wire (qs_on_offered e fin s) = qs_wire s"
  "qs_class (qs_on_offered e fin s) = qs_class s" "qs_tx_sent (qs_on_offered e fin s) = qs_tx_sent s"
  by (simp_all add: qs_on_offered_def Let_def qs_finish_active_write_def qs_complete_write_def qs_emit_def)

lemma qs_on_sent_wire:
  "qs_body (qs_on_sent e s) = qs_body s" "qs_wire (qs_on_sent e s) = qs_wire s"
  "qs_tx_offered (qs_on_sent e s) = qs_tx_offered s" "qs_class (qs_on_sent e s) = qs_class s"
  "qs_tx_sent (qs_on_sent e s) = (if e \<le> qs_tx_sent s then qs_tx_sent s else min e (qs_tx_offered s))"
  by (simp_all add: qs_on_sent_def Let_def qs_finish_active_write_def qs_complete_write_def qs_emit_def)

lemma qs_on_sent_due:
  "qs_fin_due (qs_on_sent e s) \<Longrightarrow> qs_fin_due s" "qs_fin_offered (qs_on_sent e s) = qs_fin_offered s"
  by (auto simp: qs_fin_due_def qs_on_sent_def Let_def qs_finish_active_write_def qs_complete_write_def qs_emit_def
      split: if_splits)

lemma qs_wire_extend:
  assumes "qs_wire_ok s" and "qs_write_inv s" and "prefix (qs_body s) (qs_body t)"
    and "prefix d (drop (qs_tx_offered s) (qs_body t))"
  shows "qs_wire s @ d = take (qs_tx_offered s + length d) (qs_body t)"
proof -
  have "qs_tx_offered s \<le> length (qs_body s)"
    using qs_write_inv_positionsD [OF assms(2)] by simp
  then have "take (qs_tx_offered s) (qs_body t) = take (qs_tx_offered s) (qs_body s)"
    using assms(3) by (auto simp: prefix_def)
  moreover have "take (length d) (drop (qs_tx_offered s) (qs_body t)) = d"
    using assms(4) by (auto simp: prefix_def)
  ultimately show ?thesis using assms(1) by (simp add: take_add qs_wire_ok_def)
qed

lemma qs_pending_data_frame:
  assumes "qs_pending_data from cap s = (s', vec, fin)"
  shows "qs_tx_offered s' = qs_tx_offered s" "qs_tx_sent s' = qs_tx_sent s" "qs_wire s' = qs_wire s"
    "qs_class s' = qs_class s" "prefix (qs_body s) (qs_body s')"
  using assms by (auto simp: qs_pending_data_def Let_def split_beta split: if_splits)

lemma qs_write_inv_wire [simp]: "qs_write_inv (s\<lparr>qs_wire := w\<rparr>) = qs_write_inv s"
  by (simp add: qs_write_inv_defs)

lemma qs_on_offered_fin: "qs_fin_offered (qs_on_offered e fin s) = (fin \<or> qs_fin_offered s)"
  by (simp add: qs_on_offered_def Let_def qs_finish_active_write_def qs_complete_write_def qs_emit_def)

lemma qs_pending_due:
  assumes inv: "qs_write_inv s" and p: "qs_pending_data (qs_tx_offered s) cap s = (t, vec, fin)"
    and n: "n \<le> length (concat vec)" and due: "qs_fin_due (t\<lparr>qs_tx_offered := qs_tx_offered s + n\<rparr>)"
  shows "fin \<and> n = length (concat vec) \<or> qs_fin_due s \<and> t = s"
proof -
  note pos = qs_write_inv_positionsD [OF inv]
  from inv pos(1,3) p show ?thesis
  proof (cases rule: qs_pending_data_cases)
    case some
    have "length (concat vec) \<le> qs_tx_queued t - qs_tx_offered s"
      using prefix_length_le [OF some(2)] qs_write_inv_positionsD(4) [OF qs_stage_write_inv [OF inv]] some(1) by simp
    with n due some(4) show ?thesis by (cases "qs_write_mode t") (auto simp: qs_fin_due_def)
  qed (use n due in \<open>auto simp: qs_fin_due_def\<close>)
qed

text \<open>Handing over the first \<open>n\<close> bytes of what \<open>pending_data\<close> came up with.\<close>

lemma qs_hand_over:
  assumes inv: "qs_write_inv s" and wire: "qs_wire_ok s"
    and p: "qs_pending_data (qs_tx_offered s) cap s = (t, vec, fin)"
    and n: "n \<le> length (concat vec)" and f: "f \<longleftrightarrow> fin \<and> n = length (concat vec)"
    and u: "u = qs_on_offered (qs_tx_offered s + n) f (t\<lparr>qs_wire := qs_wire t @ take n (concat vec)\<rparr>)"
  shows "qs_write_inv u" and "qs_wire u = take (qs_tx_offered u) (qs_body u)"
    and "qs_wire u = qs_wire s @ take n (concat vec)" and "f \<Longrightarrow> qs_wire u = qs_body u \<and> qs_fin_offered u"
    and "qs_tx_offered u = qs_tx_offered s + n"
    and "qs_tx_sent u = qs_tx_sent s" and "qs_class u = qs_class s"
    and "qs_fin_due u \<Longrightarrow> qs_fin_offered u"
proof -
  note pos = qs_write_inv_positionsD [OF inv] and fr = qs_pending_data_frame [OF p]
  note c = qs_pending_data_content [OF inv pos(1,3) p]
  let ?d = "take n (concat vec)"
  let ?t = "t\<lparr>qs_wire := qs_wire t @ ?d\<rparr>"
  have t: "qs_write_inv t" using qs_pending_data_write_inv [OF inv, of "qs_tx_offered s" cap] p by simp
  have d: "length ?d = n" "prefix ?d (drop (qs_tx_offered s) (qs_body t))"
    using n conjunct1 [OF c] by (auto intro: prefix_order.trans [OF take_is_prefix])
  have le: "qs_tx_offered ?t + length ?d \<le> qs_tx_queued ?t"
    using prefix_length_le [OF d(2)] qs_write_inv_positionsD [OF t] by (simp add: fr)
  note w = qs_on_offered_wire [OF le]
  have u': "u = qs_on_offered (qs_tx_offered ?t + length ?d) f ?t"
    using n by (simp add: u fr min_absorb2)
  show off: "qs_tx_offered u = qs_tx_offered s + n" and "qs_tx_sent u = qs_tx_sent s" and "qs_class u = qs_class s"
    unfolding u' using w d by (simp_all add: fr)
  have ok: "qs_offer_ok (qs_tx_offered s + n) f ?t" using c f by (auto simp: qs_offer_ok_def)
  show "qs_write_inv u" unfolding u by (rule qs_on_offered_write_inv) (use t ok in simp_all)
  show wu: "qs_wire u = qs_wire s @ ?d" unfolding u' using w by (simp add: fr)
  have body: "qs_body u = qs_body t" unfolding u' using w by simp
  show "qs_wire u = take (qs_tx_offered u) (qs_body u)"
    using qs_wire_extend [OF wire inv fr(5) d(2)] by (simp only: wu off body d(1))
  with qs_write_inv_positionsD [OF t] c f off body show "qs_wire u = qs_body u \<and> qs_fin_offered u" if f
    using that by (auto simp: u qs_on_offered_fin)
  show "qs_fin_offered u" if due: "qs_fin_due u"
  proof -
    have "qs_fin_due (t\<lparr>qs_tx_offered := qs_tx_offered s + n\<rparr>)"
      using due off by (auto simp: u qs_fin_due_def qs_on_offered_def Let_def qs_finish_active_write_def
        qs_complete_write_def qs_emit_def split: if_splits)
    with p wire le d(1) show ?thesis
      using qs_pending_due [OF inv p, of n] f n by (auto simp: u qs_on_offered_fin fr qs_wire_ok_def)
  qed
qed

text \<open>... and finding nothing to hand over.\<close>

lemma qs_nothing_to_hand_over:
  assumes inv: "qs_write_inv s" and wire: "qs_wire_ok s"
    and p: "qs_pending_data (qs_tx_offered s) cap s = (t, vec, fin)" and "fin \<longrightarrow> qs_fin_offered t"
  shows "qs_write_inv t" and "qs_wire_ok t"
proof -
  note fr = qs_pending_data_frame [OF p]
  show "qs_write_inv t" using qs_pending_data_write_inv [OF inv, of "qs_tx_offered s" cap] p by simp
  have "qs_fin_offered t" if "qs_fin_due t"
    using qs_pending_due [OF inv p, of 0] that assms(4) wire
    by (auto simp: qs_fin_due_def fr qs_wire_ok_def)
  then show "qs_wire_ok t"
    using qs_wire_extend [OF wire inv fr(5), of "[]"] wire by (simp add: qs_wire_ok_def fr)
qed

lemma data_reader_link:
  assumes inv: "qs_write_inv s" and wire: "qs_wire_ok s" and h3: "qs_class s = Http3_class"
    and r: "data_reader cap s = (s', r)"
  shows "qs_write_inv s' \<and> qs_wire_ok s' \<and>
         (case r of Pull_would_block \<Rightarrow> qs_wire s' = qs_wire s
          | Pulled vec fin \<Rightarrow> qs_wire s' = qs_wire s @ concat vec \<and>
                             (fin \<longrightarrow> qs_wire s' = qs_body s' \<and> qs_fin_offered s'))"
proof -
  obtain t vec fin where p: "qs_pending_data (qs_tx_offered s) cap s = (t, vec, fin)"
    using prod_cases3 by blast
  note fr = qs_pending_data_frame [OF p]
  note t = qs_nothing_to_hand_over [OF inv wire p]
  define u where "u = qs_on_offered (qs_tx_offered s + length (concat vec)) fin
                        (t\<lparr>qs_wire := qs_wire t @ take (length (concat vec)) (concat vec)\<rparr>)"
  note h = qs_hand_over [OF inv wire p order_refl _ u_def, simplified]
  have "data_reader cap s =
     (if cap = 0 then (s, Pulled [] False)
      else if vec = [] \<and> \<not> fin then (t, Pull_would_block) else (u, Pulled vec fin))"
    by (simp add: data_reader_def p Let_def u_def fr length_concat)
  then show ?thesis
    using r inv wire t h h3 by (auto simp: qs_wire_ok_def fr split: if_splits)
qed

lemma qs_packet_link:
  assumes inv: "qs_write_inv s" and wire: "qs_wire_ok s" and plain: "qs_class s = Plain_class"
  shows "qs_write_inv (qs_packet cap n s) \<and> qs_wire_ok (qs_packet cap n s)"
proof -
  have at: "qs_tx_sent s = qs_tx_offered s" using wire plain by (simp add: qs_wire_ok_def)
  obtain t vec fin where p: "qs_pending_data (qs_tx_offered s) cap s = (t, vec, fin)"
    using prod_cases3 by blast
  note fr = qs_pending_data_frame [OF p]
  define k where "k = min n (length (concat vec))"
  define f where "f \<longleftrightarrow> fin \<and> k = length (concat vec)"
  define u where "u = qs_on_offered (qs_tx_offered s + k) f (t\<lparr>qs_wire := qs_wire t @ take k (concat vec)\<rparr>)"
  have k: "k \<le> length (concat vec)" and f: "f \<longleftrightarrow> fin \<and> k = length (concat vec)"
    by (auto simp: k_def f_def)
  note h = qs_hand_over [OF inv wire p k f u_def]
  have eq: "qs_packet cap n s =
     (if vec = [] \<and> (\<not> fin \<or> qs_fin_offered t) then t else qs_on_sent (qs_tx_offered s + k) u)"
    unfolding qs_packet_def at p Let_def qs_data_written_def prod.case sum_list_length_concat
      k_def [symmetric] f_def [symmetric]
    by (auto simp: fr at u_def)
  have "qs_write_inv t \<and> qs_wire_ok t" if "fin \<longrightarrow> qs_fin_offered t"
    using qs_nothing_to_hand_over [OF inv wire p that] by simp
  moreover have "qs_write_inv (qs_on_sent (qs_tx_offered s + k) u)"
    by (rule qs_on_sent_write_inv) (rule h(1))
  moreover have "qs_wire_ok (qs_on_sent (qs_tx_offered s + k) u)"
    using h(2,5,6,7,8) at qs_on_sent_due [of _ u] by (auto simp: qs_wire_ok_def qs_on_sent_wire)
  ultimately show ?thesis by (auto simp: eq)
qed

text \<open>The end is only ever handed over behind all of the body.\<close>

lemma qs_fin_complete:
  "qs_write_inv s \<Longrightarrow> qs_wire_ok s \<Longrightarrow> qs_fin_offered s \<Longrightarrow> qs_wire s = qs_body s"
  by (simp add: qs_write_inv_def qs_end_ok_def qs_positions_ok_def qs_wire_ok_def)

section \<open>No stall\<close>

lemma chunks_from_nonempty:
  "chain a cs q \<Longrightarrow> a \<le> from \<Longrightarrow> from < q \<Longrightarrow> cap > 0 \<Longrightarrow> fst (chunks_from cap from e cs) \<noteq> []"
  by (induction a cs q arbitrary: e rule: chain.induct) (auto simp: Let_def split_beta)

lemma qs_stage_end:
  assumes "qs_write_mode s = Staged" "qs_write_active s" "qs_tx_queued s \<le> qs_tx_sent s"
    and "qs_write_copied s < length (qs_write_source s)"
  shows "qs_tx_queued s < qs_tx_queued (qs_stage s)"
  using assms by (simp add: qs_stage_def Let_def)

text \<open>As long as there is something to hand out, \<open>pending_data\<close> does: an active write is never stuck
  but for want of acknowledgements (by reference) or of packets going out (staged).\<close>

lemma qs_pending_data_progress:
  assumes inv: "qs_write_inv s" and act: "qs_write_active s" "\<not> qs_closed s" "\<not> qs_write_aborted s" and cap: "cap > 0"
    and more: "case qs_write_mode s of
           ZeroCopy \<Rightarrow> qs_tx_offered s < qs_tx_queued s \<or> qs_write_is_eof s
         | Staged \<Rightarrow> qs_tx_sent s = qs_tx_queued s"
    and p: "qs_pending_data (qs_tx_offered s) cap s = (t, vec, fin)"
  shows "vec \<noteq> [] \<or> fin"
proof (cases "qs_write_mode s")
  case ZeroCopy
  with more act cap p show ?thesis
    by (auto simp: qs_pending_data_def Let_def qs_stage_def split: if_splits)
next
  case Staged
  then have t: "t = qs_stage s" and v: "vec = fst (chunks_from cap (qs_tx_offered s) (qs_tx_offered s) (qs_chunks t))"
    using p act cap by (auto simp: qs_pending_data_def Let_def split_beta)
  have pos: "qs_tx_offered s = qs_tx_queued s" "qs_tx_acked s \<le> qs_tx_offered s"
    using qs_write_inv_positionsD [OF inv] more Staged by auto
  show ?thesis
  proof (cases "qs_write_copied s < length (qs_write_source s)")
    case True
    then have "qs_tx_offered s < qs_tx_queued t"
      using qs_stage_end [OF Staged act(1)] more Staged pos by (simp add: t)
    moreover obtain a where "a \<le> qs_tx_acked t" "chain a (qs_chunks t) (qs_tx_queued t)"
      using qs_stage_write_inv [OF inv] Staged by (auto simp: t qs_write_inv_def qs_memory_ok_def)
    ultimately show ?thesis
      using chunks_from_nonempty [of a _ _ "qs_tx_offered s" cap] pos(2) cap by (simp add: v t)
  next
    case False
    with inv act Staged more have "qs_write_source s = []" "qs_write_is_eof s"
      by (auto simp: qs_write_inv_def qs_end_ok_def qs_source_ok_def qs_handler_ok_def)
    moreover have "t = s" using False by (simp add: t qs_stage_def)
    ultimately have "qs_write_copied s = 0" using inv act by (simp add: qs_write_inv_def qs_source_ok_def)
    obtain e where "chunks_from cap (qs_tx_offered s) (qs_tx_offered s) (qs_chunks s) = (vec, e)"
      using v \<open>t = s\<close> by (metis prod.collapse)
    moreover from staged_view(2) [OF inv Staged pos(2) this] have "e \<ge> qs_tx_queued s" using pos by simp
    ultimately show ?thesis
      using p act cap Staged \<open>qs_write_source s = []\<close> \<open>qs_write_is_eof s\<close> \<open>qs_write_copied s = 0\<close> \<open>t = s\<close> t
      by (auto simp: qs_pending_data_def Let_def)
  qed
qed

end
