(* ===== verification/Quic_Machine.thy ===== *)
theory Quic_Machine
  imports Quic_Stream_Read Quic_Stream_Write
begin

text \<open>
  A QUIC stream as a machine: what the application, the peer and the stack below may do to it, in
  any order, and what holds of it throughout. The preconditions of an operation (\<open>qs_enabled\<close>) are
  what the callers of \<open>QuicStream\<close> see to: one read and one write at a time, no handle used once
  dropped, nothing received behind the end of the body.

  The contracts of \<open>Body_Contract\<close> are interpreted here on the stream's own definitions.
\<close>

section \<open>Writing leaves reading alone\<close>

definition qs_read_same :: "'a quic_stream_scheme \<Rightarrow> 'a quic_stream_scheme \<Rightarrow> bool" where
  "qs_read_same s t =
     (qs_read_head t = qs_read_head s \<and> qs_pending_read t = qs_pending_read s \<and>
      qs_incoming t = qs_incoming s \<and> qs_read_handler t = qs_read_handler s \<and>
      qs_call_read_handler_active t = qs_call_read_handler_active s \<and> qs_reader t = qs_reader s \<and>
      qs_eof_received t = qs_eof_received s \<and> qs_read_aborted t = qs_read_aborted s \<and>
      qs_received t = qs_received s \<and> qs_class t = qs_class s \<and>
      (qs_closed t = qs_closed s \<or> qs_class s = Http3_class) \<and>
      qs_delivered t = qs_delivered s \<and> qs_credited t = qs_credited s \<and> qs_eof_seen t = qs_eof_seen s)"

lemma qs_read_same_inv:
  assumes "qs_read_same s t" and "qs_read_inv s" and "qs_read_idle s"
  shows "qs_read_inv t" and "qs_read_idle t"
proof -
  have "qs_read_inv t = qs_read_inv s"
    by (rule qs_read_frame(1)) (use assms(1) in \<open>auto simp: qs_read_same_def\<close>)
  then show "qs_read_inv t" using assms(2) by simp
  show "qs_read_idle t"
    by (rule qs_read_frame(2) [of t s]) (use assms(1,3) in \<open>auto simp: qs_read_same_def\<close>)
qed

lemma qs_read_same_refl [simp]: "qs_read_same s s"
  by (simp add: qs_read_same_def)

lemma qs_read_same_trans [trans]: "qs_read_same s t \<Longrightarrow> qs_read_same t u \<Longrightarrow> qs_read_same s u"
  by (auto simp: qs_read_same_def)

definition no_read_event :: "quic_event \<Rightarrow> bool" where
  "no_read_event e = (case e of Read_done _ _ \<Rightarrow> False | Consume_stream _ \<Rightarrow> False | _ \<Rightarrow> True)"

lemma qs_read_same_emit [simp]: "no_read_event e \<Longrightarrow> qs_read_same s (qs_emit e t) = qs_read_same s t"
  by (cases e) (simp_all add: qs_read_same_def no_read_event_def qs_emit_def qs_delivered_def
    qs_credited_def qs_eof_seen_def)

lemma qs_read_same_upd [simp]:
  "qs_read_same s (t\<lparr>qs_write_active := a\<rparr>) = qs_read_same s t"
  "qs_read_same s (t\<lparr>qs_write_source := b\<rparr>) = qs_read_same s t"
  "qs_read_same s (t\<lparr>qs_write_is_eof := a\<rparr>) = qs_read_same s t"
  "qs_read_same s (t\<lparr>qs_write_handler := a\<rparr>) = qs_read_same s t"
  "qs_read_same s (t\<lparr>qs_write_token := n\<rparr>) = qs_read_same s t"
  "qs_read_same s (t\<lparr>qs_next_write_token := n\<rparr>) = qs_read_same s t"
  "qs_read_same s (t\<lparr>qs_eof_submitted := a\<rparr>) = qs_read_same s t"
  "qs_read_same s (t\<lparr>qs_fin_offered := a\<rparr>) = qs_read_same s t"
  "qs_read_same s (t\<lparr>qs_write_base := n\<rparr>) = qs_read_same s t"
  "qs_read_same s (t\<lparr>qs_write_copied := n\<rparr>) = qs_read_same s t"
  "qs_read_same s (t\<lparr>qs_tx_queued := n\<rparr>) = qs_read_same s t"
  "qs_read_same s (t\<lparr>qs_tx_offered := n\<rparr>) = qs_read_same s t"
  "qs_read_same s (t\<lparr>qs_tx_sent := n\<rparr>) = qs_read_same s t"
  "qs_read_same s (t\<lparr>qs_tx_acked := n\<rparr>) = qs_read_same s t"
  "qs_read_same s (t\<lparr>qs_chunks := cs\<rparr>) = qs_read_same s t"
  "qs_read_same s (t\<lparr>qs_writer := a\<rparr>) = qs_read_same s t"
  "qs_read_same s (t\<lparr>qs_write_aborted := a\<rparr>) = qs_read_same s t"
  "qs_read_same s (t\<lparr>qs_body := b\<rparr>) = qs_read_same s t"
  "qs_read_same s (t\<lparr>qs_wire := b\<rparr>) = qs_read_same s t"
  by (simp_all add: qs_read_same_def qs_delivered_def qs_credited_def qs_eof_seen_def)

lemma no_read_event_simps [simp]:
  "no_read_event (Write_done ec)" "no_read_event On_writable" "no_read_event Reset_writing"
  "no_read_event Reset_stream" "no_read_event Erase_stream" "no_read_event (On_failed ec)"
  "no_read_event Stop_reading"
  by (simp_all add: no_read_event_def)

lemma qs_read_same_complete [simp]: "qs_read_same s (qs_complete_write ec t) = qs_read_same s t"
  by (simp add: qs_complete_write_def)

lemma qs_read_same_finish [simp]: "qs_read_same s (qs_finish_active_write t) = qs_read_same s t"
  by (simp add: qs_finish_active_write_def)

lemma qs_read_same_abort [simp]: "qs_read_same s (qs_abort_active_write ec t) = qs_read_same s t"
  by (simp add: qs_abort_active_write_def)

lemma qs_read_same_reset [simp]: "qs_read_same s t \<Longrightarrow> qs_read_same s (qs_reset_writing t)"
proof (cases "qs_class t")
  case Http3_class
  moreover assume "qs_read_same s t"
  ultimately show ?thesis
    by (simp add: qs_reset_writing_def qs_read_same_def qs_emit_def qs_delivered_def qs_credited_def qs_eof_seen_def)
qed (simp add: qs_reset_writing_def)

lemma qs_read_same_maybe_close [simp]: "qs_read_same s (qs_maybe_close t) = qs_read_same s t"
  by (simp add: qs_maybe_close_def)

lemma qs_start_write_read_same [simp]: "qs_read_same s (qs_start_write b eof s)"
  by (simp add: qs_start_write_def Let_def)

lemma qs_cancel_write_read_same [simp]: "qs_read_same s (qs_cancel_write token s)"
  by (simp add: qs_cancel_write_def Let_def)

lemma qs_pending_data_read_same [simp]: "qs_read_same s (fst (qs_pending_data from cap s))"
  by (simp add: qs_pending_data_def qs_stage_def Let_def split_beta)

lemma qs_on_offered_read_same [simp]: "qs_read_same s (qs_on_offered e fin t) = qs_read_same s t"
  by (simp add: qs_on_offered_def Let_def)

lemma qs_on_sent_read_same [simp]: "qs_read_same s (qs_on_sent e t) = qs_read_same s t"
  by (simp add: qs_on_sent_def Let_def)

lemma qs_on_acked_read_same [simp]: "qs_read_same s (qs_on_acked e t) = qs_read_same s t"
  by (simp add: qs_on_acked_def Let_def)

lemma on_write_offered_read_same [simp]: "qs_read_same s (on_write_offered n t) = qs_read_same s t"
  by (simp add: on_write_offered_def)

lemma qs_abort_writing_read_same [simp]: "qs_read_same s (qs_abort_writing ec t) = qs_read_same s t"
  by (simp add: qs_abort_writing_def)

lemma qs_writer_dtor_read_same [simp]: "qs_read_same s (qs_writer_dtor s)"
  by (simp add: qs_writer_dtor_def qs_delete_writer_def)

lemma data_reader_read_same [simp]: "qs_read_same s (fst (data_reader cap s))"
  using qs_pending_data_read_same [of s "qs_tx_offered s" cap]
  by (simp add: data_reader_def Let_def split_beta)

lemma qs_packet_read_same [simp]: "qs_read_same s (qs_packet cap n s)"
  using qs_pending_data_read_same [of s "qs_tx_sent s" cap]
  by (simp add: qs_packet_def Let_def split_beta qs_data_written_def)

section \<open>Reading leaves writing alone\<close>

definition qs_write_side :: "'a quic_stream_scheme \<Rightarrow> bool" where
  "qs_write_side s = (qs_write_inv s \<and> qs_wire_ok s)"

lemma qs_rest_wside:
  assumes "qs_rest s = qs_rest t"
  shows "qs_wside s = qs_wside t" and "qs_class s = qs_class t"
  using assms by (cases s; cases t; simp add: qs_rest_def qs_wside_def quic_stream.defs)+

lemma qs_wside_side: "qs_wside s = qs_wside t \<Longrightarrow> qs_class s = qs_class t \<Longrightarrow> qs_write_side s = qs_write_side t"
  using qs_wside_cong [of s t] qs_wside_eqD [of s t] by (simp add: qs_write_side_def qs_wire_ok_def qs_fin_due_def)

lemma qs_rest_side: "qs_rest s = qs_rest t \<Longrightarrow> qs_write_side s = qs_write_side t"
  by (intro qs_wside_side qs_rest_wside)

lemma qs_write_side_upd [simp]:
  "qs_write_side (s\<lparr>qs_pending_read := p\<rparr>) = qs_write_side s"
  "qs_write_side (s\<lparr>qs_read_head := h\<rparr>) = qs_write_side s"
  "qs_write_side (s\<lparr>qs_incoming := h\<rparr>) = qs_write_side s"
  "qs_write_side (s\<lparr>qs_eof_received := a\<rparr>) = qs_write_side s"
  "qs_write_side (s\<lparr>qs_read_aborted := a\<rparr>) = qs_write_side s"
  "qs_write_side (s\<lparr>qs_received := h\<rparr>) = qs_write_side s"
  "qs_write_side (s\<lparr>qs_read_handler := r\<rparr>) = qs_write_side s"
  "qs_write_side (s\<lparr>qs_script := as\<rparr>) = qs_write_side s"
  "qs_write_side (s\<lparr>qs_reader := a\<rparr>) = qs_write_side s"
  by (intro qs_wside_side; simp add: qs_wside_def quic_stream.defs)+

lemma qs_write_side_emit [simp]: "qs_write_side (qs_emit e s) = qs_write_side s"
  by (intro qs_wside_side; simp add: qs_wside_def qs_emit_def quic_stream.defs)

lemma qs_write_side_call [simp]: "qs_write_side (qs_call_read_handler s) = qs_write_side s"
  by (rule qs_rest_side) simp

lemma qs_write_side_invoke [simp]: "qs_write_side (qs_invoke_read ec d s) = qs_write_side s"
  by (rule qs_rest_side) simp

lemma qs_write_side_maybe_close [simp]: "qs_write_side (qs_maybe_close s) = qs_write_side s"
  by (simp add: qs_maybe_close_def)

lemma read_ops_write_side [simp]:
  "qs_write_side (qs_async_read_some n s) = qs_write_side s"
  "qs_write_side (qs_cancel_read s) = qs_write_side s"
  "qs_write_side (qs_on_data_chunk d s) = qs_write_side s"
  "qs_write_side (qs_on_eof s) = qs_write_side s"
  "qs_write_side (qs_abort_reading s) = qs_write_side s"
  "qs_write_side (qs_reader_dtor s) = qs_write_side s"
  by (simp_all add: qs_async_read_some_def qs_cancel_read_def qs_on_data_chunk_def qs_on_eof_def
      qs_abort_reading_def qs_reader_dtor_def qs_delete_reader_def Let_def)

section \<open>Failing touches both\<close>

lemma qs_closed_write_side: "qs_write_side s \<Longrightarrow> qs_write_side (s\<lparr>qs_closed := True\<rparr>)"
  by (simp add: qs_write_side_def qs_die_inv qs_wire_ok_def qs_fin_due_def)

lemma qs_abort_active_write_side:
  assumes "qs_write_side s" and "qs_closed s"
  shows "qs_write_side (qs_abort_active_write ec s)"
  using assms qs_abort_active_write_inv [of s ec]
  by (simp add: qs_write_side_def qs_wire_ok_def qs_fin_due_def qs_abort_active_write_eq qs_emit_def)

lemma qs_emit_closed [simp]: "qs_closed (qs_emit e s) = qs_closed s"
  by (simp add: qs_emit_def)

lemma qs_fail_write_side:
  assumes "qs_write_side s"
  shows "qs_write_side (qs_fail ec s)"
proof -
  have "qs_closed (qs_call_read_handler (qs_invoke_read e [] (s\<lparr>qs_closed := True\<rparr>)))" for e
    using qs_rest_eqD(2) [of "qs_call_read_handler (qs_invoke_read e [] (s\<lparr>qs_closed := True\<rparr>))" "s\<lparr>qs_closed := True\<rparr>"]
    by simp
  with qs_closed_write_side [OF assms] show ?thesis
    by (auto simp: qs_fail_def Let_def intro!: qs_abort_active_write_side)
qed

lemma qs_fail_read_inv:
  assumes "qs_read_inv s" and "qs_read_idle s" and "ec \<noteq> Eof"
  shows "qs_read_inv (qs_fail ec s)" and "qs_read_idle (qs_fail ec s)"
proof -
  let ?s1 = "s\<lparr>qs_closed := True\<rparr>"
  let ?e = "if ec \<noteq> Success \<and> \<not> qs_eof_received s then Partial_message else ec"
  let ?i = "qs_invoke_read ?e [] ?s1"
  define s2 where "s2 = (if qs_read_handler s \<noteq> None then qs_call_read_handler ?i else ?s1)"
  have s1: "qs_read_inv ?s1"
    using assms(1) by (simp add: qs_read_inv_def qs_delivered_def qs_eof_seen_def qs_buffered_def)
  have "qs_read_inv s2 \<and> qs_read_idle s2"
  proof (cases "qs_read_handler s")
    case None
    with s1 assms(2) show ?thesis
      by (simp add: s2_def qs_read_idle_def qs_credited_def qs_delivered_def)
  next
    case (Some n)
    have i: "qs_read_inv ?i" "qs_credited ?i = qs_credited ?s1" "qs_delivered ?i = qs_delivered ?s1"
      using qs_invoke_read_inv [OF s1, of n "qs_read_head s" "qs_pending_read s" "[]" "qs_incoming s" ?e ?s1]
        Some assms(3) qs_read_invD(1) [OF assms(1)]
      by (simp_all add: qs_buffered_def)
    moreover have "\<not> qs_call_read_handler_active ?i" "qs_incoming ?i = []"
      using qs_read_invE [OF assms(1,2)]
      by (simp_all add: stream_defs Let_def split: list.splits read_action.splits)
    ultimately show ?thesis
      using Some qs_read_invE(3) [OF assms(1,2)] qs_call_read_handler_inv(1) [of ?i] qs_call_read_handler_idle [of ?i]
      by (simp add: s2_def qs_credited_def qs_delivered_def)
  qed
  moreover have "qs_fail ec s = qs_maybe_close (qs_abort_active_write (if ec \<noteq> Success then ec else Connection_reset)
      (qs_emit (On_failed ec) s2))"
    by (simp add: qs_fail_def s2_def Let_def)
  then have "qs_read_same s2 (qs_fail ec s)" by simp
  ultimately show "qs_read_inv (qs_fail ec s)" and "qs_read_idle (qs_fail ec s)"
    using qs_read_same_inv by blast+
qed

section \<open>The machine\<close>

datatype quic_op =
    Op_script "read_action list"
  | Op_read nat
  | Op_cancel_read
  | Op_data bytes
  | Op_eof
  | Op_drop_reader
  | Op_abort_reading
  | Op_write bytes bool
  | Op_cancel_write nat
  | Op_pull nat
  | Op_packet nat nat
  | Op_sent nat
  | Op_acked nat
  | Op_abort_writing
  | Op_drop_writer
  | Op_fail error_code

fun qs_exec :: "quic_op \<Rightarrow> 'a quic_stream_scheme \<Rightarrow> 'a quic_stream_scheme" where
  "qs_exec (Op_script as) s = s\<lparr>qs_script := as\<rparr>"
| "qs_exec (Op_read n) s = qs_async_read_some n s"
| "qs_exec Op_cancel_read s = qs_cancel_read s"
| "qs_exec (Op_data d) s = qs_on_data_chunk d s"
| "qs_exec Op_eof s = qs_on_eof s"
| "qs_exec Op_drop_reader s = qs_reader_dtor s"
| "qs_exec Op_abort_reading s = qs_abort_reading s"
| "qs_exec (Op_write b eof) s = qs_start_write b eof s"
| "qs_exec (Op_cancel_write token) s = qs_cancel_write token s"
| "qs_exec (Op_pull cap) s = fst (data_reader cap s)"
| "qs_exec (Op_packet cap n) s = qs_packet cap n s"
| "qs_exec (Op_sent n) s = on_write_offered n s"
| "qs_exec (Op_acked e) s = qs_on_acked e s"
| "qs_exec Op_abort_writing s = qs_abort_writing Connection_reset s"
| "qs_exec Op_drop_writer s = qs_writer_dtor s"
| "qs_exec (Op_fail ec) s = qs_fail ec s"

fun qs_enabled :: "quic_op \<Rightarrow> 'a quic_stream_scheme \<Rightarrow> bool" where
  "qs_enabled (Op_read n) s = (qs_reader s \<and> qs_read_handler s = None)"
| "qs_enabled (Op_data d) s = (\<not> qs_eof_received s \<and> \<not> qs_read_aborted s)"
| "qs_enabled Op_eof s = (\<not> qs_eof_received s \<and> \<not> qs_read_aborted s)"
| "qs_enabled Op_drop_reader s = (qs_reader s \<and> qs_read_handler s = None)"
| "qs_enabled (Op_write b eof) s = (qs_writer s \<and> \<not> qs_write_handler s)"
| "qs_enabled (Op_pull cap) s = (qs_class s = Http3_class)"
| "qs_enabled (Op_packet cap n) s = (qs_class s = Plain_class)"
| "qs_enabled (Op_sent n) s = (qs_class s = Http3_class)"
| "qs_enabled Op_drop_writer s = (qs_class s = Plain_class \<and> qs_writer s)"
| "qs_enabled (Op_fail ec) s = (ec \<noteq> Eof)"
| "qs_enabled _ s = True"

definition qs_inv :: "'a quic_stream_scheme \<Rightarrow> bool" where
  "qs_inv s = (qs_read_inv s \<and> qs_read_idle s \<and> qs_write_side s)"

lemma qs_invI: "qs_read_inv s \<Longrightarrow> qs_read_idle s \<Longrightarrow> qs_write_side s \<Longrightarrow> qs_inv s"
  by (simp add: qs_inv_def)

lemma qs_init_inv: "qs_inv (qs_init c m)"
  by (simp add: qs_inv_def qs_write_side_def qs_init_write_inv)
    (simp add: qs_wire_ok_def qs_fin_due_def qs_init_def qs_read_inv_def qs_read_idle_def qs_delivered_def qs_credited_def
      qs_buffered_def qs_eof_seen_def)

lemma read_ops_inv:
  assumes "qs_inv s"
  shows "qs_reader s \<Longrightarrow> qs_inv (qs_async_read_some n s)"
    and "qs_inv (qs_cancel_read s)"
    and "\<not> qs_eof_received s \<Longrightarrow> \<not> qs_read_aborted s \<Longrightarrow> qs_inv (qs_on_data_chunk d s)"
    and "\<not> qs_read_aborted s \<Longrightarrow> qs_inv (qs_on_eof s)"
    and "qs_inv (qs_abort_reading s)"
    and "qs_read_handler s = None \<Longrightarrow> qs_inv (qs_reader_dtor s)"
    and "ec \<noteq> Eof \<Longrightarrow> qs_inv (qs_fail ec s)"
  using assms
  by (simp_all add: qs_inv_def qs_async_read_some_read_inv qs_cancel_read_read_inv qs_on_data_chunk_read_inv
      qs_on_eof_read_inv qs_abort_reading_read_inv qs_reader_dtor_read_inv qs_fail_read_inv qs_fail_write_side)

lemmas write_frames = qs_emit_def qs_complete_write_def qs_finish_active_write_def qs_abort_active_write_def
  qs_reset_writing_def qs_maybe_close_def

lemma qs_start_write_wire_ok:
  assumes "qs_write_side s"
  shows "qs_wire_ok (qs_start_write b eof s)"
  using assms qs_write_inv_positionsD(3,4) [of s]
  by (cases "qs_write_mode s")
    (auto simp: qs_write_side_def qs_wire_ok_def qs_fin_due_def qs_start_write_def Let_def write_frames)

lemma qs_cancel_write_wire_ok:
  assumes "qs_write_side s"
  shows "qs_wire_ok (qs_cancel_write token s)"
  using assms
  by (auto simp: qs_write_side_def qs_wire_ok_def qs_fin_due_def qs_cancel_write_def Let_def write_frames
      split: stream_class.splits)

lemma write_ops_wire_ok:
  assumes "qs_wire_ok s"
  shows "qs_class s = Http3_class \<Longrightarrow> qs_wire_ok (on_write_offered n s)"
    and "qs_wire_ok (qs_on_acked e s)"
    and "qs_wire_ok (qs_abort_writing ec s)"
    and "qs_wire_ok (qs_writer_dtor s)"
  using assms
  by (auto simp: qs_wire_ok_def qs_fin_due_def on_write_offered_def qs_on_sent_def qs_on_acked_def qs_abort_writing_def
      qs_writer_dtor_def qs_delete_writer_def Let_def write_frames split: stream_class.splits)

lemma write_ops_write_side:
  assumes "qs_write_side s"
  shows "\<not> qs_write_handler s \<Longrightarrow> qs_write_side (qs_start_write b eof s)"
    and "qs_write_side (qs_cancel_write token s)"
    and "qs_class s = Http3_class \<Longrightarrow> qs_write_side (fst (data_reader cap s))"
    and "qs_class s = Plain_class \<Longrightarrow> qs_write_side (qs_packet cap n s)"
    and "qs_class s = Http3_class \<Longrightarrow> qs_write_side (on_write_offered n s)"
    and "qs_write_side (qs_on_acked e s)"
    and "qs_write_side (qs_abort_writing ec s)"
    and "qs_write_side (qs_writer_dtor s)"
proof -
  have w: "qs_write_inv s" "qs_wire_ok s" using assms by (simp_all add: qs_write_side_def)
  show "qs_write_side (qs_start_write b eof s)" if "\<not> qs_write_handler s"
    using qs_start_write_write_inv [OF w(1) that] qs_start_write_wire_ok [OF assms] by (simp add: qs_write_side_def)
  show "qs_write_side (qs_cancel_write token s)"
    using qs_cancel_write_write_inv [OF w(1)] qs_cancel_write_wire_ok [OF assms] by (simp add: qs_write_side_def)
  show "qs_write_side (fst (data_reader cap s))" if "qs_class s = Http3_class"
    using data_reader_link [OF w that surjective_pairing] by (simp add: qs_write_side_def)
  show "qs_write_side (qs_packet cap n s)" if "qs_class s = Plain_class"
    using qs_packet_link [OF w that] by (simp add: qs_write_side_def)
  show "qs_write_side (on_write_offered n s)" if "qs_class s = Http3_class"
    using write_ops_wire_ok(1) [OF w(2) that] w(1) qs_on_sent_write_inv [OF w(1)]
    by (simp add: qs_write_side_def on_write_offered_def split: if_splits)
  show "qs_write_side (qs_on_acked e s)" "qs_write_side (qs_abort_writing ec s)" "qs_write_side (qs_writer_dtor s)"
    using write_ops_wire_ok(2-4) [OF w(2)] w(1) qs_on_acked_write_inv qs_abort_writing_write_inv qs_writer_dtor_write_inv
    by (simp_all add: qs_write_side_def)
qed

lemma qs_exec_inv:
  assumes "qs_inv s" and "qs_enabled a s"
  shows "qs_inv (qs_exec a s)"
proof -
  have R: "qs_inv t" if "qs_read_same s t" "qs_write_side t" for t :: "'a quic_stream_scheme"
    using that assms(1) qs_read_same_inv by (auto simp: qs_inv_def)
  have W: "qs_write_side s" using assms(1) by (simp add: qs_inv_def)
  have "qs_inv (s\<lparr>qs_script := as\<rparr>)" for as
    using assms(1) qs_read_frame [of "s\<lparr>qs_script := as\<rparr>" s]
    by (simp add: qs_inv_def qs_delivered_def qs_credited_def qs_eof_seen_def)
  with assms read_ops_inv [OF assms(1)] show ?thesis
    by (cases a) (auto intro!: R write_ops_write_side [OF W])
qed

interpretation qs: machine qs_exec qs_enabled qs_inv
  by unfold_locales (rule qs_exec_inv)

section \<open>The contract of the reader\<close>

fun qs_input :: "quic_op \<Rightarrow> bytes" where
  "qs_input (Op_data d) = d"
| "qs_input _ = []"

definition qs_intact :: "'a quic_stream_scheme \<Rightarrow> bool" where
  "qs_intact s = (qs_reader s \<and> \<not> qs_read_aborted s)"

lemma qs_received_read_ops [simp]:
  "qs_received (qs_async_read_some n s) = qs_received s"
  "qs_received (qs_cancel_read s) = qs_received s"
  "qs_received (qs_on_data_chunk d s) = qs_received s @ d"
  "qs_received (qs_on_eof s) = qs_received s"
  "qs_received (qs_abort_reading s) = qs_received s"
  "qs_received (qs_reader_dtor s) = qs_received s"
  "qs_received (qs_fail ec s) = qs_received s"
  by (simp_all add: qs_async_read_some_def qs_cancel_read_def qs_on_data_chunk_def qs_on_eof_def qs_abort_reading_def
      qs_reader_dtor_def qs_delete_reader_def qs_fail_def Let_def write_frames)

lemma qs_received_same: "qs_read_same s t \<Longrightarrow> qs_received t = qs_received s"
  by (simp add: qs_read_same_def)

lemma qs_received_write_ops [simp]:
  "qs_received (qs_start_write b eof s) = qs_received s" "qs_received (qs_cancel_write token s) = qs_received s"
  "qs_received (fst (data_reader cap s)) = qs_received s" "qs_received (qs_packet cap n s) = qs_received s"
  "qs_received (on_write_offered n s) = qs_received s" "qs_received (qs_on_acked e s) = qs_received s"
  "qs_received (qs_abort_writing ec s) = qs_received s" "qs_received (qs_writer_dtor s) = qs_received s"
  by (rule qs_received_same; simp)+

lemma qs_received_exec: "qs_received (qs_exec a s) = qs_received s @ qs_input a"
  by (cases a) simp_all

interpretation qs_body: body_reader qs_exec qs_enabled qs_inv qs_input qs_received qs_delivered qs_buffered qs_intact
proof unfold_locales
  show "qs_received (qs_exec a s) = qs_received s @ qs_input a" for a and s :: "'a quic_stream_scheme"
    by (rule qs_received_exec)
  show "prefix (qs_delivered s) (qs_received s)" if "qs_inv s" for s :: "'a quic_stream_scheme"
    using that by (simp add: qs_inv_def qs_read_invD)
  show "qs_delivered s @ qs_buffered s = qs_received s" if "qs_inv s" "qs_intact s" for s :: "'a quic_stream_scheme"
    using that by (simp add: qs_inv_def qs_intact_def qs_read_invD)
qed

section \<open>The contract of the writer\<close>

text \<open>How a write is answered at the door.\<close>

definition qs_write_answer :: "'a quic_stream_scheme \<Rightarrow> bytes \<Rightarrow> bool \<Rightarrow> error_code option" where
  "qs_write_answer s b eof =
     (case drop (length (qs_events s)) (qs_events (qs_start_write b eof s)) of
        [Write_done ec] \<Rightarrow> Some ec | _ \<Rightarrow> None)"

definition qs_end_gone_out :: "'a quic_stream_scheme \<Rightarrow> bool" where
  "qs_end_gone_out s = (qs_fin_offered s \<and> \<not> qs_write_active s)"

interpretation qs_writer: writer_contract qs_write_answer qs_eof_submitted qs_end_gone_out
  by unfold_locales (simp_all add: qs_write_answer_def qs_start_write_def qs_emit_def qs_end_gone_out_def)

text \<open>The same contract once the stream is gone, and the handle answers on its own.\<close>

interpretation qs_detached: writer_contract "\<lambda>e b eof. Some (detached_write e b eof)" "\<lambda>e. e" "\<lambda>e. e"
  by unfold_locales (simp_all add: detached_write_def)

section \<open>Every write completes once\<close>

fun is_write_done :: "quic_event \<Rightarrow> bool" where
  "is_write_done (Write_done ec) = True"
| "is_write_done _ = False"

definition qs_writes_done :: "'a quic_stream_scheme \<Rightarrow> nat" where
  "qs_writes_done s = length (filter is_write_done (qs_events s))"

definition qs_writes_waiting :: "'a quic_stream_scheme \<Rightarrow> nat" where
  "qs_writes_waiting s = (if qs_write_handler s then 1 else 0)"

fun qs_write_asked :: "quic_op \<Rightarrow> nat" where
  "qs_write_asked (Op_write b eof) = 1"
| "qs_write_asked _ = 0"

definition qs_writes :: "'a quic_stream_scheme \<Rightarrow> nat" where
  "qs_writes s = qs_writes_done s + qs_writes_waiting s"

lemma qs_writes_emit [simp]: "qs_writes (qs_emit e s) = qs_writes s + (if is_write_done e then 1 else 0)"
  by (simp add: qs_writes_def qs_writes_done_def qs_writes_waiting_def qs_emit_def)

lemma qs_writes_upd [simp]:
  "qs_writes (s\<lparr>qs_pending_read := p\<rparr>) = qs_writes s" "qs_writes (s\<lparr>qs_read_head := h\<rparr>) = qs_writes s"
  "qs_writes (s\<lparr>qs_incoming := h\<rparr>) = qs_writes s" "qs_writes (s\<lparr>qs_eof_received := a\<rparr>) = qs_writes s"
  "qs_writes (s\<lparr>qs_read_aborted := a\<rparr>) = qs_writes s" "qs_writes (s\<lparr>qs_received := h\<rparr>) = qs_writes s"
  "qs_writes (s\<lparr>qs_read_handler := r\<rparr>) = qs_writes s" "qs_writes (s\<lparr>qs_script := as\<rparr>) = qs_writes s"
  "qs_writes (s\<lparr>qs_reader := a\<rparr>) = qs_writes s" "qs_writes (s\<lparr>qs_call_read_handler_active := a\<rparr>) = qs_writes s"
  "qs_writes (s\<lparr>qs_closed := a\<rparr>) = qs_writes s" "qs_writes (s\<lparr>qs_write_aborted := a\<rparr>) = qs_writes s"
  "qs_writes (s\<lparr>qs_write_active := a\<rparr>) = qs_writes s" "qs_writes (s\<lparr>qs_write_source := h\<rparr>) = qs_writes s"
  "qs_writes (s\<lparr>qs_eof_submitted := a\<rparr>) = qs_writes s" "qs_writes (s\<lparr>qs_fin_offered := a\<rparr>) = qs_writes s"
  "qs_writes (s\<lparr>qs_tx_queued := n\<rparr>) = qs_writes s" "qs_writes (s\<lparr>qs_tx_offered := n\<rparr>) = qs_writes s"
  "qs_writes (s\<lparr>qs_tx_sent := n\<rparr>) = qs_writes s" "qs_writes (s\<lparr>qs_tx_acked := n\<rparr>) = qs_writes s"
  "qs_writes (s\<lparr>qs_chunks := cs\<rparr>) = qs_writes s" "qs_writes (s\<lparr>qs_body := h\<rparr>) = qs_writes s"
  "qs_writes (s\<lparr>qs_wire := h\<rparr>) = qs_writes s" "qs_writes (s\<lparr>qs_writer := a\<rparr>) = qs_writes s"
  "qs_writes (s\<lparr>qs_write_copied := n\<rparr>) = qs_writes s"
  by (simp_all add: qs_writes_def qs_writes_done_def qs_writes_waiting_def)

lemma qs_writes_park: "\<not> qs_write_handler s \<Longrightarrow> qs_writes (s\<lparr>qs_write_handler := True\<rparr>) = Suc (qs_writes s)"
  by (simp add: qs_writes_def qs_writes_done_def qs_writes_waiting_def)

lemma qs_writes_complete [simp]: "qs_writes (qs_complete_write ec s) = qs_writes s"
  by (simp add: qs_complete_write_def qs_emit_def qs_writes_def qs_writes_done_def qs_writes_waiting_def)

lemma qs_writes_helpers [simp]:
  "qs_writes (qs_finish_active_write s) = qs_writes s" "qs_writes (qs_abort_active_write ec s) = qs_writes s"
  "qs_writes (qs_maybe_close s) = qs_writes s" "qs_writes (qs_stage s) = qs_writes s"
  "qs_writes (qs_consume n s) = qs_writes s"
  by (simp_all add: qs_finish_active_write_def qs_abort_active_write_def qs_maybe_close_def qs_stage_def Let_def
      qs_consume_def)

lemma qs_writes_reset [simp]: "qs_writes (qs_reset_writing s) = qs_writes s"
  by (cases "qs_class s") (simp_all add: qs_reset_writing_def)

lemma qs_writes_reader_dtor [simp]: "qs_writes (qs_reader_dtor s) = qs_writes s"
  by (simp add: qs_reader_dtor_def qs_delete_reader_def Let_def)

lemma qs_writes_invoke [simp]: "qs_writes (qs_invoke_read ec d s) = qs_writes s"
  by (simp add: qs_invoke_read_def qs_reader_acts_def split: list.splits read_action.splits)

lemma qs_writes_read_loop [simp]: "qs_writes (fst (qs_read_loop s c)) = qs_writes s"
proof (induction s c rule: qs_read_loop.induct)
  case (1 s c)
  then show ?case
    by (subst qs_read_loop.simps) (auto simp: Let_def split: option.splits prod.splits)
qed

lemma qs_writes_call [simp]: "qs_writes (qs_call_read_handler s) = qs_writes s"
  using qs_writes_read_loop [of "s\<lparr>qs_call_read_handler_active := True\<rparr>" 0]
  by (simp add: qs_call_read_handler_def split_beta)

lemma qs_writes_start:
  assumes "\<not> qs_write_handler s"
  shows "qs_writes (qs_start_write b eof s) = Suc (qs_writes s)"
  using assms
  by (auto simp: qs_start_write_def Let_def qs_writes_park)
    (simp_all add: qs_writes_def qs_writes_done_def qs_writes_waiting_def)

lemma qs_writes_ops [simp]:
  "qs_writes (qs_async_read_some n s) = qs_writes s" "qs_writes (qs_cancel_read s) = qs_writes s"
  "qs_writes (qs_on_data_chunk d s) = qs_writes s" "qs_writes (qs_on_eof s) = qs_writes s"
  "qs_writes (qs_abort_reading s) = qs_writes s" "qs_writes (qs_fail ec s) = qs_writes s"
  "qs_writes (qs_cancel_write token s) = qs_writes s" "qs_writes (fst (qs_pending_data from cap s)) = qs_writes s"
  "qs_writes (qs_on_offered e fin s) = qs_writes s" "qs_writes (qs_on_sent e s) = qs_writes s"
  "qs_writes (qs_on_acked e s) = qs_writes s" "qs_writes (qs_abort_writing ec s) = qs_writes s"
  "qs_writes (qs_writer_dtor s) = qs_writes s"
  by (simp_all add: qs_async_read_some_def qs_cancel_read_def qs_on_data_chunk_def qs_on_eof_def qs_abort_reading_def
      qs_fail_def qs_cancel_write_def qs_pending_data_def qs_on_offered_def qs_on_sent_def qs_on_acked_def
      qs_abort_writing_def qs_writer_dtor_def qs_delete_writer_def Let_def split_beta)

lemma qs_writes_pull [simp]:
  "qs_writes (fst (data_reader cap s)) = qs_writes s" "qs_writes (qs_packet cap n s) = qs_writes s"
  "qs_writes (on_write_offered n s) = qs_writes s"
  by (simp_all add: data_reader_def qs_packet_def qs_data_written_def on_write_offered_def Let_def split_beta)

interpretation qs_acct: accounting qs_exec qs_enabled qs_inv qs_write_asked qs_writes_done qs_writes_waiting
proof unfold_locales
  show "qs_writes_done (qs_exec a s) + qs_writes_waiting (qs_exec a s) =
        qs_writes_done s + qs_writes_waiting s + qs_write_asked a"
    if "qs_inv s" "qs_enabled a s" for a and s :: "'a quic_stream_scheme"
    using that by (cases a) (simp_all add: qs_writes_def [symmetric] qs_writes_start)
qed

section \<open>Ends are final\<close>

lemma qs_wside_upd [simp]:
  "qs_wside (s\<lparr>qs_pending_read := p\<rparr>) = qs_wside s" "qs_wside (s\<lparr>qs_read_head := h\<rparr>) = qs_wside s"
  "qs_wside (s\<lparr>qs_incoming := h\<rparr>) = qs_wside s" "qs_wside (s\<lparr>qs_eof_received := a\<rparr>) = qs_wside s"
  "qs_wside (s\<lparr>qs_read_aborted := a\<rparr>) = qs_wside s" "qs_wside (s\<lparr>qs_received := h\<rparr>) = qs_wside s"
  "qs_wside (s\<lparr>qs_read_handler := r\<rparr>) = qs_wside s" "qs_wside (s\<lparr>qs_script := as\<rparr>) = qs_wside s"
  "qs_wside (s\<lparr>qs_reader := a\<rparr>) = qs_wside s"
  by (simp_all add: qs_wside_def quic_stream.defs)

lemma qs_wside_emit [simp]: "qs_wside (qs_emit e s) = qs_wside s"
  by (simp add: qs_wside_def qs_emit_def quic_stream.defs)

lemma qs_wside_call [simp]: "qs_wside (qs_call_read_handler s) = qs_wside s"
  by (rule qs_rest_wside) simp

lemma qs_wside_invoke [simp]: "qs_wside (qs_invoke_read ec d s) = qs_wside s"
  by (rule qs_rest_wside) simp

lemma read_ops_wside [simp]:
  "qs_wside (qs_async_read_some n s) = qs_wside s" "qs_wside (qs_cancel_read s) = qs_wside s"
  "qs_wside (qs_on_data_chunk d s) = qs_wside s" "qs_wside (qs_on_eof s) = qs_wside s"
  "qs_wside (qs_abort_reading s) = qs_wside s" "qs_wside (qs_reader_dtor s) = qs_wside s"
  by (simp_all add: qs_async_read_some_def qs_cancel_read_def qs_on_data_chunk_def qs_on_eof_def
      qs_abort_reading_def qs_reader_dtor_def qs_delete_reader_def qs_maybe_close_def Let_def)

lemmas read_ops_write_fields [simp] =
  read_ops_wside [THEN qs_wside_eqD(9)] read_ops_wside [THEN qs_wside_eqD(17)] read_ops_wside [THEN qs_wside_eqD(18)]
  read_ops_wside [THEN qs_wside_eqD(19)] read_ops_wside [THEN qs_wside_eqD(20)]
  read_ops_wside [THEN qs_wside_eqD(13)]

lemma qs_fail_write_fields [simp]:
  "qs_fin_offered (qs_fail ec s) = qs_fin_offered s" "qs_body (qs_fail ec s) = qs_body s"
  "qs_wire (qs_fail ec s) = qs_wire s" "qs_closed (qs_fail ec s)"
proof -
  define s2 where "s2 = (if qs_read_handler s \<noteq> None
     then qs_call_read_handler (qs_invoke_read (if ec \<noteq> Success \<and> \<not> qs_eof_received s then Partial_message else ec) []
            (s\<lparr>qs_closed := True\<rparr>)) else s\<lparr>qs_closed := True\<rparr>)"
  have "qs_wside s2 = qs_wside (s\<lparr>qs_closed := True\<rparr>)" by (simp add: s2_def)
  note w = qs_wside_eqD [OF this]
  have "qs_fail ec s = qs_maybe_close (qs_abort_active_write (if ec \<noteq> Success then ec else Connection_reset)
      (qs_emit (On_failed ec) s2))"
    by (simp add: qs_fail_def s2_def Let_def)
  then show "qs_fin_offered (qs_fail ec s) = qs_fin_offered s" "qs_body (qs_fail ec s) = qs_body s"
    "qs_wire (qs_fail ec s) = qs_wire s" "qs_closed (qs_fail ec s)"
    using w by (simp_all add: write_frames)
qed

definition qs_dead :: "'a quic_stream_scheme \<Rightarrow> bool" where
  "qs_dead s = (qs_closed s \<or> qs_write_aborted s)"

lemma qs_pending_data_dead: "qs_dead s \<Longrightarrow> qs_pending_data from cap s = (s, [], False)"
  by (auto simp: qs_pending_data_def qs_dead_def)

lemma qs_dead_step:
  assumes "qs_dead s"
  shows "qs_dead (qs_exec a s) \<and> qs_wire (qs_exec a s) = qs_wire s \<and>
         qs_fin_offered (qs_exec a s) = qs_fin_offered s"
proof (cases a)
  case (Op_pull cap)
  with assms show ?thesis by (simp add: data_reader_def qs_pending_data_dead)
next
  case (Op_packet cap n)
  with assms show ?thesis by (simp add: qs_packet_def qs_pending_data_dead)
qed (use assms in \<open>auto simp: qs_dead_def qs_start_write_def qs_cancel_write_def on_write_offered_def qs_on_sent_def
  qs_on_acked_def qs_abort_writing_def qs_writer_dtor_def qs_delete_writer_def Let_def write_frames
  split: stream_class.splits\<close>)

lemma qs_fin_no_stage: "qs_write_inv s \<Longrightarrow> qs_fin_offered s \<Longrightarrow> qs_stage s = s"
  by (auto simp: qs_stage_def qs_write_inv_def qs_end_ok_def)

lemma qs_fin_pending: "qs_write_inv s \<Longrightarrow> qs_fin_offered s \<Longrightarrow> fst (qs_pending_data from cap s) = s"
  by (simp add: qs_pending_data_def qs_fin_no_stage Let_def split_beta)

lemma qs_fin_step:
  assumes inv: "qs_inv s" and fin: "qs_fin_offered s"
  shows "qs_fin_offered (qs_exec a s) \<and> qs_body (qs_exec a s) = qs_body s"
proof -
  have w: "qs_write_inv s" using inv by (simp add: qs_inv_def qs_write_side_def)
  note pos = qs_write_inv_positionsD [OF w] and pend = qs_fin_pending [OF w fin]
  have over: "qs_tx_offered s = qs_tx_queued s" "qs_closed s \<or> qs_write_aborted s \<or> qs_eof_submitted s"
    using w fin by (auto simp: qs_write_inv_def qs_end_ok_def)
  show ?thesis
  proof (cases a)
    case (Op_write b eof)
    with over(2) fin show ?thesis by (auto simp: qs_start_write_def qs_emit_def)
  next
    case (Op_cancel_write token)
    with over(1) fin pos show ?thesis
      by (auto simp: qs_cancel_write_def Let_def write_frames split: stream_class.splits)
  next
    case (Op_pull cap)
    with pend [of "qs_tx_offered s" cap] fin show ?thesis
      by (auto simp: data_reader_def Let_def split_beta qs_on_offered_fin)
  next
    case (Op_packet cap n)
    with pend [of "qs_tx_sent s" cap] fin show ?thesis
      by (auto simp: qs_packet_def qs_data_written_def Let_def split_beta qs_on_offered_fin qs_on_sent_wire qs_on_sent_def write_frames)
  qed (use fin in \<open>auto simp: on_write_offered_def qs_on_sent_def qs_on_acked_def qs_abort_writing_def
    qs_writer_dtor_def qs_delete_writer_def Let_def write_frames split: stream_class.splits\<close>)
qed

text \<open>Where the end of the incoming body comes from.\<close>

lemma qs_eof_received_exec: "qs_eof_received (qs_exec a s) = (qs_eof_received s \<or> a = Op_eof)"
proof (cases a)
  case (Op_fail ec)
  then show ?thesis by (simp add: qs_fail_def Let_def write_frames)
qed (simp_all add: qs_async_read_some_def qs_cancel_read_def qs_on_data_chunk_def qs_on_eof_def qs_abort_reading_def
    qs_reader_dtor_def qs_delete_reader_def Let_def qs_start_write_read_same [unfolded qs_read_same_def]
    qs_cancel_write_read_same [unfolded qs_read_same_def] data_reader_read_same [unfolded qs_read_same_def]
    qs_packet_read_same [unfolded qs_read_same_def] on_write_offered_def qs_on_sent_def qs_on_acked_def
    qs_abort_writing_def qs_writer_dtor_read_same [unfolded qs_read_same_def] write_frames)

section \<open>What never changes\<close>

lemma qs_mode_helpers [simp]:
  "qs_write_mode (qs_emit e s) = qs_write_mode s" "qs_write_mode (qs_complete_write ec s) = qs_write_mode s"
  "qs_write_mode (qs_finish_active_write s) = qs_write_mode s" "qs_write_mode (qs_abort_active_write ec s) = qs_write_mode s"
  "qs_write_mode (qs_reset_writing s) = qs_write_mode s" "qs_write_mode (qs_maybe_close s) = qs_write_mode s"
  "qs_write_mode (qs_call_read_handler s) = qs_write_mode s" "qs_write_mode (qs_invoke_read ec d s) = qs_write_mode s"
  by (simp_all add: qs_wside_eqD(1) [OF qs_wside_call] qs_wside_eqD(1) [OF qs_wside_invoke] qs_reset_writing_fields
      qs_emit_def qs_complete_write_def qs_finish_active_write_def qs_abort_active_write_def qs_maybe_close_def)

lemma qs_mode_ops [simp]:
  "qs_write_mode (qs_start_write b eof s) = qs_write_mode s" "qs_write_mode (qs_cancel_write token s) = qs_write_mode s"
  "qs_write_mode (fst (qs_pending_data from cap s)) = qs_write_mode s" "qs_write_mode (qs_on_offered e fin s) = qs_write_mode s"
  "qs_write_mode (qs_on_sent e s) = qs_write_mode s" "qs_write_mode (qs_on_acked e s) = qs_write_mode s"
  "qs_write_mode (qs_abort_writing ec s) = qs_write_mode s" "qs_write_mode (qs_writer_dtor s) = qs_write_mode s"
  "qs_write_mode (qs_fail ec s) = qs_write_mode s"
  by (simp_all add: qs_start_write_def qs_cancel_write_def qs_pending_data_def qs_on_offered_def qs_on_sent_def qs_on_acked_def
      qs_abort_writing_def qs_writer_dtor_def qs_delete_writer_def qs_fail_def Let_def split_beta)

lemma qs_mode_exec: "qs_write_mode (qs_exec a s) = qs_write_mode s"
  by (cases a) (simp_all add: read_ops_wside [THEN qs_wside_eqD(1)] data_reader_def qs_packet_def qs_data_written_def
      on_write_offered_def Let_def split_beta)

lemma qs_class_same: "qs_read_same s t \<Longrightarrow> qs_class t = qs_class s"
  by (simp add: qs_read_same_def)

lemma qs_class_exec: "qs_class (qs_exec a s) = qs_class s"
proof (cases a)
  case (Op_fail ec)
  then show ?thesis
    by (auto simp: qs_fail_def Let_def write_frames qs_rest_wside(2) [OF qs_rest_call_read_handler]
        qs_rest_wside(2) [OF qs_rest_invoke])
qed (auto intro!: qs_class_same simp: qs_async_read_some_def qs_cancel_read_def qs_on_data_chunk_def qs_on_eof_def
    qs_abort_reading_def qs_reader_dtor_def qs_delete_reader_def qs_maybe_close_def qs_emit_def Let_def
    qs_rest_wside(2) [OF qs_rest_call_read_handler])

section \<open>What success means\<close>

definition qs_write_log :: "'a quic_stream_scheme \<Rightarrow> quic_event list" where
  "qs_write_log s = filter is_write_done (qs_events s)"

lemma qs_write_log_upd [simp]:
  "qs_write_log (s\<lparr>qs_pending_read := p\<rparr>) = qs_write_log s" "qs_write_log (s\<lparr>qs_read_head := h\<rparr>) = qs_write_log s"
  "qs_write_log (s\<lparr>qs_incoming := h\<rparr>) = qs_write_log s" "qs_write_log (s\<lparr>qs_eof_received := a\<rparr>) = qs_write_log s"
  "qs_write_log (s\<lparr>qs_read_aborted := a\<rparr>) = qs_write_log s" "qs_write_log (s\<lparr>qs_received := h\<rparr>) = qs_write_log s"
  "qs_write_log (s\<lparr>qs_read_handler := r\<rparr>) = qs_write_log s" "qs_write_log (s\<lparr>qs_script := as\<rparr>) = qs_write_log s"
  "qs_write_log (s\<lparr>qs_reader := a\<rparr>) = qs_write_log s" "qs_write_log (s\<lparr>qs_closed := a\<rparr>) = qs_write_log s"
  "qs_write_log (s\<lparr>qs_call_read_handler_active := a\<rparr>) = qs_write_log s"
  by (simp_all add: qs_write_log_def)

lemma qs_write_log_emit [simp]:
  "qs_write_log (qs_emit e s) = (if is_write_done e then qs_write_log s @ [e] else qs_write_log s)"
  by (simp add: qs_write_log_def qs_emit_def)

lemma qs_write_log_reader_dtor [simp]: "qs_write_log (qs_reader_dtor s) = qs_write_log s"
  by (simp add: qs_reader_dtor_def qs_delete_reader_def qs_maybe_close_def Let_def)

lemma qs_write_log_invoke [simp]: "qs_write_log (qs_invoke_read ec d s) = qs_write_log s"
  by (simp add: qs_invoke_read_def qs_reader_acts_def split: list.splits read_action.splits)

lemma qs_write_log_loop [simp]: "qs_write_log (fst (qs_read_loop s c)) = qs_write_log s"
proof (induction s c rule: qs_read_loop.induct)
  case (1 s c)
  then show ?case
    by (subst qs_read_loop.simps) (auto simp: Let_def split: option.splits prod.splits)
qed

lemma qs_write_log_call [simp]: "qs_write_log (qs_call_read_handler s) = qs_write_log s"
  using qs_write_log_loop [of "s\<lparr>qs_call_read_handler_active := True\<rparr>" 0]
  by (simp add: qs_call_read_handler_def split_beta qs_consume_def)

lemma read_ops_write_log [simp]:
  "qs_write_log (qs_async_read_some n s) = qs_write_log s" "qs_write_log (qs_cancel_read s) = qs_write_log s"
  "qs_write_log (qs_on_data_chunk d s) = qs_write_log s" "qs_write_log (qs_on_eof s) = qs_write_log s"
  "qs_write_log (qs_abort_reading s) = qs_write_log s"
  by (simp_all add: qs_async_read_some_def qs_cancel_read_def qs_on_data_chunk_def qs_on_eof_def
      qs_abort_reading_def Let_def)

lemma qs_abort_write_log:
  "ec \<noteq> Success \<Longrightarrow> qs_write_log (qs_abort_active_write ec s) \<noteq> qs_write_log s @ [Write_done Success]"
  by (simp add: qs_write_log_def write_frames)

text \<open>A write in progress is through when all of it is with the stack.\<close>

definition qs_write_through :: "'a quic_stream_scheme \<Rightarrow> 'a quic_stream_scheme \<Rightarrow> bool" where
  "qs_write_through s t =
     (drop (qs_write_base s) (qs_wire t) = qs_write_source s \<and>
      (qs_write_mode s = ZeroCopy \<longrightarrow> qs_write_base s + length (qs_write_source s) \<le> qs_tx_acked t) \<and>
      (qs_write_is_eof s \<longrightarrow> qs_fin_offered t))"

end
