(* ===== verification/Quic_Properties.thy ===== *)
theory Quic_Properties
  imports Quic_Machine
begin

text \<open>
  What the invariants of the QUIC stream amount to, for every sequence of operations
  (\<open>Quic_Machine\<close>) on a fresh stream: the body received reaches the reader complete and in order,
  the body written reaches the stack complete and in order, ends mean what they say, buffers are
  not handed back too early, and nothing waits for something that has already happened.
\<close>

section \<open>Success of a write\<close>

lemma qs_through:
  assumes w: "qs_write_inv t" and k: "qs_wire t = take (qs_tx_offered t) (qs_body t)"
    "qs_fin_due t \<Longrightarrow> qs_fin_offered t" and a: "qs_write_active t"
    and e: "qs_tx_offered t = qs_tx_queued t"
    and c: "qs_write_mode t = Staged \<Longrightarrow> qs_write_copied t = length (qs_write_source t)"
  shows "drop (qs_write_base t) (qs_wire t) = qs_write_source t"
    and "qs_write_is_eof t \<Longrightarrow> qs_write_source t \<noteq> [] \<Longrightarrow> qs_fin_offered t"
    and "qs_tx_queued t = qs_write_base t + length (qs_write_source t)"
proof -
  have all: "taken (qs_write_mode t) (qs_write_copied t) (qs_write_source t) = qs_write_source t"
    using c by (cases "qs_write_mode t") simp_all
  have "qs_wire t = qs_body t"
    using k(1) e qs_write_inv_positionsD(4) [OF w] by simp
  then show "drop (qs_write_base t) (qs_wire t) = qs_write_source t"
    and "qs_tx_queued t = qs_write_base t + length (qs_write_source t)"
    using w a all by (simp_all add: qs_write_inv_def qs_source_ok_def)
  show "qs_fin_offered t" if "qs_write_is_eof t" "qs_write_source t \<noteq> []"
    using that k(2) a e c by (simp add: qs_fin_due_def)
qed

lemma qs_on_acked_success:
  assumes w: "qs_write_inv s" "qs_wire_ok s"
    and log: "qs_write_log (qs_on_acked e0 s) = qs_write_log s @ [Write_done Success]"
  shows "qs_write_through s (qs_on_acked e0 s)"
proof -
  define e where "e = min e0 (qs_tx_offered s)"
  have full: "\<not> e \<le> qs_tx_acked s" "qs_write_mode s = ZeroCopy" "qs_write_active s" "qs_write_source s \<noteq> []"
    "e \<ge> qs_write_base s + length (qs_write_source s)"
    using log unfolding qs_on_acked_def Let_def e_def [symmetric]
    by (auto simp: qs_write_log_def write_frames split: if_splits)
  note pos = qs_write_inv_positionsD [OF w(1)]
  have q: "qs_tx_queued s = qs_write_base s + length (qs_write_source s)"
    using w(1) full by (simp add: qs_write_inv_def qs_source_ok_def)
  have off: "qs_tx_offered s = qs_tx_queued s" using full(5) q pos by (simp add: e_def)
  note t = qs_through [OF w(1) _ _ full(3) off]
  have "qs_wire (qs_on_acked e0 s) = qs_wire s" "qs_fin_offered (qs_on_acked e0 s) = qs_fin_offered s"
    "qs_tx_acked (qs_on_acked e0 s) = e"
    using full unfolding qs_on_acked_def Let_def e_def [symmetric] by (simp_all add: write_frames)
  with t full w(2) show ?thesis by (simp add: qs_write_through_def qs_wire_ok_def)
qed

lemma qs_on_sent_success:
  assumes w: "qs_write_inv s" and k: "qs_wire s = take (qs_tx_offered s) (qs_body s)"
    "qs_fin_due s \<Longrightarrow> qs_fin_offered s"
    and log: "qs_write_log (qs_on_sent e s) = qs_write_log s @ [Write_done Success]"
  shows "qs_write_through s (qs_on_sent e s)"
proof -
  have full: "qs_write_mode s = Staged" "qs_write_active s" "qs_write_source s \<noteq> []"
    "qs_write_copied s = length (qs_write_source s)" "qs_tx_offered s \<ge> qs_tx_queued s"
    using log by (auto simp: qs_on_sent_def Let_def qs_write_log_def write_frames split: if_splits)
  have "qs_tx_offered s = qs_tx_queued s" using full(5) qs_write_inv_positionsD [OF w] by simp
  note t = qs_through [OF w k full(2) this]
  with full show ?thesis
    by (simp add: qs_write_through_def qs_on_sent_wire qs_on_sent_due)
qed

lemma qs_on_offered_log:
  "qs_write_log (qs_on_offered e f t) =
     (if f \<and> qs_write_active t \<and> qs_write_source t = [] \<and> qs_write_handler t
      then qs_write_log t @ [Write_done Success] else qs_write_log t)"
  "\<not> (f \<and> qs_write_active t \<and> qs_write_source t = []) \<Longrightarrow>
   qs_write_source (qs_on_offered e f t) = qs_write_source t \<and> qs_write_active (qs_on_offered e f t) = qs_write_active t \<and>
   qs_write_handler (qs_on_offered e f t) = qs_write_handler t"
  "f \<and> qs_write_active t \<and> qs_write_source t = [] \<Longrightarrow> \<not> qs_write_active (qs_on_offered e f t)"
  "qs_write_base (qs_on_offered e f t) = qs_write_base t" "qs_write_is_eof (qs_on_offered e f t) = qs_write_is_eof t"
  "qs_write_mode (qs_on_offered e f t) = qs_write_mode t" "qs_tx_acked (qs_on_offered e f t) = qs_tx_acked t"
  by (auto simp: qs_on_offered_def Let_def qs_write_log_def write_frames)

lemma qs_on_sent_same:
  "qs_tx_acked (qs_on_sent e s) = qs_tx_acked s"
  "\<not> qs_write_active s \<Longrightarrow> qs_write_log (qs_on_sent e s) = qs_write_log s"
  by (auto simp: qs_on_sent_def Let_def qs_write_log_def write_frames)

lemma qs_stage_same [simp]:
  "qs_write_log (qs_stage s) = qs_write_log s" "qs_write_base (qs_stage s) = qs_write_base s"
  "qs_write_handler (qs_stage s) = qs_write_handler s"
  by (simp_all add: qs_stage_def Let_def qs_write_log_def)

lemma qs_pending_data_same:
  assumes "qs_pending_data from cap s = (t, vec, fin)"
  shows "qs_write_log t = qs_write_log s" "qs_write_base t = qs_write_base s" "qs_write_handler t = qs_write_handler s"
    "qs_write_source t = qs_write_source s" "qs_write_active t = qs_write_active s"
    "qs_write_mode t = qs_write_mode s" "qs_write_is_eof t = qs_write_is_eof s" "qs_tx_acked t = qs_tx_acked s"
    "fin \<Longrightarrow> \<not> qs_closed s \<and> \<not> qs_write_aborted s"
  using assms by (auto simp: qs_pending_data_def Let_def split_beta split: if_splits)

lemma qs_hand_over_success:
  assumes inv: "qs_write_inv s" and wire: "qs_wire_ok s"
    and p: "qs_pending_data (qs_tx_offered s) cap s = (t, vec, fin)"
    and n: "n \<le> length (concat vec)" and f: "f \<longleftrightarrow> fin \<and> n = length (concat vec)"
    and u: "u = qs_on_offered (qs_tx_offered s + n) f (t\<lparr>qs_wire := qs_wire t @ take n (concat vec)\<rparr>)"
    and log: "qs_write_log u = qs_write_log s @ [Write_done Success]"
  shows "qs_write_through s u"
proof -
  note same = qs_pending_data_same [OF p]
  have w: "qs_write_log (t\<lparr>qs_wire := x\<rparr>) = qs_write_log t" for x by (simp add: qs_write_log_def)
  have now: "f" "qs_write_active s" "qs_write_source s = []"
    using log same(1,3-5) by (auto simp: u qs_on_offered_log(1) w split: if_splits)
  note h = qs_hand_over [OF inv wire p n f u]
  have body: "qs_wire u = qs_body u" "qs_fin_offered u" using h(4) now by auto
  have "qs_body u = qs_body t" by (simp add: u)
  moreover have "t = s" using p now(3) by (auto simp: qs_pending_data_def qs_stage_def Let_def split_beta split: if_splits)
  moreover have base: "qs_write_base s = qs_tx_queued s"
    using inv now by (cases "qs_write_mode s") (simp_all add: qs_write_inv_def qs_source_ok_def)
  ultimately have "drop (qs_write_base s) (qs_wire u) = []"
    using body qs_write_inv_positionsD(4) [OF inv] by simp
  moreover have "qs_write_base s \<le> qs_tx_acked s" if "qs_write_mode s = ZeroCopy"
    using that inv now f same(9) by (simp add: qs_write_inv_def qs_memory_ok_def)
  then have "qs_write_mode s = ZeroCopy \<Longrightarrow> qs_write_base s \<le> qs_tx_acked u"
    using same(8) by (simp add: u qs_on_offered_log)
  ultimately show ?thesis using now body by (simp add: qs_write_through_def)
qed

lemma data_reader_success:
  assumes "qs_write_inv s" "qs_wire_ok s"
    and log: "qs_write_log (fst (data_reader cap s)) = qs_write_log s @ [Write_done Success]"
  shows "qs_write_through s (fst (data_reader cap s))"
proof -
  obtain t vec fin where p: "qs_pending_data (qs_tx_offered s) cap s = (t, vec, fin)"
    using prod_cases3 by blast
  define u where "u = qs_on_offered (qs_tx_offered s + length (concat vec)) fin
                        (t\<lparr>qs_wire := qs_wire t @ take (length (concat vec)) (concat vec)\<rparr>)"
  have eq: "fst (data_reader cap s) = (if cap = 0 then s else if vec = [] \<and> \<not> fin then t else u)"
    by (simp add: data_reader_def p Let_def u_def qs_pending_data_frame [OF p] length_concat)
  with log have "fst (data_reader cap s) = u"
    using qs_pending_data_same(1) [OF p] by (auto split: if_splits)
  with qs_hand_over_success [OF assms(1,2) p order_refl _ u_def] log show ?thesis by simp
qed

lemma qs_packet_success:
  assumes w: "qs_write_inv s" "qs_wire_ok s" and plain: "qs_class s = Plain_class"
    and log: "qs_write_log (qs_packet cap n s) = qs_write_log s @ [Write_done Success]"
  shows "qs_write_through s (qs_packet cap n s)"
proof -
  have at: "qs_tx_sent s = qs_tx_offered s" using w plain by (simp add: qs_wire_ok_def)
  obtain t vec fin where p: "qs_pending_data (qs_tx_offered s) cap s = (t, vec, fin)"
    using prod_cases3 by blast
  note fr = qs_pending_data_frame [OF p] and same = qs_pending_data_same [OF p]
  define k where "k = min n (length (concat vec))"
  define f where "f \<longleftrightarrow> fin \<and> k = length (concat vec)"
  define u where "u = qs_on_offered (qs_tx_offered s + k) f (t\<lparr>qs_wire := qs_wire t @ take k (concat vec)\<rparr>)"
  have k: "k \<le> length (concat vec)" by (simp add: k_def)
  note h = qs_hand_over [OF w p k f_def u_def]
  have "qs_packet cap n s =
     (if vec = [] \<and> (\<not> fin \<or> qs_fin_offered t) then t else qs_on_sent (qs_tx_offered s + k) u)"
    unfolding qs_packet_def at p Let_def qs_data_written_def prod.case sum_list_length_concat
      k_def [symmetric] f_def [symmetric]
    by (auto simp: fr at u_def)
  with log same(1) have r: "qs_packet cap n s = qs_on_sent (qs_tx_offered s + k) u" (is "_ = ?r")
    by (auto split: if_splits)
  have log_u: "qs_write_log u =
      (if f \<and> qs_write_active s \<and> qs_write_source s = [] \<and> qs_write_handler s
       then qs_write_log s @ [Write_done Success] else qs_write_log s)"
    using same(1,3-5) by (simp add: u_def qs_on_offered_log(1)) (simp add: qs_write_log_def)
  show ?thesis
  proof (cases "f \<and> qs_write_active s \<and> qs_write_source s = []")
    case True
    then have "\<not> qs_write_active u"
      unfolding u_def by (intro qs_on_offered_log(3)) (simp add: same)
    then have "qs_write_log u = qs_write_log s @ [Write_done Success]"
      using log by (simp add: r qs_on_sent_same)
    from qs_hand_over_success [OF w p k f_def u_def this] show ?thesis
      by (simp add: r qs_write_through_def qs_on_sent_same qs_on_sent_wire qs_on_sent_due)
  next
    case False
    then have s_u: "qs_write_source u = qs_write_source s" "qs_write_base u = qs_write_base s"
      "qs_write_mode u = qs_write_mode s" "qs_write_is_eof u = qs_write_is_eof s"
      using same qs_on_offered_log(2) [of f "t\<lparr>qs_wire := qs_wire t @ take k (concat vec)\<rparr>"]
      by (auto simp: u_def qs_on_offered_log(4-))
    have "qs_write_through u ?r"
      using log False log_u by (intro qs_on_sent_success h(1,2,8)) (auto simp: r)
    then show ?thesis by (simp add: r qs_write_through_def s_u)
  qed
qed

lemma qs_fail_log: "qs_write_log (qs_fail ec s) \<noteq> qs_write_log s @ [Write_done Success]"
proof -
  have "qs_write_log (qs_maybe_close t) = qs_write_log t" for t :: "'a quic_stream_scheme"
    by (simp add: qs_maybe_close_def)
  moreover have "qs_write_log (qs_abort_active_write e t) =
      (if qs_write_active t \<and> qs_write_handler t then qs_write_log t @ [Write_done e] else qs_write_log t)"
    for e and t :: "'a quic_stream_scheme"
    by (simp add: qs_write_log_def write_frames)
  ultimately show ?thesis by (simp add: qs_fail_def Let_def)
qed

lemma write_ops_log:
  "qs_write_log (qs_cancel_write token s) \<noteq> qs_write_log s @ [Write_done Success]"
  "qs_write_log (qs_abort_writing Connection_reset s) \<noteq> qs_write_log s @ [Write_done Success]"
  "qs_write_log (qs_writer_dtor s) \<noteq> qs_write_log s @ [Write_done Success]"
  by (auto simp: qs_cancel_write_def qs_abort_writing_def qs_writer_dtor_def qs_delete_writer_def
     Let_def qs_write_log_def write_frames split: stream_class.splits)

lemma qs_write_success:
  assumes inv: "qs_inv s" and en: "qs_enabled a s" and h: "qs_write_handler s"
    and log: "qs_write_log (qs_exec a s) = qs_write_log s @ [Write_done Success]"
  shows "qs_write_through s (qs_exec a s)"
proof -
  have w: "qs_write_inv s" "qs_wire_ok s" using inv by (simp_all add: qs_inv_def qs_write_side_def)
  show ?thesis
  proof (cases a)
    case (Op_pull cap)
    with data_reader_success [OF w] log show ?thesis by simp
  next
    case (Op_packet cap n)
    with qs_packet_success [OF w] log en show ?thesis by simp
  next
    case (Op_sent n)
    with qs_on_sent_success [OF w(1)] w(2) log show ?thesis
      by (simp add: on_write_offered_def qs_wire_ok_def split: if_splits)
  next
    case (Op_acked e)
    with qs_on_acked_success [OF w] log show ?thesis by simp
  next
    case (Op_fail ec)
    with log qs_fail_log [of ec s] show ?thesis by simp
  next
    case (Op_cancel_write token)
    with log show ?thesis by (simp add: write_ops_log)
  next
    case Op_abort_writing
    with log show ?thesis by (simp add: write_ops_log)
  next
    case Op_drop_writer
    with log show ?thesis by (simp add: write_ops_log)
  qed (use log en h in simp_all)
qed

section \<open>Properties\<close>

abbreviation qs_run :: "stream_class \<Rightarrow> write_mode \<Rightarrow> quic_op list \<Rightarrow> quic_stream option" where
  "qs_run c m ops \<equiv> run qs_exec qs_enabled (qs_init c m) ops"

declare run.simps [simp del]

lemma qs_run_inv: "qs_run c m ops = Some s \<Longrightarrow> qs_inv s"
  by (rule qs.run_inv [OF qs_init_inv])

lemma qs_init_fields [simp]:
  "qs_received (qs_init c m) = []" "\<not> qs_eof_received (qs_init c m)" "qs_writes_done (qs_init c m) = 0"
  "qs_writes_waiting (qs_init c m) = 0" "qs_write_mode (qs_init c m) = m" "qs_class (qs_init c m) = c"
  by (simp_all add: qs_init_def qs_writes_done_def qs_writes_waiting_def)

lemma qs_run_eof_cause:
  assumes "qs_run c m ops = Some s" and "qs_eof_received s"
  shows "Op_eof \<in> set ops"
  using qs.run_cause [OF qs_init_inv assms(1), of qs_eof_received "\<lambda>a. a = Op_eof"] assms(2)
  by (auto simp: qs_eof_received_exec)

text \<open>C1: Whatever the application, the peer and the stack do, and in whatever order, the bytes handed
  to the reader of a QUIC stream are the bytes received from the peer, from the start, in order,
  without a gap or a repetition; credit is given back for exactly those. As long as the reader is
  there and the peer has not reset the stream, what was received and not handed out is still there.\<close>

theorem quic_body_delivered_in_order:
  assumes "qs_run c m ops = Some s"
  shows "prefix (qs_delivered s) (concat (map qs_input ops)) \<and>
         qs_credited s = length (qs_delivered s) \<and>
         (qs_reader s \<and> \<not> qs_read_aborted s \<longrightarrow>
            qs_delivered s @ qs_buffered s = concat (map qs_input ops))"
  using qs_body.run_delivers_prefix [OF qs_init_inv _ assms] qs_body.run_conserves [OF qs_init_inv _ assms]
    qs_run_inv [OF assms]
  by (simp add: qs_intact_def qs_inv_def qs_read_idle_def)

theorem quic_body_delivered_in_order_witness:
  "\<exists>s. qs_run Plain_class Staged
         [Op_script [Read_again 2], Op_read 3, Op_data [1, 2, 3, 4], Op_data [5, 6], Op_eof, Op_read 2] = Some s \<and>
       qs_delivered s = [1, 2, 3, 4, 5, 6] \<and> qs_credited s = 6"
proof -
  let ?ops = "[Op_script [Read_again 2], Op_read 3, Op_data [1, 2, 3, 4], Op_data [5, 6], Op_eof, Op_read 2]"
  have "qs_run Plain_class Staged ?ops \<noteq> None" by code_simp
  then obtain s where s: "qs_run Plain_class Staged ?ops = Some s" by blast
  have "qs_buffered (the (qs_run Plain_class Staged ?ops)) = []"
    "qs_reader (the (qs_run Plain_class Staged ?ops))"
    "\<not> qs_read_aborted (the (qs_run Plain_class Staged ?ops))" by code_simp+
  with s quic_body_delivered_in_order [OF s] show ?thesis by (intro exI [of _ s]) simp
qed

text \<open>A read of a QUIC stream is never left waiting for something that is already there: whenever
  one waits between two operations, nothing is buffered, the end has not been received, and the peer
  has not reset the stream.\<close>

theorem quic_no_read_starves:
  assumes "qs_run c m ops = Some s" and "qs_read_handler s \<noteq> None"
  shows "qs_buffered s = [] \<and> \<not> qs_eof_received s \<and> \<not> qs_read_aborted s \<and>
         (c = Plain_class \<longrightarrow> \<not> qs_closed s)"
proof -
  have "qs_class s = c"
    by (rule qs.run_stable [OF qs_init_inv assms(1)]) (simp_all add: qs_class_exec)
  then show ?thesis
    using qs_run_inv [OF assms(1)] assms(2) by (auto simp: qs_inv_def qs_read_idle_def)
qed

theorem quic_no_read_starves_witness:
  "\<exists>s. qs_run Plain_class Staged [Op_data [1, 2], Op_read 8, Op_read 8] = Some s \<and>
       qs_read_handler s = Some 8 \<and> qs_buffered s = [] \<and> \<not> qs_closed s"
proof -
  let ?ops = "[Op_data [1, 2], Op_read 8, Op_read 8]"
  have "qs_run Plain_class Staged ?ops \<noteq> None" by code_simp
  then obtain s where s: "qs_run Plain_class Staged ?ops = Some s" by blast
  have "qs_read_handler (the (qs_run Plain_class Staged ?ops)) = Some 8" by code_simp
  with s quic_no_read_starves [OF s] show ?thesis by (intro exI [of _ s]) simp
qed

text \<open>A reader of a QUIC stream is told the end of the body only if the peer ended it, and only
  after it was handed all of it: a body cut short is never taken for a complete one.\<close>

theorem quic_eof_means_complete:
  assumes "qs_run c m ops = Some s" and "Read_done Eof d \<in> set (qs_events s)"
  shows "Op_eof \<in> set ops \<and> qs_delivered s = concat (map qs_input ops)"
proof -
  have inv: "qs_inv s" by (rule qs_run_inv [OF assms(1)])
  moreover have "qs_eof_seen s" using assms(2) by (auto simp: qs_eof_seen_def)
  ultimately have "qs_eof_received s" "qs_delivered s = qs_received s"
    by (simp_all add: qs_inv_def qs_read_inv_def)
  with qs_run_eof_cause [OF assms(1)] qs_body.run_received [OF qs_init_inv assms(1)]
  show ?thesis by simp
qed

theorem quic_eof_means_complete_witness:
  "\<exists>s. qs_run Http3_class Staged [Op_data [7], Op_eof, Op_script [Read_again 4], Op_read 4] = Some s \<and>
       Read_done Eof [] \<in> set (qs_events s) \<and> qs_delivered s = [7]"
proof -
  let ?ops = "[Op_data [7], Op_eof, Op_script [Read_again 4], Op_read 4]"
  have "qs_run Http3_class Staged ?ops \<noteq> None" by code_simp
  then obtain s where s: "qs_run Http3_class Staged ?ops = Some s" by blast
  have "Read_done Eof [] \<in> set (qs_events (the (qs_run Http3_class Staged ?ops)))" by code_simp
  with s have e: "Read_done Eof [] \<in> set (qs_events s)" by simp
  from s e quic_eof_means_complete [OF s e] show ?thesis by (intro exI [of _ s]) simp
qed

text \<open>C2: What the stack below is given of the outgoing body is the body up to \<open>tx_offered\<close>, in order
  and without a gap, whatever is written, cancelled, acknowledged, lost or reset; the positions stay
  in order; and the end is given only together with all of the body.\<close>

theorem quic_wire_is_the_body:
  assumes "qs_run c m ops = Some s"
  shows "qs_wire s = take (qs_tx_offered s) (qs_body s) \<and>
         qs_tx_acked s \<le> qs_tx_offered s \<and> qs_tx_sent s \<le> qs_tx_offered s \<and>
         qs_tx_offered s \<le> qs_tx_queued s \<and> qs_tx_queued s = length (qs_body s) \<and>
         (qs_fin_offered s \<longrightarrow> qs_wire s = qs_body s)"
proof -
  have w: "qs_write_inv s" "qs_wire_ok s"
    using qs_run_inv [OF assms] by (simp_all add: qs_inv_def qs_write_side_def)
  with qs_write_inv_positionsD [OF w(1)] qs_fin_complete [OF w] show ?thesis
    by (simp add: qs_wire_ok_def)
qed

theorem quic_wire_is_the_body_witness:
  "\<exists>s. qs_run Plain_class Staged [Op_write [1, 2, 3] True, Op_packet 16 2, Op_packet 16 9] = Some s \<and>
       qs_fin_offered s \<and> qs_wire s = qs_body s \<and> qs_body s = [1, 2, 3]"
proof -
  let ?ops = "[Op_write [1, 2, 3] True, Op_packet 16 2, Op_packet 16 9]"
  have "qs_run Plain_class Staged ?ops \<noteq> None" by code_simp
  then obtain s where s: "qs_run Plain_class Staged ?ops = Some s" by blast
  have "qs_fin_offered (the (qs_run Plain_class Staged ?ops))"
    "qs_body (the (qs_run Plain_class Staged ?ops)) = [1, 2, 3]" by code_simp+
  moreover have "qs_fin_offered s \<longrightarrow> qs_wire s = qs_body s" using quic_wire_is_the_body [OF s] by blast
  ultimately show ?thesis using s by (intro exI [of _ s]) simp
qed

text \<open>The end of the outgoing body is final: once the stack was given it, no operation adds to the
  body or takes from it.\<close>

theorem quic_end_is_final:
  assumes "qs_run c m ops = Some s" and "qs_fin_offered s"
    and "run qs_exec qs_enabled s later = Some t"
  shows "qs_fin_offered t \<and> qs_body t = qs_body s \<and> qs_wire t = qs_wire s"
proof -
  have inv: "qs_inv s" by (rule qs_run_inv [OF assms(1)])
  have t: "qs_fin_offered t \<and> qs_body t = qs_body s"
    by (rule qs.run_stable [OF inv assms(3)]) (use assms(2) qs_fin_step in auto)
  have "qs_inv t" by (rule qs.run_inv [OF inv assms(3)])
  with inv t assms(2) show ?thesis
    by (simp add: qs_inv_def qs_write_side_def qs_fin_complete)
qed

theorem quic_end_is_final_witness:
  "\<exists>s t. qs_run Http3_class ZeroCopy [Op_write [1, 2] True, Op_pull 4] = Some s \<and>
         run qs_exec qs_enabled s [Op_acked 2, Op_write [3] False, Op_pull 4] = Some t \<and>
         qs_wire t = [1, 2]"
proof -
  let ?ops = "[Op_write [1, 2] True, Op_pull 4]" and ?later = "[Op_acked 2, Op_write [3] False, Op_pull 4]"
  have "qs_run Http3_class ZeroCopy (?ops @ ?later) \<noteq> None" by code_simp
  then obtain s t where st: "qs_run Http3_class ZeroCopy ?ops = Some s" "run qs_exec qs_enabled s ?later = Some t"
    by (auto simp: run_append simp del: append.simps split: option.splits)
  have "qs_fin_offered (the (qs_run Http3_class ZeroCopy ?ops))"
    "qs_wire (the (qs_run Http3_class ZeroCopy ?ops)) = [1, 2]" by code_simp+
  with st have "qs_fin_offered s" "qs_wire s = [1, 2]" by simp_all
  with st quic_end_is_final [OF st(1) _ st(2)] show ?thesis
    by (intro exI [of _ s] exI [of _ t]) simp
qed

text \<open>Once a QUIC stream is closed or its sending side is reset, the stack is given nothing more
  of it. In particular a body that was not ended when its writer was dropped is never presented to
  the peer as a complete one.\<close>

theorem quic_dead_is_silent:
  assumes "qs_run c m ops = Some s" and "qs_closed s \<or> qs_write_aborted s"
    and "run qs_exec qs_enabled s later = Some t"
  shows "qs_wire t = qs_wire s \<and> qs_fin_offered t = qs_fin_offered s"
proof -
  have "qs_dead t \<and> qs_wire t = qs_wire s \<and> qs_fin_offered t = qs_fin_offered s"
    by (rule qs.run_stable [OF qs_run_inv [OF assms(1)] assms(3)]) (use assms(2) qs_dead_step in \<open>auto simp: qs_dead_def [symmetric]\<close>)
  then show ?thesis by simp
qed

theorem quic_dead_is_silent_witness:
  "\<exists>s t. qs_run Plain_class Staged [Op_write [1, 2] False, Op_packet 16 1, Op_drop_writer] = Some s \<and>
         run qs_exec qs_enabled s [Op_packet 16 9] = Some t \<and> qs_wire t = [1] \<and> \<not> qs_fin_offered t"
proof -
  let ?ops = "[Op_write [1, 2] False, Op_packet 16 1, Op_drop_writer]" and ?later = "[Op_packet 16 9]"
  have "qs_run Plain_class Staged (?ops @ ?later) \<noteq> None" by code_simp
  then obtain s t where st: "qs_run Plain_class Staged ?ops = Some s" "run qs_exec qs_enabled s ?later = Some t"
    by (auto simp: run_append simp del: append.simps split: option.splits)
  have "qs_write_aborted (the (qs_run Plain_class Staged ?ops))" "qs_wire (the (qs_run Plain_class Staged ?ops)) = [1]"
    "\<not> qs_fin_offered (the (qs_run Plain_class Staged ?ops))" by code_simp+
  with st have "qs_write_aborted s" "qs_wire s = [1]" "\<not> qs_fin_offered s" by simp_all
  with st quic_dead_is_silent [OF st(1) _ st(2)] show ?thesis
    by (intro exI [of _ s] exI [of _ t]) simp
qed

text \<open>Every write on a QUIC stream is answered exactly once, or it is the one write still waiting
  for its answer.\<close>

theorem quic_write_answered_once:
  assumes "qs_run c m ops = Some s"
  shows "qs_writes_done s + qs_writes_waiting s = sum_list (map qs_write_asked ops)"
  using qs_acct.run_accounts [OF qs_init_inv assms] by simp

theorem quic_write_answered_once_witness:
  "\<exists>s. qs_run Plain_class ZeroCopy
         [Op_write [] False, Op_write [1] False, Op_packet 16 1, Op_acked 1, Op_write [2] True, Op_fail Connection_reset,
          Op_write [3] True] = Some s \<and> qs_writes_done s + qs_writes_waiting s = 4"
proof -
  let ?ops = "[Op_write [] False, Op_write [1] False, Op_packet 16 1, Op_acked 1, Op_write [2] True,
               Op_fail Connection_reset, Op_write [3] True]"
  have "qs_run Plain_class ZeroCopy ?ops \<noteq> None" by code_simp
  then obtain s where s: "qs_run Plain_class ZeroCopy ?ops = Some s" by blast
  with quic_write_answered_once [OF s] show ?thesis by (intro exI [of _ s]) simp
qed

text \<open>C3: A write by reference keeps the buffer of its caller until nothing refers to it: as long as
  the stack holds bytes that are not acknowledged, on a stream that is alive, the write they came from
  is still waiting, its buffer is what the body ends with, and every such byte lies in it.\<close>

theorem quic_zero_copy_safe:
  assumes "qs_run c ZeroCopy ops = Some s" and "\<not> qs_closed s" and "\<not> qs_write_aborted s"
    and "qs_tx_acked s < qs_tx_offered s"
  shows "qs_write_handler s \<and> qs_write_base s \<le> qs_tx_acked s \<and>
         drop (qs_write_base s) (qs_body s) = qs_write_source s \<and>
         qs_tx_offered s \<le> qs_write_base s + length (qs_write_source s)"
proof -
  have w: "qs_write_inv s" using qs_run_inv [OF assms(1)] by (simp add: qs_inv_def qs_write_side_def)
  have m: "qs_write_mode s = ZeroCopy"
    by (rule qs.run_stable [OF qs_init_inv assms(1)]) (simp_all add: qs_mode_exec)
  note pos = qs_write_inv_positionsD [OF w]
  have a: "qs_write_active s" "qs_write_base s \<le> qs_tx_acked s"
    using w m assms(2-) pos by (auto simp: qs_write_inv_def qs_memory_ok_def)
  have src: "drop (qs_write_base s) (qs_body s) = qs_write_source s"
    "qs_tx_queued s = qs_write_base s + length (qs_write_source s)"
    using w m a by (simp_all add: qs_write_inv_def qs_source_ok_def)
  have "qs_write_source s \<noteq> []" using src(2) a(2) assms(4) pos(3) by auto
  with w a(1) have "qs_write_handler s" by (auto simp: qs_write_inv_def qs_handler_ok_def)
  with a src pos show ?thesis by simp
qed

theorem quic_zero_copy_safe_witness:
  "\<exists>s. qs_run Http3_class ZeroCopy [Op_write [1, 2, 3] False, Op_pull 1, Op_acked 1] = Some s \<and>
       qs_write_handler s \<and> qs_tx_acked s = 1 \<and> qs_tx_offered s = 3"
proof -
  let ?ops = "[Op_write [1, 2, 3] False, Op_pull 1, Op_acked 1]"
  have "qs_run Http3_class ZeroCopy ?ops \<noteq> None" by code_simp
  then obtain s where s: "qs_run Http3_class ZeroCopy ?ops = Some s" by blast
  have "\<not> qs_closed (the (qs_run Http3_class ZeroCopy ?ops))" "\<not> qs_write_aborted (the (qs_run Http3_class ZeroCopy ?ops))"
    "qs_tx_acked (the (qs_run Http3_class ZeroCopy ?ops)) = 1" "qs_tx_offered (the (qs_run Http3_class ZeroCopy ?ops)) = 3"
    by code_simp+
  with s quic_zero_copy_safe [OF s] show ?thesis by (intro exI [of _ s]) simp
qed

text \<open>A write that waited completes with success only when all of its bytes are with the stack,
  behind everything written before; by reference, only when they are all acknowledged; and one that
  ends the body, only when the end is with the stack as well.\<close>

theorem quic_write_success_means_written:
  assumes "qs_run c m ops = Some s" and "qs_enabled a s" and "qs_write_handler s"
    and "qs_write_log (qs_exec a s) = qs_write_log s @ [Write_done Success]"
  shows "drop (qs_write_base s) (qs_wire (qs_exec a s)) = qs_write_source s \<and>
         (qs_write_mode s = ZeroCopy \<longrightarrow>
            qs_write_base s + length (qs_write_source s) \<le> qs_tx_acked (qs_exec a s)) \<and>
         (qs_write_is_eof s \<longrightarrow> qs_fin_offered (qs_exec a s))"
  using qs_write_success [OF qs_run_inv [OF assms(1)] assms(2-4)] by (simp add: qs_write_through_def)

theorem quic_write_success_means_written_witness:
  "\<exists>s. qs_run Plain_class Staged [Op_write [1, 2] True] = Some s \<and>
       drop (qs_write_base s) (qs_wire (qs_exec (Op_packet 16 2) s)) = [1, 2] \<and>
       qs_fin_offered (qs_exec (Op_packet 16 2) s)"
proof -
  let ?ops = "[Op_write [1, 2] True]" and ?s = "the (qs_run Plain_class Staged [Op_write [1, 2] True])"
  have "qs_run Plain_class Staged ?ops \<noteq> None" by code_simp
  then obtain s where s: "qs_run Plain_class Staged ?ops = Some s" by blast
  have "qs_enabled (Op_packet 16 2) ?s" "qs_write_handler ?s" "qs_write_is_eof ?s" "qs_write_source ?s = [1, 2]"
    "qs_write_log (qs_exec (Op_packet 16 2) ?s) = qs_write_log ?s @ [Write_done Success]" by code_simp+
  with s quic_write_success_means_written [OF s, of "Op_packet 16 2"] show ?thesis
    by (intro exI [of _ s]) simp
qed

text \<open>C21: No active write of a live QUIC stream stalls: whenever all that was handed out of a staged
  write is in packets, or there is more to hand out of a write by reference, the next call of
  \<open>pending_data\<close> comes up with data, or with the end.\<close>

theorem quic_write_never_stalls:
  assumes "qs_run c m ops = Some s" and "qs_write_active s" and "\<not> qs_closed s" and "\<not> qs_write_aborted s"
    and "cap > 0"
    and "case m of ZeroCopy \<Rightarrow> qs_tx_offered s < qs_tx_queued s \<or> qs_write_is_eof s
                 | Staged \<Rightarrow> qs_tx_sent s = qs_tx_queued s"
    and "qs_pending_data (qs_tx_offered s) cap s = (t, vec, fin)"
  shows "vec \<noteq> [] \<or> fin"
proof -
  have w: "qs_write_inv s" using qs_run_inv [OF assms(1)] by (simp add: qs_inv_def qs_write_side_def)
  have "qs_write_mode s = m"
    by (rule qs.run_stable [OF qs_init_inv assms(1)]) (simp_all add: qs_mode_exec)
  with qs_pending_data_progress [OF w assms(2-5) _ assms(7)] assms(6) show ?thesis by simp
qed

theorem quic_write_never_stalls_witness:
  "\<exists>s t vec fin. qs_run Plain_class Staged [Op_write [5] True] = Some s \<and>
     qs_pending_data (qs_tx_offered s) 16 s = (t, vec, fin) \<and> (vec \<noteq> [] \<or> fin)"
proof -
  let ?s = "the (qs_run Plain_class Staged [Op_write [5] True])"
  have "qs_run Plain_class Staged [Op_write [5] True] \<noteq> None" by code_simp
  then obtain s where s: "qs_run Plain_class Staged [Op_write [5] True] = Some s" by blast
  obtain t vec fin where p: "qs_pending_data (qs_tx_offered s) 16 s = (t, vec, fin)" using prod_cases3 by blast
  have "qs_write_active ?s" "\<not> qs_closed ?s" "\<not> qs_write_aborted ?s" "qs_tx_sent ?s = qs_tx_queued ?s" by code_simp+
  with s quic_write_never_stalls [OF s _ _ _ _ _ p] p show ?thesis by fastforce
qed

text \<open>The entry ladder of the Writer contract, on a QUIC stream and on a handle that has outlived
  it: an empty write is free; once the end of the body has gone out, more data has no body to
  belong to (\<open>broken_pipe\<close>), and ending it again changes nothing.\<close>

theorem quic_writer_ladder:
  "qs_write_answer s [] False = Some Success \<and>
   (qs_eof_submitted s \<and> qs_end_gone_out s \<longrightarrow>
      qs_write_answer s buffer eof = Some (if buffer = [] then Success else Broken_pipe)) \<and>
   (qs_eof_submitted s \<and> buffer \<noteq> [] \<longrightarrow> qs_write_answer s buffer eof = Some Broken_pipe) \<and>
   detached_write True buffer eof = (if buffer = [] then Success else Broken_pipe)"
  using qs_writer.empty_write [of s] qs_writer.ended_answers [of s buffer eof]
    qs_writer.data_after_end [of s buffer eof] qs_detached.ended_answers [of True buffer eof]
  by simp

theorem quic_writer_ladder_witness:
  "\<exists>s. qs_run Http3_class Staged [Op_write [] True, Op_pull 4] = Some s \<and>
       qs_write_answer s [1] False = Some Broken_pipe \<and> qs_write_answer s [] True = Some Success"
proof -
  let ?s = "the (qs_run Http3_class Staged [Op_write [] True, Op_pull 4])"
  have "qs_run Http3_class Staged [Op_write [] True, Op_pull 4] \<noteq> None" by code_simp
  then obtain s where s: "qs_run Http3_class Staged [Op_write [] True, Op_pull 4] = Some s" by blast
  have "qs_eof_submitted ?s" "qs_end_gone_out ?s" by code_simp+
  with s quic_writer_ladder [of s "[1]" False] quic_writer_ladder [of s "[]" True] show ?thesis
    by (intro exI [of _ s]) simp
qed

end
