(* ===== verification/Stream_Table.thy ===== *)
theory Stream_Table
  imports Prelude "HOL-Library.AList"
begin

text \<open>
  The table of streams every session keeps (\<open>streams_\<close>): what the sessions rely on, as a locale, and
  association lists, which the session models use, as an instance of it.
\<close>

locale stream_table =
  fixes lookup :: "'t \<Rightarrow> 'k \<Rightarrow> 'v option"
    and put :: "'k \<Rightarrow> 'v \<Rightarrow> 't \<Rightarrow> 't"
    and del :: "'k \<Rightarrow> 't \<Rightarrow> 't"
    and ok :: "'t \<Rightarrow> bool"
  assumes lookup_put: "lookup (put k v t) j = (if j = k then Some v else lookup t j)"
    and lookup_del: "ok t \<Longrightarrow> lookup (del k t) j = (if j = k then None else lookup t j)"
    and ok_put: "ok t \<Longrightarrow> ok (put k v t)"
    and ok_del: "ok t \<Longrightarrow> ok (del k t)"
begin

text \<open>A property of all streams is kept by storing one that has it, and by letting one go.\<close>

lemma all_put:
  assumes "\<And>j w. lookup t j = Some w \<Longrightarrow> P w" and "P v" and "lookup (put k v t) j = Some w"
  shows "P w"
  using assms by (auto simp: lookup_put split: if_splits)

lemma all_del:
  assumes "\<And>j w. lookup t j = Some w \<Longrightarrow> P w" and "ok t" and "lookup (del k t) j = Some w"
  shows "P w"
  using assms by (auto simp: lookup_del split: if_splits)

text \<open>A stream is not touched by what is done to another one.\<close>

lemma others_put: "j \<noteq> k \<Longrightarrow> lookup (put k v t) j = lookup t j"
  by (simp add: lookup_put)

lemma others_del: "ok t \<Longrightarrow> j \<noteq> k \<Longrightarrow> lookup (del k t) j = lookup t j"
  by (simp add: lookup_del)

end

definition distinct_keys :: "('k \<times> 'v) list \<Rightarrow> bool" where
  "distinct_keys t = distinct (map fst t)"

interpretation tbl: stream_table map_of AList.update AList.delete distinct_keys
  by unfold_locales (simp_all add: update_conv' delete_conv' distinct_keys_def distinct_update distinct_delete)

lemma length_update: "map_of t k \<noteq> None \<Longrightarrow> length (AList.update k v t) = length t"
  by (induction t) auto

lemma length_delete: "length (AList.delete k t) \<le> length t"
  by (simp add: AList.delete_eq)

lemma length_delete_one: "distinct_keys t \<Longrightarrow> map_of t k = Some v \<Longrightarrow> length (AList.delete k t) = length t - 1"
proof (induction t)
  case (Cons p t)
  have id: "AList.delete k t = t" if "k \<notin> fst ` set t" using that by (simp add: delete_idem)
  show ?case
  proof (cases "fst p = k")
    case True
    then show ?thesis using Cons.prems id by (cases p) (auto simp: distinct_keys_def)
  next
    case False
    then have "map_of t k = Some v" using Cons.prems by (cases p) auto
    moreover from this have "t \<noteq> []" by auto
    ultimately show ?thesis using Cons False by (cases p) (auto simp: distinct_keys_def)
  qed
qed simp

lemma set_update_subset: "set (AList.update k v t) \<subseteq> insert (k, v) (set t)"
  by (induction t) auto

lemma update_fresh: "map_of t k = None \<Longrightarrow> AList.update k v t = t @ [(k, v)]"
  by (induction t) (auto split: if_splits)

text \<open>A number of each entry, added up.\<close>

definition tally :: "('v \<Rightarrow> nat) \<Rightarrow> ('k \<times> 'v) list \<Rightarrow> nat" where
  "tally f t = sum_list (map (\<lambda>(k, v). f v) t)"

lemma tally_update:
  "distinct_keys t \<Longrightarrow> map_of t k = Some v \<Longrightarrow> tally f (AList.update k w t) + f v = tally f t + f w"
  by (induction t) (auto simp: tally_def distinct_keys_def)

lemma tally_fresh: "map_of t k = None \<Longrightarrow> tally f (AList.update k v t) = tally f t + f v"
  by (simp add: update_fresh tally_def)

lemma tally_delete: "distinct_keys t \<Longrightarrow> map_of t k = Some v \<Longrightarrow> tally f (AList.delete k t) + f v = tally f t"
proof (induction t)
  case (Cons p t)
  then show ?case
    by (cases "fst p = k") (cases p; auto simp: tally_def distinct_keys_def delete_idem)+
qed simp

lemma map_of_map_entries: "map_of (map (\<lambda>(k, v). (k, f k v)) t) j = map_option (f j) (map_of t j)"
  by (induction t) auto

lemma tally_map_entries: "(\<And>k v. g (f k v) = g v) \<Longrightarrow> tally g (map (\<lambda>(k, v). (k, f k v)) t) = tally g t"
  by (induction t) (auto simp: tally_def)

lemma distinct_keys_map [simp]: "distinct_keys (map (\<lambda>(k, v). (k, f k v)) t) = distinct_keys t"
proof -
  have "fst \<circ> (\<lambda>(k, v). (k, f k v)) = fst" by auto
  then show ?thesis by (simp add: distinct_keys_def)
qed

lemma tally_zero: "tally f t = 0 \<Longrightarrow> map_of t k = Some v \<Longrightarrow> f v = 0"
  by (induction t) (auto simp: tally_def split: if_splits)

end
