(* ===== verification/Quic_App.thy ===== *)
theory Quic_App
  imports Quic_Machine Stream_Table
begin

text \<open>
  Plain QUIC streams on a connection: \<open>StreamApplication\<close> (\<^verbatim>\<open>src/quic/streams.cpp\<close>), the table of streams
  of its session, and how the session fills a packet (\<^verbatim>\<open>src/quic/session.cpp\<close>, \<open>write_pkt\<close>).

  A stream object lives as long as the session or the queue of streams to accept holds it:
  \<open>qa_store\<close> has all that live, \<open>ps_in_table\<close> says which of them the session knows, and a stream nobody
  holds any more is destroyed and goes to \<open>qa_gone\<close>. ngtcp2 is not part of this program: what it
  answers is an argument of the operation that asks, and calls of it are appended to \<open>qa_events\<close>.
\<close>

section \<open>State\<close>

record plain_stream =
  ps_stream :: quic_stream
  ps_scheduled :: bool
  ps_blocked :: bool
  ps_in_table :: bool

datatype app_event =
    Ae_extend_max_offset nat
  | Ae_extend_max_streams
  | Ae_wake_write
  | Ae_remote int
  | Ae_accepted int
  | Ae_accept_failed error_code
  | Ae_opened int
  | Ae_open_failed error_code

record quic_app =
  qa_store :: "(int \<times> plain_stream) list"
  qa_gone :: "(int \<times> plain_stream) list"
  qa_mode :: write_mode
  qa_accept_queue :: "int list"
  qa_accept_handler :: bool
  qa_closed_ec :: bool
  qa_write_queue :: "int list"
  qa_events :: "app_event list"

definition qa_emit :: "app_event \<Rightarrow> quic_app \<Rightarrow> quic_app" where
  "qa_emit e a = a\<lparr>qa_events := qa_events a @ [e]\<rparr>"

definition qa_put :: "int \<Rightarrow> plain_stream \<Rightarrow> quic_app \<Rightarrow> quic_app" where
  "qa_put sid p a = a\<lparr>qa_store := AList.update sid p (qa_store a)\<rparr>"

abbreviation qa_get :: "quic_app \<Rightarrow> int \<Rightarrow> plain_stream option" where
  "qa_get a \<equiv> map_of (qa_store a)"

section \<open>Streams and their session\<close>

definition qa_find_stream :: "int \<Rightarrow> quic_app \<Rightarrow> plain_stream option" where
  "qa_find_stream sid a =
     (case qa_get a sid of Some p \<Rightarrow> if ps_in_table p then Some p else None | None \<Rightarrow> None)"

definition ps_new :: "write_mode \<Rightarrow> plain_stream" where
  "ps_new m =
     \<lparr>ps_stream = (qs_init Plain_class m)\<lparr>qs_reader := False, qs_writer := False\<rparr>,
      ps_scheduled = False, ps_blocked = False, ps_in_table = True\<rparr>"

definition qa_create_stream :: "int \<Rightarrow> quic_app \<Rightarrow> quic_app" where
  "qa_create_stream sid a = (if qa_find_stream sid a = None then qa_put sid (ps_new (qa_mode a)) a else a)"

text \<open>The last reference to a stream goes: its destructor detaches what hangs on it.\<close>

definition qa_release :: "int \<Rightarrow> quic_app \<Rightarrow> quic_app" where
  "qa_release sid a =
     (case qa_get a sid of
        None \<Rightarrow> a
      | Some p \<Rightarrow>
          if ps_in_table p \<or> sid \<in> set (qa_accept_queue a) then a
          else a\<lparr>qa_store := AList.delete sid (qa_store a),
                 qa_gone := qa_gone a @ [(sid, p\<lparr>ps_stream := qs_detach_all (ps_stream p)\<rparr>)]\<rparr>)"

definition qa_erase_stream :: "int \<Rightarrow> quic_app \<Rightarrow> quic_app" where
  "qa_erase_stream sid a =
     (case qa_get a sid of
        None \<Rightarrow> a
      | Some p \<Rightarrow> qa_release sid (qa_put sid (p\<lparr>ps_in_table := False\<rparr>) a))"

section \<open>Write scheduling\<close>

definition schedule :: "bool \<Rightarrow> int \<Rightarrow> quic_app \<Rightarrow> quic_app" where
  "schedule wake sid a =
     (case qa_get a sid of
        None \<Rightarrow> a
      | Some p \<Rightarrow>
          if ps_scheduled p \<or> ps_blocked p \<or> qa_closed_ec a then a
          else let a1 = (qa_put sid (p\<lparr>ps_scheduled := True\<rparr>) a)\<lparr>qa_write_queue := qa_write_queue a @ [sid]\<rparr>
               in if wake then qa_emit Ae_wake_write a1 else a1)"

definition unschedule_front :: "int \<Rightarrow> quic_app \<Rightarrow> quic_app" where
  "unschedule_front sid a =
     (case qa_get a sid of
        None \<Rightarrow> a
      | Some p \<Rightarrow>
          let a1 = (if qa_write_queue a \<noteq> [] \<and> hd (qa_write_queue a) = sid
                    then a\<lparr>qa_write_queue := tl (qa_write_queue a)\<rparr> else a)
          in qa_put sid (p\<lparr>ps_scheduled := False\<rparr>) a1)"

text \<open>An operation of a stream, in its application: it may have something to send (\<open>on_writable\<close>), and
  it may be done for (\<open>erase_stream\<close>).\<close>

definition new_events :: "quic_stream \<Rightarrow> quic_stream \<Rightarrow> quic_event set" where
  "new_events before after = set (drop (length (qs_events before)) (qs_events after))"

definition on_plain :: "(quic_stream \<Rightarrow> quic_stream) \<Rightarrow> int \<Rightarrow> quic_app \<Rightarrow> quic_app" where
  "on_plain f sid a =
     (case qa_get a sid of
        None \<Rightarrow> a
      | Some p \<Rightarrow>
          let s = f (ps_stream p);
              new = new_events (ps_stream p) s;
              a1 = qa_put sid (p\<lparr>ps_stream := s\<rparr>) a;
              a2 = (if On_writable \<in> new then schedule True sid a1 else a1)
          in if Erase_stream \<in> new then qa_erase_stream sid a2 else a2)"

text \<open>... if the session knows the stream.\<close>

definition on_found :: "(quic_stream \<Rightarrow> quic_stream) \<Rightarrow> int \<Rightarrow> quic_app \<Rightarrow> quic_app" where
  "on_found f sid a = (if qa_find_stream sid a = None then a else on_plain f sid a)"

section \<open>Accepting and opening streams\<close>

definition qs_attach :: "quic_stream \<Rightarrow> quic_stream" where
  "qs_attach s = s\<lparr>qs_reader := True, qs_writer := True\<rparr>"

text \<open>\<open>make_handle\<close>, for a stream that was taken from the queue: the handle has adapters, and does not
  hold the stream.\<close>

definition hand_out :: "int \<Rightarrow> quic_app \<Rightarrow> quic_app" where
  "hand_out sid a =
     (case qa_get a sid of
        None \<Rightarrow> a
      | Some p \<Rightarrow>
          qa_release sid (qa_put sid (p\<lparr>ps_stream := qs_attach (ps_stream p)\<rparr>) (qa_emit (Ae_accepted sid) a)))"

definition deliver_accepted :: "quic_app \<Rightarrow> quic_app" where
  "deliver_accepted a =
     (if \<not> qa_accept_handler a then a
      else case qa_accept_queue a of
             [] \<Rightarrow> a
           | sid # rest \<Rightarrow> hand_out sid (a\<lparr>qa_accept_queue := rest, qa_accept_handler := False\<rparr>))"

definition open_remote_stream :: "bool \<Rightarrow> int \<Rightarrow> quic_app \<Rightarrow> quic_app" where
  "open_remote_stream remote sid a =
     (if qa_find_stream sid a \<noteq> None then a
      else if \<not> remote \<or> qa_closed_ec a then a
      else let a1 = qa_create_stream sid a
           in deliver_accepted (qa_emit (Ae_remote sid) (a1\<lparr>qa_accept_queue := qa_accept_queue a1 @ [sid]\<rparr>)))"

definition async_accept_stream :: "quic_app \<Rightarrow> quic_app" where
  "async_accept_stream a =
     (if qa_accept_handler a then qa_emit (Ae_accept_failed Already_started) a
      else case qa_accept_queue a of
             sid # rest \<Rightarrow> hand_out sid (a\<lparr>qa_accept_queue := rest\<rparr>)
           | [] \<Rightarrow> if qa_closed_ec a then qa_emit (Ae_accept_failed Connection_aborted) a
                   else a\<lparr>qa_accept_handler := True\<rparr>)"

definition cancel_accept :: "quic_app \<Rightarrow> quic_app" where
  "cancel_accept a =
     (if qa_accept_handler a then qa_emit (Ae_accept_failed Canceled) (a\<lparr>qa_accept_handler := False\<rparr>) else a)"

text \<open>\<open>ready\<close>: the session is not closed, and its application is ready. The answer of ngtcp2 is the number
  of the new stream, or whether it is out of numbers.\<close>

datatype open_answer = Opened int | Stream_id_blocked | Open_failed

definition open_stream :: "bool \<Rightarrow> open_answer \<Rightarrow> quic_app \<Rightarrow> quic_app" where
  "open_stream ready rv a =
     (if qa_closed_ec a \<or> \<not> ready then qa_emit (Ae_open_failed Connection_aborted) a
      else case rv of
             Stream_id_blocked \<Rightarrow> qa_emit (Ae_open_failed Would_block) a
           | Open_failed \<Rightarrow> qa_emit (Ae_open_failed Connection_aborted) a
           | Opened sid \<Rightarrow>
               let a1 = qa_create_stream sid a
               in case qa_get a1 sid of
                    None \<Rightarrow> a1
                  | Some p \<Rightarrow> qa_put sid (p\<lparr>ps_stream := qs_attach (ps_stream p)\<rparr>) (qa_emit (Ae_opened sid) a1))"

text \<open>\<open>on_closed\<close>: streams nobody has accepted are dropped.\<close>

definition on_closed :: "quic_app \<Rightarrow> quic_app" where
  "on_closed a =
     (if qa_closed_ec a then a
      else let a1 = foldl (\<lambda>b sid. qa_release sid b)
                     (a\<lparr>qa_closed_ec := True, qa_accept_queue := [], qa_write_queue := []\<rparr>) (qa_accept_queue a)
           in if qa_accept_handler a1
              then qa_emit (Ae_accept_failed Connection_aborted) (a1\<lparr>qa_accept_handler := False\<rparr>) else a1)"

definition fail_streams :: "error_code \<Rightarrow> quic_app \<Rightarrow> quic_app" where
  "fail_streams ec a =
     (let a1 = on_closed a
      in foldl (\<lambda>b sid. on_plain (qs_fail ec) sid b) a1
           (map fst (filter (\<lambda>(sid, p). ps_in_table p) (qa_store a1))))"

section \<open>From ngtcp2, through the session\<close>

definition recv_stream_data :: "bool \<Rightarrow> int \<Rightarrow> bytes \<Rightarrow> bool \<Rightarrow> quic_app \<Rightarrow> quic_app" where
  "recv_stream_data remote sid data fin a =
     (let a1 = open_remote_stream remote sid (qa_emit (Ae_extend_max_offset (length data)) a)
      in case qa_find_stream sid a1 of
           None \<Rightarrow> a1
         | Some p \<Rightarrow>
             if qs_read_aborted (ps_stream p) then a1
             else let a2 = on_plain (qs_on_data_chunk data) sid a1
                  in if fin then on_plain qs_on_eof sid a2 else a2)"

definition acked_stream_data :: "int \<Rightarrow> nat \<Rightarrow> nat \<Rightarrow> quic_app \<Rightarrow> quic_app" where
  "acked_stream_data sid offset len a = on_found (qs_on_acked (offset + len)) sid a"

definition stream_close :: "bool \<Rightarrow> int \<Rightarrow> bool \<Rightarrow> quic_app \<Rightarrow> quic_app" where
  "stream_close remote sid reset a =
     (let a1 = on_found (qs_fail (if reset then Connection_reset else Success)) sid a
      in if remote then qa_emit Ae_extend_max_streams a1 else a1)"

definition stream_reset :: "bool \<Rightarrow> int \<Rightarrow> quic_app \<Rightarrow> quic_app" where
  "stream_reset remote sid a = on_found qs_abort_reading sid (open_remote_stream remote sid a)"

definition stream_stop_sending :: "int \<Rightarrow> quic_app \<Rightarrow> quic_app" where
  "stream_stop_sending sid a = on_found qs_abort_reading sid a"

definition recv_stop_sending :: "bool \<Rightarrow> int \<Rightarrow> quic_app \<Rightarrow> quic_app" where
  "recv_stop_sending remote sid a =
     on_found (qs_abort_writing Connection_reset) sid (open_remote_stream remote sid a)"

definition extend_max_stream_data :: "int \<Rightarrow> quic_app \<Rightarrow> quic_app" where
  "extend_max_stream_data sid a =
     (case qa_find_stream sid a of
        None \<Rightarrow> a
      | Some p \<Rightarrow> schedule True sid (qa_put sid (p\<lparr>ps_blocked := False\<rparr>) a))"

section \<open>Filling a packet\<close>

lemma unschedule_front_queue:
  "qa_write_queue a = sid # rest \<Longrightarrow> qa_get a sid \<noteq> None \<Longrightarrow> qa_write_queue (unschedule_front sid a) = rest"
  by (auto simp: unschedule_front_def qa_put_def Let_def split: option.splits)

lemma qa_find_get: "qa_find_stream sid a = Some p \<longleftrightarrow> qa_get a sid = Some p \<and> ps_in_table p"
  by (auto simp: qa_find_stream_def split: option.splits)

text \<open>The stream at the front of the queue that has something to send, and what.\<close>

function next_stream_data :: "nat \<Rightarrow> quic_app \<Rightarrow> quic_app \<times> (int \<times> bytes list \<times> bool) option" where
  "next_stream_data cap a =
     (case qa_write_queue a of
        [] \<Rightarrow> (a, None)
      | sid # rest \<Rightarrow>
          (case qa_find_stream sid a of
             None \<Rightarrow> next_stream_data cap (a\<lparr>qa_write_queue := rest\<rparr>)
           | Some p \<Rightarrow>
               if ps_blocked p then next_stream_data cap (unschedule_front sid a)
               else let (s, vec, fin) = qs_pending_data (qs_tx_sent (ps_stream p)) cap (ps_stream p);
                        a1 = qa_put sid (p\<lparr>ps_stream := s\<rparr>) a
                    in if vec = [] \<and> (\<not> fin \<or> qs_fin_offered s)
                       then next_stream_data cap (unschedule_front sid a1)
                       else (a1, Some (sid, vec, fin))))"
  by pat_completeness auto
termination
proof (relation "measure (\<lambda>(_, a). length (qa_write_queue a))", goal_cases)
  case (3 cap a sid rest p)
  then have "qa_write_queue (unschedule_front sid a) = rest"
    by (intro unschedule_front_queue) (auto simp: qa_find_get)
  with 3 show ?case by simp
next
  case (4 cap a sid rest p s vec fin x y a1)
  then have "qa_write_queue (unschedule_front sid a1) = rest"
    by (intro unschedule_front_queue) (auto simp: qa_put_def update_conv')
  with 4 show ?case by simp
qed auto

declare next_stream_data.simps [simp del]

text \<open>\<open>data\<close> are the bytes that went into the packet; the operation itself is only told how many.\<close>

definition on_stream_data_written :: "int \<Rightarrow> bytes \<Rightarrow> bool \<Rightarrow> quic_app \<Rightarrow> quic_app" where
  "on_stream_data_written sid data fin a =
     (if qa_find_stream sid a = None then a
      else schedule False sid
             (on_plain (\<lambda>s. qs_data_written (length data) fin (s\<lparr>qs_wire := qs_wire s @ data\<rparr>)) sid
               (unschedule_front sid a)))"

definition on_stream_blocked :: "int \<Rightarrow> quic_app \<Rightarrow> quic_app" where
  "on_stream_blocked sid a =
     (case qa_find_stream sid a of
        None \<Rightarrow> a
      | Some p \<Rightarrow> unschedule_front sid (qa_put sid (p\<lparr>ps_blocked := True\<rparr>) a))"

definition on_stream_shut_wr :: "int \<Rightarrow> quic_app \<Rightarrow> quic_app" where
  "on_stream_shut_wr sid a =
     (if qa_find_stream sid a = None then a
      else on_plain (qs_abort_writing Connection_reset) sid (unschedule_front sid a))"

text \<open>What ngtcp2 makes of what it is offered: how much of it went into the packet, with room left
  for more or not, or why nothing did. No number stands for a packet without stream data.\<close>

datatype write_answer =
    Stream_data_blocked
  | Stream_shut_wr
  | Stream_not_found
  | Write_more "nat option"
  | Packet_done "nat option"
  | Write_error

record write_turn =
  wt_closed :: bool
  wt_ready :: bool
  wt_max_data_left :: bool
  wt_answer :: write_answer

datatype packet = No_packet | Packet | Packet_failed

text \<open>\<open>written\<close>, the lambda of \<open>write_pkt\<close>: ngtcp2 takes no more than it is offered.\<close>

definition data_taken :: "(int \<times> bytes list \<times> bool) option \<Rightarrow> nat option \<Rightarrow> quic_app \<Rightarrow> quic_app" where
  "data_taken offer ndatalen a =
     (case (offer, ndatalen) of
        (Some (sid, vec, fin), Some n) \<Rightarrow>
          (let data = take n (concat vec)
           in on_stream_data_written sid data (fin \<and> length data = sum_list (map length vec)) a)
      | _ \<Rightarrow> a)"

text \<open>The loop over the answers of ngtcp2; no result if they do not suffice. \<open>shut\<close> is the stream that
  was not found last.\<close>

fun write_pkt :: "write_turn list \<Rightarrow> int option \<Rightarrow> quic_app \<Rightarrow> quic_app \<times> packet option" where
  "write_pkt [] shut a = (a, None)"
| "write_pkt (t # ts) shut a =
     (if wt_closed t then (a, Some No_packet)
      else let (a1, offer) = (if wt_ready t \<and> wt_max_data_left t then next_stream_data 16 a else (a, None));
               sid = map_option fst offer
           in case wt_answer t of
                Stream_data_blocked \<Rightarrow>
                  write_pkt ts shut (case sid of None \<Rightarrow> a1 | Some i \<Rightarrow> on_stream_blocked i a1)
              | Stream_shut_wr \<Rightarrow>
                  write_pkt ts shut (case sid of None \<Rightarrow> a1 | Some i \<Rightarrow> on_stream_shut_wr i a1)
              | Stream_not_found \<Rightarrow>
                  (case sid of
                     Some i \<Rightarrow> if sid \<noteq> shut then write_pkt ts sid (on_stream_blocked i (on_stream_shut_wr i a1))
                               else (a1, Some No_packet)
                   | None \<Rightarrow> (a1, Some No_packet))
              | Write_more n \<Rightarrow> write_pkt ts shut (data_taken offer n a1)
              | Packet_done n \<Rightarrow> (data_taken offer n a1, Some Packet)
              | Write_error \<Rightarrow> (a1, Some Packet_failed))"

end
