(* ===== verification/Quic_App_Stream.thy ===== *)
theory Quic_App_Stream
  imports Quic_App
begin

text \<open>
  What the application of plain streams needs to know of a single stream: when it has something to
  send, which operations may change that, and how a stream fares that nobody has accepted yet.
\<close>

section \<open>Something to send\<close>

definition qs_plain :: "quic_stream \<Rightarrow> bool" where
  "qs_plain s = (qs_inv s \<and> qs_class s = Plain_class)"

text \<open>What \<open>next_stream_data\<close> looks for, and the same in terms of the positions of the stream.\<close>

definition qs_has_pending :: "nat \<Rightarrow> quic_stream \<Rightarrow> bool" where
  "qs_has_pending cap s =
     (case qs_pending_data (qs_tx_sent s) cap s of
        (t, vec, fin) \<Rightarrow> vec \<noteq> [] \<or> (fin \<and> \<not> qs_fin_offered t))"

definition qs_wants :: "quic_stream \<Rightarrow> bool" where
  "qs_wants s =
     (\<not> qs_closed s \<and> \<not> qs_write_aborted s \<and>
      (qs_tx_sent s < qs_tx_queued s \<or>
       qs_write_active s \<and>
         (qs_write_mode s = Staged \<and> qs_write_copied s < length (qs_write_source s) \<or>
          qs_write_is_eof s \<and> \<not> qs_fin_offered s)))"

lemma qs_plainD:
  assumes "qs_plain s"
  shows "qs_inv s" "qs_class s = Plain_class" "qs_write_inv s" "qs_wire_ok s" "qs_tx_sent s = qs_tx_offered s"
    "qs_tx_acked s \<le> qs_tx_sent s" "qs_tx_sent s \<le> qs_tx_queued s" "length (qs_body s) = qs_tx_queued s"
  using assms qs_write_inv_positionsD [of s]
  by (auto simp: qs_plain_def qs_inv_def qs_write_side_def qs_wire_ok_def)

lemma zero_copy_idle:
  assumes "qs_plain s" "qs_write_mode s = ZeroCopy" "\<not> qs_closed s" "\<not> qs_write_aborted s" "qs_tx_sent s < qs_tx_queued s"
  shows "qs_write_active s"
  using assms qs_plainD [OF assms(1)] by (auto simp: qs_write_inv_def qs_memory_ok_def)

lemma qs_stage_idle: "qs_tx_sent s < qs_tx_queued s \<Longrightarrow> qs_stage s = s"
  by (simp add: qs_stage_def)

lemma qs_stage_moves:
  assumes "qs_tx_sent s \<le> qs_tx_queued s"
  shows "qs_stage s = s \<or> qs_tx_sent s < qs_tx_queued (qs_stage s)"
proof (cases "qs_write_mode s = Staged \<and> qs_write_active s \<and> qs_tx_queued s \<le> qs_tx_sent s \<and>
      qs_write_copied s < length (qs_write_source s)")
  case True
  with assms qs_stage_end [of s] show ?thesis by simp
qed (auto simp: qs_stage_def)

lemma qs_stage_again: "qs_plain s \<Longrightarrow> qs_stage (qs_stage s) = qs_stage s"
  using qs_stage_moves [OF qs_plainD(7)] qs_stage_idle [of "qs_stage s"] by force

lemma qs_pending_again:
  assumes "qs_plain s" "qs_pending_data (qs_tx_sent s) cap s = (t, vec, fin)"
  shows "qs_pending_data (qs_tx_sent t) cap t = (t, vec, fin)"
proof (cases "cap = 0 \<or> qs_closed s \<or> qs_write_aborted s")
  case True
  with assms(2) show ?thesis by (auto simp: qs_pending_data_def)
next
  case False
  then have t: "t = qs_stage s" using assms(2) by (auto simp: qs_pending_data_def Let_def split_beta)
  with qs_stage_again [OF assms(1)] assms(2) False show ?thesis
    by (simp add: qs_pending_data_def Let_def split_beta)
qed

lemma chunks_from_pieces: "chain a cs q \<Longrightarrow> [] \<notin> set (fst (chunks_from cap from e cs))"
  by (induction a cs q arbitrary: cap e rule: chain.induct) (auto simp: Let_def split_beta)

lemma qs_stage_queued:
  "qs_tx_sent s < qs_tx_queued (qs_stage s) \<longleftrightarrow>
     qs_tx_sent s < qs_tx_queued s \<or>
     qs_write_mode s = Staged \<and> qs_write_active s \<and> qs_tx_sent s = qs_tx_queued s \<and>
       qs_write_copied s < length (qs_write_source s)"
  if "qs_tx_sent s \<le> qs_tx_queued s"
  using that by (auto simp: qs_stage_def Let_def kWriteChunkSize_def)

lemma qs_has_pending_wants:
  assumes "qs_plain s" "cap > 0"
  shows "qs_has_pending cap s = qs_wants s"
proof (cases "qs_closed s \<or> qs_write_aborted s")
  case True
  then show ?thesis by (auto simp: qs_has_pending_def qs_wants_def qs_pending_data_def)
next
  case alive: False
  note d = qs_plainD [OF assms(1)]
  show ?thesis
  proof (cases "qs_write_mode s")
    case ZeroCopy
    then have "qs_stage s = s" by (simp add: qs_stage_def)
    with alive ZeroCopy assms(2) zero_copy_idle [OF assms(1)] d(7) show ?thesis
      by (auto simp: qs_has_pending_def qs_wants_def qs_pending_data_def Let_def)
  next
    case Staged
    define t where "t = qs_stage s"
    have t: "qs_write_inv t" unfolding t_def by (rule qs_stage_write_inv [OF d(3)])
    have f: "qs_tx_sent t = qs_tx_sent s" "qs_fin_offered t = qs_fin_offered s" "qs_write_mode t = Staged"
      "qs_write_active t = qs_write_active s" "qs_write_is_eof t = qs_write_is_eof s"
      "qs_write_source t = qs_write_source s" "qs_tx_acked t = qs_tx_acked s"
      using Staged by (simp_all add: t_def)
    obtain v e where c: "chunks_from cap (qs_tx_sent s) (qs_tx_sent s) (qs_chunks t) = (v, e)" by fastforce
    have p: "qs_has_pending cap s = (v \<noteq> [] \<or> (qs_write_active s \<and> qs_write_is_eof s \<and>
        qs_write_copied t = length (qs_write_source s) \<and> e \<ge> qs_tx_queued t \<and> \<not> qs_fin_offered s))"
      using alive assms(2) c f Staged by (auto simp: qs_has_pending_def qs_pending_data_def Let_def t_def)
    have a: "qs_tx_acked t \<le> qs_tx_sent s" using d(6) f by simp
    note view = staged_view [OF t f(3) a c]
    obtain b where b: "b \<le> qs_tx_acked t" "chain b (qs_chunks t) (qs_tx_queued t)"
      using t f(3) by (auto simp: qs_write_inv_def qs_memory_ok_def)
    have pieces: "[] \<notin> set v" using chunks_from_pieces [OF b(2)] c by (metis fst_conv)
    show ?thesis
    proof (cases "qs_tx_sent s < qs_tx_queued t")
      case True
      with chunks_from_nonempty [OF b(2), of "qs_tx_sent s" cap "qs_tx_sent s"] b(1) a assms(2) c have "v \<noteq> []" by simp
      moreover have "qs_wants s" using True alive qs_stage_queued [OF d(7)] by (auto simp: t_def qs_wants_def)
      ultimately show ?thesis using p by simp
    next
      case False
      then have "concat v = []" using view(1) qs_write_inv_positionsD(4) [OF t] by auto
      with pieces have "v = []" by (cases v) auto
      moreover have "t = s" "qs_tx_sent s = qs_tx_queued s"
        using False qs_stage_queued [OF d(7)] d(7) by (auto simp: t_def qs_stage_def)
      moreover have "\<not> (qs_write_active s \<and> qs_write_copied s < length (qs_write_source s))"
        using False qs_stage_queued [OF d(7)] Staged calculation(3) by (auto simp: t_def)
      moreover have "qs_write_active s \<longrightarrow> qs_write_copied s \<le> length (qs_write_source s)"
        using d(3) by (simp add: qs_write_inv_def qs_source_ok_def)
      ultimately show ?thesis using p alive view(2) by (auto simp: qs_wants_def)
    qed
  qed
qed

lemma qs_wants_wside: "qs_wants s = qs_wants t" if "qs_wside s = qs_wside t"
  unfolding qs_wants_def using qs_wside_eqD [OF that] by simp

lemma qs_wants_start_write:
  "qs_wants (qs_start_write b eof s) \<Longrightarrow> qs_wants s \<or> On_writable \<in> new_events s (qs_start_write b eof s)"
  by (auto simp: qs_start_write_def qs_wants_def new_events_def qs_emit_def Let_def split: if_splits)

lemma qs_wants_cancel_write:
  assumes "qs_plain s" "qs_wants (qs_cancel_write token s)"
  shows "qs_wants s"
  using assms(2) qs_plainD(2,5) [OF assms(1)]
  by (auto simp: qs_cancel_write_def qs_wants_def Let_def write_frames split: if_splits)

lemma qs_wants_write_ops:
  "qs_wants (qs_on_acked e s) \<Longrightarrow> qs_wants s" "\<not> qs_wants (qs_abort_writing ec s)"
  "qs_wants (qs_writer_dtor s) \<Longrightarrow> qs_wants s" "\<not> qs_wants (qs_fail ec s)"
  by (auto simp: qs_on_acked_def qs_abort_writing_def qs_writer_dtor_def qs_delete_writer_def qs_wants_def Let_def
      write_frames split: if_splits stream_class.splits)

text \<open>Only a write makes a stream have something to send, and then it says so.\<close>

fun app_op :: "quic_op \<Rightarrow> bool" where
  "app_op (Op_script as) = True"
| "app_op (Op_read n) = True"
| "app_op Op_cancel_read = True"
| "app_op Op_drop_reader = True"
| "app_op (Op_write b eof) = True"
| "app_op (Op_cancel_write token) = True"
| "app_op Op_drop_writer = True"
| "app_op _ = False"

fun net_op :: "quic_op \<Rightarrow> bool" where
  "net_op (Op_data d) = True"
| "net_op Op_eof = True"
| "net_op Op_abort_reading = True"
| "net_op (Op_acked e) = True"
| "net_op Op_abort_writing = True"
| "net_op (Op_fail ec) = True"
| "net_op _ = False"

lemma qs_exec_wants:
  assumes "qs_plain s" "app_op x \<or> net_op x" "qs_wants (qs_exec x s)"
  shows "qs_wants s \<or> On_writable \<in> new_events s (qs_exec x s)"
proof -
  note same = read_ops_wside [THEN qs_wants_wside]
  show ?thesis
  proof (cases x)
    case (Op_script as)
    with assms(3) show ?thesis by (simp add: qs_wants_def)
  next
    case (Op_write b eof)
    with assms(3) qs_wants_start_write show ?thesis by simp
  next
    case (Op_cancel_write token)
    with assms(1,3) qs_wants_cancel_write show ?thesis by simp
  next
    case (Op_acked e)
    with assms(3) qs_wants_write_ops(1) show ?thesis by simp
  next
    case Op_drop_writer
    with assms(3) qs_wants_write_ops(3) show ?thesis by simp
  qed (use assms(2,3) in \<open>simp_all add: same qs_wants_write_ops(2,4)\<close>)
qed

lemma qs_exec_plain: "qs_plain s \<Longrightarrow> qs_enabled x s \<Longrightarrow> qs_plain (qs_exec x s)"
  by (simp add: qs_plain_def qs_exec_inv qs_class_exec)

section \<open>Offering, and what is taken\<close>

lemma qs_plain_pending:
  assumes "qs_plain s" "qs_pending_data (qs_tx_sent s) cap s = (t, vec, fin)"
  shows "qs_plain t" and "cap > 0 \<Longrightarrow> qs_wants t = qs_wants s"
proof -
  note d = qs_plainD [OF assms(1)]
  have p: "qs_pending_data (qs_tx_offered s) cap s = (t, vec, fin)" using assms(2) d(5) by simp
  note fr = qs_pending_data_frame [OF p]
  have inv: "qs_write_inv t" using qs_pending_data_write_inv [OF d(3), of "qs_tx_offered s" cap] p by simp
  have "qs_fin_offered t" if "qs_fin_due t"
  proof -
    have "t = s \<or> t = qs_stage s" using p by (auto simp: qs_pending_data_def Let_def split_beta split: if_splits)
    then have "t = s" using that d(5) qs_stage_moves [OF d(7)] by (auto simp: qs_fin_due_def)
    with that d(4) show ?thesis by (simp add: qs_wire_ok_def)
  qed
  then have "qs_wire_ok t"
    using qs_wire_extend [OF d(4,3) fr(5), of "[]"] d(4) by (simp add: qs_wire_ok_def fr)
  moreover have "qs_read_same s t" using qs_pending_data_read_same [of s "qs_tx_sent s" cap] assms(2) by simp
  ultimately show "qs_plain t"
    using inv d(1,2) qs_read_same_inv [of s t] by (simp add: qs_plain_def qs_inv_def qs_write_side_def fr)
  then show "qs_wants t = qs_wants s" if "cap > 0"
    using qs_has_pending_wants [OF assms(1) that] qs_has_pending_wants [OF _ that, of t] qs_pending_again [OF assms] assms(2)
    by (simp add: qs_has_pending_def)
qed

lemma qs_plain_written:
  assumes "qs_plain s" "qs_pending_data (qs_tx_sent s) cap s = (s, vec, fin)" "vec \<noteq> [] \<or> (fin \<and> \<not> qs_fin_offered s)"
  shows "qs_plain (qs_data_written (length (take n (concat vec)))
           (fin \<and> length (take n (concat vec)) = sum_list (map length vec)) (s\<lparr>qs_wire := qs_wire s @ take n (concat vec)\<rparr>))"
proof -
  have "qs_packet cap n s = qs_data_written (length (take n (concat vec)))
      (fin \<and> length (take n (concat vec)) = sum_list (map length vec)) (s\<lparr>qs_wire := qs_wire s @ take n (concat vec)\<rparr>)"
    using assms(2,3) by (auto simp: qs_packet_def Let_def sum_list_length_concat min.commute)
  with qs_exec_plain [OF assms(1), of "Op_packet cap n"] qs_plainD(2) [OF assms(1)] show ?thesis by simp
qed

lemma qs_finish_events:
  "\<exists>es. qs_events (qs_finish_active_write s) = qs_events s @ es \<and> set es \<subseteq> {Write_done Success}"
  by (simp add: qs_finish_active_write_def qs_complete_write_def qs_emit_def)

lemma qs_on_offered_events:
  "\<exists>es. qs_events (qs_on_offered e fin s) = qs_events s @ es \<and> set es \<subseteq> {Write_done Success}"
  using qs_finish_events [of "s\<lparr>qs_tx_offered := max (qs_tx_offered s) (min e (qs_tx_queued s)), qs_fin_offered := True\<rparr>"]
  by (simp add: qs_on_offered_def Let_def)

lemma qs_on_sent_events:
  "\<exists>es. qs_events (qs_on_sent e s) = qs_events s @ es \<and> set es \<subseteq> {Write_done Success, On_writable}"
  using qs_finish_events [of "s\<lparr>qs_tx_sent := min e (qs_tx_offered s)\<rparr>"]
  by (auto simp: qs_on_sent_def Let_def qs_emit_def)

lemma qs_written_events:
  "new_events s (qs_data_written n fin (s\<lparr>qs_wire := w\<rparr>)) \<subseteq> {Write_done Success, On_writable}"
proof -
  let ?t = "qs_on_offered (qs_tx_sent s + n) fin (s\<lparr>qs_wire := w\<rparr>)"
  obtain es where es: "qs_events ?t = qs_events s @ es" "set es \<subseteq> {Write_done Success}"
    using qs_on_offered_events [of "qs_tx_sent s + n" fin "s\<lparr>qs_wire := w\<rparr>"] by auto
  obtain fs where "qs_events (qs_on_sent (qs_tx_sent ?t + n) ?t) = qs_events ?t @ fs" "set fs \<subseteq> {Write_done Success, On_writable}"
    using qs_on_sent_events by blast
  with es show ?thesis by (auto simp: new_events_def qs_data_written_def Let_def)
qed

section \<open>Streams nobody has accepted yet\<close>

definition qs_waiting :: "quic_stream \<Rightarrow> bool" where
  "qs_waiting s =
     (qs_plain (qs_attach s) \<and> qs_read_handler s = None \<and> \<not> qs_write_active s \<and> qs_tx_queued s = 0 \<and>
      \<not> qs_reader s \<and> \<not> qs_writer s)"

lemma qs_waiting_plain:
  assumes "qs_waiting s"
  shows "qs_plain s"
proof -
  have p: "qs_plain (qs_attach s)" "\<not> qs_reader s" "qs_read_handler s = None" using assms by (simp_all add: qs_waiting_def)
  have "qs_write_side s = qs_write_side (qs_attach s)"
    by (rule qs_wside_side) (simp_all add: qs_attach_def qs_wside_def quic_stream.defs)
  moreover have "qs_read_inv s" "qs_read_idle s"
    using p by (auto simp: qs_plain_def qs_inv_def qs_attach_def qs_read_inv_def qs_read_idle_def qs_delivered_def
      qs_credited_def qs_buffered_def qs_eof_seen_def)
  ultimately show ?thesis using p(1) by (simp add: qs_plain_def qs_inv_def) (simp add: qs_attach_def)
qed

lemma qs_waiting_wants: "qs_waiting s \<Longrightarrow> \<not> qs_wants s"
  by (auto simp: qs_waiting_def qs_wants_def dest: qs_plainD(7))

lemma qs_waiting_new: "qs_waiting (ps_stream (ps_new m))"
  using qs_init_inv [of Plain_class m]
  by (simp add: qs_waiting_def qs_plain_def qs_attach_def ps_new_def qs_init_def)

lemma qs_waiting_pending:
  assumes "qs_waiting s"
  shows "fst (qs_pending_data from cap s) = s"
  using assms by (auto simp: qs_waiting_def qs_pending_data_def qs_stage_def Let_def split_beta)

lemma qs_call_none [simp]: "qs_read_handler s = None \<Longrightarrow> qs_call_read_handler s = s"
  by (simp add: qs_call_read_handler_def)

lemma qs_plain_cong:
  assumes "qs_read_same s t" "qs_wside t = qs_wside s" "qs_plain s"
  shows "qs_plain t"
proof -
  have "qs_class t = qs_class s" using assms(1) by (rule qs_class_same)
  then show ?thesis
    using assms qs_read_same_inv [OF assms(1)] qs_wside_side [OF assms(2)] by (simp add: qs_plain_def qs_inv_def)
qed

lemma qs_plain_erase: "qs_plain s \<Longrightarrow> qs_plain (qs_emit Erase_stream s)"
  by (rule qs_plain_cong [of s]) simp_all

text \<open>What comes from the network does not depend on the adapters, as nobody reads or writes.\<close>

lemma qs_attach_net:
  assumes "qs_read_handler s = None" "\<not> qs_write_active s"
  shows "qs_attach (qs_on_data_chunk d s) = qs_on_data_chunk d (qs_attach s)"
    and "qs_attach (qs_on_eof s) = qs_on_eof (qs_attach s)"
    and "qs_attach (qs_abort_reading s) = qs_abort_reading (qs_attach s)"
    and "qs_attach (qs_on_acked e s) = qs_on_acked e (qs_attach s)"
    and "qs_attach (qs_abort_writing ec s) = qs_abort_writing ec (qs_attach s)"
    and "qs_attach (qs_fail ec s) =
           (if qs_reader s \<or> qs_writer s then qs_fail ec (qs_attach s) else qs_emit Erase_stream (qs_fail ec (qs_attach s)))"
  using assms
  by (simp_all add: qs_attach_def qs_on_data_chunk_def qs_on_eof_def qs_abort_reading_def qs_on_acked_def
      qs_abort_writing_def qs_fail_def Let_def write_frames)

lemma qs_idle_net:
  assumes "qs_read_handler s = None" "\<not> qs_write_active s" "net_op x"
  shows "qs_read_handler (qs_exec x s) = None" "\<not> qs_write_active (qs_exec x s)"
    "qs_reader (qs_exec x s) = qs_reader s" "qs_writer (qs_exec x s) = qs_writer s" "qs_tx_queued (qs_exec x s) = qs_tx_queued s"
  using assms
  by (cases x; simp add: qs_on_data_chunk_def qs_on_eof_def qs_abort_reading_def qs_on_acked_def
      qs_abort_writing_def qs_fail_def Let_def write_frames)+

lemma qs_net_op_waiting:
  assumes "qs_waiting s" "net_op x" "qs_enabled x s"
  shows "qs_waiting (qs_exec x s)"
proof -
  have w: "qs_plain (qs_attach s)" "qs_read_handler s = None" "\<not> qs_write_active s" "\<not> qs_reader s" "\<not> qs_writer s"
    "qs_tx_queued s = 0"
    using assms(1) by (simp_all add: qs_waiting_def)
  have "qs_enabled x (qs_attach s)" using assms(2,3) by (cases x) (auto simp: qs_attach_def)
  note i = qs_exec_plain [OF w(1) this]
  have "qs_plain (qs_attach (qs_exec x s))"
    using assms(2) i qs_plain_erase [OF i] by (cases x) (simp_all add: qs_attach_net [OF w(2,3)] w(4,5))
  with qs_idle_net [OF w(2,3) assms(2)] w(4,5,6) show ?thesis by (simp add: qs_waiting_def)
qed

end
