(* ===== verification/Quic_App_Inv.thy ===== *)
theory Quic_App_Inv
  imports Quic_App_Stream
begin

text \<open>
  What holds of the queues of the application of plain streams and of each of its streams, and how
  every single step keeps it.
\<close>

section \<open>The invariant\<close>

text \<open>What holds of each stream that lives. A stream in \<open>X\<close> is the one an operation is busy with: it
  may have something to send and not be scheduled yet.\<close>

definition qa_stream_ok :: "int set \<Rightarrow> quic_app \<Rightarrow> int \<Rightarrow> plain_stream \<Rightarrow> bool" where
  "qa_stream_ok X a sid p =
     (qs_plain (ps_stream p) \<and>
      (sid \<in> set (qa_accept_queue a) \<longrightarrow> qs_waiting (ps_stream p)) \<and>
      (ps_in_table p \<or> sid \<in> set (qa_accept_queue a)) \<and>
      (\<not> qa_closed_ec a \<and> ps_in_table p \<longrightarrow> ps_scheduled p = (sid \<in> set (qa_write_queue a))) \<and>
      (\<not> qa_closed_ec a \<and> ps_in_table p \<and> sid \<notin> X \<and> qs_wants (ps_stream p) \<longrightarrow> ps_scheduled p \<or> ps_blocked p))"

definition qa_gone_ids :: "quic_app \<Rightarrow> int set" where
  "qa_gone_ids a = fst ` set (qa_gone a)"

definition qa_queues_ok :: "quic_app \<Rightarrow> bool" where
  "qa_queues_ok a =
     (distinct (qa_accept_queue a) \<and> set (qa_accept_queue a) \<subseteq> dom (qa_get a) \<and>
      distinct (qa_write_queue a) \<and> set (qa_write_queue a) \<subseteq> dom (qa_get a) \<union> qa_gone_ids a \<and>
      (qa_closed_ec a \<longrightarrow> qa_write_queue a = [] \<and> qa_accept_queue a = []) \<and>
      (qa_accept_handler a \<longrightarrow> qa_accept_queue a = [] \<and> \<not> qa_closed_ec a))"

definition qa_inv_but :: "int set \<Rightarrow> quic_app \<Rightarrow> bool" where
  "qa_inv_but X a =
     (distinct_keys (qa_store a) \<and> qa_queues_ok a \<and> (\<forall>sid p. qa_get a sid = Some p \<longrightarrow> qa_stream_ok X a sid p))"

abbreviation qa_inv :: "quic_app \<Rightarrow> bool" where
  "qa_inv \<equiv> qa_inv_but {}"

lemma qa_invD:
  assumes "qa_inv_but X a"
  shows "distinct_keys (qa_store a)" "qa_queues_ok a" "qa_get a sid = Some p \<Longrightarrow> qa_stream_ok X a sid p"
  using assms by (simp_all add: qa_inv_but_def)

lemma qa_inv_weaken: "qa_inv_but X a \<Longrightarrow> X \<subseteq> Y \<Longrightarrow> qa_inv_but Y a"
  by (auto simp: qa_inv_but_def qa_stream_ok_def)

lemma qa_get_put [simp]: "qa_get (qa_put sid p a) = (qa_get a)(sid \<mapsto> p)"
  by (simp add: qa_put_def update_conv')

lemma qa_put_fields [simp]:
  "qa_accept_queue (qa_put sid p a) = qa_accept_queue a" "qa_write_queue (qa_put sid p a) = qa_write_queue a"
  "qa_closed_ec (qa_put sid p a) = qa_closed_ec a" "qa_accept_handler (qa_put sid p a) = qa_accept_handler a"
  "qa_gone_ids (qa_put sid p a) = qa_gone_ids a" "qa_gone (qa_put sid p a) = qa_gone a" "qa_mode (qa_put sid p a) = qa_mode a"
  "qa_events (qa_put sid p a) = qa_events a" "distinct_keys (qa_store a) \<Longrightarrow> distinct_keys (qa_store (qa_put sid p a))"
  by (simp_all add: qa_put_def qa_gone_ids_def tbl.ok_put)

lemma qa_stream_ok_put [simp]: "qa_stream_ok X (qa_put i q a) sid p = qa_stream_ok X a sid p"
  by (simp add: qa_stream_ok_def)

lemma qa_emit_fields [simp]:
  "qa_store (qa_emit e a) = qa_store a" "qa_accept_queue (qa_emit e a) = qa_accept_queue a"
  "qa_write_queue (qa_emit e a) = qa_write_queue a" "qa_closed_ec (qa_emit e a) = qa_closed_ec a"
  "qa_accept_handler (qa_emit e a) = qa_accept_handler a" "qa_gone (qa_emit e a) = qa_gone a"
  "qa_events (qa_emit e a) = qa_events a @ [e]" "qa_mode (qa_emit e a) = qa_mode a"
  by (simp_all add: qa_emit_def)

lemma qa_inv_emit [simp]: "qa_inv_but X (qa_emit e a) = qa_inv_but X a"
  by (simp add: qa_inv_but_def qa_queues_ok_def qa_stream_ok_def qa_gone_ids_def)

lemma qa_inv_put:
  assumes "qa_inv_but X a" "qa_get a sid \<noteq> None" "qa_stream_ok X a sid p"
  shows "qa_inv_but X (qa_put sid p a)"
  using assms by (auto simp: qa_inv_but_def qa_queues_ok_def)

text \<open>Letting go of an exception.\<close>

lemma qa_inv_settle:
  assumes "qa_inv_but (insert sid X) a"
    and "\<And>p. qa_get a sid = Some p \<Longrightarrow> \<not> qs_wants (ps_stream p) \<or> ps_scheduled p \<or> ps_blocked p \<or> qa_closed_ec a"
  shows "qa_inv_but X a"
proof -
  have "qa_stream_ok X a i q" if "qa_get a i = Some q" for i q
    using qa_invD(3) [OF assms(1) that] assms(2) [of q] that by (cases "i = sid") (auto simp: qa_stream_ok_def)
  with assms(1) show ?thesis by (simp add: qa_inv_but_def)
qed

section \<open>Scheduling\<close>

lemma qa_inv_schedule:
  assumes "qa_inv_but {sid} a" "qa_get a sid = Some p" "ps_in_table p"
  shows "qa_inv (schedule wake sid a)"
proof (cases "ps_scheduled p \<or> ps_blocked p \<or> qa_closed_ec a")
  case True
  then have "schedule wake sid a = a" using assms(2) by (auto simp: schedule_def)
  moreover have "qa_inv a" by (rule qa_inv_settle [of sid]) (use assms True in auto)
  ultimately show ?thesis by simp
next
  case False
  note d = qa_invD(2) [OF assms(1)] qa_invD(3) [OF assms(1,2)]
  have n: "sid \<notin> set (qa_write_queue a)" using d(2) False assms(3) by (simp add: qa_stream_ok_def)
  let ?a = "(qa_put sid (p\<lparr>ps_scheduled := True\<rparr>) a)\<lparr>qa_write_queue := qa_write_queue a @ [sid]\<rparr>"
  have "qa_queues_ok ?a" using d(1) n False assms(2) by (auto simp: qa_queues_ok_def qa_gone_ids_def qa_put_def update_conv')
  moreover have "qa_stream_ok {} ?a i q" if "qa_get ?a i = Some q" for i q
    using that qa_invD(3) [OF assms(1), of i] d(2) False by (auto simp: qa_stream_ok_def split: if_splits)
  moreover have "distinct_keys (qa_store ?a)" using qa_invD(1) [OF assms(1)] by simp
  ultimately have "qa_inv ?a" by (simp add: qa_inv_but_def)
  with False assms(2) show ?thesis by (simp add: schedule_def Let_def)
qed

lemma qa_inv_unschedule:
  assumes "qa_inv_but X a" "qa_get a sid = Some p" "ps_in_table p"
    and "qa_write_queue a = sid # rest \<or> sid \<notin> set (qa_write_queue a)"
  shows "qa_inv_but (insert sid X) (unschedule_front sid a)"
proof -
  note d = qa_invD(2) [OF assms(1)] qa_invD(3) [OF assms(1,2)]
  define q where "q = (if qa_write_queue a \<noteq> [] \<and> hd (qa_write_queue a) = sid then tl (qa_write_queue a) else qa_write_queue a)"
  have q: "sid \<notin> set q" "set q = set (qa_write_queue a) - {sid}" "distinct q"
    using assms(4) d(1) by (cases "qa_write_queue a"; auto simp: q_def qa_queues_ok_def)+
  let ?a = "qa_put sid (p\<lparr>ps_scheduled := False\<rparr>) (a\<lparr>qa_write_queue := q\<rparr>)"
  have "unschedule_front sid a = ?a" using assms(2) by (cases a) (auto simp: unschedule_front_def q_def Let_def)
  moreover have "qa_queues_ok ?a" using d(1) q by (auto simp: qa_queues_ok_def qa_gone_ids_def)
  moreover have "qa_stream_ok (insert sid X) ?a i r" if "qa_get ?a i = Some r" for i r
    using that qa_invD(3) [OF assms(1), of i] d(2) q by (auto simp: qa_stream_ok_def split: if_splits)
  moreover have "distinct_keys (qa_store ?a)" using qa_invD(1) [OF assms(1)] by simp
  ultimately show ?thesis by (simp add: qa_inv_but_def)
qed

lemma unschedule_get:
  assumes "qa_get a sid = Some p"
  shows "qa_get (unschedule_front sid a) = (qa_get a)(sid \<mapsto> p\<lparr>ps_scheduled := False\<rparr>)"
  using assms by (simp add: unschedule_front_def Let_def)

section \<open>Leaving\<close>

lemma qa_inv_release:
  assumes "distinct_keys (qa_store a)" "qa_queues_ok a"
    and "\<And>i q. i \<noteq> sid \<Longrightarrow> qa_get a i = Some q \<Longrightarrow> qa_stream_ok X a i q"
    and "\<And>q. qa_get a sid = Some q \<Longrightarrow> ps_in_table q \<or> sid \<in> set (qa_accept_queue a) \<Longrightarrow> qa_stream_ok X a sid q"
  shows "qa_inv_but X (qa_release sid a)"
proof (cases "qa_get a sid")
  case None
  with assms show ?thesis unfolding qa_inv_but_def qa_release_def by (auto, metis option.discI)
next
  case (Some p)
  show ?thesis
  proof (cases "ps_in_table p \<or> sid \<in> set (qa_accept_queue a)")
    case True
    with Some assms have "qa_inv_but X a" unfolding qa_inv_but_def by (metis option.inject)
    with True Some show ?thesis by (auto simp: qa_release_def)
  next
    case False
    let ?a = "a\<lparr>qa_store := AList.delete sid (qa_store a),
                qa_gone := qa_gone a @ [(sid, p\<lparr>ps_stream := qs_detach_all (ps_stream p)\<rparr>)]\<rparr>"
    have g: "qa_get ?a = (qa_get a)(sid := None)" by (simp add: delete_conv')
    have "qa_queues_ok ?a" using assms(2) False by (auto simp: qa_queues_ok_def qa_gone_ids_def delete_conv' Some)
    moreover have "qa_stream_ok X ?a i r" if "qa_get ?a i = Some r" for i r
      using that assms(3) [of i r] unfolding g by (auto simp: qa_stream_ok_def split: if_splits)
    moreover have "distinct_keys (qa_store ?a)" using assms(1) by (simp add: tbl.ok_del)
    ultimately have "qa_inv_but X ?a" by (simp add: qa_inv_but_def)
    with False Some show ?thesis by (simp add: qa_release_def)
  qed
qed

lemma qa_inv_erase:
  assumes "qa_inv_but X a"
  shows "qa_inv_but X (qa_erase_stream sid a)"
proof (cases "qa_get a sid")
  case (Some p)
  note d = qa_invD(1,2) [OF assms] qa_invD(3) [OF assms Some]
  have "qa_inv_but X (qa_release sid (qa_put sid (p\<lparr>ps_in_table := False\<rparr>) a))"
  proof (rule qa_inv_release)
    show "qa_queues_ok (qa_put sid (p\<lparr>ps_in_table := False\<rparr>) a)" using d(2) by (auto simp: qa_queues_ok_def)
  qed (use d qa_invD(3) [OF assms] in \<open>auto simp: qa_stream_ok_def split: if_splits\<close>)
  with Some show ?thesis by (simp add: qa_erase_stream_def)
qed (use assms in \<open>simp add: qa_erase_stream_def\<close>)

section \<open>An operation of a stream\<close>

lemma schedule_get_other: "i \<noteq> sid \<Longrightarrow> qa_get (schedule wake sid a) i = qa_get a i"
  by (auto simp: schedule_def Let_def split: option.splits)

lemma schedule_get:
  "qa_get a sid = Some p \<Longrightarrow> \<exists>q. qa_get (schedule wake sid a) sid = Some q \<and> ps_in_table q = ps_in_table p"
  by (auto simp: schedule_def Let_def)

lemma qa_inv_on_plain:
  assumes inv: "qa_inv_but X a" and p: "qa_get a sid = Some p" "ps_in_table p"
    and f: "qs_plain (f (ps_stream p))"
    and wait: "sid \<in> set (qa_accept_queue a) \<Longrightarrow> qs_waiting (f (ps_stream p))"
    and wants: "qs_wants (f (ps_stream p)) \<Longrightarrow>
        sid \<notin> X \<and> qs_wants (ps_stream p) \<or> On_writable \<in> new_events (ps_stream p) (f (ps_stream p))"
    and X: "X \<subseteq> {sid}"
  shows "qa_inv (on_plain f sid a)"
proof -
  let ?s = "f (ps_stream p)"
  let ?new = "new_events (ps_stream p) ?s"
  let ?a1 = "qa_put sid (p\<lparr>ps_stream := ?s\<rparr>) a"
  have ok: "qa_stream_ok {sid} a sid (p\<lparr>ps_stream := ?s\<rparr>)"
    using qa_invD(3) [OF inv p(1)] f wait by (auto simp: qa_stream_ok_def)
  have i1: "qa_inv_but {sid} ?a1"
    by (rule qa_inv_put [OF qa_inv_weaken [OF inv X]]) (use p ok in auto)
  have "qa_inv (if On_writable \<in> ?new then schedule True sid ?a1 else ?a1)"
  proof (cases "On_writable \<in> ?new")
    case True
    with qa_inv_schedule [OF i1, of _ True] p(2) show ?thesis by simp
  next
    case False
    have "qs_wants ?s \<Longrightarrow> \<not> qa_closed_ec a \<Longrightarrow> ps_scheduled p \<or> ps_blocked p"
      using wants False qa_invD(3) [OF inv p(1)] p(2) by (auto simp: qa_stream_ok_def)
    then have "qa_inv ?a1" by (intro qa_inv_settle [OF i1]) auto
    with False show ?thesis by simp
  qed
  then show ?thesis using p(1) qa_inv_erase by (simp add: on_plain_def Let_def)
qed

text \<open>... with the operations of \<open>quic_op\<close>.\<close>

lemma qa_inv_exec:
  assumes "qa_inv a" "qa_find_stream sid a = Some p" "qs_enabled x (ps_stream p)"
    and "net_op x \<or> app_op x \<and> sid \<notin> set (qa_accept_queue a)"
  shows "qa_inv (on_plain (qs_exec x) sid a)"
proof -
  have p: "qa_get a sid = Some p" "ps_in_table p" using assms(2) by (simp_all add: qa_find_get)
  have ok: "qa_stream_ok {} a sid p" by (rule qa_invD(3) [OF assms(1) p(1)])
  then have q: "qs_plain (ps_stream p)" by (simp add: qa_stream_ok_def)
  show ?thesis
  proof (rule qa_inv_on_plain [OF assms(1) p])
    show "qs_plain (qs_exec x (ps_stream p))" by (rule qs_exec_plain [OF q assms(3)])
    show "qs_waiting (qs_exec x (ps_stream p))" if "sid \<in> set (qa_accept_queue a)"
      using qs_net_op_waiting [OF _ _ assms(3)] ok that assms(4) by (auto simp: qa_stream_ok_def)
    show "sid \<notin> {} \<and> qs_wants (ps_stream p) \<or> On_writable \<in> new_events (ps_stream p) (qs_exec x (ps_stream p))"
      if "qs_wants (qs_exec x (ps_stream p))"
      using qs_exec_wants [OF q _ that] assms(4) by auto
  qed simp
qed

lemma qa_inv_found:
  assumes "qa_inv a" "net_op x" "\<And>p. qa_find_stream sid a = Some p \<Longrightarrow> qs_enabled x (ps_stream p)"
  shows "qa_inv (on_found (qs_exec x) sid a)"
  using assms qa_inv_exec [OF assms(1), of sid _ x] by (cases "qa_find_stream sid a") (auto simp: on_found_def)

section \<open>Accepting and opening\<close>

text \<open>A number ngtcp2 has not used before.\<close>

definition qa_fresh :: "int \<Rightarrow> quic_app \<Rightarrow> bool" where
  "qa_fresh sid a = (qa_get a sid = None \<and> sid \<notin> qa_gone_ids a)"

lemma qa_fresh_queues:
  "qa_inv_but X a \<Longrightarrow> qa_fresh sid a \<Longrightarrow> sid \<notin> set (qa_write_queue a) \<and> sid \<notin> set (qa_accept_queue a)"
  using qa_invD(2) [of X a] by (auto simp: qa_fresh_def qa_queues_ok_def)

lemma qs_waiting_attach: "qs_waiting s \<Longrightarrow> qs_plain (qs_attach s)"
  by (simp add: qs_waiting_def)

lemma ps_new_fields [simp]:
  "\<not> ps_scheduled (ps_new m)" "\<not> ps_blocked (ps_new m)" "ps_in_table (ps_new m)" "\<not> qs_wants (ps_stream (ps_new m))"
  "\<not> qs_wants (qs_attach (ps_stream (ps_new m)))"
  by (simp_all add: ps_new_def qs_wants_def qs_init_def qs_attach_def)

lemma qs_attach_wants [simp]: "qs_wants (qs_attach s) = qs_wants s"
  by (simp add: qs_wants_def qs_attach_def)

lemma qa_inv_hand_out:
  assumes "qa_inv a" "qa_accept_queue a = sid # rest" "b \<longrightarrow> qa_accept_handler a"
  shows "qa_inv (hand_out sid (a\<lparr>qa_accept_queue := rest, qa_accept_handler := b\<rparr>))"
proof -
  note d = qa_invD(1,2) [OF assms(1)]
  have "sid \<in> dom (qa_get a)" using d(2) assms(2) by (simp add: qa_queues_ok_def)
  then obtain p where p: "qa_get a sid = Some p" by auto
  note ok = qa_invD(3) [OF assms(1) p]
  have w: "qs_waiting (ps_stream p)" using ok assms(2) by (simp add: qa_stream_ok_def)
  have n: "sid \<notin> set rest" using d(2) assms(2) by (simp add: qa_queues_ok_def)
  let ?a = "a\<lparr>qa_accept_queue := rest, qa_accept_handler := b\<rparr>"
  let ?b = "qa_put sid (p\<lparr>ps_stream := qs_attach (ps_stream p)\<rparr>) (qa_emit (Ae_accepted sid) ?a)"
  have "qa_inv (qa_release sid ?b)"
  proof (rule qa_inv_release)
    show "distinct_keys (qa_store ?b)" using d(1) by simp
    show "qa_queues_ok ?b" using d(2) assms(2,3) by (auto simp: qa_queues_ok_def qa_gone_ids_def)
    show "qa_stream_ok {} ?b i q" if "i \<noteq> sid" "qa_get ?b i = Some q" for i q
      using that qa_invD(3) [OF assms(1), of i q] assms(2) by (auto simp: qa_stream_ok_def)
    show "qa_stream_ok {} ?b sid q" if "qa_get ?b sid = Some q" "ps_in_table q \<or> sid \<in> set (qa_accept_queue ?b)" for q
      using that ok n qs_waiting_attach [OF w] by (auto simp: qa_stream_ok_def)
  qed
  with p show ?thesis by (simp add: hand_out_def)
qed

lemma qa_inv_deliver:
  assumes "qa_inv_but {} (a\<lparr>qa_accept_handler := False\<rparr>)" "qa_accept_handler a \<Longrightarrow> \<not> qa_closed_ec a"
    and "qa_accept_handler a \<Longrightarrow> \<exists>sid. qa_accept_queue a = [sid]"
  shows "qa_inv (deliver_accepted a)"
proof (cases "qa_accept_handler a")
  case False
  then have "a\<lparr>qa_accept_handler := False\<rparr> = a" by (cases a) simp
  with assms(1) False show ?thesis by (simp add: deliver_accepted_def)
next
  case True
  then obtain sid where "qa_accept_queue a = [sid]" using assms(3) by auto
  with True qa_inv_hand_out [OF assms(1), of sid "[]" False] show ?thesis by (simp add: deliver_accepted_def)
qed

lemma qa_inv_create:
  assumes "qa_inv a" "qa_fresh sid a"
  shows "qa_inv (qa_put sid ((ps_new m)\<lparr>ps_stream := qs_attach (ps_stream (ps_new m))\<rparr>) a)"
    and "\<not> qa_closed_ec a \<Longrightarrow>
      qa_inv ((qa_put sid (ps_new m) a)\<lparr>qa_accept_queue := qa_accept_queue a @ [sid], qa_accept_handler := False\<rparr>)"
proof -
  note d = qa_invD(1,2) [OF assms(1)] and n = qa_fresh_queues [OF assms]
  have new: "qs_waiting (ps_stream (ps_new m))" by (rule qs_waiting_new)
  let ?a = "qa_put sid ((ps_new m)\<lparr>ps_stream := qs_attach (ps_stream (ps_new m))\<rparr>) a"
  have "qa_stream_ok {} a sid ((ps_new m)\<lparr>ps_stream := qs_attach (ps_stream (ps_new m))\<rparr>)"
    using n qs_waiting_attach [OF new] by (simp add: qa_stream_ok_def)
  moreover have "qa_queues_ok ?a" using d(2) by (auto simp: qa_queues_ok_def)
  ultimately show "qa_inv ?a" using assms(1) by (simp add: qa_inv_but_def)
  let ?b = "(qa_put sid (ps_new m) a)\<lparr>qa_accept_queue := qa_accept_queue a @ [sid], qa_accept_handler := False\<rparr>"
  assume "\<not> qa_closed_ec a"
  then have "qa_queues_ok ?b" using d(2) n by (auto simp: qa_queues_ok_def qa_gone_ids_def qa_put_def update_conv')
  moreover have "qa_stream_ok {} ?b i q" if "qa_get ?b i = Some q" for i q
    using that n qs_waiting_plain [OF new] new qa_invD(3) [OF assms(1), of i q] by (auto simp: qa_stream_ok_def split: if_splits)
  moreover have "distinct_keys (qa_store ?b)" using d(1) by simp
  ultimately show "qa_inv ?b" by (simp add: qa_inv_but_def)
qed

text \<open>A stream the session does not know is new, if ngtcp2 speaks of it.\<close>

definition qa_known :: "int \<Rightarrow> quic_app \<Rightarrow> bool" where
  "qa_known sid a = (qa_find_stream sid a \<noteq> None \<or> qa_fresh sid a)"

lemma qa_inv_open_remote:
  assumes "qa_inv a" "qa_known sid a"
  shows "qa_inv (open_remote_stream remote sid a)"
proof (cases "qa_find_stream sid a \<noteq> None \<or> \<not> remote \<or> qa_closed_ec a")
  case True
  with assms show ?thesis by (auto simp: open_remote_stream_def)
next
  case False
  then have f: "qa_fresh sid a" "\<not> qa_closed_ec a" "qa_find_stream sid a = None" using assms(2) by (auto simp: qa_known_def)
  let ?a = "qa_emit (Ae_remote sid) ((qa_put sid (ps_new (qa_mode a)) a)\<lparr>qa_accept_queue := qa_accept_queue a @ [sid]\<rparr>)"
  have e: "open_remote_stream remote sid a = deliver_accepted ?a"
    using False f by (simp add: open_remote_stream_def qa_create_stream_def Let_def)
  have h: "?a\<lparr>qa_accept_handler := False\<rparr> = qa_emit (Ae_remote sid)
      ((qa_put sid (ps_new (qa_mode a)) a)\<lparr>qa_accept_queue := qa_accept_queue a @ [sid], qa_accept_handler := False\<rparr>)"
    by (simp add: qa_emit_def)
  have "qa_inv (?a\<lparr>qa_accept_handler := False\<rparr>)"
    unfolding h qa_inv_emit by (rule qa_inv_create(2) [OF assms(1) f(1,2)])
  then show ?thesis unfolding e
    by (rule qa_inv_deliver) (use qa_invD(2) [OF assms(1)] f(2) in \<open>auto simp: qa_queues_ok_def\<close>)
qed

section \<open>Filling a packet\<close>

definition qa_offer_ok :: "nat \<Rightarrow> quic_app \<Rightarrow> (int \<times> bytes list \<times> bool) option \<Rightarrow> bool" where
  "qa_offer_ok cap a offer =
     (case offer of
        None \<Rightarrow> qa_write_queue a = []
      | Some (sid, vec, fin) \<Rightarrow>
          (\<exists>p rest. qa_write_queue a = sid # rest \<and> qa_find_stream sid a = Some p \<and> \<not> ps_blocked p \<and>
             qs_pending_data (qs_tx_sent (ps_stream p)) cap (ps_stream p) = (ps_stream p, vec, fin) \<and>
             (vec \<noteq> [] \<or> (fin \<and> \<not> qs_fin_offered (ps_stream p)))))"

lemma qa_inv_pop_dead:
  assumes "qa_inv a" "qa_write_queue a = sid # rest" "qa_find_stream sid a = None"
  shows "qa_inv (a\<lparr>qa_write_queue := rest\<rparr>)"
proof -
  have "qa_queues_ok (a\<lparr>qa_write_queue := rest\<rparr>)"
    using qa_invD(2) [OF assms(1)] assms(2) by (auto simp: qa_queues_ok_def qa_gone_ids_def)
  moreover have "qa_stream_ok {} (a\<lparr>qa_write_queue := rest\<rparr>) i q" if "qa_get a i = Some q" for i q
    using qa_invD(3) [OF assms(1) that] that assms(2,3)
    by (cases "i = sid") (auto simp: qa_stream_ok_def qa_find_stream_def split: if_splits)
  ultimately show ?thesis using assms(1) by (simp add: qa_inv_but_def)
qed

lemma qa_inv_offer:
  assumes inv: "qa_inv a" and p: "qa_get a sid = Some p" "ps_in_table p" and cap: "cap > 0"
    and t: "qs_pending_data (qs_tx_sent (ps_stream p)) cap (ps_stream p) = (t, vec, fin)"
  shows "qa_inv (qa_put sid (p\<lparr>ps_stream := t\<rparr>) a)"
proof (rule qa_inv_put [OF inv])
  have ok: "qa_stream_ok {} a sid p" by (rule qa_invD(3) [OF inv p(1)])
  then have q: "qs_plain (ps_stream p)" by (simp add: qa_stream_ok_def)
  have "t = ps_stream p" if "qs_waiting (ps_stream p)" using qs_waiting_pending [OF that] t by (metis fst_conv)
  then show "qa_stream_ok {} a sid (p\<lparr>ps_stream := t\<rparr>)"
    using ok qs_plain_pending [OF q t] cap by (auto simp: qa_stream_ok_def)
qed (use p in simp)

lemma qa_next:
  assumes "qa_inv a" "cap > 0"
  shows "qa_inv (fst (next_stream_data cap a)) \<and> qa_offer_ok cap (fst (next_stream_data cap a)) (snd (next_stream_data cap a))"
  using assms
proof (induction cap a rule: next_stream_data.induct)
  case (1 cap a)
  show ?case
  proof (cases "qa_write_queue a")
    case Nil
    with 1(4) show ?thesis by (simp add: next_stream_data.simps [of cap a] qa_offer_ok_def)
  next
    case (Cons sid rest)
    show ?thesis
    proof (cases "qa_find_stream sid a")
      case None
      then have "qa_inv (a\<lparr>qa_write_queue := rest\<rparr>)" by (rule qa_inv_pop_dead [OF 1(4) Cons])
      with 1(1) [OF Cons None] 1(5) show ?thesis using Cons None by (simp add: next_stream_data.simps [of cap a])
    next
      case (Some p)
      then have p: "qa_get a sid = Some p" "ps_in_table p" by (simp_all add: qa_find_get)
      show ?thesis
      proof (cases "ps_blocked p")
        case True
        have "qa_inv_but {sid} (unschedule_front sid a)" by (rule qa_inv_unschedule [OF 1(4) p disjI1 [OF Cons]])
        then have "qa_inv (unschedule_front sid a)"
          by (rule qa_inv_settle) (use True in \<open>simp add: unschedule_get [OF p(1)]\<close>)
        with 1(2) [OF Cons Some True] 1(5) show ?thesis using Cons Some True by (simp add: next_stream_data.simps [of cap a])
      next
        case False
        obtain t vec fin where t: "qs_pending_data (qs_tx_sent (ps_stream p)) cap (ps_stream p) = (t, vec, fin)"
          using prod_cases3 by blast
        let ?a = "qa_put sid (p\<lparr>ps_stream := t\<rparr>) a"
        have q: "qs_plain (ps_stream p)" using qa_invD(3) [OF 1(4) p(1)] by (simp add: qa_stream_ok_def)
        note inv = qa_inv_offer [OF 1(4) p 1(5) t]
        have wq: "qa_write_queue ?a = sid # rest" using Cons by simp
        show ?thesis
        proof (cases "vec = [] \<and> (\<not> fin \<or> qs_fin_offered t)")
          case True
          have "\<not> qs_wants t"
            using qs_has_pending_wants [OF q 1(5)] qs_plain_pending(2) [OF q t 1(5)] t True by (auto simp: qs_has_pending_def)
          moreover have "qa_inv_but {sid} (unschedule_front sid ?a)"
            by (rule qa_inv_unschedule [OF inv _ _ disjI1 [OF wq], of "p\<lparr>ps_stream := t\<rparr>"]) (use p(2) in simp_all)
          ultimately have "qa_inv (unschedule_front sid ?a)"
            by (elim qa_inv_settle) (auto simp: unschedule_get)
          with 1(3) [OF Cons Some False t [symmetric] refl refl refl True] 1(5) show ?thesis
            using Cons Some False t True by (simp add: next_stream_data.simps [of cap a])
        next
          case offer: False
          then have "next_stream_data cap a = (?a, Some (sid, vec, fin))"
            using Cons Some False t by (auto simp: next_stream_data.simps [of cap a])
          moreover have "qa_offer_ok cap ?a (Some (sid, vec, fin))"
            using wq p(2) False offer qs_pending_again [OF q t] by (auto simp: qa_offer_ok_def qa_find_get)
          ultimately show ?thesis using inv by simp
        qed
      qed
    qed
  qed
qed

text \<open>What becomes of an offer.\<close>

lemma unschedule_fields [simp]:
  "qa_accept_queue (unschedule_front sid a) = qa_accept_queue a" "qa_closed_ec (unschedule_front sid a) = qa_closed_ec a"
  by (simp_all add: unschedule_front_def Let_def split: option.splits)

lemma qa_inv_resend:
  assumes inv: "qa_inv a" and wq: "qa_write_queue a = sid # rest" and g: "qa_get a sid = Some p" "ps_in_table p"
    and nq: "sid \<notin> set (qa_accept_queue a)" and f: "qs_plain (f (ps_stream p))"
    and n: "Erase_stream \<notin> new_events (ps_stream p) (f (ps_stream p))"
  shows "qa_inv (schedule False sid (on_plain f sid (unschedule_front sid a)))"
proof -
  let ?u = "unschedule_front sid a" and ?p = "p\<lparr>ps_scheduled := False\<rparr>"
  define b where "b = qa_put sid (?p\<lparr>ps_stream := f (ps_stream p)\<rparr>) ?u"
  have u: "qa_inv_but {sid} ?u" by (rule qa_inv_unschedule [OF inv g disjI1 [OF wq]])
  have ug: "qa_get ?u sid = Some ?p" by (simp add: unschedule_get [OF g(1)])
  have "qa_stream_ok {sid} ?u sid (?p\<lparr>ps_stream := f (ps_stream p)\<rparr>)"
    using qa_invD(3) [OF u ug] f nq by (simp add: qa_stream_ok_def)
  then have i: "qa_inv_but {sid} b" unfolding b_def by (intro qa_inv_put [OF u]) (simp_all add: ug)
  have bg: "qa_get b sid = Some (?p\<lparr>ps_stream := f (ps_stream p)\<rparr>)" by (simp add: b_def)
  have "on_plain f sid ?u = schedule True sid b \<or> on_plain f sid ?u = b"
    using ug n by (auto simp: on_plain_def Let_def b_def)
  moreover have "qa_inv (schedule False sid b)" using qa_inv_schedule [OF i bg] g(2) by simp
  moreover have "qa_inv (schedule False sid (schedule True sid b))"
  proof -
    obtain q where "qa_get (schedule True sid b) sid = Some q" "ps_in_table q"
      using schedule_get [OF bg, of True] g(2) by auto
    moreover have "qa_inv_but {sid} (schedule True sid b)"
      using qa_inv_schedule [OF i bg] g(2) by (auto intro: qa_inv_weaken)
    ultimately show ?thesis by (intro qa_inv_schedule)
  qed
  ultimately show ?thesis by auto
qed

lemma qa_inv_written:
  assumes inv: "qa_inv a" and wq: "qa_write_queue a = sid # rest" and p: "qa_find_stream sid a = Some p"
    and t: "qs_pending_data (qs_tx_sent (ps_stream p)) cap (ps_stream p) = (ps_stream p, vec, fin)"
    and some: "vec \<noteq> [] \<or> (fin \<and> \<not> qs_fin_offered (ps_stream p))" and cap: "cap > 0"
  shows "qa_inv (on_stream_data_written sid (take n (concat vec))
           (fin \<and> length (take n (concat vec)) = sum_list (map length vec)) a)"
proof -
  have g: "qa_get a sid = Some p" "ps_in_table p" using p by (simp_all add: qa_find_get)
  note ok = qa_invD(3) [OF inv g(1)]
  then have q: "qs_plain (ps_stream p)" by (simp add: qa_stream_ok_def)
  have "qs_wants (ps_stream p)" using qs_has_pending_wants [OF q cap] t some by (auto simp: qs_has_pending_def)
  then have "sid \<notin> set (qa_accept_queue a)" using ok qs_waiting_wants by (auto simp: qa_stream_ok_def)
  then have nq: "sid \<notin> set (qa_accept_queue a)" .
  have "qa_inv (schedule False sid (on_plain (\<lambda>s. qs_data_written (length (take n (concat vec)))
      (fin \<and> length (take n (concat vec)) = sum_list (map length vec)) (s\<lparr>qs_wire := qs_wire s @ take n (concat vec)\<rparr>))
      sid (unschedule_front sid a)))"
    by (rule qa_inv_resend [OF inv wq g nq], rule qs_plain_written [OF q t some]) (use qs_written_events in blast)
  with p show ?thesis by (simp add: on_stream_data_written_def)
qed

lemma qa_inv_blocked:
  assumes "qa_inv a" "qa_write_queue a = sid # rest \<or> sid \<notin> set (qa_write_queue a)"
  shows "qa_inv (on_stream_blocked sid a)"
proof (cases "qa_find_stream sid a")
  case (Some p)
  then have g: "qa_get a sid = Some p" "ps_in_table p" by (simp_all add: qa_find_get)
  let ?p = "p\<lparr>ps_blocked := True\<rparr>"
  have "qa_inv (qa_put sid ?p a)"
    by (rule qa_inv_put [OF assms(1)]) (use g qa_invD(3) [OF assms(1) g(1)] in \<open>auto simp: qa_stream_ok_def\<close>)
  from qa_inv_unschedule [OF this, of sid ?p rest] assms(2) g(2)
  have "qa_inv_but {sid} (unschedule_front sid (qa_put sid ?p a))" by simp
  then have "qa_inv (unschedule_front sid (qa_put sid ?p a))"
    by (rule qa_inv_settle) (simp add: unschedule_get)
  with Some show ?thesis by (simp add: on_stream_blocked_def)
qed (use assms in \<open>simp add: on_stream_blocked_def\<close>)

lemma qa_inv_shut_wr:
  assumes inv: "qa_inv a" and wq: "qa_write_queue a = sid # rest"
  shows "qa_inv (on_stream_shut_wr sid a)" and "qa_find_stream sid a \<noteq> None \<Longrightarrow> qa_write_queue (on_stream_shut_wr sid a) = rest"
proof -
  show "qa_inv (on_stream_shut_wr sid a)"
  proof (cases "qa_find_stream sid a")
    case (Some p)
    then have g: "qa_get a sid = Some p" "ps_in_table p" by (simp_all add: qa_find_get)
    note ok = qa_invD(3) [OF inv g(1)]
    have "qa_inv (on_plain (qs_abort_writing Connection_reset) sid (unschedule_front sid a))"
    proof (rule qa_inv_on_plain [OF qa_inv_unschedule [OF inv g disjI1 [OF wq]]])
      show "qa_get (unschedule_front sid a) sid = Some (p\<lparr>ps_scheduled := False\<rparr>)" by (simp add: unschedule_get [OF g(1)])
      show "qs_plain (qs_abort_writing Connection_reset (ps_stream (p\<lparr>ps_scheduled := False\<rparr>)))"
        using qs_exec_plain [of "ps_stream p" Op_abort_writing] ok by (simp add: qa_stream_ok_def)
      show "qs_waiting (qs_abort_writing Connection_reset (ps_stream (p\<lparr>ps_scheduled := False\<rparr>)))"
        if "sid \<in> set (qa_accept_queue (unschedule_front sid a))"
        using qs_net_op_waiting [of "ps_stream p" Op_abort_writing] ok that by (simp add: qa_stream_ok_def)
    qed (use g(2) qs_wants_write_ops(2) in auto)
    with Some show ?thesis by (simp add: on_stream_shut_wr_def)
  qed (use inv in \<open>simp add: on_stream_shut_wr_def\<close>)
  assume "qa_find_stream sid a \<noteq> None"
  then obtain p where p: "qa_find_stream sid a = Some p" by auto
  then have g: "qa_get a sid = Some p" by (simp add: qa_find_get)
  have "new_events (ps_stream p) (qs_abort_writing Connection_reset (ps_stream p)) \<subseteq> {Write_done Connection_reset}"
    by (auto simp: new_events_def qs_abort_writing_def write_frames)
  then have "On_writable \<notin> new_events (ps_stream p) (qs_abort_writing Connection_reset (ps_stream p))"
    "Erase_stream \<notin> new_events (ps_stream p) (qs_abort_writing Connection_reset (ps_stream p))" by auto
  then show "qa_write_queue (on_stream_shut_wr sid a) = rest"
    using p g unschedule_front_queue [OF wq] by (simp add: on_stream_shut_wr_def on_plain_def unschedule_get Let_def)
qed

lemma qa_inv_data_taken:
  assumes "qa_inv a" "offer = None \<or> qa_offer_ok 16 a offer"
  shows "qa_inv (data_taken offer n a)"
proof (cases "offer = None \<or> n = None")
  case False
  then obtain sid vec fin k where "offer = Some (sid, vec, fin)" "n = Some k" by (metis not_None_eq prod_cases3)
  with assms qa_inv_written [OF assms(1), of sid _ _ 16 vec fin k] show ?thesis
    by (auto simp: data_taken_def qa_offer_ok_def Let_def)
qed (use assms(1) in \<open>auto simp: data_taken_def split: option.splits\<close>)

text \<open>A turn of \<open>write_pkt\<close>: what is offered comes from the front of the queue, and a refusal takes it off
  the queue.\<close>

lemma qa_offered:
  assumes "qa_inv a" "(if wt_ready t \<and> wt_max_data_left t then next_stream_data 16 a else (a, None)) = (b, offer)"
  shows "qa_inv b" "offer = None \<or> qa_offer_ok 16 b offer"
  using assms qa_next [OF assms(1), of 16] by (auto split: if_splits)

lemma qa_refused:
  assumes "qa_inv a" "qa_offer_ok 16 a (Some (sid, vec, fin))"
  shows "qa_inv (on_stream_blocked sid a)" "qa_inv (on_stream_shut_wr sid a)"
    "qa_inv (on_stream_blocked sid (on_stream_shut_wr sid a))"
    "length (qa_write_queue (on_stream_blocked sid a)) < length (qa_write_queue a)"
    "length (qa_write_queue (on_stream_shut_wr sid a)) < length (qa_write_queue a)"
    "length (qa_write_queue (on_stream_blocked sid (on_stream_shut_wr sid a))) < length (qa_write_queue a)"
proof -
  obtain p rest where r: "qa_write_queue a = sid # rest" "qa_find_stream sid a = Some p"
    using assms(2) by (auto simp: qa_offer_ok_def)
  note s = qa_inv_shut_wr [OF assms(1) r(1)]
  have w: "qa_write_queue (on_stream_shut_wr sid a) = rest" using s(2) r(2) by simp
  have n: "sid \<notin> set rest" using qa_invD(2) [OF assms(1)] r(1) by (simp add: qa_queues_ok_def)
  show "qa_inv (on_stream_blocked sid a)" by (rule qa_inv_blocked [OF assms(1) disjI1 [OF r(1)]])
  show "qa_inv (on_stream_shut_wr sid a)" by (rule s(1))
  show "qa_inv (on_stream_blocked sid (on_stream_shut_wr sid a))" by (rule qa_inv_blocked [OF s(1)]) (use w n in simp)
  show "length (qa_write_queue (on_stream_blocked sid a)) < length (qa_write_queue a)"
    using r unschedule_front_queue [of "qa_put sid (p\<lparr>ps_blocked := True\<rparr>) a" sid rest] by (simp add: on_stream_blocked_def)
  show "length (qa_write_queue (on_stream_shut_wr sid a)) < length (qa_write_queue a)" using w r(1) by simp
  have "qa_write_queue (on_stream_blocked sid b) = rest" if "qa_write_queue b = rest" for b
    using that n by (cases rest) (auto simp: on_stream_blocked_def unschedule_front_def Let_def split: option.splits)
  from this [OF w] show "length (qa_write_queue (on_stream_blocked sid (on_stream_shut_wr sid a))) < length (qa_write_queue a)"
    using r(1) by simp
qed

lemma qa_inv_write_pkt: "qa_inv a \<Longrightarrow> qa_inv (fst (write_pkt ts shut a))"
proof (induction ts arbitrary: shut a)
  case (Cons t ts)
  obtain b offer where o: "(if wt_ready t \<and> wt_max_data_left t then next_stream_data 16 a else (a, None)) = (b, offer)"
    by fastforce
  note b = qa_offered [OF Cons.prems o]
  note taken = qa_inv_data_taken [OF b]
  have refused: "qa_inv (case map_option fst offer of None \<Rightarrow> b | Some i \<Rightarrow> on_stream_blocked i b)"
    "qa_inv (case map_option fst offer of None \<Rightarrow> b | Some i \<Rightarrow> on_stream_shut_wr i b)"
    "\<And>i. map_option fst offer = Some i \<Longrightarrow> qa_inv (on_stream_blocked i (on_stream_shut_wr i b))"
    using b qa_refused [OF b(1)] by (cases offer; force)+
  show ?case
  proof (cases "wt_closed t")
    case False
    then show ?thesis
      using Cons.IH refused taken b(1) o by (cases "wt_answer t") (auto simp: Let_def split: option.splits)
  qed (use Cons.prems in simp)
qed simp

end
