(* ===== verification/Quic_App_Machine.thy ===== *)
theory Quic_App_Machine
  imports Quic_App_Inv
begin

text \<open>
  The application of plain streams as a machine: what ngtcp2, the session and the users of the
  connection may do, in any order. \<open>remote\<close> is what ngtcp2 says of a number: whether the peer opens the
  streams of that kind. What is required of a step is what ngtcp2 promises: it speaks of a stream the
  session has let go of no more, and delivers nothing behind the end of a stream.
\<close>

section \<open>Steps\<close>

datatype app_step =
    Ao_stream_open int
  | Ao_recv int bytes bool
  | Ao_acked int nat nat
  | Ao_close int bool
  | Ao_reset int
  | Ao_stop_sending int
  | Ao_recv_stop_sending int
  | Ao_extend int
  | Ao_accept
  | Ao_cancel_accept
  | Ao_open bool open_answer
  | Ao_use int quic_op
  | Ao_write_pkt "write_turn list"
  | Ao_closed
  | Ao_fail error_code

fun qa_exec :: "(int \<Rightarrow> bool) \<Rightarrow> app_step \<Rightarrow> quic_app \<Rightarrow> quic_app" where
  "qa_exec remote (Ao_stream_open sid) a = open_remote_stream (remote sid) sid a"
| "qa_exec remote (Ao_recv sid data fin) a = recv_stream_data (remote sid) sid data fin a"
| "qa_exec remote (Ao_acked sid offset len) a = acked_stream_data sid offset len a"
| "qa_exec remote (Ao_close sid reset) a = stream_close (remote sid) sid reset a"
| "qa_exec remote (Ao_reset sid) a = stream_reset (remote sid) sid a"
| "qa_exec remote (Ao_stop_sending sid) a = stream_stop_sending sid a"
| "qa_exec remote (Ao_recv_stop_sending sid) a = recv_stop_sending (remote sid) sid a"
| "qa_exec remote (Ao_extend sid) a = extend_max_stream_data sid a"
| "qa_exec remote Ao_accept a = async_accept_stream a"
| "qa_exec remote Ao_cancel_accept a = cancel_accept a"
| "qa_exec remote (Ao_open ready rv) a = open_stream ready rv a"
| "qa_exec remote (Ao_use sid x) a = on_plain (qs_exec x) sid a"
| "qa_exec remote (Ao_write_pkt ts) a = fst (write_pkt ts None a)"
| "qa_exec remote Ao_closed a = on_closed a"
| "qa_exec remote (Ao_fail ec) a = fail_streams ec a"

definition qa_body_open :: "int \<Rightarrow> quic_app \<Rightarrow> bool" where
  "qa_body_open sid a = (case qa_find_stream sid a of Some p \<Rightarrow> \<not> qs_eof_received (ps_stream p) | None \<Rightarrow> True)"

fun qa_enabled :: "app_step \<Rightarrow> quic_app \<Rightarrow> bool" where
  "qa_enabled (Ao_stream_open sid) a = qa_known sid a"
| "qa_enabled (Ao_recv sid data fin) a = (qa_known sid a \<and> qa_body_open sid a)"
| "qa_enabled (Ao_reset sid) a = qa_known sid a"
| "qa_enabled (Ao_recv_stop_sending sid) a = qa_known sid a"
| "qa_enabled (Ao_open ready (Opened sid)) a = qa_fresh sid a"
| "qa_enabled (Ao_use sid x) a =
     (case qa_find_stream sid a of
        Some p \<Rightarrow> app_op x \<and> sid \<notin> set (qa_accept_queue a) \<and> qs_enabled x (ps_stream p)
      | None \<Rightarrow> False)"
| "qa_enabled (Ao_fail ec) a = (ec \<noteq> Eof)"
| "qa_enabled _ a = True"

section \<open>The door: what only accepting and closing change\<close>

definition qa_door :: "(app_event \<Rightarrow> bool) \<Rightarrow> quic_app \<Rightarrow> int list \<times> bool \<times> bool \<times> app_event list" where
  "qa_door f a = (qa_accept_queue a, qa_accept_handler a, qa_closed_ec a, filter f (qa_events a))"

lemma qa_door_upd [simp]:
  "qa_door f (qa_put sid p a) = qa_door f a" "qa_door f (a\<lparr>qa_write_queue := q\<rparr>) = qa_door f a"
  "qa_door f (unschedule_front sid a) = qa_door f a" "qa_door f (qa_release sid a) = qa_door f a"
  "qa_door f (qa_erase_stream sid a) = qa_door f a" "qa_door f (qa_create_stream sid a) = qa_door f a"
  "qa_door f (on_stream_blocked sid a) = qa_door f a"
  by (simp_all add: qa_door_def qa_put_def unschedule_front_def qa_release_def qa_erase_stream_def qa_create_stream_def
      on_stream_blocked_def Let_def split: option.splits)

lemma qa_door_wake:
  assumes "\<not> f Ae_wake_write"
  shows "qa_door f (schedule wake sid a) = qa_door f a"
    and "qa_door f (on_plain g sid a) = qa_door f a"
    and "qa_door f (on_found g sid a) = qa_door f a"
    and "qa_door f (extend_max_stream_data sid a) = qa_door f a"
    and "qa_door f (on_stream_data_written sid data fin a) = qa_door f a"
    and "qa_door f (on_stream_shut_wr sid a) = qa_door f a"
proof -
  show s: "qa_door f (schedule wake sid a) = qa_door f a" for wake a
    using assms by (simp add: qa_door_def schedule_def Let_def split: option.splits)
  show p: "qa_door f (on_plain g sid a) = qa_door f a" for g a
    using s by (simp add: on_plain_def Let_def split: option.splits)
  show "qa_door f (on_found g sid a) = qa_door f a" "qa_door f (on_stream_shut_wr sid a) = qa_door f a"
    "qa_door f (on_stream_data_written sid data fin a) = qa_door f a"
    using p s by (simp_all add: on_found_def on_stream_shut_wr_def on_stream_data_written_def)
  show "qa_door f (extend_max_stream_data sid a) = qa_door f a"
    using s by (simp add: extend_max_stream_data_def split: option.splits)
qed

lemma qa_door_next: "qa_door f (fst (next_stream_data cap a)) = qa_door f a"
proof (induction cap a rule: next_stream_data.induct)
  case (1 cap a)
  then show ?case
    by (subst next_stream_data.simps) (auto simp: Let_def split: list.splits option.splits prod.splits)
qed

lemma qa_door_write_pkt:
  assumes "\<not> f Ae_wake_write"
  shows "qa_door f (fst (write_pkt ts shut a)) = qa_door f a"
proof (induction ts arbitrary: shut a)
  case (Cons t ts)
  note simps = Cons.IH qa_door_wake [of f, OF assms] qa_door_next
  obtain b offer where o: "(if wt_ready t \<and> wt_max_data_left t then next_stream_data 16 a else (a, None)) = (b, offer)"
    by fastforce
  then have "qa_door f b = qa_door f a" using qa_door_next [of f 16 a] by (auto split: if_splits)
  with o show ?case
    by (cases "wt_answer t") (auto simp: simps data_taken_def Let_def split: option.splits)
qed simp

section \<open>Closing\<close>

lemma qa_release_all:
  assumes "distinct_keys (qa_store a)" "qa_queues_ok a" "qa_accept_queue a = []"
    and "\<And>i q. qa_get a i = Some q \<Longrightarrow> ps_in_table q \<or> i \<notin> set L \<Longrightarrow> qa_stream_ok {} a i q"
  shows "qa_inv (foldl (\<lambda>b sid. qa_release sid b) a L)"
  using assms
proof (induction L arbitrary: a)
  case Nil
  then show ?case by (simp add: qa_inv_but_def)
next
  case (Cons x L)
  show ?case
  proof (cases "\<exists>p. qa_get a x = Some p \<and> \<not> ps_in_table p")
    case False
    then have "qa_release x a = a" using Cons.prems(3) by (auto simp: qa_release_def split: option.splits)
    moreover have "qa_stream_ok {} a i q" if "qa_get a i = Some q" "ps_in_table q \<or> i \<notin> set L" for i q
      using Cons.prems(4) [OF that(1)] that False by auto
    ultimately show ?thesis using Cons.IH [OF Cons.prems(1-3)] by simp
  next
    case True
    then obtain p where p: "qa_get a x = Some p" "\<not> ps_in_table p" by auto
    define b where "b = a\<lparr>qa_store := AList.delete x (qa_store a),
        qa_gone := qa_gone a @ [(x, p\<lparr>ps_stream := qs_detach_all (ps_stream p)\<rparr>)]\<rparr>"
    have e: "qa_release x a = b" using p Cons.prems(3) by (simp add: qa_release_def b_def)
    have g: "qa_get b = (qa_get a)(x := None)" by (simp add: b_def delete_conv')
    have "qa_inv (foldl (\<lambda>b sid. qa_release sid b) b L)"
    proof (rule Cons.IH)
      show "distinct_keys (qa_store b)" using Cons.prems(1) by (simp add: b_def tbl.ok_del)
      show "qa_queues_ok b" using Cons.prems(2,3) g by (auto simp: qa_queues_ok_def qa_gone_ids_def b_def)
      show "qa_accept_queue b = []" using Cons.prems(3) by (simp add: b_def)
      show "qa_stream_ok {} b i q" if "qa_get b i = Some q" "ps_in_table q \<or> i \<notin> set L" for i q
        using Cons.prems(4) [of i q] that unfolding g by (auto simp: b_def qa_stream_ok_def split: if_splits)
    qed
    with e show ?thesis by simp
  qed
qed

lemma qa_door_release_all: "qa_door f (foldl (\<lambda>b sid. qa_release sid b) a L) = qa_door f a"
  by (induction L arbitrary: a) simp_all

lemma qa_inv_on_closed:
  assumes "qa_inv a"
  shows "qa_inv (on_closed a)"
proof (cases "qa_closed_ec a")
  case False
  define b where "b = a\<lparr>qa_closed_ec := True, qa_accept_queue := [], qa_write_queue := []\<rparr>"
  define c where "c = foldl (\<lambda>b sid. qa_release sid b) (b\<lparr>qa_accept_handler := False\<rparr>) (qa_accept_queue a)"
  have i: "qa_inv c" unfolding c_def
  proof (rule qa_release_all)
    show "distinct_keys (qa_store (b\<lparr>qa_accept_handler := False\<rparr>))" using qa_invD(1) [OF assms] by (simp add: b_def)
    show "qa_queues_ok (b\<lparr>qa_accept_handler := False\<rparr>)" by (simp add: b_def qa_queues_ok_def)
    show "qa_accept_queue (b\<lparr>qa_accept_handler := False\<rparr>) = []" by (simp add: b_def)
    show "qa_stream_ok {} (b\<lparr>qa_accept_handler := False\<rparr>) i q"
      if "qa_get (b\<lparr>qa_accept_handler := False\<rparr>) i = Some q" "ps_in_table q \<or> i \<notin> set (qa_accept_queue a)" for i q
      using qa_invD(3) [OF assms, of i q] that by (auto simp: b_def qa_stream_ok_def)
  qed
  have h: "(foldl (\<lambda>b sid. qa_release sid b) x L)\<lparr>qa_accept_handler := h\<rparr> =
      foldl (\<lambda>b sid. qa_release sid b) (x\<lparr>qa_accept_handler := h\<rparr>) L" for x h L
  proof (induction L arbitrary: x)
    case (Cons y L)
    have "(qa_release y x)\<lparr>qa_accept_handler := h\<rparr> = qa_release y (x\<lparr>qa_accept_handler := h\<rparr>)"
      by (simp add: qa_release_def split: option.splits)
    with Cons show ?case by simp
  qed simp
  let ?d = "foldl (\<lambda>b sid. qa_release sid b) b (qa_accept_queue a)"
  have c: "c = ?d\<lparr>qa_accept_handler := False\<rparr>" by (simp add: c_def h)
  have "on_closed a = (if qa_accept_handler ?d then qa_emit (Ae_accept_failed Connection_aborted) c else ?d)"
    using False by (simp add: on_closed_def b_def c Let_def)
  moreover have "?d = c" if "\<not> qa_accept_handler ?d" using that by (cases ?d) (simp add: c)
  ultimately show ?thesis using i by auto
qed (use assms in \<open>simp add: on_closed_def\<close>)

lemma on_plain_other: "i \<noteq> sid \<Longrightarrow> qa_get (on_plain f sid a) i = qa_get a i"
  by (simp add: on_plain_def schedule_def qa_erase_stream_def qa_release_def delete_conv' Let_def split: option.splits)

lemma qs_exec_fun:
  "qs_fail ec = qs_exec (Op_fail ec)" "qs_on_data_chunk d = qs_exec (Op_data d)" "qs_on_eof = qs_exec Op_eof"
  "qs_abort_reading = qs_exec Op_abort_reading" "qs_abort_writing Connection_reset = qs_exec Op_abort_writing"
  "qs_on_acked e = qs_exec (Op_acked e)"
  by (simp_all add: fun_eq_iff)

lemma qa_inv_fail_all:
  assumes "qa_inv a" "distinct L" "\<And>i. i \<in> set L \<Longrightarrow> qa_find_stream i a \<noteq> None" "ec \<noteq> Eof"
  shows "qa_inv (foldl (\<lambda>b sid. on_plain (qs_fail ec) sid b) a L)"
  using assms
proof (induction L arbitrary: a)
  case (Cons x L)
  obtain p where p: "qa_find_stream x a = Some p" using Cons.prems(3) [of x] by auto
  have "qa_inv (on_plain (qs_exec (Op_fail ec)) x a)" using qa_inv_exec [OF Cons.prems(1) p] Cons.prems(4) by simp
  moreover have "qa_find_stream i (on_plain (qs_fail ec) x a) \<noteq> None" if "i \<in> set L" for i
  proof -
    have "i \<noteq> x" using that Cons.prems(2) by auto
    from on_plain_other [OF this] Cons.prems(3) [of i] that show ?thesis by (simp add: qa_find_stream_def)
  qed
  ultimately have "qa_inv (foldl (\<lambda>b sid. on_plain (qs_fail ec) sid b) (on_plain (qs_fail ec) x a) L)"
    using Cons.prems(2,4) by (intro Cons.IH) (simp_all only: qs_exec_fun distinct.simps not_False_eq_True)
  then show ?case by simp
qed simp

lemma qa_inv_fail_streams:
  assumes "qa_inv a" "ec \<noteq> Eof"
  shows "qa_inv (fail_streams ec a)"
proof -
  have i: "qa_inv (on_closed a)" by (rule qa_inv_on_closed [OF assms(1)])
  let ?t = "qa_store (on_closed a)"
  have d: "distinct (map fst ?t)" using qa_invD(1) [OF i] by (simp add: distinct_keys_def)
  have "distinct (map fst (filter (\<lambda>(sid, p). ps_in_table p) ?t))" using d by (rule distinct_map_filter)
  moreover have "qa_find_stream x (on_closed a) \<noteq> None" if "x \<in> set (map fst (filter (\<lambda>(sid, p). ps_in_table p) ?t))" for x
    using that map_of_is_SomeI [OF d] by (fastforce simp: qa_find_stream_def)
  ultimately show ?thesis unfolding fail_streams_def Let_def by (intro qa_inv_fail_all [OF i _ _ assms(2)])
qed

section \<open>Every step keeps the invariant\<close>

text \<open>What is known of a stream that was opened just now.\<close>

lemma qa_opened:
  assumes "qa_known sid a" "qa_find_stream sid (open_remote_stream remote sid a) = Some p"
  shows "qa_find_stream sid a = Some p \<or> qa_find_stream sid a = None \<and> \<not> qs_eof_received (ps_stream p)"
proof (cases "qa_find_stream sid a")
  case (Some q)
  then show ?thesis using assms(2) by (simp add: open_remote_stream_def)
next
  case None
  have new: "\<not> qs_eof_received (ps_stream (ps_new m))" for m by (simp add: ps_new_def qs_init_def)
  have "\<not> qs_eof_received (ps_stream q)" if "qa_get (deliver_accepted b) sid = Some q"
    "\<And>q. qa_get b sid = Some q \<Longrightarrow> \<not> qs_eof_received (ps_stream q)" for b q
    using that
    by (auto simp: deliver_accepted_def hand_out_def qa_release_def delete_conv' qs_attach_def
        split: list.splits option.splits if_splits)
  note deliver = this
  have "remote \<and> \<not> qa_closed_ec a" using None assms(2) by (auto simp: open_remote_stream_def split: if_splits)
  with None assms(2) have "qa_get (deliver_accepted (qa_emit (Ae_remote sid)
      ((qa_put sid (ps_new (qa_mode a)) a)\<lparr>qa_accept_queue := qa_accept_queue a @ [sid]\<rparr>))) sid = Some p"
    by (simp add: open_remote_stream_def qa_create_stream_def qa_find_get Let_def)
  from deliver [OF this] new None show ?thesis by auto
qed

lemma on_plain_get:
  assumes "qa_get a sid = Some p" "qa_get (on_plain f sid a) sid = Some q"
  shows "ps_stream q = f (ps_stream p)"
    and "ps_in_table p \<Longrightarrow> ps_in_table q \<or>
      sid \<in> set (qa_accept_queue a) \<and> Erase_stream \<in> new_events (ps_stream p) (f (ps_stream p))"
  using assms
  by (auto simp: on_plain_def schedule_def qa_erase_stream_def qa_release_def delete_conv' Let_def
      split: option.splits if_splits)

lemma qa_inv_recv:
  assumes "qa_inv a" "qa_known sid a" "qa_body_open sid a"
  shows "qa_inv (recv_stream_data remote sid data fin a)"
proof -
  let ?e = "qa_emit (Ae_extend_max_offset (length data)) a"
  define b where "b = open_remote_stream remote sid ?e"
  have k: "qa_known sid ?e" "qa_find_stream sid ?e = qa_find_stream sid a"
    using assms(2) by (simp_all add: qa_known_def qa_fresh_def qa_find_stream_def qa_gone_ids_def)
  have i: "qa_inv b" unfolding b_def by (rule qa_inv_open_remote) (use assms(1) k in simp_all)
  show ?thesis
  proof (cases "\<exists>p. qa_find_stream sid b = Some p \<and> \<not> qs_read_aborted (ps_stream p)")
    case False
    with i show ?thesis by (auto simp: recv_stream_data_def b_def [symmetric] Let_def split: option.splits)
  next
    case True
    then obtain p where p: "qa_find_stream sid b = Some p" "\<not> qs_read_aborted (ps_stream p)" by auto
    have o: "\<not> qs_eof_received (ps_stream p)"
      using qa_opened [OF k(1), of remote p] p(1) k(2) assms(3) by (auto simp: b_def qa_body_open_def)
    define c where "c = on_plain (qs_on_data_chunk data) sid b"
    have c: "qa_inv c" unfolding c_def qs_exec_fun by (rule qa_inv_exec [OF i p(1)]) (use p(2) o in simp_all)
    have "qa_inv (on_plain qs_on_eof sid c)"
    proof (cases "qa_get c sid")
      case None
      with c show ?thesis by (simp add: on_plain_def)
    next
      case (Some q)
      have g: "qa_get b sid = Some p" "ps_in_table p" using p(1) by (simp_all add: qa_find_get)
      note q = on_plain_get [OF g(1), of "qs_on_data_chunk data" q, folded c_def, OF Some]
      have "Erase_stream \<notin> new_events (ps_stream p) (qs_on_data_chunk data (ps_stream p))" if "sid \<in> set (qa_accept_queue b)"
        using qa_invD(3) [OF i g(1)] that
        by (simp add: qa_stream_ok_def qs_waiting_def qs_on_data_chunk_def new_events_def Let_def)
      with q(2) [OF g(2)] Some have f: "qa_find_stream sid c = Some q" by (auto simp: qa_find_get)
      have "\<not> qs_eof_received (ps_stream q)" "\<not> qs_read_aborted (ps_stream q)"
        using o p(2) by (simp_all add: q(1) qs_on_data_chunk_def Let_def)
      then show ?thesis unfolding qs_exec_fun by (intro qa_inv_exec [OF c f]) simp_all
    qed
    with p c show ?thesis by (simp add: recv_stream_data_def b_def [symmetric] c_def [symmetric] Let_def)
  qed
qed

lemma qa_inv_accept:
  assumes "qa_inv a"
  shows "qa_inv (async_accept_stream a)" and "qa_inv (cancel_accept a)"
proof -
  have h: "a\<lparr>qa_accept_queue := q, qa_accept_handler := qa_accept_handler a\<rparr> = a\<lparr>qa_accept_queue := q\<rparr>" for q by simp
  show "qa_inv (async_accept_stream a)"
  proof (cases "qa_accept_queue a")
    case Nil
    with assms show ?thesis
      by (auto simp: async_accept_stream_def qa_inv_but_def qa_queues_ok_def qa_stream_ok_def qa_gone_ids_def)
  next
    case (Cons sid rest)
    with qa_inv_hand_out [OF assms Cons, of "qa_accept_handler a"] assms h show ?thesis
      by (simp add: async_accept_stream_def)
  qed
  show "qa_inv (cancel_accept a)"
    using assms by (auto simp: cancel_accept_def qa_inv_but_def qa_queues_ok_def qa_stream_ok_def qa_gone_ids_def)
qed

lemma qa_put_twice [simp]: "qa_put sid q (qa_emit e (qa_put sid p a)) = qa_emit e (qa_put sid q a)"
proof -
  have "AList.update sid q (AList.update sid p t) = AList.update sid q t" for t by (induction t) auto
  then show ?thesis by (simp add: qa_put_def qa_emit_def)
qed

lemma qa_inv_open:
  assumes "qa_inv a" "qa_enabled (Ao_open ready rv) a"
  shows "qa_inv (open_stream ready rv a)"
proof (cases rv)
  case (Opened sid)
  then have f: "qa_fresh sid a" using assms(2) by simp
  then have "qa_find_stream sid a = None" by (simp add: qa_fresh_def qa_find_stream_def)
  then have "open_stream ready rv a = (if qa_closed_ec a \<or> \<not> ready then qa_emit (Ae_open_failed Connection_aborted) a
      else qa_emit (Ae_opened sid) (qa_put sid ((ps_new (qa_mode a))\<lparr>ps_stream := qs_attach (ps_stream (ps_new (qa_mode a)))\<rparr>) a))"
    using Opened by (simp add: open_stream_def qa_create_stream_def Let_def)
  with qa_inv_create(1) [OF assms(1) f, of "qa_mode a"] assms(1) show ?thesis by simp
qed (use assms(1) in \<open>auto simp: open_stream_def\<close>)

lemma qa_inv_extend:
  assumes "qa_inv a"
  shows "qa_inv (extend_max_stream_data sid a)"
proof (cases "qa_find_stream sid a")
  case (Some p)
  then have g: "qa_get a sid = Some p" "ps_in_table p" by (simp_all add: qa_find_get)
  have "qa_inv_but {sid} (qa_put sid (p\<lparr>ps_blocked := False\<rparr>) a)"
    by (rule qa_inv_put [OF qa_inv_weaken [OF assms]]) (use g qa_invD(3) [OF assms g(1)] in \<open>auto simp: qa_stream_ok_def\<close>)
  from qa_inv_schedule [OF this, of "p\<lparr>ps_blocked := False\<rparr>"] g(2) Some show ?thesis
    by (simp add: extend_max_stream_data_def)
qed (use assms in \<open>simp add: extend_max_stream_data_def\<close>)

lemma qa_exec_inv:
  assumes "qa_inv a" "qa_enabled x a"
  shows "qa_inv (qa_exec remote x a)"
proof (cases x)
  case (Ao_use sid y)
  with assms qa_inv_exec [OF assms(1)] show ?thesis by (auto split: option.splits)
next
  case (Ao_recv sid data fin)
  with assms qa_inv_recv show ?thesis by simp
next
  case (Ao_open ready rv)
  with assms qa_inv_open show ?thesis by simp
qed (use assms in \<open>auto simp: qa_inv_open_remote qa_inv_accept qa_inv_extend qa_inv_write_pkt qa_inv_on_closed qa_inv_fail_streams
    acked_stream_data_def stream_close_def stream_reset_def stream_stop_sending_def recv_stop_sending_def Let_def
    qs_exec_fun simp del: qs_exec.simps intro!: qa_inv_found\<close>)

interpretation qa: machine "qa_exec remote" qa_enabled qa_inv
  for remote :: "int \<Rightarrow> bool"
  by unfold_locales (rule qa_exec_inv)

section \<open>Accepting in order\<close>

fun remote_id :: "app_event \<Rightarrow> int list" where
  "remote_id (Ae_remote sid) = [sid]"
| "remote_id _ = []"

fun accepted_id :: "app_event \<Rightarrow> int list" where
  "accepted_id (Ae_accepted sid) = [sid]"
| "accepted_id _ = []"

definition qa_remotes :: "quic_app \<Rightarrow> int list" where
  "qa_remotes a = concat (map remote_id (qa_events a))"

definition qa_accepted :: "quic_app \<Rightarrow> int list" where
  "qa_accepted a = concat (map accepted_id (qa_events a))"

definition qa_fifo :: "quic_app \<Rightarrow> bool" where
  "qa_fifo a = (if qa_closed_ec a then prefix (qa_accepted a) (qa_remotes a)
                else qa_remotes a = qa_accepted a @ qa_accept_queue a)"

text \<open>What the door shows decides.\<close>

fun door_event :: "app_event \<Rightarrow> bool" where
  "door_event (Ae_remote sid) = True"
| "door_event (Ae_accepted sid) = True"
| "door_event (Ae_accept_failed ec) = True"
| "door_event _ = False"

fun accept_answer :: "app_event \<Rightarrow> bool" where
  "accept_answer (Ae_accepted sid) = True"
| "accept_answer (Ae_accept_failed ec) = True"
| "accept_answer _ = False"

definition qa_answers :: "quic_app \<Rightarrow> nat" where
  "qa_answers a = length (filter accept_answer (qa_events a))"

abbreviation qa_front :: "quic_app \<Rightarrow> int list \<times> bool \<times> bool \<times> app_event list" where
  "qa_front \<equiv> qa_door door_event"

lemma door_filter:
  "concat (map remote_id (filter door_event es)) = concat (map remote_id es)"
  "concat (map accepted_id (filter door_event es)) = concat (map accepted_id es)"
  "filter accept_answer (filter door_event es) = filter accept_answer es"
proof (induction es)
  case (Cons e es)
  case 1 from Cons show ?case by (cases e) auto
  case 2 from Cons show ?case by (cases e) auto
  case 3 from Cons show ?case by (cases e) auto
qed simp_all

fun fifo_at :: "int list \<times> bool \<times> bool \<times> app_event list \<Rightarrow> bool" where
  "fifo_at (q, h, c, es) =
     (if c then prefix (concat (map accepted_id es)) (concat (map remote_id es))
      else concat (map remote_id es) = concat (map accepted_id es) @ q)"

fun accepts_at :: "int list \<times> bool \<times> bool \<times> app_event list \<Rightarrow> nat" where
  "accepts_at (q, h, c, es) = length (filter accept_answer es) + of_bool h"

lemma qa_fifo_at: "qa_fifo a = fifo_at (qa_front a)"
  by (simp add: qa_fifo_def qa_door_def qa_remotes_def qa_accepted_def door_filter)

lemma qa_accepts_at: "qa_answers a + of_bool (qa_accept_handler a) = accepts_at (qa_front a)"
  by (simp add: qa_answers_def qa_door_def door_filter del: filter_filter)

lemma hand_out_front: "qa_get a sid \<noteq> None \<Longrightarrow> qa_front (hand_out sid a) = qa_front (qa_emit (Ae_accepted sid) a)"
  by (auto simp: hand_out_def)

lemma qa_front_emit:
  "qa_front (qa_emit e a) = (qa_accept_queue a, qa_accept_handler a, qa_closed_ec a,
     filter door_event (qa_events a) @ (if door_event e then [e] else []))"
  by (simp add: qa_door_def)

lemma open_remote_front:
  assumes "qa_inv a" "qa_known sid a"
  obtains "qa_front (open_remote_stream remote sid a) = qa_front a"
  | "qa_accept_handler a" "qa_accept_queue a = []" "\<not> qa_closed_ec a"
    "qa_front (open_remote_stream remote sid a) =
       ([], False, False, filter door_event (qa_events a) @ [Ae_remote sid, Ae_accepted sid])"
  | "\<not> qa_accept_handler a" "\<not> qa_closed_ec a"
    "qa_front (open_remote_stream remote sid a) =
       (qa_accept_queue a @ [sid], False, False, filter door_event (qa_events a) @ [Ae_remote sid])"
proof (cases "qa_find_stream sid a \<noteq> None \<or> \<not> remote \<or> qa_closed_ec a")
  case True
  then have "open_remote_stream remote sid a = a" by (auto simp: open_remote_stream_def)
  with that(1) show thesis by simp
next
  case False
  let ?b = "qa_emit (Ae_remote sid) ((qa_put sid (ps_new (qa_mode a)) a)\<lparr>qa_accept_queue := qa_accept_queue a @ [sid]\<rparr>)"
  have e: "open_remote_stream remote sid a = deliver_accepted ?b"
    using False by (simp add: open_remote_stream_def qa_create_stream_def Let_def)
  show thesis
  proof (cases "qa_accept_handler a")
    case True
    then have "qa_accept_queue a = []" using qa_invD(2) [OF assms(1)] by (simp add: qa_queues_ok_def)
    moreover from this True have "qa_front (deliver_accepted ?b) =
        ([], False, False, filter door_event (qa_events a) @ [Ae_remote sid, Ae_accepted sid])"
      using False by (simp add: deliver_accepted_def hand_out_front qa_front_emit)
    ultimately show thesis using that(2) True False e by auto
  next
    case no: False
    then have "qa_front (deliver_accepted ?b) = (qa_accept_queue a @ [sid], False, False, filter door_event (qa_events a) @ [Ae_remote sid])"
      using False by (simp add: deliver_accepted_def qa_front_emit)
    with that(3) no False e show thesis by auto
  qed
qed

lemma open_remote_at:
  assumes "qa_inv a" "qa_known sid a"
  shows "fifo_at (qa_front a) \<Longrightarrow> fifo_at (qa_front (open_remote_stream remote sid a))"
    and "accepts_at (qa_front (open_remote_stream remote sid a)) = accepts_at (qa_front a)"
  by (rule open_remote_front [OF assms, of remote]; auto simp: qa_door_def)+

lemma accept_at:
  assumes "qa_inv a"
  shows "fifo_at (qa_front a) \<Longrightarrow> fifo_at (qa_front (async_accept_stream a))"
    and "accepts_at (qa_front (async_accept_stream a)) = Suc (accepts_at (qa_front a))"
    and "fifo_at (qa_front a) \<Longrightarrow> fifo_at (qa_front (cancel_accept a))"
    and "accepts_at (qa_front (cancel_accept a)) = accepts_at (qa_front a)"
proof -
  note q = qa_invD(2) [OF assms]
  consider (busy) "qa_accept_handler a" | (some) sid rest where "\<not> qa_accept_handler a" "qa_accept_queue a = sid # rest" "\<not> qa_closed_ec a"
    | (none) "\<not> qa_accept_handler a" "qa_accept_queue a = []"
    using q by (cases "qa_accept_queue a") (auto simp: qa_queues_ok_def)
  note accept = this
  have front: "qa_front (async_accept_stream a) = (rest, False, False, filter door_event (qa_events a) @ [Ae_accepted sid])"
    if "\<not> qa_accept_handler a" "qa_accept_queue a = sid # rest" "\<not> qa_closed_ec a" for sid rest
  proof -
    have "sid \<in> dom (qa_get a)" using q that(2) by (simp add: qa_queues_ok_def)
    then show ?thesis using that by (auto simp: async_accept_stream_def hand_out_front qa_front_emit)
  qed
  show "fifo_at (qa_front (async_accept_stream a))" if "fifo_at (qa_front a)"
    using accept
  proof cases
    case some
    with that show ?thesis by (simp add: front) (simp add: qa_door_def)
  qed (use that in \<open>auto simp: async_accept_stream_def qa_door_def\<close>)
  show "accepts_at (qa_front (async_accept_stream a)) = Suc (accepts_at (qa_front a))"
    using accept
  proof cases
    case some
    then show ?thesis by (simp add: front) (simp add: qa_door_def)
  qed (auto simp: async_accept_stream_def qa_door_def)
  show "fifo_at (qa_front a) \<Longrightarrow> fifo_at (qa_front (cancel_accept a))"
    "accepts_at (qa_front (cancel_accept a)) = accepts_at (qa_front a)"
    by (auto simp: cancel_accept_def qa_door_def)
qed

lemma closed_front:
  assumes "\<not> qa_closed_ec a"
  shows "qa_front (on_closed a) = ([], False, True, filter door_event (qa_events a) @
           (if qa_accept_handler a then [Ae_accept_failed Connection_aborted] else []))"
proof -
  define b where "b = foldl (\<lambda>b sid. qa_release sid b) (a\<lparr>qa_closed_ec := True, qa_accept_queue := [], qa_write_queue := []\<rparr>)
     (qa_accept_queue a)"
  have d: "qa_front b = ([], qa_accept_handler a, True, filter door_event (qa_events a))"
    by (simp add: b_def qa_door_release_all) (simp add: qa_door_def)
  have "on_closed a = (if qa_accept_handler b then qa_emit (Ae_accept_failed Connection_aborted) (b\<lparr>qa_accept_handler := False\<rparr>) else b)"
    using assms by (simp add: on_closed_def b_def Let_def)
  with d show ?thesis by (auto simp: qa_door_def)
qed

lemma closed_at:
  shows "fifo_at (qa_front a) \<Longrightarrow> fifo_at (qa_front (on_closed a))"
    and "accepts_at (qa_front (on_closed a)) = accepts_at (qa_front a)"
proof -
  have s: "on_closed a = a" if "qa_closed_ec a" using that by (simp add: on_closed_def)
  show "fifo_at (qa_front (on_closed a))" if "fifo_at (qa_front a)"
    using that s closed_front [of a] by (cases "qa_closed_ec a") (auto simp: qa_door_def)
  show "accepts_at (qa_front (on_closed a)) = accepts_at (qa_front a)"
    using s closed_front [of a] by (cases "qa_closed_ec a") (auto simp: qa_door_def)
qed

lemma fail_front: "qa_front (fail_streams ec a) = qa_front (on_closed a)"
proof -
  have "qa_front (foldl (\<lambda>b sid. on_plain (qs_fail ec) sid b) b L) = qa_front b" for b L
    by (induction L arbitrary: b) (simp_all add: qa_door_wake)
  then show ?thesis by (simp add: fail_streams_def Let_def)
qed

lemma qa_front_ops [simp]:
  "qa_front (on_plain f sid a) = qa_front a" "qa_front (on_found f sid a) = qa_front a"
  "qa_front (extend_max_stream_data sid a) = qa_front a" "qa_front (fst (write_pkt ts shut a)) = qa_front a"
  "qa_front (qa_emit (Ae_extend_max_offset n) a) = qa_front a" "qa_front (qa_emit Ae_extend_max_streams a) = qa_front a"
  by (simp_all add: qa_door_wake qa_door_write_pkt) (simp_all add: qa_door_def)

lemma recv_front:
  "qa_front (recv_stream_data remote sid data fin a) =
     qa_front (open_remote_stream remote sid (qa_emit (Ae_extend_max_offset (length data)) a))"
  by (simp add: recv_stream_data_def Let_def split: option.splits)

lemma open_front: "qa_front (open_stream ready rv a) = qa_front a"
  by (simp add: open_stream_def Let_def qa_front_emit split: open_answer.splits option.splits)
    (simp add: qa_door_def qa_create_stream_def qa_put_def)

fun accepts_asked :: "app_step \<Rightarrow> nat" where
  "accepts_asked Ao_accept = 1"
| "accepts_asked _ = 0"

lemma qa_exec_at:
  assumes "qa_inv a" "qa_enabled x a"
  shows "fifo_at (qa_front a) \<Longrightarrow> fifo_at (qa_front (qa_exec remote x a))"
    and "accepts_at (qa_front (qa_exec remote x a)) = accepts_at (qa_front a) + accepts_asked x"
proof -
  have e: "qa_inv (qa_emit e a)" "qa_known sid (qa_emit e a) = qa_known sid a" for e sid
    using assms(1) by (simp_all add: qa_known_def qa_fresh_def qa_find_stream_def qa_gone_ids_def)
  note o = open_remote_at [OF assms(1)] open_remote_at [OF e(1), unfolded e(2)]
  note simps = recv_front open_front fail_front acked_stream_data_def stream_close_def stream_reset_def
    stream_stop_sending_def recv_stop_sending_def Let_def
  show "fifo_at (qa_front (qa_exec remote x a))" if "fifo_at (qa_front a)"
    using assms that o accept_at [OF assms(1)] closed_at [of a] by (cases x) (auto simp: simps)
  show "accepts_at (qa_front (qa_exec remote x a)) = accepts_at (qa_front a) + accepts_asked x"
    using assms o accept_at [OF assms(1)] closed_at [of a] by (cases x) (auto simp: simps)
qed

interpretation qa_accepts: accounting "qa_exec remote" qa_enabled qa_inv accepts_asked qa_answers "\<lambda>a. of_bool (qa_accept_handler a)"
  for remote :: "int \<Rightarrow> bool"
  by unfold_locales (simp add: qa_accepts_at qa_exec_at(2))

section \<open>Credit\<close>

fun offset_credit :: "app_event \<Rightarrow> nat" where
  "offset_credit (Ae_extend_max_offset n) = n"
| "offset_credit _ = 0"

fun stream_credit :: "app_event \<Rightarrow> nat" where
  "stream_credit Ae_extend_max_streams = 1"
| "stream_credit _ = 0"

definition qa_sum :: "(app_event \<Rightarrow> nat) \<Rightarrow> quic_app \<Rightarrow> nat" where
  "qa_sum c a = sum_list (map c (qa_events a))"

lemma qa_sum_door:
  assumes "qa_door (\<lambda>e. c e \<noteq> 0) a = qa_door (\<lambda>e. c e \<noteq> 0) b"
  shows "qa_sum c a = qa_sum c b"
proof -
  have "sum_list (map c (filter (\<lambda>e. c e \<noteq> 0) es)) = sum_list (map c es)" for es by (induction es) auto
  with assms show ?thesis unfolding qa_sum_def qa_door_def by (metis Pair_inject)
qed

lemma qa_sum_emit [simp]: "qa_sum c (qa_emit e a) = qa_sum c a + c e"
  by (simp add: qa_sum_def)

lemma qa_sum_upd [simp]:
  "qa_sum c (a\<lparr>qa_accept_queue := q\<rparr>) = qa_sum c a" "qa_sum c (a\<lparr>qa_accept_handler := h\<rparr>) = qa_sum c a"
  "qa_sum c (a\<lparr>qa_write_queue := q\<rparr>) = qa_sum c a" "qa_sum c (a\<lparr>qa_closed_ec := b\<rparr>) = qa_sum c a"
  "qa_sum c (qa_put sid p a) = qa_sum c a" "qa_sum c (qa_release sid a) = qa_sum c a"
  "qa_sum c (qa_create_stream sid a) = qa_sum c a"
  by (simp_all add: qa_sum_def qa_put_def qa_release_def qa_create_stream_def split: option.splits)

text \<open>A kind of credit that only one operation gives.\<close>

lemma qa_sum_ops:
  assumes "c Ae_wake_write = 0" "\<And>ec. c (Ae_accept_failed ec) = 0" "\<And>sid. c (Ae_accepted sid) = 0"
    "\<And>sid. c (Ae_remote sid) = 0" "\<And>sid. c (Ae_opened sid) = 0" "\<And>ec. c (Ae_open_failed ec) = 0"
  shows "qa_sum c (on_plain f sid a) = qa_sum c a" "qa_sum c (on_found f sid a) = qa_sum c a"
    "qa_sum c (extend_max_stream_data sid a) = qa_sum c a" "qa_sum c (fst (write_pkt ts shut a)) = qa_sum c a"
    "qa_sum c (open_remote_stream remote sid a) = qa_sum c a" "qa_sum c (async_accept_stream a) = qa_sum c a"
    "qa_sum c (cancel_accept a) = qa_sum c a" "qa_sum c (open_stream ready rv a) = qa_sum c a"
    "qa_sum c (fail_streams ec a) = qa_sum c a" "qa_sum c (on_closed a) = qa_sum c a"
proof -
  show p: "qa_sum c (on_plain f sid a) = qa_sum c a" for f sid a
    by (rule qa_sum_door) (simp add: qa_door_wake assms(1))
  show "qa_sum c (on_found f sid a) = qa_sum c a" "qa_sum c (extend_max_stream_data sid a) = qa_sum c a"
    "qa_sum c (fst (write_pkt ts shut a)) = qa_sum c a"
    by (rule qa_sum_door; simp add: qa_door_wake qa_door_write_pkt assms(1))+
  have h: "qa_sum c (hand_out sid a) = qa_sum c a" for sid a
    using assms by (simp add: hand_out_def split: option.splits)
  then show "qa_sum c (open_remote_stream remote sid a) = qa_sum c a" "qa_sum c (async_accept_stream a) = qa_sum c a"
    "qa_sum c (cancel_accept a) = qa_sum c a" "qa_sum c (open_stream ready rv a) = qa_sum c a"
    using assms by (simp_all add: open_remote_stream_def deliver_accepted_def async_accept_stream_def cancel_accept_def
        open_stream_def Let_def split: list.splits open_answer.splits option.splits)
  have r: "qa_sum c (foldl (\<lambda>b sid. qa_release sid b) b L) = qa_sum c b" for b L
    by (induction L arbitrary: b) simp_all
  show k: "qa_sum c (on_closed a) = qa_sum c a" using assms r by (simp add: on_closed_def Let_def)
  have "qa_sum c (foldl (\<lambda>b sid. on_plain (qs_fail ec) sid b) b L) = qa_sum c b" for b L
    by (induction L arbitrary: b) (simp_all add: p)
  with k show "qa_sum c (fail_streams ec a) = qa_sum c a" by (simp add: fail_streams_def Let_def)
qed

fun recv_length :: "app_step \<Rightarrow> nat" where
  "recv_length (Ao_recv sid data fin) = length data"
| "recv_length _ = 0"

fun remote_closed :: "(int \<Rightarrow> bool) \<Rightarrow> app_step \<Rightarrow> nat" where
  "remote_closed remote (Ao_close sid reset) = of_bool (remote sid)"
| "remote_closed remote _ = 0"

lemmas qa_step_defs = acked_stream_data_def stream_close_def stream_reset_def stream_stop_sending_def
  recv_stop_sending_def recv_stream_data_def

interpretation qa_offset: accounting "qa_exec remote" qa_enabled qa_inv recv_length "qa_sum offset_credit" "\<lambda>_. 0"
  for remote :: "int \<Rightarrow> bool"
proof unfold_locales
  show "qa_sum offset_credit (qa_exec remote x a) + 0 = qa_sum offset_credit a + 0 + recv_length x" for x a
    by (cases x) (simp_all add: qa_sum_ops qa_step_defs Let_def split: option.splits)
qed

interpretation qa_slots: accounting "qa_exec remote" qa_enabled qa_inv "remote_closed remote" "qa_sum stream_credit" "\<lambda>_. 0"
  for remote :: "int \<Rightarrow> bool"
proof unfold_locales
  show "qa_sum stream_credit (qa_exec remote x a) + 0 = qa_sum stream_credit a + 0 + remote_closed remote x" for x a
    by (cases x) (simp_all add: qa_sum_ops qa_step_defs Let_def split: option.splits)
qed

end
