(* ===== verification/Quic_App_Properties.thy ===== *)
theory Quic_App_Properties
  imports Quic_App_Machine
begin

text \<open>
  What plain QUIC streams promise, for every run of the application from its start: its streams are
  sound, none that has something to send is forgotten, they take turns, streams of the peer are
  accepted in order, and credit is given for all that comes in.
\<close>

section \<open>Runs\<close>

definition qa_start :: "write_mode \<Rightarrow> quic_app" where
  "qa_start m = \<lparr>qa_store = [], qa_gone = [], qa_mode = m, qa_accept_queue = [], qa_accept_handler = False,
     qa_closed_ec = False, qa_write_queue = [], qa_events = []\<rparr>"

abbreviation qa_run :: "(int \<Rightarrow> bool) \<Rightarrow> write_mode \<Rightarrow> app_step list \<Rightarrow> quic_app option" where
  "qa_run remote m ops \<equiv> run (qa_exec remote) qa_enabled (qa_start m) ops"

lemma qa_start_inv: "qa_inv (qa_start m)"
  by (simp add: qa_inv_but_def qa_start_def qa_queues_ok_def distinct_keys_def)

lemma qa_run_inv: "qa_run remote m ops = Some a \<Longrightarrow> qa_inv a"
  by (rule qa.run_inv [OF qa_start_inv])

section \<open>Who is served\<close>

definition qa_ready :: "nat \<Rightarrow> quic_app \<Rightarrow> int \<Rightarrow> bool" where
  "qa_ready cap a sid =
     (case qa_find_stream sid a of
        Some p \<Rightarrow> \<not> ps_blocked p \<and> qs_has_pending cap (ps_stream p)
      | None \<Rightarrow> False)"

lemma qa_ready_same: "qa_get b i = qa_get a i \<Longrightarrow> qa_ready cap b i = qa_ready cap a i"
  by (simp add: qa_ready_def qa_find_stream_def)

lemma qa_next_skip:
  assumes "qa_write_queue a = sid # rest" "\<not> qa_ready cap a sid" "distinct (sid # rest)"
    and "qa_write_queue b = rest" "\<And>i. i \<noteq> sid \<Longrightarrow> qa_get b i = qa_get a i"
  shows "find (qa_ready cap b) (qa_write_queue b) = find (qa_ready cap a) (qa_write_queue a)"
    and "dropWhile (\<lambda>i. \<not> qa_ready cap b i) (qa_write_queue b) = dropWhile (\<lambda>i. \<not> qa_ready cap a i) (qa_write_queue a)"
proof -
  have "qa_ready cap b i = qa_ready cap a i" if "i \<in> set rest" for i
  proof -
    have "i \<noteq> sid" using that assms(3) by auto
    from qa_ready_same [OF assms(5) [OF this]] show ?thesis .
  qed
  then show "find (qa_ready cap b) (qa_write_queue b) = find (qa_ready cap a) (qa_write_queue a)"
    "dropWhile (\<lambda>i. \<not> qa_ready cap b i) (qa_write_queue b) = dropWhile (\<lambda>i. \<not> qa_ready cap a i) (qa_write_queue a)"
    using assms(1,2,4) by (auto intro!: find_cong dropWhile_cong)
qed

lemma qa_next_spec:
  assumes "qa_inv a" "cap > 0"
  shows "map_option fst (snd (next_stream_data cap a)) = find (qa_ready cap a) (qa_write_queue a) \<and>
         qa_write_queue (fst (next_stream_data cap a)) = dropWhile (\<lambda>i. \<not> qa_ready cap a i) (qa_write_queue a)"
  using assms
proof (induction cap a rule: next_stream_data.induct)
  case (1 cap a)
  show ?case
  proof (cases "qa_write_queue a")
    case Nil
    then show ?thesis by (simp add: next_stream_data.simps [of cap a])
  next
    case (Cons sid rest)
    have d: "distinct (sid # rest)" using qa_invD(2) [OF 1(4)] Cons by (simp add: qa_queues_ok_def)
    show ?thesis
    proof (cases "qa_find_stream sid a")
      case None
      let ?b = "a\<lparr>qa_write_queue := rest\<rparr>"
      have "qa_inv ?b" by (rule qa_inv_pop_dead [OF 1(4) Cons None])
      moreover have "\<not> qa_ready cap a sid" using None by (simp add: qa_ready_def)
      note qa_next_skip [OF Cons this d, of ?b]
      ultimately show ?thesis using 1(1) [OF Cons None] 1(5) Cons None by (simp add: next_stream_data.simps [of cap a])
    next
      case (Some p)
      then have p: "qa_get a sid = Some p" "ps_in_table p" by (simp_all add: qa_find_get)
      have q: "qs_plain (ps_stream p)" using qa_invD(3) [OF 1(4) p(1)] by (simp add: qa_stream_ok_def)
      show ?thesis
      proof (cases "ps_blocked p")
        case True
        let ?b = "unschedule_front sid a"
        have "qa_inv_but {sid} ?b" by (rule qa_inv_unschedule [OF 1(4) p disjI1 [OF Cons]])
        then have "qa_inv ?b" by (rule qa_inv_settle) (use True in \<open>simp add: unschedule_get [OF p(1)]\<close>)
        moreover have "\<not> qa_ready cap a sid" using Some True by (simp add: qa_ready_def)
        note qa_next_skip [OF Cons this d, of ?b]
        ultimately show ?thesis
          using 1(2) [OF Cons Some True] 1(5) Cons Some True unschedule_front_queue [OF Cons] p(1)
          by (simp add: next_stream_data.simps [of cap a] unschedule_get)
      next
        case False
        obtain t vec fin where t: "qs_pending_data (qs_tx_sent (ps_stream p)) cap (ps_stream p) = (t, vec, fin)"
          using prod_cases3 by blast
        let ?a = "qa_put sid (p\<lparr>ps_stream := t\<rparr>) a"
        have ready: "qa_ready cap a sid = (\<not> (vec = [] \<and> (\<not> fin \<or> qs_fin_offered t)))"
          using Some False t by (auto simp: qa_ready_def qs_has_pending_def)
        show ?thesis
        proof (cases "vec = [] \<and> (\<not> fin \<or> qs_fin_offered t)")
          case True
          let ?b = "unschedule_front sid ?a"
          have "\<not> qs_wants t"
            using qs_has_pending_wants [OF q 1(5)] qs_plain_pending(2) [OF q t 1(5)] t True by (auto simp: qs_has_pending_def)
          moreover have "qa_inv_but {sid} ?b"
            by (rule qa_inv_unschedule [OF qa_inv_offer [OF 1(4) p 1(5) t], of _ "p\<lparr>ps_stream := t\<rparr>" rest]) (use p(2) Cons in simp_all)
          ultimately have "qa_inv ?b" by (elim qa_inv_settle) (auto simp: unschedule_get)
          moreover have "\<not> qa_ready cap a sid" using ready True by simp
          note qa_next_skip [OF Cons this d, of ?b]
          ultimately show ?thesis
            using 1(3) [OF Cons Some False t [symmetric] refl refl refl True] 1(5) Cons Some False t True
              unschedule_front_queue [of ?a sid rest]
            by (simp add: next_stream_data.simps [of cap a] unschedule_get)
        next
          case offer: False
          then have "next_stream_data cap a = (?a, Some (sid, vec, fin))"
            using Cons Some False t by (auto simp: next_stream_data.simps [of cap a])
          with ready offer Cons show ?thesis by auto
        qed
      qed
    qed
  qed
qed

text \<open>A stream that was served goes behind all others.\<close>

lemma qa_to_the_back:
  assumes "qa_write_queue a = sid # rest" "qa_find_stream sid a = Some p" "\<not> ps_blocked p" "\<not> qa_closed_ec a"
  shows "qa_write_queue (on_stream_data_written sid data fin a) = rest @ [sid]"
proof -
  let ?f = "\<lambda>s. qs_data_written (length data) fin (s\<lparr>qs_wire := qs_wire s @ data\<rparr>)"
  let ?u = "unschedule_front sid a"
  define q where "q = p\<lparr>ps_scheduled := False, ps_stream := ?f (ps_stream p)\<rparr>"
  have g: "qa_get a sid = Some p" using assms(2) by (simp add: qa_find_get)
  have u: "qa_get ?u sid = Some (p\<lparr>ps_scheduled := False\<rparr>)" "qa_write_queue ?u = rest"
    using g unschedule_front_queue [OF assms(1)] by (simp_all add: unschedule_get)
  have "Erase_stream \<notin> new_events (ps_stream p) (?f (ps_stream p))" using qs_written_events by blast
  then have "on_plain ?f sid ?u = schedule True sid (qa_put sid q ?u) \<or> on_plain ?f sid ?u = qa_put sid q ?u"
    using u(1) by (auto simp: on_plain_def q_def Let_def)
  then have "qa_write_queue (schedule False sid (on_plain ?f sid ?u)) = rest @ [sid]"
    using u(2) assms(3,4) by (auto simp: schedule_def q_def Let_def)
  with assms(2) show ?thesis by (simp add: on_stream_data_written_def)
qed

section \<open>Properties\<close>

text \<open>In every run of plain QUIC streams, each stream the session holds is sound on its own: what was
  handed to its reader is a prefix of what was received, what ngtcp2 was given is the body up to what
  it was offered, and the end only behind all of it. And a stream nobody has accepted yet still has
  all of what came in, unless the peer has reset it.\<close>

theorem quic_app_streams_sound:
  assumes "qa_run remote m ops = Some a" "qa_find_stream sid a = Some p"
  shows "prefix (qs_delivered (ps_stream p)) (qs_received (ps_stream p)) \<and>
         qs_wire (ps_stream p) = take (qs_tx_offered (ps_stream p)) (qs_body (ps_stream p)) \<and>
         (qs_fin_offered (ps_stream p) \<longrightarrow> qs_wire (ps_stream p) = qs_body (ps_stream p)) \<and>
         (sid \<in> set (qa_accept_queue a) \<and> \<not> qs_read_aborted (ps_stream p) \<longrightarrow>
            qs_delivered (ps_stream p) @ qs_buffered (ps_stream p) = qs_received (ps_stream p))"
proof -
  have g: "qa_get a sid = Some p" using assms(2) by (simp add: qa_find_get)
  have ok: "qa_stream_ok {} a sid p" by (rule qa_invD(3) [OF qa_run_inv [OF assms(1)] g])
  then have q: "qs_plain (ps_stream p)" by (simp add: qa_stream_ok_def)
  note d = qs_plainD [OF q]
  have "prefix (qs_delivered (ps_stream p)) (qs_received (ps_stream p))"
    using d(1) by (simp add: qs_inv_def qs_read_inv_def)
  moreover have "qs_wire (ps_stream p) = take (qs_tx_offered (ps_stream p)) (qs_body (ps_stream p))"
    using d(4) by (simp add: qs_wire_ok_def)
  moreover have "qs_fin_offered (ps_stream p) \<longrightarrow> qs_wire (ps_stream p) = qs_body (ps_stream p)"
    using qs_fin_complete [OF d(3,4)] by simp
  moreover have "qs_delivered (ps_stream p) @ qs_buffered (ps_stream p) = qs_received (ps_stream p)"
    if "sid \<in> set (qa_accept_queue a)" "\<not> qs_read_aborted (ps_stream p)"
    using ok that by (auto simp: qa_stream_ok_def qs_waiting_def qs_plain_def qs_inv_def qs_read_inv_def qs_attach_def
      qs_delivered_def qs_buffered_def)
  ultimately show ?thesis by blast
qed

definition peer_opens :: "int \<Rightarrow> bool" where
  "peer_opens sid = (sid mod 2 = 0)"

theorem quic_app_streams_sound_witness:
  "\<exists>a p. qa_run peer_opens Staged [Ao_recv 0 [1, 2, 3] True] = Some a \<and> qa_find_stream 0 a = Some p \<and>
     qs_delivered (ps_stream p) @ qs_buffered (ps_stream p) = qs_received (ps_stream p)"
proof -
  let ?ops = "[Ao_recv 0 [1, 2, 3] True]"
  let ?a = "the (qa_run peer_opens Staged ?ops)"
  have "qa_run peer_opens Staged ?ops \<noteq> None" "qa_find_stream 0 ?a \<noteq> None" "0 \<in> set (qa_accept_queue ?a)"
    "\<not> qs_read_aborted (ps_stream (the (qa_find_stream 0 ?a)))" by code_simp+
  then obtain a p where "qa_run peer_opens Staged ?ops = Some a" "qa_find_stream 0 a = Some p"
    "0 \<in> set (qa_accept_queue a)" "\<not> qs_read_aborted (ps_stream p)" by auto
  with quic_app_streams_sound [of peer_opens Staged ?ops a 0 p] show ?thesis by blast
qed

text \<open>C8: No stream that has something to send is forgotten: as long as the connection is not closed, it
  is in the write queue, once, or it waits for the peer to extend its window.\<close>

theorem quic_app_no_stream_forgotten:
  assumes "qa_run remote m ops = Some a" "\<not> qa_closed_ec a" "qa_find_stream sid a = Some p"
    and "qs_has_pending 16 (ps_stream p)"
  shows "distinct (qa_write_queue a) \<and> (sid \<in> set (qa_write_queue a) \<or> ps_blocked p)"
proof -
  have inv: "qa_inv a" by (rule qa_run_inv [OF assms(1)])
  have g: "qa_get a sid = Some p" "ps_in_table p" using assms(3) by (simp_all add: qa_find_get)
  have ok: "qa_stream_ok {} a sid p" by (rule qa_invD(3) [OF inv g(1)])
  have "qs_wants (ps_stream p)" using qs_has_pending_wants [of "ps_stream p" 16] ok assms(4) by (simp add: qa_stream_ok_def)
  with ok g(2) assms(2) qa_invD(2) [OF inv] show ?thesis by (auto simp: qa_stream_ok_def qa_queues_ok_def)
qed

theorem quic_app_no_stream_forgotten_witness:
  "\<exists>a. qa_run peer_opens ZeroCopy [Ao_open True (Opened 1), Ao_use 1 (Op_write [7] True)] = Some a \<and> 1 \<in> set (qa_write_queue a)"
proof -
  let ?ops = "[Ao_open True (Opened 1), Ao_use 1 (Op_write [7] True)]"
  let ?a = "the (qa_run peer_opens ZeroCopy ?ops)"
  have "qa_run peer_opens ZeroCopy ?ops \<noteq> None" "\<not> qa_closed_ec ?a" "qa_find_stream 1 ?a \<noteq> None"
    "qs_has_pending 16 (ps_stream (the (qa_find_stream 1 ?a)))" "\<not> ps_blocked (the (qa_find_stream 1 ?a))" by code_simp+
  then obtain a p where "qa_run peer_opens ZeroCopy ?ops = Some a" "\<not> qa_closed_ec a" "qa_find_stream 1 a = Some p"
    "qs_has_pending 16 (ps_stream p)" "\<not> ps_blocked p" by auto
  with quic_app_no_stream_forgotten [of peer_opens ZeroCopy ?ops a 1 p] show ?thesis by blast
qed

text \<open>C24: What goes into the next packet comes from the first stream in the write queue that is known, not
  blocked, and has something to send, and streams that have not leave the queue. The stream that was
  served goes to the back of the queue, so that every other stream comes first.\<close>

theorem quic_app_round_robin:
  assumes "qa_run remote m ops = Some a" and "next_stream_data 16 a = (b, offer)"
  shows "map_option fst offer = find (qa_ready 16 a) (qa_write_queue a) \<and>
         qa_write_queue b = dropWhile (\<lambda>sid. \<not> qa_ready 16 a sid) (qa_write_queue a) \<and>
         (\<forall>sid vec fin n. offer = Some (sid, vec, fin) \<longrightarrow>
            qa_write_queue (data_taken offer (Some n) b) = tl (qa_write_queue b) @ [sid])"
proof -
  have inv: "qa_inv a" by (rule qa_run_inv [OF assms(1)])
  have n: "qa_inv b" "qa_offer_ok 16 b offer" using qa_next [OF inv, of 16] assms(2) by simp_all
  have "qa_write_queue (data_taken offer (Some k) b) = tl (qa_write_queue b) @ [sid]"
    if o: "offer = Some (sid, vec, fin)" for sid vec fin k
  proof -
    obtain p rest where p: "qa_write_queue b = sid # rest" "qa_find_stream sid b = Some p" "\<not> ps_blocked p"
      using n(2) o by (auto simp: qa_offer_ok_def)
    then have "\<not> qa_closed_ec b" using qa_invD(2) [OF n(1)] by (auto simp: qa_queues_ok_def)
    from qa_to_the_back [OF p this] p(1) o show ?thesis by (simp add: data_taken_def Let_def)
  qed
  with qa_next_spec [OF inv, of 16] assms(2) show ?thesis by simp
qed

theorem quic_app_round_robin_witness:
  "\<exists>a b vec fin. qa_run peer_opens ZeroCopy [Ao_open True (Opened 1), Ao_open True (Opened 3), Ao_use 1 (Op_write [7] True),
       Ao_use 3 (Op_write [8] True)] = Some a \<and> next_stream_data 16 a = (b, Some (1, vec, fin)) \<and>
     qa_write_queue (data_taken (Some (1, vec, fin)) (Some 1) b) = [3, 1]"
proof -
  let ?ops = "[Ao_open True (Opened 1), Ao_open True (Opened 3), Ao_use 1 (Op_write [7] True), Ao_use 3 (Op_write [8] True)]"
  let ?a = "the (qa_run peer_opens ZeroCopy ?ops)"
  have "qa_run peer_opens ZeroCopy ?ops \<noteq> None" "qa_write_queue (fst (next_stream_data 16 ?a)) = [1, 3]"
    "map_option fst (snd (next_stream_data 16 ?a)) = Some 1" by code_simp+
  then obtain a b vec fin where "qa_run peer_opens ZeroCopy ?ops = Some a" "next_stream_data 16 a = (b, Some (1, vec, fin))"
    "qa_write_queue b = [1, 3]" by (cases "next_stream_data 16 ?a") auto
  with quic_app_round_robin [of peer_opens ZeroCopy ?ops a b "Some (1, vec, fin)"] show ?thesis by auto
qed

fun refusal :: "write_answer \<Rightarrow> bool" where
  "refusal Stream_data_blocked = True"
| "refusal Stream_shut_wr = True"
| "refusal Stream_not_found = True"
| "refusal _ = False"

definition refused_turn :: "write_turn \<Rightarrow> bool" where
  "refused_turn t = (\<not> wt_closed t \<and> wt_ready t \<and> wt_max_data_left t \<and> refusal (wt_answer t))"

lemma write_pkt_refused:
  assumes "qa_inv a" "list_all refused_turn ts" "write_pkt ts shut a = (b, None)"
  shows "length (qa_write_queue b) \<le> length (qa_write_queue a) - length ts"
  using assms
proof (induction ts arbitrary: shut a)
  case (Cons t ts)
  obtain c offer where o: "next_stream_data 16 a = (c, offer)" by fastforce
  have c: "qa_inv c" "qa_offer_ok 16 c offer" using qa_next [OF Cons.prems(1), of 16] o by simp_all
  have le: "length (qa_write_queue c) \<le> length (qa_write_queue a)"
    using qa_next_spec [OF Cons.prems(1), of 16] o by (simp add: length_dropWhile_le)
  have t: "\<not> wt_closed t" "wt_ready t" "wt_max_data_left t" "refusal (wt_answer t)" "list_all refused_turn ts"
    using Cons.prems(2) by (simp_all add: refused_turn_def list_all_iff)
  obtain shut' d where d: "write_pkt ts shut' d = (b, None)" "qa_inv d"
    "length (qa_write_queue d) \<le> length (qa_write_queue c) - 1"
  proof (cases offer)
    case None
    then have "write_pkt ts shut c = (b, None)" using Cons.prems(3) t o by (cases "wt_answer t") auto
    with that c None show thesis by (simp add: qa_offer_ok_def)
  next
    case (Some x)
    then obtain sid vec fin where s: "offer = Some (sid, vec, fin)" by (cases x) auto
    note r = qa_refused [OF c(1), of sid vec fin, folded s, OF c(2)]
    from t(4) show thesis
    proof (cases "wt_answer t")
      case Stream_data_blocked
      with Cons.prems(3) t o s have "write_pkt ts shut (on_stream_blocked sid c) = (b, None)" by simp
      with that r(1,4) show thesis by fastforce
    next
      case Stream_shut_wr
      with Cons.prems(3) t o s have "write_pkt ts shut (on_stream_shut_wr sid c) = (b, None)" by simp
      with that r(2,5) show thesis by fastforce
    next
      case Stream_not_found
      with Cons.prems(3) t o s have "write_pkt ts (Some sid) (on_stream_blocked sid (on_stream_shut_wr sid c)) = (b, None)"
        by (auto simp: Let_def split: if_splits)
      with that r(3,6) show thesis by fastforce
    qed simp_all
  qed
  from Cons.IH [OF d(2) t(5) d(1)] d(3) le show ?case by simp
qed simp

text \<open>C25: The loop that fills a packet cannot be kept going by refusals: each time ngtcp2 refuses the stream it
  is offered, the write queue gets shorter, so that after as many refusals as there are streams in
  the queue there is no stream left to offer.\<close>

theorem quic_app_refusals_bounded:
  assumes "qa_run remote m ops = Some a" "list_all refused_turn ts" "write_pkt ts None a = (b, None)"
  shows "length (qa_write_queue b) \<le> length (qa_write_queue a) - length ts"
  by (rule write_pkt_refused [OF qa_run_inv [OF assms(1)] assms(2,3)])

theorem quic_app_refusals_bounded_witness:
  "\<exists>a b. qa_run peer_opens ZeroCopy [Ao_open True (Opened 1), Ao_use 1 (Op_write [7] True)] = Some a \<and>
     write_pkt [\<lparr>wt_closed = False, wt_ready = True, wt_max_data_left = True, wt_answer = Stream_data_blocked\<rparr>] None a = (b, None) \<and>
     qa_write_queue b = []"
proof -
  let ?ops = "[Ao_open True (Opened 1), Ao_use 1 (Op_write [7] True)]"
  let ?ts = "[\<lparr>wt_closed = False, wt_ready = True, wt_max_data_left = True, wt_answer = Stream_data_blocked\<rparr>]"
  let ?a = "the (qa_run peer_opens ZeroCopy ?ops)"
  have "qa_run peer_opens ZeroCopy ?ops \<noteq> None" "length (qa_write_queue ?a) = 1" "snd (write_pkt ?ts None ?a) = None"
    "list_all refused_turn ?ts" by code_simp+
  then obtain a where "qa_run peer_opens ZeroCopy ?ops = Some a" "length (qa_write_queue a) = 1"
    "write_pkt ?ts None a = (fst (write_pkt ?ts None a), None)" "list_all refused_turn ?ts" by (auto simp: prod_eq_iff)
  with quic_app_refusals_bounded [of peer_opens ZeroCopy ?ops a ?ts "fst (write_pkt ?ts None a)"]
  show ?thesis by (intro exI [of _ a] exI [of _ "fst (write_pkt ?ts None a)"]) simp
qed

text \<open>Streams the peer opens are accepted in the order in which they came, each once: those handed out,
  followed by those that wait, are those that came, and none is skipped once the connection is closed.
  Every call of accept is answered once or waits, and it waits only while there is no stream.\<close>

theorem quic_app_accepts_in_order:
  assumes "qa_run remote m ops = Some a"
  shows "(\<not> qa_closed_ec a \<longrightarrow> qa_remotes a = qa_accepted a @ qa_accept_queue a) \<and>
         prefix (qa_accepted a) (qa_remotes a) \<and>
         qa_answers a + of_bool (qa_accept_handler a) = sum_list (map accepts_asked ops) \<and>
         (qa_accept_handler a \<longrightarrow> qa_accept_queue a = [] \<and> \<not> qa_closed_ec a)"
proof -
  have "fifo_at (qa_front (qa_start m))" by (simp add: qa_start_def qa_door_def)
  then have "fifo_at (qa_front a)"
    by (rule qa.run_stable [OF qa_start_inv assms, where P = "\<lambda>b. fifo_at (qa_front b)"]) (rule qa_exec_at(1))
  then have "qa_fifo a" by (simp add: qa_fifo_at)
  moreover have "qa_answers a + of_bool (qa_accept_handler a) = sum_list (map accepts_asked ops)"
    using qa_accepts.run_accounts [OF qa_start_inv assms] by (simp add: qa_start_def qa_answers_def)
  ultimately show ?thesis
    using qa_invD(2) [OF qa_run_inv [OF assms]] by (auto simp: qa_fifo_def qa_queues_ok_def split: if_splits)
qed

theorem quic_app_accepts_in_order_witness:
  "\<exists>a. qa_run peer_opens Staged [Ao_accept, Ao_stream_open 0, Ao_recv 4 [1] False, Ao_stream_open 8, Ao_accept] = Some a \<and>
     qa_accepted a = [0, 4] \<and> qa_accept_queue a = [8] \<and> qa_remotes a = [0, 4, 8]"
proof -
  let ?ops = "[Ao_accept, Ao_stream_open 0, Ao_recv 4 [1] False, Ao_stream_open 8, Ao_accept]"
  let ?a = "the (qa_run peer_opens Staged ?ops)"
  have "qa_run peer_opens Staged ?ops \<noteq> None" "qa_accepted ?a = [0, 4]" "qa_accept_queue ?a = [8]" "\<not> qa_closed_ec ?a"
    by code_simp+
  then obtain a where "qa_run peer_opens Staged ?ops = Some a" "qa_accepted a = [0, 4]" "qa_accept_queue a = [8]" "\<not> qa_closed_ec a"
    by auto
  with quic_app_accepts_in_order [of peer_opens Staged ?ops a] show ?thesis by auto
qed

text \<open>Credit is given back for all that comes in: connection-level credit for every byte, with or without a
  stream that takes it, and the right to open another stream for every stream of the peer's that closed.\<close>

theorem quic_app_credit_returned:
  assumes "qa_run remote m ops = Some a"
  shows "qa_sum offset_credit a = sum_list (map recv_length ops) \<and>
         qa_sum stream_credit a = sum_list (map (remote_closed remote) ops)"
  using qa_offset.run_accounts [OF qa_start_inv assms] qa_slots.run_accounts [OF qa_start_inv assms]
  by (simp add: qa_start_def qa_sum_def)

theorem quic_app_credit_returned_witness:
  "\<exists>a. qa_run peer_opens Staged [Ao_recv 0 [1, 2, 3] True, Ao_close 0 True] = Some a \<and>
     qa_sum offset_credit a = 3 \<and> qa_sum stream_credit a = 1"
proof -
  let ?ops = "[Ao_recv 0 [1, 2, 3] True, Ao_close 0 True]"
  have "qa_run peer_opens Staged ?ops \<noteq> None" by code_simp
  then obtain a where a: "qa_run peer_opens Staged ?ops = Some a" by blast
  from quic_app_credit_returned [OF a] a show ?thesis by (intro exI [of _ a]) (simp add: peer_opens_def)
qed

text \<open>A stream that closes before it is accepted is lost: the session lets go of it, as it has no adapters
  yet, so that accepting it destroys it. Whoever accepts it gets a handle that is detached already, and
  what the peer had sent is gone, the reader being told of a partial message.\<close>

theorem quic_app_late_accept_loses_body:
  assumes "qa_run remote m ops = Some a" "\<not> qa_accept_handler a" "qa_accept_queue a = sid # rest"
    and "qa_get a sid = Some p" "qa_find_stream sid a = None" "qs_buffered (ps_stream p) \<noteq> []"
  shows "\<exists>q. qa_gone (async_accept_stream a) = qa_gone a @ [(sid, q)] \<and> qa_get (async_accept_stream a) sid = None \<and>
           qs_delivered (ps_stream q) = qs_delivered (ps_stream p) \<and>
           Reader_detach Partial_message \<in> set (qs_events (ps_stream q))"
proof -
  note d = qa_invD(2) [OF qa_run_inv [OF assms(1)]] qa_invD(3) [OF qa_run_inv [OF assms(1)] assms(4)]
  have n: "sid \<notin> set rest" "\<not> ps_in_table p" using d(1) assms(3-5) by (auto simp: qa_queues_ok_def qa_find_stream_def)
  let ?q = "p\<lparr>ps_stream := qs_detach_all (qs_attach (ps_stream p))\<rparr>"
  have w: "qs_waiting (ps_stream p)" using d(2) assms(3) by (simp add: qa_stream_ok_def)
  then have i: "qs_read_handler (ps_stream p) = None" "\<not> qs_write_active (ps_stream p)" "queue_ok (qs_read_head (ps_stream p)) (qs_pending_read (ps_stream p))"
    using qs_waiting_plain [OF w] by (simp_all add: qs_waiting_def qs_plain_def qs_inv_def qs_read_inv_def)
  have "qs_reader_detach_ec (qs_attach (ps_stream p)) = Partial_message"
    using assms(6) i(3) queue_ok_head_Nil [of "qs_pending_read (ps_stream p)"]
    by (auto simp: qs_reader_detach_ec_def qs_reading_finished_def qs_attach_def qs_buffered_def)
  then have "Reader_detach Partial_message \<in> set (qs_events (ps_stream ?q))"
    "qs_delivered (ps_stream ?q) = qs_delivered (ps_stream p)"
    using i by (auto simp: qs_detach_all_def qs_attach_def qs_emit_def qs_complete_write_def qs_delivered_def Let_def)
  moreover have "async_accept_stream a = hand_out sid (a\<lparr>qa_accept_queue := rest\<rparr>)"
    using assms(2,3) by (simp add: async_accept_stream_def)
  then have "qa_gone (async_accept_stream a) = qa_gone a @ [(sid, ?q)]" "qa_get (async_accept_stream a) sid = None"
    using assms(4) n by (simp_all add: hand_out_def qa_release_def delete_conv')
  ultimately show ?thesis by blast
qed

theorem quic_app_late_accept_loses_body_witness:
  "\<exists>a q. qa_run peer_opens Staged [Ao_recv 0 [1, 2, 3] True, Ao_recv_stop_sending 0, Ao_close 0 True] = Some a \<and>
     qa_gone (async_accept_stream a) = qa_gone a @ [(0, q)] \<and> Reader_detach Partial_message \<in> set (qs_events (ps_stream q))"
proof -
  let ?ops = "[Ao_recv 0 [1, 2, 3] True, Ao_recv_stop_sending 0, Ao_close 0 True]"
  let ?a = "the (qa_run peer_opens Staged ?ops)"
  have "qa_run peer_opens Staged ?ops \<noteq> None" "\<not> qa_accept_handler ?a" "qa_accept_queue ?a = [0]"
    "qa_get ?a 0 \<noteq> None" "qa_find_stream 0 ?a = None" "qs_buffered (ps_stream (the (qa_get ?a 0))) \<noteq> []" by code_simp+
  then obtain a p where "qa_run peer_opens Staged ?ops = Some a" "\<not> qa_accept_handler a" "qa_accept_queue a = [0]"
    "qa_get a 0 = Some p" "qa_find_stream 0 a = None" "qs_buffered (ps_stream p) \<noteq> []" by auto
  from quic_app_late_accept_loses_body [OF this] \<open>qa_run peer_opens Staged ?ops = Some a\<close> show ?thesis by blast
qed

end
