(* ===== verification/H2_Stream.thy ===== *)
theory H2_Stream
  imports Body_Contract
begin

text \<open>
  One HTTP/2 stream of the nghttp2 backend, \<^verbatim>\<open>src/h2/stream.cpp\<close> and
  \<^verbatim>\<open>include/anyhttp/h2/stream.hpp\<close>, with \<open>NGHttp2Session::close_stream\<close>
  (\<^verbatim>\<open>src/h2/session.cpp\<close>), which takes a stream out of its session: the state of
  \<open>NGHttp2Stream\<close> as a record, and one definition for each of its member functions.

  Effects are appended to \<open>hs_events\<close>, as in \<open>Quic_Stream\<close>; a parked handler is the option of the
  room in the buffer of a read, and a flag for a write or a response. \<open>hs_in_map\<close> says whether the
  session still holds the stream, \<open>hs_server\<close> which side of the exchange this is (the dynamic type
  of the session). \<open>hs_script\<close> is what the application does when a read completes
  (theory \<open>Prelude\<close>). History only, read by no operation: \<open>hs_received\<close>, all data the peer sent;
  \<open>hs_wire\<close>, all data nghttp2 was given; \<open>hs_body\<close>, all data written, less what a cancelled or
  failed write took back.
\<close>

section \<open>State\<close>

datatype rst_code = Rst_cancel | Rst_stream_closed | Rst_internal_error

datatype h2_event =
    H2_read error_code bytes nat
  | H2_write error_code
  | H2_response error_code
  | H2_consume nat
  | H2_start_write
  | H2_resume_data
  | H2_rst_stream rst_code
  | H2_erase
  | H2_reader_detach error_code
  | H2_writer_detach bool

record h2_stream =
  hs_bytesRead :: nat
  hs_eof_received :: bool
  hs_read_buffer :: bytes
  hs_pending_read_buffers :: "bytes list"
  hs_write_buffer :: bytes
  hs_write_handler :: bool
  hs_is_deferred :: bool
  hs_eof_requested :: bool
  hs_eof_submitted :: bool
  hs_response_handler :: bool
  hs_has_response :: bool
  hs_response_delivered :: bool
  hs_response_error :: error_code
  hs_header_limit_exceeded :: bool
  hs_closed :: bool
  hs_close_deferred :: bool
  hs_read_handler :: "nat option"
  hs_inside_call_read_handler :: bool
  hs_reader :: bool
  hs_writer :: bool
  hs_in_map :: bool
  hs_server :: bool
  hs_script :: "read_action list"
  hs_events :: "h2_event list"
  hs_received :: bytes
  hs_body :: bytes
  hs_wire :: bytes

definition hs_init :: h2_stream where
  "hs_init = \<lparr>
     hs_bytesRead = 0, hs_eof_received = False, hs_read_buffer = [], hs_pending_read_buffers = [],
     hs_write_buffer = [], hs_write_handler = False, hs_is_deferred = False,
     hs_eof_requested = False, hs_eof_submitted = False,
     hs_response_handler = False, hs_has_response = False, hs_response_delivered = False,
     hs_response_error = Success, hs_header_limit_exceeded = False,
     hs_closed = False, hs_close_deferred = False, hs_read_handler = None,
     hs_inside_call_read_handler = False, hs_reader = False, hs_writer = False, hs_in_map = True,
     hs_server = False,
     hs_script = [], hs_events = [], hs_received = [], hs_body = [], hs_wire = []\<rparr>"

definition hs_emit :: "h2_event \<Rightarrow> h2_stream \<Rightarrow> h2_stream" where
  [stream_defs]: "hs_emit e s = s\<lparr>hs_events := hs_events s @ [e]\<rparr>"

definition reading_finished :: "h2_stream \<Rightarrow> bool" where
  "reading_finished s = (\<not> hs_reader s \<or> hs_eof_received s \<and> hs_read_buffer s = [])"

text \<open>The rest of the first buffer, and all of the others.\<close>

definition read_buffers_size :: "h2_stream \<Rightarrow> nat" where
  "read_buffers_size s =
     length (hs_read_buffer s) + sum_list (map length (drop 1 (hs_pending_read_buffers s)))"

section \<open>Letting go of a reader or a writer\<close>

definition maybe_close_stream :: "h2_stream \<Rightarrow> h2_stream" where
  [stream_defs]: "maybe_close_stream s =
     (if hs_closed s then s
      else if hs_writer s then s
      else if \<not> hs_eof_submitted s \<or> (\<not> hs_eof_received s \<and> \<not> hs_reader s)
      then hs_emit H2_start_write (hs_emit (H2_rst_stream Rst_stream_closed) s)
      else s)"

text \<open>\<open>delete_reader\<close> up to the deferred close, which it leaves to the caller when it runs nested in
  \<open>call_read_handler\<close>; \<open>~NGHttp2Reader\<close> has let go of the reader before.\<close>

definition delete_reader :: "h2_stream \<Rightarrow> h2_stream" where
  [stream_defs]: "delete_reader s =
     (let s1 = (if hs_closed s then s
                else if reading_finished s then s
                else if read_buffers_size s \<noteq> 0
                then s\<lparr>hs_read_buffer := [], hs_pending_read_buffers := []\<rparr>
                else s)
      in maybe_close_stream (s1\<lparr>hs_reader := False\<rparr>))"

section \<open>Delivering what was received\<close>

text \<open>What a resumed reader does: see \<open>Prelude\<close>. A read issued from within finds
  \<open>inside_call_read_handler_\<close> set and is parked.\<close>

definition hs_reader_acts :: "h2_stream \<Rightarrow> h2_stream" where
  [stream_defs]: "hs_reader_acts s =
     (case hs_script s of
        [] \<Rightarrow> s
      | Do_nothing # as \<Rightarrow> s\<lparr>hs_script := as\<rparr>
      | Read_again n # as \<Rightarrow>
          if \<not> hs_reader s then s\<lparr>hs_script := as\<rparr>
          else if n = 0 then hs_emit (H2_read Success [] 0) (s\<lparr>hs_script := as\<rparr>)
          else s\<lparr>hs_script := as, hs_read_handler := Some n\<rparr>
      | Drop_reader # as \<Rightarrow>
          if hs_reader s then delete_reader (s\<lparr>hs_script := as, hs_reader := False\<rparr>)
          else s\<lparr>hs_script := as\<rparr>)"

definition hs_invoke_read :: "error_code \<Rightarrow> bytes \<Rightarrow> h2_stream \<Rightarrow> h2_stream" where
  [stream_defs]: "hs_invoke_read ec d s =
     hs_reader_acts (hs_emit (H2_read ec d (length d)) (s\<lparr>hs_read_handler := None\<rparr>))"

definition hs_read_measure :: "h2_stream \<Rightarrow> nat" where
  "hs_read_measure s = length (hs_script s) + (case hs_read_handler s of None \<Rightarrow> 0 | Some _ \<Rightarrow> 1)"

lemma hs_invoke_read_measure:
  "hs_read_handler s = Some n \<Longrightarrow> hs_read_measure (hs_invoke_read ec d s) < hs_read_measure s"
  by (auto simp: stream_defs hs_read_measure_def Let_def split: list.splits read_action.splits)

text \<open>Advance to the next stored buffer. If there is none, start writing the view that was passed in.\<close>

definition next_buffer :: "bytes \<Rightarrow> h2_stream \<Rightarrow> h2_stream \<times> bytes" where
  "next_buffer view s =
     (if hs_read_buffer s = [] then
        let p = (if hs_pending_read_buffers s \<noteq> [] then tl (hs_pending_read_buffers s) else [])
        in if p \<noteq> [] then (s\<lparr>hs_pending_read_buffers := p, hs_read_buffer := hd p\<rparr>, view)
           else (s\<lparr>hs_pending_read_buffers := p, hs_read_buffer := view\<rparr>, hs_read_buffer s)
      else (s, view))"

lemma next_buffer_measure: "hs_read_measure (fst (next_buffer view s)) = hs_read_measure s"
  by (simp add: next_buffer_def hs_read_measure_def Let_def)

function deliver_loop :: "h2_stream \<Rightarrow> bytes \<Rightarrow> nat \<Rightarrow> h2_stream \<times> bytes \<times> nat" where
  "deliver_loop s view consumed =
     (case hs_read_handler s of
        None \<Rightarrow> (s, view, consumed)
      | Some room \<Rightarrow>
          if hs_read_buffer s = [] then (s, view, consumed)
          else let copied = take room (hs_read_buffer s);
                   s1 = s\<lparr>hs_bytesRead := hs_bytesRead s + length copied,
                          hs_read_buffer := drop (length copied) (hs_read_buffer s)\<rparr>;
                   (s2, view2) = next_buffer view (hs_invoke_read Success copied s1)
               in deliver_loop s2 view2 (consumed + length copied))"
  by pat_completeness auto
termination
proof (relation "measure (\<lambda>(s, _). hs_read_measure s)", goal_cases)
  case 1 then show ?case by simp
next
  case (2 s view consumed room copied s1 x s2 view2)
  have "hs_read_measure (hs_invoke_read Success copied s1) < hs_read_measure s1"
    using 2 by (intro hs_invoke_read_measure [of _ room]) simp
  also have "hs_read_measure s1 = hs_read_measure s" using 2 by (simp add: hs_read_measure_def)
  finally show ?case
    using 2 next_buffer_measure [of view "hs_invoke_read Success copied s1"] by (metis fst_conv in_measure case_prod_conv)
qed

declare deliver_loop.simps [simp del]

function eof_loop :: "h2_stream \<Rightarrow> h2_stream" where
  "eof_loop s = (if hs_read_handler s \<noteq> None then eof_loop (hs_invoke_read Eof [] s) else s)"
  by pat_completeness auto
termination
  by (relation "measure hs_read_measure") (auto intro: hs_invoke_read_measure)

declare eof_loop.simps [simp del]

text \<open>To apply back pressure, the stream is consumed after the handlers have run.\<close>

definition hs_consume :: "nat \<Rightarrow> h2_stream \<Rightarrow> h2_stream" where
  "hs_consume consumed s =
     (if consumed \<noteq> 0 then hs_emit H2_start_write (hs_emit (H2_consume consumed) s) else s)"

text \<open>What is left after delivering goes into the queue.\<close>

definition hs_store :: "bytes \<Rightarrow> h2_stream \<Rightarrow> h2_stream" where
  "hs_store view s =
     (if hs_read_buffer s = [] then s
      else if hs_pending_read_buffers s = [] then s\<lparr>hs_pending_read_buffers := [hs_read_buffer s]\<rparr>
      else if view \<noteq> [] then s\<lparr>hs_pending_read_buffers := hs_pending_read_buffers s @ [view]\<rparr>
      else s)"

definition finish_delivery :: "bytes \<Rightarrow> h2_stream \<Rightarrow> h2_stream" where
  "finish_delivery view s =
     (if hs_read_buffer s = [] \<and> hs_eof_received s then eof_loop s
      else let s1 = hs_store view s
           in if hs_read_handler s1 = None then s1
              else if reading_finished s1 \<or> hs_closed s1 then hs_invoke_read Partial_message [] s1
              else s1)"

text \<open>What \<open>call_read_handler\<close> does once it has found a reader waiting and nobody else at work.\<close>

definition deliver_and_finish :: "bytes \<Rightarrow> h2_stream \<Rightarrow> h2_stream" where
  "deliver_and_finish view s =
     (let (s1, view1) = (if hs_pending_read_buffers s = [] then (s\<lparr>hs_read_buffer := view\<rparr>, hs_read_buffer s)
                         else (s, view));
          (s2, view2, consumed) = deliver_loop s1 view1 0
      in finish_delivery view2 (hs_consume consumed s2))"

text \<open>\<open>call_read_handler\<close> without the deferred close at its end.\<close>

definition call_read_handler_body :: "bytes \<Rightarrow> h2_stream \<Rightarrow> h2_stream" where
  "call_read_handler_body view s =
     (if hs_read_handler s = None then
        (if view \<noteq> [] then
           let p = hs_pending_read_buffers s @ [view]
           in s\<lparr>hs_pending_read_buffers := p,
                hs_read_buffer := (if length p = 1 then hd p else hs_read_buffer s)\<rparr>
         else s)
      else if hs_inside_call_read_handler s then s
      else (deliver_and_finish view (s\<lparr>hs_inside_call_read_handler := True\<rparr>))\<lparr>hs_inside_call_read_handler := False\<rparr>)"

section \<open>Closing\<close>

text \<open>\<open>NGHttp2Session::close_stream\<close>, where \<open>call_rh\<close> is \<open>call_read_handler()\<close>. A read completed here is
  not nested in \<open>call_read_handler\<close>, so a read issued from within its completion is looked at right
  away. With the stream out of the map, closing it once more does nothing.\<close>

definition close_stream_with :: "(h2_stream \<Rightarrow> h2_stream) \<Rightarrow> h2_stream \<Rightarrow> h2_stream" where
  "close_stream_with call_rh s =
     (if \<not> hs_in_map s then s
      else
        let s1 = s\<lparr>hs_closed := True\<rparr>;
            s2 = (if hs_write_handler s1
                  then hs_emit (H2_write Connection_reset) (s1\<lparr>hs_write_handler := False, hs_body := hs_wire s1\<rparr>)
                  else s1)
        in if \<not> hs_response_delivered s2 \<and> (hs_has_response s2 \<or> hs_response_error s2 \<noteq> Success)
           then call_rh s2
           else if hs_reader s2 \<and> hs_eof_received s2 \<and> \<not> reading_finished s2
           then s2\<lparr>hs_close_deferred := True\<rparr>
           else
             let s3 = hs_emit H2_erase (s2\<lparr>hs_in_map := False\<rparr>);
                 s4 = (if hs_read_handler s3 \<noteq> None
                       then call_read_handler_body [] (hs_invoke_read Partial_message [] s3) else s3)
             in if hs_response_handler s4
                then hs_emit (H2_response End_of_stream) (s4\<lparr>hs_response_handler := False\<rparr>) else s4)"

text \<open>\<open>finish_deferred_close\<close>. It clears \<open>close_deferred\<close> first, so the close it runs does not come
  back here; see \<open>call_read_handler_again\<close>.\<close>

definition finish_deferred_close :: "h2_stream \<Rightarrow> h2_stream" where
  "finish_deferred_close s =
     (if hs_close_deferred s \<and> reading_finished s \<and> hs_read_handler s = None \<and> \<not> hs_inside_call_read_handler s
      then close_stream_with (call_read_handler_body []) (s\<lparr>hs_close_deferred := False\<rparr>)
      else s)"

definition hs_call_read_handler :: "bytes \<Rightarrow> h2_stream \<Rightarrow> h2_stream" where
  "hs_call_read_handler view s = finish_deferred_close (call_read_handler_body view s)"

definition close_stream :: "h2_stream \<Rightarrow> h2_stream" where
  "close_stream s = close_stream_with (hs_call_read_handler []) s"

definition hs_reader_dtor :: "h2_stream \<Rightarrow> h2_stream" where
  "hs_reader_dtor s = finish_deferred_close (delete_reader (s\<lparr>hs_reader := False\<rparr>))"

definition hs_writer_dtor :: "h2_stream \<Rightarrow> h2_stream" where
  "hs_writer_dtor s = maybe_close_stream (s\<lparr>hs_writer := False\<rparr>)"

section \<open>Reading\<close>

definition hs_on_data :: "bytes \<Rightarrow> h2_stream \<Rightarrow> h2_stream" where
  "hs_on_data data s = hs_call_read_handler data (s\<lparr>hs_received := hs_received s @ data\<rparr>)"

definition hs_on_eof :: "h2_stream \<Rightarrow> h2_stream" where
  "hs_on_eof s = hs_call_read_handler [] (s\<lparr>hs_eof_received := True\<rparr>)"

definition hs_async_read_some :: "nat \<Rightarrow> h2_stream \<Rightarrow> h2_stream" where
  "hs_async_read_some n s =
     (if n = 0 then hs_emit (H2_read Success [] 0) s
      else hs_call_read_handler [] (s\<lparr>hs_read_handler := Some n\<rparr>))"

definition hs_cancel_read :: "h2_stream \<Rightarrow> h2_stream" where
  "hs_cancel_read s =
     (if hs_read_handler s \<noteq> None
      then hs_emit (H2_read Canceled [] 0) (s\<lparr>hs_read_handler := None\<rparr>) else s)"

text \<open>A reader that has outlived its stream.\<close>

definition h2_reader_detach_ec :: "h2_stream \<Rightarrow> error_code" where
  "h2_reader_detach_ec s = (if reading_finished s then Eof else Partial_message)"

definition h2_detached_read :: "error_code \<Rightarrow> nat \<Rightarrow> h2_event" where
  "h2_detached_read detached_ec n = H2_read (if n = 0 then Success else detached_ec) [] 0"

section \<open>Writing\<close>

definition resume :: "h2_stream \<Rightarrow> h2_stream" where
  [stream_defs]: "resume s =
     (if hs_is_deferred s
      then hs_emit H2_start_write (hs_emit H2_resume_data (s\<lparr>hs_is_deferred := False\<rparr>)) else s)"

definition hs_async_write :: "bytes \<Rightarrow> bool \<Rightarrow> h2_stream \<Rightarrow> h2_stream" where
  "hs_async_write buffer eof s =
     (if buffer = [] \<and> \<not> eof then hs_emit (H2_write Success) s
      else if hs_eof_requested s \<and> buffer \<noteq> [] then hs_emit (H2_write Broken_pipe) s
      else if hs_eof_requested s \<and> hs_eof_submitted s then hs_emit (H2_write Success) s
      else if hs_closed s then hs_emit (H2_write Connection_reset) s
      else resume (s\<lparr>hs_write_buffer := buffer, hs_eof_requested := hs_eof_requested s \<or> eof,
                     hs_write_handler := True, hs_body := hs_wire s @ buffer\<rparr>))"

definition hs_cancel_write :: "h2_stream \<Rightarrow> h2_stream" where
  "hs_cancel_write s =
     (if hs_write_handler s
      then hs_emit (H2_write Canceled) (s\<lparr>hs_write_handler := False, hs_body := hs_wire s\<rparr>) else s)"

text \<open>\<open>producer_callback\<close>: what it returns, with the data and whether it carries the end.\<close>

datatype produced = Callback_failure | Deferred | Produced bytes bool

definition producer_callback :: "nat \<Rightarrow> h2_stream \<Rightarrow> h2_stream \<times> produced" where
  "producer_callback len s =
     (if hs_closed s then (s, Callback_failure)
      else if \<not> hs_write_handler s then (s\<lparr>hs_is_deferred := True\<rparr>, Deferred)
      else if hs_write_buffer s \<noteq> [] then
        let copied = take len (hs_write_buffer s);
            s1 = s\<lparr>hs_write_buffer := drop (length copied) (hs_write_buffer s), hs_wire := hs_wire s @ copied\<rparr>
        in if hs_write_buffer s1 = [] then
             (hs_emit (H2_write Success)
                (s1\<lparr>hs_eof_submitted := hs_eof_submitted s1 \<or> hs_eof_requested s1, hs_write_handler := False\<rparr>),
              Produced copied (hs_eof_requested s1))
           else (s1, Produced copied False)
      else (hs_emit (H2_write Success) (s\<lparr>hs_eof_submitted := True, hs_write_handler := False\<rparr>), Produced [] True))"

text \<open>A writer that has outlived its stream.\<close>

definition h2_detached_write :: "bool \<Rightarrow> bytes \<Rightarrow> bool \<Rightarrow> error_code" where
  "h2_detached_write detached_eof_submitted buffer eof =
     (if buffer = [] \<and> \<not> eof then Success
      else if detached_eof_submitted then (if buffer = [] then Success else Broken_pipe)
      else Connection_aborted)"

section \<open>The response of a request\<close>

definition deliver_response :: "h2_stream \<Rightarrow> h2_stream" where
  "deliver_response s =
     (if \<not> hs_has_response s \<and> hs_response_error s = Success then s
      else if \<not> hs_response_handler s then s
      else if hs_response_error s \<noteq> Success then
        let s1 = hs_emit (H2_response (hs_response_error s))
                   (s\<lparr>hs_response_delivered := True, hs_response_handler := False\<rparr>)
        in if hs_closed s1 then close_stream s1 else s1
      else hs_emit (H2_response Success)
             (s\<lparr>hs_response_delivered := True, hs_reader := True, hs_response_handler := False\<rparr>))"

definition async_get_response :: "h2_stream \<Rightarrow> h2_stream" where
  "async_get_response s =
     (if hs_response_delivered s then hs_emit (H2_response Already_started) s
      else deliver_response (s\<lparr>hs_response_handler := True\<rparr>))"

definition cancel_get_response :: "h2_stream \<Rightarrow> h2_stream" where
  "cancel_get_response s =
     (if hs_response_handler s
      then hs_emit (H2_response Canceled) (s\<lparr>hs_response_handler := False\<rparr>) else s)"

definition on_response :: "h2_stream \<Rightarrow> h2_stream" where
  "on_response s =
     deliver_response
       (if hs_header_limit_exceeded s
        then hs_emit (H2_rst_stream Rst_cancel) (s\<lparr>hs_response_error := Header_limit\<rparr>)
        else s\<lparr>hs_has_response := True\<rparr>)"

text \<open>On the server, a request comes with a reader for its body and a writer for the response.\<close>

definition on_request :: "h2_stream \<Rightarrow> h2_stream" where
  "on_request s = s\<lparr>hs_server := True, hs_reader := True, hs_writer := True\<rparr>"

section \<open>The end\<close>

text \<open>\<open>~NGHttp2Stream\<close>. The read that is still pending is told the number of bytes read so far, on the
  whole stream, although none of them is in its buffer.\<close>

definition hs_dtor :: "h2_stream \<Rightarrow> h2_stream" where
  "hs_dtor s =
     (let s1 = (if hs_reader s then hs_emit (H2_reader_detach (h2_reader_detach_ec s)) s else s);
          s2 = (if hs_writer s1 then hs_emit (H2_writer_detach (hs_eof_submitted s1)) s1 else s1);
          s3 = (if hs_response_handler s2
                then hs_emit (H2_response Canceled) (s2\<lparr>hs_response_handler := False\<rparr>) else s2);
          s4 = (if hs_read_handler s3 \<noteq> None
                then hs_emit (H2_read Partial_message [] (hs_bytesRead s3)) (s3\<lparr>hs_read_handler := None\<rparr>) else s3)
      in if hs_write_handler s4
         then hs_emit (H2_write Canceled) (s4\<lparr>hs_write_handler := False, hs_body := hs_wire s4\<rparr>) else s4)"

end
