(* ===== verification/H2_Stream_Read.thy ===== *)
theory H2_Stream_Read
  imports H2_Stream Read_Queue
begin

text \<open>
  The incoming body of an HTTP/2 stream: how the queue of received buffers, the view that is being
  delivered and the end of the body hang together (\<open>hs_read_inv\<close>), and that every operation keeps
  it. The delivering loop is shown to hand out the body in order, and closing a stream to wait for
  a reader that has not caught up.
\<close>

section \<open>What the reader has seen\<close>

fun h2_read_bytes :: "h2_event \<Rightarrow> bytes" where
  "h2_read_bytes (H2_read ec d n) = d"
| "h2_read_bytes _ = []"

fun h2_credit :: "h2_event \<Rightarrow> nat" where
  "h2_credit (H2_consume n) = n"
| "h2_credit _ = 0"

definition hs_delivered :: "h2_stream \<Rightarrow> bytes" where
  "hs_delivered s = concat (map h2_read_bytes (hs_events s))"

definition hs_credited :: "h2_stream \<Rightarrow> nat" where
  "hs_credited s = sum_list (map h2_credit (hs_events s))"

definition hs_eof_seen :: "h2_stream \<Rightarrow> bool" where
  "hs_eof_seen s = (\<exists>d n. H2_read Eof d n \<in> set (hs_events s))"

definition hs_buffered :: "h2_stream \<Rightarrow> bytes" where
  "hs_buffered s = hs_read_buffer s @ concat (tl (hs_pending_read_buffers s))"

lemma hs_seen_emit [simp]:
  "hs_delivered (hs_emit e s) = hs_delivered s @ h2_read_bytes e"
  "hs_credited (hs_emit e s) = hs_credited s + h2_credit e"
  "hs_eof_seen (hs_emit e s) = (hs_eof_seen s \<or> (\<exists>d n. e = H2_read Eof d n))"
  by (auto simp: hs_delivered_def hs_credited_def hs_eof_seen_def hs_emit_def)

text \<open>The log depends on the events only, so that an update of another field does not touch it.\<close>

lemma hs_seen_cong:
  "hs_events s = hs_events t \<Longrightarrow>
   hs_delivered s = hs_delivered t \<and> hs_credited s = hs_credited t \<and> hs_eof_seen s = hs_eof_seen t"
  by (simp add: hs_delivered_def hs_credited_def hs_eof_seen_def)

lemma hs_seen_upd [simp]:
  "hs_delivered (s\<lparr>hs_read_buffer := b\<rparr>) = hs_delivered s" "hs_delivered (s\<lparr>hs_pending_read_buffers := p\<rparr>) = hs_delivered s"
  "hs_delivered (s\<lparr>hs_bytesRead := k\<rparr>) = hs_delivered s" "hs_delivered (s\<lparr>hs_read_handler := h\<rparr>) = hs_delivered s"
  "hs_delivered (s\<lparr>hs_inside_call_read_handler := i\<rparr>) = hs_delivered s" "hs_delivered (s\<lparr>hs_script := as\<rparr>) = hs_delivered s"
  "hs_delivered (s\<lparr>hs_reader := i\<rparr>) = hs_delivered s" "hs_delivered (s\<lparr>hs_received := b\<rparr>) = hs_delivered s"
  "hs_delivered (s\<lparr>hs_eof_received := i\<rparr>) = hs_delivered s"
  "hs_credited (s\<lparr>hs_read_buffer := b\<rparr>) = hs_credited s" "hs_credited (s\<lparr>hs_pending_read_buffers := p\<rparr>) = hs_credited s"
  "hs_credited (s\<lparr>hs_bytesRead := k\<rparr>) = hs_credited s" "hs_credited (s\<lparr>hs_read_handler := h\<rparr>) = hs_credited s"
  "hs_credited (s\<lparr>hs_inside_call_read_handler := i\<rparr>) = hs_credited s" "hs_credited (s\<lparr>hs_script := as\<rparr>) = hs_credited s"
  "hs_credited (s\<lparr>hs_reader := i\<rparr>) = hs_credited s" "hs_credited (s\<lparr>hs_received := b\<rparr>) = hs_credited s"
  "hs_credited (s\<lparr>hs_eof_received := i\<rparr>) = hs_credited s"
  "hs_eof_seen (s\<lparr>hs_read_buffer := b\<rparr>) = hs_eof_seen s" "hs_eof_seen (s\<lparr>hs_pending_read_buffers := p\<rparr>) = hs_eof_seen s"
  "hs_eof_seen (s\<lparr>hs_bytesRead := k\<rparr>) = hs_eof_seen s" "hs_eof_seen (s\<lparr>hs_read_handler := h\<rparr>) = hs_eof_seen s"
  "hs_eof_seen (s\<lparr>hs_inside_call_read_handler := i\<rparr>) = hs_eof_seen s" "hs_eof_seen (s\<lparr>hs_script := as\<rparr>) = hs_eof_seen s"
  "hs_eof_seen (s\<lparr>hs_reader := i\<rparr>) = hs_eof_seen s" "hs_eof_seen (s\<lparr>hs_received := b\<rparr>) = hs_eof_seen s"
  "hs_eof_seen (s\<lparr>hs_eof_received := i\<rparr>) = hs_eof_seen s"
  by (simp_all add: hs_delivered_def hs_credited_def hs_eof_seen_def)

section \<open>What a completion of a read can change\<close>

definition hs_rest :: "h2_stream \<Rightarrow> h2_stream" where
  "hs_rest s = s\<lparr>hs_read_handler := None, hs_reader := False, hs_script := [], hs_events := []\<rparr>"

lemma hs_rest_eqD:
  assumes "hs_rest s = hs_rest t"
  shows "hs_read_buffer s = hs_read_buffer t" "hs_pending_read_buffers s = hs_pending_read_buffers t"
    "hs_bytesRead s = hs_bytesRead t" "hs_eof_received s = hs_eof_received t" "hs_received s = hs_received t"
    "hs_inside_call_read_handler s = hs_inside_call_read_handler t" "hs_closed s = hs_closed t"
    "hs_close_deferred s = hs_close_deferred t" "hs_in_map s = hs_in_map t"
    "hs_response_handler s = hs_response_handler t" "hs_response_delivered s = hs_response_delivered t"
    "hs_has_response s = hs_has_response t" "hs_response_error s = hs_response_error t" "hs_server s = hs_server t"
    "hs_write_handler s = hs_write_handler t" "hs_write_buffer s = hs_write_buffer t" "hs_eof_requested s = hs_eof_requested t"
    "hs_eof_submitted s = hs_eof_submitted t" "hs_is_deferred s = hs_is_deferred t" "hs_body s = hs_body t"
    "hs_wire s = hs_wire t" "hs_writer s = hs_writer t" "hs_header_limit_exceeded s = hs_header_limit_exceeded t"
  using assms by (cases s; cases t; simp add: hs_rest_def)+

lemma hs_rest_emit [simp]: "hs_rest (hs_emit e s) = hs_rest s"
  by (simp add: hs_rest_def hs_emit_def)

lemma hs_rest_upd [simp]:
  "hs_rest (s\<lparr>hs_read_handler := h\<rparr>) = hs_rest s" "hs_rest (s\<lparr>hs_reader := b\<rparr>) = hs_rest s"
  "hs_rest (s\<lparr>hs_script := as\<rparr>) = hs_rest s"
  by (simp_all add: hs_rest_def)

lemma hs_rest_maybe_close [simp]: "hs_rest (maybe_close_stream s) = hs_rest s"
  by (simp add: maybe_close_stream_def)

lemma hs_rest_delete_reader: "\<not> hs_reader s \<Longrightarrow> hs_rest (delete_reader s) = hs_rest s"
  by (simp add: delete_reader_def reading_finished_def)

lemma hs_rest_reader_acts [simp]: "hs_rest (hs_reader_acts s) = hs_rest s"
  by (simp add: hs_reader_acts_def hs_rest_delete_reader split: list.splits read_action.splits)

lemma hs_rest_invoke [simp]: "hs_rest (hs_invoke_read ec d s) = hs_rest s"
  by (simp add: hs_invoke_read_def)

lemmas hs_invoke_fields [simp] = hs_rest_eqD [OF hs_rest_invoke]

section \<open>The body on its way to the reader\<close>

text \<open>\<open>rest\<close> is what has been received and not been delivered.\<close>

definition hs_core :: "bytes \<Rightarrow> h2_stream \<Rightarrow> bool" where
  "hs_core rest s =
     (hs_delivered s @ rest = hs_received s \<and> hs_bytesRead s = length (hs_delivered s) \<and>
      (\<forall>n. hs_read_handler s = Some n \<longrightarrow> n > 0 \<and> hs_reader s) \<and>
      (hs_eof_seen s \<longrightarrow> hs_eof_received s \<and> rest = []))"

lemma hs_acts_core:
  assumes "hs_core rest s" and "hs_read_handler s = None"
  shows "hs_core rest (hs_reader_acts s)"
    and "hs_delivered (hs_reader_acts s) = hs_delivered s" and "hs_credited (hs_reader_acts s) = hs_credited s"
  using assms
  by (auto simp: hs_core_def stream_defs reading_finished_def Let_def hs_delivered_def hs_credited_def hs_eof_seen_def
      split: list.splits read_action.splits)

lemma hs_invoke_core:
  assumes "hs_core (d @ rest) s" and "ec = Eof \<longrightarrow> hs_eof_received s \<and> d @ rest = []"
    and "t = s\<lparr>hs_read_buffer := b, hs_bytesRead := hs_bytesRead s + length d\<rparr>"
  shows "hs_core rest (hs_invoke_read ec d t)"
    and "hs_delivered (hs_invoke_read ec d t) = hs_delivered s @ d"
    and "hs_credited (hs_invoke_read ec d t) = hs_credited s"
proof -
  let ?u = "hs_emit (H2_read ec d (length d)) (t\<lparr>hs_read_handler := None\<rparr>)"
  have "hs_core rest ?u"
    using assms by (auto simp: hs_core_def assms(3)) (auto simp: hs_emit_def)
  moreover have "hs_read_handler ?u = None" by (simp add: hs_emit_def)
  moreover have "hs_delivered ?u = hs_delivered s @ d" "hs_credited ?u = hs_credited s" by (simp_all add: assms(3))
  ultimately show "hs_core rest (hs_invoke_read ec d t)"
    and "hs_delivered (hs_invoke_read ec d t) = hs_delivered s @ d"
    and "hs_credited (hs_invoke_read ec d t) = hs_credited s"
    using hs_acts_core [of rest ?u] by (simp_all add: hs_invoke_read_def)
qed

text \<open>The queue while it is being delivered from: the new data comes last, and only there is a view of it
  as long as older buffers are left.\<close>

definition loop_ok :: "bytes \<Rightarrow> bytes list \<Rightarrow> bytes \<Rightarrow> bool" where
  "loop_ok h p view =
     ((p \<noteq> [] \<longrightarrow> h \<noteq> [] \<and> suffix h (hd p)) \<and> (\<forall>b \<in> set (tl p). b \<noteq> []) \<and> (p = [] \<longrightarrow> view = []))"

lemma loop_ok_queue: "loop_ok h p [] \<Longrightarrow> p \<noteq> [] \<or> h = [] \<Longrightarrow> queue_ok h p"
  by (auto simp: loop_ok_def queue_ok_def)

lemma next_buffer_eq:
  "next_buffer view s =
     (if hs_read_buffer s \<noteq> [] then (s, view)
      else case tl (hs_pending_read_buffers s) of
             b # p \<Rightarrow> (s\<lparr>hs_pending_read_buffers := b # p, hs_read_buffer := b\<rparr>, view)
           | [] \<Rightarrow> (s\<lparr>hs_pending_read_buffers := [], hs_read_buffer := view\<rparr>, []))"
  by (cases "hs_pending_read_buffers s") (simp_all add: next_buffer_def Let_def split: list.splits)

lemma next_buffer_ok:
  assumes "loop_ok h (hs_pending_read_buffers s) view" and "suffix (hs_read_buffer s) h"
    and "next_buffer view s = (t, v)"
  shows "loop_ok (hs_read_buffer t) (hs_pending_read_buffers t) v"
    and "hs_buffered t @ v = hs_buffered s @ view"
    and "t = s\<lparr>hs_pending_read_buffers := hs_pending_read_buffers t, hs_read_buffer := hs_read_buffer t\<rparr>"
proof -
  consider (more) "hs_read_buffer s \<noteq> []" "t = s" "v = view"
    | (next_buf) b p where "hs_read_buffer s = []" "tl (hs_pending_read_buffers s) = b # p" "v = view"
        "t = s\<lparr>hs_pending_read_buffers := b # p, hs_read_buffer := b\<rparr>"
    | (view) "hs_read_buffer s = []" "tl (hs_pending_read_buffers s) = []" "v = []"
        "t = s\<lparr>hs_pending_read_buffers := [], hs_read_buffer := view\<rparr>"
    using assms(3) by (auto simp: next_buffer_eq split: if_splits list.splits)
  then have "loop_ok (hs_read_buffer t) (hs_pending_read_buffers t) v \<and> hs_buffered t @ v = hs_buffered s @ view \<and>
    t = s\<lparr>hs_pending_read_buffers := hs_pending_read_buffers t, hs_read_buffer := hs_read_buffer t\<rparr>"
  proof cases
    case more
    then show ?thesis using assms(1,2) suffix_order.trans [OF assms(2)] by (auto simp: loop_ok_def)
  next
    case next_buf
    then show ?thesis using assms(1) by (simp add: loop_ok_def hs_buffered_def)
  next
    case view
    then show ?thesis by (simp add: loop_ok_def hs_buffered_def)
  qed
  then show "loop_ok (hs_read_buffer t) (hs_pending_read_buffers t) v" "hs_buffered t @ v = hs_buffered s @ view"
    "t = s\<lparr>hs_pending_read_buffers := hs_pending_read_buffers t, hs_read_buffer := hs_read_buffer t\<rparr>" by blast+
qed

lemma hs_core_queue_upd [simp]:
  "hs_core rest (s\<lparr>hs_pending_read_buffers := p, hs_read_buffer := b\<rparr>) = hs_core rest s"
  "hs_core rest (s\<lparr>hs_read_buffer := b\<rparr>) = hs_core rest s"
  "hs_core rest (s\<lparr>hs_pending_read_buffers := p\<rparr>) = hs_core rest s"
  "hs_core rest (s\<lparr>hs_inside_call_read_handler := i\<rparr>) = hs_core rest s"
  by (simp_all add: hs_core_def)

text \<open>What delivering leaves alone.\<close>

definition hs_rest2 :: "h2_stream \<Rightarrow> h2_stream" where
  "hs_rest2 s = (hs_rest s)\<lparr>hs_read_buffer := [], hs_pending_read_buffers := [], hs_bytesRead := 0\<rparr>"

lemma hs_rest2_rest: "hs_rest s = hs_rest t \<Longrightarrow> hs_rest2 s = hs_rest2 t"
  by (simp add: hs_rest2_def)

lemma hs_rest2_eqD:
  assumes "hs_rest2 s = hs_rest2 t"
  shows "hs_eof_received s = hs_eof_received t" "hs_received s = hs_received t"
    "hs_inside_call_read_handler s = hs_inside_call_read_handler t" "hs_closed s = hs_closed t"
    "hs_close_deferred s = hs_close_deferred t" "hs_in_map s = hs_in_map t"
    "hs_response_handler s = hs_response_handler t" "hs_response_delivered s = hs_response_delivered t"
    "hs_has_response s = hs_has_response t" "hs_response_error s = hs_response_error t" "hs_server s = hs_server t"
    "hs_write_handler s = hs_write_handler t" "hs_write_buffer s = hs_write_buffer t" "hs_eof_requested s = hs_eof_requested t"
    "hs_eof_submitted s = hs_eof_submitted t" "hs_is_deferred s = hs_is_deferred t" "hs_body s = hs_body t"
    "hs_wire s = hs_wire t" "hs_writer s = hs_writer t" "hs_header_limit_exceeded s = hs_header_limit_exceeded t"
  using assms by (cases s; cases t; simp add: hs_rest2_def hs_rest_def)+

lemma hs_rest2_simps [simp]:
  "hs_rest2 (s\<lparr>hs_read_buffer := b\<rparr>) = hs_rest2 s" "hs_rest2 (s\<lparr>hs_pending_read_buffers := p\<rparr>) = hs_rest2 s"
  "hs_rest2 (s\<lparr>hs_bytesRead := n\<rparr>) = hs_rest2 s" "hs_rest2 (hs_emit e s) = hs_rest2 s"
  "hs_rest2 (s\<lparr>hs_read_handler := h\<rparr>) = hs_rest2 s"
  by (simp_all add: hs_rest2_def hs_rest_def hs_emit_def)

lemma hs_rest2_invoke [simp]: "hs_rest2 (hs_invoke_read ec d s) = hs_rest2 s"
  by (rule hs_rest2_rest) simp

section \<open>Delivering\<close>

lemma deliver_loop_ok:
  assumes "hs_core (hs_buffered s @ view) s" and "loop_ok (hs_read_buffer s) (hs_pending_read_buffers s) view"
    and "deliver_loop s view c = (s', view', c')"
  shows "hs_core (hs_buffered s' @ view') s' \<and> loop_ok (hs_read_buffer s') (hs_pending_read_buffers s') view' \<and>
         hs_rest2 s' = hs_rest2 s \<and> hs_credited s' = hs_credited s \<and>
         length (hs_delivered s') + c = length (hs_delivered s) + c' \<and>
         (hs_read_handler s' \<noteq> None \<longrightarrow> hs_read_buffer s' = [])"
  using assms
proof (induction s view c arbitrary: s' view' c' rule: deliver_loop.induct)
  case (1 s view c)
  consider (none) "hs_read_handler s = None" | (empty) "hs_read_buffer s = []"
    | (go) n where "hs_read_handler s = Some n" "hs_read_buffer s \<noteq> []" by blast
  then show ?case
  proof cases
    case none
    with "1.prems" show ?thesis by (simp add: deliver_loop.simps [of s view c])
  next
    case empty
    with "1.prems" show ?thesis
      by (simp add: deliver_loop.simps [of s view c] split: option.splits)
  next
    case (go n)
    define d where "d = take n (hs_read_buffer s)"
    define b where "b = drop (length d) (hs_read_buffer s)"
    define s1 where "s1 = s\<lparr>hs_bytesRead := hs_bytesRead s + length d, hs_read_buffer := b\<rparr>"
    define u where "u = hs_invoke_read Success d s1"
    obtain t v where nb: "next_buffer view u = (t, v)" by fastforce
    have split: "hs_read_buffer s = d @ b" by (simp add: d_def b_def min_def)
    have s1': "s1 = s\<lparr>hs_read_buffer := b, hs_bytesRead := hs_bytesRead s + length d\<rparr>" by (simp add: s1_def)
    have uf: "hs_read_buffer u = b" "hs_pending_read_buffers u = hs_pending_read_buffers s"
      by (simp_all add: u_def s1_def)
    have buf: "d @ hs_buffered u @ view = hs_buffered s @ view" by (simp add: hs_buffered_def uf split)
    have core: "hs_core (hs_buffered u @ view) u" and del: "hs_delivered u = hs_delivered s @ d"
      and cred: "hs_credited u = hs_credited s"
      using hs_invoke_core [where rest = "hs_buffered u @ view" and ec = Success, OF _ _ s1', folded u_def]
        "1.prems"(1) buf by simp_all
    note n = next_buffer_ok [OF _ _ nb, of "hs_read_buffer s"]
    have suf: "suffix (hs_read_buffer u) (hs_read_buffer s)" by (simp add: uf split suffix_def)
    have ok: "loop_ok (hs_read_buffer t) (hs_pending_read_buffers t) v" and bt: "hs_buffered t @ v = hs_buffered u @ view"
      and t: "t = u\<lparr>hs_pending_read_buffers := hs_pending_read_buffers t, hs_read_buffer := hs_read_buffer t\<rparr>"
      using n suf "1.prems"(2) uf by auto
    have core_t: "hs_core (hs_buffered t @ v) t" using core bt t by (metis hs_core_queue_upd(1))
    have same: "hs_rest2 t = hs_rest2 s" "hs_credited t = hs_credited s" "hs_delivered t = hs_delivered s @ d"
      using arg_cong [OF t, of hs_rest2] arg_cong [OF t, of hs_credited] arg_cong [OF t, of hs_delivered] cred del
      by (simp_all add: u_def s1_def)
    have rec: "deliver_loop t v (c + length d) = (s', view', c')"
      using "1.prems"(3) go nb
      by (simp add: deliver_loop.simps [of s view c] Let_def d_def b_def s1_def u_def)
    from "1.IH" [OF go(1,2) d_def s1_def [unfolded b_def] refl nb [unfolded u_def, symmetric] core_t ok rec] same show ?thesis by simp
  qed
qed

lemma hs_invoke_nothing:
  assumes "hs_core rest s" and "ec = Eof \<longrightarrow> hs_eof_received s \<and> rest = []"
  shows "hs_core rest (hs_invoke_read ec [] s)"
    and "hs_delivered (hs_invoke_read ec [] s) = hs_delivered s"
    and "hs_credited (hs_invoke_read ec [] s) = hs_credited s"
  using hs_invoke_core [of "[]" rest s ec s "hs_read_buffer s"] assms by simp_all

lemma eof_loop_ok:
  assumes "hs_core [] s" and "hs_eof_received s"
  shows "hs_core [] (eof_loop s) \<and> hs_read_handler (eof_loop s) = None \<and> hs_rest (eof_loop s) = hs_rest s \<and>
         hs_credited (eof_loop s) = hs_credited s \<and> hs_delivered (eof_loop s) = hs_delivered s"
  using assms
proof (induction s rule: eof_loop.induct)
  case (1 s)
  show ?case
  proof (cases "hs_read_handler s")
    case None
    with "1.prems" show ?thesis by (simp add: eof_loop.simps [of s])
  next
    case (Some n)
    have "eof_loop s = eof_loop (hs_invoke_read Eof [] s)" using Some by (subst eof_loop.simps) simp
    with "1.IH" Some hs_invoke_nothing [OF "1.prems"(1), of Eof] "1.prems"(2) show ?thesis by simp
  qed
qed

definition hs_read_inv :: "h2_stream \<Rightarrow> bool" where
  "hs_read_inv s = (queue_ok (hs_read_buffer s) (hs_pending_read_buffers s) \<and> hs_core (hs_buffered s) s)"

text \<open>Between operations: nobody is delivering, credit was given for what was delivered, and a read only
  waits when there is nothing for it.\<close>

definition hs_read_idle :: "h2_stream \<Rightarrow> bool" where
  "hs_read_idle s =
     (\<not> hs_inside_call_read_handler s \<and> hs_credited s = length (hs_delivered s) \<and>
      (hs_read_handler s \<noteq> None \<longrightarrow> hs_buffered s = [] \<and> \<not> hs_eof_received s))"

lemma hs_read_inv_cong:
  assumes "hs_rest s = hs_rest t" "hs_core (hs_buffered t) s" "hs_read_inv t"
  shows "hs_read_inv s"
  using assms hs_rest_eqD(1,2) [OF assms(1)] by (simp add: hs_read_inv_def hs_buffered_def)

lemma hs_store_ok:
  assumes "hs_core (hs_buffered s @ view) s" and "loop_ok (hs_read_buffer s) (hs_pending_read_buffers s) view"
  shows "hs_read_inv (hs_store view s)" and "hs_rest2 (hs_store view s) = hs_rest2 s"
    and "hs_read_handler (hs_store view s) = hs_read_handler s" and "hs_read_buffer (hs_store view s) = hs_read_buffer s"
    and "hs_delivered (hs_store view s) = hs_delivered s" and "hs_credited (hs_store view s) = hs_credited s"
    and "hs_reader (hs_store view s) = hs_reader s"
proof -
  show "hs_read_inv (hs_store view s)"
    using assms
    by (cases "hs_pending_read_buffers s")
      (auto simp: hs_store_def hs_read_inv_def hs_buffered_def loop_ok_def queue_ok_def)
qed (simp_all add: hs_store_def)

lemma hs_consume_ok:
  assumes "hs_core rest s"
  shows "hs_core rest (hs_consume c s)" and "hs_rest (hs_consume c s) = hs_rest s"
    and "hs_read_handler (hs_consume c s) = hs_read_handler s" and "hs_reader (hs_consume c s) = hs_reader s"
    and "hs_delivered (hs_consume c s) = hs_delivered s" and "hs_credited (hs_consume c s) = hs_credited s + c"
proof -
  show "hs_read_handler (hs_consume c s) = hs_read_handler s" "hs_reader (hs_consume c s) = hs_reader s"
    by (simp_all add: hs_consume_def hs_emit_def)
  show "hs_delivered (hs_consume c s) = hs_delivered s" "hs_credited (hs_consume c s) = hs_credited s + c"
    and "hs_rest (hs_consume c s) = hs_rest s"
    by (simp_all add: hs_consume_def)
  show "hs_core rest (hs_consume c s)"
    using assms by (auto simp: hs_core_def hs_consume_def) (auto simp: hs_emit_def)
qed

lemma finish_delivery_ok:
  assumes "hs_core (hs_buffered s @ view) s" and "loop_ok (hs_read_buffer s) (hs_pending_read_buffers s) view"
    and "hs_credited s = length (hs_delivered s)" and "hs_read_handler s \<noteq> None \<longrightarrow> hs_read_buffer s = []"
  defines "t \<equiv> finish_delivery view s"
  shows "hs_read_inv t \<and> hs_rest2 t = hs_rest2 s \<and> hs_credited t = length (hs_delivered t) \<and>
         (hs_read_handler t \<noteq> None \<longrightarrow> hs_buffered t = [] \<and> \<not> hs_eof_received t)"
proof (cases "hs_read_buffer s = [] \<and> hs_eof_received s")
  case True
  with assms(2) have none: "hs_pending_read_buffers s = []" "view = []" by (auto simp: loop_ok_def)
  with True assms(1) have "hs_core [] s" by (simp add: hs_buffered_def)
  note E = eof_loop_ok [OF this conjunct2 [OF True]]
  have t: "t = eof_loop s" using True by (simp add: t_def finish_delivery_def)
  have q: "hs_read_buffer t = []" "hs_pending_read_buffers t = []"
    using hs_rest_eqD(1,2) [of t s] E True none by (simp_all add: t)
  then have "hs_read_inv t" using E by (simp add: t hs_read_inv_def hs_buffered_def)
  with E assms(3) hs_rest2_rest [of t s] show ?thesis by (simp add: t)
next
  case False
  let ?u = "hs_store view s"
  note S = hs_store_ok [OF assms(1,2)]
  have t: "t = (if hs_read_handler ?u = None then ?u
                else if reading_finished ?u \<or> hs_closed ?u then hs_invoke_read Partial_message [] ?u else ?u)"
    unfolding t_def finish_delivery_def Let_def if_not_P [OF False] ..
  have wait: "hs_buffered ?u = [] \<and> \<not> hs_eof_received ?u" if "hs_read_handler ?u \<noteq> None"
    using that S(1,3,4) assms(4) False hs_rest2_eqD(1) [OF S(2)]
    by (auto simp: hs_read_inv_def hs_buffered_def queue_ok_def)
  have core: "hs_core (hs_buffered ?u) ?u" using S(1) by (simp add: hs_read_inv_def)
  note I = hs_invoke_nothing [OF core, of Partial_message]
  have inv: "hs_read_inv (hs_invoke_read Partial_message [] ?u)"
    using I by (intro hs_read_inv_cong [OF _ _ S(1)]) simp_all
  have "hs_buffered (hs_invoke_read Partial_message [] ?u) = hs_buffered ?u" by (simp add: hs_buffered_def)
  then show ?thesis
    using S inv I wait assms(3) by (auto simp: t)
qed

lemma deliver_and_finish_ok:
  assumes "queue_ok (hs_read_buffer s) (hs_pending_read_buffers s)" and "hs_core (hs_buffered s @ view) s"
    and "hs_credited s = length (hs_delivered s)"
  defines "t \<equiv> deliver_and_finish view s"
  shows "hs_read_inv t \<and> hs_rest2 t = hs_rest2 s \<and> hs_credited t = length (hs_delivered t) \<and>
         (hs_read_handler t \<noteq> None \<longrightarrow> hs_buffered t = [] \<and> \<not> hs_eof_received t)"
proof -
  define s1 where "s1 = (if hs_pending_read_buffers s = [] then s\<lparr>hs_read_buffer := view\<rparr> else s)"
  define v1 where "v1 = (if hs_pending_read_buffers s = [] then [] else view)"
  have empty: "hs_pending_read_buffers s = [] \<Longrightarrow> hs_read_buffer s = []"
    using assms(1) by (simp add: queue_ok_def)
  have ok1: "loop_ok (hs_read_buffer s1) (hs_pending_read_buffers s1) v1"
    using assms(1) by (auto simp: s1_def v1_def loop_ok_def queue_ok_def)
  have core1: "hs_core (hs_buffered s1 @ v1) s1"
    using assms(2) empty by (auto simp: s1_def v1_def hs_buffered_def)
  have same1: "hs_rest2 s1 = hs_rest2 s" "hs_credited s1 = hs_credited s" "hs_delivered s1 = hs_delivered s"
    by (simp_all add: s1_def)
  obtain s2 v2 c where loop: "deliver_loop s1 v1 0 = (s2, v2, c)" using prod_cases3 by blast
  note L = deliver_loop_ok [OF core1 ok1 loop]
  note C = hs_consume_ok [OF conjunct1 [OF L], of c]
  have t: "t = finish_delivery v2 (hs_consume c s2)"
    using loop empty by (auto simp: t_def deliver_and_finish_def s1_def v1_def split: if_splits)
  have b: "hs_buffered (hs_consume c s2) = hs_buffered s2" "hs_read_buffer (hs_consume c s2) = hs_read_buffer s2"
    "hs_pending_read_buffers (hs_consume c s2) = hs_pending_read_buffers s2"
    using hs_rest_eqD(1,2) [OF C(2)] by (simp_all add: hs_buffered_def)
  have "hs_credited (hs_consume c s2) = length (hs_delivered (hs_consume c s2))"
    using C(5,6) L same1 assms(3) by simp
  with finish_delivery_ok [of "hs_consume c s2" v2] C L b hs_rest2_rest [OF C(2)] same1(1) show ?thesis
    by (simp add: t)
qed

lemma call_read_handler_body_ok:
  assumes "queue_ok (hs_read_buffer s) (hs_pending_read_buffers s)" and "hs_core (hs_buffered s @ view) s"
    and "hs_credited s = length (hs_delivered s)" and "\<not> hs_inside_call_read_handler s"
  defines "t \<equiv> call_read_handler_body view s"
  shows "hs_read_inv t" and "hs_read_idle t" and "hs_rest2 t = hs_rest2 s"
proof -
  let ?s = "s\<lparr>hs_inside_call_read_handler := True\<rparr>"
  let ?d = "deliver_and_finish view ?s"
  have "hs_read_inv t \<and> hs_read_idle t \<and> hs_rest2 t = hs_rest2 s"
  proof (cases "hs_read_handler s")
    case None
    have "length (hs_pending_read_buffers s @ [view]) = 1 \<longleftrightarrow> hs_read_buffer s = []"
      using assms(1) by (auto simp: queue_ok_def)
    then have t: "t = (if view = [] then s else s\<lparr>hs_pending_read_buffers := hs_pending_read_buffers s @ [view],
        hs_read_buffer := (if hs_read_buffer s = [] then hd (hs_pending_read_buffers s @ [view]) else hs_read_buffer s)\<rparr>)"
      using None by (simp add: t_def call_read_handler_body_def Let_def)
    have buf: "hs_buffered t = hs_buffered s @ view"
      using assms(1) by (cases "hs_pending_read_buffers s") (auto simp: t hs_buffered_def queue_ok_def)
    have "hs_core (hs_buffered s @ view) t" using assms(2) by (cases "view = []") (simp_all add: t)
    moreover have "queue_ok (hs_read_buffer t) (hs_pending_read_buffers t)"
      using assms(1) queue_ok_push [OF assms(1), of view] by (cases "view = []") (simp_all add: t)
    ultimately show ?thesis using buf None assms(3,4) by (simp add: hs_read_inv_def hs_read_idle_def t)
  next
    case (Some n)
    have t: "t = ?d\<lparr>hs_inside_call_read_handler := False\<rparr>"
      using Some assms(4) by (simp add: t_def call_read_handler_body_def)
    have "hs_buffered ?s = hs_buffered s" by (simp add: hs_buffered_def)
    then have D: "hs_read_inv ?d \<and> hs_rest2 ?d = hs_rest2 ?s \<and> hs_credited ?d = length (hs_delivered ?d) \<and>
         (hs_read_handler ?d \<noteq> None \<longrightarrow> hs_buffered ?d = [] \<and> \<not> hs_eof_received ?d)"
      using assms(1-3) by (intro deliver_and_finish_ok) simp_all
    then have "hs_rest2 (?d\<lparr>hs_inside_call_read_handler := False\<rparr>) = hs_rest2 s"
      using assms(4) by (cases s; cases ?d) (simp add: hs_rest2_def hs_rest_def)
    with D show ?thesis by (simp add: t hs_read_inv_def hs_read_idle_def hs_buffered_def)
  qed
  then show "hs_read_inv t" and "hs_read_idle t" and "hs_rest2 t = hs_rest2 s" by simp_all
qed

text \<open>A reader that is gone does not come back by itself.\<close>

lemma hs_invoke_no_reader: "\<not> hs_reader s \<Longrightarrow> \<not> hs_reader (hs_invoke_read ec d s)"
  by (auto simp: stream_defs Let_def split: list.splits read_action.splits)

lemma next_buffer_reader [simp]: "hs_reader (fst (next_buffer v t)) = hs_reader t"
  by (simp add: next_buffer_def Let_def)

lemma deliver_loop_no_reader: "\<not> hs_reader s \<Longrightarrow> \<not> hs_reader (fst (deliver_loop s view c))"
proof (induction s view c rule: deliver_loop.induct)
  case (1 s view c)
  show ?case
  proof (cases "hs_read_handler s")
    case None
    with "1.prems" show ?thesis by (subst deliver_loop.simps) simp
  next
    case (Some n)
    let ?d = "take n (hs_read_buffer s)"
    let ?s1 = "s\<lparr>hs_bytesRead := hs_bytesRead s + length ?d, hs_read_buffer := drop (length ?d) (hs_read_buffer s)\<rparr>"
    let ?nb = "next_buffer view (hs_invoke_read Success ?d ?s1)"
    have "\<not> hs_reader (fst ?nb)" using "1.prems" by (simp add: hs_invoke_no_reader)
    with "1.IH" [OF Some _ refl refl refl, of "fst ?nb" "snd ?nb"] "1.prems" Some show ?thesis
      by (subst deliver_loop.simps) (simp add: Let_def split_beta)
  qed
qed

lemma eof_loop_no_reader: "\<not> hs_reader s \<Longrightarrow> \<not> hs_reader (eof_loop s)"
proof (induction s rule: eof_loop.induct)
  case (1 s)
  then show ?case by (subst eof_loop.simps) (simp add: hs_invoke_no_reader)
qed

lemma finish_delivery_no_reader: "\<not> hs_reader s \<Longrightarrow> \<not> hs_reader (finish_delivery view s)"
  by (simp add: finish_delivery_def Let_def hs_store_def eof_loop_no_reader hs_invoke_no_reader)

lemma deliver_and_finish_no_reader: "\<not> hs_reader s \<Longrightarrow> \<not> hs_reader (deliver_and_finish view s)"
  unfolding deliver_and_finish_def Let_def split_beta
  by (rule finish_delivery_no_reader)
    (simp add: hs_consume_def hs_emit_def deliver_loop_no_reader)

lemma call_read_handler_body_no_reader: "\<not> hs_reader s \<Longrightarrow> \<not> hs_reader (call_read_handler_body view s)"
  by (simp add: call_read_handler_body_def Let_def deliver_and_finish_no_reader)

text \<open>With nothing buffered, nothing is delivered.\<close>

lemma call_read_handler_body_empty:
  assumes "hs_read_buffer s = []" "hs_pending_read_buffers s = []" "hs_eof_received s"
    "hs_core [] s" "\<not> hs_inside_call_read_handler s"
  shows "hs_buffered (call_read_handler_body [] s) = []"
proof (cases "hs_read_handler s")
  case None
  with assms show ?thesis by (simp add: call_read_handler_body_def hs_buffered_def)
next
  case (Some n)
  let ?s = "s\<lparr>hs_inside_call_read_handler := True, hs_read_buffer := []\<rparr>"
  have "deliver_loop ?s [] 0 = (?s, [], 0)"
    using Some by (subst deliver_loop.simps) simp
  then have "deliver_and_finish [] (s\<lparr>hs_inside_call_read_handler := True\<rparr>) = eof_loop ?s"
    using assms(1-3) by (simp add: deliver_and_finish_def finish_delivery_def hs_consume_def)
  then have "call_read_handler_body [] s = (eof_loop ?s)\<lparr>hs_inside_call_read_handler := False\<rparr>"
    using Some assms(5) by (simp add: call_read_handler_body_def)
  moreover have "hs_rest (eof_loop ?s) = hs_rest ?s" using eof_loop_ok [of ?s] assms(3,4) by simp
  ultimately show ?thesis
    using hs_rest_eqD(1,2) [of "eof_loop ?s" ?s] assms(1,2) by (simp add: hs_buffered_def)
qed

end
