(* ===== verification/H2_Machine.thy ===== *)
theory H2_Machine
  imports H2_Stream_Read
begin

text \<open>
  An HTTP/2 stream as a machine, as in \<open>Quic_Machine\<close>: the operations of the application, of
  nghttp2 and of the session in any order, the invariant they keep, and the contracts of
  \<open>Body_Contract\<close> interpreted on the stream's own definitions.
\<close>

section \<open>The invariant\<close>

text \<open>The outgoing side: a write that waits holds what is left of its buffer, nghttp2 was given all the
  rest, and knows that there is more to come.\<close>

definition hs_write_inv :: "h2_stream \<Rightarrow> bool" where
  "hs_write_inv s =
     ((hs_write_handler s \<longrightarrow>
         hs_body s = hs_wire s @ hs_write_buffer s \<and> \<not> hs_eof_submitted s \<and> \<not> hs_closed s \<and>
         \<not> hs_is_deferred s \<and> (hs_write_buffer s = [] \<longrightarrow> hs_eof_requested s)) \<and>
      (\<not> hs_write_handler s \<longrightarrow> hs_body s = hs_wire s) \<and>
      (hs_eof_submitted s \<longrightarrow> hs_eof_requested s))"

text \<open>Closing and the response: what the flags of a stream have to do with each other.\<close>

definition hs_life :: "h2_stream \<Rightarrow> bool" where
  "hs_life s =
     ((hs_close_deferred s \<longrightarrow> hs_closed s \<and> hs_in_map s \<and> hs_eof_received s \<and> (hs_server s \<or> hs_response_delivered s)) \<and>
      (\<not> hs_in_map s \<longrightarrow> hs_closed s) \<and>
      (\<not> hs_in_map s \<and> hs_reader s \<and> hs_eof_received s \<longrightarrow> hs_buffered s = []) \<and>
      (\<not> hs_server s \<and> hs_reader s \<longrightarrow> hs_response_delivered s) \<and>
      (hs_server s \<longrightarrow> \<not> hs_has_response s \<and> hs_response_error s = Success \<and> \<not> hs_response_handler s) \<and>
      (hs_response_handler s \<longrightarrow>
         \<not> hs_response_delivered s \<and> \<not> hs_has_response s \<and> hs_response_error s = Success) \<and>
      (\<not> hs_server s \<and> hs_closed s \<and> hs_in_map s \<and> \<not> hs_response_delivered s \<longrightarrow>
         hs_has_response s \<or> hs_response_error s \<noteq> Success) \<and>
      (\<not> hs_in_map s \<and> \<not> hs_response_delivered s \<longrightarrow> \<not> hs_has_response s \<and> hs_response_error s = Success) \<and>
      (hs_response_delivered s \<longrightarrow> hs_has_response s \<or> hs_response_error s \<noteq> Success))"

text \<open>Between operations: a close is put off only as long as the reader has not taken all of the body,
  and on the server a stream that is closed is kept for nothing else.\<close>

definition hs_settled :: "h2_stream \<Rightarrow> bool" where
  "hs_settled s =
     ((hs_close_deferred s \<longrightarrow> \<not> reading_finished s) \<and>
      (hs_server s \<and> hs_closed s \<and> hs_in_map s \<longrightarrow> hs_close_deferred s))"

definition hs_pre :: "h2_stream \<Rightarrow> bool" where
  "hs_pre s = (hs_read_inv s \<and> hs_read_idle s \<and> hs_write_inv s \<and> hs_life s)"

definition hs_inv :: "h2_stream \<Rightarrow> bool" where
  "hs_inv s = (hs_pre s \<and> hs_settled s)"

lemma hs_invD:
  assumes "hs_inv s"
  shows "hs_pre s" "hs_read_inv s" "hs_read_idle s" "hs_write_inv s" "hs_life s" "hs_settled s"
  using assms by (simp_all add: hs_inv_def hs_pre_def)

section \<open>Delivering keeps the rest\<close>

lemma rest2_write_inv:
  assumes "hs_rest2 s = hs_rest2 t"
  shows "hs_write_inv s = hs_write_inv t"
  unfolding hs_write_inv_def by (simp only: hs_rest2_eqD [OF assms])

lemma rest2_life:
  assumes "hs_rest2 s = hs_rest2 t" and "hs_life t" and "hs_reader s \<Longrightarrow> hs_reader t"
    and "\<not> hs_in_map t \<Longrightarrow> hs_reader s \<Longrightarrow> hs_eof_received t \<Longrightarrow> hs_buffered s = []"
  shows "hs_life s"
  using assms(2-4) unfolding hs_life_def hs_rest2_eqD [OF assms(1)] by blast

lemma call_body_pre:
  assumes q: "queue_ok (hs_read_buffer t) (hs_pending_read_buffers t)" and k: "hs_core (hs_buffered t @ view) t"
    and i: "hs_credited t = length (hs_delivered t)" "\<not> hs_inside_call_read_handler t"
    and tw: "hs_write_inv t" and tl: "hs_life t" and v: "\<not> hs_in_map t \<longrightarrow> view = []"
  shows "hs_pre (call_read_handler_body view t)" and "hs_rest2 (call_read_handler_body view t) = hs_rest2 t"
proof -
  let ?u = "call_read_handler_body view t"
  note B = call_read_handler_body_ok [OF q k i]
  show "hs_rest2 ?u = hs_rest2 t" by (rule B(3))
  have "hs_buffered ?u = []" if "\<not> hs_in_map t" "hs_reader ?u" "hs_eof_received t"
  proof -
    have "hs_buffered t = []"
      using tl that call_read_handler_body_no_reader [of t view] by (auto simp: hs_life_def)
    then have b: "hs_read_buffer t = []" "hs_pending_read_buffers t = []"
      using q queue_ok_head_Nil by (auto simp: hs_buffered_def)
    with call_read_handler_body_empty [OF b that(3) _ i(2)] k v that(1) show ?thesis by (simp add: hs_buffered_def)
  qed
  then have "hs_life ?u"
    using rest2_life [OF B(3) tl] call_read_handler_body_no_reader [of t view] by blast
  with B(1,2) rest2_write_inv [OF B(3)] tw show "hs_pre ?u" by (simp add: hs_pre_def)
qed

section \<open>Closing\<close>

lemma hs_pre_invoke_partial:
  assumes "hs_pre s" and "hs_read_handler s \<noteq> None"
  shows "hs_read_inv (hs_invoke_read Partial_message [] s)"
    and "hs_credited (hs_invoke_read Partial_message [] s) = length (hs_delivered (hs_invoke_read Partial_message [] s))"
    and "hs_buffered (hs_invoke_read Partial_message [] s) = []"
proof -
  have r: "hs_read_inv s" "hs_read_idle s" using assms(1) by (simp_all add: hs_pre_def)
  have core: "hs_core (hs_buffered s) s" using r(1) by (simp add: hs_read_inv_def)
  note I = hs_invoke_nothing [OF core, of Partial_message]
  show "hs_read_inv (hs_invoke_read Partial_message [] s)"
    using I by (intro hs_read_inv_cong [OF _ _ r(1)]) simp_all
  show "hs_credited (hs_invoke_read Partial_message [] s) = length (hs_delivered (hs_invoke_read Partial_message [] s))"
    using I r(2) by (simp add: hs_read_idle_def)
  show "hs_buffered (hs_invoke_read Partial_message [] s) = []"
    using r(2) assms(2) by (simp add: hs_read_idle_def hs_buffered_def)
qed

text \<open>Taking the stream out of the map: the read that waits is told, and so is one that follows it.\<close>

lemma hs_erase_pre:
  assumes "hs_pre s" and "\<not> hs_in_map s" and "\<not> hs_close_deferred s"
  defines "t \<equiv> if hs_read_handler s \<noteq> None then call_read_handler_body [] (hs_invoke_read Partial_message [] s) else s"
  shows "hs_pre t" and "hs_rest2 t = hs_rest2 s"
proof -
  have "hs_pre t \<and> hs_rest2 t = hs_rest2 s"
  proof (cases "hs_read_handler s = None")
    case False
    let ?i = "hs_invoke_read Partial_message [] s"
    note P = hs_pre_invoke_partial [OF assms(1) False]
    have "\<not> hs_eof_received s" using assms(1) False by (auto simp: hs_pre_def hs_read_idle_def)
    have q: "queue_ok (hs_read_buffer ?i) (hs_pending_read_buffers ?i)" "hs_core (hs_buffered ?i @ []) ?i"
      using P(1) by (simp_all add: hs_read_inv_def)
    have "\<not> hs_inside_call_read_handler ?i" using assms(1) by (simp add: hs_pre_def hs_read_idle_def)
    note B = call_read_handler_body_ok [OF q P(2) this]
    have r2: "hs_rest2 (call_read_handler_body [] ?i) = hs_rest2 s" using B(3) by simp
    have "hs_life (call_read_handler_body [] ?i)"
      using rest2_life [OF r2] assms(1) \<open>\<not> hs_eof_received s\<close> call_read_handler_body_no_reader [of ?i "[]"]
        hs_invoke_no_reader [of s Partial_message "[]"]
      by (auto simp: hs_pre_def)
    with B r2 rest2_write_inv [OF r2] assms(1) False show ?thesis by (simp add: t_def hs_pre_def)
  qed (use assms(1) in \<open>simp add: t_def\<close>)
  then show "hs_pre t" and "hs_rest2 t = hs_rest2 s" by simp_all
qed

text \<open>The write that waits when the stream closes.\<close>

definition hs_mark_closed :: "h2_stream \<Rightarrow> h2_stream" where
  "hs_mark_closed s =
     (let s1 = s\<lparr>hs_closed := True\<rparr>
      in if hs_write_handler s1
         then hs_emit (H2_write Connection_reset) (s1\<lparr>hs_write_handler := False, hs_body := hs_wire s1\<rparr>)
         else s1)"

lemma hs_mark_closed_ok:
  assumes "hs_read_inv s" "hs_read_idle s" "hs_write_inv s"
  shows "hs_read_inv (hs_mark_closed s)" "hs_read_idle (hs_mark_closed s)" "hs_write_inv (hs_mark_closed s)"
proof -
  let ?t = "hs_mark_closed s"
  have f: "hs_read_buffer ?t = hs_read_buffer s" "hs_pending_read_buffers ?t = hs_pending_read_buffers s"
    "hs_delivered ?t = hs_delivered s" "hs_credited ?t = hs_credited s" "hs_eof_seen ?t = hs_eof_seen s"
    "hs_received ?t = hs_received s" "hs_bytesRead ?t = hs_bytesRead s" "hs_read_handler ?t = hs_read_handler s"
    "hs_reader ?t = hs_reader s" "hs_eof_received ?t = hs_eof_received s"
    "hs_inside_call_read_handler ?t = hs_inside_call_read_handler s"
    by (simp_all add: hs_mark_closed_def Let_def hs_emit_def hs_delivered_def hs_credited_def hs_eof_seen_def)
  show "hs_read_inv ?t" using assms(1) by (simp add: hs_read_inv_def hs_core_def hs_buffered_def f)
  show "hs_read_idle ?t" using assms(2) by (simp add: hs_read_idle_def hs_buffered_def f)
  show "hs_write_inv ?t"
    using assms(3) by (simp add: hs_write_inv_def hs_mark_closed_def Let_def hs_emit_def)
qed

lemma hs_mark_closed_fields [simp]:
  "hs_closed (hs_mark_closed s)" "hs_in_map (hs_mark_closed s) = hs_in_map s" "hs_reader (hs_mark_closed s) = hs_reader s"
  "hs_server (hs_mark_closed s) = hs_server s" "hs_eof_received (hs_mark_closed s) = hs_eof_received s"
  "hs_has_response (hs_mark_closed s) = hs_has_response s" "hs_response_error (hs_mark_closed s) = hs_response_error s"
  "hs_response_handler (hs_mark_closed s) = hs_response_handler s"
  "hs_response_delivered (hs_mark_closed s) = hs_response_delivered s"
  "hs_close_deferred (hs_mark_closed s) = hs_close_deferred s" "hs_buffered (hs_mark_closed s) = hs_buffered s"
  "hs_read_handler (hs_mark_closed s) = hs_read_handler s" "reading_finished (hs_mark_closed s) = reading_finished s"
  by (simp_all add: hs_mark_closed_def Let_def hs_emit_def hs_buffered_def reading_finished_def)

lemma close_stream_with_eq:
  "close_stream_with call_rh s =
     (if \<not> hs_in_map s then s
      else let s2 = hs_mark_closed s
           in if \<not> hs_response_delivered s2 \<and> (hs_has_response s2 \<or> hs_response_error s2 \<noteq> Success) then call_rh s2
              else if hs_reader s2 \<and> hs_eof_received s2 \<and> \<not> reading_finished s2 then s2\<lparr>hs_close_deferred := True\<rparr>
              else let s3 = hs_emit H2_erase (s2\<lparr>hs_in_map := False\<rparr>);
                       s4 = (if hs_read_handler s3 \<noteq> None
                             then call_read_handler_body [] (hs_invoke_read Partial_message [] s3) else s3)
                   in if hs_response_handler s4
                      then hs_emit (H2_response End_of_stream) (s4\<lparr>hs_response_handler := False\<rparr>) else s4)"
  unfolding close_stream_with_def hs_mark_closed_def Let_def ..

lemma hs_pre_update:
  assumes "hs_read_inv s" "hs_read_idle s" "hs_write_inv s" "hs_life t"
    and "hs_rest2 t = hs_rest2 (s\<lparr>hs_in_map := hs_in_map t, hs_close_deferred := hs_close_deferred t,
      hs_response_handler := hs_response_handler t, hs_response_delivered := hs_response_delivered t,
      hs_has_response := hs_has_response t, hs_response_error := hs_response_error t\<rparr>)"
    and "hs_read_buffer t = hs_read_buffer s" "hs_pending_read_buffers t = hs_pending_read_buffers s"
    and "hs_delivered t = hs_delivered s" "hs_credited t = hs_credited s" "hs_eof_seen t = hs_eof_seen s"
    and "hs_read_handler t = hs_read_handler s" "hs_bytesRead t = hs_bytesRead s" "hs_reader s \<longrightarrow> hs_reader t"
  shows "hs_pre t"
proof -
  note e = hs_rest2_eqD [OF assms(5)]
  have "hs_read_inv t" using assms(1,6-) e by (auto simp: hs_read_inv_def hs_core_def hs_buffered_def)
  moreover have "hs_read_idle t" using assms(2,6-) e by (auto simp: hs_read_idle_def hs_buffered_def)
  moreover have "hs_write_inv t" using assms(3) e by (simp add: hs_write_inv_def)
  ultimately show ?thesis using assms(4) by (simp add: hs_pre_def)
qed

lemma hs_buffered_Nil: "hs_read_inv s \<Longrightarrow> hs_read_buffer s = [] \<Longrightarrow> hs_buffered s = []"
  using queue_ok_head_Nil [of "hs_pending_read_buffers s"] by (simp add: hs_read_inv_def hs_buffered_def)

lemma hs_life_waiting: "hs_life s \<Longrightarrow> hs_read_inv s \<Longrightarrow> hs_read_handler s \<noteq> None \<Longrightarrow> hs_server s \<or> hs_response_delivered s"
  by (auto simp: hs_life_def hs_read_inv_def hs_core_def)

lemma hs_close_erase_inv:
  assumes pre: "hs_pre s" and nd: "\<not> hs_close_deferred s"
    and read: "hs_reader s \<and> hs_eof_received s \<longrightarrow> reading_finished s"
    and resp: "\<not> (\<not> hs_response_delivered s \<and> (hs_has_response s \<or> hs_response_error s \<noteq> Success))"
  defines "s3 \<equiv> hs_emit H2_erase ((hs_mark_closed s)\<lparr>hs_in_map := False\<rparr>)"
  defines "s4 \<equiv> if hs_read_handler s3 \<noteq> None
                 then call_read_handler_body [] (hs_invoke_read Partial_message [] s3) else s3"
  shows "hs_inv (if hs_response_handler s4
                 then hs_emit (H2_response End_of_stream) (s4\<lparr>hs_response_handler := False\<rparr>) else s4)"
    (is "hs_inv ?t")
proof -
  have r: "hs_read_inv s" "hs_read_idle s" "hs_write_inv s" "hs_life s" using pre by (simp_all add: hs_pre_def)
  have b: "hs_reader s \<Longrightarrow> hs_eof_received s \<Longrightarrow> hs_buffered s = []"
    using read hs_buffered_Nil [OF r(1)] by (auto simp: reading_finished_def)
  have f3: "hs_closed s3" "\<not> hs_in_map s3" "hs_reader s3 = hs_reader s" "hs_server s3 = hs_server s"
    "hs_eof_received s3 = hs_eof_received s" "hs_has_response s3 = hs_has_response s"
    "hs_response_error s3 = hs_response_error s" "hs_response_handler s3 = hs_response_handler s"
    "hs_response_delivered s3 = hs_response_delivered s" "hs_close_deferred s3 = hs_close_deferred s"
    "hs_buffered s3 = hs_buffered s"
    by (simp_all add: s3_def hs_emit_def hs_mark_closed_def Let_def hs_buffered_def)
  have "hs_life s3" using r(4) b nd resp by (simp add: hs_life_def f3) blast
  then have pre3: "hs_pre s3"
    by (intro hs_pre_update [OF hs_mark_closed_ok [OF r(1-3)]])
      (simp_all add: s3_def hs_emit_def hs_delivered_def hs_credited_def hs_eof_seen_def hs_rest2_def hs_rest_def
        hs_mark_closed_def Let_def)
  have s4: "hs_pre s4" "hs_rest2 s4 = hs_rest2 s3"
    using hs_erase_pre [OF pre3] f3 nd by (simp_all add: s4_def)
  note e = hs_rest2_eqD [OF s4(2)]
  have "hs_pre (hs_emit (H2_response End_of_stream) (s4\<lparr>hs_response_handler := False\<rparr>))"
  proof (rule hs_pre_update [of s4])
    show "hs_life (hs_emit (H2_response End_of_stream) (s4\<lparr>hs_response_handler := False\<rparr>))"
      using s4(1) by (simp add: hs_pre_def hs_life_def hs_emit_def hs_buffered_def)
  qed (use s4(1) in \<open>simp_all add: hs_pre_def hs_emit_def hs_delivered_def hs_credited_def hs_eof_seen_def
         hs_rest2_def hs_rest_def\<close>)
  then have "hs_pre ?t" using s4(1) by simp
  moreover have "hs_settled ?t" using e f3 nd by (simp add: hs_settled_def hs_emit_def)
  ultimately show ?thesis by (simp add: hs_inv_def)
qed

lemma close_stream_with_ok:
  assumes pre: "hs_pre s" and nd: "\<not> hs_close_deferred s" and map: "hs_in_map s"
    and quiet: "\<And>t. hs_read_handler t = None \<Longrightarrow> \<not> hs_close_deferred t \<Longrightarrow> call_rh t = t"
  shows "hs_inv (close_stream_with call_rh s)"
proof -
  let ?c = "hs_mark_closed s"
  have r: "hs_read_inv s" "hs_read_idle s" "hs_write_inv s" "hs_life s" using pre by (simp_all add: hs_pre_def)
  note C = hs_mark_closed_ok [OF r(1-3)]
  consider (wait) "\<not> hs_response_delivered s" "hs_has_response s \<or> hs_response_error s \<noteq> Success"
    | (late) "\<not> (\<not> hs_response_delivered s \<and> (hs_has_response s \<or> hs_response_error s \<noteq> Success))"
        "hs_reader s" "hs_eof_received s" "\<not> reading_finished s"
    | (erase) "\<not> (\<not> hs_response_delivered s \<and> (hs_has_response s \<or> hs_response_error s \<noteq> Success))"
        "\<not> (hs_reader s \<and> hs_eof_received s \<and> \<not> reading_finished s)" by blast
  then show ?thesis
  proof cases
    case wait
    with r(4) have client: "\<not> hs_server s" "\<not> hs_response_handler s" by (auto simp: hs_life_def)
    then have "hs_read_handler s = None" using hs_life_waiting [OF r(4,1)] wait by blast
    then have "close_stream_with call_rh s = ?c"
      using wait map nd by (simp add: close_stream_with_eq quiet)
    moreover have "hs_life ?c" using r(4) map nd client wait(2) by (simp add: hs_life_def)
    ultimately show ?thesis using C nd client by (simp add: hs_inv_def hs_pre_def hs_settled_def)
  next
    case late
    let ?t = "?c\<lparr>hs_close_deferred := True\<rparr>"
    have eq: "close_stream_with call_rh s = ?t"
      using late map by (auto simp: close_stream_with_eq)
    have "\<not> hs_response_handler s" "hs_server s \<or> hs_response_delivered s"
      using r(4) late(2) by (auto simp: hs_life_def)
    then have "hs_life ?t" using r(4) map late
      by (simp add: hs_life_def hs_buffered_def hs_mark_closed_fields [unfolded hs_buffered_def]) blast
    moreover have "hs_read_inv ?t" "hs_read_idle ?t" "hs_write_inv ?t"
      using C by (simp_all add: hs_read_inv_def hs_core_def hs_read_idle_def hs_write_inv_def hs_buffered_def
          hs_delivered_def hs_credited_def hs_eof_seen_def)
    moreover have "hs_settled ?t" using late by (simp add: hs_settled_def reading_finished_def hs_mark_closed_def Let_def hs_emit_def)
    ultimately show ?thesis by (simp add: eq hs_inv_def hs_pre_def)
  next
    case erase
    have "close_stream_with call_rh s =
       (let s3 = hs_emit H2_erase (?c\<lparr>hs_in_map := False\<rparr>);
            s4 = (if hs_read_handler s3 \<noteq> None
                  then call_read_handler_body [] (hs_invoke_read Partial_message [] s3) else s3)
        in if hs_response_handler s4
           then hs_emit (H2_response End_of_stream) (s4\<lparr>hs_response_handler := False\<rparr>) else s4)"
      using erase map by (simp only: close_stream_with_eq hs_mark_closed_fields Let_def if_False if_True not_True_eq_False)
    with hs_close_erase_inv [OF pre nd _ erase(1)] erase(2) show ?thesis by (simp only: Let_def) blast
  qed
qed

lemma finish_deferred_close_ok:
  assumes "hs_pre s" and "hs_server s \<and> hs_closed s \<and> hs_in_map s \<longrightarrow> hs_close_deferred s"
  shows "hs_inv (finish_deferred_close s)"
proof (cases "hs_close_deferred s \<and> reading_finished s \<and> hs_read_handler s = None \<and> \<not> hs_inside_call_read_handler s")
  case True
  let ?t = "s\<lparr>hs_close_deferred := False\<rparr>"
  have "hs_pre ?t"
    using assms(1) by (simp add: hs_pre_def hs_read_inv_def hs_core_def hs_read_idle_def hs_write_inv_def hs_life_def
        hs_buffered_def hs_delivered_def hs_credited_def hs_eof_seen_def)
  moreover have "hs_in_map ?t" using assms(1) True by (simp add: hs_pre_def hs_life_def)
  ultimately have "hs_inv (close_stream_with (call_read_handler_body []) ?t)"
    by (intro close_stream_with_ok) (simp_all add: call_read_handler_body_def)
  with True show ?thesis by (simp add: finish_deferred_close_def)
next
  case False
  have "hs_close_deferred s \<longrightarrow> \<not> reading_finished s"
    using False assms(1) by (auto simp: hs_pre_def hs_read_idle_def hs_life_def)
  with False assms show ?thesis by (auto simp: finish_deferred_close_def hs_inv_def hs_settled_def)
qed

section \<open>The machine\<close>

datatype h2_op =
    Hop_script "read_action list"
  | Hop_read nat
  | Hop_cancel_read
  | Hop_data bytes
  | Hop_eof
  | Hop_drop_reader
  | Hop_write bytes bool
  | Hop_cancel_write
  | Hop_produce nat
  | Hop_drop_writer
  | Hop_get_response
  | Hop_cancel_response
  | Hop_header_limit
  | Hop_response
  | Hop_close

fun hs_exec :: "h2_op \<Rightarrow> h2_stream \<Rightarrow> h2_stream" where
  "hs_exec (Hop_script as) s = s\<lparr>hs_script := as\<rparr>"
| "hs_exec (Hop_read n) s = hs_async_read_some n s"
| "hs_exec Hop_cancel_read s = hs_cancel_read s"
| "hs_exec (Hop_data d) s = hs_on_data d s"
| "hs_exec Hop_eof s = hs_on_eof s"
| "hs_exec Hop_drop_reader s = hs_reader_dtor s"
| "hs_exec (Hop_write b eof) s = hs_async_write b eof s"
| "hs_exec Hop_cancel_write s = hs_cancel_write s"
| "hs_exec (Hop_produce n) s = fst (producer_callback n s)"
| "hs_exec Hop_drop_writer s = hs_writer_dtor s"
| "hs_exec Hop_get_response s = async_get_response s"
| "hs_exec Hop_cancel_response s = cancel_get_response s"
| "hs_exec Hop_header_limit s = s\<lparr>hs_header_limit_exceeded := True\<rparr>"
| "hs_exec Hop_response s = on_response s"
| "hs_exec Hop_close s = close_stream s"

text \<open>nghttp2 delivers nothing for a stream it has closed, nothing behind the end of a body, closes a
  stream once, asks for data only if it has not been told to wait, and not behind the end. The
  application uses a handle only as long as it has it, and has one read, one write and one request
  for the response outstanding at a time.\<close>

fun hs_enabled :: "h2_op \<Rightarrow> h2_stream \<Rightarrow> bool" where
  "hs_enabled (Hop_read n) s = (hs_reader s \<and> hs_read_handler s = None)"
| "hs_enabled (Hop_data d) s = (hs_in_map s \<and> \<not> hs_closed s \<and> \<not> hs_eof_received s)"
| "hs_enabled Hop_eof s = (hs_in_map s \<and> \<not> hs_closed s \<and> \<not> hs_eof_received s)"
| "hs_enabled Hop_drop_reader s = (hs_reader s \<and> hs_read_handler s = None)"
| "hs_enabled (Hop_write b eof) s = (hs_writer s \<and> \<not> hs_write_handler s)"
| "hs_enabled (Hop_produce n) s = (\<not> hs_is_deferred s \<and> \<not> hs_eof_submitted s)"
| "hs_enabled Hop_drop_writer s = hs_writer s"
| "hs_enabled Hop_get_response s = (\<not> hs_server s \<and> hs_writer s \<and> \<not> hs_response_handler s)"
| "hs_enabled Hop_response s =
     (\<not> hs_server s \<and> hs_in_map s \<and> \<not> hs_closed s \<and> \<not> hs_has_response s \<and> hs_response_error s = Success)"
| "hs_enabled Hop_close s = (hs_in_map s \<and> \<not> hs_closed s)"
| "hs_enabled _ s = True"

text \<open>The two ways a stream comes into being: for a request that is submitted, and for one that came in.\<close>

definition hs_client :: h2_stream where "hs_client = hs_init\<lparr>hs_writer := True\<rparr>"
definition hs_serve :: h2_stream where "hs_serve = on_request hs_init"

lemma hs_start_inv: "hs_inv hs_client" "hs_inv hs_serve"
  by (simp_all add: hs_inv_def hs_pre_def hs_settled_def hs_client_def hs_serve_def on_request_def hs_init_def
      hs_read_inv_def hs_core_def hs_read_idle_def hs_write_inv_def hs_life_def hs_buffered_def hs_delivered_def
      hs_credited_def hs_eof_seen_def)

text \<open>The state that only the outgoing side, or only the response, has to do with.\<close>

lemma hs_inv_frame:
  assumes "hs_inv s"
    and "hs_read_buffer t = hs_read_buffer s" "hs_pending_read_buffers t = hs_pending_read_buffers s"
    "hs_bytesRead t = hs_bytesRead s" "hs_eof_received t = hs_eof_received s" "hs_received t = hs_received s"
    "hs_inside_call_read_handler t = hs_inside_call_read_handler s" "hs_closed t = hs_closed s"
    "hs_close_deferred t = hs_close_deferred s" "hs_in_map t = hs_in_map s" "hs_server t = hs_server s"
    "hs_reader t = hs_reader s" "hs_read_handler t = hs_read_handler s" "hs_delivered t = hs_delivered s"
    "hs_credited t = hs_credited s" "hs_eof_seen t = hs_eof_seen s"
    "hs_has_response t = hs_has_response s" "hs_response_error t = hs_response_error s"
    "hs_response_delivered t = hs_response_delivered s" "hs_response_handler t = hs_response_handler s"
    and "hs_write_inv t"
  shows "hs_inv t"
proof -
  have "hs_read_inv t" using hs_invD(2) [OF assms(1)] assms(2-) by (simp add: hs_read_inv_def hs_core_def hs_buffered_def)
  moreover have "hs_read_idle t" using hs_invD(3) [OF assms(1)] assms(2-) by (simp add: hs_read_idle_def hs_buffered_def)
  moreover have "hs_life t" using hs_invD(5) [OF assms(1)] assms(2-) by (simp add: hs_life_def hs_buffered_def)
  moreover have "hs_settled t" using hs_invD(6) [OF assms(1)] assms(2-) by (simp add: hs_settled_def reading_finished_def)
  ultimately show ?thesis using assms(21) by (simp add: hs_inv_def hs_pre_def)
qed

lemmas hs_log_defs = hs_delivered_def hs_credited_def hs_eof_seen_def

lemma write_ops_hs_inv:
  assumes "hs_inv s"
  shows "\<not> hs_write_handler s \<Longrightarrow> hs_inv (hs_async_write b eof s)" "hs_inv (hs_cancel_write s)"
    "\<not> hs_is_deferred s \<Longrightarrow> \<not> hs_eof_submitted s \<Longrightarrow> hs_inv (fst (producer_callback n s))" "hs_inv (hs_writer_dtor s)"
    "hs_inv (s\<lparr>hs_script := as\<rparr>)" "hs_inv (s\<lparr>hs_header_limit_exceeded := True\<rparr>)"
proof -
  have w: "hs_write_inv s" by (rule hs_invD(4) [OF assms])
  show "hs_inv (hs_async_write b eof s)" if "\<not> hs_write_handler s"
    by (rule hs_inv_frame [OF assms])
      (use w that in \<open>auto simp: hs_async_write_def resume_def hs_emit_def hs_log_defs hs_write_inv_def\<close>)
  show "hs_inv (hs_cancel_write s)"
    by (rule hs_inv_frame [OF assms]) (use w in \<open>auto simp: hs_cancel_write_def hs_emit_def hs_log_defs hs_write_inv_def\<close>)
  show "hs_inv (fst (producer_callback n s))" if "\<not> hs_is_deferred s" "\<not> hs_eof_submitted s"
    by (rule hs_inv_frame [OF assms])
      (use w that in \<open>auto simp: producer_callback_def Let_def hs_emit_def hs_log_defs hs_write_inv_def\<close>)
  show "hs_inv (hs_writer_dtor s)"
    by (rule hs_inv_frame [OF assms])
      (use w in \<open>auto simp: hs_writer_dtor_def maybe_close_stream_def hs_emit_def hs_log_defs hs_write_inv_def\<close>)
  show "hs_inv (s\<lparr>hs_script := as\<rparr>)" "hs_inv (s\<lparr>hs_header_limit_exceeded := True\<rparr>)"
    by (rule hs_inv_frame [OF assms]; use w in \<open>simp add: hs_log_defs hs_write_inv_def\<close>)+
qed

lemma hs_call_read_handler_ok:
  assumes "queue_ok (hs_read_buffer t) (hs_pending_read_buffers t)" and "hs_core (hs_buffered t @ view) t"
    and "hs_credited t = length (hs_delivered t)" "\<not> hs_inside_call_read_handler t"
    and "hs_write_inv t" and "hs_life t" and "\<not> hs_in_map t \<longrightarrow> view = []"
    and "hs_server t \<and> hs_closed t \<and> hs_in_map t \<longrightarrow> hs_close_deferred t"
  shows "hs_inv (hs_call_read_handler view t)"
proof -
  have "hs_rest2 (call_read_handler_body view t) = hs_rest2 t" by (rule call_body_pre(2) [OF assms(1-7)])
  note e = hs_rest2_eqD [OF this]
  show ?thesis
    unfolding hs_call_read_handler_def
    by (rule finish_deferred_close_ok) (use assms(8) in \<open>simp_all only: e call_body_pre(1) [OF assms(1-7)]\<close>)
qed

text \<open>The outgoing side and the life of a stream do not depend on who waits for data, or on what came.\<close>

lemma hs_write_inv_read [simp]:
  "hs_write_inv (s\<lparr>hs_read_handler := h\<rparr>) = hs_write_inv s"
  "hs_write_inv (s\<lparr>hs_received := d\<rparr>) = hs_write_inv s"
  "hs_write_inv (s\<lparr>hs_eof_received := b\<rparr>) = hs_write_inv s"
  by (simp_all add: hs_write_inv_def)

lemma hs_life_read [simp]:
  "hs_life (s\<lparr>hs_read_handler := h\<rparr>) = hs_life s"
  "hs_life (s\<lparr>hs_received := d\<rparr>) = hs_life s"
  by (simp_all add: hs_life_def hs_buffered_def)

lemma hs_life_eof: "hs_life s \<Longrightarrow> hs_in_map s \<Longrightarrow> hs_life (s\<lparr>hs_eof_received := True\<rparr>)"
  by (simp add: hs_life_def)

lemma read_ops_hs_inv:
  assumes inv: "hs_inv s"
  shows "hs_reader s \<Longrightarrow> hs_inv (hs_async_read_some n s)"
    and "hs_in_map s \<Longrightarrow> \<not> hs_eof_received s \<Longrightarrow> hs_inv (hs_on_data d s)"
    and "hs_in_map s \<Longrightarrow> \<not> hs_closed s \<Longrightarrow> hs_inv (hs_on_eof s)"
proof -
  note D = hs_invD [OF inv]
  have s: "hs_server s \<and> hs_closed s \<and> hs_in_map s \<longrightarrow> hs_close_deferred s"
    using D(6) by (simp add: hs_settled_def)
  have c: "hs_credited s = length (hs_delivered s)" "\<not> hs_inside_call_read_handler s"
    "queue_ok (hs_read_buffer s) (hs_pending_read_buffers s)" "hs_core (hs_buffered s) s"
    using D(2,3) by (simp_all add: hs_read_idle_def hs_read_inv_def)
  have z: "hs_inv (hs_emit (H2_read Success [] 0) s)"
    by (rule hs_inv_frame [OF inv]) (use D(4) in \<open>simp_all add: hs_emit_def hs_log_defs hs_write_inv_def\<close>)
  show "hs_inv (hs_async_read_some n s)" if "hs_reader s"
  proof (cases "n = 0")
    case False
    then have "hs_inv (hs_call_read_handler [] (s\<lparr>hs_read_handler := Some n\<rparr>))"
      using c s D(4,5) that
      by (intro hs_call_read_handler_ok)
        (simp_all add: hs_core_def hs_buffered_def hs_life_eof)
    with False show ?thesis by (simp add: hs_async_read_some_def)
  qed (use z in \<open>simp add: hs_async_read_some_def\<close>)
  show "hs_inv (hs_on_data d s)" if "hs_in_map s" "\<not> hs_eof_received s"
  proof -
    have "\<not> hs_eof_seen s" using c(4) that(2) by (auto simp: hs_core_def)
    with c s D(4,5) that show ?thesis
      unfolding hs_on_data_def
      by (intro hs_call_read_handler_ok)
        (simp_all add: hs_core_def hs_buffered_def hs_life_eof)
  qed
  show "hs_inv (hs_on_eof s)" if "hs_in_map s" "\<not> hs_closed s"
    unfolding hs_on_eof_def using c s D(4,5) that
    by (intro hs_call_read_handler_ok)
      (simp_all add: hs_core_def hs_buffered_def hs_life_eof)
qed

lemma hs_cancel_read_inv: "hs_inv s \<Longrightarrow> hs_inv (hs_cancel_read s)"
proof -
  assume inv: "hs_inv s"
  let ?t = "hs_emit (H2_read Canceled [] 0) (s\<lparr>hs_read_handler := None\<rparr>)"
  note D = hs_invD [OF inv]
  have "hs_read_inv ?t" using D(2) by (simp add: hs_emit_def hs_read_inv_def hs_core_def hs_buffered_def hs_log_defs)
  moreover have "hs_read_idle ?t" using D(3) by (simp add: hs_emit_def hs_read_idle_def hs_log_defs)
  moreover have "hs_write_inv ?t" using D(4) by (simp add: hs_emit_def hs_write_inv_def)
  moreover have "hs_life ?t" using D(5) by (simp add: hs_emit_def hs_life_def hs_buffered_def)
  moreover have "hs_settled ?t" using D(6) by (simp add: hs_emit_def hs_settled_def reading_finished_def)
  ultimately show "hs_inv (hs_cancel_read s)" using inv by (simp add: hs_cancel_read_def hs_inv_def hs_pre_def)
qed

lemma hs_reader_dtor_inv:
  assumes inv: "hs_inv s" and "hs_read_handler s = None"
  shows "hs_inv (hs_reader_dtor s)"
proof -
  note D = hs_invD [OF inv]
  let ?t = "delete_reader (s\<lparr>hs_reader := False\<rparr>)"
  have f: "hs_rest ?t = hs_rest s" "hs_read_handler ?t = None" "\<not> hs_reader ?t" "hs_delivered ?t = hs_delivered s"
    "hs_credited ?t = hs_credited s" "hs_eof_seen ?t = hs_eof_seen s"
    using assms(2) by (simp_all add: hs_rest_delete_reader)
      (simp_all add: delete_reader_def Let_def reading_finished_def maybe_close_stream_def hs_emit_def hs_log_defs)
  note e = hs_rest_eqD [OF f(1)]
  have "hs_read_inv ?t" using D(2) f e by (simp add: hs_read_inv_def hs_core_def hs_buffered_def)
  moreover have "hs_read_idle ?t" using D(3) f e by (simp add: hs_read_idle_def)
  moreover have "hs_write_inv ?t" using D(4) e by (simp add: hs_write_inv_def)
  moreover have "hs_life ?t" using D(5) e f by (simp add: hs_life_def)
  ultimately have "hs_pre ?t" by (simp add: hs_pre_def)
  then show ?thesis
    unfolding hs_reader_dtor_def using D(6) e by (intro finish_deferred_close_ok) (simp_all add: hs_settled_def)
qed

lemma hs_call_quiet: "hs_read_handler t = None \<Longrightarrow> \<not> hs_close_deferred t \<Longrightarrow> hs_call_read_handler [] t = t"
  by (simp add: hs_call_read_handler_def call_read_handler_body_def finish_deferred_close_def)

lemma close_stream_inv:
  assumes "hs_pre s" "hs_in_map s" "\<not> hs_close_deferred s"
  shows "hs_inv (close_stream s)"
  unfolding close_stream_def by (rule close_stream_with_ok) (use assms hs_call_quiet in auto)

section \<open>The response\<close>

lemma response_event_pre:
  assumes "hs_pre s" and "hs_life t" and "hs_reader s \<longrightarrow> hs_reader t" and "hs_read_handler t = hs_read_handler s"
    and "hs_rest t = hs_rest (s\<lparr>hs_response_handler := hs_response_handler t, hs_response_delivered := hs_response_delivered t,
      hs_has_response := hs_has_response t, hs_response_error := hs_response_error t\<rparr>)"
    and "hs_delivered t = hs_delivered s" "hs_credited t = hs_credited s" "hs_eof_seen t = hs_eof_seen s"
  shows "hs_pre t"
proof -
  note e = hs_rest_eqD(1-9,14-) [OF assms(5)]
  note D = assms(1) [unfolded hs_pre_def]
  have "hs_read_inv t" using D assms(3,4,6-8) by (simp add: hs_read_inv_def hs_core_def hs_buffered_def e)
  moreover have "hs_read_idle t" using D assms(4,6,7) by (simp add: hs_read_idle_def hs_buffered_def e)
  moreover have "hs_write_inv t" using D by (simp add: hs_write_inv_def e)
  ultimately show ?thesis using assms(2) by (simp add: hs_pre_def)
qed

lemma response_settled:
  assumes "hs_settled s" and "hs_reader t = hs_reader s \<or> \<not> hs_close_deferred s" and "hs_closed t = hs_closed s"
    and "hs_close_deferred t = hs_close_deferred s" "hs_in_map t = hs_in_map s" "hs_server t = hs_server s"
    and "hs_eof_received t = hs_eof_received s" "hs_read_buffer t = hs_read_buffer s"
  shows "hs_settled t"
  using assms(1,2) by (auto simp: hs_settled_def reading_finished_def assms(3-))

lemma deliver_response_inv:
  assumes inv: "hs_inv (w\<lparr>hs_response_handler := False\<rparr>)" and c: "\<not> hs_server w" "\<not> hs_response_delivered w"
  shows "hs_inv (deliver_response w)"
proof -
  let ?v = "w\<lparr>hs_response_handler := False\<rparr>"
  note D = hs_invD [OF inv]
  have nd: "\<not> hs_close_deferred w" using D(5) c by (auto simp: hs_life_def)
  have map: "hs_in_map w" if "hs_has_response w \<or> hs_response_error w \<noteq> Success"
    using D(5) c that by (auto simp: hs_life_def)
  note step = response_event_pre [OF D(1)] and upd = hs_rest_def hs_emit_def hs_log_defs
  consider (none) "\<not> hs_has_response w" "hs_response_error w = Success"
    | (early) "hs_has_response w \<or> hs_response_error w \<noteq> Success" "\<not> hs_response_handler w"
    | (failed) "hs_response_error w \<noteq> Success" "hs_response_handler w"
    | (good) "hs_has_response w" "hs_response_error w = Success" "hs_response_handler w" by blast
  then show ?thesis
  proof cases
    case none
    have "hs_life w" using D(5) c none by (simp add: hs_life_def hs_buffered_def)
    then have "hs_pre w" by (rule step) (cases w; simp add: upd)+
    moreover have "hs_settled w" by (rule response_settled [OF D(6)]) simp_all
    ultimately show ?thesis using none by (simp add: deliver_response_def hs_inv_def)
  next
    case early
    then have "deliver_response w = ?v" by (cases w) (simp add: deliver_response_def)
    with inv show ?thesis by simp
  next
    case failed
    let ?t = "hs_emit (H2_response (hs_response_error w)) (w\<lparr>hs_response_delivered := True, hs_response_handler := False\<rparr>)"
    have "hs_life ?t" using D(5) c failed by (simp add: hs_life_def hs_emit_def hs_buffered_def)
    then have "hs_pre ?t" by (rule step) (cases w; simp add: upd)+
    moreover from this have "hs_inv (close_stream ?t)" if "hs_closed ?t"
      using that map failed nd by (intro close_stream_inv) (simp_all add: hs_emit_def)
    moreover have "hs_settled ?t" by (rule response_settled [OF D(6)]) (simp_all add: hs_emit_def)
    ultimately show ?thesis using failed by (simp add: deliver_response_def Let_def hs_inv_def)
  next
    case good
    let ?t = "hs_emit (H2_response Success) (w\<lparr>hs_response_delivered := True, hs_reader := True, hs_response_handler := False\<rparr>)"
    have "hs_life ?t" using D(5) c map good by (simp add: hs_life_def hs_emit_def hs_buffered_def)
    then have "hs_pre ?t" by (rule step) (cases w; simp add: upd)+
    moreover have "hs_settled ?t" by (rule response_settled [OF D(6)]) (simp_all add: hs_emit_def nd)
    ultimately show ?thesis using good by (simp add: deliver_response_def hs_inv_def)
  qed
qed

text \<open>An event that has nothing to do with the incoming body.\<close>

lemma hs_inv_emit:
  assumes "hs_inv s" and "h2_read_bytes e = []" "h2_credit e = 0" "\<And>d n. e \<noteq> H2_read Eof d n"
  shows "hs_inv (hs_emit e s)"
  by (rule hs_inv_frame [OF assms(1)])
    (use assms hs_invD(4) [OF assms(1)] in \<open>auto simp: hs_emit_def hs_log_defs hs_write_inv_def\<close>)

lemma response_ops_inv:
  assumes inv: "hs_inv s"
  shows "\<not> hs_server s \<Longrightarrow> hs_inv (async_get_response s)" "hs_inv (cancel_get_response s)"
    "\<not> hs_server s \<Longrightarrow> hs_in_map s \<Longrightarrow> \<not> hs_closed s \<Longrightarrow> \<not> hs_has_response s \<Longrightarrow> hs_response_error s = Success \<Longrightarrow>
     hs_inv (on_response s)"
proof -
  note D = hs_invD [OF inv]
  note step = response_event_pre [OF D(1)] and upd = hs_rest_def hs_emit_def hs_log_defs
  let ?v = "s\<lparr>hs_response_handler := False\<rparr>"
  have "hs_life ?v" using D(5) by (simp add: hs_life_def hs_buffered_def)
  then have "hs_pre ?v" by (rule step) (cases s; simp add: upd)+
  moreover have "hs_settled ?v" by (rule response_settled [OF D(6)]) simp_all
  ultimately have v: "hs_inv ?v" by (simp add: hs_inv_def)
  show "hs_inv (async_get_response s)" if "\<not> hs_server s"
  proof (cases "hs_response_delivered s")
    case True
    then show ?thesis using hs_inv_emit [OF inv, of "H2_response Already_started"] by (simp add: async_get_response_def)
  next
    case False
    with deliver_response_inv [of "s\<lparr>hs_response_handler := True\<rparr>"] v that show ?thesis
      by (simp add: async_get_response_def)
  qed
  show "hs_inv (cancel_get_response s)"
    using inv hs_inv_emit [OF v, of "H2_response Canceled"] by (simp add: cancel_get_response_def)
  show "hs_inv (on_response s)"
    if c: "\<not> hs_server s" "hs_in_map s" "\<not> hs_closed s" "\<not> hs_has_response s" "hs_response_error s = Success"
  proof -
    have nd: "\<not> hs_response_delivered s" using D(5) c by (auto simp: hs_life_def)
    let ?f = "hs_emit (H2_rst_stream Rst_cancel) (s\<lparr>hs_response_error := Header_limit\<rparr>)" and ?g = "s\<lparr>hs_has_response := True\<rparr>"
    have "hs_life (?f\<lparr>hs_response_handler := False\<rparr>)" "hs_life (?g\<lparr>hs_response_handler := False\<rparr>)"
      using D(5) c by (auto simp: hs_life_def hs_emit_def hs_buffered_def)
    then have "hs_pre (?f\<lparr>hs_response_handler := False\<rparr>)" "hs_pre (?g\<lparr>hs_response_handler := False\<rparr>)"
      by - (rule step; cases s; simp add: upd)+
    moreover have "hs_settled (?f\<lparr>hs_response_handler := False\<rparr>)" "hs_settled (?g\<lparr>hs_response_handler := False\<rparr>)"
      by (rule response_settled [OF D(6)]; simp add: hs_emit_def)+
    ultimately have "hs_inv (?f\<lparr>hs_response_handler := False\<rparr>)" "hs_inv (?g\<lparr>hs_response_handler := False\<rparr>)"
      by (simp_all add: hs_inv_def)
    then have "hs_inv (deliver_response ?f)" "hs_inv (deliver_response ?g)"
      using c nd by (auto intro!: deliver_response_inv simp: hs_emit_def)
    then show ?thesis by (simp add: on_response_def)
  qed
qed

lemma hs_exec_inv: "hs_inv s \<Longrightarrow> hs_enabled a s \<Longrightarrow> hs_inv (hs_exec a s)"
  by (cases a) (simp_all add: read_ops_hs_inv write_ops_hs_inv hs_cancel_read_inv hs_reader_dtor_inv response_ops_inv
      close_stream_inv hs_invD(1), auto intro!: close_stream_inv hs_invD(1) dest: hs_invD(5) simp: hs_life_def)

interpretation hs: machine hs_exec hs_enabled hs_inv
  by unfold_locales (rule hs_exec_inv)

end
