(* ===== verification/H2_Contracts.thy ===== *)
theory H2_Contracts
  imports H2_Machine
begin

text \<open>
  The contracts of \<open>Body_Contract\<close> on the HTTP/2 stream: reading a body, writing one, and owing an
  answer to every write and to every request for the response.
\<close>

section \<open>What delivering leaves alone\<close>

fun is_h2_answer :: "h2_event \<Rightarrow> bool" where
  "is_h2_answer (H2_write ec) = True"
| "is_h2_answer (H2_response ec) = True"
| "is_h2_answer _ = False"

definition hs_answers :: "h2_stream \<Rightarrow> h2_event list" where
  "hs_answers s = filter is_h2_answer (hs_events s)"

lemma hs_answers_emit [simp]:
  "hs_answers (hs_emit e s) = (if is_h2_answer e then hs_answers s @ [e] else hs_answers s)"
  by (simp add: hs_answers_def hs_emit_def)

lemma hs_answers_upd [simp]:
  "hs_answers (s\<lparr>hs_read_buffer := b\<rparr>) = hs_answers s" "hs_answers (s\<lparr>hs_pending_read_buffers := p\<rparr>) = hs_answers s"
  "hs_answers (s\<lparr>hs_bytesRead := n\<rparr>) = hs_answers s" "hs_answers (s\<lparr>hs_read_handler := h\<rparr>) = hs_answers s"
  "hs_answers (s\<lparr>hs_script := as\<rparr>) = hs_answers s" "hs_answers (s\<lparr>hs_reader := a\<rparr>) = hs_answers s"
  "hs_answers (s\<lparr>hs_writer := a\<rparr>) = hs_answers s" "hs_answers (s\<lparr>hs_inside_call_read_handler := a\<rparr>) = hs_answers s"
  "hs_answers (s\<lparr>hs_received := r\<rparr>) = hs_answers s" "hs_answers (s\<lparr>hs_eof_received := a\<rparr>) = hs_answers s"
  "hs_answers (s\<lparr>hs_closed := a\<rparr>) = hs_answers s" "hs_answers (s\<lparr>hs_in_map := a\<rparr>) = hs_answers s"
  "hs_answers (s\<lparr>hs_close_deferred := a\<rparr>) = hs_answers s" "hs_answers (s\<lparr>hs_write_handler := a\<rparr>) = hs_answers s"
  "hs_answers (s\<lparr>hs_response_handler := a\<rparr>) = hs_answers s" "hs_answers (s\<lparr>hs_response_delivered := a\<rparr>) = hs_answers s"
  "hs_answers (s\<lparr>hs_has_response := a\<rparr>) = hs_answers s" "hs_answers (s\<lparr>hs_response_error := ec\<rparr>) = hs_answers s"
  "hs_answers (s\<lparr>hs_header_limit_exceeded := a\<rparr>) = hs_answers s" "hs_answers (s\<lparr>hs_body := b\<rparr>) = hs_answers s"
  "hs_answers (s\<lparr>hs_wire := b\<rparr>) = hs_answers s" "hs_answers (s\<lparr>hs_write_buffer := b\<rparr>) = hs_answers s"
  "hs_answers (s\<lparr>hs_is_deferred := a\<rparr>) = hs_answers s" "hs_answers (s\<lparr>hs_eof_requested := a\<rparr>) = hs_answers s"
  "hs_answers (s\<lparr>hs_eof_submitted := a\<rparr>) = hs_answers s"
  by (simp_all add: hs_answers_def)

lemma hs_answers_invoke [simp]: "hs_answers (hs_invoke_read ec d s) = hs_answers s"
  by (simp add: hs_invoke_read_def hs_reader_acts_def delete_reader_def maybe_close_stream_def Let_def
      split: list.splits read_action.splits)

definition hs_same :: "h2_stream \<Rightarrow> h2_stream \<Rightarrow> bool" where
  "hs_same s t = (hs_rest2 s = hs_rest2 t \<and> hs_answers s = hs_answers t)"

lemma hs_same_refl [simp]: "hs_same s s"
  by (simp add: hs_same_def)

lemma hs_same_trans [trans]: "hs_same s t \<Longrightarrow> hs_same t u \<Longrightarrow> hs_same s u"
  by (simp add: hs_same_def)

lemma hs_same_invoke [simp]: "hs_same (hs_invoke_read ec d s) s"
  by (simp add: hs_same_def)

lemma hs_same_next_buffer: "hs_same (fst (next_buffer view s)) s"
  by (simp add: next_buffer_def Let_def hs_same_def)

lemma hs_same_loop: "hs_same (fst (deliver_loop s view c)) s"
proof (induction s view c rule: deliver_loop.induct)
  case (1 s view c)
  show ?case
  proof (cases "\<exists>room. hs_read_handler s = Some room \<and> hs_read_buffer s \<noteq> []")
    case True
    then obtain room where h: "hs_read_handler s = Some room" and b: "hs_read_buffer s \<noteq> []" by blast
    let ?c = "take room (hs_read_buffer s)"
    let ?s1 = "s\<lparr>hs_bytesRead := hs_bytesRead s + length ?c, hs_read_buffer := drop (length ?c) (hs_read_buffer s)\<rparr>"
    obtain s2 view2 where nb: "next_buffer view (hs_invoke_read Success ?c ?s1) = (s2, view2)" by fastforce
    have "hs_same (fst (deliver_loop s2 view2 (c + length ?c))) s2"
      using 1 [OF h b refl refl refl nb [symmetric]] nb by simp
    also have "hs_same s2 (hs_invoke_read Success ?c ?s1)"
      using hs_same_next_buffer [of view "hs_invoke_read Success ?c ?s1"] nb by simp
    also have "hs_same \<dots> ?s1" by simp
    also have "hs_same ?s1 s" by (simp add: hs_same_def)
    finally show ?thesis using h b nb by (subst deliver_loop.simps) (simp add: Let_def)
  next
    case False
    then show ?thesis by (subst deliver_loop.simps) (auto split: option.splits)
  qed
qed

lemma hs_same_eof_loop: "hs_same (eof_loop s) s"
proof (induction s rule: eof_loop.induct)
  case (1 s)
  then show ?case by (subst eof_loop.simps) (auto intro: hs_same_trans)
qed

lemma hs_same_consume: "hs_same (hs_consume n s) s"
  by (simp add: hs_consume_def hs_same_def)

lemma hs_same_store: "hs_same (hs_store view s) s"
  by (simp add: hs_store_def hs_same_def)

lemma hs_same_finish: "hs_same (finish_delivery view s) s"
  using hs_same_eof_loop [of s] hs_same_store [of view s]
    hs_same_trans [OF hs_same_invoke hs_same_store, of Partial_message "[]" view s]
  by (auto simp: finish_delivery_def Let_def)

lemma hs_same_deliver: "hs_same (deliver_and_finish view s) s"
proof -
  obtain s1 view1 where p: "(if hs_pending_read_buffers s = [] then (s\<lparr>hs_read_buffer := view\<rparr>, hs_read_buffer s)
      else (s, view)) = (s1, view1)" by fastforce
  then have "hs_same s1 s" by (auto simp: hs_same_def split: if_splits)
  obtain s2 view2 n where l: "deliver_loop s1 view1 0 = (s2, view2, n)" using prod_cases3 by blast
  have "hs_same (finish_delivery view2 (hs_consume n s2)) (hs_consume n s2)" by (rule hs_same_finish)
  also have "hs_same \<dots> s2" by (rule hs_same_consume)
  also have "hs_same \<dots> s1" using hs_same_loop [of s1 view1 0] l by simp
  also have "hs_same s1 s" by fact
  finally show ?thesis by (simp add: deliver_and_finish_def p l)
qed

lemma hs_same_body: "hs_same (call_read_handler_body view s) s"
proof (cases "hs_read_handler s = None \<or> hs_inside_call_read_handler s")
  case True
  then show ?thesis by (auto simp: call_read_handler_body_def Let_def hs_same_def)
next
  case False
  let ?t = "deliver_and_finish view (s\<lparr>hs_inside_call_read_handler := True\<rparr>)"
  have "hs_rest2 ?t = hs_rest2 (s\<lparr>hs_inside_call_read_handler := True\<rparr>)" "hs_answers ?t = hs_answers s"
    using hs_same_deliver [of view "s\<lparr>hs_inside_call_read_handler := True\<rparr>"] by (simp_all add: hs_same_def)
  moreover have "hs_rest2 (u\<lparr>hs_inside_call_read_handler := False\<rparr>) = (hs_rest2 u)\<lparr>hs_inside_call_read_handler := False\<rparr>" for u
    by (cases u) (simp add: hs_rest2_def hs_rest_def)
  moreover have "(hs_rest2 (s\<lparr>hs_inside_call_read_handler := True\<rparr>))\<lparr>hs_inside_call_read_handler := False\<rparr> = hs_rest2 s"
    using False by (cases s) (simp add: hs_rest2_def hs_rest_def)
  ultimately have "hs_same (?t\<lparr>hs_inside_call_read_handler := False\<rparr>) s" by (simp add: hs_same_def)
  then show ?thesis using False by (auto simp: call_read_handler_body_def)
qed

section \<open>Accounts\<close>

fun is_h2_write :: "h2_event \<Rightarrow> bool" where
  "is_h2_write (H2_write ec) = True"
| "is_h2_write _ = False"

definition hs_writes_done :: "h2_stream \<Rightarrow> nat" where
  "hs_writes_done s = length (filter is_h2_write (hs_answers s))"

definition hs_responses_done :: "h2_stream \<Rightarrow> nat" where
  "hs_responses_done s = length (filter (\<lambda>e. \<not> is_h2_write e) (hs_answers s))"

definition hs_writes_waiting :: "h2_stream \<Rightarrow> nat" where
  "hs_writes_waiting s = (if hs_write_handler s then 1 else 0)"

definition hs_responses_waiting :: "h2_stream \<Rightarrow> nat" where
  "hs_responses_waiting s = (if hs_response_handler s then 1 else 0)"

text \<open>The accounts of a stream: what was or will be answered, and what came in.\<close>

definition hs_accounts :: "h2_stream \<Rightarrow> nat \<times> nat \<times> bytes \<times> bool" where
  "hs_accounts s = (hs_writes_done s + hs_writes_waiting s, hs_responses_done s + hs_responses_waiting s,
                    hs_received s, hs_eof_received s)"

lemmas account_defs = hs_accounts_def hs_writes_done_def hs_responses_done_def hs_writes_waiting_def hs_responses_waiting_def

lemma hs_same_accounts: "hs_same s t \<Longrightarrow> hs_accounts s = hs_accounts t"
  unfolding hs_same_def by (simp add: account_defs hs_rest2_eqD [of s t])

lemma hs_accounts_invoke [simp]: "hs_accounts (hs_invoke_read ec d s) = hs_accounts s"
  by (rule hs_same_accounts) simp

lemma hs_accounts_body [simp]: "hs_accounts (call_read_handler_body view s) = hs_accounts s"
  by (rule hs_same_accounts [OF hs_same_body])

lemma hs_accounts_emit [simp]: "\<not> is_h2_answer e \<Longrightarrow> hs_accounts (hs_emit e s) = hs_accounts s"
  by (simp add: account_defs) (simp add: hs_emit_def)

lemma hs_accounts_upd [simp]:
  "hs_accounts (s\<lparr>hs_read_handler := h\<rparr>) = hs_accounts s" "hs_accounts (s\<lparr>hs_script := as\<rparr>) = hs_accounts s"
  "hs_accounts (s\<lparr>hs_reader := a\<rparr>) = hs_accounts s" "hs_accounts (s\<lparr>hs_writer := a\<rparr>) = hs_accounts s"
  "hs_accounts (s\<lparr>hs_closed := a\<rparr>) = hs_accounts s" "hs_accounts (s\<lparr>hs_in_map := a\<rparr>) = hs_accounts s"
  "hs_accounts (s\<lparr>hs_close_deferred := a\<rparr>) = hs_accounts s" "hs_accounts (s\<lparr>hs_header_limit_exceeded := a\<rparr>) = hs_accounts s"
  "hs_accounts (s\<lparr>hs_has_response := a\<rparr>) = hs_accounts s" "hs_accounts (s\<lparr>hs_response_error := ec\<rparr>) = hs_accounts s"
  "hs_accounts (s\<lparr>hs_response_delivered := a\<rparr>) = hs_accounts s" "hs_accounts (s\<lparr>hs_is_deferred := a\<rparr>) = hs_accounts s"
  "hs_accounts (s\<lparr>hs_read_buffer := b\<rparr>) = hs_accounts s" "hs_accounts (s\<lparr>hs_pending_read_buffers := p\<rparr>) = hs_accounts s"
  "hs_accounts (s\<lparr>hs_body := b\<rparr>) = hs_accounts s" "hs_accounts (s\<lparr>hs_wire := b\<rparr>) = hs_accounts s"
  "hs_accounts (s\<lparr>hs_write_buffer := b\<rparr>) = hs_accounts s" "hs_accounts (s\<lparr>hs_eof_requested := a\<rparr>) = hs_accounts s"
  "hs_accounts (s\<lparr>hs_eof_submitted := a\<rparr>) = hs_accounts s"
  by (simp_all add: account_defs)

text \<open>An answer settles what was waiting for it.\<close>

lemma hs_accounts_answer [simp]:
  "hs_write_handler s \<Longrightarrow> hs_accounts (hs_emit (H2_write ec) (s\<lparr>hs_write_handler := False\<rparr>)) = hs_accounts s"
  "hs_response_handler s \<Longrightarrow> hs_accounts (hs_emit (H2_response ec) (s\<lparr>hs_response_handler := False\<rparr>)) = hs_accounts s"
  by (simp_all add: account_defs, simp_all add: hs_emit_def)

lemma hs_mark_closed_accounts [simp]: "hs_accounts (hs_mark_closed s) = hs_accounts s"
  by (simp add: hs_mark_closed_def Let_def account_defs, simp add: hs_emit_def)

lemma hs_accounts_close_with:
  assumes "\<And>t. hs_accounts (call_rh t) = hs_accounts t"
  shows "hs_accounts (close_stream_with call_rh s) = hs_accounts s"
  using assms by (simp add: close_stream_with_eq Let_def)

lemma hs_accounts_deferred [simp]: "hs_accounts (finish_deferred_close s) = hs_accounts s"
  by (simp add: finish_deferred_close_def hs_accounts_close_with)

lemma hs_accounts_call [simp]: "hs_accounts (hs_call_read_handler view s) = hs_accounts s"
  by (simp add: hs_call_read_handler_def)

lemma hs_accounts_close [simp]: "hs_accounts (close_stream s) = hs_accounts s"
  by (simp add: close_stream_def hs_accounts_close_with)

lemma hs_accounts_deliver_response [simp]: "hs_accounts (deliver_response s) = hs_accounts s"
proof -
  have "hs_response_handler s \<Longrightarrow> hs_accounts (hs_emit (H2_response ec) (s\<lparr>hs_response_delivered := True, hs_response_handler := False\<rparr>)) = hs_accounts s"
    "hs_response_handler s \<Longrightarrow> hs_accounts (hs_emit (H2_response ec) (s\<lparr>hs_response_delivered := True, hs_reader := True, hs_response_handler := False\<rparr>)) = hs_accounts s"
    for ec by (simp_all add: account_defs, simp_all add: hs_emit_def)
  then show ?thesis by (simp add: deliver_response_def Let_def)
qed

text \<open>What each operation adds to the accounts.\<close>

fun hs_adds :: "h2_op \<Rightarrow> nat \<times> nat \<times> bytes \<times> bool" where
  "hs_adds (Hop_data d) = (0, 0, d, False)"
| "hs_adds Hop_eof = (0, 0, [], True)"
| "hs_adds (Hop_write b eof) = (1, 0, [], False)"
| "hs_adds Hop_get_response = (0, 1, [], False)"
| "hs_adds _ = (0, 0, [], False)"

definition hs_add :: "nat \<times> nat \<times> bytes \<times> bool \<Rightarrow> h2_stream \<Rightarrow> nat \<times> nat \<times> bytes \<times> bool" where
  "hs_add c s = (case (c, hs_accounts s) of ((w, r, d, e), (w', r', d', e')) \<Rightarrow> (w' + w, r' + r, d' @ d, e' \<or> e))"

lemma hs_add_none [simp]: "hs_add (0, 0, [], False) s = hs_accounts s"
  by (simp add: hs_add_def split_beta)

lemma hs_accounts_asked:
  "hs_accounts (hs_emit (H2_write ec) s) = hs_add (1, 0, [], False) s"
  "hs_accounts (hs_emit (H2_response ec) s) = hs_add (0, 1, [], False) s"
  "\<not> hs_write_handler s \<Longrightarrow> hs_accounts (s\<lparr>hs_write_handler := True\<rparr>) = hs_add (1, 0, [], False) s"
  "\<not> hs_response_handler s \<Longrightarrow> hs_accounts (s\<lparr>hs_response_handler := True\<rparr>) = hs_add (0, 1, [], False) s"
  "hs_accounts (s\<lparr>hs_received := hs_received s @ d\<rparr>) = hs_add (0, 0, d, False) s"
  "hs_accounts (s\<lparr>hs_eof_received := True\<rparr>) = hs_add (0, 0, [], True) s"
  by (simp_all add: hs_add_def account_defs, simp_all add: hs_emit_def)

lemma hs_accounts_resume [simp]: "hs_accounts (resume s) = hs_accounts s"
  by (simp add: resume_def)

lemma hs_add_upd [simp]:
  "hs_add c (s\<lparr>hs_write_buffer := b\<rparr>) = hs_add c s" "hs_add c (s\<lparr>hs_eof_requested := a\<rparr>) = hs_add c s"
  by (simp_all add: hs_add_def)

lemma hs_accounts_write_ops [simp]:
  "hs_accounts (hs_cancel_write s) = hs_accounts s" "hs_accounts (fst (producer_callback n s)) = hs_accounts s"
  "hs_accounts (hs_writer_dtor s) = hs_accounts s" "hs_accounts (maybe_close_stream s) = hs_accounts s"
proof -
  have a: "hs_write_handler s \<Longrightarrow> hs_accounts (hs_emit (H2_write ec) (s\<lparr>hs_write_handler := False, hs_body := b\<rparr>)) = hs_accounts s"
    "hs_write_handler s \<Longrightarrow> hs_accounts (hs_emit (H2_write ec) (s\<lparr>hs_eof_submitted := True, hs_write_handler := False\<rparr>)) = hs_accounts s"
    "hs_write_handler s \<Longrightarrow> hs_accounts (hs_emit (H2_write ec) (s\<lparr>hs_write_buffer := b, hs_wire := c, hs_eof_submitted := e,
       hs_write_handler := False\<rparr>)) = hs_accounts s" for ec b c e
    by (simp_all add: account_defs, simp_all add: hs_emit_def)
  show "hs_accounts (hs_cancel_write s) = hs_accounts s" by (simp add: hs_cancel_write_def a)
  show "hs_accounts (fst (producer_callback n s)) = hs_accounts s" by (simp add: producer_callback_def Let_def a)
  show "hs_accounts (hs_writer_dtor s) = hs_accounts s" "hs_accounts (maybe_close_stream s) = hs_accounts s"
    by (simp_all add: hs_writer_dtor_def maybe_close_stream_def)
qed

lemma hs_accounts_other_ops [simp]:
  "hs_accounts (hs_async_read_some n s) = hs_accounts s" "hs_accounts (hs_cancel_read s) = hs_accounts s"
  "hs_accounts (hs_reader_dtor s) = hs_accounts s" "hs_accounts (cancel_get_response s) = hs_accounts s"
  "hs_accounts (on_response s) = hs_accounts s"
  by (simp_all add: hs_async_read_some_def hs_cancel_read_def hs_reader_dtor_def delete_reader_def Let_def
      cancel_get_response_def on_response_def)

lemma hs_exec_accounts:
  assumes "hs_enabled a s"
  shows "hs_accounts (hs_exec a s) = hs_add (hs_adds a) s"
  using assms
  by (cases a) (simp_all add: hs_accounts_asked async_get_response_def hs_async_write_def hs_on_data_def hs_on_eof_def)

definition hs_write_asked :: "h2_op \<Rightarrow> nat" where "hs_write_asked a = fst (hs_adds a)"
definition hs_response_asked :: "h2_op \<Rightarrow> nat" where "hs_response_asked a = fst (snd (hs_adds a))"
definition hs_input :: "h2_op \<Rightarrow> bytes" where "hs_input a = fst (snd (snd (hs_adds a)))"

lemma hs_exec_accounts_each:
  assumes "hs_enabled a s"
  shows "hs_writes_done (hs_exec a s) + hs_writes_waiting (hs_exec a s) = hs_writes_done s + hs_writes_waiting s + hs_write_asked a"
    and "hs_responses_done (hs_exec a s) + hs_responses_waiting (hs_exec a s) =
         hs_responses_done s + hs_responses_waiting s + hs_response_asked a"
    and "hs_received (hs_exec a s) = hs_received s @ hs_input a"
    and "hs_eof_received (hs_exec a s) = (hs_eof_received s \<or> a = Hop_eof)"
proof -
  obtain w r d e where c: "hs_adds a = (w, r, d, e)" using prod_cases4 by blast
  moreover have "e = (a = Hop_eof)" using c by (cases a) auto
  ultimately show "hs_writes_done (hs_exec a s) + hs_writes_waiting (hs_exec a s) = hs_writes_done s + hs_writes_waiting s + hs_write_asked a"
    and "hs_responses_done (hs_exec a s) + hs_responses_waiting (hs_exec a s) =
         hs_responses_done s + hs_responses_waiting s + hs_response_asked a"
    and "hs_received (hs_exec a s) = hs_received s @ hs_input a"
    and "hs_eof_received (hs_exec a s) = (hs_eof_received s \<or> a = Hop_eof)"
    using hs_exec_accounts [OF assms]
    by (simp_all add: hs_add_def hs_accounts_def hs_write_asked_def hs_response_asked_def hs_input_def)
qed

interpretation hs_acct: accounting hs_exec hs_enabled hs_inv hs_write_asked hs_writes_done hs_writes_waiting
  by unfold_locales (rule hs_exec_accounts_each(1))

interpretation hs_resp: accounting hs_exec hs_enabled hs_inv hs_response_asked hs_responses_done hs_responses_waiting
  by unfold_locales (rule hs_exec_accounts_each(2))

section \<open>Bodies\<close>

interpretation hs_body: body_reader hs_exec hs_enabled hs_inv hs_input hs_received hs_delivered hs_buffered "\<lambda>_. True"
proof unfold_locales
  have "hs_delivered s @ hs_buffered s = hs_received s" if "hs_inv s" for s
    using hs_invD(2) [OF that] by (simp add: hs_read_inv_def hs_core_def)
  then show "prefix (hs_delivered s) (hs_received s)" "True \<Longrightarrow> hs_delivered s @ hs_buffered s = hs_received s"
    if "hs_inv s" for s
    using that by (auto intro: prefixI [OF sym])
qed (rule hs_exec_accounts_each(3))

text \<open>How a write is answered at the door: \<open>None\<close> is a write that is taken on.\<close>

definition hs_write_answer :: "h2_stream \<Rightarrow> bytes \<Rightarrow> bool \<Rightarrow> error_code option" where
  "hs_write_answer s buffer eof =
     (case last (hs_events (hs_async_write buffer eof s)) of
        H2_write ec \<Rightarrow> if hs_async_write buffer eof s = hs_emit (H2_write ec) s then Some ec else None
      | _ \<Rightarrow> None)"

lemma hs_write_answer_now: "hs_async_write buffer eof s = hs_emit (H2_write ec) s \<Longrightarrow> hs_write_answer s buffer eof = Some ec"
  by (simp add: hs_write_answer_def hs_emit_def)

interpretation hs_writer: writer_contract hs_write_answer hs_eof_requested hs_eof_submitted
  by unfold_locales (auto intro!: hs_write_answer_now simp: hs_async_write_def)

interpretation hs_detached: writer_contract "\<lambda>e b f. Some (h2_detached_write e b f)" "\<lambda>e. e" "\<lambda>e. e"
  by unfold_locales (simp_all add: h2_detached_write_def)

end
