(* ===== verification/H2_Properties.thy ===== *)
theory H2_Properties
  imports H2_Contracts
begin

text \<open>
  What the invariants of the HTTP/2 stream amount to, for every sequence of operations
  (\<open>H2_Machine\<close>) on a stream of a server or of a client.
\<close>

definition hs_start :: "bool \<Rightarrow> h2_stream" where
  "hs_start server = (if server then hs_serve else hs_client)"

abbreviation hs_run :: "bool \<Rightarrow> h2_op list \<Rightarrow> h2_stream option" where
  "hs_run server ops \<equiv> run hs_exec hs_enabled (hs_start server) ops"

declare run.simps [simp del]

lemma hs_start_ok: "hs_inv (hs_start server)"
  by (simp add: hs_start_def hs_start_inv)

lemma hs_start_fields [simp]:
  "hs_received (hs_start server) = []" "\<not> hs_eof_received (hs_start server)" "hs_server (hs_start server) = server"
  "hs_writes_done (hs_start server) = 0" "hs_writes_waiting (hs_start server) = 0"
  "hs_responses_done (hs_start server) = 0" "hs_responses_waiting (hs_start server) = 0"
  by (simp_all add: hs_start_def hs_serve_def hs_client_def on_request_def hs_init_def account_defs hs_answers_def)

lemma hs_run_inv: "hs_run server ops = Some s \<Longrightarrow> hs_inv s"
  by (rule hs.run_inv [OF hs_start_ok])

lemma hs_run_received: "hs_run server ops = Some s \<Longrightarrow> hs_received s = concat (map hs_input ops)"
  using hs_body.run_received [OF hs_start_ok] by simp

lemma hs_run_eof_cause:
  assumes "hs_run server ops = Some s" and "hs_eof_received s"
  shows "Hop_eof \<in> set ops"
  using hs.run_cause [OF hs_start_ok assms(1), of hs_eof_received "\<lambda>a. a = Hop_eof"] assms(2)
  by (auto simp: hs_exec_accounts_each(4))

section \<open>Reading\<close>

text \<open>C4: What an HTTP/2 reader was handed, followed by what is buffered for it, is the body nghttp2
  delivered, in order and without a gap, whatever the application does from within its completions,
  and even when the stream closes; and the peer's window is opened by what was handed out, no more
  and no less.\<close>

theorem h2_body_in_order:
  assumes "hs_run server ops = Some s"
  shows "hs_delivered s @ hs_buffered s = concat (map hs_input ops) \<and>
         hs_credited s = length (hs_delivered s) \<and> hs_bytesRead s = length (hs_delivered s)"
  using hs_body.run_conserves [OF hs_start_ok _ assms] hs_invD(2,3) [OF hs_run_inv [OF assms]]
  by (simp add: hs_read_idle_def hs_read_inv_def hs_core_def)

theorem h2_body_in_order_witness:
  "\<exists>s. hs_run True [Hop_data [1, 2, 3], Hop_data [4], Hop_script [Read_again 4, Drop_reader], Hop_read 2] = Some s \<and>
       hs_delivered s @ hs_buffered s = [1, 2, 3, 4] \<and> hs_credited s = length (hs_delivered s)"
proof -
  let ?ops = "[Hop_data [1, 2, 3], Hop_data [4], Hop_script [Read_again 4, Drop_reader], Hop_read 2]"
  have "hs_run True ?ops \<noteq> None" by code_simp
  then obtain s where s: "hs_run True ?ops = Some s" by blast
  with h2_body_in_order [OF s] show ?thesis by (intro exI [of _ s]) (simp add: hs_input_def)
qed

text \<open>No HTTP/2 read starves: a read only waits when nothing is buffered and the end of the body
  has not been received. In particular the read behind the last byte is told of the end in the same
  call that handed out the byte.\<close>

theorem h2_no_read_starves:
  assumes "hs_run server ops = Some s" and "hs_read_handler s \<noteq> None"
  shows "hs_buffered s = [] \<and> \<not> hs_eof_received s \<and> hs_delivered s = concat (map hs_input ops) \<and> hs_reader s"
  using hs_invD(2,3) [OF hs_run_inv [OF assms(1)]] hs_run_received [OF assms(1)] assms(2)
  by (auto simp: hs_read_idle_def hs_read_inv_def hs_core_def)

theorem h2_no_read_starves_witness:
  "\<exists>s. hs_run True [Hop_data [1, 2, 3], Hop_script [Read_again 4, Read_again 9], Hop_read 2] = Some s \<and>
       hs_read_handler s \<noteq> None \<and> hs_delivered s = [1, 2, 3]"
proof -
  let ?ops = "[Hop_data [1, 2, 3], Hop_script [Read_again 4, Read_again 9], Hop_read 2]"
  have "hs_run True ?ops \<noteq> None" by code_simp
  then obtain s where s: "hs_run True ?ops = Some s" by blast
  have "hs_read_handler (the (hs_run True ?ops)) \<noteq> None" by code_simp
  with s h2_no_read_starves [OF s] show ?thesis by (intro exI [of _ s]) (simp add: hs_input_def)
qed

text \<open>A read of an HTTP/2 body is told \<open>eof\<close> only if the peer has ended the body, and only when all
  of it has been handed out: a truncated body is never presented as a complete one.\<close>

theorem h2_eof_means_complete:
  assumes "hs_run server ops = Some s" and "H2_read Eof d n \<in> set (hs_events s)"
  shows "Hop_eof \<in> set ops \<and> hs_delivered s = concat (map hs_input ops)"
proof -
  have "hs_core (hs_buffered s) s" using hs_invD(2) [OF hs_run_inv [OF assms(1)]] by (simp add: hs_read_inv_def)
  moreover have "hs_eof_seen s" using assms(2) by (auto simp: hs_eof_seen_def)
  ultimately have "hs_eof_received s" "hs_delivered s = hs_received s" by (auto simp: hs_core_def)
  with hs_run_eof_cause [OF assms(1)] hs_run_received [OF assms(1)] show ?thesis by simp
qed

theorem h2_eof_means_complete_witness:
  "\<exists>s. hs_run True [Hop_data [7], Hop_eof, Hop_script [Read_again 4], Hop_read 4] = Some s \<and>
       H2_read Eof [] 0 \<in> set (hs_events s) \<and> hs_delivered s = [7]"
proof -
  let ?ops = "[Hop_data [7], Hop_eof, Hop_script [Read_again 4], Hop_read 4]"
  have "hs_run True ?ops \<noteq> None" by code_simp
  then obtain s where s: "hs_run True ?ops = Some s" by blast
  have "H2_read Eof [] 0 \<in> set (hs_events (the (hs_run True ?ops)))" by code_simp
  with s have e: "H2_read Eof [] 0 \<in> set (hs_events s)" by simp
  from s e h2_eof_means_complete [OF s e] show ?thesis by (intro exI [of _ s]) (simp add: hs_input_def)
qed

section \<open>Closing\<close>



section \<open>Writing\<close>



text \<open>The outgoing side of a stream, which reading, closing and the response leave alone.\<close>

definition hs_out :: "h2_stream \<Rightarrow> bytes \<times> bool \<times> bool" where
  "hs_out s = (hs_wire s, hs_eof_requested s, hs_eof_submitted s)"

lemma hs_out_same: "hs_same s t \<Longrightarrow> hs_out s = hs_out t"
  using hs_rest2_eqD [of s t] by (simp add: hs_same_def hs_out_def)

lemma hs_out_simps [simp]:
  "hs_out (hs_emit e s) = hs_out s" "hs_out (s\<lparr>hs_in_map := a\<rparr>) = hs_out s" "hs_out (s\<lparr>hs_close_deferred := a\<rparr>) = hs_out s"
  "hs_out (s\<lparr>hs_read_handler := h\<rparr>) = hs_out s" "hs_out (s\<lparr>hs_reader := a\<rparr>) = hs_out s" "hs_out (s\<lparr>hs_script := as\<rparr>) = hs_out s"
  "hs_out (s\<lparr>hs_received := d\<rparr>) = hs_out s" "hs_out (s\<lparr>hs_eof_received := a\<rparr>) = hs_out s"
  "hs_out (s\<lparr>hs_response_handler := a\<rparr>) = hs_out s" "hs_out (s\<lparr>hs_response_delivered := a\<rparr>) = hs_out s"
  "hs_out (s\<lparr>hs_has_response := a\<rparr>) = hs_out s" "hs_out (s\<lparr>hs_response_error := ec\<rparr>) = hs_out s"
  "hs_out (s\<lparr>hs_header_limit_exceeded := a\<rparr>) = hs_out s" "hs_out (s\<lparr>hs_writer := a\<rparr>) = hs_out s"
  "hs_out (s\<lparr>hs_write_handler := a\<rparr>) = hs_out s" "hs_out (s\<lparr>hs_body := b\<rparr>) = hs_out s"
  "hs_out (s\<lparr>hs_read_buffer := b\<rparr>) = hs_out s" "hs_out (s\<lparr>hs_pending_read_buffers := p\<rparr>) = hs_out s"
  "hs_out (hs_mark_closed s) = hs_out s" "hs_out (maybe_close_stream s) = hs_out s" "hs_out (delete_reader s) = hs_out s"
  by (simp_all add: hs_out_def hs_emit_def hs_mark_closed_def maybe_close_stream_def delete_reader_def Let_def)

lemma hs_out_read [simp]: "hs_out (hs_invoke_read ec d s) = hs_out s" "hs_out (call_read_handler_body v s) = hs_out s"
  by (simp_all add: hs_out_same hs_same_body)

lemma hs_out_close_with: "(\<And>t. hs_out (call_rh t) = hs_out t) \<Longrightarrow> hs_out (close_stream_with call_rh s) = hs_out s"
  by (simp add: close_stream_with_eq Let_def)

lemma hs_out_ops [simp]:
  "hs_out (finish_deferred_close s) = hs_out s" "hs_out (hs_call_read_handler v s) = hs_out s"
  "hs_out (close_stream s) = hs_out s" "hs_out (deliver_response s) = hs_out s"
proof -
  show d: "hs_out (finish_deferred_close s) = hs_out s" for s
    by (simp add: finish_deferred_close_def hs_out_close_with)
  then show c: "hs_out (hs_call_read_handler v s) = hs_out s" for v s by (simp add: hs_call_read_handler_def)
  then show e: "hs_out (close_stream s) = hs_out s" for s by (simp add: close_stream_def hs_out_close_with)
  then show "hs_out (deliver_response s) = hs_out s" by (simp add: deliver_response_def Let_def)
qed

lemma hs_out_ended_step:
  assumes "hs_inv s" and "hs_enabled a s" and "hs_eof_submitted s"
  shows "hs_out (hs_exec a s) = hs_out s"
proof -
  have "\<not> hs_write_handler s" "hs_eof_requested s" using hs_invD(4) [OF assms(1)] assms(3) by (auto simp: hs_write_inv_def)
  with assms(2,3) show ?thesis
    by (cases a) (simp_all add: hs_async_read_some_def hs_cancel_read_def hs_on_data_def hs_on_eof_def hs_reader_dtor_def
        hs_async_write_def hs_cancel_write_def hs_writer_dtor_def async_get_response_def cancel_get_response_def on_response_def)
qed

text \<open>The end of the outgoing body of an HTTP/2 stream is final: once nghttp2 was given it, no
  operation gives it more.\<close>

theorem h2_end_is_final:
  assumes "hs_run server ops = Some s" and "hs_eof_submitted s" and "run hs_exec hs_enabled s later = Some t"
  shows "hs_eof_submitted t \<and> hs_wire t = hs_wire s \<and> hs_body t = hs_body s"
proof -
  have inv: "hs_inv s" by (rule hs_run_inv [OF assms(1)])
  have "hs_out t = hs_out s"
    by (rule hs.run_stable [OF inv assms(3)])
      (use assms(2) hs_out_ended_step in \<open>auto simp: hs_out_def\<close>)
  moreover have "hs_inv t" by (rule hs.run_inv [OF inv assms(3)])
  ultimately show ?thesis
    using hs_invD(4) [of s] hs_invD(4) [of t] inv assms(2) by (auto simp: hs_write_inv_def hs_out_def)
qed

theorem h2_end_is_final_witness:
  "\<exists>s t. hs_run True [Hop_write [1, 2] True, Hop_produce 4] = Some s \<and>
         run hs_exec hs_enabled s [Hop_write [3] False, Hop_write [] True, Hop_close] = Some t \<and> hs_wire t = [1, 2]"
proof -
  let ?ops = "[Hop_write [1, 2] True, Hop_produce 4]" and ?later = "[Hop_write [3] False, Hop_write [] True, Hop_close]"
  have "hs_run True (?ops @ ?later) \<noteq> None" by code_simp
  then obtain s t where st: "hs_run True ?ops = Some s" "run hs_exec hs_enabled s ?later = Some t"
    by (auto simp: run_append simp del: append.simps split: option.splits)
  have "hs_eof_submitted (the (hs_run True ?ops))" "hs_wire (the (hs_run True ?ops)) = [1, 2]" by code_simp+
  with st have "hs_eof_submitted s" "hs_wire s = [1, 2]" by simp_all
  with st h2_end_is_final [OF st(1) _ st(2)] show ?thesis by (intro exI [of _ s] exI [of _ t]) simp
qed

text \<open>Every write and every request for the response of an HTTP/2 stream is answered exactly once,
  or is the one that is still waiting for its answer; and when the stream is destroyed, nothing is
  left waiting.\<close>

theorem h2_answered_once:
  assumes "hs_run server ops = Some s"
  shows "hs_writes_done s + hs_writes_waiting s = sum_list (map hs_write_asked ops) \<and>
         hs_responses_done s + hs_responses_waiting s = sum_list (map hs_response_asked ops) \<and>
         hs_writes_done (hs_dtor s) = sum_list (map hs_write_asked ops) \<and>
         hs_responses_done (hs_dtor s) = sum_list (map hs_response_asked ops) \<and>
         hs_read_handler (hs_dtor s) = None"
proof -
  have "hs_writes_done (hs_dtor s) = hs_writes_done s + hs_writes_waiting s"
    "hs_responses_done (hs_dtor s) = hs_responses_done s + hs_responses_waiting s" "hs_read_handler (hs_dtor s) = None"
    by (simp_all add: hs_dtor_def Let_def account_defs hs_answers_def hs_emit_def)
  with hs_acct.run_accounts [OF hs_start_ok assms] hs_resp.run_accounts [OF hs_start_ok assms] show ?thesis by simp
qed

theorem h2_answered_once_witness:
  "\<exists>s. hs_run False [Hop_get_response, Hop_write [1] False, Hop_response, Hop_close, Hop_write [2] True, Hop_get_response] = Some s \<and>
       hs_writes_done s + hs_writes_waiting s = 2 \<and> hs_responses_done (hs_dtor s) = 2"
proof -
  let ?ops = "[Hop_get_response, Hop_write [1] False, Hop_response, Hop_close, Hop_write [2] True, Hop_get_response]"
  have "hs_run False ?ops \<noteq> None" by code_simp
  then obtain s where s: "hs_run False ?ops = Some s" by blast
  with h2_answered_once [OF s] show ?thesis
    by (intro exI [of _ s]) (simp add: hs_write_asked_def hs_response_asked_def)
qed

text \<open>A request for the response of an HTTP/2 exchange never waits for a response that is already
  there, and the reader of the response body comes with the response and not before; and a stream
  that closed before any response came has told whoever waited for it.\<close>

theorem h2_response_not_left_waiting:
  assumes "hs_run server ops = Some s"
  shows "(hs_response_handler s \<longrightarrow>
            \<not> hs_has_response s \<and> hs_response_error s = Success \<and> (hs_in_map s \<longrightarrow> \<not> hs_closed s)) \<and>
         (\<not> hs_server s \<and> hs_reader s \<longrightarrow> hs_response_delivered s \<and> (hs_has_response s \<or> hs_response_error s \<noteq> Success)) \<and>
         (hs_response_handler s \<and> hs_in_map s \<longrightarrow>
            \<not> hs_response_handler (close_stream s) \<and> H2_response End_of_stream \<in> set (hs_events (close_stream s)))"
proof -
  note D = hs_invD [OF hs_run_inv [OF assms]]
  have life: "hs_response_handler s \<longrightarrow> \<not> hs_server s \<and> \<not> hs_response_delivered s \<and> \<not> hs_has_response s \<and> hs_response_error s = Success"
    "\<not> hs_server s \<and> hs_closed s \<and> hs_in_map s \<and> \<not> hs_response_delivered s \<longrightarrow> hs_has_response s \<or> hs_response_error s \<noteq> Success"
    "\<not> hs_server s \<and> hs_reader s \<longrightarrow> hs_response_delivered s"
    "hs_response_delivered s \<longrightarrow> hs_has_response s \<or> hs_response_error s \<noteq> Success"
    using D(5) by (auto simp: hs_life_def)
  have "\<not> hs_response_handler (close_stream s) \<and> H2_response End_of_stream \<in> set (hs_events (close_stream s))"
    if h: "hs_response_handler s" and m: "hs_in_map s"
  proof -
    have c: "\<not> hs_reader s" "\<not> hs_has_response s" "hs_response_error s = Success" using h life by auto
    then have "hs_read_handler s = None" using D(2) by (cases "hs_read_handler s") (auto simp: hs_read_inv_def hs_core_def)
    with c h m have "close_stream s = hs_emit (H2_response End_of_stream)
        ((hs_emit H2_erase ((hs_mark_closed s)\<lparr>hs_in_map := False\<rparr>))\<lparr>hs_response_handler := False\<rparr>)"
      by (simp add: close_stream_def close_stream_with_eq Let_def) (simp add: hs_emit_def)
    then show ?thesis by (simp add: hs_emit_def)
  qed
  with life show ?thesis by blast
qed

theorem h2_response_not_left_waiting_witness:
  "\<exists>s. hs_run False [Hop_get_response] = Some s \<and> hs_response_handler s \<and> hs_in_map s \<and>
       \<not> hs_response_handler (close_stream s)"
proof -
  have "hs_run False [Hop_get_response] \<noteq> None" by code_simp
  then obtain s where s: "hs_run False [Hop_get_response] = Some s" by blast
  have "hs_response_handler (the (hs_run False [Hop_get_response]))" "hs_in_map (the (hs_run False [Hop_get_response]))"
    by code_simp+
  with s have "hs_response_handler s" "hs_in_map s" by simp_all
  with s h2_response_not_left_waiting [OF s] show ?thesis by blast
qed

text \<open>The entry ladder of the Writer contract, on an HTTP/2 stream and on a handle that has
  outlived it: an empty write is free; once the end of the body was asked for, more data has no body
  to belong to (\<open>broken_pipe\<close>), and when the end has gone out, ending it again changes nothing.\<close>

theorem h2_writer_ladder:
  "hs_write_answer s [] False = Some Success \<and>
   (hs_eof_requested s \<and> hs_eof_submitted s \<longrightarrow>
      hs_write_answer s buffer eof = Some (if buffer = [] then Success else Broken_pipe)) \<and>
   (hs_eof_requested s \<and> buffer \<noteq> [] \<longrightarrow> hs_write_answer s buffer eof = Some Broken_pipe) \<and>
   h2_detached_write True buffer eof = (if buffer = [] then Success else Broken_pipe)"
  using hs_writer.empty_write [of s] hs_writer.ended_answers [of s buffer eof]
    hs_writer.data_after_end [of s buffer eof] hs_detached.ended_answers [of True buffer eof]
  by simp

theorem h2_writer_ladder_witness:
  "\<exists>s. hs_run True [Hop_write [] True, Hop_produce 4] = Some s \<and>
       hs_write_answer s [1] False = Some Broken_pipe \<and> hs_write_answer s [] True = Some Success"
proof -
  let ?s = "the (hs_run True [Hop_write [] True, Hop_produce 4])"
  have "hs_run True [Hop_write [] True, Hop_produce 4] \<noteq> None" by code_simp
  then obtain s where s: "hs_run True [Hop_write [] True, Hop_produce 4] = Some s" by blast
  have "hs_eof_requested ?s" "hs_eof_submitted ?s" by code_simp+
  with s h2_writer_ladder [of s "[1]" False] h2_writer_ladder [of s "[]" True] show ?thesis
    by (intro exI [of _ s]) simp
qed

section \<open>A stream that is never let go\<close>

definition hs_stuck :: "h2_stream \<Rightarrow> bool" where
  "hs_stuck s = (hs_in_map s \<and> hs_closed s \<and> \<not> hs_close_deferred s \<and> hs_response_delivered s)"

lemma hs_stuck_same: "hs_rest2 s = hs_rest2 t \<Longrightarrow> hs_stuck s = hs_stuck t"
  using hs_rest2_eqD [of s t] by (simp add: hs_stuck_def)

lemma hs_stuck_upd [simp]:
  "hs_stuck (hs_emit e s) = hs_stuck s" "hs_stuck (s\<lparr>hs_read_handler := h\<rparr>) = hs_stuck s"
  "hs_stuck (s\<lparr>hs_received := d\<rparr>) = hs_stuck s" "hs_stuck (s\<lparr>hs_reader := a\<rparr>) = hs_stuck s" "hs_stuck (s\<lparr>hs_script := as\<rparr>) = hs_stuck s"
  "hs_stuck (s\<lparr>hs_header_limit_exceeded := a\<rparr>) = hs_stuck s" "hs_stuck (s\<lparr>hs_writer := a\<rparr>) = hs_stuck s"
  "hs_stuck (s\<lparr>hs_write_handler := a\<rparr>) = hs_stuck s" "hs_stuck (s\<lparr>hs_body := b\<rparr>) = hs_stuck s"
  "hs_stuck (s\<lparr>hs_write_buffer := b\<rparr>) = hs_stuck s" "hs_stuck (s\<lparr>hs_wire := b\<rparr>) = hs_stuck s"
  "hs_stuck (s\<lparr>hs_eof_requested := a\<rparr>) = hs_stuck s" "hs_stuck (s\<lparr>hs_eof_submitted := a\<rparr>) = hs_stuck s"
  "hs_stuck (s\<lparr>hs_is_deferred := a\<rparr>) = hs_stuck s" "hs_stuck (s\<lparr>hs_response_handler := a\<rparr>) = hs_stuck s"
  "hs_stuck (maybe_close_stream s) = hs_stuck s" "hs_stuck (resume s) = hs_stuck s" "hs_stuck (delete_reader s) = hs_stuck s"
  by (simp_all add: hs_stuck_def hs_emit_def maybe_close_stream_def resume_def delete_reader_def Let_def)

lemma hs_stuck_deferred: "hs_stuck s \<Longrightarrow> hs_stuck (finish_deferred_close s)"
  by (simp add: finish_deferred_close_def hs_stuck_def)

lemma hs_stuck_call: "hs_stuck s \<Longrightarrow> hs_stuck (hs_call_read_handler v s)"
  using hs_stuck_deferred hs_stuck_same [of "call_read_handler_body v s" s] hs_same_body [of v s]
  by (simp add: hs_call_read_handler_def hs_same_def)

lemma hs_stuck_step:
  assumes "hs_inv s" and "hs_enabled a s" and "hs_stuck s"
  shows "hs_stuck (hs_exec a s)"
proof -
  have "hs_closed s" "hs_response_delivered s" using assms(3) by (simp_all add: hs_stuck_def)
  with assms(2,3) show ?thesis
    by (cases a) (simp_all add: hs_async_read_some_def hs_stuck_call hs_cancel_read_def hs_reader_dtor_def hs_stuck_deferred
        hs_async_write_def hs_cancel_write_def producer_callback_def hs_writer_dtor_def async_get_response_def
        cancel_get_response_def Let_def)
qed

text \<open>A client's stream whose response came before it was asked for is kept when it closes, so
  that the response can still be had; but once it has been had, no operation takes the stream out of
  its session any more.\<close>

theorem h2_late_response_never_erased:
  assumes "hs_run False ops = Some s" and "hs_closed s" and "hs_in_map s" and "\<not> hs_response_delivered s"
    and "hs_has_response s" and "hs_response_error s = Success"
    and "run hs_exec hs_enabled (async_get_response s) later = Some t"
  shows "H2_response Success \<in> set (hs_events (async_get_response s)) \<and> hs_in_map t \<and> hs_closed t"
proof -
  let ?r = "async_get_response s"
  have inv: "hs_inv s" by (rule hs_run_inv [OF assms(1)])
  then have c: "\<not> hs_server s" "\<not> hs_close_deferred s" using hs_invD(5) assms(4,5) by (auto simp: hs_life_def)
  have r: "?r = hs_emit (H2_response Success)
      (s\<lparr>hs_response_delivered := True, hs_reader := True, hs_response_handler := False\<rparr>)"
    using assms(4-6) by (simp add: async_get_response_def deliver_response_def)
  have "hs_stuck ?r" using assms(2,3) c(2) by (simp add: r hs_emit_def hs_stuck_def)
  then have "hs_stuck t"
    by (rule hs.run_stable [OF response_ops_inv(1) [OF inv c(1)] assms(7)]) (rule hs_stuck_step)
  then show ?thesis by (simp add: r hs_emit_def hs_stuck_def)
qed

theorem h2_late_response_never_erased_witness:
  "\<exists>s t. hs_run False [Hop_response, Hop_eof, Hop_close] = Some s \<and>
         run hs_exec hs_enabled (async_get_response s) [Hop_read 1, Hop_drop_reader, Hop_drop_writer] = Some t \<and>
         \<not> hs_reader t \<and> \<not> hs_writer t \<and> hs_in_map t"
proof -
  let ?ops = "[Hop_response, Hop_eof, Hop_close]" and ?later = "[Hop_read 1, Hop_drop_reader, Hop_drop_writer]"
  let ?s = "the (hs_run False ?ops)" and ?t = "the (run hs_exec hs_enabled (async_get_response (the (hs_run False ?ops))) ?later)"
  have "hs_run False ?ops \<noteq> None" "run hs_exec hs_enabled (async_get_response ?s) ?later \<noteq> None" by code_simp+
  then obtain s t where st: "hs_run False ?ops = Some s" "run hs_exec hs_enabled (async_get_response s) ?later = Some t" by auto
  have "hs_closed ?s" "hs_in_map ?s" "\<not> hs_response_delivered ?s" "hs_has_response ?s" "hs_response_error ?s = Success"
    "\<not> hs_reader ?t" "\<not> hs_writer ?t" by code_simp+
  with st h2_late_response_never_erased [OF st(1) _ _ _ _ _ st(2)] show ?thesis
    by (intro exI [of _ s] exI [of _ t]) simp
qed

end
