(* ===== verification/Text_Lib.thy ===== *)
theory Text_Lib
  imports Prelude
begin

text \<open>
  What the sources use of the standard library to read and write text: \<open>std::to_string\<close> and
  \<open>std::from_chars\<close> for unsigned decimal numbers, and the searching members of
  \<open>std::string_view\<close>. Text is a \<open>string\<close>, a list of characters.
\<close>

section \<open>Decimal numbers\<close>

definition digit_char :: "nat \<Rightarrow> char" where
  "digit_char d = char_of (48 + d)"

definition is_digit :: "char \<Rightarrow> bool" where
  "is_digit c = (48 \<le> (of_char c :: nat) \<and> (of_char c :: nat) \<le> 57)"

definition digit_value :: "char \<Rightarrow> nat" where
  "digit_value c = of_char c - 48"

definition digits_value :: "string \<Rightarrow> nat" where
  "digits_value s = foldl (\<lambda>v c. 10 * v + digit_value c) 0 s"

fun to_string :: "nat \<Rightarrow> string" where
  "to_string n = (if n < 10 then [digit_char n] else to_string (n div 10) @ [digit_char (n mod 10)])"

declare to_string.simps [simp del]

text \<open>\<open>std::from_chars\<close> on an unsigned type of \<open>w\<close> bits: the number a maximal sequence of digits
  stands for and what follows it, or nothing if there is no digit or the number does not fit.\<close>

definition from_chars :: "nat \<Rightarrow> string \<Rightarrow> (nat \<times> string) option" where
  "from_chars w s =
     (let ds = takeWhile is_digit s; v = digits_value ds
      in if ds = [] \<or> v \<ge> 2 ^ w then None else Some (v, dropWhile is_digit s))"

lemma digit_char_simps [simp]:
  "d < 10 \<Longrightarrow> is_digit (digit_char d)" "d < 10 \<Longrightarrow> digit_value (digit_char d) = d"
  by (simp_all add: is_digit_def digit_value_def digit_char_def)

lemma digits_value_snoc [simp]: "digits_value (s @ [c]) = 10 * digits_value s + digit_value c"
  by (simp add: digits_value_def)

lemma digits_value_Nil [simp]: "digits_value [] = 0"
  by (simp add: digits_value_def)

lemma to_string_not_Nil [simp]: "to_string n \<noteq> []"
  by (subst to_string.simps) simp

lemma to_string_digits: "\<forall>c \<in> set (to_string n). is_digit c"
proof (induction n rule: to_string.induct)
  case (1 n)
  then show ?case by (subst to_string.simps) auto
qed

lemma digits_value_to_string [simp]: "digits_value (to_string n) = n"
proof (induction n rule: to_string.induct)
  case (1 n)
  show ?case
  proof (cases "n < 10")
    case True
    then show ?thesis by (subst to_string.simps) (simp add: digits_value_def)
  next
    case False
    with 1 show ?thesis by (subst to_string.simps) simp
  qed
qed

lemma from_chars_digits:
  assumes "\<forall>c \<in> set ds. is_digit c" "ds \<noteq> []" "digits_value ds < 2 ^ w" "rest = [] \<or> \<not> is_digit (hd rest)"
  shows "from_chars w (ds @ rest) = Some (digits_value ds, rest)"
proof -
  have "takeWhile is_digit (ds @ rest) = ds" "dropWhile is_digit (ds @ rest) = rest"
    using assms(1,4) by (cases rest; simp add: takeWhile_append2 dropWhile_append2)+
  with assms(2,3) show ?thesis by (simp add: from_chars_def)
qed

text \<open>What is written can be read back, at any width that holds it.\<close>

lemma from_chars_to_string: "n < 2 ^ w \<Longrightarrow> from_chars w (to_string n) = Some (n, [])"
  using from_chars_digits [of "to_string n" w "[]"] to_string_digits by simp

lemma from_chars_bound: "from_chars w s = Some (v, rest) \<Longrightarrow> v < 2 ^ w"
  by (auto simp: from_chars_def Let_def split: if_splits)

section \<open>Searching\<close>

fun find_char :: "char \<Rightarrow> string \<Rightarrow> nat \<Rightarrow> nat option" where
  "find_char c [] i = None"
| "find_char c (x # xs) i =
     (case i of
        0 \<Rightarrow> if x = c then Some 0 else map_option Suc (find_char c xs 0)
      | Suc i' \<Rightarrow> map_option Suc (find_char c xs i'))"

fun rfind_char :: "char \<Rightarrow> string \<Rightarrow> nat option" where
  "rfind_char c [] = None"
| "rfind_char c (x # xs) =
     (case rfind_char c xs of
        Some i \<Rightarrow> Some (Suc i)
      | None \<Rightarrow> if x = c then Some 0 else None)"

lemma find_char_Some: "find_char c s i = Some k \<Longrightarrow> i \<le> k \<and> k < length s \<and> s ! k = c"
proof (induction c s i arbitrary: k rule: find_char.induct)
  case (2 c x xs i)
  then show ?case by (cases i) (auto split: if_splits)
qed simp

lemma rfind_char_Some: "rfind_char c s = Some k \<Longrightarrow> k < length s \<and> s ! k = c \<and> c \<notin> set (drop (Suc k) s)"
proof (induction s arbitrary: k)
  case (Cons x xs)
  then show ?case
  proof (cases "rfind_char c xs")
    case None
    moreover have "rfind_char c xs = None \<Longrightarrow> c \<notin> set xs" by (induction xs) (auto split: option.splits if_splits)
    ultimately show ?thesis using Cons.prems by (auto split: if_splits)
  qed auto
qed simp

lemma rfind_char_last: "c \<notin> set ys \<Longrightarrow> rfind_char c (xs @ c # ys) = Some (length xs)"
proof (induction xs)
  case Nil
  then have "rfind_char c ys = None" by (induction ys) auto
  then show ?case by simp
qed simp

section \<open>Case\<close>

text \<open>\<open>std::tolower\<close> and the comparison of names without regard to case.\<close>

definition to_lower :: "char \<Rightarrow> char" where
  "to_lower c = (let n = of_char c :: nat in if 65 \<le> n \<and> n \<le> 90 then char_of (n + 32) else c)"

definition iequals :: "string \<Rightarrow> string \<Rightarrow> bool" where
  "iequals a b = (map to_lower a = map to_lower b)"

end
