(* ===== verification/H2_Session.thy ===== *)
theory H2_Session
  imports H2_Machine Text_Lib Stream_Table
begin

text \<open>
  An HTTP/2 session of the nghttp2 backend, \<^verbatim>\<open>src/h2/session.cpp\<close>: the callbacks nghttp2 makes while
  it parses what the peer sent, the table of streams they act on, and submitting a request.

  An \<open>exchange\<close> is what a session holds for a stream: the stream of \<open>H2_Stream\<close> and what is known of its
  headers. nghttp2, Boost.URL and the field container of Boost.Beast are not part of this program:
  what nghttp2 answers is an argument of the operation that asks, and the others are the parameters
  collected in \<open>h2_lib\<close>. Calls of nghttp2 are appended to \<open>ss_events\<close>.
\<close>

section \<open>Headers\<close>

type_synonym field = "string \<times> string"

definition header_field_size :: "string \<Rightarrow> string \<Rightarrow> nat" where
  "header_field_size name val = length name + length val + 32"

text \<open>What the parsers of Boost.URL and the lookup of Boost.Beast do. \<open>parse_relative_ref\<close> returns the
  path, the query and the fragment, and the setters that return an option may throw.\<close>

record 'u h2_lib =
  parse_relative_ref :: "string \<Rightarrow> (string \<times> string option \<times> string option) option"
  set_path :: "string \<Rightarrow> 'u \<Rightarrow> 'u"
  set_query :: "string \<Rightarrow> 'u \<Rightarrow> 'u"
  set_fragment :: "string \<Rightarrow> 'u \<Rightarrow> 'u"
  set_scheme :: "string \<Rightarrow> 'u \<Rightarrow> 'u option"
  set_encoded_authority :: "string \<Rightarrow> 'u \<Rightarrow> 'u option"
  set_host :: "string \<Rightarrow> 'u \<Rightarrow> 'u option"
  field_value :: "string \<Rightarrow> field list \<Rightarrow> string"

record 'u exchange =
  x_stream :: h2_stream
  x_method :: string
  x_url :: 'u
  x_status_code :: "nat option"
  x_content_length :: "nat option"
  x_fields :: "field list"
  x_header_size :: nat

definition starts_with_colon :: "string \<Rightarrow> bool" where
  "starts_with_colon name = (name \<noteq> [] \<and> hd name = CHR '':'')"

text \<open>\<open>emplace()\<close> makes the number 0, and \<open>from_chars\<close> leaves it there if there is nothing to read.\<close>

definition parsed_number :: "nat \<Rightarrow> string \<Rightarrow> nat" where
  "parsed_number w val = (case from_chars w val of Some (n, _) \<Rightarrow> n | None \<Rightarrow> 0)"

definition set_target :: "'u h2_lib \<Rightarrow> string \<Rightarrow> 'u \<Rightarrow> 'u" where
  "set_target lib val u =
     (case parse_relative_ref lib val of
        None \<Rightarrow> u
      | Some (path, query, fragment) \<Rightarrow>
          let u = set_path lib path u;
              u = (case query of None \<Rightarrow> u | Some q \<Rightarrow> set_query lib q u)
          in (case fragment of None \<Rightarrow> u | Some f \<Rightarrow> set_fragment lib f u))"

text \<open>A part of the URL that is not valid throws, and is ignored.\<close>

definition set_part :: "('u \<Rightarrow> 'u option) \<Rightarrow> 'u \<Rightarrow> 'u" where
  "set_part f u = (case f u of None \<Rightarrow> u | Some u1 \<Rightarrow> u1)"

definition store_header :: "'u h2_lib \<Rightarrow> string \<Rightarrow> string \<Rightarrow> 'u exchange \<Rightarrow> 'u exchange" where
  "store_header lib name val x =
     (let x1 =
        (if name = '':method'' then x\<lparr>x_method := val\<rparr>
         else if name = '':path'' then x\<lparr>x_url := set_target lib val (x_url x)\<rparr>
         else if name = '':scheme'' then x\<lparr>x_url := set_part (set_scheme lib val) (x_url x)\<rparr>
         else if name = '':authority'' then x\<lparr>x_url := set_part (set_encoded_authority lib val) (x_url x)\<rparr>
         else if name = '':host'' then x\<lparr>x_url := set_part (set_host lib val) (x_url x)\<rparr>
         else if name = '':status'' then x\<lparr>x_status_code := Some (parsed_number 32 val)\<rparr>
         else if name = ''content-length'' then x\<lparr>x_content_length := Some (parsed_number 64 val)\<rparr>
         else x)
      in if starts_with_colon name then x1 else x1\<lparr>x_fields := x_fields x1 @ [(name, val)]\<rparr>)"

text \<open>Beyond the limit, fields are not stored any more.\<close>

definition receive_header :: "'u h2_lib \<Rightarrow> nat \<Rightarrow> string \<Rightarrow> string \<Rightarrow> 'u exchange \<Rightarrow> 'u exchange" where
  "receive_header lib limit name val x =
     (if hs_header_limit_exceeded (x_stream x) then x
      else let x1 = x\<lparr>x_header_size := x_header_size x + header_field_size name val\<rparr>
           in if x_header_size x1 > limit
              then x1\<lparr>x_stream := (x_stream x1)\<lparr>hs_header_limit_exceeded := True\<rparr>\<rparr>
              else store_header lib name val x1)"

section \<open>The session\<close>

datatype frame_type =
    DATA | HEADERS | PRIORITY | RST_STREAM | SETTINGS | PUSH_PROMISE | PING | GOAWAY
  | WINDOW_UPDATE | CONTINUATION | ALTSVC | ORIGIN | PRIORITY_UPDATE | UNKNOWN nat

datatype headers_category = Cat_request | Cat_response | Cat_push_response | Cat_headers

record frame =
  fr_type :: frame_type
  fr_stream_id :: int
  fr_end_stream :: bool
  fr_cat :: headers_category
  fr_field_value :: string

datatype launched = Launch_handler | Launch_too_large | Launch_not_found

datatype session_event =
    Se_submit_rst int rst_code
  | Se_submit_goaway int
  | Se_consume_connection nat
  | Se_alt_svc string
  | Se_launch int launched
  | Se_submitted error_code
  | Se_submitted_again

record 'u h2_session =
  ss_server :: bool
  ss_open :: bool
  ss_streams :: "(int \<times> 'u exchange) list"
  ss_last_id :: int
  ss_request_counter :: nat
  ss_max_header_size :: nat
  ss_goaway_sent :: bool
  ss_send_ready :: bool
  ss_dying :: "'u exchange list"
  ss_events :: "session_event list"

definition ss_emit :: "session_event \<Rightarrow> 'u h2_session \<Rightarrow> 'u h2_session" where
  "ss_emit e s = s\<lparr>ss_events := ss_events s @ [e]\<rparr>"

definition start_write :: "'u h2_session \<Rightarrow> 'u h2_session" where
  "start_write s = s\<lparr>ss_send_ready := True\<rparr>"

definition find_stream :: "int \<Rightarrow> 'u h2_session \<Rightarrow> 'u exchange option" where
  "find_stream sid s = map_of (ss_streams s) sid"

definition new_exchange :: "'u \<Rightarrow> h2_stream \<Rightarrow> 'u exchange" where
  "new_exchange u stream =
     \<lparr>x_stream = stream, x_method = [], x_url = u, x_status_code = None, x_content_length = None,
      x_fields = [], x_header_size = 0\<rparr>"

text \<open>\<open>emplace\<close> leaves an entry that is there alone.\<close>

definition emplace :: "int \<Rightarrow> 'u exchange \<Rightarrow> 'u h2_session \<Rightarrow> 'u h2_session" where
  "emplace sid x s =
     (if find_stream sid s = None then s\<lparr>ss_streams := ss_streams s @ [(sid, x)]\<rparr> else s)"

definition create_stream :: "'u \<Rightarrow> int \<Rightarrow> 'u h2_session \<Rightarrow> 'u h2_session" where
  "create_stream no_url sid s =
     (let s1 = emplace sid (new_exchange no_url hs_init) s
      in s1\<lparr>ss_request_counter := ss_request_counter s1 + 1\<rparr>)"

text \<open>What \<open>close_stream\<close> does once the stream is out of the table: the stream itself goes later, and a
  client without streams says goodbye.\<close>

definition erase_stream :: "int \<Rightarrow> 'u exchange \<Rightarrow> 'u h2_session \<Rightarrow> 'u h2_session" where
  "erase_stream sid x s =
     (let s1 = s\<lparr>ss_streams := AList.delete sid (ss_streams s), ss_dying := ss_dying s @ [x]\<rparr>
      in if \<not> ss_server s1 \<and> ss_streams s1 = [] then ss_emit (Se_submit_goaway (ss_last_id s1)) s1 else s1)"

text \<open>An operation of a stream, in its session: it may wake the send loop, and it may have closed the
  stream, which is then out of the table.\<close>

definition wakes :: "h2_stream \<Rightarrow> h2_stream \<Rightarrow> bool" where
  "wakes before after = (H2_start_write \<in> set (drop (length (hs_events before)) (hs_events after)))"

definition on_stream :: "(h2_stream \<Rightarrow> h2_stream) \<Rightarrow> int \<Rightarrow> 'u h2_session \<Rightarrow> 'u h2_session" where
  "on_stream f sid s =
     (case find_stream sid s of
        None \<Rightarrow> s
      | Some x \<Rightarrow>
          let x1 = x\<lparr>x_stream := f (x_stream x)\<rparr>;
              s1 = s\<lparr>ss_streams := AList.update sid x1 (ss_streams s),
                     ss_send_ready := ss_send_ready s \<or> wakes (x_stream x) (x_stream x1)\<rparr>
          in if hs_in_map (x_stream x1) then s1 else erase_stream sid x1 s1)"

section \<open>The callbacks of nghttp2\<close>

definition on_begin_headers_callback :: "'u \<Rightarrow> frame \<Rightarrow> 'u h2_session \<Rightarrow> 'u h2_session" where
  "on_begin_headers_callback no_url f s =
     (if fr_type f \<noteq> HEADERS \<or> fr_cat f \<noteq> Cat_request then s else create_stream no_url (fr_stream_id f) s)"

definition on_header_callback :: "'u h2_lib \<Rightarrow> int \<Rightarrow> string \<Rightarrow> string \<Rightarrow> 'u h2_session \<Rightarrow> 'u h2_session" where
  "on_header_callback lib sid name val s =
     (case find_stream sid s of
        None \<Rightarrow> s
      | Some x \<Rightarrow> s\<lparr>ss_streams := AList.update sid (receive_header lib (ss_max_header_size s) name val x) (ss_streams s)\<rparr>)"

definition on_frame_not_send_callback :: "frame \<Rightarrow> 'u h2_session \<Rightarrow> 'u h2_session" where
  "on_frame_not_send_callback f s =
     (if fr_type f = HEADERS \<and> fr_cat f \<noteq> Cat_request
      then ss_emit (Se_submit_rst (fr_stream_id f) Rst_internal_error) s else s)"

definition ss_on_alt_svc :: "string \<Rightarrow> 'u h2_session \<Rightarrow> 'u h2_session" where
  "ss_on_alt_svc v s = (if ss_server s then s else ss_emit (Se_alt_svc v) s)"

text \<open>\<open>NGHttp2Stream::on_request\<close>, with what it starts on the server.\<close>

definition ss_on_request :: "bool \<Rightarrow> int \<Rightarrow> 'u exchange \<Rightarrow> 'u h2_session \<Rightarrow> 'u h2_session" where
  "ss_on_request has_handler sid x s =
     ss_emit (Se_launch sid (if hs_header_limit_exceeded (x_stream x) then Launch_too_large
                            else if has_handler then Launch_handler else Launch_not_found))
       (on_stream on_request sid s)"

definition ss_on_response :: "'u h2_lib \<Rightarrow> int \<Rightarrow> 'u exchange \<Rightarrow> 'u h2_session \<Rightarrow> 'u h2_session" where
  "ss_on_response lib sid x s =
     on_stream on_response sid
       (let v = field_value lib ''alt-svc'' (x_fields x) in if v \<noteq> [] then ss_on_alt_svc v s else s)"

definition on_frame_recv_callback :: "'u h2_lib \<Rightarrow> bool \<Rightarrow> frame \<Rightarrow> 'u h2_session \<Rightarrow> 'u h2_session" where
  "on_frame_recv_callback lib has_handler f s =
     (if fr_type f = ALTSVC then ss_on_alt_svc (fr_field_value f) s
      else case find_stream (fr_stream_id f) s of
             None \<Rightarrow> if fr_stream_id f > 0 then ss_emit (Se_submit_rst (fr_stream_id f) Rst_stream_closed) s else s
           | Some x \<Rightarrow>
               if fr_type f = DATA then
                 (if fr_end_stream f then on_stream hs_on_eof (fr_stream_id f) s else s)
               else if fr_type f = HEADERS then
                 let s1 = (if fr_cat f = Cat_request then ss_on_request has_handler (fr_stream_id f) x s
                           else if fr_cat f = Cat_response then ss_on_response lib (fr_stream_id f) x s
                           else s);
                     s2 = (if fr_end_stream f then on_stream hs_on_eof (fr_stream_id f) s1 else s1)
                 in start_write s2
               else s)"

definition on_data_chunk_recv_callback :: "int \<Rightarrow> bytes \<Rightarrow> 'u h2_session \<Rightarrow> 'u h2_session" where
  "on_data_chunk_recv_callback sid data s =
     start_write (on_stream (hs_on_data data) sid (ss_emit (Se_consume_connection (length data)) s))"

definition on_frame_send_callback :: "frame \<Rightarrow> 'u h2_session \<Rightarrow> 'u h2_session" where
  "on_frame_send_callback f s = (if fr_type f = GOAWAY then s\<lparr>ss_goaway_sent := True\<rparr> else s)"

definition on_stream_close_callback :: "int \<Rightarrow> 'u h2_session \<Rightarrow> 'u h2_session" where
  "on_stream_close_callback sid s = on_stream close_stream sid s"

section \<open>Submitting a request\<close>

text \<open>What goes into the header section, in this order.\<close>

definition request_nva :: "string \<Rightarrow> string \<Rightarrow> string \<Rightarrow> string \<Rightarrow> field list \<Rightarrow> field list" where
  "request_nva meth scheme target authority headers =
     [('':method'', meth), ('':scheme'', scheme), ('':path'', target), ('':authority'', authority)] @ headers"

definition response_nva :: "nat \<Rightarrow> string \<Rightarrow> string \<Rightarrow> (string \<Rightarrow> field list \<Rightarrow> bool) \<Rightarrow> field list \<Rightarrow> nat option \<Rightarrow> field list" where
  "response_nva status date alt_svc has_field headers content_length =
     [('':status'', to_string status), (''date'', date)] @
     (if alt_svc \<noteq> [] \<and> \<not> has_field ''alt-svc'' headers then [(''alt-svc'', alt_svc)] else []) @
     headers @
     (case content_length of None \<Rightarrow> [] | Some n \<Rightarrow> [(''content-length'', to_string n)])"

text \<open>\<open>allowed\<close>, \<open>limit\<close> and \<open>sid\<close> are what nghttp2 answers: whether a request is allowed, how many streams the
  peer allows, and the number of the new stream, negative if there is none. In that case the handler
  is called, and the operation goes on nevertheless.\<close>

definition async_submit :: "bool \<Rightarrow> nat \<Rightarrow> int \<Rightarrow> 'u \<Rightarrow> 'u h2_session \<Rightarrow> 'u h2_session" where
  "async_submit allowed limit sid u s =
     (if \<not> ss_open s then ss_emit (Se_submitted Canceled) s
      else if \<not> allowed then ss_emit (Se_submitted Canceled) s
      else if length (ss_streams s) \<ge> limit then ss_emit (Se_submitted Would_block) s
      else let s1 = (if sid < 0 then ss_emit (Se_submitted Invalid_argument) s else s);
               s2 = emplace sid (new_exchange u hs_client) (s1\<lparr>ss_last_id := sid\<rparr>)
           in start_write (ss_emit (if sid < 0 then Se_submitted_again else Se_submitted Success) s2))"

section \<open>The end\<close>

text \<open>A stream that was erased goes in a turn of its own; what is left goes with the session.\<close>

definition reap_stream :: "'u h2_session \<Rightarrow> 'u exchange option \<times> 'u h2_session" where
  "reap_stream s =
     (case ss_dying s of
        [] \<Rightarrow> (None, s)
      | x # xs \<Rightarrow> (Some (x\<lparr>x_stream := hs_dtor (x_stream x)\<rparr>), s\<lparr>ss_dying := xs\<rparr>))"

definition session_dtor :: "'u h2_session \<Rightarrow> 'u exchange list \<times> 'u h2_session" where
  "session_dtor s =
     (map (\<lambda>x. x\<lparr>x_stream := hs_dtor (x_stream x)\<rparr>) (map snd (ss_streams s)),
      s\<lparr>ss_streams := [], ss_open := False\<rparr>)"

end
