(* ===== verification/H2_Session_Machine.thy ===== *)
theory H2_Session_Machine
  imports H2_Session H2_Contracts
begin

text \<open>
  A session as a machine: callbacks of nghttp2, requests, and operations of the application on the
  streams of the session, in any order. Every stream in the table keeps the invariant of
  \<open>H2_Machine\<close>, so all that \<open>H2_Properties\<close> says of a stream holds of each of them.
\<close>

section \<open>The machine\<close>

datatype 'u ss_op =
    So_begin_headers frame
  | So_header int string string
  | So_frame frame
  | So_chunk int bytes
  | So_frame_sent frame
  | So_frame_not_sent frame
  | So_closed int
  | So_submit bool nat int 'u
  | So_app int h2_op
  | So_reap

fun ss_exec :: "'u h2_lib \<Rightarrow> 'u \<Rightarrow> bool \<Rightarrow> 'u ss_op \<Rightarrow> 'u h2_session \<Rightarrow> 'u h2_session" where
  "ss_exec lib no_url has_handler (So_begin_headers f) s = on_begin_headers_callback no_url f s"
| "ss_exec lib no_url has_handler (So_header sid name val) s = on_header_callback lib sid name val s"
| "ss_exec lib no_url has_handler (So_frame f) s = on_frame_recv_callback lib has_handler f s"
| "ss_exec lib no_url has_handler (So_chunk sid d) s = on_data_chunk_recv_callback sid d s"
| "ss_exec lib no_url has_handler (So_frame_sent f) s = on_frame_send_callback f s"
| "ss_exec lib no_url has_handler (So_frame_not_sent f) s = on_frame_not_send_callback f s"
| "ss_exec lib no_url has_handler (So_closed sid) s = on_stream_close_callback sid s"
| "ss_exec lib no_url has_handler (So_submit allowed limit sid u) s = async_submit allowed limit sid u s"
| "ss_exec lib no_url has_handler (So_app sid a) s = on_stream (hs_exec a) sid s"
| "ss_exec lib no_url has_handler So_reap s = snd (reap_stream s)"

text \<open>What the application does with a stream, and what nghttp2 does to it through its callbacks.\<close>

fun is_app_op :: "h2_op \<Rightarrow> bool" where
  "is_app_op (Hop_data d) = False"
| "is_app_op Hop_eof = False"
| "is_app_op Hop_response = False"
| "is_app_op Hop_close = False"
| "is_app_op Hop_header_limit = False"
| "is_app_op _ = True"

definition stream_allows :: "h2_op \<Rightarrow> int \<Rightarrow> 'u h2_session \<Rightarrow> bool" where
  "stream_allows a sid s = (case find_stream sid s of None \<Rightarrow> True | Some x \<Rightarrow> hs_enabled a (x_stream x))"

definition is_fresh :: "int \<Rightarrow> 'u h2_session \<Rightarrow> bool" where
  "is_fresh sid s =
     (case find_stream sid s of
        None \<Rightarrow> True
      | Some x \<Rightarrow> x_stream x = hs_init\<lparr>hs_header_limit_exceeded := hs_header_limit_exceeded (x_stream x)\<rparr>)"

text \<open>nghttp2 begins a stream once, reports its frames in the order of the protocol (\<open>hs_enabled\<close>), and gives a
  new request a number that is not in use.\<close>

fun ss_enabled :: "'u ss_op \<Rightarrow> 'u h2_session \<Rightarrow> bool" where
  "ss_enabled (So_begin_headers f) s =
     (fr_type f = HEADERS \<and> fr_cat f = Cat_request \<longrightarrow> ss_server s \<and> find_stream (fr_stream_id f) s = None)"
| "ss_enabled (So_frame f) s =
     ((fr_type f = DATA \<or> fr_type f = HEADERS \<longrightarrow> (fr_end_stream f \<longrightarrow> stream_allows Hop_eof (fr_stream_id f) s)) \<and>
      (fr_type f = HEADERS \<and> fr_cat f = Cat_request \<longrightarrow> is_fresh (fr_stream_id f) s) \<and>
      (fr_type f = HEADERS \<and> fr_cat f = Cat_response \<longrightarrow> stream_allows Hop_response (fr_stream_id f) s))"
| "ss_enabled (So_chunk sid d) s = stream_allows (Hop_data d) sid s"
| "ss_enabled (So_closed sid) s = stream_allows Hop_close sid s"
| "ss_enabled (So_submit allowed limit sid u) s = (\<not> ss_server s \<and> find_stream sid s = None)"
| "ss_enabled (So_app sid a) s = (is_app_op a \<and> stream_allows a sid s)"
| "ss_enabled _ s = True"

section \<open>The invariant\<close>

definition fields_size :: "field list \<Rightarrow> nat" where
  "fields_size fs = sum_list (map (\<lambda>(name, val). header_field_size name val) fs)"

definition x_ok :: "nat \<Rightarrow> 'u exchange \<Rightarrow> bool" where
  "x_ok limit x =
     (hs_inv (x_stream x) \<and> hs_in_map (x_stream x) \<and>
      fields_size (x_fields x) \<le> x_header_size x \<and> fields_size (x_fields x) \<le> limit)"

definition ss_inv :: "'u h2_session \<Rightarrow> bool" where
  "ss_inv s =
     (distinct_keys (ss_streams s) \<and>
      (\<forall>sid x. find_stream sid s = Some x \<longrightarrow> x_ok (ss_max_header_size s) x) \<and>
      (\<forall>x \<in> set (ss_dying s). hs_inv (x_stream x) \<and> \<not> hs_in_map (x_stream x)))"

lemma ss_invD:
  assumes "ss_inv s"
  shows "distinct_keys (ss_streams s)" "find_stream sid s = Some x \<Longrightarrow> x_ok (ss_max_header_size s) x"
    "x \<in> set (ss_dying s) \<Longrightarrow> hs_inv (x_stream x) \<and> \<not> hs_in_map (x_stream x)"
  using assms by (auto simp: ss_inv_def)

lemma ss_inv_cong:
  assumes "ss_inv s" "ss_streams t = ss_streams s" "ss_dying t = ss_dying s" "ss_max_header_size t = ss_max_header_size s"
  shows "ss_inv t"
  using assms by (simp add: ss_inv_def find_stream_def)

lemma ss_inv_simple [simp]:
  "ss_inv (ss_emit e s) = ss_inv s" "ss_inv (start_write s) = ss_inv s" "ss_inv (s\<lparr>ss_last_id := n\<rparr>) = ss_inv s"
  "ss_inv (s\<lparr>ss_goaway_sent := b\<rparr>) = ss_inv s" "ss_inv (s\<lparr>ss_request_counter := k\<rparr>) = ss_inv s"
  "ss_inv (ss_on_alt_svc v s) = ss_inv s"
  by (simp_all add: ss_inv_def find_stream_def ss_emit_def start_write_def ss_on_alt_svc_def)

lemma ss_inv_put:
  assumes "ss_inv s" "x_ok (ss_max_header_size s) x"
  shows "ss_inv (s\<lparr>ss_streams := AList.update sid x (ss_streams s)\<rparr>)"
  using assms tbl.all_put [of "ss_streams s" "x_ok (ss_max_header_size s)" x sid]
  by (auto simp: ss_inv_def find_stream_def tbl.ok_put)

lemma ss_inv_erase:
  assumes "ss_inv s" "hs_inv (x_stream x)" "\<not> hs_in_map (x_stream x)"
  shows "ss_inv (erase_stream sid x s)"
proof -
  let ?t = "s\<lparr>ss_streams := AList.delete sid (ss_streams s), ss_dying := ss_dying s @ [x]\<rparr>"
  have "ss_inv ?t"
    using assms tbl.all_del [of "ss_streams s" "x_ok (ss_max_header_size s)" sid]
    by (auto simp: ss_inv_def find_stream_def tbl.ok_del)
  then show ?thesis by (auto simp: erase_stream_def Let_def)
qed

lemma delete_update: "AList.delete k (AList.update k v t) = AList.delete k t"
  by (induction t) (auto simp: AList.delete_eq)

lemma on_stream_inv:
  assumes "ss_inv s" and "\<And>x. find_stream sid s = Some x \<Longrightarrow> hs_inv (f (x_stream x))"
  shows "ss_inv (on_stream f sid s)"
proof (cases "find_stream sid s")
  case None
  with assms(1) show ?thesis by (simp add: on_stream_def)
next
  case (Some x)
  let ?x1 = "x\<lparr>x_stream := f (x_stream x)\<rparr>"
  let ?s0 = "s\<lparr>ss_send_ready := ss_send_ready s \<or> wakes (x_stream x) (f (x_stream x))\<rparr>"
  have inv: "ss_inv ?s0" by (rule ss_inv_cong [OF assms(1)]) simp_all
  have ok: "x_ok (ss_max_header_size s) x" by (rule ss_invD(2) [OF assms(1) Some])
  show ?thesis
  proof (cases "hs_in_map (f (x_stream x))")
    case True
    have "x_ok (ss_max_header_size s) ?x1" using ok True assms(2) [OF Some] by (simp add: x_ok_def)
    then have "ss_inv (?s0\<lparr>ss_streams := AList.update sid ?x1 (ss_streams s)\<rparr>)"
      using ss_inv_put [OF inv, of ?x1 sid] by simp
    then have "ss_inv (s\<lparr>ss_streams := AList.update sid ?x1 (ss_streams s),
        ss_send_ready := ss_send_ready s \<or> wakes (x_stream x) (f (x_stream x))\<rparr>)"
      by (rule ss_inv_cong) simp_all
    then show ?thesis using True Some by (simp add: on_stream_def Let_def)
  next
    case False
    have "ss_inv (erase_stream sid ?x1 ?s0)" using False assms(2) [OF Some] by (intro ss_inv_erase inv) simp_all
    then show ?thesis
      using False Some by (simp add: on_stream_def Let_def erase_stream_def delete_update)
  qed
qed

lemma find_stream_simple [simp]:
  "find_stream sid (ss_emit e s) = find_stream sid s" "find_stream sid (start_write s) = find_stream sid s"
  "find_stream sid (ss_on_alt_svc v s) = find_stream sid s" "find_stream sid (s\<lparr>ss_last_id := n\<rparr>) = find_stream sid s"
  "find_stream sid (s\<lparr>ss_request_counter := k\<rparr>) = find_stream sid s" "find_stream sid (s\<lparr>ss_goaway_sent := b\<rparr>) = find_stream sid s"
  by (simp_all add: find_stream_def ss_emit_def start_write_def ss_on_alt_svc_def)

lemma on_stream_allowed_inv: "ss_inv s \<Longrightarrow> stream_allows a sid s \<Longrightarrow> ss_inv (on_stream (hs_exec a) sid s)"
  using hs_exec_inv by (intro on_stream_inv) (auto simp: stream_allows_def x_ok_def dest: ss_invD(2))

lemma hs_exec_callbacks [simp]:
  "hs_exec Hop_eof = hs_on_eof" "hs_exec (Hop_data d) = hs_on_data d" "hs_exec Hop_response = on_response"
  "hs_exec Hop_close = close_stream"
  by (rule ext, simp)+

lemma erase_stream_streams [simp]: "ss_streams (erase_stream sid x s) = AList.delete sid (ss_streams s)"
  by (simp add: erase_stream_def Let_def ss_emit_def)

lemma find_stream_on_stream:
  assumes "distinct_keys (ss_streams s)"
  shows "find_stream j (on_stream f sid s) =
    (if j = sid then (case find_stream sid s of
        Some x \<Rightarrow> if hs_in_map (f (x_stream x)) then Some (x\<lparr>x_stream := f (x_stream x)\<rparr>) else None
      | None \<Rightarrow> None)
     else find_stream j s)"
  using assms
  by (auto simp: on_stream_def find_stream_def Let_def tbl.lookup_put tbl.lookup_del tbl.ok_put split: option.splits)

lemma x_ok_new: "hs_inv stream \<Longrightarrow> hs_in_map stream \<Longrightarrow> x_ok limit (new_exchange u stream)"
  by (simp add: x_ok_def new_exchange_def fields_size_def)

lemma emplace_inv:
  assumes "ss_inv s" "x_ok (ss_max_header_size s) x" "find_stream sid s = None"
  shows "ss_inv (emplace sid x s)"
proof -
  have "sid \<notin> fst ` set (ss_streams s)" using assms(3) by (simp add: find_stream_def map_of_eq_None_iff)
  with assms show ?thesis
    by (auto simp: emplace_def ss_inv_def find_stream_def distinct_keys_def map_of_append map_add_def split: option.splits if_splits)
qed

lemma hs_init_ok: "hs_inv (hs_init\<lparr>hs_header_limit_exceeded := b\<rparr>)" "hs_inv (on_request (hs_init\<lparr>hs_header_limit_exceeded := b\<rparr>))"
  "hs_in_map hs_init" "hs_in_map hs_client"
  by (simp_all add: hs_inv_def hs_pre_def hs_settled_def hs_client_def on_request_def hs_init_def
      hs_read_inv_def hs_core_def hs_read_idle_def hs_write_inv_def hs_life_def hs_buffered_def hs_log_defs)

lemma hs_init_inv: "hs_inv hs_init"
  using hs_init_ok(1) [of False] by (simp add: hs_init_def)

lemma fields_size_snoc: "fields_size (fs @ [(name, val)]) = fields_size fs + header_field_size name val"
  by (simp add: fields_size_def)

lemma store_header_other [simp]:
  "x_stream (store_header lib name val x) = x_stream x" "x_header_size (store_header lib name val x) = x_header_size x"
  by (simp_all add: store_header_def Let_def)

lemma store_header_fields:
  "x_fields (store_header lib name val x) = (if starts_with_colon name then x_fields x else x_fields x @ [(name, val)])"
  by (simp add: store_header_def Let_def)

lemma receive_header_ok: "x_ok limit x \<Longrightarrow> x_ok limit (receive_header lib limit name val x)"
  using write_ops_hs_inv(6)
  by (auto simp: x_ok_def receive_header_def Let_def store_header_fields fields_size_snoc)

lemma on_response_keeps:
  assumes "hs_enabled Hop_response s"
  shows "hs_in_map (on_response s)" "\<not> hs_closed (on_response s)" "hs_eof_received (on_response s) = hs_eof_received s"
  using assms by (simp_all add: on_response_def deliver_response_def Let_def hs_emit_def)

lemma on_frame_inv:
  assumes inv: "ss_inv s" and en: "ss_enabled (So_frame f) s"
  shows "ss_inv (on_frame_recv_callback lib has_handler f s)"
proof (cases "fr_type f = HEADERS \<and> find_stream (fr_stream_id f) s \<noteq> None")
  case False
  have "ss_inv (on_stream hs_on_eof (fr_stream_id f) s)" if "fr_type f = DATA" "fr_end_stream f"
    using on_stream_allowed_inv [OF inv, of Hop_eof] en that by simp
  with False inv show ?thesis by (auto simp: on_frame_recv_callback_def split: option.splits)
next
  case True
  then obtain x where x: "find_stream (fr_stream_id f) s = Some x" and ty: "fr_type f = HEADERS" by auto
  let ?i = "fr_stream_id f"
  note dk = ss_invD(1) [OF inv]
  have e: "fr_end_stream f \<longrightarrow> hs_enabled Hop_eof (x_stream x)" using en x ty by (simp add: stream_allows_def)
  have tail: "ss_inv (on_stream hs_on_eof ?i t)"
    if "ss_inv t" "find_stream ?i t = Some y" "hs_enabled Hop_eof (x_stream y)" for t y
    using on_stream_allowed_inv [OF that(1), of Hop_eof] that by (simp add: stream_allows_def)
  define s1 where "s1 = (if fr_cat f = Cat_request then ss_on_request has_handler ?i x s
                           else if fr_cat f = Cat_response then ss_on_response lib ?i x s else s)"
  have "ss_inv s1 \<and> (fr_end_stream f \<longrightarrow> (\<exists>y. find_stream ?i s1 = Some y \<and> hs_enabled Hop_eof (x_stream y)))"
  proof (cases "fr_cat f")
    case Cat_request
    with en ty x obtain b where fresh: "x_stream x = hs_init\<lparr>hs_header_limit_exceeded := b\<rparr>"
      by (auto simp: is_fresh_def)
    have "hs_inv (on_request (x_stream x))" unfolding fresh by (rule hs_init_ok)
    moreover have "hs_in_map (on_request (x_stream x))" "hs_enabled Hop_eof (on_request (x_stream x))"
      unfolding fresh by (simp_all add: on_request_def hs_init_def)
    ultimately show ?thesis
      using Cat_request on_stream_inv [OF inv, of ?i on_request] x
      by (simp add: s1_def ss_on_request_def find_stream_on_stream [OF dk])
  next
    case Cat_response
    let ?t = "let v = field_value lib ''alt-svc'' (x_fields x) in if v \<noteq> [] then ss_on_alt_svc v s else s"
    have t: "ss_inv ?t" "\<And>j. find_stream j ?t = find_stream j s" using inv by (simp_all add: Let_def)
    have r: "hs_enabled Hop_response (x_stream x)" using Cat_response en ty x by (simp add: stream_allows_def)
    have "ss_inv (on_stream (hs_exec Hop_response) ?i ?t)"
      using r x t by (intro on_stream_allowed_inv) (simp_all add: stream_allows_def)
    moreover have "hs_enabled Hop_eof (on_response (x_stream x))" if "fr_end_stream f"
      using on_response_keeps [OF r] e that by simp
    ultimately show ?thesis
      using Cat_response on_response_keeps(1) [OF r] x t ss_invD(1) [OF t(1)]
      by (auto simp: s1_def ss_on_response_def find_stream_on_stream)
  qed (use inv x e in \<open>auto simp: s1_def\<close>)
  then have "ss_inv (if fr_end_stream f then on_stream hs_on_eof ?i s1 else s1)" using tail by auto
  then show ?thesis using ty x by (simp add: on_frame_recv_callback_def s1_def [symmetric] Let_def)
qed

lemma ss_exec_inv:
  assumes inv: "ss_inv s" and en: "ss_enabled a s"
  shows "ss_inv (ss_exec lib no_url has_handler a s)"
proof (cases a)
  case (So_begin_headers f)
  with inv en show ?thesis
    by (auto simp: on_begin_headers_callback_def create_stream_def Let_def intro!: emplace_inv x_ok_new hs_init_inv hs_init_ok)
next
  case (So_header sid name val)
  with inv show ?thesis
    by (auto simp: on_header_callback_def split: option.splits intro!: ss_inv_put receive_header_ok dest: ss_invD(2))
next
  case (So_frame f)
  with on_frame_inv inv en show ?thesis by simp
next
  case (So_chunk sid d)
  with inv en on_stream_allowed_inv [of "ss_emit (Se_consume_connection (length d)) s" "Hop_data d" sid] show ?thesis
    by (simp add: on_data_chunk_recv_callback_def stream_allows_def)
next
  case (So_closed sid)
  with inv en on_stream_allowed_inv [of s Hop_close sid] show ?thesis by (simp add: on_stream_close_callback_def)
next
  case (So_submit allowed limit sid u)
  have "ss_inv (emplace sid (new_exchange u hs_client) (t\<lparr>ss_last_id := sid\<rparr>))"
    if "ss_inv t" "find_stream sid t = None" for t
    using that by (intro emplace_inv x_ok_new) (simp_all add: hs_start_inv hs_init_ok)
  with So_submit inv en show ?thesis by (simp add: async_submit_def Let_def)
next
  case (So_app sid b)
  with on_stream_allowed_inv [OF inv, of b sid] en show ?thesis by simp
next
  case So_reap
  with inv show ?thesis by (auto simp: reap_stream_def ss_inv_def find_stream_def split: list.splits)
qed (use inv in \<open>simp_all add: on_frame_send_callback_def on_frame_not_send_callback_def\<close>)

end
