(* ===== verification/H2_Session_Properties.thy ===== *)
theory H2_Session_Properties
  imports H2_Session_Machine
begin

text \<open>
  What holds of a whole HTTP/2 session, for every sequence of operations of \<open>H2_Session_Machine\<close>, and
  whatever the libraries of \<open>h2_lib\<close> answer.
\<close>

interpretation ss: machine "ss_exec lib no_url has_handler" ss_enabled ss_inv
  for lib :: "'u h2_lib" and no_url has_handler
  by unfold_locales (rule ss_exec_inv)

definition ss_start :: "bool \<Rightarrow> nat \<Rightarrow> 'u h2_session" where
  "ss_start server limit =
     \<lparr>ss_server = server, ss_open = True, ss_streams = [], ss_last_id = 0, ss_request_counter = 0,
      ss_max_header_size = limit, ss_goaway_sent = False, ss_send_ready = False, ss_dying = [], ss_events = []\<rparr>"

abbreviation ss_run ::
  "'u h2_lib \<Rightarrow> 'u \<Rightarrow> bool \<Rightarrow> bool \<Rightarrow> nat \<Rightarrow> 'u ss_op list \<Rightarrow> 'u h2_session option" where
  "ss_run lib no_url has_handler server limit ops \<equiv>
     run (ss_exec lib no_url has_handler) ss_enabled (ss_start server limit) ops"

lemma ss_start_inv: "ss_inv (ss_start server limit)"
  by (simp add: ss_inv_def ss_start_def find_stream_def distinct_keys_def)

lemma ss_run_inv: "ss_run lib no_url has_handler server limit ops = Some s \<Longrightarrow> ss_inv s"
  by (rule ss.run_inv [OF ss_start_inv])

declare run.simps [simp del]

section \<open>What the operations leave alone\<close>

lemma ss_fields_simple [simp]:
  "ss_max_header_size (ss_emit e s) = ss_max_header_size s" "ss_max_header_size (start_write s) = ss_max_header_size s"
  "ss_max_header_size (ss_on_alt_svc v s) = ss_max_header_size s"
  "ss_server (ss_emit e s) = ss_server s" "ss_server (start_write s) = ss_server s" "ss_server (ss_on_alt_svc v s) = ss_server s"
  "ss_streams (ss_emit e s) = ss_streams s" "ss_streams (start_write s) = ss_streams s" "ss_streams (ss_on_alt_svc v s) = ss_streams s"
  "ss_events (start_write s) = ss_events s" "ss_events (ss_emit e s) = ss_events s @ [e]"
  by (simp_all add: ss_emit_def start_write_def ss_on_alt_svc_def)

lemma emplace_fields [simp]:
  "ss_max_header_size (emplace sid x s) = ss_max_header_size s" "ss_server (emplace sid x s) = ss_server s"
  "ss_events (emplace sid x s) = ss_events s"
  by (simp_all add: emplace_def)

lemma on_stream_fields [simp]:
  "ss_max_header_size (on_stream f sid s) = ss_max_header_size s" "ss_server (on_stream f sid s) = ss_server s"
  by (simp_all add: on_stream_def erase_stream_def Let_def split: option.splits)

lemma frame_fields [simp]:
  "ss_max_header_size (on_frame_recv_callback lib hh f s) = ss_max_header_size s"
  "ss_server (on_frame_recv_callback lib hh f s) = ss_server s"
  by (simp_all add: on_frame_recv_callback_def ss_on_request_def ss_on_response_def Let_def split: option.splits)

lemma ss_exec_fields:
  "ss_max_header_size (ss_exec lib no_url hh a s) = ss_max_header_size s \<and> ss_server (ss_exec lib no_url hh a s) = ss_server s"
  by (cases a) (simp_all add: on_begin_headers_callback_def create_stream_def Let_def on_header_callback_def
      on_data_chunk_recv_callback_def on_frame_send_callback_def on_frame_not_send_callback_def
      on_stream_close_callback_def async_submit_def reap_stream_def split: option.splits list.splits)

lemma ss_run_fields:
  assumes "ss_run lib no_url hh server limit ops = Some s"
  shows "ss_max_header_size s = limit \<and> ss_server s = server"
  by (rule ss.run_stable [OF ss_start_inv assms]) (auto simp: ss_start_def ss_exec_fields)

section \<open>Streams\<close>


text \<open>A library to try the definitions with: every URL is the same, and fields are found by their name.\<close>

definition plain_lib :: "unit h2_lib" where
  "plain_lib =
     \<lparr>parse_relative_ref = (\<lambda>_. None), set_path = (\<lambda>_ u. u), set_query = (\<lambda>_ u. u), set_fragment = (\<lambda>_ u. u),
      set_scheme = (\<lambda>_ u. Some u), set_encoded_authority = (\<lambda>_ u. Some u), set_host = (\<lambda>_ _. None),
      field_value = (\<lambda>n fs. case map_of fs n of Some v \<Rightarrow> v | None \<Rightarrow> [])\<rparr>"

definition headers_frame :: "int \<Rightarrow> headers_category \<Rightarrow> bool \<Rightarrow> frame" where
  "headers_frame sid cat eos =
     \<lparr>fr_type = HEADERS, fr_stream_id = sid, fr_end_stream = eos, fr_cat = cat, fr_field_value = []\<rparr>"


fun ss_target :: "'u ss_op \<Rightarrow> int option" where
  "ss_target (So_begin_headers f) = Some (fr_stream_id f)"
| "ss_target (So_header sid name val) = Some sid"
| "ss_target (So_frame f) = Some (fr_stream_id f)"
| "ss_target (So_chunk sid d) = Some sid"
| "ss_target (So_closed sid) = Some sid"
| "ss_target (So_submit allowed limit sid u) = Some sid"
| "ss_target (So_app sid a) = Some sid"
| "ss_target _ = None"

lemma find_stream_others:
  assumes "distinct_keys (ss_streams s)" "j \<noteq> sid"
  shows "find_stream j (on_stream f sid s) = find_stream j s" "find_stream j (emplace sid x s) = find_stream j s"

proof -
  show "find_stream j (on_stream f sid s) = find_stream j s" using assms by (simp add: find_stream_on_stream)
  show "find_stream j (emplace sid x s) = find_stream j s"
    using assms(2) by (simp add: emplace_def find_stream_def map_add_def split: option.splits)
qed

lemma on_stream_distinct [simp]: "distinct_keys (ss_streams s) \<Longrightarrow> distinct_keys (ss_streams (on_stream f sid s))"
  by (simp add: on_stream_def Let_def tbl.ok_put tbl.ok_del split: option.splits)

lemma frame_others:
  assumes "distinct_keys (ss_streams s)" "j \<noteq> fr_stream_id f"
  shows "find_stream j (on_frame_recv_callback lib hh f s) = find_stream j s"
proof -
  have r: "distinct_keys (ss_streams (ss_on_response lib sid x s))" "distinct_keys (ss_streams (ss_on_request hh sid x s))"
    "j \<noteq> sid \<Longrightarrow> find_stream j (ss_on_response lib sid x s) = find_stream j s"
    "j \<noteq> sid \<Longrightarrow> find_stream j (ss_on_request hh sid x s) = find_stream j s" for sid x
    using assms(1) by (simp_all add: ss_on_response_def ss_on_request_def Let_def find_stream_others)
  show ?thesis
    using assms r by (simp add: on_frame_recv_callback_def Let_def find_stream_others split: option.splits)
qed

text \<open>What happens to one stream of an HTTP/2 session leaves the others alone.\<close>

theorem h2_streams_independent:
  assumes "ss_run lib no_url has_handler server limit ops = Some s"
    and "ss_enabled a s" and "ss_target a \<noteq> Some sid"
  shows "find_stream sid (ss_exec lib no_url has_handler a s) = find_stream sid s"
proof -
  have dk: "distinct_keys (ss_streams s)" by (rule ss_invD(1) [OF ss_run_inv [OF assms(1)]])
  show ?thesis
  proof (cases a)
    case (So_frame f)
    with frame_others [OF dk] assms(3) show ?thesis by simp
  next
    case (So_header i name val)
    with assms(3) show ?thesis
      by (simp add: on_header_callback_def find_stream_def tbl.lookup_put split: option.splits)
  next
    case So_reap
    then show ?thesis by (simp add: reap_stream_def find_stream_def split: list.splits)
  next
    case (So_begin_headers f)
    with dk assms(3) show ?thesis
      by (simp add: on_begin_headers_callback_def create_stream_def Let_def find_stream_others)
  next
    case (So_submit allowed l i u)
    moreover have "distinct_keys (ss_streams (t\<lparr>ss_last_id := i\<rparr>)) = distinct_keys (ss_streams t)" for t :: "'a h2_session" by simp
    ultimately show ?thesis using dk assms(3) by (simp add: async_submit_def Let_def find_stream_others)
  qed (use dk assms(3) in \<open>simp_all add: on_data_chunk_recv_callback_def on_frame_send_callback_def
    on_frame_not_send_callback_def on_stream_close_callback_def find_stream_others\<close>)
qed

theorem h2_streams_independent_witness:
  "\<exists>s. ss_run plain_lib () True False 100 [So_submit True 5 1 (), So_submit True 5 3 ()] = Some s \<and>
       find_stream 1 (ss_exec plain_lib () True (So_closed 3) s) = find_stream 1 s \<and> find_stream 1 s \<noteq> None"
proof -
  let ?ops = "[So_submit True 5 1 (), So_submit True 5 3 ()]"
  let ?s = "the (ss_run plain_lib () True False 100 ?ops)"
  have "ss_run plain_lib () True False 100 ?ops \<noteq> None" "find_stream 1 ?s \<noteq> None" "ss_enabled (So_closed 3) ?s"
    by code_simp+
  then obtain s where "ss_run plain_lib () True False 100 ?ops = Some s" "find_stream 1 s \<noteq> None" "ss_enabled (So_closed 3) s"
    by auto
  with h2_streams_independent [of plain_lib "()" True False 100 ?ops s "So_closed 3" 1] show ?thesis
    by (intro exI [of _ s]) simp
qed

section \<open>Limits\<close>

text \<open>However many header fields a peer sends, in a request, a response or trailers, what an HTTP/2
  session stores of them for a stream never counts for more than the configured maximum.\<close>

theorem h2_header_section_bounded:
  assumes "ss_run lib no_url has_handler server limit ops = Some s" and "find_stream sid s = Some x"
  shows "fields_size (x_fields x) \<le> limit"
  using ss_invD(2) [OF ss_run_inv [OF assms(1)] assms(2)] ss_run_fields [OF assms(1)] by (simp add: x_ok_def)

theorem h2_header_section_bounded_witness:
  "\<exists>s x. ss_run plain_lib () True True 50
      [So_begin_headers (headers_frame 1 Cat_request False), So_header 1 '':method'' ''GET'',
       So_header 1 ''a'' ''b'', So_header 1 ''c'' ''d''] = Some s \<and>
     find_stream 1 s = Some x \<and> fields_size (x_fields x) \<le> 50 \<and> hs_header_limit_exceeded (x_stream x)"
proof -
  let ?ops = "[So_begin_headers (headers_frame 1 Cat_request False), So_header 1 '':method'' ''GET'',
       So_header 1 ''a'' ''b'', So_header 1 ''c'' ''d'']"
  let ?s = "the (ss_run plain_lib () True True 50 ?ops)"
  have "ss_run plain_lib () True True 50 ?ops \<noteq> None" "find_stream 1 ?s \<noteq> None"
    "hs_header_limit_exceeded (x_stream (the (find_stream 1 ?s)))" by code_simp+
  then obtain s x where "ss_run plain_lib () True True 50 ?ops = Some s" "find_stream 1 s = Some x"
    "hs_header_limit_exceeded (x_stream x)" by auto
  with h2_header_section_bounded [of plain_lib "()" True True 50 ?ops s 1 x] show ?thesis by blast
qed

lemma on_stream_length: "length (ss_streams (on_stream f sid s)) \<le> length (ss_streams s)"
proof (cases "find_stream sid s")
  case (Some x)
  then have "length (AList.update sid y (ss_streams s)) = length (ss_streams s)" for y
    by (simp add: find_stream_def length_update)
  then show ?thesis using Some by (simp add: on_stream_def Let_def delete_update length_delete)
qed (simp add: on_stream_def)

lemma frame_length: "length (ss_streams (on_frame_recv_callback lib hh f s)) \<le> length (ss_streams s)"
proof -
  have r: "length (ss_streams (ss_on_response lib sid x s)) \<le> length (ss_streams s)"
    "length (ss_streams (ss_on_request hh sid x s)) \<le> length (ss_streams s)" for sid x
    using on_stream_length [of on_response sid "ss_on_alt_svc (field_value lib ''alt-svc'' (x_fields x)) s"]
      on_stream_length [of on_response sid s] on_stream_length [of on_request sid s]
    by (simp_all add: ss_on_response_def ss_on_request_def Let_def)
  have t: "length (ss_streams (on_stream hs_on_eof sid t)) \<le> length (ss_streams s)"
    if "length (ss_streams t) \<le> length (ss_streams s)" for t sid
    using that on_stream_length [of hs_on_eof sid t] by simp
  show ?thesis
    using r t [OF r(1)] t [OF r(2)] t [OF order_refl]
    by (simp add: on_frame_recv_callback_def Let_def split: option.splits)
qed

text \<open>The peer's limit on concurrent streams, as it was when each request was submitted.\<close>

fun submit_limit :: "'u ss_op \<Rightarrow> nat" where
  "submit_limit (So_submit allowed limit sid u) = limit"
| "submit_limit _ = 0"

lemma client_step_length:
  assumes "ss_enabled a s" "\<not> ss_server s" "length (ss_streams s) \<le> n" "submit_limit a \<le> n"
  shows "length (ss_streams (ss_exec lib no_url hh a s)) \<le> n"
proof (cases a)
  case (So_header sid name val)
  with assms(3) show ?thesis
    by (simp add: on_header_callback_def find_stream_def length_update split: option.splits)
next
  case (So_submit allowed limit sid u)
  with assms show ?thesis by (simp add: async_submit_def Let_def emplace_def)
next
  case (So_begin_headers f)
  with assms show ?thesis by (auto simp: on_begin_headers_callback_def)
next
  case So_reap
  with assms show ?thesis by (simp add: reap_stream_def split: list.splits)
next
  case (So_frame f)
  with assms(3) frame_length [of lib hh f s] show ?thesis by simp
next
  case (So_chunk sid d)
  with assms(3) on_stream_length [of "hs_on_data d" sid "ss_emit (Se_consume_connection (length d)) s"] show ?thesis
    by (simp add: on_data_chunk_recv_callback_def)
qed (use assms(3) le_trans [OF on_stream_length assms(3)] in \<open>simp_all add: on_frame_send_callback_def
    on_frame_not_send_callback_def on_stream_close_callback_def\<close>)

lemma client_run_length:
  assumes "run (ss_exec lib no_url hh) ss_enabled s ops = Some t" "\<not> ss_server s" "length (ss_streams s) \<le> n"
    "\<forall>a \<in> set ops. submit_limit a \<le> n"
  shows "length (ss_streams t) \<le> n"
  using assms
proof (induction ops arbitrary: s)
  case (Cons a ops)
  then show ?case
    using client_step_length [of a s n lib no_url hh] ss_exec_fields [of lib no_url hh a s]
    by (auto simp: run.simps split: if_splits)
qed (simp add: run.simps)

text \<open>A client never has more HTTP/2 requests in progress than its peer allows, and a request beyond
  that is told \<open>would_block\<close> and changes nothing else.\<close>

theorem h2_concurrent_streams_bounded:
  assumes "ss_run lib no_url has_handler False limit ops = Some s" and "\<forall>a \<in> set ops. submit_limit a \<le> n"
  shows "length (ss_streams s) \<le> n \<and>
         (m \<le> length (ss_streams s) \<and> ss_open s \<longrightarrow> async_submit True m sid u s = ss_emit (Se_submitted Would_block) s)"
  using client_run_length [OF assms(1) _ _ assms(2)] by (simp add: ss_start_def async_submit_def)

theorem h2_concurrent_streams_bounded_witness:
  "\<exists>s. ss_run plain_lib () True False 100 [So_submit True 2 1 (), So_submit True 2 3 (), So_submit True 2 5 ()] = Some s \<and>
       length (ss_streams s) \<le> 2 \<and> Se_submitted Would_block \<in> set (ss_events s)"
proof -
  let ?ops = "[So_submit True 2 1 (), So_submit True 2 3 (), So_submit True 2 5 ()]"
  let ?s = "the (ss_run plain_lib () True False 100 ?ops)"
  have "ss_run plain_lib () True False 100 ?ops \<noteq> None" "Se_submitted Would_block \<in> set (ss_events ?s)" by code_simp+
  then obtain s where "ss_run plain_lib () True False 100 ?ops = Some s" "Se_submitted Would_block \<in> set (ss_events s)" by auto
  with h2_concurrent_streams_bounded [of plain_lib "()" True 100 ?ops s 2] show ?thesis by (intro exI [of _ s]) simp
qed

section \<open>Connection-level credit\<close>

fun connection_credit :: "session_event \<Rightarrow> nat" where
  "connection_credit (Se_consume_connection n) = n"
| "connection_credit _ = 0"

definition ss_credited :: "'u h2_session \<Rightarrow> nat" where
  "ss_credited s = sum_list (map connection_credit (ss_events s))"

fun chunk_length :: "'u ss_op \<Rightarrow> nat" where
  "chunk_length (So_chunk sid d) = length d"
| "chunk_length _ = 0"

lemma ss_credited_simple [simp]:
  "ss_credited (ss_emit e s) = ss_credited s + connection_credit e" "ss_credited (start_write s) = ss_credited s"
  "ss_credited (ss_on_alt_svc v s) = ss_credited s" "ss_credited (emplace sid x s) = ss_credited s"
  "ss_credited (s\<lparr>ss_last_id := i\<rparr>) = ss_credited s" "ss_credited (s\<lparr>ss_streams := t\<rparr>) = ss_credited s"
  "ss_credited (s\<lparr>ss_request_counter := k\<rparr>) = ss_credited s" "ss_credited (s\<lparr>ss_goaway_sent := b\<rparr>) = ss_credited s"
  "ss_credited (s\<lparr>ss_dying := d\<rparr>) = ss_credited s" "ss_credited (s\<lparr>ss_send_ready := b\<rparr>) = ss_credited s"
  by (simp_all add: ss_credited_def ss_on_alt_svc_def)

lemma ss_credited_on_stream [simp]: "ss_credited (on_stream f sid s) = ss_credited s"
  by (simp add: on_stream_def erase_stream_def Let_def split: option.splits)

lemma ss_credited_frame [simp]: "ss_credited (on_frame_recv_callback lib hh f s) = ss_credited s"
  by (simp add: on_frame_recv_callback_def ss_on_request_def ss_on_response_def Let_def split: option.splits)

interpretation ss_credit: accounting "ss_exec lib no_url has_handler" ss_enabled ss_inv chunk_length ss_credited "\<lambda>_. 0"
  for lib :: "'u h2_lib" and no_url has_handler
proof unfold_locales
  show "ss_credited (ss_exec lib no_url has_handler a s) + 0 = ss_credited s + 0 + chunk_length a" for a and s :: "'u h2_session"
    by (cases a) (simp_all add: on_begin_headers_callback_def create_stream_def Let_def on_header_callback_def
      on_data_chunk_recv_callback_def on_frame_send_callback_def on_frame_not_send_callback_def
      on_stream_close_callback_def async_submit_def reap_stream_def split: option.splits list.splits)
qed

text \<open>An HTTP/2 session gives back connection-level credit for every byte of data that comes in,
  whether or not there still is a stream for it, so that no stream can use up the connection's window.\<close>

theorem h2_connection_credit_returned:
  assumes "ss_run lib no_url has_handler server limit ops = Some s"
  shows "ss_credited s = sum_list (map chunk_length ops)"
  using ss_credit.run_accounts [OF ss_start_inv assms] by (simp add: ss_start_def ss_credited_def)

theorem h2_connection_credit_returned_witness:
  "\<exists>s. ss_run plain_lib () True True 100 [So_chunk 7 [1, 2], So_chunk 9 [3]] = Some s \<and> ss_credited s = 3"
proof -
  let ?ops = "[So_chunk 7 [1, 2], So_chunk 9 [3]]"
  have "ss_run plain_lib () True True 100 ?ops \<noteq> None" by code_simp
  then obtain s where s: "ss_run plain_lib () True True 100 ?ops = Some s" by blast
  with h2_connection_credit_returned [OF s] show ?thesis by (intro exI [of _ s]) simp
qed

section \<open>Header sections\<close>

definition receive_headers :: "'u h2_lib \<Rightarrow> nat \<Rightarrow> field list \<Rightarrow> 'u exchange \<Rightarrow> 'u exchange" where
  "receive_headers lib limit fs x = foldl (\<lambda>x (name, val). receive_header lib limit name val x) x fs"

lemma receive_headers_simps [simp]:
  "receive_headers lib limit [] x = x"
  "receive_headers lib limit ((name, val) # fs) x = receive_headers lib limit fs (receive_header lib limit name val x)"
  "receive_headers lib limit (fs @ gs) x = receive_headers lib limit gs (receive_headers lib limit fs x)"
  by (simp_all add: receive_headers_def)

lemma fields_size_simps [simp]:
  "fields_size [] = 0" "fields_size ((name, val) # fs) = header_field_size name val + fields_size fs"
  "fields_size (fs @ gs) = fields_size fs + fields_size gs"
  by (simp_all add: fields_size_def)

text \<open>A section within the limit.\<close>

lemma receive_headers_within:
  assumes "\<not> hs_header_limit_exceeded (x_stream x)" "x_header_size x + fields_size fs \<le> limit"
  shows "x_stream (receive_headers lib limit fs x) = x_stream x"
    and "x_header_size (receive_headers lib limit fs x) = x_header_size x + fields_size fs"
    and "x_fields (receive_headers lib limit fs x) = x_fields x @ filter (\<lambda>(name, _). \<not> starts_with_colon name) fs"
  using assms
  by (induction fs arbitrary: x) (auto simp: receive_header_def Let_def store_header_fields)

lemma receive_headers_others:
  assumes "\<not> hs_header_limit_exceeded (x_stream x)" "x_header_size x + fields_size fs \<le> limit"
  shows "(\<forall>(name, _) \<in> set fs. name \<noteq> '':status'') \<Longrightarrow>
      x_status_code (receive_headers lib limit fs x) = x_status_code x"
    and "(\<forall>(name, _) \<in> set fs. name \<noteq> ''content-length'') \<Longrightarrow>
      x_content_length (receive_headers lib limit fs x) = x_content_length x"
  using assms
  by (induction fs arbitrary: x) (auto simp: receive_header_def Let_def, auto simp: store_header_def Let_def)



section \<open>Saying goodbye\<close>

definition said_goodbye :: "'u h2_session \<Rightarrow> bool" where
  "said_goodbye s = (\<exists>n. Se_submit_goaway n \<in> set (ss_events s))"

text \<open>Streams only leave the table of a client in a way that says goodbye behind the last of them.\<close>

definition leaves_properly :: "'u h2_session \<Rightarrow> 'u h2_session \<Rightarrow> bool" where
  "leaves_properly s t =
     ((said_goodbye s \<longrightarrow> said_goodbye t) \<and> ss_server t = ss_server s \<and>
      (\<not> ss_server s \<and> ss_streams s \<noteq> [] \<and> ss_streams t = [] \<longrightarrow> said_goodbye t))"

lemma leaves_refl: "ss_streams t = ss_streams s \<Longrightarrow> ss_server t = ss_server s \<Longrightarrow> set (ss_events s) \<subseteq> set (ss_events t) \<Longrightarrow> leaves_properly s t"
  by (auto simp: leaves_properly_def said_goodbye_def)

lemma leaves_trans: "leaves_properly s t \<Longrightarrow> leaves_properly t u \<Longrightarrow> leaves_properly s u"
  by (auto simp: leaves_properly_def)

lemma update_not_Nil [simp]: "AList.update k v t \<noteq> []"
  by (cases t) auto

lemma leaves_on_stream: "leaves_properly s (on_stream f sid s)"
  by (auto simp: on_stream_def erase_stream_def leaves_properly_def said_goodbye_def Let_def ss_emit_def split: option.splits)

lemma leaves_frame: "leaves_properly s (on_frame_recv_callback lib hh f s)"
proof -
  let ?i = "fr_stream_id f"
  have e: "leaves_properly s (on_stream g j t)" if "leaves_properly s t" for g j t
    using leaves_trans [OF that leaves_on_stream] .
  have w: "leaves_properly s (start_write t)" "leaves_properly s (ss_emit ev t)" "leaves_properly s (ss_on_alt_svc v t)"
    if "leaves_properly s t" for t ev v
    by (rule leaves_trans [OF that], rule leaves_refl; auto simp: ss_on_alt_svc_def)+
  have r: "leaves_properly s s" by (rule leaves_refl) simp_all
  have "leaves_properly s (ss_on_request hh ?i x s)" "leaves_properly s (ss_on_response lib ?i x s)" for x
    using e w r by (simp_all add: ss_on_request_def ss_on_response_def Let_def)
  with e w r show ?thesis
    by (simp add: on_frame_recv_callback_def Let_def split: option.splits)
qed

lemma leaves_exec: "leaves_properly s (ss_exec lib no_url hh a s)"
proof (cases a)
  case (So_frame f)
  with leaves_frame show ?thesis by simp
next
  case (So_chunk sid d)
  let ?t = "ss_emit (Se_consume_connection (length d)) s"
  have "leaves_properly s ?t" by (rule leaves_refl) auto
  moreover have "leaves_properly ?t (on_stream (hs_on_data d) sid ?t)" by (rule leaves_on_stream)
  moreover have "leaves_properly u (start_write u)" for u :: "'a h2_session" by (rule leaves_refl) simp_all
  ultimately show ?thesis
    using So_chunk leaves_trans by (simp add: on_data_chunk_recv_callback_def) blast
next
  case (So_header sid name val)
  then show ?thesis
    by (auto simp: on_header_callback_def leaves_properly_def said_goodbye_def split: option.splits)
next
  case (So_begin_headers f)
  then show ?thesis
    by (auto simp: on_begin_headers_callback_def create_stream_def emplace_def Let_def leaves_properly_def said_goodbye_def)
next
  case (So_submit allowed limit sid u)
  then show ?thesis
    by (auto simp: async_submit_def emplace_def Let_def leaves_properly_def said_goodbye_def)
next
  case So_reap
  then show ?thesis by (auto simp: reap_stream_def intro!: leaves_refl split: list.splits)
qed (auto simp: on_frame_send_callback_def on_frame_not_send_callback_def on_stream_close_callback_def leaves_on_stream
    intro: leaves_refl)

text \<open>When the last stream of a client's HTTP/2 session is gone, a GOAWAY has been submitted.\<close>

theorem h2_client_says_goodbye:
  assumes "ss_run lib no_url has_handler False limit ops = Some s" and "ss_streams s \<noteq> []"
    and "run (ss_exec lib no_url has_handler) ss_enabled s later = Some t" and "ss_streams t = []"
  shows "\<exists>n. Se_submit_goaway n \<in> set (ss_events t)"
proof -
  have "\<not> ss_server t \<and> (ss_streams t \<noteq> [] \<or> said_goodbye t)"
    by (rule ss.run_stable [OF ss_run_inv [OF assms(1)] assms(3)])
      (use assms(2) ss_run_fields [OF assms(1)] leaves_exec [of _ lib no_url has_handler, unfolded leaves_properly_def] in auto)
  with assms(4) show ?thesis by (simp add: said_goodbye_def)
qed

theorem h2_client_says_goodbye_witness:
  "\<exists>s t n. ss_run plain_lib () True False 100 [So_submit True 5 1 ()] = Some s \<and>
         run (ss_exec plain_lib () True) ss_enabled s [So_closed 1] = Some t \<and> Se_submit_goaway n \<in> set (ss_events t)"
proof -
  let ?s = "the (ss_run plain_lib () True False 100 [So_submit True 5 1 ()])"
  have "ss_run plain_lib () True False 100 [So_submit True 5 1 ()] \<noteq> None" "ss_streams ?s \<noteq> []"
    "run (ss_exec plain_lib () True) ss_enabled ?s [So_closed 1] \<noteq> None"
    "ss_streams (the (run (ss_exec plain_lib () True) ss_enabled ?s [So_closed 1])) = []" by code_simp+
  then obtain s t where "ss_run plain_lib () True False 100 [So_submit True 5 1 ()] = Some s" "ss_streams s \<noteq> []"
    "run (ss_exec plain_lib () True) ss_enabled s [So_closed 1] = Some t" "ss_streams t = []" by auto
  with h2_client_says_goodbye [of plain_lib "()" True 100 "[So_submit True 5 1 ()]" s "[So_closed 1]" t] show ?thesis by blast
qed

text \<open>When nghttp2 does not take a request, the caller is told, and the session keeps a stream for it
  nevertheless, under the number of the error, and completes the handler a second time.\<close>

theorem h2_failed_submit_keeps_stream:
  assumes "ss_open s" and "length (ss_streams s) < limit" and "sid < 0" and "find_stream sid s = None"
  shows "find_stream sid (async_submit True limit sid u s) = Some (new_exchange u hs_client) \<and>
         ss_events (async_submit True limit sid u s) = ss_events s @ [Se_submitted Invalid_argument, Se_submitted_again]"
  using assms by (simp add: async_submit_def Let_def emplace_def find_stream_def map_add_def split: option.splits)

theorem h2_failed_submit_keeps_stream_witness:
  "find_stream (- 509) (async_submit True 100 (- 509) () (ss_start False 100)) = Some (new_exchange () hs_client)"
  using h2_failed_submit_keeps_stream [of "ss_start False 100" 100 "- 509" "()"]
  by (simp add: ss_start_def find_stream_def)

end
