(* ===== verification/H2_Send_Loop.thy ===== *)
theory H2_Send_Loop
  imports Prelude
begin

text \<open>
  The send loop of an HTTP/2 session, \<open>NGHttp2SessionImpl::send_loop\<close>
  (\<^verbatim>\<open>include/anyhttp/h2/session_details.hpp\<close>): it collects what nghttp2 has to send in a buffer of fixed
  capacity, and writes when the buffer is full or nghttp2 has nothing more.

  One turn of the loop takes how a wait before it ended, an answer of nghttp2 (the bytes of
  \<open>nghttp2_session_mem_send\<close>, or its failure), the outcome of the write it may lead to, and what decides whether
  the session is over when nothing is left to send.
\<close>

record turn =
  tn_wait :: error_code
  tn_data :: "bytes option"
  tn_write :: error_code
  tn_recv_done :: bool
  tn_want_write :: bool
  tn_want_read :: bool

datatype loop_state = Running | Waiting | Ended | Write_failed | Thrown

record send_loop =
  sl_capacity :: nat
  sl_buffer :: bytes
  sl_state :: loop_state
  sl_send_failed :: bool
  sl_writes :: "bytes list"

definition sl_init :: "nat \<Rightarrow> send_loop" where
  "sl_init cap = \<lparr>sl_capacity = cap, sl_buffer = [], sl_state = Running, sl_send_failed = False, sl_writes = []\<rparr>"

definition send_turn :: "turn \<Rightarrow> send_loop \<Rightarrow> send_loop" where
  "send_turn t s =
     (if sl_state s = Waiting \<and> tn_wait t \<noteq> Success then s\<lparr>sl_state := Ended\<rparr>
      else case tn_data t of
        None \<Rightarrow> s\<lparr>sl_state := Thrown\<rparr>
      | Some data \<Rightarrow>
          if data \<noteq> [] \<and> length data \<le> sl_capacity s - length (sl_buffer s)
          then s\<lparr>sl_buffer := sl_buffer s @ data, sl_state := Running\<rparr>
          else if length (sl_buffer s) + length data > 0
          then (if tn_write t \<noteq> Success then s\<lparr>sl_send_failed := True, sl_state := Write_failed\<rparr>
                else s\<lparr>sl_writes := sl_writes s @ [sl_buffer s @ data], sl_buffer := [], sl_state := Running\<rparr>)
          else if tn_recv_done t then s\<lparr>sl_state := Ended\<rparr>
          else if tn_want_write t \<or> tn_want_read t then s\<lparr>sl_state := Waiting\<rparr>
          else s\<lparr>sl_state := Ended\<rparr>)"

text \<open>The loop goes on after a turn, or when it is woken.\<close>

fun run_send_loop :: "turn list \<Rightarrow> send_loop \<Rightarrow> send_loop" where
  "run_send_loop [] s = s"
| "run_send_loop (t # ts) s =
     (if sl_state s = Running \<or> sl_state s = Waiting then run_send_loop ts (send_turn t s) else s)"

section \<open>What is written\<close>

definition tn_bytes :: "turn \<Rightarrow> bytes" where
  "tn_bytes t = (case tn_data t of None \<Rightarrow> [] | Some d \<Rightarrow> d)"

lemma send_turn_conserves:
  assumes "sl_state (send_turn t s) = Running \<or> sl_state (send_turn t s) = Waiting"
  shows "concat (sl_writes (send_turn t s)) @ sl_buffer (send_turn t s) = concat (sl_writes s) @ sl_buffer s @ tn_bytes t"
  using assms by (auto simp: send_turn_def tn_bytes_def split: option.splits if_splits)

lemma send_turn_idle:
  assumes "sl_state s = Waiting \<longrightarrow> sl_buffer s = []"
    "sl_state (send_turn t s) = Waiting \<or> sl_state (send_turn t s) = Ended"
  shows "sl_buffer (send_turn t s) = []"
  using assms by (auto simp: send_turn_def split: option.splits if_splits)

lemma send_turn_bounded:
  "length (sl_buffer s) \<le> sl_capacity s \<Longrightarrow>
   length (sl_buffer (send_turn t s)) \<le> sl_capacity (send_turn t s) \<and> sl_capacity (send_turn t s) = sl_capacity s"
  by (auto simp: send_turn_def split: option.splits)

lemma send_turn_prefix:
  "prefix (concat (sl_writes (send_turn t s))) (concat (sl_writes s) @ sl_buffer s @ tn_bytes t)"
  by (auto simp: send_turn_def tn_bytes_def split: option.splits)

lemma send_turn_failed:
  "sl_send_failed s = (sl_state s = Write_failed) \<Longrightarrow> sl_state s = Running \<or> sl_state s = Waiting \<Longrightarrow>
   sl_send_failed (send_turn t s) = (sl_state (send_turn t s) = Write_failed)"
  by (auto simp: send_turn_def split: option.splits)

lemma run_send_loop_failed:
  "sl_send_failed s = (sl_state s = Write_failed) \<Longrightarrow>
   sl_send_failed (run_send_loop ts s) = (sl_state (run_send_loop ts s) = Write_failed)"
  by (induction ts arbitrary: s) (auto simp: send_turn_failed)

lemma run_send_loop_ok:
  assumes "length (sl_buffer s) \<le> sl_capacity s" "sl_state s = Waiting \<or> sl_state s = Ended \<longrightarrow> sl_buffer s = []"
  shows "prefix (concat (sl_writes (run_send_loop ts s))) (concat (sl_writes s) @ sl_buffer s @ concat (map tn_bytes ts)) \<and>
    length (sl_buffer (run_send_loop ts s)) \<le> sl_capacity s \<and>
    (sl_state (run_send_loop ts s) = Waiting \<or> sl_state (run_send_loop ts s) = Ended \<longrightarrow> sl_buffer (run_send_loop ts s) = []) \<and>
    (sl_state (run_send_loop ts s) = Running \<or> sl_state (run_send_loop ts s) = Waiting \<longrightarrow>
      concat (sl_writes (run_send_loop ts s)) @ sl_buffer (run_send_loop ts s) =
      concat (sl_writes s) @ sl_buffer s @ concat (map tn_bytes ts))"
  using assms
proof (induction ts arbitrary: s)
  case (Cons t ts)
  show ?case
  proof (cases "sl_state s = Running \<or> sl_state s = Waiting")
    case False
    with Cons.prems show ?thesis by auto
  next
    case True
    let ?s = "send_turn t s"
    note b = send_turn_bounded [OF Cons.prems(1), of t]
    have i: "sl_state ?s = Waiting \<or> sl_state ?s = Ended \<longrightarrow> sl_buffer ?s = []"
      using send_turn_idle Cons.prems(2) by blast
    note ih = Cons.IH [of ?s]
    have e: "run_send_loop (t # ts) s = run_send_loop ts ?s" using True by auto
    show ?thesis
    proof (cases "sl_state ?s = Running \<or> sl_state ?s = Waiting")
      case True
      have "concat (sl_writes ?s) @ sl_buffer ?s = concat (sl_writes s) @ sl_buffer s @ tn_bytes t"
        by (rule send_turn_conserves [OF True])
      then have "concat (sl_writes ?s) @ sl_buffer ?s @ concat (map tn_bytes ts) =
          concat (sl_writes s) @ sl_buffer s @ concat (map tn_bytes (t # ts))"
        by (metis append_assoc concat.simps(2) list.simps(9))
      with ih b i show ?thesis unfolding e by auto
    next
      case False
      then have "run_send_loop ts ?s = ?s" by (cases ts) auto
      moreover have "prefix (concat (sl_writes ?s)) (concat (sl_writes s) @ sl_buffer s @ concat (map tn_bytes (t # ts)))"
        using prefix_prefix [OF send_turn_prefix [of t s], of "concat (map tn_bytes ts)"] by simp
      ultimately show ?thesis using False b i unfolding e by simp
    qed
  qed
qed auto

text \<open>The send loop writes what nghttp2 gives it, in order, nothing twice and nothing else, whatever
  the sizes of the pieces; it never keeps more than the capacity of its buffer; when it waits, all it
  was given has been written, and nothing is left in the buffer when it ends in order; and the flag
  that suppresses the orderly end of the connection is set exactly when a write failed.\<close>

theorem h2_send_loop_complete:
  assumes "s = run_send_loop ts (sl_init cap)"
  shows "prefix (concat (sl_writes s)) (concat (map tn_bytes ts)) \<and> length (sl_buffer s) \<le> cap \<and>
         (sl_state s = Waiting \<longrightarrow> concat (sl_writes s) = concat (map tn_bytes ts)) \<and>
         (sl_state s = Waiting \<or> sl_state s = Ended \<longrightarrow> sl_buffer s = []) \<and>
         (sl_send_failed s \<longleftrightarrow> sl_state s = Write_failed)"
proof -
  have "length (sl_buffer (sl_init cap)) \<le> sl_capacity (sl_init cap)"
    "sl_state (sl_init cap) = Waiting \<or> sl_state (sl_init cap) = Ended \<longrightarrow> sl_buffer (sl_init cap) = []"
    by (simp_all add: sl_init_def)
  from run_send_loop_ok [OF this, of ts] show ?thesis
    using assms run_send_loop_failed [of "sl_init cap" ts] by (auto simp: sl_init_def)
qed

definition example_turn :: "bytes \<Rightarrow> turn" where
  "example_turn data = \<lparr>tn_wait = Success, tn_data = Some data, tn_write = Success, tn_recv_done = False,
     tn_want_write = False, tn_want_read = True\<rparr>"

theorem h2_send_loop_complete_witness:
  "sl_state (run_send_loop [example_turn [1, 2], example_turn [3, 4], example_turn []] (sl_init 3)) = Waiting \<and>
   concat (sl_writes (run_send_loop [example_turn [1, 2], example_turn [3, 4], example_turn []] (sl_init 3))) = [1, 2, 3, 4]"
proof -
  let ?ts = "[example_turn [1, 2], example_turn [3, 4], example_turn []]"
  have "sl_state (run_send_loop ?ts (sl_init 3)) = Waiting" by code_simp
  with h2_send_loop_complete [OF refl, of ?ts 3] show ?thesis by (simp add: tn_bytes_def example_turn_def)
qed

end
