(* ===== verification/Alt_Svc.thy ===== *)
theory Alt_Svc
  imports Text_Lib
begin

text \<open>
  Alternative services (RFC 7838): the parser of an \<^verbatim>\<open>Alt-Svc\<close> field value,
  \<^verbatim>\<open>src/alt_svc.cpp\<close>, the value a server advertises (\<^verbatim>\<open>src/server_impl.cpp\<close>), and what a client
  remembers of one (\<^verbatim>\<open>src/client_impl.cpp\<close>).

  The state of the class \<open>Parser\<close> is the rest of its input, what lies behind \<open>pos_\<close>; an operation
  returns its result and the rest it leaves, also when it fails, as the caller goes on from there.
\<close>

section \<open>Characters\<close>

definition char_nat :: "char \<Rightarrow> nat" where "char_nat c = of_char c"

definition is_tchar :: "char \<Rightarrow> bool" where
  "is_tchar c = (let n = char_nat c in
     (97 \<le> n \<and> n \<le> 122) \<or> (65 \<le> n \<and> n \<le> 90) \<or> (48 \<le> n \<and> n \<le> 57) \<or>
     c \<in> set ''!#$%&*+-.^_`|~'' \<or> n = 39)"

definition is_ows :: "char \<Rightarrow> bool" where
  "is_ows c = (c = CHR '' '' \<or> char_nat c = 9)"

abbreviation quote :: char where "quote \<equiv> CHR 0x22"
abbreviation backslash :: char where "backslash \<equiv> CHR 0x5C"

definition hex_value :: "char \<Rightarrow> nat option" where
  "hex_value c = (let n = char_nat c in
     if 48 \<le> n \<and> n \<le> 57 then Some (n - 48)
     else if 97 \<le> n \<and> n \<le> 102 then Some (n - 87)
     else if 65 \<le> n \<and> n \<le> 70 then Some (n - 55)
     else None)"

fun pct_decode :: "string \<Rightarrow> string" where
  "pct_decode [] = []"
| "pct_decode (c # a # b # rest) =
     (case (hex_value a, hex_value b) of
        (Some x, Some y) \<Rightarrow> if c = CHR ''%'' then char_of (16 * x + y) # pct_decode rest else c # pct_decode (a # b # rest)
      | _ \<Rightarrow> c # pct_decode (a # b # rest))"
| "pct_decode (c # rest) = c # pct_decode rest"

section \<open>Host and port\<close>

definition next_is :: "char \<Rightarrow> string \<Rightarrow> bool" where
  "next_is c s = (s \<noteq> [] \<and> hd s = c)"

definition split_authority :: "string \<Rightarrow> (string \<times> string) option" where
  "split_authority authority =
     (let bracket = (if next_is (CHR ''['') authority then find_char (CHR '']'') authority 0 else None);
          literal = (bracket \<noteq> None);
          colon = (if next_is (CHR ''['') authority
                   then (case bracket of None \<Rightarrow> None | Some k \<Rightarrow> find_char (CHR '':'') authority k)
                   else rfind_char (CHR '':'') authority)
      in case colon of
           None \<Rightarrow> None
         | Some k \<Rightarrow>
             let digits = drop (Suc k) authority; uri_host = take k authority
             in if digits = [] \<or> \<not> list_all is_digit digits then None
                else Some (if literal then take (length uri_host - 2) (drop 1 uri_host) else uri_host, digits))"

section \<open>The parser\<close>

definition skip_ows :: "string \<Rightarrow> string" where
  "skip_ows = dropWhile is_ows"

definition token :: "string \<Rightarrow> string \<times> string" where
  "token s = (takeWhile is_tchar s, dropWhile is_tchar s)"

text \<open>Reads up to the closing quote, and resolves what is escaped.\<close>

fun quoted_rest :: "string \<Rightarrow> string \<Rightarrow> string option \<times> string" where
  "quoted_rest result [] = (None, [])"
| "quoted_rest result (c # cs) =
     (if c = quote then (Some result, cs)
      else if c = backslash then
        (case cs of
           [] \<Rightarrow> quoted_rest (result @ [c]) []
         | d # ds \<Rightarrow> quoted_rest (result @ [d]) ds)
      else quoted_rest (result @ [c]) cs)"

definition quoted_string :: "string \<Rightarrow> string option \<times> string" where
  "quoted_string s = (if next_is quote s then quoted_rest [] (tl s) else (None, s))"

definition token_or_quoted_string :: "string \<Rightarrow> string option \<times> string" where
  "token_or_quoted_string s =
     (if next_is quote s then quoted_string s
      else case token s of (t, rest) \<Rightarrow> (if t \<noteq> [] then Some t else None, rest))"

fun skip_element :: "bool \<Rightarrow> string \<Rightarrow> string" where
  "skip_element quoted [] = []"
| "skip_element quoted (c # cs) =
     (if \<not> quoted then (if c = CHR '','' then cs else skip_element (c = quote) cs)
      else if c = backslash \<and> cs \<noteq> [] then skip_element True (tl cs)
      else skip_element (c \<noteq> quote) cs)"

record alt_service =
  as_protocol :: string
  as_host :: string
  as_port :: string
  as_max_age :: int
  as_persist :: bool

text \<open>\<open>std::chrono::seconds\<close> counts in a signed type of 64 bits; a number given for \<open>ma\<close> is read as an
  unsigned one and converted.\<close>

definition to_int64 :: "int \<Rightarrow> int" where
  "to_int64 n = (n + 2 ^ 63) mod 2 ^ 64 - 2 ^ 63"

definition from_chars_all :: "nat \<Rightarrow> string \<Rightarrow> nat option" where
  "from_chars_all w s = (case from_chars w s of Some (v, []) \<Rightarrow> Some v | _ \<Rightarrow> None)"

definition set_param :: "string \<Rightarrow> string \<Rightarrow> bool \<Rightarrow> bool \<Rightarrow> alt_service \<Rightarrow> bool \<times> bool \<times> alt_service" where
  "set_param name value have_max_age have_persist service =
     (if name = ''ma'' \<and> \<not> have_max_age then
        (True, have_persist,
         case from_chars_all 64 value of Some n \<Rightarrow> service\<lparr>as_max_age := to_int64 (int n)\<rparr> | None \<Rightarrow> service)
      else if name = ''persist'' \<and> \<not> have_persist then
        (have_max_age, True, service\<lparr>as_persist := (value = ''1'')\<rparr>)
      else (have_max_age, have_persist, service))"

lemma length_dropWhile_le [simp]: "length (dropWhile P xs) \<le> length xs"
  by (induction xs) auto

lemma skip_ows_length: "length (skip_ows s) \<le> length s"
  by (simp add: skip_ows_def)

lemma token_length: "length (snd (token (skip_ows s))) \<le> length s"
  using order_trans [OF length_dropWhile_le skip_ows_length] by (simp add: token_def)

lemma quoted_rest_length: "length (snd (quoted_rest result s)) \<le> length s"
proof (induction result s rule: quoted_rest.induct)
  case (2 result c cs)
  then show ?case by (cases cs) (auto simp: le_SucI)
qed simp

lemma quoted_string_length: "length (snd (quoted_string s)) \<le> length s"
  using quoted_rest_length [of "[]" "tl s"] by (cases s) (auto simp: quoted_string_def next_is_def)

lemma token_or_quoted_length: "length (snd (token_or_quoted_string s)) \<le> length s"
  using quoted_string_length [of s] by (simp add: token_or_quoted_string_def token_def)

lemma skip_element_length: "length (skip_element quoted s) \<le> length s - 1"
proof (induction quoted s rule: skip_element.induct)
  case (2 quoted c cs)
  consider (skip) d ds where "quoted" "c = backslash" "cs = d # ds" | (other) "\<not> (quoted \<and> c = backslash \<and> cs \<noteq> [])"
    by (cases cs) auto
  then show ?case
  proof cases
    case skip
    with 2(2) show ?thesis by simp
  next
    case other
    then have "skip_element quoted (c # cs) = cs \<or> (\<exists>q. skip_element quoted (c # cs) = skip_element q cs \<and>
        length (skip_element q cs) \<le> length cs - 1)"
      using 2(1,3) by auto
    then show ?thesis by auto
  qed
qed simp

lemma next_is_Cons: "next_is c s \<Longrightarrow> s = c # tl s"
  by (cases s) (auto simp: next_is_def)

text \<open>The parameters that follow an alternative, up to what is not a semicolon.\<close>

function parse_params :: "bool \<Rightarrow> bool \<Rightarrow> alt_service \<Rightarrow> string \<Rightarrow> alt_service option \<times> string" where
  "parse_params have_max_age have_persist service s =
     (let r = skip_ows s
      in if \<not> next_is (CHR '';'') r then (Some service, r)
         else let (name, r1) = token (skip_ows (tl r))
              in if name = [] \<or> \<not> next_is (CHR ''='') r1 then (None, r1)
                 else let (val, r2) = token_or_quoted_string (tl r1)
                      in case val of
                           None \<Rightarrow> (None, r2)
                         | Some v \<Rightarrow>
                             let (ma, persist, service1) = set_param name v have_max_age have_persist service
                             in parse_params ma persist service1 r2)"
  by pat_completeness auto
termination
proof (relation "measure (\<lambda>(_, _, _, s). length s)", goal_cases)
  case (2 have_max_age have_persist service s r x name r1 y val r2 v z ma w persist service1)
  have "length r \<le> length s" using 2(1) by (simp add: skip_ows_def)
  moreover have "length (tl r) < length r" using 2(2) by (cases r) (auto simp: next_is_def)
  moreover have "length r1 \<le> length (tl r)"
    using token_length [of "tl r"] unfolding 2(3) [symmetric] 2(4) [symmetric] by simp
  moreover have "length r2 \<le> length (tl r1)" 
    using token_or_quoted_length [of "tl r1"] unfolding 2(6) [symmetric] 2(7) [symmetric] by simp
  ultimately show ?case by simp
qed simp

declare parse_params.simps [simp del]

definition parse_alt_value :: "string \<Rightarrow> alt_service option \<times> string" where
  "parse_alt_value s =
     (let (protocol, r) = token s
      in if protocol = [] \<or> \<not> next_is (CHR ''='') r then (None, r)
         else let (authority, r1) = quoted_string (tl r)
              in case authority of
                   None \<Rightarrow> (None, r1)
                 | Some a \<Rightarrow>
                     (case split_authority a of
                        None \<Rightarrow> (None, r1)
                      | Some (host, port) \<Rightarrow>
                          parse_params False False
                            \<lparr>as_protocol = pct_decode protocol, as_host = host, as_port = port,
                             as_max_age = 86400, as_persist = False\<rparr> r1))"

lemma parse_params_length: "length (snd (parse_params ma p service s)) \<le> length s"
proof (induction s arbitrary: ma p service rule: length_induct)
  case (1 s)
  let ?r = "skip_ows s"
  let ?t = "token (skip_ows (tl ?r))"
  let ?q = "token_or_quoted_string (tl (snd ?t))"
  have l: "length ?r \<le> length s" "length (snd ?t) \<le> length (tl ?r)" "length (snd ?q) \<le> length (tl (snd ?t))"
    by (rule skip_ows_length token_length token_or_quoted_length)+
  have "length (snd (parse_params ma' p' service' (snd ?q))) \<le> length s" if "next_is (CHR '';'') ?r" for ma' p' service'
  proof -
    have "length (snd ?q) < length s" using l that by (cases ?r) (auto simp: next_is_def)
    with 1 show ?thesis by (metis le_trans less_imp_le)
  qed
  with l show ?case by (subst parse_params.simps) (auto simp: Let_def split_beta split: option.splits)
qed

text \<open>What an alternative takes of the input: not less than a character, if it is one.\<close>

lemma parse_alt_value_length:
  "length (snd (parse_alt_value s)) \<le> length s"
  "fst (parse_alt_value s) \<noteq> None \<Longrightarrow> length (snd (parse_alt_value s)) < length s"
proof -
  let ?r = "snd (token s)"
  let ?q = "quoted_string (tl ?r)"
  have l: "length ?r \<le> length s" "length (snd ?q) \<le> length (tl ?r)"
    by (simp add: token_def) (rule quoted_string_length)
  have p: "length (snd (parse_params ma p service (snd ?q))) \<le> length (tl ?r)" for ma p service
    using order_trans [OF parse_params_length l(2)] .
  have "length (tl ?r) \<le> length s" using l(1) by simp
  note pl = order_trans [OF p this]
  show "length (snd (parse_alt_value s)) \<le> length s"
    using l pl by (auto simp: parse_alt_value_def Let_def split_beta split: option.splits)
  have "next_is c ?r \<Longrightarrow> length (tl ?r) < length s" for c using l(1) by (cases ?r) (auto simp: next_is_def)
  then show "length (snd (parse_alt_value s)) < length s" if "fst (parse_alt_value s) \<noteq> None"
    using that le_less_trans [OF p] by (auto simp: parse_alt_value_def Let_def split_beta split: option.splits if_splits)
qed

section \<open>The list of alternatives\<close>

function parse_services :: "string \<Rightarrow> alt_service list" where
  "parse_services s =
     (let r = skip_ows s
      in if r = [] then []
         else if next_is (CHR '','') r then parse_services (tl r)
         else case parse_alt_value r of
                (Some service, r1) \<Rightarrow>
                  (let r2 = skip_ows r1
                   in service # (if r2 = [] then parse_services r2
                                 else if next_is (CHR '','') r2 then parse_services (tl r2)
                                 else parse_services (skip_element False r2)))
              | (None, r1) \<Rightarrow> parse_services (skip_element False r1))"
  by pat_completeness auto
termination
proof (relation "measure length", goal_cases)
  case (2 s r)
  then have "length r \<le> length s" "length (tl r) < length r" using skip_ows_length [of s] by simp_all
  then show ?case by simp
next
  case (3 s r x r1)
  have "length r1 \<le> length r" using parse_alt_value_length(1) [of r] unfolding 3(4) [symmetric] by simp
  moreover have "length r \<le> length s" "r \<noteq> []" using 3 skip_ows_length [of s] by simp_all
  ultimately show ?case using skip_element_length [of False r1] by (cases r1) (auto simp flip: length_greater_0_conv)
next
  case (4 s r x r1 service r2)
  have "length r1 < length r" using parse_alt_value_length(2) [of r] 4(5) unfolding 4(4) [symmetric] by simp
  moreover have "length r \<le> length s" "length r2 \<le> length r1"
    using 4 skip_ows_length [of s] skip_ows_length [of r1] by simp_all
  ultimately show ?case by simp
next
  case (5 s r x r1 service r2)
  have "length r1 < length r" using parse_alt_value_length(2) [of r] 5(5) unfolding 5(4) [symmetric] by simp
  moreover have "length r \<le> length s" "length r2 \<le> length r1"
    using 5 skip_ows_length [of s] skip_ows_length [of r1] by simp_all
  ultimately show ?case by simp
next
  case (6 s r x r1 service r2)
  have "length r1 < length r" using parse_alt_value_length(2) [of r] 6(5) unfolding 6(4) [symmetric] by simp
  moreover have "length r \<le> length s" "length r2 \<le> length r1"
    using 6 skip_ows_length [of s] skip_ows_length [of r1] by simp_all
  ultimately show ?case using skip_element_length [of False r2] by simp
qed simp

declare parse_services.simps [simp del]

record alt_svc =
  av_clear :: bool
  av_services :: "alt_service list"

definition parse_alt_svc :: "string \<Rightarrow> alt_svc" where
  "parse_alt_svc s =
     (if rev (dropWhile is_ows (rev (skip_ows s))) = ''clear'' then \<lparr>av_clear = True, av_services = []\<rparr>
      else \<lparr>av_clear = False, av_services = parse_services s\<rparr>)"

definition find_service :: "string \<Rightarrow> alt_svc \<Rightarrow> alt_service option" where
  "find_service protocol a = find (\<lambda>service. as_protocol service = protocol) (av_services a)"

section \<open>What a server advertises\<close>

text \<open>\<open>Server::Impl\<close> advertises its own port, unless it has no QUIC server or is told not to. A port is
  an unsigned number, and so is the maximal age that gets this far.\<close>

definition advertised :: "bool \<Rightarrow> nat \<Rightarrow> int \<Rightarrow> string" where
  "advertised quic port max_age =
     (if quic \<and> max_age > 0
      then ''h3='' @ [quote] @ '':'' @ to_string port @ [quote] @ ''; ma='' @ to_string (nat max_age)
      else [])"

section \<open>What a client remembers\<close>

record alternative =
  al_host :: string
  al_port :: string
  al_expires :: int

text \<open>\<open>Client::Impl::on_alt_svc\<close>, at the time \<open>now\<close> of the steady clock, in nanoseconds. The clock counts in
  a signed type of 64 bits.\<close>

definition on_alt_svc :: "bool \<Rightarrow> int \<Rightarrow> string \<Rightarrow> alternative option \<Rightarrow> alternative option" where
  "on_alt_svc follow now field_value known =
     (if \<not> follow then known
      else let a = parse_alt_svc field_value; h3 = find_service ''h3'' a
           in if av_clear a \<or> (case h3 of Some service \<Rightarrow> as_max_age service = 0 | None \<Rightarrow> False) then None
              else case h3 of
                     None \<Rightarrow> known
                   | Some service \<Rightarrow>
                       Some \<lparr>al_host = as_host service, al_port = as_port service,
                             al_expires = to_int64 (now + 1000000000 * as_max_age service)\<rparr>)"

definition current_alternative :: "int \<Rightarrow> alternative option \<Rightarrow> alternative option" where
  "current_alternative now known =
     (case known of
        Some a \<Rightarrow> if al_expires a \<le> now then None else Some a
      | None \<Rightarrow> None)"

text \<open>Where a client connects to, and whether over HTTP/3: \<open>Client::Impl::async_connect\<close>, with no endpoints
  configured.\<close>

definition connect_target :: "bool \<Rightarrow> bool \<Rightarrow> string \<Rightarrow> string \<Rightarrow> alternative option \<Rightarrow> bool \<times> string \<times> string" where
  "connect_target h3 https host url_port alt =
     (let port = (if url_port = [] then (if h3 \<or> https then ''443'' else ''80'') else url_port)
      in case alt of
           Some a \<Rightarrow> (True, if al_host a = [] then host else al_host a, al_port a)
         | None \<Rightarrow> (h3, host, port))"

end
