(* ===== verification/Alt_Svc_Properties.thy ===== *)
theory Alt_Svc_Properties
  imports Alt_Svc
begin

text \<open>
  The parser of \<open>Alt_Svc\<close> reads back what the grammar of RFC 7838 lets a server write, whatever comes
  next to it; what it returns is well-formed for every input; and a server and a client that follow
  these definitions agree on where HTTP/3 is to be found.
\<close>

section \<open>Writing an alternative\<close>

definition escape :: "string \<Rightarrow> string" where
  "escape s = concat (map (\<lambda>c. if c = quote \<or> c = backslash then [backslash, c] else [c]) s)"

definition authority_of :: "string \<Rightarrow> string \<Rightarrow> string" where
  "authority_of host port = (if CHR '':'' \<in> set host then ''['' @ host @ '']'' else host) @ '':'' @ port"

definition print_service :: "alt_service \<Rightarrow> string" where
  "print_service a =
     as_protocol a @ ''='' @ [quote] @ escape (authority_of (as_host a) (as_port a)) @ [quote] @
     ''; ma='' @ to_string (nat (as_max_age a)) @ (if as_persist a then ''; persist=1'' else [])"

fun print_services :: "alt_service list \<Rightarrow> string" where
  "print_services [] = []"
| "print_services [a] = print_service a"
| "print_services (a # as) = print_service a @ '', '' @ print_services as"

text \<open>What can be written: a protocol made of token characters that needs no percent-encoding, a host
  without brackets, a port, and an age that fits.\<close>

definition printable :: "alt_service \<Rightarrow> bool" where
  "printable a =
     (as_protocol a \<noteq> [] \<and> list_all is_tchar (as_protocol a) \<and> CHR ''%'' \<notin> set (as_protocol a) \<and>
      CHR ''['' \<notin> set (as_host a) \<and> CHR '']'' \<notin> set (as_host a) \<and>
      as_port a \<noteq> [] \<and> list_all is_digit (as_port a) \<and>
      0 \<le> as_max_age a \<and> as_max_age a < 2 ^ 63)"

section \<open>Reading it back, piece by piece\<close>

lemma mem_dropWhile: "c \<in> set s \<Longrightarrow> \<not> P c \<Longrightarrow> c \<in> set (dropWhile P s)"
  by (induction s) auto

lemma quoted_rest_escape: "quoted_rest acc (escape s @ quote # rest) = (Some (acc @ s), rest)"
  by (induction s arbitrary: acc) (auto simp: escape_def)

lemma quoted_string_escape: "quoted_string (quote # escape s @ quote # rest) = (Some s, rest)"
  using quoted_rest_escape [of "[]" s rest] by (simp add: quoted_string_def next_is_def)

lemma token_append:
  assumes "list_all is_tchar t" "rest = [] \<or> \<not> is_tchar (hd rest)"
  shows "token (t @ rest) = (t, rest)"
proof -
  have "takeWhile is_tchar (t @ rest) = t" "dropWhile is_tchar (t @ rest) = rest"
    using assms by (cases rest; simp add: list_all_iff takeWhile_append2 dropWhile_append2)+
  then show ?thesis by (simp add: token_def)
qed

lemma pct_decode_id: "CHR ''%'' \<notin> set s \<Longrightarrow> pct_decode s = s"
  by (induction s rule: pct_decode.induct) (auto split: option.splits)

lemma digit_not: "is_digit c \<Longrightarrow> c \<noteq> CHR '':'' \<and> \<not> is_ows c \<and> is_tchar c \<and> c \<noteq> CHR '']''"
  by (auto simp: is_digit_def is_ows_def char_nat_def is_tchar_def Let_def)

lemma find_char_skip: "c \<notin> set xs \<Longrightarrow> find_char c (xs @ c # ys) 0 = Some (length xs)"
  by (induction xs) auto

lemma find_char_from: "k \<le> length xs \<Longrightarrow> c \<notin> set (drop k xs) \<Longrightarrow> find_char c (xs @ c # ys) k = Some (length xs)"
proof (induction xs arbitrary: k)
  case (Cons x xs)
  then show ?case by (cases k) (auto simp: find_char_skip)
qed simp

lemma split_authority_of:
  assumes "CHR ''['' \<notin> set host" "CHR '']'' \<notin> set host" "port \<noteq> []" "list_all is_digit port"
  shows "split_authority (authority_of host port) = Some (host, port)"
proof (cases "CHR '':'' \<in> set host")
  case True
  let ?h = "CHR ''['' # host @ [CHR '']'']"
  have "find_char (CHR '']'') (?h @ CHR '':'' # port) 0 = Some (Suc (length host))"
    using find_char_skip [OF assms(2), of "CHR '':'' # port"] by simp
  moreover have "find_char (CHR '':'') (?h @ CHR '':'' # port) (Suc (length host)) = Some (length ?h)"
    by (rule find_char_from) simp_all
  ultimately show ?thesis
    using True assms(3,4) by (simp add: authority_of_def split_authority_def next_is_def Let_def)
next
  case False
  have c: "CHR '':'' \<notin> set port" using assms(4) digit_not by (auto simp: list_all_iff)
  have "authority_of host port = host @ CHR '':'' # port" using False by (simp add: authority_of_def)
  moreover have "\<not> next_is (CHR ''['') (host @ CHR '':'' # port)"
    using assms(1) by (cases host) (auto simp: next_is_def)
  ultimately show ?thesis
    using assms(3,4) rfind_char_last [OF c, of host] by (simp add: split_authority_def Let_def)
qed

lemma skip_ows_simps [simp]:
  "skip_ows [] = []" "skip_ows (CHR '' '' # s) = skip_ows s" "\<not> is_ows c \<Longrightarrow> skip_ows (c # s) = c # s"
  by (simp_all add: skip_ows_def is_ows_def)

lemma char_classes [simp]:
  "\<not> is_ows (CHR '';'')" "\<not> is_ows (CHR '','')" "\<not> is_tchar (CHR ''='')" "\<not> is_tchar (CHR '';'')"
  "\<not> is_tchar (CHR '','')" "\<not> is_tchar (CHR '' '')" "\<not> is_digit (CHR '';'')" "\<not> is_digit (CHR '','')"
  by (simp_all add: is_ows_def is_tchar_def is_digit_def char_nat_def)

lemma to_string_tokens: "list_all is_tchar (to_string n)"
  using to_string_digits digit_not by (auto simp: list_all_iff)

lemma token_value:
  assumes "t \<noteq> []" "list_all is_tchar t" "rest = [] \<or> \<not> is_tchar (hd rest)"
  shows "token_or_quoted_string (t @ rest) = (Some t, rest)"
proof -
  have "\<not> is_tchar quote" by (simp add: is_tchar_def char_nat_def)
  with assms(1,2) have "\<not> next_is quote (t @ rest)" by (cases t) (auto simp: next_is_def)
  with token_append [OF assms(2,3)] assms(1) show ?thesis by (simp add: token_or_quoted_string_def)
qed

text \<open>One parameter at a time.\<close>

lemma parse_params_param:
  assumes "name \<noteq> []" "list_all is_tchar name" "t \<noteq> []" "list_all is_tchar t" "rest = [] \<or> \<not> is_tchar (hd rest)"
  shows "parse_params ma p service (CHR '';'' # CHR '' '' # name @ CHR ''='' # t @ rest) =
    (case set_param name t ma p service of (ma', p', service') \<Rightarrow> parse_params ma' p' service' rest)"
proof -
  have "\<not> is_ows c" if "is_tchar c" for c using that by (auto simp: is_ows_def is_tchar_def char_nat_def Let_def)
  then have "skip_ows (name @ CHR ''='' # t @ rest) = name @ CHR ''='' # t @ rest"
    using assms(1,2) by (cases name) auto
  moreover have "token (name @ CHR ''='' # t @ rest) = (name, CHR ''='' # t @ rest)"
    by (rule token_append) (simp_all add: assms(2))
  ultimately show ?thesis
    using token_value [OF assms(3-5)] assms(1)
    by (subst parse_params.simps) (simp add: next_is_def split_beta)
qed

lemma parse_params_end: "rest = [] \<or> next_is (CHR '','') rest \<Longrightarrow> parse_params ma p service rest = (Some service, rest)"
  by (cases rest; subst parse_params.simps) (auto simp: next_is_def)

lemma to_int64_small: "0 \<le> n \<Longrightarrow> n < 2 ^ 63 \<Longrightarrow> to_int64 n = n"
  by (simp add: to_int64_def)

lemma from_chars_all_to_string: "n < 2 ^ w \<Longrightarrow> from_chars_all w (to_string n) = Some n"
  by (simp add: from_chars_all_def from_chars_to_string)

lemma parse_params_print:
  assumes "0 \<le> n" "n < 2 ^ 63" "rest = [] \<or> next_is (CHR '','') rest" "\<not> as_persist service"
  shows "parse_params False False service
     (''; ma='' @ to_string (nat n) @ (if persist then ''; persist=1'' else []) @ rest) =
     (Some (service\<lparr>as_max_age := n, as_persist := persist\<rparr>), rest)"
proof -
  let ?r = "(if persist then ''; persist=1'' else []) @ rest"
  have r: "?r = [] \<or> \<not> is_tchar (hd ?r)" "rest = [] \<or> \<not> is_tchar (hd rest)"
    using assms(3) by (cases rest; auto simp: next_is_def)+
  have "nat n < 2 ^ 64" using assms(2) by (simp add: nat_less_iff)
  then have "set_param ''ma'' (to_string (nat n)) False False service = (True, False, service\<lparr>as_max_age := n\<rparr>)"
    using assms(1,2) by (simp add: set_param_def from_chars_all_to_string to_int64_small)
  moreover have "parse_params False False service (CHR '';'' # CHR '' '' # ''ma'' @ CHR ''='' # to_string (nat n) @ ?r) =
    (case set_param ''ma'' (to_string (nat n)) False False service of (ma', p', service') \<Rightarrow> parse_params ma' p' service' ?r)"
    by (rule parse_params_param) (use r in \<open>simp_all add: to_string_tokens is_tchar_def char_nat_def\<close>)
  ultimately have ma: "parse_params False False service (''; ma='' @ to_string (nat n) @ ?r) =
      parse_params True False (service\<lparr>as_max_age := n\<rparr>) ?r" by simp
  have "parse_params True False t (CHR '';'' # CHR '' '' # ''persist'' @ CHR ''='' # ''1'' @ rest) =
    (case set_param ''persist'' ''1'' True False t of (ma', p', service') \<Rightarrow> parse_params ma' p' service' rest)" for t
    by (rule parse_params_param) (use r(2) in \<open>simp_all add: is_tchar_def char_nat_def\<close>)
  then have "parse_params True False t (''; persist=1'' @ rest) = (Some (t\<lparr>as_persist := True\<rparr>), rest)" for t
    by (simp add: set_param_def parse_params_end [OF assms(3)])
  with ma show ?thesis
    using assms(4) by (cases persist) (simp_all add: parse_params_end [OF assms(3)])
qed

lemma parse_alt_value_print:
  assumes "printable a" "rest = [] \<or> next_is (CHR '','') rest"
  shows "parse_alt_value (print_service a @ rest) = (Some a, rest)"
proof -
  let ?ma = "''; ma='' @ to_string (nat (as_max_age a)) @ (if as_persist a then ''; persist=1'' else []) @ rest"
  let ?q = "quote # escape (authority_of (as_host a) (as_port a)) @ quote # ?ma"
  let ?s = "\<lparr>as_protocol = as_protocol a, as_host = as_host a, as_port = as_port a, as_max_age = 86400, as_persist = False\<rparr>"
  have eq: "print_service a @ rest = as_protocol a @ CHR ''='' # ?q" by (simp add: print_service_def)
  have t: "token (as_protocol a @ CHR ''='' # ?q) = (as_protocol a, CHR ''='' # ?q)"
    using assms(1) by (intro token_append) (simp_all add: printable_def)
  have "split_authority (authority_of (as_host a) (as_port a)) = Some (as_host a, as_port a)"
    using assms(1) by (intro split_authority_of) (simp_all add: printable_def)
  moreover have "parse_params False False ?s ?ma = (Some (?s\<lparr>as_max_age := as_max_age a, as_persist := as_persist a\<rparr>), rest)"
    using assms by (intro parse_params_print) (simp_all add: printable_def)
  ultimately show ?thesis
    using assms(1) unfolding eq parse_alt_value_def t
    by (simp add: next_is_def quoted_string_escape printable_def pct_decode_id)
qed

lemma parse_services_print:
  assumes "printable a" "rest = [] \<or> next_is (CHR '','') rest"
  shows "parse_services (print_service a @ rest) = a # parse_services (tl rest)"
proof -
  obtain c cs where c: "print_service a @ rest = c # cs" "is_tchar c"
    using assms(1) by (cases "as_protocol a") (auto simp: printable_def print_service_def)
  have "\<not> is_ows c" "c \<noteq> CHR '',''" using c(2) by (auto simp: is_ows_def is_tchar_def char_nat_def Let_def)
  then have s: "skip_ows (print_service a @ rest) = print_service a @ rest" "print_service a @ rest \<noteq> []"
    "\<not> next_is (CHR '','') (print_service a @ rest)"
    using c(1) by (simp_all add: next_is_def)
  have r: "skip_ows rest = rest" using assms(2) by (cases rest) (auto simp: next_is_def)
  have "parse_services [] = []" by (subst parse_services.simps) simp
  then show ?thesis
    using assms(2)
    unfolding parse_services.simps [of "print_service a @ rest"] Let_def s(1) parse_alt_value_print [OF assms]
    by (cases "rest = []") (use s(2,3) in \<open>simp_all add: r\<close>)
qed

lemma parse_services_space: "parse_services (CHR '' '' # s) = parse_services s"
  by (subst (1 2) parse_services.simps) simp

section \<open>Reading back a list\<close>

lemma alt_svc_parse:
  assumes "\<forall>a \<in> set as. printable a"
  shows "parse_alt_svc (print_services as) = \<lparr>av_clear = False, av_services = as\<rparr>"
proof -
  have "parse_services (print_services as) = as"
    using assms
  proof (induction as rule: print_services.induct)
    case 1
    show ?case by (subst parse_services.simps) simp
  next
    case (2 a)
    with parse_services_print [of a "[]"] show ?case by (simp add: parse_services.simps [of "[]"])
  next
    case (3 a b as)
    have "parse_services (print_services (a # b # as)) = a # parse_services (CHR '' '' # print_services (b # as))"
      using 3(2) parse_services_print [of a "CHR '','' # CHR '' '' # print_services (b # as)"] by (simp add: next_is_def)
    with 3 show ?case by (simp add: parse_services_space)
  qed
  moreover have "rev (dropWhile is_ows (rev (skip_ows (print_services as)))) \<noteq> ''clear''"

  proof (cases "as = []")
    case False
    then have "CHR ''='' \<in> set (print_services as)" by (cases as rule: print_services.cases) (auto simp: print_service_def)
    moreover have "\<not> is_ows (CHR ''='')" by (simp add: is_ows_def char_nat_def)
    ultimately have "CHR ''='' \<in> set (rev (dropWhile is_ows (rev (skip_ows (print_services as)))))"
      by (simp add: skip_ows_def mem_dropWhile)
    then show ?thesis by auto
  qed (simp add: skip_ows_def)
  ultimately show ?thesis by (simp add: parse_alt_svc_def)
qed



section \<open>Every input\<close>

definition wf_service :: "alt_service \<Rightarrow> bool" where
  "wf_service a =
     (as_protocol a \<noteq> [] \<and> as_port a \<noteq> [] \<and> list_all is_digit (as_port a) \<and>
      - (2 ^ 63) \<le> as_max_age a \<and> as_max_age a < 2 ^ 63)"

lemma to_int64_range: "- (2 ^ 63) \<le> to_int64 n \<and> to_int64 n < 2 ^ 63"
proof -
  have "0 \<le> (n + 2 ^ 63) mod 2 ^ 64 \<and> (n + 2 ^ 63) mod 2 ^ 64 < (2 ^ 64 :: int)" by simp
  then show ?thesis unfolding to_int64_def by simp
qed

lemma set_param_wf: "wf_service service \<Longrightarrow> wf_service (snd (snd (set_param name v ma p service)))"
  using to_int64_range by (auto simp: set_param_def wf_service_def split: option.splits)

lemma parse_params_wf:
  "wf_service service \<Longrightarrow> fst (parse_params ma p service s) = Some a \<Longrightarrow> wf_service a"
proof (induction s arbitrary: ma p service rule: length_induct)
  case (1 s)
  let ?r = "skip_ows s"
  let ?t = "token (skip_ows (tl ?r))"
  let ?q = "token_or_quoted_string (tl (snd ?t))"
  show ?case
  proof (cases "\<not> next_is (CHR '';'') ?r \<or> fst ?t = [] \<or> \<not> next_is (CHR ''='') (snd ?t) \<or> fst ?q = None")
    case True
    with 1(2,3) show ?thesis
      by (subst (asm) parse_params.simps) (auto simp: Let_def split_beta split: if_splits)
  next
    case False
    then obtain v where v: "fst ?q = Some v" by auto
    obtain ma' p' service' where sp: "set_param (fst ?t) v ma p service = (ma', p', service')" using prod_cases3 by blast
    have "parse_params ma p service s = parse_params ma' p' service' (snd ?q)"
      using False v sp by (subst parse_params.simps) (simp add: Let_def split_beta)
    moreover have "length (snd ?q) < length s"
    proof -
      have "length ?r \<le> length s" "length (snd ?t) \<le> length (tl ?r)" "length (snd ?q) \<le> length (tl (snd ?t))"
        by (rule skip_ows_length token_length token_or_quoted_length)+
      then show ?thesis using False by (cases ?r) (auto simp: next_is_def)
    qed
    moreover have "wf_service service'" using set_param_wf [OF 1(2), of "fst ?t" v ma p] sp by simp
    ultimately show ?thesis using 1(1,3) by metis
  qed
qed

lemma pct_decode_not_Nil: "s \<noteq> [] \<Longrightarrow> pct_decode s \<noteq> []"
  by (cases s rule: pct_decode.cases) (auto split: option.splits)

lemma split_authority_wf: "split_authority s = Some (host, port) \<Longrightarrow> port \<noteq> [] \<and> list_all is_digit port"
  by (auto simp: split_authority_def Let_def split: option.splits if_splits)

lemma parse_alt_value_wf: "fst (parse_alt_value s) = Some a \<Longrightarrow> wf_service a"
  by (auto simp: parse_alt_value_def Let_def split_beta split: option.splits if_splits
      intro!: parse_params_wf dest!: split_authority_wf simp: wf_service_def pct_decode_not_Nil)
    (auto dest!: parse_params_wf [rotated] simp: wf_service_def pct_decode_not_Nil)

lemma parse_services_step:
  obtains "parse_services s = []"
  | t where "length t < length s" "parse_services s = parse_services t"
  | a t where "length t < length s" "fst (parse_alt_value (skip_ows s)) = Some a" "parse_services s = a # parse_services t"
proof -
  let ?r = "skip_ows s" and ?v = "parse_alt_value (skip_ows s)"
  have l: "length ?r \<le> length s" "length (snd ?v) \<le> length ?r" "fst ?v \<noteq> None \<Longrightarrow> length (snd ?v) < length ?r"
    by (rule skip_ows_length parse_alt_value_length)+
  have sk: "length (skip_element q t) \<le> length t - 1" for q t by (rule skip_element_length)
  consider (over) "?r = []" | (comma) "?r \<noteq> []" "next_is (CHR '','') ?r"
    | (bad) "?r \<noteq> []" "\<not> next_is (CHR '','') ?r" "fst ?v = None"
    | (good) a where "?r \<noteq> []" "\<not> next_is (CHR '','') ?r" "fst ?v = Some a" by auto
  then show thesis
  proof cases
    case over
    then show thesis by (intro that(1)) (simp add: parse_services.simps [of s])
  next
    case comma
    then have "length (tl ?r) < length s" using l(1) by (cases ?r) auto
    moreover have "parse_services s = parse_services (tl ?r)" using comma by (simp add: parse_services.simps [of s])
    ultimately show thesis by (rule that(2))
  next
    case bad
    then have "length (skip_element False (snd ?v)) < length s"
      using l(1,2) sk [of False "snd ?v"] by (cases "snd ?v") (auto simp flip: length_greater_0_conv)
    moreover have "parse_services s = parse_services (skip_element False (snd ?v))"
      using bad by (subst parse_services.simps) (simp add: Let_def split_beta)
    ultimately show thesis by (rule that(2))
  next
    case (good a)
    let ?t = "skip_ows (snd ?v)"
    have t: "length ?t < length s" using l good skip_ows_length [of "snd ?v"] by simp
    have "parse_services s = a # parse_services
        (if ?t = [] then ?t else if next_is (CHR '','') ?t then tl ?t else skip_element False ?t)"
      using good by (subst parse_services.simps) (simp add: Let_def split_beta)
    moreover have "length (if ?t = [] then ?t else if next_is (CHR '','') ?t then tl ?t else skip_element False ?t) < length s"
      using t sk [of False ?t] by (auto intro: le_less_trans)
    ultimately show thesis using good(3) by (intro that(3))
  qed
qed

lemma parse_services_wf: "a \<in> set (parse_services s) \<Longrightarrow> wf_service a"
proof (induction s rule: length_induct)
  case (1 s)
  then show ?case by (cases s rule: parse_services_step) (auto dest: parse_alt_value_wf)
qed



section \<open>Server and client\<close>

lemma advertised_is_printed:
  assumes "max_age > 0"
  shows "advertised True p max_age =
    print_services [\<lparr>as_protocol = ''h3'', as_host = [], as_port = to_string p, as_max_age = max_age, as_persist = False\<rparr>]"
proof -
  have "escape s = s" if "\<forall>c \<in> set s. c \<noteq> quote \<and> c \<noteq> backslash" for s
    using that by (induction s) (auto simp: escape_def)
  moreover have "\<forall>c \<in> set (to_string p). c \<noteq> quote \<and> c \<noteq> backslash"
    using to_string_digits [of p] by (auto simp: is_digit_def)
  ultimately show ?thesis using assms by (simp add: advertised_def print_service_def authority_of_def)
qed

text \<open>A client that was told of a server's HTTP/3 endpoint connects to it, on the host of the origin
  and on the port that was advertised, until its age has passed, and as configured from then on.\<close>

theorem alt_svc_followed:
  assumes "max_age > 0" and "0 \<le> now" and "now + 1000000000 * max_age < 2 ^ 63"
  shows "connect_target h3 https host port
           (current_alternative t (on_alt_svc True now (advertised True p max_age) known)) =
         (if t < now + 1000000000 * max_age then (True, host, to_string p)
          else connect_target h3 https host port None)"
proof -
  let ?a = "\<lparr>as_protocol = ''h3'', as_host = [], as_port = to_string p, as_max_age = max_age, as_persist = False\<rparr>"
  have "printable ?a"
    using assms to_string_digits by (simp add: printable_def list_all_iff is_tchar_def char_nat_def)
  then have "parse_alt_svc (advertised True p max_age) = \<lparr>av_clear = False, av_services = [?a]\<rparr>"
    unfolding advertised_is_printed [OF assms(1)] by (intro alt_svc_parse) simp
  then have "on_alt_svc True now (advertised True p max_age) known =
      Some \<lparr>al_host = [], al_port = to_string p, al_expires = now + 1000000000 * max_age\<rparr>"
    using assms by (simp add: on_alt_svc_def find_service_def to_int64_small)
  then show ?thesis by (simp add: current_alternative_def connect_target_def)
qed

theorem alt_svc_followed_witness:
  "connect_target False True ''x.org'' [] (current_alternative 1000000000
     (on_alt_svc True 5 (advertised True 8443 86400) None)) = (True, ''x.org'', to_string 8443)"
  using alt_svc_followed [of 86400 5 False True "''x.org''" "[]" 1000000000 8443 None] by simp

end
