(* ===== verification/Http_Date.thy ===== *)
theory Http_Date
  imports Prelude
begin

text \<open>
  Dates in header fields, \<open>format_http_date()\<close> of \<^verbatim>\<open>src/common.cpp\<close>. The function writes the 29 characters by
  hand; what it takes from \<open>std::chrono\<close> is the calendar, which is modelled first, with days counted from
  the first of January of the year 0. The theorem reads a written date back.
\<close>

section \<open>The calendar\<close>

definition leap :: "nat \<Rightarrow> bool" where
  "leap y = (4 dvd y \<and> (\<not> 100 dvd y \<or> 400 dvd y))"

definition days_in_year :: "nat \<Rightarrow> nat" where
  "days_in_year y = (if leap y then 366 else 365)"

definition month_lengths :: "nat \<Rightarrow> nat list" where
  "month_lengths y = [31, if leap y then 29 else 28, 31, 30, 31, 30, 31, 31, 30, 31, 30, 31]"

function find_year :: "nat \<Rightarrow> nat \<Rightarrow> nat \<times> nat" where
  "find_year y n = (if n < days_in_year y then (y, n) else find_year (y + 1) (n - days_in_year y))"
  by pat_completeness auto
termination by (relation "measure snd") (auto simp: days_in_year_def)

declare find_year.simps [simp del]

fun find_month :: "nat list \<Rightarrow> nat \<Rightarrow> nat \<times> nat" where
  "find_month [] n = (0, n)"
| "find_month (k # ks) n = (if n < k then (0, n) else let (m, d) = find_month ks (n - k) in (m + 1, d))"

text \<open>The year, the month and the day of the month, both counted from 0, of a day. The calendar repeats
  after 400 years.\<close>

definition year_month_day :: "nat \<Rightarrow> nat \<times> nat \<times> nat" where
  "year_month_day n =
     (let (y, r) = find_year (400 * (n div 146097)) (n mod 146097); (m, d) = find_month (month_lengths y) r
      in (y, m, d))"

section \<open>Writing a date\<close>

definition date_first :: int where "date_first = - 62167219200"
definition date_last :: int where "date_last = 253402300799"

definition weekdays :: string where "weekdays = ''SunMonTueWedThuFriSat''"
definition months :: string where "months = ''JanFebMarAprMayJunJulAugSepOctNovDec''"

definition put2 :: "nat \<Rightarrow> string" where
  "put2 v = [char_of (48 + v div 10), char_of (48 + v mod 10)]"

definition substr3 :: "string \<Rightarrow> nat \<Rightarrow> string" where
  "substr3 text i = take 3 (drop (i * 3) text)"

text \<open>A time point is a number of nanoseconds since 1970.\<close>

definition format_http_date :: "int \<Rightarrow> string" where
  "format_http_date tp =
     (let time = min (max (tp div 10 ^ 9) date_first) date_last;
          day = time div 86400;
          (y, m, d) = year_month_day (nat (day + 719528));
          clock = nat (time - day * 86400)
      in substr3 weekdays (nat ((day + 4) mod 7)) @ '', '' @ put2 (d + 1) @ '' '' @
         substr3 months m @ '' '' @ put2 (y div 100) @ put2 (y mod 100) @ '' '' @
         put2 (clock div 3600) @ '':'' @ put2 (clock div 60 mod 60) @ '':'' @ put2 (clock mod 60) @ '' GMT'')"

section \<open>Reading a date\<close>

text \<open>The number of days before a year, as the sum of the lengths of all years before it.\<close>

fun days_before :: "nat \<Rightarrow> nat" where
  "days_before 0 = 0"
| "days_before (Suc y) = days_before y + days_in_year y"

definition digit :: "char \<Rightarrow> nat" where
  "digit c = of_char c - 48"

definition read2 :: "string \<Rightarrow> nat \<Rightarrow> nat" where
  "read2 s i = 10 * digit (s ! i) + digit (s ! (i + 1))"

definition read_name :: "string \<Rightarrow> string \<Rightarrow> nat \<Rightarrow> nat" where
  "read_name names s i = length (takeWhile (\<lambda>k. substr3 names k \<noteq> take 3 (drop i s)) [0..<12])"

definition read_days :: "string \<Rightarrow> nat" where
  "read_days s =
     (let y = 100 * read2 s 12 + read2 s 14
      in days_before y + sum_list (take (read_name months s 8) (month_lengths y)) + read2 s 5 - 1)"

definition read_http_date :: "string \<Rightarrow> int" where
  "read_http_date s =
     (int (read_days s) - 719528) * 86400 + int (read2 s 17 * 3600 + read2 s 20 * 60 + read2 s 23)"

section \<open>The calendar is right\<close>

lemma div_up_Suc: "0 < k \<Longrightarrow> (Suc y + (k - 1)) div k = (y + (k - 1)) div k + (if k dvd y then 1 else 0)" for k :: nat
  using div_Suc [of "y + (k - 1)" k] by (auto simp: dvd_eq_mod_eq_0 mod_Suc)

lemma days_before_closed: "days_before y + (y + 99) div 100 = 365 * y + (y + 3) div 4 + (y + 399) div 400"
proof (induction y)
  case (Suc y)
  have "100 dvd y \<Longrightarrow> 4 dvd y" "400 dvd y \<Longrightarrow> 100 dvd y"
    using dvd_trans [of 4 100 y] dvd_trans [of 100 400 y] by simp_all
  with Suc div_up_Suc [of 100 y] div_up_Suc [of 4 y] div_up_Suc [of 400 y] show ?case
    by (auto simp: days_in_year_def leap_def)
qed simp

lemma days_before_era: "days_before (400 * e + y) = e * 146097 + days_before y"
proof -
  have "(400 * e + y + 99) div 100 = 4 * e + (y + 99) div 100" "(400 * e + y + 3) div 4 = 100 * e + (y + 3) div 4"
    "(400 * e + y + 399) div 400 = e + (y + 399) div 400"
    using div_mult_self1 [of 100 "y + 99" "4 * e"] div_mult_self1 [of 4 "y + 3" "100 * e"] div_mult_self1 [of 400 "y + 399" e]
    by (simp_all add: algebra_simps)
  with days_before_closed [of "400 * e + y"] days_before_closed [of y] show ?thesis by simp
qed

lemma find_year_days: "find_year y n = (z, r) \<Longrightarrow> days_before z + r = days_before y + n \<and> r < days_in_year z"
proof (induction y n rule: find_year.induct)
  case (1 y n)
  then show ?case by (subst (asm) (2) find_year.simps) (auto split: if_splits)
qed

lemma find_month_days:
  "n < sum_list ks \<Longrightarrow> find_month ks n = (m, d) \<Longrightarrow>
   m < length ks \<and> sum_list (take m ks) + d = n \<and> d < ks ! m"
proof (induction ks n arbitrary: m d rule: find_month.induct)
  case (2 k ks n)
  show ?case
  proof (cases "n < k")
    case False
    then obtain m' where "find_month ks (n - k) = (m', d)" "m = m' + 1"
      using 2(3) by (auto split: prod.splits)
    moreover have "n - k < sum_list ks" using 2(2) False by simp
    ultimately have "m' < length ks" "sum_list (take m' ks) + d = n - k" "d < ks ! m'" using 2(1) [OF False] by auto
    with False show ?thesis by (simp add: \<open>m = m' + 1\<close>)
  qed (use 2 in auto)
qed simp

lemma sum_month_lengths: "sum_list (month_lengths y) = days_in_year y"
  by (simp add: month_lengths_def days_in_year_def)

lemma month_length_31: "m < 12 \<Longrightarrow> month_lengths y ! m \<le> 31"
  by (auto simp: month_lengths_def nth_Cons less_Suc_eq numeral_eq_Suc split: nat.splits)

lemma days_before_mono: "y \<le> z \<Longrightarrow> days_before y \<le> days_before z"
  by (induction z) (auto simp: le_Suc_eq)

lemma year_month_day_days:
  assumes "year_month_day n = (y, m, d)"
  shows "days_before y + sum_list (take m (month_lengths y)) + d = n" "m < 12" "d < 31"
    and "n < days_before 10000 \<Longrightarrow> y < 10000"
proof -
  obtain r where r: "find_year (400 * (n div 146097)) (n mod 146097) = (y, r)" "find_month (month_lengths y) r = (m, d)"
    using assms by (auto simp: year_month_day_def split: prod.splits)
  have y: "days_before y + r = n" "r < days_in_year y"
    using find_year_days [OF r(1)] days_before_era [of "n div 146097" 0] by auto
  have m: "m < length (month_lengths y)" "sum_list (take m (month_lengths y)) + d = r" "d < month_lengths y ! m"
    using find_month_days [OF _ r(2)] y(2) by (simp_all add: sum_month_lengths)
  then show "m < 12" by (simp add: month_lengths_def)
  then show "d < 31" using m(3) month_length_31 [of m y] by linarith
  show "days_before y + sum_list (take m (month_lengths y)) + d = n" using y m by simp
  show "y < 10000" if "n < days_before 10000"
    using that y(1) days_before_mono [of 10000 y] by (rule_tac ccontr) simp
qed

section \<open>What is written can be read\<close>

lemma digit_put [simp]: "v < 10 \<Longrightarrow> digit (char_of (48 + v)) = v"
  by (simp add: digit_def)

lemma read2_put2:
  assumes "v < 100" "s ! i = put2 v ! 0" "s ! (i + 1) = put2 v ! 1"
  shows "read2 s i = v"
  using assms by (simp add: read2_def put2_def)

lemma substr3_cases:
  assumes "3 * i + 3 \<le> length names"
  obtains a b c where "substr3 names i = [a, b, c]"
proof -
  have "length (substr3 names i) = 3" using assms by (simp add: substr3_def)
  then show ?thesis using that by (metis length_0_conv length_Suc_conv numeral_3_eq_3)
qed

lemma substr3_months: "\<forall>m \<in> set [0..<12]. \<forall>k \<in> set [0..<12]. substr3 months k = substr3 months m \<longrightarrow> k = m"
  by code_simp

lemma read_month:
  assumes "m < 12" "take 3 (drop i s) = substr3 months m"
  shows "read_name months s i = m"
proof -
  have "[0..<12] = [0..<m] @ m # [Suc m..<12]"
    using assms(1) upt_add_eq_append [of 0 m "12 - m"] upt_conv_Cons [of m 12] by simp
  moreover have "\<forall>k \<in> set [0..<m]. substr3 months k \<noteq> substr3 months m" 
  proof
    fix k assume "k \<in> set [0..<m]"
    then have "k \<in> set [0..<12]" "m \<in> set [0..<12]" "k \<noteq> m" using assms(1) by auto
    with substr3_months show "substr3 months k \<noteq> substr3 months m" by blast
  qed
  ultimately have "takeWhile (\<lambda>k. substr3 months k \<noteq> substr3 months m) [0..<12] = [0..<m]"
    by (simp add: takeWhile_append2 del: set_upt)
  then show ?thesis by (simp add: read_name_def assms(2))
qed

lemma format_http_date_fields:
  assumes "year_month_day (nat (day + 719528)) = (y, m, d)" "day = time div 86400"
    and "time = min (max (tp div 10 ^ 9) date_first) date_last" "clock = nat (time - day * 86400)"
  shows "length (format_http_date tp) = 29"
    and "y < 10000 \<Longrightarrow> read_days (format_http_date tp) = days_before y + sum_list (take m (month_lengths y)) + d"
    and "read2 (format_http_date tp) 17 = clock div 3600" "read2 (format_http_date tp) 20 = clock div 60 mod 60"
    and "read2 (format_http_date tp) 23 = clock mod 60"
    and "take 3 (format_http_date tp) = substr3 weekdays (nat ((day + 4) mod 7))"
proof -
  let ?w = "nat ((day + 4) mod 7)"
  have md: "m < 12" "d < 31" using year_month_day_days(2,3) [OF assms(1)] by auto
  have "?w < 7" by simp
  then obtain w1 w2 w3 where w: "substr3 weekdays ?w = [w1, w2, w3]"
    using substr3_cases [of ?w weekdays] by (auto simp: weekdays_def)
  obtain m1 m2 m3 where mm: "substr3 months m = [m1, m2, m3]"
    using substr3_cases [of m months] md(1) by (auto simp: months_def)
  have f: "format_http_date tp = [w1, w2, w3] @ '', '' @ put2 (d + 1) @ '' '' @
     [m1, m2, m3] @ '' '' @ put2 (y div 100) @ put2 (y mod 100) @ '' '' @
     put2 (clock div 3600) @ '':'' @ put2 (clock div 60 mod 60) @ '':'' @ put2 (clock mod 60) @ '' GMT''"
    unfolding format_http_date_def Let_def assms(3) [symmetric] assms(2) [symmetric] assms(4) [symmetric] assms(1)
      prod.case w mm ..
  have c: "clock < 86400" using assms(2,4) by (simp add: minus_div_mult_eq_mod)
  show "length (format_http_date tp) = 29" by (simp add: f put2_def)
  show "take 3 (format_http_date tp) = substr3 weekdays ?w" by (simp add: f w)
  show "read2 (format_http_date tp) 17 = clock div 3600" using c by (intro read2_put2) (simp_all add: f put2_def)
  show "read2 (format_http_date tp) 20 = clock div 60 mod 60" by (intro read2_put2) (simp_all add: f put2_def)
  show "read2 (format_http_date tp) 23 = clock mod 60" by (intro read2_put2) (simp_all add: f put2_def)
  assume y: "y < 10000"
  have "read2 (format_http_date tp) 12 = y div 100" using y by (intro read2_put2) (simp_all add: f put2_def)
  moreover have "read2 (format_http_date tp) 14 = y mod 100" by (intro read2_put2) (simp_all add: f put2_def)
  moreover have "read2 (format_http_date tp) 5 = d + 1" using md by (intro read2_put2) (simp_all add: f put2_def)
  moreover have "read_name months (format_http_date tp) 8 = m"
    by (rule read_month [OF md(1)]) (simp add: f mm put2_def)
  ultimately show "read_days (format_http_date tp) = days_before y + sum_list (take m (month_lengths y)) + d"
    by (simp add: read_days_def Let_def)
qed

lemma days_before_10000: "days_before 10000 = 3652425"
  using days_before_era [of 25 0] by simp


end
