(* ===== verification/File_Cache.thy ===== *)
theory File_Cache
  imports Text_Lib Stream_Table Http_Date
begin

text \<open>
  Serving files, \<^verbatim>\<open>src/file_handler.cpp\<close>: from the path of a request to a file below the root, mapped
  into memory and kept in a cache of bounded size. The body of the request is drained and the answer is
  submitted through a session, which is the subject of other theories; here an answer is a value.

  A path is the list of its elements, as iterating over a \<open>std::filesystem::path\<close> gives them. The operating
  system is not part of this program: what it knows of files at the time of a request is a value of \<open>os\<close>.
\<close>

section \<open>The operating system\<close>

type_synonym path = "string list"

datatype errno = ENOENT | ENOTDIR | EISDIR | ENAMETOOLONG | EACCES | EPERM | EINVAL | Other_error nat

datatype file_kind = Regular_file | Directory | Other_file

record identity =
  id_dev :: nat
  id_ino :: nat
  id_size :: nat
  id_mtime_sec :: int
  id_mtime_nsec :: nat

record stat =
  st_kind :: file_kind
  st_id :: identity

record os =
  weakly_canonical :: "path \<Rightarrow> errno + path"
  os_stat :: "path \<Rightarrow> errno + stat"
  os_open :: "path \<Rightarrow> errno + stat"
  os_mmap :: "path \<Rightarrow> errno + bytes"

section \<open>From the path of a request to a file\<close>

text \<open>The elements of a relative path; a path that ends with a slash, or is empty, ends with an empty
  element.\<close>

fun elements :: "string \<Rightarrow> string \<Rightarrow> path" where
  "elements element [] = [element]"
| "elements element (c # cs) =
     (if c = CHR ''/'' then (if element = [] then elements [] cs else element # elements [] cs)
      else elements (element @ [c]) cs)"

text \<open>\<open>lexically_relative\<close>, for absolute paths.\<close>

fun lexically_relative :: "path \<Rightarrow> path \<Rightarrow> path" where
  "lexically_relative [] [] = [''.'']"
| "lexically_relative file [] = file"
| "lexically_relative [] base = map (\<lambda>_. ''..'') base"
| "lexically_relative (f # file) (b # base) =
     (if f = b then lexically_relative file base else map (\<lambda>_. ''..'') (b # base) @ f # file)"

definition resolve :: "os \<Rightarrow> string \<Rightarrow> string \<Rightarrow> path \<Rightarrow> errno + path" where
  "resolve os request pre root =
     (if take (length pre) request \<noteq> pre then Inl ENOENT
      else let rest = drop (length pre) request
           in if rest \<noteq> [] \<and> hd rest \<noteq> CHR ''/'' then Inl ENOENT
              else let below = dropWhile (\<lambda>c. c = CHR ''/'') rest
                   in case weakly_canonical os root of
                        Inl e \<Rightarrow> Inl e
                      | Inr base \<Rightarrow>
                          (case weakly_canonical os (base @ elements [] below) of
                             Inl e \<Rightarrow> Inl e
                           | Inr file \<Rightarrow>
                               let relative = lexically_relative file base
                               in if relative = [] \<or> hd relative = ''..'' then Inl ENOENT else Inr file))"

text \<open>The extension of the last element, with its dot; names that start with their only dot have none.\<close>

definition extension :: "path \<Rightarrow> string" where
  "extension p =
     (if p = [] then []
      else let name = last p; tail = takeWhile (\<lambda>c. c \<noteq> CHR ''.'') (rev name)
           in if name = ''.'' \<or> name = ''..'' \<or> length tail + 1 \<ge> length name then []
              else CHR ''.'' # rev tail)"

definition content_types :: "(string \<times> string) list" where
  "content_types =
     [(''.css'', ''text/css''), (''.gif'', ''image/gif''), (''.htm'', ''text/html''),
      (''.html'', ''text/html''), (''.jpeg'', ''image/jpeg''), (''.jpg'', ''image/jpeg''),
      (''.js'', ''text/javascript''), (''.json'', ''application/json''), (''.pdf'', ''application/pdf''),
      (''.png'', ''image/png''), (''.svg'', ''image/svg+xml''), (''.txt'', ''text/plain''),
      (''.xml'', ''application/xml''), (''.zip'', ''application/zip'')]"

definition content_type :: "path \<Rightarrow> string" where
  "content_type p =
     (case map_of content_types (map to_lower (extension p)) of
        Some t \<Rightarrow> t
      | None \<Rightarrow> ''application/octet-stream'')"

definition status_for :: "errno \<Rightarrow> nat" where
  "status_for e =
     (if e \<in> {ENOENT, ENOTDIR, EISDIR, ENAMETOOLONG} then 404
      else if e \<in> {EACCES, EPERM} then 403
      else 500)"

section \<open>Mapping a file\<close>

record mapped_file =
  mf_data :: bytes
  mf_size :: nat
  mf_id :: identity

definition map_file :: "os \<Rightarrow> path \<Rightarrow> errno + mapped_file" where
  "map_file os p =
     (case os_open os p of
        Inl e \<Rightarrow> Inl e
      | Inr st \<Rightarrow>
          if st_kind st \<noteq> Regular_file then Inl (if st_kind st = Directory then EISDIR else EINVAL)
          else let file = \<lparr>mf_data = [], mf_size = id_size (st_id st), mf_id = st_id st\<rparr>
               in if mf_size file = 0 then Inr file
                  else case os_mmap os p of
                         Inl e \<Rightarrow> Inl e
                       | Inr data \<Rightarrow> Inr (file\<lparr>mf_data := data\<rparr>))"

section \<open>The cache\<close>

record cached_file =
  cf_resolved :: path
  cf_file :: mapped_file
  cf_last_modified :: string
  cf_content_type :: string

text \<open>\<open>fc_lru\<close> has the keys, most recently used first. The sizes are those of files, below $2^{63}$, and the
  cache holds at most \<open>max_bytes\<close> besides the newest entry, so that \<open>fc_bytes\<close> never wraps.\<close>

record file_cache =
  fc_entries :: "(string \<times> cached_file) list"
  fc_lru :: "string list"
  fc_bytes :: nat

definition max_entries :: nat where "max_entries = 256"
definition max_bytes :: nat where "max_bytes = 64 * 2 ^ 20"

abbreviation cf_size :: "cached_file \<Rightarrow> nat" where
  "cf_size e \<equiv> mf_size (cf_file e)"

definition fc_lookup :: "string \<Rightarrow> file_cache \<Rightarrow> cached_file option \<times> file_cache" where
  "fc_lookup key c =
     (case map_of (fc_entries c) key of
        None \<Rightarrow> (None, c)
      | Some e \<Rightarrow> (Some e, c\<lparr>fc_lru := key # remove1 key (fc_lru c)\<rparr>))"

text \<open>The loop at the end of \<open>insert\<close>. That the last key has an entry is part of the invariant below.\<close>

function evict :: "file_cache \<Rightarrow> file_cache" where
  "evict c =
     (if length (fc_entries c) > 1 \<and> (length (fc_entries c) > max_entries \<or> fc_bytes c > max_bytes)
      then case map_of (fc_entries c) (last (fc_lru c)) of
             None \<Rightarrow> c
           | Some victim \<Rightarrow>
               evict (c\<lparr>fc_bytes := fc_bytes c - cf_size victim,
                        fc_entries := AList.delete (last (fc_lru c)) (fc_entries c),
                        fc_lru := butlast (fc_lru c)\<rparr>)
      else c)"
  by pat_completeness auto
termination
proof (relation "measure (\<lambda>c. length (fc_entries c))", goal_cases)
  case (2 c victim)
  then have "last (fc_lru c) \<in> fst ` set (fc_entries c)" by (metis domI dom_map_of_conv_image_fst)
  then have "filter (\<lambda>(k, e). last (fc_lru c) \<noteq> k) (fc_entries c) \<noteq> fc_entries c"
    by (auto simp: filter_id_conv)
  then have "length (filter (\<lambda>(k, e). last (fc_lru c) \<noteq> k) (fc_entries c)) < length (fc_entries c)"
    by (metis length_filter_le filter_True length_filter_less le_neq_implies_less filter_id_conv)
  then show ?case by (simp add: AList.delete_eq)
qed simp

declare evict.simps [simp del]

definition fc_insert :: "string \<Rightarrow> cached_file \<Rightarrow> file_cache \<Rightarrow> file_cache" where
  "fc_insert key e c =
     (let c1 = (case map_of (fc_entries c) key of
                  None \<Rightarrow> c
                | Some old \<Rightarrow> c\<lparr>fc_bytes := fc_bytes c - cf_size old, fc_lru := remove1 key (fc_lru c),
                                 fc_entries := AList.delete key (fc_entries c)\<rparr>)
      in evict (c1\<lparr>fc_bytes := fc_bytes c1 + cf_size e, fc_lru := key # fc_lru c1,
                   fc_entries := (key, e) # fc_entries c1\<rparr>))"

text \<open>\<open>get\<close>: a hit counts if the file is still the one that was mapped.\<close>

definition fc_get :: "os \<Rightarrow> string \<Rightarrow> string \<Rightarrow> path \<Rightarrow> file_cache \<Rightarrow> (errno + cached_file) \<times> file_cache" where
  "fc_get os request pre root c =
     (let (hit, c1) = fc_lookup request c;
          fresh = (case hit of
                     None \<Rightarrow> False
                   | Some e \<Rightarrow> (case os_stat os (cf_resolved e) of
                                  Inl _ \<Rightarrow> False
                                | Inr st \<Rightarrow> st_id st = mf_id (cf_file e)))
      in if fresh then (Inr (the hit), c1)
         else case resolve os request pre root of
                Inl e \<Rightarrow> (Inl e, c1)
              | Inr p \<Rightarrow>
                  (case map_file os p of
                     Inl e \<Rightarrow> (Inl e, c1)
                   | Inr file \<Rightarrow>
                       let e = \<lparr>cf_resolved = p, cf_file = file, cf_last_modified = format_http_date (id_mtime_sec (mf_id file) * 10 ^ 9),
                                cf_content_type = content_type p\<rparr>
                       in (Inr e, fc_insert request e c1)))"

section \<open>Answering a request\<close>

record answer =
  answer_status :: nat
  answer_length :: nat
  answer_type :: "string option"
  answer_last_modified :: "string option"
  answer_body :: bytes

definition serve_file :: "os \<Rightarrow> path \<Rightarrow> string \<Rightarrow> string \<Rightarrow> file_cache \<Rightarrow> answer \<times> file_cache" where
  "serve_file os root pre request c =
     (case fc_get os request pre root c of
        (Inl e, c1) \<Rightarrow>
          (\<lparr>answer_status = status_for e, answer_length = 0, answer_type = None, answer_last_modified = None,
             answer_body = []\<rparr>, c1)
      | (Inr e, c1) \<Rightarrow>
          (\<lparr>answer_status = 200, answer_length = cf_size e, answer_type = Some (cf_content_type e),
             answer_last_modified = Some (cf_last_modified e), answer_body = mf_data (cf_file e)\<rparr>, c1))"

end
