(* ===== verification/File_Cache_Properties.thy ===== *)
theory File_Cache_Properties
  imports File_Cache Body_Contract "HOL-Library.Multiset"
begin

text \<open>
  What the file handler promises: it serves nothing from outside the root, and its cache is a list of
  entries, the most recently used first, of which the newest that fit are kept. The cache of the
  program, a table, a list of keys and a sum kept beside it, is shown to be a refinement of that list.
\<close>

section \<open>The cache as a list\<close>

type_synonym lru = "(string \<times> cached_file) list"

definition total_size :: "lru \<Rightarrow> nat" where
  "total_size xs = sum_list (map (\<lambda>(k, e). cf_size e) xs)"

fun keep_fitting :: "nat \<Rightarrow> nat \<Rightarrow> lru \<Rightarrow> lru" where
  "keep_fitting n b [] = []"
| "keep_fitting n b (x # xs) =
     (if n < max_entries \<and> b + cf_size (snd x) \<le> max_bytes
      then x # keep_fitting (n + 1) (b + cf_size (snd x)) xs else [])"

fun keep_newest :: "lru \<Rightarrow> lru" where
  "keep_newest [] = []"
| "keep_newest (x # xs) = x # keep_fitting 1 (cf_size (snd x)) xs"

definition others :: "string \<Rightarrow> lru \<Rightarrow> lru" where
  "others key xs = filter (\<lambda>(k, e). k \<noteq> key) xs"

definition lru_touch :: "string \<Rightarrow> lru \<Rightarrow> lru" where
  "lru_touch key xs = (case map_of xs key of None \<Rightarrow> xs | Some e \<Rightarrow> (key, e) # others key xs)"

definition lru_insert :: "string \<Rightarrow> cached_file \<Rightarrow> lru \<Rightarrow> lru" where
  "lru_insert key e xs = keep_newest ((key, e) # others key xs)"

definition lru_get :: "os \<Rightarrow> string \<Rightarrow> string \<Rightarrow> path \<Rightarrow> lru \<Rightarrow> (errno + cached_file) \<times> lru" where
  "lru_get os request pre root xs =
     (let fresh = (case map_of xs request of
                     None \<Rightarrow> False
                   | Some e \<Rightarrow> (case os_stat os (cf_resolved e) of
                                  Inl _ \<Rightarrow> False
                                | Inr st \<Rightarrow> st_id st = mf_id (cf_file e)))
      in if fresh then (Inr (the (map_of xs request)), lru_touch request xs)
         else case resolve os request pre root of
                Inl e \<Rightarrow> (Inl e, lru_touch request xs)
              | Inr p \<Rightarrow>
                  (case map_file os p of
                     Inl e \<Rightarrow> (Inl e, lru_touch request xs)
                   | Inr file \<Rightarrow>
                       let e = \<lparr>cf_resolved = p, cf_file = file, cf_last_modified = format_http_date (id_mtime_sec (mf_id file) * 10 ^ 9),
                                cf_content_type = content_type p\<rparr>
                       in (Inr e, lru_insert request e (lru_touch request xs))))"

section \<open>The cache of the program\<close>

definition fc_inv :: "file_cache \<Rightarrow> bool" where
  "fc_inv c =
     (distinct (fc_lru c) \<and> distinct (map fst (fc_entries c)) \<and> set (fc_lru c) = fst ` set (fc_entries c) \<and>
      fc_bytes c = total_size (fc_entries c))"

definition fc_abs :: "file_cache \<Rightarrow> lru" where
  "fc_abs c = map (\<lambda>k. (k, the (map_of (fc_entries c) k))) (fc_lru c)"

lemma fc_inv_dom: "fc_inv c \<Longrightarrow> k \<in> set (fc_lru c) \<longleftrightarrow> map_of (fc_entries c) k \<noteq> None"
  by (auto simp: fc_inv_def map_of_eq_None_iff)

lemma fc_inv_length: "fc_inv c \<Longrightarrow> length (fc_lru c) = length (fc_entries c)"
  by (metis distinct_card fc_inv_def length_map list.set_map)

lemma fc_abs_set:
  assumes "fc_inv c"
  shows "mset (fc_abs c) = mset (fc_entries c)"
proof -
  have d: "distinct (fc_abs c)" "distinct (fc_entries c)"
    using assms by (auto simp: fc_inv_def fc_abs_def distinct_map inj_on_def)
  have "set (fc_abs c) = set (fc_entries c)"
  proof (intro set_eqI iffI)
    fix x assume "x \<in> set (fc_abs c)"
    then obtain k where k: "k \<in> set (fc_lru c)" "x = (k, the (map_of (fc_entries c) k))" by (auto simp: fc_abs_def)
    then obtain e where "map_of (fc_entries c) k = Some e" using fc_inv_dom [OF assms, of k] by auto
    with k(2) show "x \<in> set (fc_entries c)" by (simp add: map_of_SomeD)
  next
    fix x assume x: "x \<in> set (fc_entries c)"
    then have "map_of (fc_entries c) (fst x) = Some (snd x)" using assms by (simp add: fc_inv_def)
    moreover have "fst x \<in> set (fc_lru c)" using x assms by (auto simp: fc_inv_def)
    ultimately show "x \<in> set (fc_abs c)" by (force simp: fc_abs_def)
  qed
  with d show ?thesis by (metis set_eq_iff_mset_eq_distinct)
qed

lemma total_size_mset: "total_size xs = sum_mset (image_mset (\<lambda>(k, e). cf_size e) (mset xs))"
  by (induction xs) (auto simp: total_size_def)

lemma fc_abs_total: "fc_inv c \<Longrightarrow> total_size (fc_abs c) = fc_bytes c"
  by (simp add: total_size_mset fc_abs_set) (simp add: fc_inv_def total_size_mset)

lemma map_of_keys: "map_of (map (\<lambda>k. (k, f k)) ks) k = (if k \<in> set ks then Some (f k) else None)"
  by (induction ks) auto

lemma fc_abs_lookup:
  assumes "fc_inv c"
  shows "map_of (fc_abs c) k = map_of (fc_entries c) k"
  using fc_inv_dom [OF assms, of k] by (auto simp: fc_abs_def map_of_keys)

lemma keys_delete: "fst ` set (AList.delete k xs) = fst ` set xs - {k}"
  by (force simp: AList.delete_eq)

lemma fc_abs_others: "others key (fc_abs c) = map (\<lambda>k. (k, the (map_of (fc_entries c) k))) (filter (\<lambda>k. k \<noteq> key) (fc_lru c))"
  by (simp add: others_def fc_abs_def filter_map comp_def)

section \<open>Eviction\<close>

lemma keep_all: "n + length xs \<le> max_entries \<Longrightarrow> b + total_size xs \<le> max_bytes \<Longrightarrow> keep_fitting n b xs = xs"
  by (induction n b xs rule: keep_fitting.induct) (auto simp: total_size_def split_beta)

lemma keep_butlast:
  "\<not> (n + length xs \<le> max_entries \<and> b + total_size xs \<le> max_bytes) \<Longrightarrow> xs \<noteq> [] \<Longrightarrow>
   keep_fitting n b (butlast xs) = keep_fitting n b xs"
proof (induction n b xs rule: keep_fitting.induct)
  case (2 n b x xs)
  then show ?case by (cases xs) (auto simp: total_size_def split_beta)
qed simp

lemma keep_fitting_bounds:
  "n + length (keep_fitting n b xs) \<le> max n max_entries \<and> b + total_size (keep_fitting n b xs) \<le> max b max_bytes"
proof (induction n b xs rule: keep_fitting.induct)
  case (2 n b x xs)
  then show ?case by (cases "n < max_entries \<and> b + cf_size (snd x) \<le> max_bytes") (auto simp: total_size_def split_beta)
qed (simp add: total_size_def)

lemma keep_newest_bounds:
  "length (keep_newest xs) \<le> max_entries \<and> (total_size (keep_newest xs) \<le> max_bytes \<or> length (keep_newest xs) \<le> 1)"
proof (cases xs)
  case (Cons x ys)
  let ?k = "keep_fitting 1 (cf_size (snd x)) ys"
  have b: "1 + length ?k \<le> max 1 max_entries" "cf_size (snd x) + total_size ?k \<le> max (cf_size (snd x)) max_bytes"
    using keep_fitting_bounds by blast+
  have "?k = []" if "cf_size (snd x) > max_bytes" using that by (cases ys) auto
  with b Cons show ?thesis by (auto simp: total_size_def split_beta max_def max_entries_def split: if_splits)
qed (simp add: total_size_def)

text \<open>The victim: the least recently used.\<close>

definition drop_last :: "file_cache \<Rightarrow> file_cache" where
  "drop_last c = c\<lparr>fc_bytes := fc_bytes c - cf_size (the (map_of (fc_entries c) (last (fc_lru c)))),
                   fc_entries := AList.delete (last (fc_lru c)) (fc_entries c), fc_lru := butlast (fc_lru c)\<rparr>"

lemma total_delete:
  assumes "distinct (map fst xs)" "map_of xs k = Some e"
  shows "total_size (AList.delete k xs) = total_size xs - cf_size e"
proof -
  have "total_size xs = cf_size e + total_size (AList.delete k xs)"
    using assms
  proof (induction xs)
    case (Cons x xs)
    show ?case
    proof (cases "fst x = k")
      case True
      then have "AList.delete k xs = xs" using Cons.prems(1) by simp
      with True Cons.prems(2) show ?thesis by (auto simp: total_size_def AList.delete_eq split_beta)
    next
      case False
      with Cons show ?thesis by (auto simp: total_size_def AList.delete_eq split_beta)
    qed
  qed simp
  then show ?thesis by simp
qed

lemma fc_inv_drop_last:
  assumes inv: "fc_inv c" and ne: "fc_lru c \<noteq> []"
  shows "fc_inv (drop_last c)" and "fc_abs (drop_last c) = butlast (fc_abs c)"
proof -
  obtain ks k where l: "fc_lru c = ks @ [k]" using ne by (metis rev_exhaust)
  have d: "distinct ks" "k \<notin> set ks" "distinct (map fst (fc_entries c))" "fst ` set (fc_entries c) = insert k (set ks)"
    "fc_bytes c = total_size (fc_entries c)" using inv by (auto simp: fc_inv_def l)
  obtain e where e: "map_of (fc_entries c) k = Some e" using fc_inv_dom [OF inv, of k] l by auto
  have "distinct (map fst (AList.delete k (fc_entries c)))" using d(3) by (rule distinct_delete)
  then show "fc_inv (drop_last c)"
    using d total_delete [OF d(3) e] e by (auto simp: fc_inv_def drop_last_def l keys_delete)
  have "map_of (AList.delete k (fc_entries c)) i = map_of (fc_entries c) i" if "i \<in> set ks" for i
    using that d(2) by (auto simp: delete_conv')
  then show "fc_abs (drop_last c) = butlast (fc_abs c)"
    by (simp add: fc_abs_def drop_last_def l)
qed

lemma evict_refines:
  assumes "fc_inv c"
  shows "fc_inv (evict c)" and "fc_abs (evict c) = keep_newest (fc_abs c)"
proof -
  have "fc_inv (evict c) \<and> fc_abs (evict c) = keep_newest (fc_abs c)"
    using assms
  proof (induction c rule: evict.induct)
    case (1 c)
    note len = fc_inv_length [OF 1(2)] and tot = fc_abs_total [OF 1(2)]
    have la: "length (fc_abs c) = length (fc_entries c)" using len by (simp add: fc_abs_def)
    show ?case
    proof (cases "length (fc_entries c) > 1 \<and> (length (fc_entries c) > max_entries \<or> fc_bytes c > max_bytes)")
      case True
      then have ne: "fc_lru c \<noteq> []" using len by auto
      then obtain e where e: "map_of (fc_entries c) (last (fc_lru c)) = Some e"
        using fc_inv_dom [OF 1(2), of "last (fc_lru c)"] by auto
      have step: "evict c = evict (drop_last c)" using True e by (subst evict.simps) (simp add: drop_last_def)
      note d = fc_inv_drop_last [OF 1(2) ne]
      have "fc_inv (evict (drop_last c)) \<and> fc_abs (evict (drop_last c)) = keep_newest (fc_abs (drop_last c))"
        using 1(1) [OF True e] d(1) e by (simp add: drop_last_def)
      moreover obtain x xs where x: "fc_abs c = x # xs" "xs \<noteq> []" using True la by (cases "fc_abs c"; cases "tl (fc_abs c)") auto
      have "keep_fitting 1 (cf_size (snd x)) (butlast xs) = keep_fitting 1 (cf_size (snd x)) xs"
        using True la tot x by (intro keep_butlast) (auto simp: total_size_def split_beta)
      then have "keep_newest (butlast (fc_abs c)) = keep_newest (fc_abs c)" using x by simp
      ultimately show ?thesis using step d(2) by simp
    next
      case False
      then have "evict c = c" by (subst evict.simps) auto
      moreover have "keep_newest (fc_abs c) = fc_abs c"
      proof (cases "fc_abs c")
        case (Cons x xs)
        with False la tot show ?thesis by (cases xs) (auto simp: total_size_def split_beta intro!: keep_all)
      qed simp
      ultimately show ?thesis using 1(2) by simp
    qed
  qed
  then show "fc_inv (evict c)" "fc_abs (evict c) = keep_newest (fc_abs c)" by simp_all
qed

section \<open>Lookup and insertion\<close>

lemma fc_lookup_refines:
  assumes "fc_inv c"
  shows "fc_inv (snd (fc_lookup key c))" and "fc_abs (snd (fc_lookup key c)) = lru_touch key (fc_abs c)"
    and "fst (fc_lookup key c) = map_of (fc_abs c) key"
proof -
  have d: "distinct (fc_lru c)" using assms by (simp add: fc_inv_def)
  have k: "key \<in> set (fc_lru c)" if "map_of (fc_entries c) key = Some e" for e
    using fc_inv_dom [OF assms, of key] that by simp
  show "fc_inv (snd (fc_lookup key c))"
    using assms k by (auto simp: fc_lookup_def fc_inv_def split: option.splits)
  show "fst (fc_lookup key c) = map_of (fc_abs c) key"
    by (simp add: fc_lookup_def fc_abs_lookup [OF assms] split: option.splits)
  show "fc_abs (snd (fc_lookup key c)) = lru_touch key (fc_abs c)"
  proof (cases "map_of (fc_entries c) key")
    case None
    then show ?thesis by (simp add: fc_lookup_def lru_touch_def fc_abs_lookup [OF assms])
  next
    case (Some e)
    then have "fc_abs (snd (fc_lookup key c)) = (key, e) # map (\<lambda>k. (k, the (map_of (fc_entries c) k))) (remove1 key (fc_lru c))"
      by (simp add: fc_lookup_def fc_abs_def)
    moreover have "remove1 key (fc_lru c) = filter (\<lambda>k. k \<noteq> key) (fc_lru c)"
      using d by (auto simp: distinct_remove1_removeAll removeAll_filter_not_eq intro: filter_cong)
    ultimately show ?thesis using Some by (simp add: lru_touch_def fc_abs_lookup [OF assms] fc_abs_others)
  qed
qed

lemma fc_insert_refines:
  assumes "fc_inv c"
  shows "fc_inv (fc_insert key e c)" and "fc_abs (fc_insert key e c) = lru_insert key e (fc_abs c)"
proof -
  have d: "distinct (fc_lru c)" "distinct (map fst (fc_entries c))" "set (fc_lru c) = fst ` set (fc_entries c)"
    "fc_bytes c = total_size (fc_entries c)" using assms by (simp_all add: fc_inv_def)
  define c1 where "c1 = (case map_of (fc_entries c) key of
       None \<Rightarrow> c
     | Some old \<Rightarrow> c\<lparr>fc_bytes := fc_bytes c - cf_size old, fc_lru := remove1 key (fc_lru c),
                      fc_entries := AList.delete key (fc_entries c)\<rparr>)"
  have "fc_inv c1 \<and> key \<notin> set (fc_lru c1) \<and> fc_lru c1 = filter (\<lambda>k. k \<noteq> key) (fc_lru c) \<and>
      (\<forall>k. k \<noteq> key \<longrightarrow> map_of (fc_entries c1) k = map_of (fc_entries c) k)"
  proof (cases "map_of (fc_entries c) key")
    case None
    then have "key \<notin> set (fc_lru c)" using fc_inv_dom [OF assms] by simp
    then have "filter (\<lambda>k. k \<noteq> key) (fc_lru c) = fc_lru c" by (simp add: filter_id_conv) blast
    with None assms \<open>key \<notin> set (fc_lru c)\<close> show ?thesis by (simp add: c1_def)
  next
    case (Some old)
    have "distinct (map fst (AList.delete key (fc_entries c)))" using d(2) by (rule distinct_delete)
    moreover have "remove1 key (fc_lru c) = filter (\<lambda>k. k \<noteq> key) (fc_lru c)"
      using d(1) by (auto simp: distinct_remove1_removeAll removeAll_filter_not_eq intro: filter_cong)
    ultimately show ?thesis
      using Some d total_delete [OF d(2) Some] by (auto simp: c1_def fc_inv_def keys_delete delete_conv')
  qed
  then have c1: "fc_inv c1" "key \<notin> set (fc_lru c1)" "fc_lru c1 = filter (\<lambda>k. k \<noteq> key) (fc_lru c)"
    "\<And>k. k \<noteq> key \<Longrightarrow> map_of (fc_entries c1) k = map_of (fc_entries c) k" by auto
  define c2 where "c2 = c1\<lparr>fc_bytes := fc_bytes c1 + cf_size e, fc_lru := key # fc_lru c1, fc_entries := (key, e) # fc_entries c1\<rparr>"
  have e: "fc_insert key e c = evict c2" by (simp add: fc_insert_def c1_def c2_def Let_def)
  have "fc_inv c2" using c1(1,2) by (auto simp: c2_def fc_inv_def total_size_def)
  moreover have "fc_abs c2 = (key, e) # others key (fc_abs c)"
    using c1(2-4) by (auto simp: c2_def fc_abs_others) (auto simp: fc_abs_def)
  ultimately show "fc_inv (fc_insert key e c)" "fc_abs (fc_insert key e c) = lru_insert key e (fc_abs c)"
    using evict_refines [of c2] by (simp_all add: e lru_insert_def)
qed

lemma fc_get_refines:
  assumes "fc_inv c"
  shows "fc_inv (snd (fc_get os request pre root c))"
    and "lru_get os request pre root (fc_abs c) =
         (fst (fc_get os request pre root c), fc_abs (snd (fc_get os request pre root c)))"
proof -
  obtain hit c1 where l: "fc_lookup request c = (hit, c1)" by fastforce
  have r: "fc_inv c1" "fc_abs c1 = lru_touch request (fc_abs c)" "hit = map_of (fc_abs c) request"
    using fc_lookup_refines [OF assms, of request] by (simp_all add: l)
  note i = fc_insert_refines [OF r(1), of request]
  show "fc_inv (snd (fc_get os request pre root c))"
    using r(1) i(1) by (auto simp: fc_get_def l Let_def split: option.splits sum.splits)
  show "lru_get os request pre root (fc_abs c) =
      (fst (fc_get os request pre root c), fc_abs (snd (fc_get os request pre root c)))"
    unfolding fc_get_def lru_get_def l prod.case Let_def r(3) [symmetric]
    using r(2) i(2) by (auto split: option.splits sum.splits)
qed

section \<open>Requests, one after the other\<close>

fun replies :: "('op \<Rightarrow> 's \<Rightarrow> 'r \<times> 's) \<Rightarrow> 's \<Rightarrow> 'op list \<Rightarrow> 'r list \<times> 's" where
  "replies exec s [] = ([], s)"
| "replies exec s (x # xs) =
     (let (r, s1) = exec x s; (rs, s2) = replies exec s1 xs in (r # rs, s2))"

text \<open>A concrete state that answers every operation the way an abstract one does.\<close>

locale data_refinement =
  fixes cexec :: "'op \<Rightarrow> 'c \<Rightarrow> 'r \<times> 'c"
    and aexec :: "'op \<Rightarrow> 'a \<Rightarrow> 'r \<times> 'a"
    and abs :: "'c \<Rightarrow> 'a"
    and inv :: "'c \<Rightarrow> bool"
  assumes step_inv: "inv c \<Longrightarrow> inv (snd (cexec x c))"
    and step_abs: "inv c \<Longrightarrow> aexec x (abs c) = (fst (cexec x c), abs (snd (cexec x c)))"
begin

lemma replies_refine:
  "inv c \<Longrightarrow> inv (snd (replies cexec c xs)) \<and>
     replies aexec (abs c) xs = (fst (replies cexec c xs), abs (snd (replies cexec c xs)))"
proof (induction xs arbitrary: c)
  case (Cons x xs)
  from Cons.IH [OF step_inv [OF Cons.prems, of x]] step_abs [OF Cons.prems, of x] show ?case
    by (auto simp: Let_def split_beta)
qed simp

end

record request =
  rq_os :: os
  rq_path :: string
  rq_prefix :: string
  rq_root :: path

definition request_file :: "request \<Rightarrow> file_cache \<Rightarrow> (errno + cached_file) \<times> file_cache" where
  "request_file x c = fc_get (rq_os x) (rq_path x) (rq_prefix x) (rq_root x) c"

definition lru_request :: "request \<Rightarrow> lru \<Rightarrow> (errno + cached_file) \<times> lru" where
  "lru_request x xs = lru_get (rq_os x) (rq_path x) (rq_prefix x) (rq_root x) xs"

interpretation fc: data_refinement request_file lru_request fc_abs fc_inv
  by unfold_locales (simp_all add: request_file_def lru_request_def fc_get_refines)

definition fc_empty :: file_cache where
  "fc_empty = \<lparr>fc_entries = [], fc_lru = [], fc_bytes = 0\<rparr>"

lemma fc_empty_simps [simp]: "fc_inv fc_empty" "fc_abs fc_empty = []"
  by (simp_all add: fc_empty_def fc_inv_def fc_abs_def total_size_def)

text \<open>What an operation of the list keeps, all requests keep.\<close>

lemma replies_keep:
  assumes "\<And>x s. x \<in> set xs \<Longrightarrow> P s \<Longrightarrow> P (snd (exec x s)) \<and> Q (fst (exec x s))" "P s"
  shows "P (snd (replies exec s xs)) \<and> list_all Q (fst (replies exec s xs))"
  using assms
proof (induction xs arbitrary: s)
  case (Cons x xs)
  from Cons.prems(1) [of x s] Cons.prems(2) Cons.IH [of "snd (exec x s)"] Cons.prems(1) show ?case
    by (auto simp: Let_def split_beta)
qed simp

definition lru_bounded :: "lru \<Rightarrow> bool" where
  "lru_bounded xs = (length xs \<le> max_entries \<and> (total_size xs \<le> max_bytes \<or> length xs \<le> 1) \<and> distinct (map fst xs))"

lemma keep_fitting_prefix: "prefix (keep_fitting n b xs) xs"
  by (induction n b xs rule: keep_fitting.induct) auto

lemma keep_newest_prefix: "prefix (keep_newest xs) xs"
  by (cases xs) (auto simp: keep_fitting_prefix)

lemma lru_touch_mset:
  assumes "distinct (map fst xs)"
  shows "mset (lru_touch key xs) = mset xs"
proof (cases "map_of xs key")
  case (Some e)
  have "mset ((key, e) # others key xs) = mset xs" using assms Some
  proof (induction xs)
    case (Cons x xs)
    show ?case
    proof (cases "fst x = key")
      case True
      then have "others key xs = xs" using Cons.prems(1) unfolding others_def by (intro filter_True) (auto simp: image_iff)
      with True Cons.prems(2) show ?thesis by (auto simp: others_def)
    next
      case False
      with Cons show ?thesis by (auto simp: others_def add_mset_commute)
    qed
  qed simp
  with Some show ?thesis by (simp add: lru_touch_def)
qed (simp add: lru_touch_def)

lemma lru_touch_bounded:
  assumes "lru_bounded xs"
  shows "lru_bounded (lru_touch key xs)"
proof -
  have d: "distinct (map fst xs)" using assms by (simp add: lru_bounded_def)
  note m = lru_touch_mset [OF d, of key]
  have "length (lru_touch key xs) = length xs" using m by (metis size_mset)
  moreover have "total_size (lru_touch key xs) = total_size xs"
    by (simp add: total_size_mset m)
  moreover have "mset (map fst (lru_touch key xs)) = mset (map fst xs)" using m by (metis mset_map)
  from mset_eq_imp_distinct_iff [OF this] have "distinct (map fst (lru_touch key xs))" using d by blast
  ultimately show ?thesis using assms by (simp add: lru_bounded_def)
qed

lemma lru_insert_bounded:
  assumes "distinct (map fst xs)"
  shows "lru_bounded (lru_insert key e xs)"
proof -
  let ?l = "(key, e) # others key xs"
  have "distinct (map fst (others key xs))" using assms by (simp add: others_def distinct_map_filter)
  then have "distinct (map fst ?l)" by (auto simp: others_def)
  moreover have "prefix (map fst (keep_newest ?l)) (map fst ?l)" by (rule map_mono_prefix [OF keep_newest_prefix])
  ultimately have "distinct (map fst (keep_newest ?l))" by (metis distinct_append prefix_def)
  with keep_newest_bounds [of ?l] show ?thesis by (simp add: lru_bounded_def lru_insert_def)
qed

lemma lru_get_bounded: "lru_bounded xs \<Longrightarrow> lru_bounded (snd (lru_get os request pre root xs))"
  using lru_touch_bounded [of xs request] lru_insert_bounded [of "lru_touch request xs" request]
  by (auto simp: lru_get_def Let_def lru_bounded_def split: option.splits sum.splits)

section \<open>Nothing from outside the root\<close>

lemma lexically_relative_below:
  "lexically_relative xs ys \<noteq> [] \<Longrightarrow> hd (lexically_relative xs ys) \<noteq> ''..'' \<Longrightarrow> prefix ys xs"
proof (induction xs arbitrary: ys)
  case Nil
  then show ?case by (cases ys) auto
next
  case (Cons x xs)
  then show ?case by (cases ys) (auto split: if_splits)
qed

lemma resolve_below:
  "resolve os request pre root = Inr file \<Longrightarrow> weakly_canonical os root = Inr base \<Longrightarrow> prefix base file"
  by (auto simp: resolve_def Let_def lexically_relative_below split: if_splits sum.splits)

definition below :: "path \<Rightarrow> lru \<Rightarrow> bool" where
  "below base xs = (\<forall>x \<in> set xs. prefix base (cf_resolved (snd x)))"

lemma below_touch: "below base xs \<Longrightarrow> below base (lru_touch key xs)"
  by (force simp: below_def lru_touch_def others_def dest: map_of_SomeD split: option.splits)

lemma below_insert:
  assumes "below base xs" "prefix base (cf_resolved e)"
  shows "below base (lru_insert key e xs)"
proof -
  have "set (lru_insert key e xs) \<subseteq> set ((key, e) # others key xs)"
    unfolding lru_insert_def by (rule set_mono_prefix [OF keep_newest_prefix])
  with assms show ?thesis by (auto simp: below_def others_def)
qed

lemma lru_get_below:
  assumes "below base xs" "weakly_canonical os root = Inr base"
  shows "below base (snd (lru_get os request pre root xs))"
    and "fst (lru_get os request pre root xs) = Inr e \<Longrightarrow> prefix base (cf_resolved e)"
proof -
  show "below base (snd (lru_get os request pre root xs))"
    using below_touch [OF assms(1)] below_insert resolve_below [OF _ assms(2)]
    by (auto simp: lru_get_def Let_def split: option.splits sum.splits)
  show "prefix base (cf_resolved e)" if "fst (lru_get os request pre root xs) = Inr e"
    using that assms(1) resolve_below [OF _ assms(2)]
    by (auto simp: lru_get_def Let_def below_def dest!: map_of_SomeD split: option.splits sum.splits if_splits)
qed

section \<open>Properties\<close>

text \<open>C29: For every sequence of requests, with whatever becomes of the files in between, the file cache gives
  the answers of a plain list of entries ordered by last use, of which the newest that fit are kept.\<close>

theorem file_cache_is_lru_list:
  "replies lru_request [] xs = (fst (replies request_file fc_empty xs), fc_abs (snd (replies request_file fc_empty xs)))"
  using fc.replies_refine [OF fc_empty_simps(1), of xs] by simp

text \<open>C30: The file cache is bounded, whatever is asked for: it never has more than \<open>max_entries\<close> entries, nor, unless
  it is down to a single one, more than \<open>max_bytes\<close> of them; its sum of sizes is right, and its table
  and its order of use are about the same files.\<close>

theorem file_cache_bounded:
  assumes "c = snd (replies request_file fc_empty xs)"
  shows "length (fc_entries c) \<le> max_entries \<and> (fc_bytes c \<le> max_bytes \<or> length (fc_entries c) \<le> 1) \<and>
         fc_bytes c = sum_list (map (\<lambda>(k, e). cf_size e) (fc_entries c)) \<and>
         distinct (fc_lru c) \<and> set (fc_lru c) = fst ` set (fc_entries c)"
proof -
  have r: "fc_inv c" "snd (replies lru_request [] xs) = fc_abs c"
    using fc.replies_refine [OF fc_empty_simps(1), of xs] assms by simp_all
  have "lru_bounded (snd (replies lru_request [] xs))"
    using replies_keep [of xs lru_bounded lru_request "\<lambda>_. True" "[]"]
    by (simp add: lru_request_def lru_get_bounded) (simp add: lru_bounded_def total_size_def)
  then have "lru_bounded (fc_abs c)" using r(2) by simp
  with r(1) fc_inv_length [OF r(1)] fc_abs_total [OF r(1)] show ?thesis
    by (auto simp: lru_bounded_def fc_inv_def total_size_def fc_abs_def)
qed

text \<open>A file system with one file of three bytes below \<open>/www\<close>.\<close>

definition www :: os where
  "www = \<lparr>weakly_canonical = (\<lambda>p. Inr (if last p = ''..'' then butlast (butlast p) else p)),
     os_stat = (\<lambda>p. Inr \<lparr>st_kind = Regular_file, st_id = \<lparr>id_dev = 1, id_ino = 2, id_size = 3, id_mtime_sec = 4, id_mtime_nsec = 5\<rparr>\<rparr>),
     os_open = (\<lambda>p. Inr \<lparr>st_kind = Regular_file, st_id = \<lparr>id_dev = 1, id_ino = 2, id_size = 3, id_mtime_sec = 4, id_mtime_nsec = 5\<rparr>\<rparr>),
     os_mmap = (\<lambda>p. Inr [7, 8, 9])\<rparr>"

definition www_request :: "string \<Rightarrow> path \<Rightarrow> request" where
  "www_request p root = \<lparr>rq_os = www, rq_path = p, rq_prefix = ''/f'', rq_root = root\<rparr>"

lemmas file_cache_eval =
  www_request_def request_file_def fc_get_def fc_lookup_def fc_insert_def fc_empty_def evict.simps
  resolve_def map_file_def www_def Let_def max_entries_def max_bytes_def

theorem file_cache_bounded_witness:
  "\<exists>c. c = snd (replies request_file fc_empty [www_request ''/f/a'' [''/'', ''www''], www_request ''/f/b'' [''/'', ''www'']]) \<and>
     fc_bytes c = 6 \<and> length (fc_entries c) \<le> max_entries"
proof -
  let ?xs = "[www_request ''/f/a'' [''/'', ''www''], www_request ''/f/b'' [''/'', ''www'']]"
  have "fc_bytes (snd (replies request_file fc_empty ?xs)) = 6" by (simp add: file_cache_eval)
  with file_cache_bounded [OF refl, of ?xs] show ?thesis by (intro exI [of _ "snd (replies request_file fc_empty ?xs)"]) simp
qed



text \<open>The cache does not know of roots: once a file was served for a path, the same path is answered with
  the same file also when it is asked for below another root or another prefix, where it may not
  exist, as long as the file stays as it is.\<close>

theorem file_cache_ignores_root:
  assumes "fc_inv c" "fc_get os request pre root c = (Inr e, c1)"
    and "os_stat os2 (cf_resolved e) = Inr st" "st_id st = mf_id (cf_file e)"
  shows "fst (fc_get os2 request pre2 root2 c1) = Inr e"
proof -
  note r = fc_get_refines [OF assms(1), of os request pre root, unfolded assms(2) fst_conv snd_conv]
  have "map_of (fc_abs c1) request = Some e"
  proof -
    let ?xs = "fc_abs c"
    have "lru_get os request pre root ?xs = (Inr e, fc_abs c1)" using r(2) by simp
    then have "\<exists>ys. (request, e) # ys = fc_abs c1"
      by (auto simp: lru_get_def Let_def lru_insert_def lru_touch_def split: option.splits sum.splits if_splits)
    then show ?thesis by (metis map_of_Cons_code(2))
  qed
  then have "fst (lru_get os2 request pre2 root2 (fc_abs c1)) = Inr e"
    using assms(3,4) by (simp add: lru_get_def Let_def)
  with fc_get_refines(2) [OF r(1), of os2 request pre2 root2] show ?thesis by simp
qed

theorem file_cache_ignores_root_witness:
  "\<exists>e c. fc_get www ''/f/a'' ''/f'' [''/'', ''www''] fc_empty = (Inr e, c) \<and> cf_resolved e = [''/'', ''www'', ''a''] \<and>
     fst (fc_get www ''/f/a'' ''/f'' [''/'', ''other''] c) = Inr e"
proof -
  let ?r = "fc_get www ''/f/a'' ''/f'' [''/'', ''www''] fc_empty"
  have "\<exists>e c st. ?r = (Inr e, c) \<and> cf_resolved e = [''/'', ''www'', ''a''] \<and>
    os_stat www (cf_resolved e) = Inr st \<and> st_id st = mf_id (cf_file e)"
    by (simp add: file_cache_eval)
  then obtain e c st where e: "?r = (Inr e, c)" "cf_resolved e = [''/'', ''www'', ''a'']"
    "os_stat www (cf_resolved e) = Inr st" "st_id st = mf_id (cf_file e)" by blast
  from file_cache_ignores_root [OF fc_empty_simps(1) e(1,3,4), of "''/f''" "[''/'', ''other'']"] e show ?thesis by blast
qed

end
