(* ===== verification/Detect.thy ===== *)
theory Detect
  imports Prelude
begin

text \<open>
  Telling what a client speaks, \<^verbatim>\<open>include/anyhttp/detail/detect.hpp\<close>: from the first byte for TLS, and
  from up to 24 bytes for the client preface of HTTP/2, read piece by piece into the buffer that the
  session starts with. The socket is not part of this program: what peeking and reading give, one entry
  for each read, is an argument. When the entries are used up, the client has not sent more yet.
\<close>

text \<open>Yes, no, or (\<open>None\<close>) not enough of the buffers yet to tell.\<close>

fun buffer_sequence_starts_with :: "bytes list \<Rightarrow> bytes \<Rightarrow> nat \<Rightarrow> bool option" where
  "buffer_sequence_starts_with [] pre matched = (if matched = length pre then Some True else None)"
| "buffer_sequence_starts_with (b # bs) pre matched =
     (if matched < length pre
      then if b = [] then buffer_sequence_starts_with bs pre matched
           else let to_compare = min (length b) (length pre - matched)
                in if take to_compare b \<noteq> take to_compare (drop matched pre) then Some False
                   else buffer_sequence_starts_with bs pre (matched + to_compare)
      else if matched = length pre then Some True else None)"

datatype detected = Tls | H2c | H1

definition client_preface :: bytes where
  "client_preface =
     map (\<lambda>c. of_nat (of_char c)) (''PRI * HTTP/2.0'' @ [CHR 0x0D, CHR 0x0A, CHR 0x0D, CHR 0x0A] @
       ''SM'' @ [CHR 0x0D, CHR 0x0A, CHR 0x0D, CHR 0x0A])"

text \<open>The loop: the answer, if there is one yet, what is in the buffer, and the reads not made.\<close>

fun detect_loop :: "(error_code + bytes) list \<Rightarrow> bytes \<Rightarrow>
    (error_code \<times> detected) option \<times> bytes \<times> (error_code + bytes) list" where
  "detect_loop reads buffer =
     (case buffer_sequence_starts_with [buffer] client_preface 0 of
        Some preface \<Rightarrow> (Some (Success, if preface then H2c else H1), buffer, reads)
      | None \<Rightarrow>
          (case reads of
             [] \<Rightarrow> (None, buffer, [])
           | Inl ec # reads' \<Rightarrow> (Some (ec, H1), buffer, reads')
           | Inr data # reads' \<Rightarrow> detect_loop reads' (buffer @ data)))"

declare detect_loop.simps [simp del]

definition detect :: "error_code + bytes \<Rightarrow> (error_code + bytes) list \<Rightarrow> bytes \<Rightarrow>
    (error_code \<times> detected) option \<times> bytes \<times> (error_code + bytes) list" where
  "detect peeked reads buffer =
     (case peeked of
        Inl ec \<Rightarrow> (Some (ec, H1), buffer, reads)
      | Inr first \<Rightarrow>
          if length first = 1 \<and> first ! 0 = 0x16 then (Some (Success, Tls), buffer, reads)
          else detect_loop reads buffer)"

section \<open>Lemmas\<close>

lemma prefix_take: "prefix xs ys \<Longrightarrow> n \<le> length xs \<Longrightarrow> take n xs = take n ys"
  by (auto simp: prefix_def)

lemma prefix_split:
  assumes "n \<le> length b" "n \<le> length p"
  shows "take n b = take n p \<Longrightarrow> prefix (drop n p) (drop n b @ bs) = prefix p (b @ bs)"
    and "take n b = take n p \<Longrightarrow> prefix (drop n b @ bs) (drop n p) = prefix (b @ bs) p"
    and "take n b \<noteq> take n p \<Longrightarrow> \<not> prefix p (b @ bs) \<and> \<not> prefix (b @ bs) p"
proof -
  show "prefix (drop n p) (drop n b @ bs) = prefix p (b @ bs)" if "take n b = take n p"
    by (metis append.assoc append_take_drop_id same_prefix_prefix that)
  show "prefix (drop n b @ bs) (drop n p) = prefix (b @ bs) p" if "take n b = take n p"
    by (metis append.assoc append_take_drop_id same_prefix_prefix that)
  show "\<not> prefix p (b @ bs) \<and> \<not> prefix (b @ bs) p" if "take n b \<noteq> take n p"
    using that assms prefix_take [of p "b @ bs" n] prefix_take [of "b @ bs" p n] by auto
qed

lemma starts_with_prefix:
  "matched \<le> length pre \<Longrightarrow>
   buffer_sequence_starts_with bs pre matched =
     (if prefix (drop matched pre) (concat bs) then Some True
      else if prefix (concat bs) (drop matched pre) then None else Some False)"
proof (induction bs pre matched rule: buffer_sequence_starts_with.induct)
  case (2 b bs pre matched)
  show ?case
  proof (cases "matched < length pre \<and> b \<noteq> []")
    case True
    let ?n = "min (length b) (length pre - matched)"
    note p = prefix_split [of ?n b "drop matched pre" "concat bs"]
    show ?thesis
    proof (cases "take ?n b = take ?n (drop matched pre)")
      case same: True
      have step: "buffer_sequence_starts_with (b # bs) pre matched = buffer_sequence_starts_with bs pre (matched + ?n)"
        using True same by simp
      have "\<not> b = []" "matched < length pre" "\<not> take ?n b \<noteq> take ?n (drop matched pre)" using True same by auto
      moreover have "matched + ?n \<le> length pre" using True by linarith
      ultimately have IH: "buffer_sequence_starts_with bs pre (matched + ?n) =
        (if prefix (drop (matched + ?n) pre) (concat bs) then Some True
         else if prefix (concat bs) (drop (matched + ?n) pre) then None else Some False)"
        using 2(2) by blast
      show ?thesis
      proof (cases "drop ?n b = []")
        case True
        then show ?thesis using p(1,2) [OF _ _ same] unfolding step IH
          by (simp add: add.commute del: buffer_sequence_starts_with.simps)
      next
        case False
        then have "drop ?n (drop matched pre) = []" by (auto simp: min_def)
        then show ?thesis using p(1) [OF _ _ same] unfolding step IH
          by (simp add: add.commute del: buffer_sequence_starts_with.simps)
      qed
    next
      case False
      then show ?thesis using True p(3) by (simp add: Let_def)
    qed
  qed (use 2 in \<open>auto\<close>)
qed auto

declare buffer_sequence_starts_with.simps [simp del]

definition detect_answer :: "bytes \<Rightarrow> (error_code \<times> detected) option" where
  "detect_answer stream =
     (if prefix client_preface stream then Some (Success, H2c)
      else if prefix stream client_preface then None else Some (Success, H1))"

lemma detect_answer_extend: "detect_answer stream = Some a \<Longrightarrow> detect_answer (stream @ more) = Some a"
  using prefix_order.trans [of stream "stream @ more" client_preface] prefix_same_cases [of client_preface "stream @ more" stream]
  by (auto simp: detect_answer_def split: if_splits)

lemma detect_loop_unfold:
  "detect_loop (map Inr chunks) buffer =
     (case detect_answer buffer of
        Some a \<Rightarrow> (Some a, buffer, map Inr chunks)
      | None \<Rightarrow> (case chunks of [] \<Rightarrow> (None, buffer, []) | c # cs \<Rightarrow> detect_loop (map Inr cs) (buffer @ c)))"
  using starts_with_prefix [of 0 client_preface "[buffer]"]
  by (subst detect_loop.simps) (cases chunks, simp_all add: detect_answer_def)

lemma detect_loop_bytes:
  "fst (detect_loop (map Inr chunks) buffer) = detect_answer (buffer @ concat chunks) \<and>
   (\<exists>chunks'. snd (snd (detect_loop (map Inr chunks) buffer)) = map Inr chunks' \<and>
              fst (snd (detect_loop (map Inr chunks) buffer)) @ concat chunks' = buffer @ concat chunks)"
proof (induction chunks arbitrary: buffer)
  case Nil
  show ?case by (subst (1 2 3) detect_loop_unfold) (auto split: option.splits)
next
  case (Cons c cs)
  show ?case
  proof (cases "detect_answer buffer")
    case None
    then have "detect_loop (map Inr (c # cs)) buffer = detect_loop (map Inr cs) (buffer @ c)"
      by (subst detect_loop_unfold) simp
    with Cons.IH [of "buffer @ c"] show ?thesis by simp
  next
    case (Some a)
    then have "detect_loop (map Inr (c # cs)) buffer = (Some a, buffer, map Inr (c # cs))"
      by (subst detect_loop_unfold) simp
    with detect_answer_extend [OF Some] show ?thesis by (auto intro: exI [of _ "c # cs"])
  qed
qed

text \<open>C31: What a client speaks does not depend on how its bytes arrive: in whatever pieces they are read, the
  answer is TLS if the first byte is that of a handshake record, HTTP/2 if all of them start with the
  client preface, HTTP/1.1 as soon as they differ from it, and waiting for more otherwise; and the buffer
  that is handed to the session, followed by what was not read yet, is what the client sent.\<close>

theorem detect_independent_of_pieces:
  "fst (detect (Inr first) (map Inr chunks) []) =
     (if first = [0x16] then Some (Success, Tls)
      else if prefix client_preface (concat chunks) then Some (Success, H2c)
      else if prefix (concat chunks) client_preface then None
      else Some (Success, H1)) \<and>
   (\<exists>chunks'. snd (snd (detect (Inr first) (map Inr chunks) [])) = map Inr chunks' \<and>
              fst (snd (detect (Inr first) (map Inr chunks) [])) @ concat chunks' = concat chunks)"
proof -
  have "length first = 1 \<and> first ! 0 = 0x16 \<longleftrightarrow> first = [0x16]"
    by (cases first) auto
  then show ?thesis using detect_loop_bytes [of chunks "[]"] by (auto simp: detect_def detect_answer_def)
qed

end
