(* ===== verification/Server.thy ===== *)
theory Server
  imports Detect Stream_Table
begin

text \<open>
  The TCP side of the server, \<^verbatim>\<open>src/server_impl.cpp\<close>: the loop that accepts connections and waits for them
  at the end, what becomes of one connection, the registry of sessions, and \<open>destroy()\<close>.

  Every connection runs on an executor of its own, so that its steps and those of the accept loop are
  interleaved arbitrarily; what happens under \<open>session_mutex_\<close> is one step. The sessions themselves are the
  subject of other theories: here a session is made, is told to destroy itself, and ends.
\<close>

section \<open>State\<close>

datatype protocol = Http1 | Http2

text \<open>Where \<open>handle_connection()\<close> is: in \<open>detect()\<close>, in the TLS handshake, before \<open>add_session()\<close>, in
  \<open>do_session()\<close>, before \<open>remove_session()\<close>, or at its end, with the completion handler still to run.\<close>

datatype phase = Detecting | Handshaking | Made protocol | Serving | Ended | Leaving

record conn =
  cn_phase :: phase
  cn_told :: bool

text \<open>Where \<open>tcp_accept_loop()\<close> is: waiting for a connection, about to look at the counter, past that and about
  to wait for \<open>sessionDone\<close>, waiting, or at its end.\<close>

datatype loop = Accepting | Checking | Going_to_wait | Blocked | Returned

record server =
  sv_acceptor_open :: bool
  sv_destroyed :: bool
  sv_sessions :: "nat list"
  sv_conns :: "(nat \<times> conn) list"
  sv_counter :: nat
  sv_signal :: bool
  sv_loop :: loop

definition server_started :: server where
  "server_started =
     \<lparr>sv_acceptor_open = True, sv_destroyed = False, sv_sessions = [], sv_conns = [], sv_counter = 0,
      sv_signal = False, sv_loop = Accepting\<rparr>"

section \<open>The registry of sessions\<close>

definition add_session :: "nat \<Rightarrow> server \<Rightarrow> bool \<times> server" where
  "add_session i s =
     (if sv_destroyed s then (False, s) else (True, s\<lparr>sv_sessions := List.insert i (sv_sessions s)\<rparr>))"

definition remove_session :: "nat \<Rightarrow> server \<Rightarrow> server" where
  "remove_session i s = s\<lparr>sv_sessions := removeAll i (sv_sessions s)\<rparr>"

definition destroy_on_its_executor :: "nat list \<Rightarrow> server \<Rightarrow> server" where
  "destroy_on_its_executor is s =
     s\<lparr>sv_conns := map (\<lambda>(i, c). (i, if i \<in> set is then c\<lparr>cn_told := True\<rparr> else c)) (sv_conns s)\<rparr>"

definition destroy :: "server \<Rightarrow> server" where
  "destroy s = destroy_on_its_executor (sv_sessions s) (s\<lparr>sv_acceptor_open := False, sv_destroyed := True\<rparr>)"

section \<open>One connection\<close>

definition set_conn :: "nat \<Rightarrow> conn \<Rightarrow> server \<Rightarrow> server" where
  "set_conn i c s = s\<lparr>sv_conns := AList.update i c (sv_conns s)\<rparr>"

definition on_detected :: "nat \<Rightarrow> conn \<Rightarrow> error_code \<times> detected \<Rightarrow> server \<Rightarrow> server" where
  "on_detected i c r =
     set_conn i (c\<lparr>cn_phase := (if fst r \<noteq> Success then Leaving
                                else case snd r of Tls \<Rightarrow> Handshaking | H2c \<Rightarrow> Made Http2 | H1 \<Rightarrow> Made Http1)\<rparr>)"

definition on_handshake :: "nat \<Rightarrow> conn \<Rightarrow> error_code \<Rightarrow> string \<Rightarrow> server \<Rightarrow> server" where
  "on_handshake i c ec alpn =
     set_conn i (c\<lparr>cn_phase := (if ec \<noteq> Success then Leaving else Made (if alpn = ''h2'' then Http2 else Http1))\<rparr>)"

definition register_session :: "nat \<Rightarrow> conn \<Rightarrow> server \<Rightarrow> server" where
  "register_session i c s =
     (case add_session i s of
        (True, s) \<Rightarrow> set_conn i (c\<lparr>cn_phase := Serving\<rparr>) s
      | (False, s) \<Rightarrow> set_conn i (c\<lparr>cn_phase := Leaving, cn_told := True\<rparr>) s)"

definition session_done :: "nat \<Rightarrow> conn \<Rightarrow> server \<Rightarrow> server" where
  "session_done i c = set_conn i (c\<lparr>cn_phase := Ended\<rparr>)"

definition session_removed :: "nat \<Rightarrow> conn \<Rightarrow> server \<Rightarrow> server" where
  "session_removed i c s = set_conn i (c\<lparr>cn_phase := Leaving\<rparr>) (remove_session i s)"

section \<open>The accept loop\<close>

definition on_accepted :: "nat \<Rightarrow> server \<Rightarrow> server" where
  "on_accepted i s =
     set_conn i \<lparr>cn_phase = Detecting, cn_told = False\<rparr> (s\<lparr>sv_counter := sv_counter s + 1\<rparr>)"

definition on_accept_failed :: "server \<Rightarrow> server" where
  "on_accept_failed s = s\<lparr>sv_loop := Checking\<rparr>"

text \<open>A \<open>Signal\<close> is a channel that holds one wake-up: \<open>notify\<close> resumes the one that waits, or is remembered
  once.\<close>

definition notify :: "server \<Rightarrow> server" where
  "notify s = (if sv_loop s = Blocked then s\<lparr>sv_loop := Checking\<rparr> else s\<lparr>sv_signal := True\<rparr>)"

definition wait_signal :: "server \<Rightarrow> server" where
  "wait_signal s =
     (if sv_signal s then s\<lparr>sv_signal := False, sv_loop := Checking\<rparr> else s\<lparr>sv_loop := Blocked\<rparr>)"

text \<open>The completion handler of a connection.\<close>

definition on_connection_done :: "nat \<Rightarrow> server \<Rightarrow> server" where
  "on_connection_done i s =
     notify (s\<lparr>sv_counter := sv_counter s - 1, sv_conns := AList.delete i (sv_conns s)\<rparr>)"

text \<open>One round of the loop that waits for the sessions, up to where it unlocks.\<close>

definition sweep :: "server \<Rightarrow> server" where
  "sweep s =
     (if sv_counter s = 0 then s\<lparr>sv_loop := Returned\<rparr>
      else (destroy_on_its_executor (sv_sessions s) s)\<lparr>sv_sessions := [], sv_loop := Going_to_wait\<rparr>)"

section \<open>Steps\<close>

text \<open>Who makes a step: the accept loop or a connection on its own (a session that was told to destroy itself
  ends on its own), the client at the other end of a connection, the acceptor failing for a reason of the
  operating system, or the owner of the server.\<close>

datatype actor = Loop | Conn nat | Client nat | System | Owner

inductive sv_step :: "actor \<Rightarrow> server \<Rightarrow> server \<Rightarrow> bool" where
  accept: "sv_loop s = Accepting \<Longrightarrow> sv_acceptor_open s \<Longrightarrow> map_of (sv_conns s) i = None \<Longrightarrow>
     sv_step (Client i) s (on_accepted i s)"
| accept_error: "sv_loop s = Accepting \<Longrightarrow> sv_acceptor_open s \<Longrightarrow> sv_step System s (on_accept_failed s)"
| accept_closed: "sv_loop s = Accepting \<Longrightarrow> \<not> sv_acceptor_open s \<Longrightarrow> sv_step Loop s (on_accept_failed s)"
| detected: "map_of (sv_conns s) i = Some c \<Longrightarrow> cn_phase c = Detecting \<Longrightarrow>
     sv_step (Client i) s (on_detected i c r s)"
| handshake: "map_of (sv_conns s) i = Some c \<Longrightarrow> cn_phase c = Handshaking \<Longrightarrow>
     sv_step (Client i) s (on_handshake i c ec alpn s)"
| register: "map_of (sv_conns s) i = Some c \<Longrightarrow> cn_phase c = Made p \<Longrightarrow>
     sv_step (Conn i) s (register_session i c s)"
| ended: "map_of (sv_conns s) i = Some c \<Longrightarrow> cn_phase c = Serving \<Longrightarrow>
     sv_step (Client i) s (session_done i c s)"
| ended_told: "map_of (sv_conns s) i = Some c \<Longrightarrow> cn_phase c = Serving \<Longrightarrow> cn_told c \<Longrightarrow>
     sv_step (Conn i) s (session_done i c s)"
| removed: "map_of (sv_conns s) i = Some c \<Longrightarrow> cn_phase c = Ended \<Longrightarrow>
     sv_step (Conn i) s (session_removed i c s)"
| completed: "map_of (sv_conns s) i = Some c \<Longrightarrow> cn_phase c = Leaving \<Longrightarrow>
     sv_step (Conn i) s (on_connection_done i s)"
| check: "sv_loop s = Checking \<Longrightarrow> sv_step Loop s (sweep s)"
| wait: "sv_loop s = Going_to_wait \<Longrightarrow> sv_step Loop s (wait_signal s)"
| destroyed: "sv_step Owner s (destroy s)"

inductive sv_run :: "actor list \<Rightarrow> server \<Rightarrow> server \<Rightarrow> bool" where
  nil: "sv_run [] s s"
| cons: "sv_step a s t \<Longrightarrow> sv_run as t u \<Longrightarrow> sv_run (a # as) s u"

inductive_cases sv_run_nilE [elim!]: "sv_run [] s t"
inductive_cases sv_run_consE [elim!]: "sv_run (a # as) s u"

end
