(* ===== verification/Server_Properties.thy ===== *)
theory Server_Properties
  imports Server
begin

text \<open>
  What the server promises of its connections: the accept loop, which the completion handlers of all
  connections refer to, does not return before the last of them has run; no wake-up it waits for is lost;
  \<open>destroy()\<close> reaches every session, also one that is made at the same time; and the server then comes to its
  end on its own, unless a client keeps it waiting before there is a session.
\<close>

section \<open>The invariant\<close>

definition loop_ok :: "server \<Rightarrow> bool" where
  "loop_ok s =
     (case sv_loop s of
        Returned \<Rightarrow> sv_conns s = []
      | Blocked \<Rightarrow> \<not> sv_signal s \<and> sv_conns s \<noteq> []
      | Going_to_wait \<Rightarrow> sv_signal s \<or> sv_conns s \<noteq> []
      | _ \<Rightarrow> True)"

definition conn_ok :: "server \<Rightarrow> nat \<Rightarrow> conn \<Rightarrow> bool" where
  "conn_ok s i c =
     ((cn_phase c = Serving \<longrightarrow> i \<in> set (sv_sessions s) \<or> cn_told c) \<and>
      (i \<in> set (sv_sessions s) \<longrightarrow> cn_phase c \<in> {Serving, Ended} \<and> (sv_destroyed s \<longrightarrow> cn_told c)))"

definition sv_inv :: "server \<Rightarrow> bool" where
  "sv_inv s =
     (distinct_keys (sv_conns s) \<and> sv_counter s = length (sv_conns s) \<and>
      (\<forall>i c. map_of (sv_conns s) i = Some c \<longrightarrow> conn_ok s i c) \<and>
      (\<forall>i \<in> set (sv_sessions s). map_of (sv_conns s) i \<noteq> None) \<and>
      (sv_destroyed s \<longrightarrow> \<not> sv_acceptor_open s) \<and> loop_ok s)"

lemma sv_invD:
  assumes "sv_inv s"
  shows "distinct_keys (sv_conns s)" "sv_counter s = length (sv_conns s)"
    and "map_of (sv_conns s) i = Some c \<Longrightarrow> conn_ok s i c"
    and "i \<in> set (sv_sessions s) \<Longrightarrow> map_of (sv_conns s) i \<noteq> None"
    and "sv_destroyed s \<Longrightarrow> \<not> sv_acceptor_open s" "loop_ok s"
  using assms by (auto simp: sv_inv_def)

lemma sv_invI:
  assumes "distinct_keys (sv_conns s)" "sv_counter s = length (sv_conns s)"
    and "\<And>i c. map_of (sv_conns s) i = Some c \<Longrightarrow> conn_ok s i c"
    and "\<And>i. i \<in> set (sv_sessions s) \<Longrightarrow> map_of (sv_conns s) i \<noteq> None"
    and "sv_destroyed s \<Longrightarrow> \<not> sv_acceptor_open s" "loop_ok s"
  shows "sv_inv s"
  using assms by (auto simp: sv_inv_def)

lemma set_conn_fields [simp]:
  "sv_acceptor_open (set_conn i c s) = sv_acceptor_open s" "sv_destroyed (set_conn i c s) = sv_destroyed s"
  "sv_sessions (set_conn i c s) = sv_sessions s" "sv_counter (set_conn i c s) = sv_counter s"
  "sv_signal (set_conn i c s) = sv_signal s" "sv_loop (set_conn i c s) = sv_loop s"
  "map_of (sv_conns (set_conn i c s)) j = (if j = i then Some c else map_of (sv_conns s) j)"
  "sv_conns (set_conn i c s) \<noteq> []"
  by (auto simp: set_conn_def tbl.lookup_put update_conv')

lemma conn_ok_cong:
  "sv_sessions t = sv_sessions s \<Longrightarrow> sv_destroyed t = sv_destroyed s \<Longrightarrow> conn_ok t i c = conn_ok s i c"
  by (simp add: conn_ok_def)

lemma set_conn_inv:
  assumes inv: "sv_inv s" and i: "map_of (sv_conns s) i = Some c" and new: "conn_ok s i c'"
  shows "sv_inv (set_conn i c' s)"
proof (rule sv_invI)
  note I = sv_invD [OF inv]
  have ne: "sv_conns s \<noteq> []" using i by auto
  show "distinct_keys (sv_conns (set_conn i c' s))" using tbl.ok_put [OF I(1)] by (simp add: set_conn_def)
  show "sv_counter (set_conn i c' s) = length (sv_conns (set_conn i c' s))"
    using I(2) i by (simp add: set_conn_def length_update)
  show "conn_ok (set_conn i c' s) j d" if "map_of (sv_conns (set_conn i c' s)) j = Some d" for j d
    using that I(3) new conn_ok_cong [of "set_conn i c' s" s] by (auto split: if_splits)
  show "loop_ok (set_conn i c' s)" using I(6) ne by (auto simp: loop_ok_def split: loop.splits)
qed (use sv_invD [OF inv] in auto)

lemma told_fields [simp]:
  "sv_acceptor_open (destroy_on_its_executor is s) = sv_acceptor_open s"
  "sv_destroyed (destroy_on_its_executor is s) = sv_destroyed s"
  "sv_sessions (destroy_on_its_executor is s) = sv_sessions s"
  "sv_counter (destroy_on_its_executor is s) = sv_counter s"
  "sv_signal (destroy_on_its_executor is s) = sv_signal s" "sv_loop (destroy_on_its_executor is s) = sv_loop s"
  "map_of (sv_conns (destroy_on_its_executor is s)) j = None \<longleftrightarrow> map_of (sv_conns s) j = None"
  "length (sv_conns (destroy_on_its_executor is s)) = length (sv_conns s)"
  "sv_conns (destroy_on_its_executor is s) = [] \<longleftrightarrow> sv_conns s = []"
  "distinct_keys (sv_conns (destroy_on_its_executor is s)) = distinct_keys (sv_conns s)"
  by (simp_all add: destroy_on_its_executor_def map_of_map_entries)

lemma told_conn:
  assumes "map_of (sv_conns (destroy_on_its_executor is s)) i = Some c"
  obtains d where "map_of (sv_conns s) i = Some d" "cn_phase c = cn_phase d" "cn_told c = (i \<in> set is \<or> cn_told d)"
proof -
  from assms obtain d where "map_of (sv_conns s) i = Some d" "c = (if i \<in> set is then d\<lparr>cn_told := True\<rparr> else d)"
    by (auto simp: destroy_on_its_executor_def map_of_map_entries)
  then show thesis by (intro that [of d]) auto
qed

lemma destroy_inv:
  assumes "sv_inv s"
  shows "sv_inv (destroy s)"
proof (rule sv_invI)
  note I = sv_invD [OF assms]
  show "conn_ok (destroy s) i c" if "map_of (sv_conns (destroy s)) i = Some c" for i c
    using that unfolding destroy_def by (rule told_conn) (use I(3) [of i] in \<open>auto simp: destroy_def conn_ok_def\<close>)
  show "loop_ok (destroy s)" using I(6) by (auto simp: destroy_def loop_ok_def split: loop.splits)
qed (use sv_invD [OF assms] in \<open>auto simp: destroy_def\<close>)

lemma sweep_inv:
  assumes "sv_inv s"
  shows "sv_inv (sweep s)"
proof (cases "sv_counter s = 0")
  case True
  note I = sv_invD [OF assms]
  show ?thesis
    by (rule sv_invI) (use True I in \<open>auto simp: sweep_def loop_ok_def conn_ok_def\<close>)
next
  case False
  note I = sv_invD [OF assms]
  show ?thesis
  proof (rule sv_invI)
    show "conn_ok (sweep s) i c" if "map_of (sv_conns (sweep s)) i = Some c" for i c
    proof -
      from that False obtain d where "map_of (sv_conns s) i = Some d" "cn_phase c = cn_phase d"
        "cn_told c = (i \<in> set (sv_sessions s) \<or> cn_told d)"
        by (auto simp: sweep_def elim: told_conn)
      with I(3) [of i d] False show ?thesis by (auto simp: sweep_def conn_ok_def)
    qed
    show "loop_ok (sweep s)" using I(2) False by (auto simp: sweep_def loop_ok_def)
  qed (use I False in \<open>auto simp: sweep_def\<close>)
qed

lemma wait_signal_inv: "sv_inv s \<Longrightarrow> sv_loop s = Going_to_wait \<Longrightarrow> sv_inv (wait_signal s)"
  by (auto simp: sv_inv_def wait_signal_def loop_ok_def conn_ok_def)

lemma accepted_inv:
  assumes "sv_inv s" "map_of (sv_conns s) i = None" "sv_loop s = Accepting"
  shows "sv_inv (on_accepted i s)"
proof (rule sv_invI)
  note I = sv_invD [OF assms(1)]
  have fresh: "i \<notin> set (sv_sessions s)" using I(4) assms(2) by blast
  show "distinct_keys (sv_conns (on_accepted i s))" using tbl.ok_put [OF I(1)] by (simp add: set_conn_def on_accepted_def)
  show "sv_counter (on_accepted i s) = length (sv_conns (on_accepted i s))"
    using I(2) assms(2) by (simp add: set_conn_def on_accepted_def update_fresh)
  show "conn_ok (on_accepted i s) j c" if "map_of (sv_conns (on_accepted i s)) j = Some c" for j c
    using that I(3) [of j c] fresh by (auto simp: on_accepted_def conn_ok_def split: if_splits)
  show "loop_ok (on_accepted i s)" using assms(3) by (simp add: loop_ok_def on_accepted_def)
qed (use sv_invD [OF assms(1)] in \<open>auto simp: on_accepted_def\<close>)

lemma done_fields [simp]:
  "sv_acceptor_open (on_connection_done i s) = sv_acceptor_open s"
  "sv_destroyed (on_connection_done i s) = sv_destroyed s" "sv_sessions (on_connection_done i s) = sv_sessions s"
  "sv_counter (on_connection_done i s) = sv_counter s - 1"
  "sv_conns (on_connection_done i s) = AList.delete i (sv_conns s)"
  "sv_signal (on_connection_done i s) = (sv_signal s \<or> sv_loop s \<noteq> Blocked)"
  "sv_loop (on_connection_done i s) = (if sv_loop s = Blocked then Checking else sv_loop s)"
  by (simp_all add: on_connection_done_def notify_def)

lemma connection_done_inv:
  assumes "sv_inv s" "map_of (sv_conns s) i = Some c" "cn_phase c = Leaving"
  shows "sv_inv (on_connection_done i s)"
proof (rule sv_invI)
  note I = sv_invD [OF assms(1)]
  have gone: "i \<notin> set (sv_sessions s)" using I(3) [OF assms(2)] assms(3) by (auto simp: conn_ok_def)
  show "distinct_keys (sv_conns (on_connection_done i s))" using tbl.ok_del [OF I(1)] by simp
  show "sv_counter (on_connection_done i s) = length (sv_conns (on_connection_done i s))"
    using I(2) length_delete_one [OF I(1) assms(2)] by simp
  show "conn_ok (on_connection_done i s) j d" if "map_of (sv_conns (on_connection_done i s)) j = Some d" for j d
    using that I(1,3) by (auto simp: conn_ok_def tbl.lookup_del split: if_splits)
  show "map_of (sv_conns (on_connection_done i s)) j \<noteq> None" if "j \<in> set (sv_sessions (on_connection_done i s))" for j
    using that I(1,4) gone by (auto simp: tbl.lookup_del)
  show "loop_ok (on_connection_done i s)" using I(6) assms(2) by (auto simp: loop_ok_def split: loop.splits)
qed (use sv_invD [OF assms(1)] in auto)

lemma conn_moves_inv:
  assumes "sv_inv s" "map_of (sv_conns s) i = Some c" "cn_phase c \<notin> {Serving, Ended}" "cn_phase c' \<noteq> Serving"
  shows "sv_inv (set_conn i c' s)"
  using set_conn_inv [OF assms(1,2), of c'] sv_invD(3) [OF assms(1,2)] assms(3,4) by (auto simp: conn_ok_def)

lemma register_inv:
  assumes "sv_inv s" "map_of (sv_conns s) i = Some c" "cn_phase c = Made p"
  shows "sv_inv (register_session i c s)"
proof (cases "sv_destroyed s")
  case True
  then show ?thesis using conn_moves_inv [OF assms(1,2)] assms(3) by (simp add: register_session_def add_session_def)
next
  case False
  let ?c = "c\<lparr>cn_phase := Serving\<rparr>"
  have eq: "register_session i c s = (set_conn i ?c s)\<lparr>sv_sessions := List.insert i (sv_sessions s)\<rparr>"
    using False by (simp add: register_session_def add_session_def set_conn_def)
  note I = sv_invD [OF assms(1)]
  show ?thesis
  proof (rule sv_invI)
    show "distinct_keys (sv_conns (register_session i c s))" using tbl.ok_put [OF I(1)] by (simp add: eq set_conn_def)
    show "sv_counter (register_session i c s) = length (sv_conns (register_session i c s))"
      using I(2) assms(2) by (simp add: eq set_conn_def length_update)
    show "conn_ok (register_session i c s) j d" if "map_of (sv_conns (register_session i c s)) j = Some d" for j d
      using that I(3) [of j d] False by (auto simp: eq conn_ok_def split: if_splits)
    show "loop_ok (register_session i c s)"
      using I(6) assms(2) by (auto simp: eq loop_ok_def split: loop.splits)
  qed (use I False in \<open>auto simp: eq\<close>)
qed

lemma removed_inv:
  assumes "sv_inv s" "map_of (sv_conns s) i = Some c" "cn_phase c = Ended"
  shows "sv_inv (session_removed i c s)"
proof -
  note I = sv_invD [OF assms(1)]
  have "conn_ok (remove_session i s) j d" if "map_of (sv_conns s) j = Some d" for j d
    using I(3) [OF that] that assms(2,3) by (auto simp: remove_session_def conn_ok_def)
  then have "sv_inv (remove_session i s)"
    using I by (intro sv_invI) (auto simp: remove_session_def loop_ok_def split: loop.splits)
  then show ?thesis unfolding session_removed_def
    by (rule set_conn_inv) (use assms(2) in \<open>simp_all add: remove_session_def conn_ok_def\<close>)
qed

lemma done_session_inv:
  assumes "sv_inv s" "map_of (sv_conns s) i = Some c"
  shows "sv_inv (session_done i c s)"
  unfolding session_done_def
  by (rule set_conn_inv [OF assms]) (use sv_invD(3) [OF assms] in \<open>auto simp: conn_ok_def\<close>)

lemma sv_step_inv: "sv_step a s t \<Longrightarrow> sv_inv s \<Longrightarrow> sv_inv t"
proof (induction rule: sv_step.induct)
  case (detected s i c r)
  then show ?case unfolding on_detected_def by (intro conn_moves_inv) (auto split: detected.splits)
next
  case (handshake s i c ec alpn)
  then show ?case unfolding on_handshake_def by (intro conn_moves_inv) auto
next
  case (accept_error s)
  then show ?case by (auto simp: sv_inv_def on_accept_failed_def loop_ok_def conn_ok_def)
next
  case (accept_closed s)
  then show ?case by (auto simp: sv_inv_def on_accept_failed_def loop_ok_def conn_ok_def)
qed (auto intro: accepted_inv register_inv done_session_inv removed_inv connection_done_inv sweep_inv wait_signal_inv destroy_inv)

lemma sv_started_inv: "sv_inv server_started"
  by (simp add: sv_inv_def server_started_def distinct_keys_def loop_ok_def)

lemma sv_run_inv: "sv_run as s t \<Longrightarrow> sv_inv s \<Longrightarrow> sv_inv t"
  by (induction rule: sv_run.induct) (auto dest: sv_step_inv)

lemmas sv_reachable_inv = sv_run_inv [OF _ sv_started_inv]

section \<open>The end of the server\<close>

definition own :: "actor \<Rightarrow> bool" where
  "own a = (case a of Loop \<Rightarrow> True | Conn i \<Rightarrow> True | _ \<Rightarrow> False)"

lemma own_simps [simp]: "own Loop" "own (Conn i)" "\<not> own (Client i)" "\<not> own System" "\<not> own Owner"
  by (simp_all add: own_def)

fun phase_rank :: "phase \<Rightarrow> nat" where
  "phase_rank Detecting = 6"
| "phase_rank Handshaking = 5"
| "phase_rank (Made p) = 4"
| "phase_rank Serving = 3"
| "phase_rank Ended = 2"
| "phase_rank Leaving = 1"

fun loop_rank :: "loop \<Rightarrow> nat" where
  "loop_rank Accepting = 3"
| "loop_rank Checking = 2"
| "loop_rank Going_to_wait = 1"
| "loop_rank Blocked = 0"
| "loop_rank Returned = 0"

definition conns_rank :: "(nat \<times> conn) list \<Rightarrow> nat" where
  "conns_rank = tally (\<lambda>c. phase_rank (cn_phase c))"

definition work_left :: "server \<Rightarrow> nat" where
  "work_left s = 6 * conns_rank (sv_conns s) + (if sv_signal s then 3 else 0) + loop_rank (sv_loop s)"

lemma conns_rank_told: "conns_rank (sv_conns (destroy_on_its_executor is s)) = conns_rank (sv_conns s)"
  by (simp add: conns_rank_def destroy_on_its_executor_def tally_map_entries)

lemma set_conn_work:
  assumes "sv_inv s" "map_of (sv_conns s) i = Some c" "phase_rank (cn_phase c') < phase_rank (cn_phase c)"
  shows "work_left (set_conn i c' s) < work_left s"
  using tally_update [OF sv_invD(1) [OF assms(1)] assms(2), of "\<lambda>c. phase_rank (cn_phase c)" c'] assms(3)
  by (simp add: work_left_def set_conn_def conns_rank_def)

lemma work_left_cong:
  "sv_conns t = sv_conns s \<Longrightarrow> sv_signal t = sv_signal s \<Longrightarrow> sv_loop t = sv_loop s \<Longrightarrow> work_left t = work_left s"
  by (simp add: work_left_def)

lemma own_step_works:
  assumes "sv_step a s t" "own a" "sv_inv s"
  shows "work_left t < work_left s"
  using assms
proof (induction rule: sv_step.induct)
  case (accept_closed s)
  then show ?case by (simp add: work_left_def on_accept_failed_def)
next
  case (register s i c p)
  let ?s = "snd (add_session i s)"
  have same: "work_left (set_conn i c' ?s) = work_left (set_conn i c' s)" for c'
    by (rule work_left_cong) (simp_all add: add_session_def set_conn_def)
  from register show ?case
    using set_conn_work [of s i c "c\<lparr>cn_phase := Serving\<rparr>"] set_conn_work [of s i c "c\<lparr>cn_phase := Leaving, cn_told := True\<rparr>"]
      same by (auto simp: register_session_def split: prod.splits bool.splits)
next
  case (ended_told s i c)
  then show ?case by (auto simp: session_done_def intro: set_conn_work)
next
  case (removed s i c)
  have "work_left (session_removed i c s) = work_left (set_conn i (c\<lparr>cn_phase := Leaving\<rparr>) s)"
    by (rule work_left_cong) (simp_all add: session_removed_def remove_session_def set_conn_def)
  with removed show ?case by (auto intro: set_conn_work)
next
  case (completed s i c)
  then show ?case using tally_delete [OF sv_invD(1), of s i c "\<lambda>c. phase_rank (cn_phase c)"] sv_invD(6) [of s]
    by (auto simp: work_left_def conns_rank_def)
next
  case (check s)
  then show ?case by (simp add: work_left_def sweep_def conns_rank_told)
next
  case (wait s)
  then show ?case by (simp add: work_left_def wait_signal_def)
qed simp_all

text \<open>No connection waits for its client to say what it speaks.\<close>

definition settled :: "server \<Rightarrow> bool" where
  "settled s = (\<forall>(i, c) \<in> set (sv_conns s). cn_phase c \<noteq> Detecting \<and> cn_phase c \<noteq> Handshaking)"

lemma sv_step_destroyed: "sv_step a s t \<Longrightarrow> sv_destroyed s \<Longrightarrow> sv_destroyed t"
  by (induction rule: sv_step.induct)
    (auto simp: on_accepted_def on_accept_failed_def on_detected_def on_handshake_def register_session_def add_session_def
       session_done_def session_removed_def remove_session_def sweep_def wait_signal_def destroy_def)

lemma settled_set_conn:
  "settled s \<Longrightarrow> cn_phase c \<notin> {Detecting, Handshaking} \<Longrightarrow> settled (set_conn i c s)"
  using set_update_subset [of i c "sv_conns s"] by (fastforce simp: settled_def set_conn_def)

lemma own_step_settled:
  assumes "sv_step a s t" "own a" "settled s"
  shows "settled t"
  using assms
proof (induction rule: sv_step.induct)
  case (register s i c p)
  have "settled (set_conn i c' (snd (add_session i s))) = settled (set_conn i c' s)" for c'
    by (simp add: settled_def set_conn_def add_session_def)
  with register show ?case
    using settled_set_conn [of s "c\<lparr>cn_phase := Serving\<rparr>" i] settled_set_conn [of s "c\<lparr>cn_phase := Leaving, cn_told := True\<rparr>" i]
    by (auto simp: register_session_def split: prod.splits bool.splits)
next
  case (removed s i c)
  have "settled (remove_session i s)" using removed by (simp add: settled_def remove_session_def)
  then show ?case by (auto simp: session_removed_def intro: settled_set_conn)
next
  case (completed s i c)
  then show ?case by (auto simp: settled_def AList.delete_eq)
next
  case (check s)
  then show ?case by (auto simp: settled_def sweep_def destroy_on_its_executor_def split: if_splits)
next
  case (ended_told s i c)
  then show ?case by (simp add: session_done_def settled_set_conn)
qed (simp_all add: settled_def on_accept_failed_def wait_signal_def)

lemma own_progress:
  assumes "sv_inv s" "sv_destroyed s" "settled s" "sv_loop s \<noteq> Returned"
  shows "\<exists>a t. own a \<and> sv_step a s t"
proof (cases "sv_loop s")
  case Accepting
  then show ?thesis using sv_invD(5) [OF assms(1,2)] sv_step.accept_closed own_simps(1) by blast
next
  case Checking
  then show ?thesis using sv_step.check own_simps(1) by blast
next
  case Going_to_wait
  then show ?thesis using sv_step.wait own_simps(1) by blast
next
  case Blocked
  then have "sv_conns s \<noteq> []" using sv_invD(6) [OF assms(1)] by (simp add: loop_ok_def)
  then obtain i c where ic: "map_of (sv_conns s) i = Some c"
    by (metis list.exhaust map_of_Cons_code(2) surj_pair)
  then have "(i, c) \<in> set (sv_conns s)" by (rule map_of_SomeD)
  then have "cn_phase c \<notin> {Detecting, Handshaking}" using assms(3) by (auto simp: settled_def)
  moreover have "cn_told c" if "cn_phase c = Serving"
    using sv_invD(3) [OF assms(1) ic] that assms(2) by (auto simp: conn_ok_def)
  ultimately have "\<exists>t. sv_step (Conn i) s t"
    using ic by (cases "cn_phase c") (auto intro: sv_step.register sv_step.ended_told sv_step.removed sv_step.completed)
  then show ?thesis using own_simps(2) by blast
qed (use assms(4) in simp)

lemma own_run_ends:
  assumes "sv_run bs s t" "sv_inv s" "list_all own bs"
  shows "length bs + work_left t \<le> work_left s" "settled s \<Longrightarrow> settled t" "sv_destroyed s \<Longrightarrow> sv_destroyed t"
proof -
  have "length bs + work_left t \<le> work_left s \<and> (settled s \<longrightarrow> settled t) \<and> (sv_destroyed s \<longrightarrow> sv_destroyed t)"
    using assms
  proof (induction rule: sv_run.induct)
    case (cons a s t as u)
    have "own a" "list_all own as" "sv_inv t" using cons sv_step_inv by auto
    with cons own_step_works [of a s t] own_step_settled [of a s t] sv_step_destroyed [of a s t] show ?case by auto
  qed simp
  then show "length bs + work_left t \<le> work_left s" "settled s \<Longrightarrow> settled t" "sv_destroyed s \<Longrightarrow> sv_destroyed t" by blast+
qed

text \<open>A connection whose client has not spoken yet stays as it is unless the client speaks.\<close>

lemma detecting_stays:
  assumes "sv_step a s t" "map_of (sv_conns s) i = Some c" "cn_phase c = Detecting" "a \<noteq> Client i" "sv_inv s"
  shows "\<exists>d. map_of (sv_conns t) i = Some d \<and> cn_phase d = Detecting"
  using assms
proof (induction rule: sv_step.induct)
  case (completed s j d)
  then show ?case using sv_invD(1) [of s] by (auto simp: tbl.lookup_del)
next
  case (check s)
  then show ?case by (auto simp: sweep_def destroy_on_its_executor_def map_of_map_entries)
qed (auto simp: on_accepted_def on_accept_failed_def on_detected_def on_handshake_def register_session_def add_session_def
  session_done_def session_removed_def remove_session_def wait_signal_def destroy_def destroy_on_its_executor_def map_of_map_entries
  split: prod.splits bool.splits)

section \<open>Properties\<close>

text \<open>C10: However the steps of clients, connections, the accept loop and the owner are interleaved, the accept loop,
  whose variables the completion handler of every connection refers to, has returned only when the last
  of these handlers has run; it counts the connections right; it never waits when there is none left to
  wake it up, nor with a wake-up it has not seen; and once the server is destroyed, every session that
  serves has been told so, also those that were made meanwhile.\<close>

theorem server_waits_for_connections:
  assumes "sv_run as server_started s"
  shows "sv_counter s = length (sv_conns s) \<and>
         (sv_loop s = Returned \<longrightarrow> sv_conns s = []) \<and>
         (sv_loop s = Blocked \<longrightarrow> sv_conns s \<noteq> [] \<and> \<not> sv_signal s) \<and>
         (sv_destroyed s \<longrightarrow> (\<forall>i c. map_of (sv_conns s) i = Some c \<longrightarrow> cn_phase c = Serving \<longrightarrow> cn_told c))"
proof -
  note I = sv_invD [OF sv_reachable_inv [OF assms]]
  have "cn_told c" if "sv_destroyed s" "map_of (sv_conns s) i = Some c" "cn_phase c = Serving" for i c
    using I(3) [OF that(2)] that by (auto simp: conn_ok_def)
  then show ?thesis using I(2,6) by (auto simp: loop_ok_def)
qed

text \<open>A run in which the server is destroyed while a connection that has just spoken HTTP/1.1 is about to be
  registered.\<close>

definition late_steps :: "actor list" where
  "late_steps = [Client 1, Client 1, Owner, Loop, Loop, Loop]"

definition late_server :: server where
  "late_server = wait_signal (sweep (on_accept_failed (destroy (on_detected 1 \<lparr>cn_phase = Detecting, cn_told = False\<rparr>
     (Success, H1) (on_accepted 1 server_started)))))"

lemma late_server_eq:
  "late_server = \<lparr>sv_acceptor_open = False, sv_destroyed = True, sv_sessions = [],
     sv_conns = [(1, \<lparr>cn_phase = Made Http1, cn_told = False\<rparr>)], sv_counter = 1, sv_signal = False, sv_loop = Blocked\<rparr>"
  by code_simp

lemma late_run: "sv_run late_steps server_started late_server"
proof -
  let ?c = "\<lparr>cn_phase = Detecting, cn_told = False\<rparr>"
  let ?s1 = "on_accepted 1 server_started"
  let ?s2 = "on_detected 1 ?c (Success, H1) ?s1"
  let ?s3 = "destroy ?s2"
  let ?s4 = "on_accept_failed ?s3"
  have "sv_step (Client 1) server_started ?s1" by (rule sv_step.accept) (simp_all add: server_started_def)
  moreover have "sv_step (Client 1) ?s1 ?s2" by (rule sv_step.detected) (simp_all add: on_accepted_def)
  moreover have "sv_step Owner ?s2 ?s3" by (rule sv_step.destroyed)
  moreover have "sv_step Loop ?s3 ?s4"
    by (rule sv_step.accept_closed) (simp_all add: destroy_def on_detected_def on_accepted_def server_started_def)
  moreover have "sv_step Loop ?s4 (sweep ?s4)" by (rule sv_step.check) (simp add: on_accept_failed_def)
  moreover have "sv_step Loop (sweep ?s4) late_server" unfolding late_server_def
    by (rule sv_step.wait)
      (simp add: sweep_def on_accept_failed_def destroy_def on_detected_def on_accepted_def)
  ultimately show ?thesis unfolding late_steps_def by (meson sv_run.intros)
qed

theorem server_waits_for_connections_witness:
  "sv_run late_steps server_started late_server \<and> sv_loop late_server = Blocked \<and> sv_conns late_server \<noteq> []"
  using server_waits_for_connections [OF late_run] late_run by (simp add: late_server_eq)



text \<open>A client that connects and sends nothing keeps a destroyed server from its end: whatever else happens,
  without a step of that client the connection stays, and the accept loop does not return.\<close>

theorem server_silent_client_blocks_shutdown:
  assumes "sv_run as server_started s" "map_of (sv_conns s) i = Some c" "cn_phase c = Detecting"
    and "sv_run bs s t" "Client i \<notin> set bs"
  shows "sv_loop t \<noteq> Returned \<and> (\<exists>d. map_of (sv_conns t) i = Some d \<and> cn_phase d = Detecting)"
proof -
  have inv: "sv_inv s" by (rule sv_reachable_inv [OF assms(1)])
  have d: "\<exists>d. map_of (sv_conns t) i = Some d \<and> cn_phase d = Detecting"
    using assms(4,2,3,5) inv
  proof (induction arbitrary: c rule: sv_run.induct)
    case (cons a s t as u)
    then obtain d where "map_of (sv_conns t) i = Some d" "cn_phase d = Detecting"
      using detecting_stays [OF cons(1), of i c] by auto
    with cons sv_step_inv show ?case by auto
  qed blast
  moreover have "sv_inv t" using sv_run_inv [OF assms(4) inv] .
  then have "sv_loop t = Returned \<Longrightarrow> sv_conns t = []" using sv_invD(6) by (fastforce simp: loop_ok_def)
  ultimately show ?thesis by auto
qed

theorem server_silent_client_blocks_shutdown_witness:
  "\<exists>s. sv_run [Client 1, Owner] server_started s \<and> sv_destroyed s \<and>
     (\<forall>bs t. sv_run bs s t \<longrightarrow> Client 1 \<notin> set bs \<longrightarrow> sv_loop t \<noteq> Returned)"
proof -
  let ?s1 = "on_accepted 1 server_started"
  have "sv_step (Client 1) server_started ?s1" by (rule sv_step.accept) (simp_all add: server_started_def)
  then have r: "sv_run [Client 1, Owner] server_started (destroy ?s1)"
    by (meson sv_step.destroyed sv_run.intros)
  have c: "map_of (sv_conns (destroy ?s1)) 1 = Some \<lparr>cn_phase = Detecting, cn_told = False\<rparr>" "sv_destroyed (destroy ?s1)"
    by code_simp+
  show ?thesis using server_silent_client_blocks_shutdown [OF r c(1)] r c(2) by (intro exI [of _ "destroy ?s1"]) simp
qed

end
