(* ===== verification/H1_Message.thy ===== *)
theory H1_Message
  imports Prelude Text_Lib
begin

text \<open>
  Messages on an HTTP/1.1 connection, \<^verbatim>\<open>src/h1/session.cpp\<close>: what the readers (\<open>BeastReader\<close>) and writers
  (\<open>WriterBase\<close>) of client and server have in common. Parsing and serializing is done by Boost.Beast, which is
  not part of this program: what a read or a write on the stream comes to is an argument. A coroutine is
  divided where it waits for the stream, so that everything else may happen in between.

  What has been written to a connection is a list of pieces, each with the number of its message.
\<close>

section \<open>Pieces of messages\<close>

text \<open>\<open>Cut\<close> is a piece of which only a part, or nothing, was written.\<close>

datatype piece = Head nat | Data nat bytes | End nat | Cut nat

text \<open>Where a connection stands: between messages, before the one with the given number, inside of one, or in
  the middle of a piece, with no way to go on.\<close>

datatype position = Between nat | Inside nat | Dead

fun advance :: "position \<Rightarrow> piece \<Rightarrow> position option" where
  "advance (Between n) (Head k) = (if k = n then Some (Inside n) else None)"
| "advance (Between n) (Cut k) = (if k = n then Some Dead else None)"
| "advance (Inside n) (Data k b) = (if k = n then Some (Inside n) else None)"
| "advance (Inside n) (End k) = (if k = n then Some (Between (n + 1)) else None)"
| "advance (Inside n) (Cut k) = (if k = n then Some Dead else None)"
| "advance p x = None"

fun position_after :: "position \<Rightarrow> piece list \<Rightarrow> position option" where
  "position_after p [] = Some p"
| "position_after p (x # xs) = (case advance p x of None \<Rightarrow> None | Some q \<Rightarrow> position_after q xs)"

lemma position_after_append:
  "position_after p (xs @ ys) = (case position_after p xs of None \<Rightarrow> None | Some q \<Rightarrow> position_after q ys)"
  by (induction xs arbitrary: p) (auto split: option.splits)

section \<open>Writing\<close>

datatype writer_op = No_write | Head_write | Body_write bytes bool

record h1_writer =
  hw_session :: bool
  hw_eof_submitted :: bool
  hw_cancelled :: bool
  hw_response_requested :: bool
  hw_has_body :: bool
  hw_op :: writer_op

text \<open>The answers that need no stream, in the order of \<open>write()\<close>; \<open>None\<close> goes on to the stream.\<close>

definition write_entry :: "bytes \<Rightarrow> bool \<Rightarrow> 'a h1_writer_scheme \<Rightarrow> error_code option" where
  "write_entry buffer eof w =
     (if buffer = [] \<and> \<not> eof then Some Success
      else if hw_eof_submitted w then Some (if buffer = [] then Success else Broken_pipe)
      else if \<not> hw_session w then Some Connection_aborted
      else if hw_cancelled w then Some Canceled
      else None)"

text \<open>What comes after the stream: a write that failed leaves the message cancelled, and only one that
  succeeded ends the body.\<close>

definition write_exit :: "error_code \<Rightarrow> bool \<Rightarrow> 'a h1_writer_scheme \<Rightarrow> 'a h1_writer_scheme" where
  "write_exit ec eof w =
     w\<lparr>hw_op := No_write, hw_cancelled := hw_cancelled w \<or> ec \<noteq> Success,
       hw_eof_submitted := hw_eof_submitted w \<or> ec = Success \<and> eof\<rparr>"

text \<open>What a write puts onto the connection.\<close>

definition written :: "nat \<Rightarrow> error_code \<Rightarrow> bytes \<Rightarrow> bool \<Rightarrow> piece list" where
  "written n ec buffer eof =
     (if ec \<noteq> Success then [Cut n]
      else (if buffer = [] then [] else [Data n buffer]) @ (if eof then [End n] else []))"

text \<open>Whether a request has a body, from its framing: whether it is chunked, and the value of its
  \<open>Content-Length\<close>.\<close>

definition has_body :: "bool \<Rightarrow> string \<Rightarrow> bool" where
  "has_body chunked content_length =
     (chunked \<or> (case from_chars 64 content_length of None \<Rightarrow> True | Some (n, rest) \<Rightarrow> rest \<noteq> [] \<or> n \<noteq> 0))"

section \<open>Reading\<close>

text \<open>\<open>hr_header\<close> tells that the header of the message has arrived, \<open>hr_busy\<close> that a read is in progress on the
  stream, \<open>hr_request\<close> is the request a reader belongs to.\<close>

record h1_reader =
  hr_session :: bool
  hr_done :: bool
  hr_finished :: bool
  hr_header :: bool
  hr_busy :: bool
  hr_request :: nat

definition read_entry :: "nat \<Rightarrow> h1_reader \<Rightarrow> error_code option" where
  "read_entry room r =
     (if room = 0 then Some Success
      else if hr_done r then Some Eof
      else if \<not> hr_session r then Some Partial_message
      else None)"

text \<open>The end of a round of \<open>read_some()\<close>: the error code to complete with, or another round.\<close>

definition read_exit :: "error_code \<Rightarrow> nat \<Rightarrow> h1_reader \<Rightarrow> error_code option" where
  "read_exit ec payload r =
     (if ec = Success \<and> payload = 0
      then if hr_done r then Some Eof else if \<not> hr_session r then Some Partial_message else None
      else Some ec)"

end
