(* ===== verification/H1_Client.thy ===== *)
theory H1_Client
  imports H1_Message Stream_Table
begin

text \<open>
  The client side of an HTTP/1.1 connection, \<open>ClientSession\<close> and \<open>RequestWriter\<close> of
  \<^verbatim>\<open>src/h1/session.cpp\<close> and \<^verbatim>\<open>include/anyhttp/h1/session.hpp\<close>: requests are written one after the other,
  and responses are read in the same order, while the handles on both may be used and dropped at any time.

  A request is named by its sequence number, a reader by the order in which the readers were made. Two
  fields are for observation only: \<open>hc_wire\<close>, what was written to the connection, and \<open>hc_log\<close>, the request of
  the reader that took each complete message off it.
\<close>

record h1_client =
  hc_sending :: "nat option"
  hc_requests_sent :: nat
  hc_responses_read :: nat
  hc_send_failed :: bool
  hc_receive_failed :: bool
  hc_shutting_down :: bool
  hc_closing :: "bool option"
  hc_ended :: "bool option"
  hc_ops_pending :: nat
  hc_ops_writes :: nat
  hc_writers :: "(nat \<times> h1_writer) list"
  hc_readers :: "(nat \<times> h1_reader) list"
  hc_readers_made :: nat
  hc_wire :: "piece list"
  hc_log :: "nat list"

definition hc_init :: h1_client where
  "hc_init =
     \<lparr>hc_sending = None, hc_requests_sent = 0, hc_responses_read = 0, hc_send_failed = False,
      hc_receive_failed = False, hc_shutting_down = False, hc_closing = None, hc_ended = None,
      hc_ops_pending = 0, hc_ops_writes = 0, hc_writers = [], hc_readers = [], hc_readers_made = 0,
      hc_wire = [], hc_log = []\<rparr>"

section \<open>What requests and responses tell the session\<close>

definition request_complete :: "nat \<Rightarrow> h1_client \<Rightarrow> h1_client" where
  "request_complete n c = c\<lparr>hc_sending := None\<rparr>"

definition request_failed :: "nat \<Rightarrow> h1_client \<Rightarrow> h1_client" where
  "request_failed n c = c\<lparr>hc_send_failed := True, hc_sending := None\<rparr>"

definition request_released :: "nat \<Rightarrow> h1_writer \<Rightarrow> h1_client \<Rightarrow> h1_client" where
  "request_released n w c =
     (let c1 = (if hc_sending c = Some n then request_failed n c else c)
      in if \<not> hw_response_requested w then c1\<lparr>hc_receive_failed := True\<rparr> else c1)"

definition reader_finished :: "bool \<Rightarrow> h1_client \<Rightarrow> h1_client" where
  "reader_finished complete c =
     (if complete then c\<lparr>hc_responses_read := hc_responses_read c + 1\<rparr> else c\<lparr>hc_receive_failed := True\<rparr>)"

section \<open>Operations on the stream\<close>

definition begin_op :: "bool \<Rightarrow> h1_client \<Rightarrow> h1_client" where
  "begin_op is_write c =
     c\<lparr>hc_ops_pending := hc_ops_pending c + 1, hc_ops_writes := hc_ops_writes c + of_bool is_write\<rparr>"

definition end_op :: "bool \<Rightarrow> h1_client \<Rightarrow> h1_client" where
  "end_op is_write c =
     c\<lparr>hc_ops_pending := hc_ops_pending c - 1, hc_ops_writes := hc_ops_writes c - of_bool is_write\<rparr>"

definition set_writer :: "nat \<Rightarrow> h1_writer \<Rightarrow> h1_client \<Rightarrow> h1_client" where
  "set_writer n w c = c\<lparr>hc_writers := AList.update n w (hc_writers c)\<rparr>"

definition set_reader :: "nat \<Rightarrow> h1_reader \<Rightarrow> h1_client \<Rightarrow> h1_client" where
  "set_reader i r c = c\<lparr>hc_readers := AList.update i r (hc_readers c)\<rparr>"

definition put_on_wire :: "piece list \<Rightarrow> h1_client \<Rightarrow> h1_client" where
  "put_on_wire ps c = c\<lparr>hc_wire := hc_wire c @ ps\<rparr>"

section \<open>Requests\<close>

definition submit_request :: "bool \<Rightarrow> string \<Rightarrow> h1_client \<Rightarrow> (error_code + nat) \<times> h1_client" where
  "submit_request chunked content_length c =
     (if hc_send_failed c then (Inl Connection_aborted, c)
      else if hc_sending c \<noteq> None then (Inl Would_block, c)
      else let n = hc_requests_sent c;
               w = \<lparr>hw_session = True, hw_eof_submitted = False, hw_cancelled = False, hw_response_requested = False,
                    hw_has_body = has_body chunked content_length, hw_op = Head_write\<rparr>
           in (Inr n, begin_op True (set_writer n w (c\<lparr>hc_requests_sent := n + 1, hc_sending := Some n\<rparr>))))"

text \<open>\<open>write_head()\<close> is done, and \<open>header_written()\<close>.\<close>

definition header_written :: "nat \<Rightarrow> h1_writer \<Rightarrow> error_code \<Rightarrow> h1_client \<Rightarrow> h1_client" where
  "header_written n w ec c =
     (let c1 = put_on_wire (if ec \<noteq> Success then [Cut n] else if hw_has_body w then [Head n] else [Head n, End n])
                 (end_op True c)
      in if ec \<noteq> Success
         then let c2 = set_writer n (w\<lparr>hw_op := No_write, hw_cancelled := True\<rparr>) c1
              in if hw_session w then request_failed n c2 else c2
         else if \<not> hw_has_body w
         then let c2 = set_writer n (w\<lparr>hw_op := No_write, hw_eof_submitted := True\<rparr>) c1
              in if hw_session w then request_complete n c2 else c2
         else set_writer n (w\<lparr>hw_op := No_write\<rparr>) c1)"

definition write_request :: "nat \<Rightarrow> h1_writer \<Rightarrow> bytes \<Rightarrow> bool \<Rightarrow> h1_client \<Rightarrow> error_code option \<times> h1_client" where
  "write_request n w buffer eof c =
     (case write_entry buffer eof w of
        Some ec \<Rightarrow> (Some ec, c)
      | None \<Rightarrow> (None, begin_op True (set_writer n (w\<lparr>hw_op := Body_write buffer eof\<rparr>) c)))"

definition request_written :: "nat \<Rightarrow> h1_writer \<Rightarrow> bytes \<Rightarrow> bool \<Rightarrow> error_code \<Rightarrow> h1_client \<Rightarrow> h1_client" where
  "request_written n w buffer eof ec c =
     (let w1 = write_exit ec eof w;
          c1 = set_writer n w1 (put_on_wire (written n ec buffer eof) (end_op True c))
      in if hw_session w1 \<and> hw_eof_submitted w1 then request_complete n c1
         else if hw_session w1 \<and> hw_cancelled w1 then request_failed n c1
         else c1)"

definition release_request :: "nat \<Rightarrow> h1_writer \<Rightarrow> h1_client \<Rightarrow> h1_client" where
  "release_request n w c =
     (let c1 = (if hw_session w then request_released n w c else c)
      in c1\<lparr>hc_writers := AList.delete n (hc_writers c1)\<rparr>)"

section \<open>Responses\<close>

definition get_response :: "nat \<Rightarrow> h1_writer \<Rightarrow> h1_client \<Rightarrow> error_code option \<times> h1_client" where
  "get_response n w c =
     (if hw_response_requested w then (Some Already_started, c)
      else if \<not> hw_session w then (Some Connection_aborted, c)
      else if hc_receive_failed c then (Some Connection_aborted, c)
      else if n \<noteq> hc_responses_read c then (Some Would_block, c)
      else let r = \<lparr>hr_session = True, hr_done = False, hr_finished = False, hr_header = False, hr_busy = True,
                    hr_request = n\<rparr>
           in (None, begin_op False (set_reader (hc_readers_made c) r (set_writer n (w\<lparr>hw_response_requested := True\<rparr>)
                 (c\<lparr>hc_readers_made := hc_readers_made c + 1\<rparr>)))))"

text \<open>\<open>BeastReader::finish()\<close>.\<close>

definition finish_reader :: "nat \<Rightarrow> h1_reader \<Rightarrow> h1_client \<Rightarrow> h1_client" where
  "finish_reader i r c =
     (if hr_session r \<and> \<not> hr_finished r
      then reader_finished (hr_done r) (set_reader i (r\<lparr>hr_finished := True\<rparr>) c) else set_reader i r c)"

definition took_message :: "bool \<Rightarrow> nat \<Rightarrow> h1_client \<Rightarrow> h1_client" where
  "took_message complete n c = (if complete then c\<lparr>hc_log := hc_log c @ [n]\<rparr> else c)"

text \<open>The header of a response has arrived, or not. Reading is tried again only when it was cancelled before
  anything of the response was taken.\<close>

definition response_header :: "nat \<Rightarrow> h1_reader \<Rightarrow> error_code \<Rightarrow> bool \<Rightarrow> bool \<Rightarrow> h1_client \<Rightarrow> h1_client" where
  "response_header i r ec complete got_some c =
     (let n = hr_request r;
          r1 = r\<lparr>hr_busy := False, hr_done := complete, hr_header := (ec = Success)\<rparr>;
          c1 = took_message complete n (end_op False c)
      in if ec = Canceled \<and> \<not> got_some
         then (case map_of (hc_writers c1) n of
                 None \<Rightarrow> set_reader i (r1\<lparr>hr_finished := True\<rparr>) c1
               | Some w \<Rightarrow> set_writer n (w\<lparr>hw_response_requested := False\<rparr>) (set_reader i (r1\<lparr>hr_finished := True\<rparr>) c1))
         else if ec = Success \<and> complete then finish_reader i r1 c1
         else set_reader i r1 c1)"

definition read_response :: "nat \<Rightarrow> h1_reader \<Rightarrow> nat \<Rightarrow> h1_client \<Rightarrow> error_code option \<times> h1_client" where
  "read_response i r room c =
     (case read_entry room r of
        Some ec \<Rightarrow> (Some ec, c)
      | None \<Rightarrow> (None, begin_op False (set_reader i (r\<lparr>hr_busy := True\<rparr>) c)))"

text \<open>One round of \<open>read_some()\<close> is over.\<close>

definition response_read :: "nat \<Rightarrow> h1_reader \<Rightarrow> error_code \<Rightarrow> nat \<Rightarrow> bool \<Rightarrow> h1_client \<Rightarrow> error_code option \<times> h1_client" where
  "response_read i r ec payload complete c =
     (let r1 = r\<lparr>hr_done := complete\<rparr>;
          result = read_exit ec payload r1;
          r2 = r1\<lparr>hr_busy := (result = None)\<rparr>;
          c1 = took_message complete (hr_request r) (end_op False c);
          c2 = (if complete then finish_reader i r2 c1 else set_reader i r2 c1)
      in (result, if result = None then begin_op False c2 else c2))"

definition drop_reader :: "nat \<Rightarrow> h1_reader \<Rightarrow> h1_client \<Rightarrow> h1_client" where
  "drop_reader i r c =
     (let c1 = finish_reader i r c in c1\<lparr>hc_readers := AList.delete i (hc_readers c1)\<rparr>)"

section \<open>The end of the session\<close>

definition detach_all :: "h1_client \<Rightarrow> h1_client" where
  "detach_all c =
     c\<lparr>hc_writers := map (\<lambda>(n, w). (n, w\<lparr>hw_session := False\<rparr>)) (hc_writers c),
       hc_readers := map (\<lambda>(i, r). (i, r\<lparr>hr_session := False\<rparr>)) (hc_readers c)\<rparr>"

text \<open>\<open>shutdown()\<close> up to where it waits for the operations on the stream, if there are any.\<close>

definition shutdown_session :: "h1_client \<Rightarrow> error_code option \<times> h1_client" where
  "shutdown_session c =
     (if hc_shutting_down c then (Some Success, c)
      else let intact = (\<not> hc_send_failed c \<and> hc_ops_writes c = 0)
           in (None, detach_all (c\<lparr>hc_shutting_down := True, hc_closing := Some intact, hc_send_failed := True,
                                   hc_receive_failed := True, hc_sending := None\<rparr>)))"

text \<open>The rest of it, when nothing is on the stream any more: \<open>end_connection()\<close> with or without a notice.\<close>

definition end_session :: "bool \<Rightarrow> h1_client \<Rightarrow> error_code \<times> h1_client" where
  "end_session intact c =
     (if intact then Success else Connection_aborted, c\<lparr>hc_closing := None, hc_ended := Some intact\<rparr>)"

section \<open>Runs\<close>

text \<open>An operation is possible only where the program can get to: a handle exists, it has no operation of the
  same kind in progress (which the callers promise), and what completes has been started. A response that
  came with an error is dropped and not read from.\<close>

datatype h1_op =
    Submit bool string
  | Header_written nat error_code
  | Write nat bytes bool
  | Written nat error_code
  | Release nat
  | Get_response nat
  | Response_header nat error_code bool bool
  | Read nat nat
  | Read_done nat error_code nat bool
  | Drop nat
  | Shutdown
  | Shutdown_ends

fun hc_step :: "h1_op \<Rightarrow> h1_client \<Rightarrow> h1_client" where
  "hc_step (Submit chunked len) c = snd (submit_request chunked len c)"
| "hc_step (Header_written n ec) c =
     (case map_of (hc_writers c) n of
        Some w \<Rightarrow> if hw_op w = Head_write then header_written n w ec c else c
      | None \<Rightarrow> c)"
| "hc_step (Write n buffer eof) c =
     (case map_of (hc_writers c) n of
        Some w \<Rightarrow> if hw_op w = No_write then snd (write_request n w buffer eof c) else c
      | None \<Rightarrow> c)"
| "hc_step (Written n ec) c =
     (case map_of (hc_writers c) n of
        Some w \<Rightarrow> (case hw_op w of Body_write buffer eof \<Rightarrow> request_written n w buffer eof ec c | _ \<Rightarrow> c)
      | None \<Rightarrow> c)"
| "hc_step (Release n) c =
     (case map_of (hc_writers c) n of
        Some w \<Rightarrow> if hw_op w = No_write then release_request n w c else c
      | None \<Rightarrow> c)"
| "hc_step (Get_response n) c =
     (case map_of (hc_writers c) n of
        Some w \<Rightarrow> if hw_op w \<noteq> Head_write then snd (get_response n w c) else c
      | None \<Rightarrow> c)"
| "hc_step (Response_header i ec complete got_some) c =
     (case map_of (hc_readers c) i of
        Some r \<Rightarrow> if hr_busy r \<and> \<not> hr_header r \<and> (complete \<longrightarrow> ec = Success \<and> got_some)
                  then response_header i r ec complete got_some c else c
      | None \<Rightarrow> c)"
| "hc_step (Read i room) c =
     (case map_of (hc_readers c) i of
        Some r \<Rightarrow> if \<not> hr_busy r \<and> hr_header r then snd (read_response i r room c) else c
      | None \<Rightarrow> c)"
| "hc_step (Read_done i ec payload complete) c =
     (case map_of (hc_readers c) i of
        Some r \<Rightarrow> if hr_busy r \<and> hr_header r then snd (response_read i r ec payload complete c) else c
      | None \<Rightarrow> c)"
| "hc_step (Drop i) c =
     (case map_of (hc_readers c) i of
        Some r \<Rightarrow> if \<not> hr_busy r then drop_reader i r c else c
      | None \<Rightarrow> c)"
| "hc_step Shutdown c = snd (shutdown_session c)"
| "hc_step Shutdown_ends c =
     (case hc_closing c of Some intact \<Rightarrow> if hc_ops_pending c = 0 then snd (end_session intact c) else c | None \<Rightarrow> c)"

definition hc_run :: "h1_op list \<Rightarrow> h1_client" where
  "hc_run ops = fold hc_step ops hc_init"

end
