(* ===== verification/H1_Client_Inv.thy ===== *)
theory H1_Client_Inv
  imports H1_Client
begin

text \<open>
  The invariants of the client session of HTTP/1.1: on its sending side there is at most one request that is
  not finished, and the connection stands inside of it; on its receiving side there is at most one reader that
  still has to take a message, and it is the one at its own position.
\<close>

section \<open>Fields\<close>

lemmas hc_defs = set_writer_def set_reader_def begin_op_def end_op_def put_on_wire_def took_message_def
  request_complete_def request_failed_def reader_finished_def

lemma map_of_set_writer [simp]: "map_of (hc_writers (set_writer n w c)) m = (if m = n then Some w else map_of (hc_writers c) m)"
  by (simp add: set_writer_def tbl.lookup_put update_conv')

lemma map_of_set_reader [simp]: "map_of (hc_readers (set_reader n w c)) m = (if m = n then Some w else map_of (hc_readers c) m)"
  by (simp add: set_reader_def tbl.lookup_put update_conv')

section \<open>Sending\<close>

definition unfinished :: "h1_writer \<Rightarrow> bool" where
  "unfinished w = (\<not> hw_eof_submitted w \<and> \<not> hw_cancelled w)"

abbreviation pos :: "h1_client \<Rightarrow> position option" where
  "pos c \<equiv> position_after (Between 0) (hc_wire c)"

definition writer_ok :: "h1_client \<Rightarrow> nat \<Rightarrow> h1_writer \<Rightarrow> bool" where
  "writer_ok c n w =
     (n < hc_requests_sent c \<and> (hw_op w \<noteq> No_write \<longrightarrow> unfinished w) \<and> (\<not> hw_session w \<longrightarrow> hc_send_failed c) \<and>
      (hw_eof_submitted w \<longrightarrow> End n \<in> set (hc_wire c)) \<and>
      (unfinished w \<longrightarrow> n + 1 = hc_requests_sent c \<and>
         pos c = Some (if hw_op w = Head_write then Between n else Inside n) \<and>
         (hw_session w \<longrightarrow> hc_sending c = Some n)))"

definition sending_ok :: "h1_client \<Rightarrow> bool" where
  "sending_ok c =
     (pos c \<noteq> None \<and> (hc_sending c \<noteq> None \<longrightarrow> \<not> hc_send_failed c) \<and>
      (\<not> hc_send_failed c \<longrightarrow>
         (case hc_sending c of
            None \<Rightarrow> pos c = Some (Between (hc_requests_sent c))
          | Some n \<Rightarrow> \<exists>w. map_of (hc_writers c) n = Some w \<and> unfinished w \<and> hw_session w)))"

definition send_inv :: "h1_client \<Rightarrow> bool" where
  "send_inv c =
     (distinct_keys (hc_writers c) \<and> (\<forall>n w. map_of (hc_writers c) n = Some w \<longrightarrow> writer_ok c n w) \<and> sending_ok c)"

lemma send_invD:
  assumes "send_inv c"
  shows "distinct_keys (hc_writers c)" "map_of (hc_writers c) n = Some w \<Longrightarrow> writer_ok c n w" "sending_ok c"
  using assms by (auto simp: send_inv_def)

lemma only_unfinished:
  assumes "send_inv c" "map_of (hc_writers c) n = Some w" "unfinished w" "map_of (hc_writers c) m = Some v" "m \<noteq> n"
  shows "\<not> unfinished v" "hw_op v = No_write"
  using send_invD(2) [OF assms(1,2)] send_invD(2) [OF assms(1,4)] assms(3,5) by (auto simp: writer_ok_def)

text \<open>What is done to the one request that is not finished leaves the others alone.\<close>

lemma send_inv_update:
  assumes inv: "send_inv c" and n: "map_of (hc_writers c) n = Some w" "unfinished w"
    and c': "hc_writers c' = AList.update n w' (hc_writers c)" "hc_requests_sent c' = hc_requests_sent c"
    and failed: "hc_send_failed c \<Longrightarrow> hc_send_failed c'" "set (hc_wire c) \<subseteq> set (hc_wire c')" and ok: "writer_ok c' n w'" "sending_ok c'"
  shows "send_inv c'"
proof -
  have "writer_ok c' m v" if "map_of (hc_writers c') m = Some v" for m v
  proof (cases "m = n")
    case False
    then have m: "map_of (hc_writers c) m = Some v" using that by (simp add: c' update_conv')
    from only_unfinished [OF inv n m False] send_invD(2) [OF inv m] failed show ?thesis
      by (auto simp: writer_ok_def c' dest: subsetD)
  qed (use that ok in \<open>simp add: c' update_conv'\<close>)
  with tbl.ok_put [OF send_invD(1) [OF inv]] ok(2) show ?thesis by (simp add: send_inv_def c')
qed

text \<open>Operations on the receiving side do not touch the sending side.\<close>

definition same_sending :: "h1_writer \<Rightarrow> h1_writer \<Rightarrow> bool" where
  "same_sending w v =
     (hw_session v = hw_session w \<and> hw_eof_submitted v = hw_eof_submitted w \<and> hw_cancelled v = hw_cancelled w \<and> hw_op v = hw_op w)"

lemma send_inv_frame:
  assumes inv: "send_inv c"
    and same: "hc_requests_sent c' = hc_requests_sent c" "hc_sending c' = hc_sending c"
      "hc_send_failed c' = hc_send_failed c" "hc_wire c' = hc_wire c"
    and ws: "hc_writers c' = hc_writers c \<or>
      (\<exists>n w v. map_of (hc_writers c) n = Some w \<and> hc_writers c' = AList.update n v (hc_writers c) \<and> same_sending w v)"
  shows "send_inv c'"
proof -
  have old: "\<exists>w. map_of (hc_writers c) m = Some w \<and> same_sending w v" if "map_of (hc_writers c') m = Some v" for m v
    using that ws by (auto simp: update_conv' same_sending_def split: if_splits)
  have new: "\<exists>v. map_of (hc_writers c') m = Some v \<and> same_sending w v" if "map_of (hc_writers c) m = Some w" for m w
    using that ws by (auto simp: update_conv' same_sending_def)
  have "distinct_keys (hc_writers c')" using ws send_invD(1) [OF inv] tbl.ok_put by auto
  moreover have "writer_ok c' m v" if "map_of (hc_writers c') m = Some v" for m v
    using old [OF that] send_invD(2) [OF inv, of m] same by (auto simp: writer_ok_def same_sending_def unfinished_def)
  moreover have "sending_ok c'" using send_invD(3) [OF inv] new same
    by (fastforce simp: sending_ok_def same_sending_def unfinished_def split: option.splits)
  ultimately show ?thesis by (simp add: send_inv_def)
qed

lemma send_inv_requested:
  assumes "send_inv c" "map_of (hc_writers c) n = Some w"
    and "hc_writers c' = AList.update n (w\<lparr>hw_response_requested := b\<rparr>) (hc_writers c)"
    and "hc_requests_sent c' = hc_requests_sent c" "hc_sending c' = hc_sending c"
      "hc_send_failed c' = hc_send_failed c" "hc_wire c' = hc_wire c"
  shows "send_inv c'"
proof -
  have "same_sending w (w\<lparr>hw_response_requested := b\<rparr>)" by (simp add: same_sending_def)
  with assms(2,3) show ?thesis by (intro send_inv_frame [OF assms(1,4-7)]) blast
qed

lemma submit_send_inv:
  assumes inv: "send_inv c"
  shows "send_inv (snd (submit_request chunked len c))"
proof (cases "hc_send_failed c \<or> hc_sending c \<noteq> None")
  case True
  then show ?thesis using inv by (auto simp: submit_request_def)
next
  case False
  let ?n = "hc_requests_sent c"
  have fresh: "map_of (hc_writers c) ?n = None"
    using send_invD(2) [OF inv, of ?n] by (cases "map_of (hc_writers c) ?n") (auto simp: writer_ok_def)
  have p: "pos c = Some (Between ?n)" using send_invD(3) [OF inv] False by (simp add: sending_ok_def)
  have fin: "\<not> unfinished v" if "map_of (hc_writers c) m = Some v" for m v
    using send_invD(2) [OF inv that] False by (auto simp: writer_ok_def)
  define c' where "c' = snd (submit_request chunked len c)"
  have f: "hc_requests_sent c' = ?n + 1" "hc_sending c' = Some ?n" "hc_send_failed c' = False" "hc_wire c' = hc_wire c"
    using False by (auto simp: c'_def submit_request_def Let_def hc_defs)
  obtain w where w: "hc_writers c' = AList.update ?n w (hc_writers c)" "unfinished w" "hw_session w" "hw_op w = Head_write"
    using False by (auto simp: c'_def submit_request_def Let_def hc_defs unfinished_def)
  have "writer_ok c' m v" if "map_of (hc_writers c') m = Some v" for m v
    using that w p f fin [of m v] send_invD(2) [OF inv, of m v] False
    by (auto simp: update_conv' writer_ok_def unfinished_def split: if_splits)
  moreover have "sending_ok c'" using w p f by (simp add: sending_ok_def update_conv')
  ultimately show ?thesis using w(1) tbl.ok_put [OF send_invD(1) [OF inv]] by (simp add: send_inv_def c'_def)
qed

text \<open>How the sending side looks from the one request that is not finished.\<close>

lemma unfinished_view:
  assumes "send_inv c" "map_of (hc_writers c) n = Some w" "unfinished w"
  shows "n + 1 = hc_requests_sent c" "pos c = Some (if hw_op w = Head_write then Between n else Inside n)"
    and "hc_sending c = (if hw_session w then Some n else None)" "hc_send_failed c \<longleftrightarrow> \<not> hw_session w"
  using send_invD(2) [OF assms(1,2)] send_invD(3) [OF assms(1)] assms(3)
  by (auto simp: writer_ok_def sending_ok_def)

lemmas send_unfold = Let_def hc_defs writer_ok_def sending_ok_def unfinished_def position_after_append update_conv'

lemma header_written_send_inv:
  assumes inv: "send_inv c" and n: "map_of (hc_writers c) n = Some w" "hw_op w = Head_write"
  shows "send_inv (header_written n w ec c)"
proof -
  have u: "unfinished w" using send_invD(2) [OF inv n(1)] n(2) by (auto simp: writer_ok_def)
  note v = unfinished_view [OF inv n(1) u]
  define w' where "w' = (if ec \<noteq> Success then w\<lparr>hw_op := No_write, hw_cancelled := True\<rparr>
    else if hw_has_body w then w\<lparr>hw_op := No_write\<rparr> else w\<lparr>hw_op := No_write, hw_eof_submitted := True\<rparr>)"
  show ?thesis
  proof (rule send_inv_update [OF inv n(1) u, where w' = w'])
    show "hc_writers (header_written n w ec c) = AList.update n w' (hc_writers c)"
      by (simp add: header_written_def w'_def send_unfold)
    show "writer_ok (header_written n w ec c) n w'" "sending_ok (header_written n w ec c)"
      using u v n(2) by (auto simp: header_written_def w'_def send_unfold)
  qed (use v in \<open>auto simp: header_written_def send_unfold\<close>)
qed

lemma write_send_inv:
  assumes inv: "send_inv c" and n: "map_of (hc_writers c) n = Some w" "hw_op w = No_write"
  shows "send_inv (snd (write_request n w buffer eof c))"
proof (cases "write_entry buffer eof w")
  case None
  then have u: "unfinished w" "hw_session w" by (auto simp: write_entry_def unfinished_def split: if_splits)
  note v = unfinished_view [OF inv n(1) u(1)]
  show ?thesis
    by (rule send_inv_update [OF inv n(1) u(1), where w' = "w\<lparr>hw_op := Body_write buffer eof\<rparr>"])
      (use None u v n(2) in \<open>auto simp: write_request_def send_unfold\<close>)
qed (simp add: write_request_def inv)

lemma written_send_inv:
  assumes inv: "send_inv c" and n: "map_of (hc_writers c) n = Some w" "hw_op w = Body_write buffer eof"
  shows "send_inv (request_written n w buffer eof ec c)"
proof -
  have u: "unfinished w" using send_invD(2) [OF inv n(1)] n(2) by (auto simp: writer_ok_def)
  note v = unfinished_view [OF inv n(1) u]
  show ?thesis
  proof (rule send_inv_update [OF inv n(1) u, where w' = "write_exit ec eof w"])
    show "hc_writers (request_written n w buffer eof ec c) = AList.update n (write_exit ec eof w) (hc_writers c)"
      by (simp add: request_written_def send_unfold)
    show "writer_ok (request_written n w buffer eof ec c) n (write_exit ec eof w)" "sending_ok (request_written n w buffer eof ec c)"
      using u v n(2) by (auto simp: request_written_def written_def write_exit_def send_unfold)
  qed (use v in \<open>auto simp: request_written_def send_unfold\<close>)
qed

lemma release_send_inv:
  assumes inv: "send_inv c" and n: "map_of (hc_writers c) n = Some w" "hw_op w = No_write"
  shows "send_inv (release_request n w c)"
proof -
  let ?c = "release_request n w c"
  have f: "hc_wire ?c = hc_wire c" "hc_requests_sent ?c = hc_requests_sent c" "hc_writers ?c = AList.delete n (hc_writers c)"
    by (simp_all add: release_request_def request_released_def hc_defs Let_def)
  have s: "hc_sending ?c = (if hw_session w \<and> hc_sending c = Some n then None else hc_sending c)"
    "hc_send_failed ?c = (hc_send_failed c \<or> hw_session w \<and> hc_sending c = Some n)"
    by (auto simp: release_request_def request_released_def hc_defs Let_def)
  have sess: "hw_session w" if "hc_sending c = Some n"
    using that send_invD(3) [OF inv] n(1) by (auto simp: sending_ok_def)
  have lk: "map_of (hc_writers ?c) m = (if m = n then None else map_of (hc_writers c) m)" for m
    using send_invD(1) [OF inv] by (simp add: f tbl.lookup_del)
  have "writer_ok ?c m v" if "map_of (hc_writers ?c) m = Some v" for m v
    using that send_invD(2) [OF inv, of m v] s f lk by (auto simp: writer_ok_def split: if_splits)
  moreover have "sending_ok ?c"
    using send_invD(3) [OF inv] s f lk sess by (auto simp: sending_ok_def split: option.splits)
  ultimately show ?thesis using tbl.ok_del [OF send_invD(1) [OF inv]] by (simp add: send_inv_def f)
qed

lemma shutdown_send_inv:
  assumes inv: "send_inv c"
  shows "send_inv (snd (shutdown_session c))"
proof (cases "hc_shutting_down c")
  case False
  let ?c = "snd (shutdown_session c)"
  have f: "hc_wire ?c = hc_wire c" "hc_requests_sent ?c = hc_requests_sent c" "hc_send_failed ?c" "hc_sending ?c = None"
    "hc_writers ?c = map (\<lambda>(n, w). (n, w\<lparr>hw_session := False\<rparr>)) (hc_writers c)"
    using False by (simp_all add: shutdown_session_def detach_all_def Let_def)
  have "writer_ok ?c m v" if "map_of (hc_writers ?c) m = Some v" for m v
    using that send_invD(2) [OF inv, of m] f by (auto simp: writer_ok_def map_of_map_entries unfinished_def)
  moreover have "sending_ok ?c" using send_invD(3) [OF inv] f by (auto simp: sending_ok_def)
  ultimately show ?thesis using send_invD(1) [OF inv] by (simp add: send_inv_def f)
qed (simp add: shutdown_session_def inv)

lemma finish_reader_sending [simp]:
  "hc_requests_sent (finish_reader i r c) = hc_requests_sent c" "hc_sending (finish_reader i r c) = hc_sending c"
  "hc_send_failed (finish_reader i r c) = hc_send_failed c" "hc_wire (finish_reader i r c) = hc_wire c"
  "hc_writers (finish_reader i r c) = hc_writers c" "hc_log (finish_reader i r c) = hc_log c"
  "hc_shutting_down (finish_reader i r c) = hc_shutting_down c" "hc_closing (finish_reader i r c) = hc_closing c"
  "hc_ended (finish_reader i r c) = hc_ended c" "hc_ops_pending (finish_reader i r c) = hc_ops_pending c"
  "hc_ops_writes (finish_reader i r c) = hc_ops_writes c" "hc_readers_made (finish_reader i r c) = hc_readers_made c"
  by (simp_all add: finish_reader_def hc_defs)

lemma response_header_fields [simp]:
  "hc_requests_sent (response_header i r ec complete got_some c) = hc_requests_sent c"
  "hc_sending (response_header i r ec complete got_some c) = hc_sending c"
  "hc_send_failed (response_header i r ec complete got_some c) = hc_send_failed c"
  "hc_wire (response_header i r ec complete got_some c) = hc_wire c"
  "hc_shutting_down (response_header i r ec complete got_some c) = hc_shutting_down c"
  "hc_closing (response_header i r ec complete got_some c) = hc_closing c"
  "hc_ended (response_header i r ec complete got_some c) = hc_ended c"
  "hc_readers_made (response_header i r ec complete got_some c) = hc_readers_made c"
  "hc_ops_pending (response_header i r ec complete got_some c) = hc_ops_pending c - 1"
  "hc_ops_writes (response_header i r ec complete got_some c) = hc_ops_writes c"
  "hc_log (response_header i r ec complete got_some c) = hc_log c @ (if complete then [hr_request r] else [])"
  by (simp_all add: response_header_def Let_def hc_defs split: option.splits)

lemma response_header_writers:
  "hc_writers (response_header i r ec complete got_some c) =
     (if ec = Canceled \<and> \<not> got_some
      then case map_of (hc_writers c) (hr_request r) of
             None \<Rightarrow> hc_writers c
           | Some w \<Rightarrow> AList.update (hr_request r) (w\<lparr>hw_response_requested := False\<rparr>) (hc_writers c)
      else hc_writers c)"
  by (simp add: response_header_def Let_def hc_defs split: option.splits)

lemma response_header_send_inv: "send_inv c \<Longrightarrow> send_inv (response_header i r ec complete got_some c)"
  by (cases "map_of (hc_writers c) (hr_request r)"; cases "ec = Canceled \<and> \<not> got_some")
    (auto intro: send_inv_requested send_inv_frame simp: response_header_writers)

lemma hc_step_send_inv:
  assumes "send_inv c"
  shows "send_inv (hc_step op c)"
proof (cases op)
  case (Get_response n)
  then show ?thesis
    using assms by (auto intro!: send_inv_requested [OF assms] simp: get_response_def Let_def hc_defs split: option.splits)
next
  case (Response_header i ec complete got_some)
  then show ?thesis
    using assms by (auto intro: response_header_send_inv split: option.splits)
next
  case (Read i room)
  then show ?thesis
    using assms by (auto intro!: send_inv_frame [OF assms] simp: read_response_def hc_defs split: option.splits)
next
  case (Read_done i ec payload complete)
  then show ?thesis
    using assms by (auto intro!: send_inv_frame [OF assms] simp: response_read_def Let_def hc_defs split: option.splits)
next
  case (Drop i)
  then show ?thesis
    using assms by (auto intro!: send_inv_frame [OF assms] simp: drop_reader_def Let_def split: option.splits)
next
  case Shutdown_ends
  then show ?thesis
    using assms by (auto intro!: send_inv_frame [OF assms] simp: end_session_def split: option.splits)
qed (use assms in \<open>auto simp: submit_send_inv header_written_send_inv write_send_inv written_send_inv release_send_inv
  shutdown_send_inv split: option.splits writer_op.splits\<close>)

lemma hc_init_send_inv: "send_inv hc_init"
  by (simp add: send_inv_def hc_init_def distinct_keys_def sending_ok_def)

section \<open>Receiving\<close>

text \<open>A reader that still has to take its message off the connection.\<close>

definition live :: "h1_reader \<Rightarrow> bool" where
  "live r = (\<not> hr_done r \<and> \<not> hr_finished r)"

definition reader_ok :: "h1_client \<Rightarrow> nat \<Rightarrow> h1_reader \<Rightarrow> bool" where
  "reader_ok c i r =
     (i < hc_readers_made c \<and> hr_request r < hc_requests_sent c \<and> (hr_busy r \<longrightarrow> live r) \<and> (hr_session r \<longleftrightarrow> \<not> hc_shutting_down c) \<and>
      (hr_finished r \<longrightarrow> hr_done r \<or> \<not> hr_header r) \<and> (hr_done r \<and> hr_session r \<longrightarrow> hr_finished r) \<and>
      (live r \<longrightarrow> hr_request r = length (hc_log c) \<and>
         (\<forall>w. map_of (hc_writers c) (hr_request r) = Some w \<longrightarrow> hw_response_requested w)))"

definition recv_inv :: "h1_client \<Rightarrow> bool" where
  "recv_inv c =
     (distinct_keys (hc_readers c) \<and> (\<forall>i r. map_of (hc_readers c) i = Some r \<longrightarrow> reader_ok c i r) \<and>
      (\<forall>i j r q. map_of (hc_readers c) i = Some r \<longrightarrow> map_of (hc_readers c) j = Some q \<longrightarrow> live r \<longrightarrow> live q \<longrightarrow> i = j) \<and>
      (\<forall>n w. map_of (hc_writers c) n = Some w \<longrightarrow> (hw_session w \<longleftrightarrow> \<not> hc_shutting_down c)) \<and>
      (hc_shutting_down c \<longrightarrow> hc_send_failed c) \<and>
      hc_log c = [0..<length (hc_log c)] \<and>
      (\<not> hc_shutting_down c \<longrightarrow> hc_responses_read c = length (hc_log c)))"

lemma recv_invD:
  assumes "recv_inv c"
  shows "distinct_keys (hc_readers c)" "map_of (hc_readers c) i = Some r \<Longrightarrow> reader_ok c i r"
    and "map_of (hc_readers c) i = Some r \<Longrightarrow> map_of (hc_readers c) j = Some q \<Longrightarrow> live r \<Longrightarrow> live q \<Longrightarrow> i = j"
    and "map_of (hc_writers c) n = Some w \<Longrightarrow> hw_session w \<longleftrightarrow> \<not> hc_shutting_down c"
    and "hc_shutting_down c \<Longrightarrow> hc_send_failed c"
    and "hc_log c = [0..<length (hc_log c)]"
    and "\<not> hc_shutting_down c \<Longrightarrow> hc_responses_read c = length (hc_log c)"
  using assms by (auto simp: recv_inv_def)

text \<open>A step that concerns one reader: it stays what it was for the session, and if it is still live, it was so
  before and nothing has been read.\<close>

lemma recv_inv_reader:
  assumes inv: "recv_inv c" and i: "map_of (hc_readers c) i = Some r"
    and readers: "\<And>j. map_of (hc_readers c') j = (if j = i then new else map_of (hc_readers c) j)" "distinct_keys (hc_readers c')"
    and same: "hc_readers_made c' = hc_readers_made c" "hc_shutting_down c' = hc_shutting_down c" "hc_send_failed c' = hc_send_failed c"
      "hc_requests_sent c' = hc_requests_sent c"
    and writers: "\<And>n w. map_of (hc_writers c') n = Some w \<Longrightarrow> \<exists>v. map_of (hc_writers c) n = Some v \<and> hw_session w = hw_session v \<and>
      (hw_response_requested w = hw_response_requested v \<or> n = hr_request r \<and> live r)"
    and new: "\<And>r'. new = Some r' \<Longrightarrow> (hr_busy r' \<longrightarrow> live r') \<and> hr_session r' = hr_session r \<and> hr_request r' = hr_request r \<and>
      (hr_finished r' \<longrightarrow> hr_done r' \<or> \<not> hr_header r') \<and> (hr_done r' \<and> hr_session r' \<longrightarrow> hr_finished r') \<and>
      (live r' \<longrightarrow> live r \<and> hc_log c' = hc_log c \<and> hc_writers c' = hc_writers c)"
    and log: "hc_log c' = hc_log c \<and> hc_responses_read c' = hc_responses_read c \<or>
      live r \<and> hc_log c' = hc_log c @ [hr_request r] \<and>
        hc_responses_read c' = hc_responses_read c + (if hr_session r then 1 else 0)"
  shows "recv_inv c'"
  unfolding recv_inv_def
proof (intro conjI allI impI)
  note I = recv_invD [OF inv]
  have ok: "reader_ok c i r" by (rule I(2) [OF i])
  have others: "\<not> live q" if "map_of (hc_readers c) j = Some q" "j \<noteq> i" "live r" for j q
    using I(3) [OF that(1) i] that by blast
  show "distinct_keys (hc_readers c')" by fact
  show "reader_ok c' j q" if j: "map_of (hc_readers c') j = Some q" for j q
  proof (cases "j = i")
    case True
    then have q: "new = Some q" using j readers(1) by simp
    with new [OF q] ok show ?thesis unfolding reader_ok_def True by (auto simp: same)
  next
    case False
    then have m: "map_of (hc_readers c) j = Some q" using j readers(1) by simp
    note okj = I(2) [OF m]
    show ?thesis
    proof (cases "live q")
      case True
      then have nl: "\<not> live r" using others [OF m False] by blast
      have lg: "hc_log c' = hc_log c" using log nl by blast
      have "hw_response_requested w" if "map_of (hc_writers c') (hr_request q) = Some w" for w
        using writers [OF that] okj True nl by (auto simp: reader_ok_def)
      with okj True lg show ?thesis by (auto simp: reader_ok_def same)
    qed (use okj in \<open>auto simp: reader_ok_def same\<close>)
  qed
  show "j = k" if "map_of (hc_readers c') j = Some q" "map_of (hc_readers c') k = Some p" "live q" "live p" for j k q p
  proof (cases "j = i"; cases "k = i")
    assume "j = i" "k \<noteq> i"
    then show ?thesis using that readers(1) new others by (metis option.inject)
  next
    assume "j \<noteq> i" "k = i"
    then show ?thesis using that readers(1) new others by (metis option.inject)
  next
    assume "j \<noteq> i" "k \<noteq> i"
    then show ?thesis using that readers(1) I(3) by simp
  qed auto
  show "hw_session w = (\<not> hc_shutting_down c')" if "map_of (hc_writers c') n = Some w" for n w
    using writers [OF that] I(4) same(2) by auto
  show "hc_send_failed c'" if "hc_shutting_down c'" using that I(5) same by simp
  show "hc_log c' = [0..<length (hc_log c')]"
    using log I(6) ok by (auto simp: reader_ok_def)
  show "hc_responses_read c' = length (hc_log c')" if "\<not> hc_shutting_down c'"
    using that log I(7) ok same(2) by (auto simp: reader_ok_def)
qed

text \<open>A step that concerns requests only.\<close>

lemma recv_inv_frame:
  assumes inv: "recv_inv c"
    and same: "hc_readers c' = hc_readers c" "hc_readers_made c' = hc_readers_made c" "hc_shutting_down c' = hc_shutting_down c"
      "hc_log c' = hc_log c" "hc_responses_read c' = hc_responses_read c"
    and more: "hc_send_failed c \<Longrightarrow> hc_send_failed c'" "hc_requests_sent c \<le> hc_requests_sent c'"
    and writers: "\<And>n w. map_of (hc_writers c') n = Some w \<Longrightarrow> hw_session w = (\<not> hc_shutting_down c) \<and>
      (hc_requests_sent c \<le> n \<or> (\<exists>v. map_of (hc_writers c) n = Some v \<and> hw_response_requested w = hw_response_requested v))"
  shows "recv_inv c'"
proof -
  note I = recv_invD [OF inv]
  have "reader_ok c' i r" if "map_of (hc_readers c') i = Some r" for i r
  proof -
    have ok: "reader_ok c i r" using that I(2) same by simp
    have "hw_response_requested w" if "live r" "map_of (hc_writers c') (hr_request r) = Some w" for w
      using writers [OF that(2)] ok that(1) by (auto simp: reader_ok_def)
    with ok more(2) show ?thesis by (auto simp: reader_ok_def same)
  qed
  then show ?thesis unfolding recv_inv_def
    using I(1) I(3) I(5,7) more(1) writers I(6) by (auto simp: same)
qed

lemma submit_recv_inv:
  assumes "recv_inv c"
  shows "recv_inv (snd (submit_request chunked len c))"
proof (cases "hc_send_failed c \<or> hc_sending c \<noteq> None")
  case False
  then have "\<not> hc_shutting_down c" using recv_invD(5) [OF assms] by blast
  then show ?thesis
    using False recv_invD(4) [OF assms]
    by (intro recv_inv_frame [OF assms]) (auto simp: submit_request_def Let_def hc_defs update_conv' split: if_splits)
qed (use assms in \<open>auto simp: submit_request_def\<close>)

lemma release_recv_inv:
  assumes "recv_inv c" "distinct_keys (hc_writers c)"
  shows "recv_inv (release_request n w c)"
  using recv_invD(4) [OF assms(1)] assms(2)
  by (intro recv_inv_frame [OF assms(1)])
    (auto simp: release_request_def request_released_def Let_def hc_defs tbl.lookup_del split: if_splits)

lemma get_response_recv_inv:
  assumes inv: "recv_inv c" and n: "map_of (hc_writers c) n = Some w" "n < hc_requests_sent c"
  shows "recv_inv (snd (get_response n w c))"
proof (cases "hw_response_requested w \<or> \<not> hw_session w \<or> hc_receive_failed c \<or> n \<noteq> hc_responses_read c")
  case False
  note I = recv_invD [OF inv]
  define c' where "c' = snd (get_response n w c)"
  let ?r = "\<lparr>hr_session = True, hr_done = False, hr_finished = False, hr_header = False, hr_busy = True, hr_request = n\<rparr>"
  have run: "\<not> hc_shutting_down c" "n = length (hc_log c)" using False I(4) [OF n(1)] I(7) by auto
  have f: "hc_readers_made c' = hc_readers_made c + 1" "hc_log c' = hc_log c" "hc_shutting_down c' = hc_shutting_down c"
    "hc_send_failed c' = hc_send_failed c" "hc_responses_read c' = hc_responses_read c" "hc_requests_sent c' = hc_requests_sent c"
    "hc_readers c' = AList.update (hc_readers_made c) ?r (hc_readers c)"
    "hc_writers c' = AList.update n (w\<lparr>hw_response_requested := True\<rparr>) (hc_writers c)"
    using False by (auto simp: c'_def get_response_def Let_def hc_defs)
  have dead: "\<not> live q" if q: "map_of (hc_readers c) j = Some q" for j q
  proof
    assume "live q"
    then have "hr_request q = n" "\<forall>v. map_of (hc_writers c) n = Some v \<longrightarrow> hw_response_requested v"
      using I(2) [OF q] run by (auto simp: reader_ok_def)
    then show False using n(1) False by blast
  qed
  have "reader_ok c' j q" if "map_of (hc_readers c') j = Some q" for j q
    using that dead [of j q] I(2) [of j q] run n(2)
    by (auto simp: f update_conv' reader_ok_def live_def split: if_splits)
  moreover have "j = k" if "map_of (hc_readers c') j = Some q" "map_of (hc_readers c') k = Some p" "live q" "live p" for j k q p
    using that dead by (auto simp: f update_conv' split: if_splits)
  moreover have "hw_session v = (\<not> hc_shutting_down c')" if "map_of (hc_writers c') m = Some v" for m v
    using that I(4) n(1) by (auto simp: f update_conv' split: if_splits)
  ultimately show ?thesis unfolding recv_inv_def c'_def [symmetric]
    using I(5,6,7) tbl.ok_put [OF I(1)] by (auto simp: f)
qed (use inv in \<open>auto simp: get_response_def\<close>)

lemma shutdown_recv_inv:
  assumes inv: "recv_inv c"
  shows "recv_inv (snd (shutdown_session c))"
proof (cases "hc_shutting_down c")
  case False
  note I = recv_invD [OF inv]
  let ?c = "snd (shutdown_session c)"
  have f: "hc_readers_made ?c = hc_readers_made c" "hc_log ?c = hc_log c" "hc_shutting_down ?c" "hc_send_failed ?c"
    "hc_requests_sent ?c = hc_requests_sent c"
    "hc_readers ?c = map (\<lambda>(i, r). (i, r\<lparr>hr_session := False\<rparr>)) (hc_readers c)"
    "hc_writers ?c = map (\<lambda>(n, w). (n, w\<lparr>hw_session := False\<rparr>)) (hc_writers c)"
    using False by (simp_all add: shutdown_session_def detach_all_def Let_def)
  have "reader_ok ?c j q" if "map_of (hc_readers ?c) j = Some q" for j q
    using that I(2) [of j] by (auto simp: f map_of_map_entries reader_ok_def live_def)
  moreover have "j = k" if "map_of (hc_readers ?c) j = Some q" "map_of (hc_readers ?c) k = Some p" "live q" "live p" for j k q p
    using that I(3) by (auto simp: f map_of_map_entries live_def)
  moreover have "hw_session v = (\<not> hc_shutting_down ?c)" if "map_of (hc_writers ?c) m = Some v" for m v
    using that by (auto simp: f map_of_map_entries)
  ultimately show ?thesis unfolding recv_inv_def using I(1,6) by (auto simp: f)
qed (use inv in \<open>simp add: shutdown_session_def\<close>)

lemma finish_reader_readers [simp]:
  "hc_readers (finish_reader i r c) = AList.update i (r\<lparr>hr_finished := hr_finished r \<or> hr_session r\<rparr>) (hc_readers c)"
  "hc_responses_read (finish_reader i r c) =
     hc_responses_read c + (if hr_session r \<and> \<not> hr_finished r \<and> hr_done r then 1 else 0)"
  by (cases r; auto simp: finish_reader_def hc_defs)+

lemma response_header_recv_inv:
  assumes inv: "recv_inv c" and i: "map_of (hc_readers c) i = Some r" "hr_busy r" "\<not> hr_header r"
    and complete: "complete \<longrightarrow> ec = Success \<and> got_some"
  shows "recv_inv (response_header i r ec complete got_some c)"
proof -
  note I = recv_invD [OF inv]
  have ok: "live r" "reader_ok c i r" using I(2) [OF i(1)] i(2) by (auto simp: reader_ok_def)
  define r' where "r' = r\<lparr>hr_busy := False, hr_done := complete, hr_header := (ec = Success),
    hr_finished := ec = Canceled \<and> \<not> got_some \<or> ec = Success \<and> complete \<and> hr_session r\<rparr>"
  have rd: "hc_readers (response_header i r ec complete got_some c) = AList.update i r' (hc_readers c)"
    using ok(1) by (cases r) (auto simp: response_header_def Let_def hc_defs r'_def live_def split: option.splits)
  have rr: "hc_responses_read (response_header i r ec complete got_some c) = hc_responses_read c + (if complete \<and> hr_session r then 1 else 0)"
    using ok(1) complete by (auto simp: response_header_def Let_def hc_defs live_def split: option.splits)
  show ?thesis
  proof (rule recv_inv_reader [OF inv i(1), where new = "Some r'"])
    show "distinct_keys (hc_readers (response_header i r ec complete got_some c))" using tbl.ok_put [OF I(1)] by (simp add: rd)
    show "\<exists>v. map_of (hc_writers c) n = Some v \<and> hw_session w = hw_session v \<and>
        (hw_response_requested w = hw_response_requested v \<or> n = hr_request r \<and> live r)"
      if "map_of (hc_writers (response_header i r ec complete got_some c)) n = Some w" for n w
      using that ok by (auto simp: response_header_writers update_conv' split: if_splits option.splits)
  qed (use ok complete rr in \<open>auto simp: rd update_conv' r'_def live_def response_header_writers\<close>)
qed

lemma read_response_recv_inv:
  assumes inv: "recv_inv c" and i: "map_of (hc_readers c) i = Some r" "hr_header r"
  shows "recv_inv (snd (read_response i r room c))"
proof (cases "read_entry room r")
  case None
  note I = recv_invD [OF inv]
  have l: "live r" using None I(2) [OF i(1)] i(2) by (auto simp: read_entry_def live_def reader_ok_def split: if_splits)
  show ?thesis
    by (rule recv_inv_reader [OF inv i(1), where new = "Some (r\<lparr>hr_busy := True\<rparr>)"])
      (use None l tbl.ok_put [OF I(1)] i(2) in \<open>auto simp: read_response_def hc_defs update_conv' live_def\<close>)
qed (use inv in \<open>simp add: read_response_def\<close>)

lemma response_read_recv_inv:
  assumes inv: "recv_inv c" and i: "map_of (hc_readers c) i = Some r" "hr_busy r" "hr_header r"
  shows "recv_inv (snd (response_read i r ec payload complete c))"
proof -
  note I = recv_invD [OF inv]
  have l: "live r" using I(2) [OF i(1)] i(2) by (auto simp: reader_ok_def)
  define c' where "c' = snd (response_read i r ec payload complete c)"
  define r' where "r' = r\<lparr>hr_done := complete, hr_busy := (read_exit ec payload (r\<lparr>hr_done := complete\<rparr>) = None),
    hr_finished := complete \<and> hr_session r\<rparr>"
  have rd: "hc_readers c' = AList.update i r' (hc_readers c)"
    using l by (cases r) (auto simp: c'_def response_read_def Let_def hc_defs r'_def live_def)
  have f: "hc_log c' = hc_log c @ (if complete then [hr_request r] else [])" "hc_writers c' = hc_writers c"
    "hc_responses_read c' = hc_responses_read c + (if complete \<and> hr_session r then 1 else 0)"
    "hc_readers_made c' = hc_readers_made c" "hc_shutting_down c' = hc_shutting_down c" "hc_send_failed c' = hc_send_failed c"
    "hc_requests_sent c' = hc_requests_sent c"
    using l by (auto simp: c'_def response_read_def Let_def hc_defs live_def)
  have "recv_inv c'"
    by (rule recv_inv_reader [OF inv i(1), where new = "Some r'"])
      (use l tbl.ok_put [OF I(1)] in \<open>auto simp: rd f update_conv' r'_def live_def read_exit_def\<close>)
  then show ?thesis by (simp add: c'_def)
qed

lemma drop_reader_recv_inv:
  assumes inv: "recv_inv c" and i: "map_of (hc_readers c) i = Some r" "\<not> hr_busy r"
  shows "recv_inv (drop_reader i r c)"
proof -
  note I = recv_invD [OF inv]
  have d: "hr_done r \<Longrightarrow> hr_session r \<Longrightarrow> hr_finished r" using I(2) [OF i(1)] by (simp add: reader_ok_def)
  show ?thesis
    by (rule recv_inv_reader [OF inv i(1), where new = None])
      (use d tbl.ok_put [OF I(1)] tbl.ok_del [OF tbl.ok_put [OF I(1)]] in \<open>auto simp: drop_reader_def Let_def tbl.lookup_del update_conv'\<close>)
qed

lemma header_written_recv_inv:
  assumes "recv_inv c" "map_of (hc_writers c) n = Some w"
  shows "recv_inv (header_written n w ec c)"
  using recv_invD(4) [OF assms(1)] assms(2)
  by (intro recv_inv_frame [OF assms(1)]) (auto simp: header_written_def Let_def hc_defs update_conv' split: if_splits)

lemma write_recv_inv:
  assumes "recv_inv c" "map_of (hc_writers c) n = Some w"
  shows "recv_inv (snd (write_request n w buffer eof c))"
  using recv_invD(4) [OF assms(1)] assms(2)
  by (intro recv_inv_frame [OF assms(1)]) (auto simp: write_request_def hc_defs update_conv' split: if_splits option.splits)

lemma written_recv_inv:
  assumes "recv_inv c" "map_of (hc_writers c) n = Some w"
  shows "recv_inv (request_written n w buffer eof ec c)"
  using recv_invD(4) [OF assms(1)] assms(2)
  by (intro recv_inv_frame [OF assms(1)])
    (auto simp: request_written_def write_exit_def Let_def hc_defs update_conv' split: if_splits)

lemma hc_step_recv_inv:
  assumes "recv_inv c" "send_inv c"
  shows "recv_inv (hc_step op c)"
proof (cases op)
  case (Get_response n)
  then show ?thesis using assms send_invD(2) [OF assms(2), of n]
    by (auto simp: writer_ok_def intro: get_response_recv_inv split: option.splits)
next
  case Shutdown_ends
  then show ?thesis using assms recv_invD(4) [OF assms(1)]
    by (auto intro!: recv_inv_frame [OF assms(1)] simp: end_session_def split: option.splits)
qed (use assms send_invD(1) [OF assms(2)] in \<open>auto intro: submit_recv_inv header_written_recv_inv write_recv_inv written_recv_inv
  release_recv_inv response_header_recv_inv read_response_recv_inv response_read_recv_inv drop_reader_recv_inv shutdown_recv_inv
  split: option.splits writer_op.splits\<close>)

lemma hc_init_recv_inv: "recv_inv hc_init"
  by (simp add: recv_inv_def hc_init_def distinct_keys_def)

end
