(* ===== verification/H1_Client_Properties.thy ===== *)
theory H1_Client_Properties
  imports H1_Client_Inv
begin

text \<open>
  What the client session of HTTP/1.1 promises, in every run: requests go onto the connection one after the
  other and each as a whole, the response a request gets is the message at its own position, and the
  connection is ended in order only when nothing is in progress on it.
\<close>

section \<open>What is in progress\<close>

definition writing :: "h1_writer \<Rightarrow> nat" where "writing w = of_bool (hw_op w \<noteq> No_write)"
definition reading :: "h1_reader \<Rightarrow> nat" where "reading r = of_bool (hr_busy r)"

definition ops_inv :: "h1_client \<Rightarrow> bool" where
  "ops_inv c =
     (hc_ops_writes c = tally writing (hc_writers c) \<and>
      hc_ops_pending c = tally writing (hc_writers c) + tally reading (hc_readers c) \<and>
      (hc_closing c \<noteq> None \<or> hc_ended c \<noteq> None \<longrightarrow> hc_shutting_down c) \<and>
      (hc_closing c = Some True \<or> hc_ended c = Some True \<longrightarrow> hc_ops_writes c = 0 \<and> pos c \<noteq> Some Dead) \<and>
      (hc_ended c \<noteq> None \<longrightarrow> hc_ops_pending c = 0 \<and> hc_closing c = None))"

lemma tally_pos: "map_of t k = Some v \<Longrightarrow> 0 < f v \<Longrightarrow> 0 < tally f t"
  using tally_zero [of f t k v] by (cases "tally f t") auto

text \<open>A step of a write or of a read changes what is in progress by the step itself; a write that is in progress
  keeps the connection from being ended with a notice.\<close>

lemma ops_inv_writer:
  assumes inv: "ops_inv c" and n: "distinct_keys (hc_writers c)" "map_of (hc_writers c) n = Some w"
    and c': "hc_writers c' = AList.update n w' (hc_writers c)" "tally reading (hc_readers c') = tally reading (hc_readers c)"
      "hc_shutting_down c' = hc_shutting_down c" "hc_closing c' = hc_closing c" "hc_ended c' = hc_ended c"
    and counts: "hc_ops_pending c' + writing w = hc_ops_pending c + writing w'" "hc_ops_writes c' + writing w = hc_ops_writes c + writing w'"
    and ends: "writing w = 1 \<and> writing w' = 0 \<or> hc_wire c' = hc_wire c \<and> (writing w' = writing w \<or> \<not> hc_shutting_down c)"
  shows "ops_inv c'"
proof -
  have t: "tally writing (hc_writers c') + writing w = tally writing (hc_writers c) + writing w'"
    using tally_update [OF n, of writing w'] by (simp add: c')
  have busy: "0 < tally writing (hc_writers c)" if "writing w = 1" using tally_pos [OF n(2), of writing] that by simp
  show ?thesis
    using inv t counts ends busy unfolding ops_inv_def c' by (elim disjE) auto
qed

lemma ops_inv_reader:
  assumes inv: "ops_inv c" and i: "distinct_keys (hc_readers c)" "map_of (hc_readers c) i = Some r"
    and c': "hc_readers c' = AList.update i r' (hc_readers c)" "tally writing (hc_writers c') = tally writing (hc_writers c)"
      "hc_shutting_down c' = hc_shutting_down c" "hc_closing c' = hc_closing c" "hc_ended c' = hc_ended c" "hc_wire c' = hc_wire c"
      "hc_ops_writes c' = hc_ops_writes c"
    and counts: "hc_ops_pending c' + reading r = hc_ops_pending c + reading r'" "reading r' \<le> reading r \<or> \<not> hc_shutting_down c"
  shows "ops_inv c'"
proof -
  have t: "tally reading (hc_readers c') + reading r = tally reading (hc_readers c) + reading r'"
    using tally_update [OF i, of reading r'] by (simp add: c')
  show ?thesis using inv t counts unfolding ops_inv_def c' by auto
qed

lemma ops_count_pos:
  assumes "ops_inv c"
  shows "map_of (hc_writers c) n = Some w \<Longrightarrow> hw_op w \<noteq> No_write \<Longrightarrow> 0 < hc_ops_pending c \<and> 0 < hc_ops_writes c"
    and "map_of (hc_readers c) i = Some r \<Longrightarrow> hr_busy r \<Longrightarrow> 0 < hc_ops_pending c"
  using assms tally_pos [of "hc_writers c" n w writing] tally_pos [of "hc_readers c" i r reading]
  by (auto simp: ops_inv_def writing_def reading_def)

lemma get_response_ops_inv:
  assumes inv: "ops_inv c" and fresh: "map_of (hc_readers c) (hc_readers_made c) = None"
    and same: "tally writing (AList.update n (w\<lparr>hw_response_requested := True\<rparr>) (hc_writers c)) = tally writing (hc_writers c)"
    and session: "hw_session w = (\<not> hc_shutting_down c)"
  shows "ops_inv (snd (get_response n w c))"
proof (cases "hw_response_requested w \<or> \<not> hw_session w \<or> hc_receive_failed c \<or> n \<noteq> hc_responses_read c")
  case False
  define c' where "c' = snd (get_response n w c)"
  obtain r where r: "hc_readers c' = AList.update (hc_readers_made c) r (hc_readers c)" "reading r = 1"
    using False by (auto simp: c'_def get_response_def Let_def hc_defs reading_def)
  have f: "hc_writers c' = AList.update n (w\<lparr>hw_response_requested := True\<rparr>) (hc_writers c)" "hc_wire c' = hc_wire c"
    "hc_ops_pending c' = hc_ops_pending c + 1" "hc_ops_writes c' = hc_ops_writes c" "hc_closing c' = hc_closing c"
    "hc_ended c' = hc_ended c" "hc_shutting_down c' = hc_shutting_down c"
    using False by (auto simp: c'_def get_response_def Let_def hc_defs)
  have "tally reading (hc_readers c') = tally reading (hc_readers c) + 1" using r fresh by (simp add: tally_fresh)
  with inv same session False show ?thesis unfolding c'_def [symmetric] ops_inv_def f by auto
qed (use inv in \<open>auto simp: get_response_def\<close>)

lemma shutdown_ops_inv:
  assumes inv: "ops_inv c" and send: "send_inv c"
  shows "ops_inv (snd (shutdown_session c))"
proof (cases "hc_shutting_down c")
  case False
  define c' where "c' = snd (shutdown_session c)"
  have f: "hc_wire c' = hc_wire c" "hc_ops_pending c' = hc_ops_pending c" "hc_ops_writes c' = hc_ops_writes c"
    "hc_closing c' = Some (\<not> hc_send_failed c \<and> hc_ops_writes c = 0)" "hc_ended c' = hc_ended c" "hc_shutting_down c'"
    "tally writing (hc_writers c') = tally writing (hc_writers c)" "tally reading (hc_readers c') = tally reading (hc_readers c)"
    using False by (simp_all add: c'_def shutdown_session_def detach_all_def Let_def tally_map_entries writing_def reading_def)
  have "pos c \<noteq> Some Dead" if "\<not> hc_send_failed c"
  proof (cases "hc_sending c")
    case None
    then show ?thesis using send_invD(3) [OF send] that by (simp add: sending_ok_def)
  next
    case (Some n)
    then obtain w where "map_of (hc_writers c) n = Some w" "unfinished w"
      using send_invD(3) [OF send] that by (auto simp: sending_ok_def)
    then show ?thesis using unfinished_view(2) [OF send] by (simp split: if_splits)
  qed
  moreover have "hc_ended c = None" using inv False by (auto simp: ops_inv_def)
  ultimately show ?thesis using inv f(6) unfolding c'_def [symmetric] ops_inv_def f(1-5,7,8) by auto
qed (use inv in \<open>simp add: shutdown_session_def\<close>)

lemma drop_reader_ops_inv:
  assumes inv: "ops_inv c" and i: "distinct_keys (hc_readers c)" "map_of (hc_readers c) i = Some r" "\<not> hr_busy r"
  shows "ops_inv (drop_reader i r c)"
proof -
  define r' where "r' = r\<lparr>hr_finished := hr_finished r \<or> hr_session r\<rparr>"
  have "reading r = 0" "reading r' = 0" using i(3) by (simp_all add: reading_def r'_def)
  then have t: "tally reading (AList.delete i (AList.update i r' (hc_readers c))) = tally reading (hc_readers c)"
    using tally_update [OF i(1,2), of reading r'] tally_delete [OF tbl.ok_put [OF i(1)], of i r' i r' reading]
    by (simp add: update_conv')
  have "hc_readers (drop_reader i r c) = AList.delete i (AList.update i r' (hc_readers c))"
    by (simp add: drop_reader_def Let_def r'_def)
  with inv t show ?thesis by (auto simp: ops_inv_def drop_reader_def Let_def)
qed

lemma response_header_idle:
  "\<exists>r'. hc_readers (response_header i r ec complete got_some c) = AList.update i r' (hc_readers c) \<and> \<not> hr_busy r'"
  by (intro exI [of _ "if ec = Canceled \<and> \<not> got_some then r\<lparr>hr_busy := False, hr_done := complete, hr_header := (ec = Success), hr_finished := True\<rparr>
       else if ec = Success \<and> complete then r\<lparr>hr_busy := False, hr_done := complete, hr_header := (ec = Success), hr_finished := hr_finished r \<or> hr_session r\<rparr>
       else r\<lparr>hr_busy := False, hr_done := complete, hr_header := (ec = Success)\<rparr>"])
    (simp add: response_header_def Let_def hc_defs split: option.splits)

lemma hc_step_ops_inv:
  assumes inv: "ops_inv c" and other: "send_inv c" "recv_inv c"
  shows "ops_inv (hc_step op c)"
proof -
  note S = send_invD [OF other(1)] and R = recv_invD [OF other(2)] and P = ops_count_pos [OF inv]
  show ?thesis
  proof (cases op)
    case (Submit chunked len)
    show ?thesis
    proof (cases "hc_send_failed c \<or> hc_sending c \<noteq> None")
      case False
      then have "\<not> hc_shutting_down c" using R(5) by blast
      moreover have "map_of (hc_writers c) (hc_requests_sent c) = None"
        using S(2) [of "hc_requests_sent c"] by (cases "map_of (hc_writers c) (hc_requests_sent c)") (auto simp: writer_ok_def)
      ultimately show ?thesis using inv False
        by (auto simp: Submit submit_request_def Let_def hc_defs ops_inv_def tally_fresh writing_def)
    qed (use inv Submit in \<open>auto simp: submit_request_def\<close>)
  next
    case (Header_written n ec)
    then show ?thesis using inv P(1) [of n]
      by (auto intro!: ops_inv_writer [OF inv S(1)] simp: header_written_def Let_def hc_defs writing_def split: option.splits)
  next
    case (Write n buffer eof)
    then show ?thesis using inv R(4) [of n]
      by (auto intro!: ops_inv_writer [OF inv S(1)] simp: write_request_def write_entry_def hc_defs writing_def
        split: option.splits if_splits)
  next
    case (Written n ec)
    then show ?thesis using inv P(1) [of n]
      by (auto intro!: ops_inv_writer [OF inv S(1)] simp: request_written_def write_exit_def Let_def hc_defs writing_def
        split: option.splits writer_op.splits)
  next
    case (Release n)
    then show ?thesis using inv tally_delete [OF S(1), of n _ writing]
      by (auto simp: release_request_def request_released_def Let_def hc_defs ops_inv_def writing_def split: option.splits)
  next
    case (Read i room)
    then show ?thesis using inv R(2) [of i]
      by (auto intro!: ops_inv_reader [OF inv R(1)] simp: read_response_def read_entry_def reader_ok_def hc_defs reading_def
        split: option.splits if_splits)
  next
    case Shutdown_ends
    then show ?thesis using inv by (auto simp: end_session_def ops_inv_def split: option.splits)
  next
    case (Get_response n)
    show ?thesis
    proof (cases "map_of (hc_writers c) n")
      case (Some w)
      have fresh: "map_of (hc_readers c) (hc_readers_made c) = None"
        using R(2) [of "hc_readers_made c"] by (cases "map_of (hc_readers c) (hc_readers_made c)") (auto simp: reader_ok_def)
      have "tally writing (AList.update n (w\<lparr>hw_response_requested := True\<rparr>) (hc_writers c)) = tally writing (hc_writers c)"
        using tally_update [OF S(1) Some, of writing "w\<lparr>hw_response_requested := True\<rparr>"] by (simp add: writing_def)
      then have "ops_inv (snd (get_response n w c))" by (rule get_response_ops_inv [OF inv fresh _ R(4) [OF Some]])
      then show ?thesis using inv Some by (simp add: Get_response)
    qed (use inv Get_response in simp)
  next
    case (Response_header i ec complete got_some)
    show ?thesis
    proof (cases "\<exists>r. map_of (hc_readers c) i = Some r \<and> hr_busy r \<and> \<not> hr_header r \<and> (complete \<longrightarrow> ec = Success \<and> got_some)")
      case True
      then obtain r where r: "map_of (hc_readers c) i = Some r" "hr_busy r" "\<not> hr_header r" "complete \<longrightarrow> ec = Success \<and> got_some"
        by blast
      let ?c = "response_header i r ec complete got_some c"
      obtain r' where r': "hc_readers ?c = AList.update i r' (hc_readers c)" "\<not> hr_busy r'"
        using response_header_idle [of i r ec complete got_some c] by blast
      have "tally writing (AList.update n (w\<lparr>hw_response_requested := False\<rparr>) (hc_writers c)) = tally writing (hc_writers c)"
        if "map_of (hc_writers c) n = Some w" for n w
        using tally_update [OF S(1) that, of writing "w\<lparr>hw_response_requested := False\<rparr>"] by (simp add: writing_def)
      then have "tally writing (hc_writers ?c) = tally writing (hc_writers c)"
        by (auto simp: response_header_writers split: option.splits)
      then have "ops_inv ?c"
        using r' P(2) [OF r(1,2)] r(2) by (intro ops_inv_reader [OF inv R(1) r(1)]) (auto simp: reading_def)
      then show ?thesis using r by (simp add: Response_header)
    qed (use inv Response_header in \<open>auto split: option.splits\<close>)
  next
    case (Read_done i ec payload complete)
    show ?thesis
    proof (cases "\<exists>r. map_of (hc_readers c) i = Some r \<and> hr_busy r \<and> hr_header r")
      case True
      then obtain r where r: "map_of (hc_readers c) i = Some r" "hr_busy r" "hr_header r" by blast
      have "ops_inv (snd (response_read i r ec payload complete c))"
        using P(2) [OF r(1,2)] r(2)
        by (intro ops_inv_reader [OF inv R(1) r(1), where r' = "r\<lparr>hr_done := complete,
            hr_busy := (read_exit ec payload (r\<lparr>hr_done := complete\<rparr>) = None),
            hr_finished := hr_finished r \<or> complete \<and> hr_session r\<rparr>"])
          (cases r; auto simp: response_read_def Let_def hc_defs reading_def)+
      then show ?thesis using r by (simp add: Read_done)
    qed (use inv Read_done in \<open>auto split: option.splits\<close>)
  next
    case (Drop i)
    then show ?thesis using inv drop_reader_ops_inv [OF inv R(1)] by (simp split: option.splits)
  next
    case Shutdown
    then show ?thesis using shutdown_ops_inv [OF inv other(1)] by simp
  qed
qed

section \<open>Runs\<close>

definition hc_inv :: "h1_client \<Rightarrow> bool" where
  "hc_inv c = (send_inv c \<and> recv_inv c \<and> ops_inv c)"

lemma hc_step_inv: "hc_inv c \<Longrightarrow> hc_inv (hc_step op c)"
  by (simp add: hc_inv_def hc_step_send_inv hc_step_recv_inv hc_step_ops_inv)

lemma hc_init_inv: "hc_inv hc_init"
  by (simp add: hc_inv_def hc_init_send_inv hc_init_recv_inv) (simp add: ops_inv_def hc_init_def tally_def)

lemma hc_fold_inv: "hc_inv c \<Longrightarrow> hc_inv (fold hc_step ops c)"
  by (induction ops arbitrary: c) (simp_all add: hc_step_inv)

lemma hc_run_inv: "hc_inv (hc_run ops)"
  by (simp add: hc_run_def hc_fold_inv hc_init_inv)

lemma hc_run_invs: "send_inv (hc_run ops)" "recv_inv (hc_run ops)" "ops_inv (hc_run ops)"
  using hc_run_inv [of ops] by (auto simp: hc_inv_def)

lemma hc_run_append: "hc_run (ops @ later) = fold hc_step later (hc_run ops)"
  by (simp add: hc_run_def)

lemma map_of_member: "distinct_keys t \<Longrightarrow> (k, v) \<in> set t \<Longrightarrow> map_of t k = Some v"
  by (simp add: distinct_keys_def)

text \<open>Once the connection was ended, nothing is written to it.\<close>

lemma ended_step:
  assumes "hc_inv c" "hc_ended c = Some b"
  shows "hc_wire (hc_step op c) = hc_wire c \<and> hc_ended (hc_step op c) = Some b"
proof -
  have z: "hc_ops_pending c = 0" "hc_shutting_down c" using assms by (auto simp: hc_inv_def ops_inv_def)
  have failed: "hc_send_failed c" using z(2) assms(1) by (auto simp: hc_inv_def recv_inv_def)
  have w: "hw_op w = No_write \<and> \<not> hw_session w" if "map_of (hc_writers c) n = Some w" for n w
    using ops_count_pos(1) [of c n w] recv_invD(4) [of c n w] assms(1) that z by (auto simp: hc_inv_def)
  have c: "hc_closing c = None" using assms by (auto simp: hc_inv_def ops_inv_def)
  show ?thesis
  proof (cases op)
    case (Submit chunked len)
    then show ?thesis using assms(2) failed by (simp add: submit_request_def)
  next
    case (Write n buffer eof)
    then show ?thesis using assms(2) w [of n] by (auto simp: write_request_def write_entry_def split: option.splits)
  next
    case (Release n)
    then show ?thesis using assms(2)
      by (auto simp: release_request_def request_released_def Let_def hc_defs split: option.splits)
  next
    case (Get_response n)
    then show ?thesis using assms(2) w [of n] by (auto simp: get_response_def split: option.splits)
  next
    case (Read i room)
    then show ?thesis using assms(2) by (auto simp: read_response_def hc_defs split: option.splits)
  next
    case (Read_done i ec payload complete)
    then show ?thesis using assms(2) by (auto simp: response_read_def Let_def hc_defs split: option.splits)
  next
    case (Drop i)
    then show ?thesis using assms(2) by (auto simp: drop_reader_def Let_def split: option.splits)
  qed (use assms(2) w z c in \<open>auto simp: shutdown_session_def split: option.splits writer_op.splits\<close>)
qed

lemma ended_run: "hc_inv c \<Longrightarrow> hc_ended c = Some b \<Longrightarrow> hc_wire (fold hc_step later c) = hc_wire c"
  by (induction later arbitrary: c) (use ended_step hc_step_inv in \<open>auto simp del: hc_step.simps\<close>)

section \<open>Properties\<close>

text \<open>C6: Requests go onto the connection one after the other: in every run, what was written is a sequence of whole
  requests in the order of their submission, followed by at most one that is not whole; a request that
  counts as ended is there with its end; and a request with a write in progress is the one the
  session takes to be sending, as \<open>request_complete()\<close> asserts.\<close>

theorem h1_requests_one_after_the_other:
  "position_after (Between 0) (hc_wire (hc_run ops)) \<noteq> None \<and>
   (\<forall>(n, w) \<in> set (hc_writers (hc_run ops)).
      (hw_eof_submitted w \<longrightarrow> End n \<in> set (hc_wire (hc_run ops))) \<and>
      (hw_op w \<noteq> No_write \<and> hw_session w \<longrightarrow> hc_sending (hc_run ops) = Some n))"
proof -
  note S = send_invD [OF hc_run_invs(1) [of ops]]
  have "(hw_eof_submitted w \<longrightarrow> End n \<in> set (hc_wire (hc_run ops))) \<and>
      (hw_op w \<noteq> No_write \<and> hw_session w \<longrightarrow> hc_sending (hc_run ops) = Some n)"
    if "(n, w) \<in> set (hc_writers (hc_run ops))" for n w
    using S(2) [OF map_of_member [OF S(1) that]] by (auto simp: writer_ok_def)
  then show ?thesis using S(3) by (auto simp: sending_ok_def)
qed

text \<open>Two requests, the second submitted too early first, and both responses.\<close>

definition pipelined :: "h1_op list" where
  "pipelined =
     [Submit True [], Header_written 0 Success, Submit False ''0'', Write 0 [1, 2] True, Written 0 Success,
      Submit False ''0'', Header_written 1 Success, Get_response 1, Get_response 0, Response_header 0 Success False True,
      Get_response 1, Read 0 10, Read_done 0 Success 5 True, Get_response 1, Response_header 1 Success True True]"

lemma has_body_simps: "has_body True s" "\<not> has_body False ''0''"
  by (simp_all add: has_body_def from_chars_def Let_def is_digit_def digits_value_def digit_value_def)

lemmas h1_eval = hc_run_def hc_init_def has_body_simps Let_def hc_defs submit_request_def header_written_def write_request_def
  write_entry_def request_written_def write_exit_def written_def get_response_def response_header_def finish_reader_def
  read_response_def read_entry_def response_read_def read_exit_def shutdown_session_def detach_all_def end_session_def

lemma pipelined_run:
  "hc_wire (hc_run pipelined) = [Head 0, Data 0 [1, 2], End 0, Head 1, End 1]" "hc_log (hc_run pipelined) = [0, 1]"
  "hc_ended (hc_run (pipelined @ [Shutdown, Shutdown_ends])) = Some True"
  by (simp_all add: pipelined_def h1_eval)

theorem h1_requests_one_after_the_other_witness:
  "hc_wire (hc_run pipelined) = [Head 0, Data 0 [1, 2], End 0, Head 1, End 1] \<and>
   position_after (Between 0) (hc_wire (hc_run pipelined)) \<noteq> None"
  using h1_requests_one_after_the_other [of pipelined] pipelined_run(1) by blast

text \<open>C7: Responses are read in the order of the requests: in every run, the n-th message that was taken off the
  connection completely was taken by the reader of the n-th request, and there is at most one reader that
  still has to take one, the next.\<close>

theorem h1_responses_in_order:
  "hc_log (hc_run ops) = [0..<length (hc_log (hc_run ops))] \<and>
   (\<forall>(i, r) \<in> set (hc_readers (hc_run ops)). \<not> hr_done r \<and> \<not> hr_finished r \<longrightarrow>
      hr_request r = length (hc_log (hc_run ops)) \<and>
      (\<forall>(j, q) \<in> set (hc_readers (hc_run ops)). \<not> hr_done q \<and> \<not> hr_finished q \<longrightarrow> j = i))"
proof -
  note R = recv_invD [OF hc_run_invs(2) [of ops]]
  note mem = map_of_member [OF R(1)]
  have "hr_request r = length (hc_log (hc_run ops))" if "(i, r) \<in> set (hc_readers (hc_run ops))" "live r" for i r
    using R(2) [OF mem [OF that(1)]] that(2) by (simp add: reader_ok_def)
  moreover have "j = i" if "(i, r) \<in> set (hc_readers (hc_run ops))" "(j, q) \<in> set (hc_readers (hc_run ops))" "live r" "live q" for i j r q
    using R(3) [OF mem [OF that(1)] mem [OF that(2)] that(3,4)] by simp
  ultimately show ?thesis using R(6) by (fastforce simp: live_def)
qed

theorem h1_responses_in_order_witness:
  "hc_log (hc_run pipelined) = [0, 1] \<and> hc_log (hc_run pipelined) = [0..<length (hc_log (hc_run pipelined))]"
  using h1_responses_in_order [of pipelined] pipelined_run(2) by blast

text \<open>The connection is ended in order: when \<open>shutdown()\<close> gets to ending it, no read and no write is in progress,
  nothing is written to it afterwards, whatever is still done with requests and responses, and it sends the
  notice of a clean end only if no write was cut short.\<close>

theorem h1_shutdown_in_order:
  assumes "hc_ended (hc_run ops) = Some notify"
  shows "list_all (\<lambda>(n, w). hw_op w = No_write) (hc_writers (hc_run ops)) \<and>
         list_all (\<lambda>(i, r). \<not> hr_busy r) (hc_readers (hc_run ops)) \<and>
         hc_wire (hc_run (ops @ later)) = hc_wire (hc_run ops) \<and>
         (notify \<longrightarrow> position_after (Between 0) (hc_wire (hc_run ops)) \<noteq> Some Dead)"
proof -
  note inv = hc_run_invs [of ops]
  have z: "hc_ops_pending (hc_run ops) = 0" "notify \<longrightarrow> pos (hc_run ops) \<noteq> Some Dead"
    using inv(3) assms by (auto simp: ops_inv_def)
  have "hw_op w = No_write" if "(n, w) \<in> set (hc_writers (hc_run ops))" for n w
    using ops_count_pos(1) [OF inv(3) map_of_member [OF send_invD(1) [OF inv(1)] that]] z(1) by auto
  moreover have "\<not> hr_busy r" if "(i, r) \<in> set (hc_readers (hc_run ops))" for i r
    using ops_count_pos(2) [OF inv(3) map_of_member [OF recv_invD(1) [OF inv(2)] that]] z(1) by auto
  ultimately show ?thesis
    using z(2) ended_run [OF hc_run_inv assms] by (auto simp: list_all_iff hc_run_append)
qed

theorem h1_shutdown_in_order_witness:
  "hc_ended (hc_run (pipelined @ [Shutdown, Shutdown_ends])) = Some True \<and>
   hc_wire (hc_run ((pipelined @ [Shutdown, Shutdown_ends]) @ [Submit True []])) = hc_wire (hc_run (pipelined @ [Shutdown, Shutdown_ends]))"
  using h1_shutdown_in_order [OF pipelined_run(3), of "[Submit True []]"] pipelined_run(3) by blast

end
