(* ===== verification/H1_Server.thy ===== *)
theory H1_Server
  imports H1_Message Stream_Table
begin

text \<open>
  The server side of an HTTP/1.1 connection, \<open>ServerSession\<close> and \<open>ResponseWriter\<close> of
  \<^verbatim>\<open>src/h1/session.cpp\<close>: requests are served one at a time, and the next one is read when the handler of the
  previous one has returned. A handler may hand its request and response on, so that they are still used when
  it has returned.

  Requests, and the responses to them, are numbered. Two fields are for observation only: \<open>hv_wire\<close>, what was
  written to the connection, and \<open>hv_aligned\<close>, that every header was read where the request before it ended.
\<close>

section \<open>Upgrading to HTTP/2\<close>

text \<open>What Boost.Beast makes of a list of tokens and of base64 (the bytes, and how much of the text was read).\<close>

record beast =
  token_list :: "string \<Rightarrow> string list"
  base64_decode :: "string \<Rightarrow> bytes \<times> nat"

type_synonym h1_fields = "(string \<times> string) list"

definition field_values :: "h1_fields \<Rightarrow> string \<Rightarrow> string list" where
  "field_values fs name = map snd (filter (\<lambda>(n, v). iequals n name) fs)"

definition field_value :: "h1_fields \<Rightarrow> string \<Rightarrow> string" where
  "field_value fs name = (case field_values fs name of [] \<Rightarrow> [] | v # vs \<Rightarrow> v)"

record h1_request =
  h1_method :: string
  h1_scheme :: string
  h1_headers :: h1_fields
  h1_complete :: bool
  h1_need_eof :: bool

record upgrade =
  up_settings :: bytes
  up_method :: string
  up_fields :: h1_fields

definition has_token :: "beast \<Rightarrow> string \<Rightarrow> string \<Rightarrow> bool" where
  "has_token b xs token = list_ex (\<lambda>item. iequals item token) (token_list b xs)"

definition from_base64url :: "char \<Rightarrow> char" where
  "from_base64url c = (if c = CHR ''-'' then CHR ''+'' else if c = CHR ''_'' then CHR ''/'' else c)"

definition connection_specific :: "string list" where
  "connection_specific =
     [''Connection'', ''Proxy-Connection'', ''Keep-Alive'', ''Transfer-Encoding'', ''Upgrade'', ''HTTP2-Settings'']"

definition h2c_upgrade :: "beast \<Rightarrow> bool \<Rightarrow> h1_request \<Rightarrow> upgrade option" where
  "h2c_upgrade b h2_v2 q =
     (let fs = h1_headers q; connection = field_value fs ''Connection''
      in if h2_v2 then None
         else if \<not> has_token b (field_value fs ''Upgrade'') ''h2c'' \<or> h1_scheme q \<noteq> ''http'' then None
         else if \<not> has_token b connection ''upgrade'' \<or> \<not> has_token b connection ''http2-settings'' then None
         else if length (field_values fs ''HTTP2-Settings'') \<noteq> 1 then None
         else if \<not> h1_complete q then None
         else let encoded = map from_base64url (field_value fs ''HTTP2-Settings'');
                  (settings, read) = base64_decode b encoded
              in if read \<noteq> length encoded \<or> length settings mod 6 \<noteq> 0 then None
                 else Some \<lparr>up_settings = settings, up_method = h1_method q,
                            up_fields = filter (\<lambda>(n, v). \<not> list_ex (iequals n) connection_specific) fs\<rparr>)"

section \<open>State\<close>

text \<open>Where \<open>do_session()\<close> is: reading a header, in the handler (of a request that asked for the end of the
  connection, or not), past its loop, or in the HTTP/2 session it was upgraded to.\<close>

datatype stage = Reading | Handling bool | Finished | Upgraded

record response_writer = h1_writer +
  rw_submitted :: bool

record h1_server =
  hv_closed :: bool
  hv_stage :: stage
  hv_requests :: nat
  hv_writers :: "(nat \<times> response_writer) list"
  hv_readers :: "(nat \<times> h1_reader) list"
  hv_body_left :: bool
  hv_wire :: "piece list"
  hv_aligned :: bool

definition hv_init :: h1_server where
  "hv_init =
     \<lparr>hv_closed = False, hv_stage = Reading, hv_requests = 0, hv_writers = [], hv_readers = [],
      hv_body_left = False, hv_wire = [], hv_aligned = True\<rparr>"

definition hv_set_writer :: "nat \<Rightarrow> response_writer \<Rightarrow> h1_server \<Rightarrow> h1_server" where
  "hv_set_writer n w s = s\<lparr>hv_writers := AList.update n w (hv_writers s)\<rparr>"

definition hv_detach_writers :: "h1_server \<Rightarrow> h1_server" where
  "hv_detach_writers s = s\<lparr>hv_writers := map (\<lambda>(n, w). (n, w\<lparr>hw_session := False\<rparr>)) (hv_writers s)\<rparr>"

definition hv_detach_readers :: "h1_server \<Rightarrow> h1_server" where
  "hv_detach_readers s = s\<lparr>hv_readers := map (\<lambda>(n, r). (n, r\<lparr>hr_session := False\<rparr>)) (hv_readers s)\<rparr>"

section \<open>The loop over the requests\<close>

definition next_round :: "h1_server \<Rightarrow> h1_server" where
  "next_round s = (if hv_closed s then s\<lparr>hv_stage := Finished\<rparr> else (hv_detach_readers s)\<lparr>hv_stage := Reading\<rparr>)"

text \<open>A header has arrived, or reading it has failed; one that is too large is answered with status 431. The
  result of writing an answer of the session itself is \<open>wec\<close>.\<close>

definition on_request_header :: "beast \<Rightarrow> bool \<Rightarrow> error_code \<Rightarrow> h1_request \<Rightarrow> error_code \<Rightarrow> h1_server \<Rightarrow> h1_server" where
  "on_request_header b h2_v2 ec q wec s =
     (let n = hv_requests s;
          answered = (if wec = Success then [Head n, End n] else [Cut n]);
          s1 = s\<lparr>hv_aligned := hv_aligned s \<and> \<not> hv_body_left s\<rparr>
      in if ec \<noteq> Success
         then s1\<lparr>hv_stage := Finished, hv_wire := hv_wire s @ (if ec = Header_limit then answered else [])\<rparr>
         else case h2c_upgrade b h2_v2 q of
                Some up \<Rightarrow>
                  s1\<lparr>hv_requests := n + 1, hv_wire := hv_wire s @ answered,
                     hv_stage := (if wec = Success then Upgraded else Finished)\<rparr>
              | None \<Rightarrow>
                  let s2 = hv_detach_writers s1;
                      w = \<lparr>hw_session = True, hw_eof_submitted = False, hw_cancelled = False, hw_response_requested = False,
                           hw_has_body = True, hw_op = No_write, rw_submitted = False\<rparr>;
                      r = \<lparr>hr_session = True, hr_done = h1_complete q, hr_finished = False, hr_header = True,
                           hr_busy = False, hr_request = n\<rparr>
                  in (hv_set_writer n w s2)\<lparr>hv_requests := n + 1, hv_readers := AList.update n r (hv_readers s2),
                       hv_body_left := \<not> h1_complete q, hv_stage := Handling (h1_need_eof q)\<rparr>)"

definition on_handler_returned :: "bool \<Rightarrow> h1_server \<Rightarrow> h1_server" where
  "on_handler_returned need_eof s = (if need_eof then s\<lparr>hv_stage := Finished\<rparr> else next_round s)"

definition on_handler_threw :: "h1_server \<Rightarrow> h1_server" where
  "on_handler_threw s = s\<lparr>hv_stage := Finished\<rparr>"

definition destroy_h1 :: "h1_server \<Rightarrow> h1_server" where
  "destroy_h1 s = (if hv_stage s = Upgraded then s else s\<lparr>hv_closed := True\<rparr>)"

section \<open>The response\<close>

text \<open>\<open>write_failed()\<close> of a response.\<close>

definition hv_write_failed :: "response_writer \<Rightarrow> h1_server \<Rightarrow> h1_server" where
  "hv_write_failed w s = (if hw_session w then s\<lparr>hv_closed := True\<rparr> else s)"

definition submit_response :: "nat \<Rightarrow> response_writer \<Rightarrow> bool \<Rightarrow> h1_server \<Rightarrow> error_code option \<times> h1_server" where
  "submit_response n w keep_alive s =
     (if \<not> hw_session w then (Some Connection_aborted, s)
      else (None, hv_set_writer n (w\<lparr>rw_submitted := True, hw_op := Head_write\<rparr>)
                    (if keep_alive then s else s\<lparr>hv_closed := True\<rparr>)))"

definition response_submitted :: "nat \<Rightarrow> response_writer \<Rightarrow> error_code \<Rightarrow> h1_server \<Rightarrow> h1_server" where
  "response_submitted n w ec s =
     (if ec = Success
      then hv_set_writer n (w\<lparr>hw_op := No_write\<rparr>) (s\<lparr>hv_wire := hv_wire s @ [Head n]\<rparr>)
      else hv_write_failed w (hv_set_writer n (w\<lparr>hw_op := No_write, hw_cancelled := True\<rparr>)
             (s\<lparr>hv_wire := hv_wire s @ [Cut n]\<rparr>)))"

definition write_response :: "nat \<Rightarrow> response_writer \<Rightarrow> bytes \<Rightarrow> bool \<Rightarrow> h1_server \<Rightarrow> error_code option \<times> h1_server" where
  "write_response n w buffer eof s =
     (case write_entry buffer eof w of
        Some ec \<Rightarrow> (Some ec, s)
      | None \<Rightarrow> (None, hv_set_writer n (w\<lparr>hw_op := Body_write buffer eof\<rparr>) s))"

definition response_written :: "nat \<Rightarrow> response_writer \<Rightarrow> bytes \<Rightarrow> bool \<Rightarrow> error_code \<Rightarrow> h1_server \<Rightarrow> h1_server" where
  "response_written n w buffer eof ec s =
     (let w1 = write_exit ec eof w;
          s1 = hv_set_writer n w1 (s\<lparr>hv_wire := hv_wire s @ written n ec buffer eof\<rparr>)
      in if hw_session w1 \<and> hw_eof_submitted w1 then s1
         else if hw_session w1 \<and> hw_cancelled w1 then hv_write_failed w1 s1
         else s1)"

section \<open>The request\<close>

definition read_request :: "nat \<Rightarrow> h1_reader \<Rightarrow> nat \<Rightarrow> h1_server \<Rightarrow> error_code option \<times> h1_server" where
  "read_request n r room s =
     (case read_entry room r of
        Some ec \<Rightarrow> (Some ec, s)
      | None \<Rightarrow> (None, s\<lparr>hv_readers := AList.update n (r\<lparr>hr_busy := True\<rparr>) (hv_readers s)\<rparr>))"

definition request_read :: "nat \<Rightarrow> h1_reader \<Rightarrow> error_code \<Rightarrow> nat \<Rightarrow> bool \<Rightarrow> h1_server \<Rightarrow> error_code option \<times> h1_server" where
  "request_read n r ec payload complete s =
     (let r1 = r\<lparr>hr_done := complete\<rparr>; result = read_exit ec payload r1
      in (result, s\<lparr>hv_readers := AList.update n (r1\<lparr>hr_busy := (result = None)\<rparr>) (hv_readers s),
                    hv_body_left := hv_body_left s \<and> \<not> (complete \<and> n + 1 = hv_requests s)\<rparr>))"

text \<open>\<open>BeastReader::destroy()\<close> and the destructor: the rest of a request that nobody is going to read can not be
  told from what follows.\<close>

definition drop_request :: "nat \<Rightarrow> h1_reader \<Rightarrow> h1_server \<Rightarrow> h1_server" where
  "drop_request n r s =
     s\<lparr>hv_readers := AList.delete n (hv_readers s), hv_closed := hv_closed s \<or> \<not> hr_done r \<and> hr_session r\<rparr>"

section \<open>Runs\<close>

text \<open>A response is submitted once, and written to when that is done; a handle has at most one operation in
  progress.\<close>

datatype hv_op =
    Request_header error_code h1_request error_code
  | Handler_returned
  | Handler_threw
  | Submit_response nat bool
  | Response_submitted nat error_code
  | Write_response nat bytes bool
  | Response_written nat error_code
  | Read_request nat nat
  | Request_read nat error_code nat bool
  | Drop_request nat
  | Drop_response nat
  | Destroy

fun hv_step :: "beast \<Rightarrow> bool \<Rightarrow> hv_op \<Rightarrow> h1_server \<Rightarrow> h1_server" where
  "hv_step b v2 (Request_header ec q wec) s = (if hv_stage s = Reading then on_request_header b v2 ec q wec s else s)"
| "hv_step b v2 Handler_returned s = (case hv_stage s of Handling need_eof \<Rightarrow> on_handler_returned need_eof s | _ \<Rightarrow> s)"
| "hv_step b v2 Handler_threw s = (case hv_stage s of Handling need_eof \<Rightarrow> on_handler_threw s | _ \<Rightarrow> s)"
| "hv_step b v2 (Submit_response n keep_alive) s =
     (case map_of (hv_writers s) n of
        Some w \<Rightarrow> if rw_submitted w then s else snd (submit_response n w keep_alive s)
      | None \<Rightarrow> s)"
| "hv_step b v2 (Response_submitted n ec) s =
     (case map_of (hv_writers s) n of
        Some w \<Rightarrow> if hw_op w = Head_write then response_submitted n w ec s else s
      | None \<Rightarrow> s)"
| "hv_step b v2 (Write_response n buffer eof) s =
     (case map_of (hv_writers s) n of
        Some w \<Rightarrow> if rw_submitted w \<and> hw_op w = No_write then snd (write_response n w buffer eof s) else s
      | None \<Rightarrow> s)"
| "hv_step b v2 (Response_written n ec) s =
     (case map_of (hv_writers s) n of
        Some w \<Rightarrow> (case hw_op w of Body_write buffer eof \<Rightarrow> response_written n w buffer eof ec s | _ \<Rightarrow> s)
      | None \<Rightarrow> s)"
| "hv_step b v2 (Read_request n room) s =
     (case map_of (hv_readers s) n of
        Some r \<Rightarrow> if hr_busy r then s else snd (read_request n r room s)
      | None \<Rightarrow> s)"
| "hv_step b v2 (Request_read n ec payload complete) s =
     (case map_of (hv_readers s) n of
        Some r \<Rightarrow> if hr_busy r then snd (request_read n r ec payload complete s) else s
      | None \<Rightarrow> s)"
| "hv_step b v2 (Drop_request n) s =
     (case map_of (hv_readers s) n of
        Some r \<Rightarrow> if hr_busy r then s else drop_request n r s
      | None \<Rightarrow> s)"
| "hv_step b v2 (Drop_response n) s =
     (case map_of (hv_writers s) n of
        Some w \<Rightarrow> if hw_op w = No_write then s\<lparr>hv_writers := AList.delete n (hv_writers s)\<rparr> else s
      | None \<Rightarrow> s)"
| "hv_step b v2 Destroy s = destroy_h1 s"

definition hv_run :: "beast \<Rightarrow> bool \<Rightarrow> hv_op list \<Rightarrow> h1_server" where
  "hv_run b v2 ops = fold (hv_step b v2) ops hv_init"

end
