(* ===== verification/H1_Server_Properties.thy ===== *)
theory H1_Server_Properties
  imports H1_Server
begin

text \<open>
  What the server session of HTTP/1.1 promises: if every handler leaves the connection in order, with its
  response ended and the request read or dropped, responses go out one after the other, each for its own
  request, and every header is read where the request before it ended; and what happens if one does not.
\<close>

section \<open>The invariant\<close>

abbreviation hv_pos :: "h1_server \<Rightarrow> position option" where
  "hv_pos s \<equiv> position_after (Between 0) (hv_wire s)"

definition quiet :: "response_writer \<Rightarrow> bool" where
  "quiet w = (hw_op w = No_write \<and> hw_eof_submitted w \<and> rw_submitted w)"

text \<open>The response to the last request, while its handler is at it.\<close>

definition current_ok :: "h1_server \<Rightarrow> nat \<Rightarrow> response_writer \<Rightarrow> bool" where
  "current_ok s n w =
     (n + 1 = hv_requests s \<and> hv_stage s \<noteq> Reading \<and>
      (hw_op w \<noteq> No_write \<longrightarrow> rw_submitted w \<and> \<not> hw_eof_submitted w \<and> \<not> hw_cancelled w) \<and>
      (\<not> rw_submitted w \<longrightarrow> \<not> hw_eof_submitted w \<and> \<not> hw_cancelled w) \<and>
      (\<not> hw_eof_submitted w \<longrightarrow>
         hv_pos s = Some (if hw_cancelled w then Dead
                          else if rw_submitted w \<and> hw_op w \<noteq> Head_write then Inside n else Between n)))"

definition hv_inv :: "h1_server \<Rightarrow> bool" where
  "hv_inv s =
     (distinct_keys (hv_writers s) \<and>
      (\<forall>n w. map_of (hv_writers s) n = Some w \<longrightarrow> n < hv_requests s \<and> (quiet w \<or> current_ok s n w)) \<and>
      hv_pos s \<noteq> None \<and> hv_aligned s \<and>
      (hv_stage s = Reading \<longrightarrow> hv_pos s = Some (Between (hv_requests s)) \<and> \<not> hv_body_left s))"

lemma hv_invD:
  assumes "hv_inv s"
  shows "distinct_keys (hv_writers s)" "map_of (hv_writers s) n = Some w \<Longrightarrow> n < hv_requests s \<and> (quiet w \<or> current_ok s n w)"
    and "hv_pos s \<noteq> None" "hv_aligned s"
    and "hv_stage s = Reading \<Longrightarrow> hv_pos s = Some (Between (hv_requests s)) \<and> \<not> hv_body_left s"
  using assms by (auto simp: hv_inv_def)

lemma reading_quiet:
  assumes "hv_inv s" "hv_stage s = Reading" "map_of (hv_writers s) n = Some w"
  shows "quiet w"
  using hv_invD(2) [OF assms(1,3)] assms(2) by (auto simp: current_ok_def)

text \<open>What the handler of the last request has to leave behind for the next one.\<close>

definition left_in_order :: "h1_server \<Rightarrow> bool" where
  "left_in_order s = (hv_pos s = Some (Between (hv_requests s)) \<and> \<not> hv_body_left s)"

definition behaves :: "hv_op \<Rightarrow> h1_server \<Rightarrow> bool" where
  "behaves op s = (op = Handler_returned \<and> hv_stage s = Handling False \<and> \<not> hv_closed s \<longrightarrow> left_in_order s)"

fun behaved_run :: "beast \<Rightarrow> bool \<Rightarrow> hv_op list \<Rightarrow> h1_server \<Rightarrow> bool" where
  "behaved_run b v2 [] s = True"
| "behaved_run b v2 (op # ops) s = (behaves op s \<and> behaved_run b v2 ops (hv_step b v2 op s))"

lemma request_header_inv:
  assumes inv: "hv_inv s" and "hv_stage s = Reading"
  shows "hv_inv (on_request_header b v2 ec q wec s)"
proof -
  note I = hv_invD [OF inv]
  have p: "hv_pos s = Some (Between (hv_requests s))" "\<not> hv_body_left s" using I(5) assms(2) by auto
  have qu: "n < hv_requests s \<and> quiet w" if "map_of (hv_writers s) n = Some w" for n w
    using reading_quiet [OF assms that] I(2) [OF that] by simp
  have fresh: "map_of (hv_writers s) (hv_requests s) = None" using qu by (cases "map_of (hv_writers s) (hv_requests s)") auto
  define s' where "s' = on_request_header b v2 ec q wec s"
  show ?thesis
  proof (cases "ec = Success \<and> h2c_upgrade b v2 q = None")
    case True
    let ?n = "hv_requests s"
    obtain w where w: "hv_writers s' = AList.update ?n w (map (\<lambda>(n, w). (n, w\<lparr>hw_session := False\<rparr>)) (hv_writers s))"
      "\<not> hw_eof_submitted w" "\<not> hw_cancelled w" "hw_op w = No_write" "\<not> rw_submitted w"
      using True by (auto simp: s'_def on_request_header_def Let_def hv_set_writer_def hv_detach_writers_def)
    have f: "hv_requests s' = ?n + 1" "hv_wire s' = hv_wire s" "hv_aligned s'" "hv_stage s' = Handling (h1_need_eof q)"
      using True p I(4) by (auto simp: s'_def on_request_header_def Let_def hv_set_writer_def hv_detach_writers_def)
    have "m < hv_requests s' \<and> (quiet v \<or> current_ok s' m v)" if "map_of (hv_writers s') m = Some v" for m v
      using that w f p qu [of m]
      by (auto simp: update_conv' map_of_map_entries quiet_def current_ok_def split: if_splits)
    moreover have "distinct_keys (hv_writers s')" unfolding w(1) by (rule tbl.ok_put) (simp add: I(1))
    ultimately show ?thesis unfolding s'_def [symmetric] using f p by (simp add: hv_inv_def)
  next
    case False
    have f: "hv_writers s' = hv_writers s" "hv_aligned s'" "hv_stage s' \<noteq> Reading" "hv_requests s \<le> hv_requests s'" "hv_pos s' \<noteq> None"
      using False p I(4) by (auto simp: s'_def on_request_header_def Let_def position_after_append split: option.splits)
    show ?thesis unfolding s'_def [symmetric] using f I(1) qu by (force simp: hv_inv_def)
  qed
qed

lemma handler_returned_inv:
  assumes inv: "hv_inv s" and "hv_stage s = Handling need_eof" "behaves Handler_returned s"
  shows "hv_inv (on_handler_returned need_eof s)"
proof (cases "need_eof \<or> hv_closed s")
  case True
  have "current_ok (s\<lparr>hv_stage := Finished\<rparr>) n w" if "current_ok s n w" for n w
    using that by (simp add: current_ok_def)
  then show ?thesis using True inv assms(2)
    by (auto simp: on_handler_returned_def next_round_def hv_inv_def)
next
  case False
  note I = hv_invD [OF inv]
  have o: "hv_pos s = Some (Between (hv_requests s))" "\<not> hv_body_left s"
    using assms(2,3) False by (auto simp: behaves_def left_in_order_def)
  have "quiet w" if "map_of (hv_writers s) n = Some w" for n w
    using I(2) [OF that] o(1) by (auto simp: current_ok_def quiet_def split: if_splits)
  then show ?thesis using False o I(1,2,4)
    by (auto simp: on_handler_returned_def next_round_def hv_detach_readers_def hv_inv_def)
qed

text \<open>A step of one response; the others are over.\<close>

lemma response_step_inv:
  assumes inv: "hv_inv s" and n: "map_of (hv_writers s) n = Some w" "\<not> quiet w"
    and s': "hv_writers s' = AList.update n w' (hv_writers s)" "hv_requests s' = hv_requests s" "hv_stage s' = hv_stage s"
      "hv_aligned s' = hv_aligned s"
    and ok: "current_ok s' n w'" "hv_pos s' \<noteq> None"
  shows "hv_inv s'"
proof -
  note I = hv_invD [OF inv]
  have cur: "current_ok s n w" using I(2) [OF n(1)] n(2) by blast
  have "m < hv_requests s' \<and> (quiet v \<or> current_ok s' m v)" if "map_of (hv_writers s') m = Some v" for m v
  proof (cases "m = n")
    case True
    then show ?thesis using that ok(1) I(2) [OF n(1)] by (simp add: s' update_conv')
  next
    case False
    then have m: "map_of (hv_writers s) m = Some v" using that by (simp add: s' update_conv')
    have "\<not> current_ok s m v" using cur False by (auto simp: current_ok_def)
    with I(2) [OF m] show ?thesis by (simp add: s')
  qed
  moreover have "hv_stage s \<noteq> Reading" using cur by (simp add: current_ok_def)
  ultimately show ?thesis using tbl.ok_put [OF I(1)] I(4) ok(2) by (auto simp: hv_inv_def s')
qed

lemmas hv_unfold = current_ok_def hv_set_writer_def hv_write_failed_def position_after_append

lemma submit_response_inv:
  assumes inv: "hv_inv s" and n: "map_of (hv_writers s) n = Some w" "\<not> rw_submitted w"
  shows "hv_inv (snd (submit_response n w keep_alive s))"
proof (cases "hw_session w")
  case True
  have nq: "\<not> quiet w" using n(2) by (simp add: quiet_def)
  have cur: "current_ok s n w" using hv_invD(2) [OF inv n(1)] nq by blast
  show ?thesis
    by (rule response_step_inv [OF inv n(1) nq, where w' = "w\<lparr>rw_submitted := True, hw_op := Head_write\<rparr>"])
      (use True cur n(2) in \<open>auto simp: submit_response_def hv_unfold\<close>)
qed (simp add: submit_response_def inv)

lemma busy_response:
  assumes "hv_inv s" "map_of (hv_writers s) n = Some w" "hw_op w \<noteq> No_write"
  shows "\<not> quiet w" "current_ok s n w"
  using hv_invD(2) [OF assms(1,2)] assms(3) by (auto simp: quiet_def)

lemma response_submitted_inv:
  assumes inv: "hv_inv s" and n: "map_of (hv_writers s) n = Some w" "hw_op w = Head_write"
  shows "hv_inv (response_submitted n w ec s)"
proof -
  have cur: "\<not> quiet w" "current_ok s n w" using busy_response [OF inv n(1)] n(2) by auto
  show ?thesis
    by (rule response_step_inv [OF inv n(1) cur(1), where w' = "if ec = Success then w\<lparr>hw_op := No_write\<rparr> else w\<lparr>hw_op := No_write, hw_cancelled := True\<rparr>"])
      (use cur(2) n(2) in \<open>auto simp: response_submitted_def hv_unfold\<close>)
qed

lemma write_response_inv:
  assumes inv: "hv_inv s" and n: "map_of (hv_writers s) n = Some w" "rw_submitted w" "hw_op w = No_write"
  shows "hv_inv (snd (write_response n w buffer eof s))"
proof (cases "write_entry buffer eof w")
  case None
  then have o: "\<not> hw_eof_submitted w" "\<not> hw_cancelled w" by (auto simp: write_entry_def split: if_splits)
  then have nq: "\<not> quiet w" by (simp add: quiet_def)
  have cur: "current_ok s n w" using hv_invD(2) [OF inv n(1)] nq by blast
  show ?thesis
    by (rule response_step_inv [OF inv n(1) nq, where w' = "w\<lparr>hw_op := Body_write buffer eof\<rparr>"])
      (use None o cur n(2,3) in \<open>auto simp: write_response_def hv_unfold\<close>)
qed (simp add: write_response_def inv)

lemma response_written_inv:
  assumes inv: "hv_inv s" and n: "map_of (hv_writers s) n = Some w" "hw_op w = Body_write buffer eof"
  shows "hv_inv (response_written n w buffer eof ec s)"
proof -
  have cur: "\<not> quiet w" "current_ok s n w" using busy_response [OF inv n(1)] n(2) by auto
  show ?thesis
    by (rule response_step_inv [OF inv n(1) cur(1), where w' = "write_exit ec eof w"])
      (use cur(2) n(2) in \<open>auto simp: response_written_def written_def write_exit_def Let_def hv_unfold\<close>)
qed

text \<open>Steps that change nothing the invariant is about.\<close>

lemma hv_inv_frame:
  assumes "hv_inv s" "hv_writers s' = hv_writers s" "hv_requests s' = hv_requests s" "hv_stage s' = hv_stage s"
    and "hv_wire s' = hv_wire s" "hv_aligned s' = hv_aligned s" "hv_body_left s' \<Longrightarrow> hv_body_left s"
  shows "hv_inv s'"
  using assms by (auto simp: hv_inv_def current_ok_def)

lemma drop_response_inv:
  assumes "hv_inv s"
  shows "hv_inv (s\<lparr>hv_writers := AList.delete n (hv_writers s)\<rparr>)"
proof -
  note I = hv_invD [OF assms]
  have "m < hv_requests s \<and> (quiet v \<or> current_ok (s\<lparr>hv_writers := AList.delete n (hv_writers s)\<rparr>) m v)"
    if "map_of (AList.delete n (hv_writers s)) m = Some v" for m v
    using that I(2) [of m v] I(1) by (auto simp: tbl.lookup_del current_ok_def split: if_splits)
  then show ?thesis using I(3,4,5) tbl.ok_del [OF I(1)] by (auto simp: hv_inv_def)
qed

lemma hv_step_inv:
  assumes "hv_inv s" "behaves op s"
  shows "hv_inv (hv_step b v2 op s)"
proof (cases op)
  case (Request_header ec q wec)
  then show ?thesis using assms by (simp add: request_header_inv)
next
  case Handler_returned
  then show ?thesis using assms handler_returned_inv by (auto split: stage.splits)
next
  case Handler_threw
  have "current_ok (s\<lparr>hv_stage := Finished\<rparr>) n w" if "current_ok s n w" for n w using that by (simp add: current_ok_def)
  with Handler_threw assms(1) show ?thesis by (auto simp: on_handler_threw_def hv_inv_def split: stage.splits)
next
  case (Read_request n room)
  then show ?thesis using assms by (auto intro!: hv_inv_frame [OF assms(1)] simp: read_request_def split: option.splits)
next
  case (Request_read n ec payload complete)
  then show ?thesis using assms by (auto intro!: hv_inv_frame [OF assms(1)] simp: request_read_def Let_def split: option.splits)
next
  case (Drop_request n)
  then show ?thesis using assms by (auto intro!: hv_inv_frame [OF assms(1)] simp: drop_request_def split: option.splits)
next
  case Destroy
  then show ?thesis using assms by (auto intro!: hv_inv_frame [OF assms(1)] simp: destroy_h1_def)
qed (use assms(1) in \<open>auto simp: submit_response_inv response_submitted_inv write_response_inv response_written_inv drop_response_inv
  split: option.splits writer_op.splits\<close>)

lemma hv_behaved_inv: "hv_inv s \<Longrightarrow> behaved_run b v2 ops s \<Longrightarrow> hv_inv (fold (hv_step b v2) ops s)"
  by (induction ops arbitrary: s) (auto simp: hv_step_inv simp del: hv_step.simps)

lemma hv_init_inv: "hv_inv hv_init"
  by (simp add: hv_inv_def hv_init_def distinct_keys_def)

section \<open>Properties\<close>


definition no_beast :: beast where
  "no_beast = \<lparr>token_list = (\<lambda>s. []), base64_decode = (\<lambda>s. ([], 0))\<rparr>"

definition plain_get :: h1_request where
  "plain_get = \<lparr>h1_method = ''GET'', h1_scheme = ''http'', h1_headers = [], h1_complete = True, h1_need_eof = False\<rparr>"

definition served :: "hv_op list" where
  "served =
     [Request_header Success plain_get Success, Submit_response 0 True, Response_submitted 0 Success,
      Write_response 0 [1] True, Response_written 0 Success, Handler_returned,
      Request_header Success plain_get Success, Submit_response 1 False, Response_submitted 1 Success]"


text \<open>C32: A handler that returns without having ended its response leaves the session to serve the next request all
  the same: the response to that one follows where it does not belong, and no reader of the connection can
  tell which request it is for.\<close>

theorem h1_unfinished_response_garbles:
  assumes "hv_stage s = Handling False" "\<not> hv_closed s" "hv_pos s = Some p" "p \<noteq> Between (hv_requests s)"
    and "h2c_upgrade b v2 q = None"
  shows "position_after (Between 0) (hv_wire (fold (hv_step b v2)
           [Handler_returned, Request_header Success q Success, Submit_response (hv_requests s) True,
            Response_submitted (hv_requests s) Success] s)) = None"
proof -
  have "hv_wire (fold (hv_step b v2)
      [Handler_returned, Request_header Success q Success, Submit_response (hv_requests s) True,
       Response_submitted (hv_requests s) Success] s) = hv_wire s @ [Head (hv_requests s)]"
    using assms(1,2,5)
    by (simp add: on_handler_returned_def next_round_def hv_detach_readers_def on_request_header_def Let_def hv_set_writer_def
      hv_detach_writers_def update_conv' submit_response_def response_submitted_def)
  moreover have "advance p (Head (hv_requests s)) = None" using assms(4) by (cases p) auto
  ultimately show ?thesis using assms(3) by (simp add: position_after_append)
qed

theorem h1_unfinished_response_garbles_witness:
  "\<exists>s. s = hv_run no_beast False [Request_header Success plain_get Success] \<and>
     hv_wire (fold (hv_step no_beast False) [Handler_returned, Request_header Success plain_get Success, Submit_response 1 True,
       Response_submitted 1 Success] s) = [Head 1] \<and>
     position_after (Between 0) (hv_wire (fold (hv_step no_beast False) [Handler_returned, Request_header Success plain_get Success,
       Submit_response 1 True, Response_submitted 1 Success] s)) = None"
proof -
  define s where "s = hv_run no_beast False [Request_header Success plain_get Success]"
  have s: "hv_stage s = Handling False" "\<not> hv_closed s" "hv_pos s = Some (Between 0)" "hv_requests s = 1"
    "h2c_upgrade no_beast False plain_get = None"
    and w: "hv_wire (fold (hv_step no_beast False) [Handler_returned, Request_header Success plain_get Success, Submit_response 1 True,
       Response_submitted 1 Success] s) = [Head 1]"
    unfolding s_def by code_simp+
  have "Between 0 \<noteq> Between (hv_requests s)" by (simp add: s(4))
  note g = h1_unfinished_response_garbles [OF s(1-3) this s(5), unfolded s(4)]
  show ?thesis by (rule exI [of _ s], intro conjI) (rule s_def, rule w, rule g)
qed

text \<open>An upgrade to HTTP/2 is granted only to a request in clear text that is complete, with one valid list of
  settings, and the fields handed on have nothing to do with the connection.\<close>

theorem h2c_upgrade_sound:
  assumes "h2c_upgrade b v2 q = Some up"
  shows "\<not> v2 \<and> h1_scheme q = ''http'' \<and> h1_complete q \<and> length (up_settings up) mod 6 = 0 \<and>
         list_all (\<lambda>(n, v). \<not> list_ex (iequals n) connection_specific) (up_fields up) \<and> set (up_fields up) \<subseteq> set (h1_headers q)"
  using assms by (auto simp: h2c_upgrade_def Let_def list_all_iff split: if_splits prod.splits)

end
