(* ===== verification/Quic_Conn.thy ===== *)
theory Quic_Conn
  imports Prelude
begin

text \<open>
  One QUIC connection, \<^verbatim>\<open>src/quic/session.cpp\<close>: what \<open>QuicSession\<close> does the same way on both sides, reading a
  packet, writing what is due, the expiry timer, the wake-up of the write loop, and the application asking for the
  connection to be closed. The streams and the application on top are the subject of other theories; here the
  connection tells them that they have failed.

  ngtcp2 is not part of the sources. What it answers is an argument of every operation that calls it: the answer to a
  read (\<open>read_ans\<close>), to a write pass (\<open>flush_ans\<close>), to an expired timer (\<open>expiry_ans\<close>) and to
  \<open>ngtcp2_conn_write_connection_close()\<close> (\<open>close_ans\<close>), together with the callbacks of ours it made before
  it returned (\<open>upcall\<close>). How it turns an error into what it puts into a \<^verbatim>\<open>CONNECTION_CLOSE\<close> frame is the argument
  \<open>ngtcp2\<close>, a record of functions.

  The virtual functions of \<open>QuicSession\<close> are the fields of the record \<open>role\<close>, which the operations take as an
  argument: the server and the client each provide one. What a role has to promise is stated as the locale
  \<open>quic_role\<close>.
\<close>

section \<open>State\<close>

type_synonym cid = bytes

datatype ccerr_type = Cc_transport | Cc_application | Cc_version_negotiation | Cc_idle_close | Cc_drop_conn | Cc_retry

record ccerr =
  cc_type :: ccerr_type
  cc_code :: nat

datatype ng_err = Err_draining | Err_crypto | Err_idle_close | Err_drop_conn | Err_callback_failure | Err_other nat

record ngtcp2 =
  ng_liberr :: "ng_err \<Rightarrow> ccerr"
  ng_tls_alert :: "nat \<Rightarrow> ccerr"
  ng_app_error :: "nat \<Rightarrow> ccerr"

text \<open>What \<open>timer_\<close> is armed for, and in how many nanoseconds it fires.\<close>

datatype timer = Unarmed | Expiry_timer nat | Close_timer nat

text \<open>What is posted to the executor of the session, \<open>run_later()\<close>: the datagrams the server has received for it,
  the flush of \<open>wake_write()\<close>, and \<open>close_connection()\<close>.\<close>

record datagram =
  dg_remote :: nat
  dg_data :: bytes

record batch =
  ba_is_new :: bool
  ba_datagrams :: "datagram list"

datatype job = Batch batch | Flush_job | Close_job nat

text \<open>The calls of a server session into the table of connection IDs.\<close>

datatype demux = Associate cid | Dissociate cid | Erase

text \<open>
  \<open>qc_conn\<close> says whether \<open>conn_\<close> is set, \<open>qc_closing\<close> and \<open>qc_draining\<close> what ngtcp2 says of it. The last four
  fields record what the session has done: the errors its streams were failed with, the packets that went out, its
  calls into the table of connection IDs, and whether it has passed a null \<open>conn_\<close> to ngtcp2.
\<close>

record quic_session =
  qc_conn :: bool
  qc_closing :: bool
  qc_draining :: bool
  qc_closed :: bool
  qc_error :: ccerr
  qc_posted :: bool
  qc_timer :: timer
  qc_application :: bool
  qc_ready :: bool
  qc_jobs :: "job list"
  qc_failed :: "error_code list"
  qc_sent :: "bytes list"
  qc_demux :: "demux list"
  qc_fault :: bool

definition ccerr_default :: ccerr where
  "ccerr_default = \<lparr>cc_type = Cc_transport, cc_code = 0\<rparr>"

section \<open>Answers of ngtcp2\<close>

record 'n close_ans =
  ca_packet :: bytes
  ca_closing :: bool
  ca_pto :: nat
  ca_net :: 'n

text \<open>\<open>Dropped\<close> is the application giving up its handle on the session, from within a callback.\<close>

datatype 'n upcall =
    New_cid cid
  | Remove_cid cid
  | Wake
  | Close_conn nat
  | App_error nat
  | Application_set
  | Rx_key bool
  | Dropped "'n close_ans"

record 'n read_ans =
  rd_upcalls :: "'n upcall list"
  rd_rv :: "ng_err option"
  rd_alert :: nat
  rd_draining :: bool
  rd_close :: "'n close_ans"

record 'n flush_ans =
  fa_upcalls :: "'n upcall list"
  fa_result :: "ng_err + bytes"
  fa_gso_size :: nat
  fa_net :: 'n
  fa_close :: "'n close_ans"
  fa_expiry :: "nat option"
  fa_now :: nat

record 'n expiry_ans =
  ea_upcalls :: "'n upcall list"
  ea_rv :: "ng_err option"

section \<open>The virtual functions\<close>

text \<open>The last one is \<open>destroy()\<close>, where the application's handle is what keeps the session up.\<close>

record ('s, 'n) role =
  vr_handle_error :: "'n close_ans \<Rightarrow> 's \<Rightarrow> int \<times> 's"
  vr_send_datagrams :: "bytes \<Rightarrow> nat \<Rightarrow> 'n flush_ans \<Rightarrow> 's \<Rightarrow> int \<times> 's"
  vr_on_new_cid :: "cid \<Rightarrow> 's \<Rightarrow> 's"
  vr_on_remove_cid :: "cid \<Rightarrow> 's \<Rightarrow> 's"
  vr_on_application_ready :: "'s \<Rightarrow> 's"
  vr_on_dropped :: "'n close_ans \<Rightarrow> 's \<Rightarrow> 's"

section \<open>Operations\<close>

definition qc_fail_streams :: "error_code \<Rightarrow> 'a quic_session_scheme \<Rightarrow> 'a quic_session_scheme" where
  "qc_fail_streams ec s = s\<lparr>qc_failed := qc_failed s @ [ec]\<rparr>"

definition qc_clear_streams :: "'a quic_session_scheme \<Rightarrow> 'a quic_session_scheme" where
  "qc_clear_streams s = s\<lparr>qc_failed := qc_failed s @ [Connection_aborted]\<rparr>"

definition run_later :: "job \<Rightarrow> 'a quic_session_scheme \<Rightarrow> 'a quic_session_scheme" where
  "run_later j s = s\<lparr>qc_jobs := qc_jobs s @ [j]\<rparr>"

definition close_connection :: "nat \<Rightarrow> 'a quic_session_scheme \<Rightarrow> 'a quic_session_scheme" where
  "close_connection app_error_code s = run_later (Close_job app_error_code) s"

definition set_application_error :: "ngtcp2 \<Rightarrow> nat \<Rightarrow> 'a quic_session_scheme \<Rightarrow> 'a quic_session_scheme" where
  "set_application_error ng app_error_code s = s\<lparr>qc_error := ng_app_error ng app_error_code\<rparr>"

definition wake_write :: "'a quic_session_scheme \<Rightarrow> 'a quic_session_scheme" where
  "wake_write s = (if qc_posted s then s else run_later Flush_job (s\<lparr>qc_posted := True\<rparr>))"

definition start_application ::
    "('a quic_session_scheme, 'n) role \<Rightarrow> bool \<Rightarrow> 'a quic_session_scheme \<Rightarrow> int \<times> 'a quic_session_scheme" where
  "start_application r on_ready s =
     (if qc_ready s then (0, s)
      else if \<not> qc_application s then (- 1, s)
      else if \<not> on_ready then (- 1, s)
      else (0, vr_on_application_ready r (s\<lparr>qc_ready := True\<rparr>)))"

text \<open>A callback of ours, made by ngtcp2 or by the application that runs within one.\<close>

definition do_upcall ::
    "('a quic_session_scheme, 'n) role \<Rightarrow> ngtcp2 \<Rightarrow> 'n upcall \<Rightarrow> 'a quic_session_scheme \<Rightarrow> 'a quic_session_scheme" where
  "do_upcall r ng u s =
     (case u of
        New_cid cid \<Rightarrow> vr_on_new_cid r cid s
      | Remove_cid cid \<Rightarrow> vr_on_remove_cid r cid s
      | Wake \<Rightarrow> wake_write s
      | Close_conn code \<Rightarrow> close_connection code s
      | App_error code \<Rightarrow> set_application_error ng code s
      | Application_set \<Rightarrow> s\<lparr>qc_application := True\<rparr>
      | Rx_key on_ready \<Rightarrow> snd (start_application r on_ready s)
      | Dropped a \<Rightarrow> vr_on_dropped r a s)"

definition do_upcalls ::
    "('a quic_session_scheme, 'n) role \<Rightarrow> ngtcp2 \<Rightarrow> 'n upcall list \<Rightarrow> 'a quic_session_scheme \<Rightarrow>
     'a quic_session_scheme" where
  "do_upcalls r ng us s = fold (do_upcall r ng) us s"

definition write_connection_close ::
    "'n close_ans \<Rightarrow> 'a quic_session_scheme \<Rightarrow> bytes \<times> 'a quic_session_scheme" where
  "write_connection_close a s =
     (if \<not> qc_conn s then ([], s)
      else (ca_packet a, s\<lparr>qc_closing := qc_closing s \<or> ca_closing a\<rparr>))"

definition write_streams ::
    "('a quic_session_scheme, 'n) role \<Rightarrow> ngtcp2 \<Rightarrow> 'n flush_ans \<Rightarrow> 'a quic_session_scheme \<Rightarrow>
     int \<times> 'a quic_session_scheme" where
  "write_streams r ng a s =
     (if \<not> qc_conn s then (0, s)
      else if qc_closing s \<or> qc_draining s then (0, s)
      else let s = do_upcalls r ng (fa_upcalls a) s in
        case fa_result a of
          Inl e \<Rightarrow>
            vr_handle_error r (fa_close a)
              (if cc_code (qc_error s) = 0 then s\<lparr>qc_error := ng_liberr ng e\<rparr> else s)
        | Inr data \<Rightarrow>
            if data = [] then (0, s)
            else vr_send_datagrams r data (if fa_gso_size a \<noteq> 0 then fa_gso_size a else length data) a s)"

definition arm_timer_from_ngtcp2 ::
    "'n flush_ans \<Rightarrow> 'a quic_session_scheme \<Rightarrow> 'a quic_session_scheme" where
  "arm_timer_from_ngtcp2 a s =
     (if qc_closed s \<or> \<not> qc_conn s then s
      else case fa_expiry a of
             None \<Rightarrow> s\<lparr>qc_timer := Unarmed\<rparr>
           | Some expiry \<Rightarrow>
               s\<lparr>qc_timer := Expiry_timer (if expiry \<le> fa_now a then 1 else expiry - fa_now a)\<rparr>)"

definition flush_write ::
    "('a quic_session_scheme, 'n) role \<Rightarrow> ngtcp2 \<Rightarrow> 'n flush_ans \<Rightarrow> 'a quic_session_scheme \<Rightarrow>
     int \<times> 'a quic_session_scheme" where
  "flush_write r ng a s =
     (if qc_closed s \<or> \<not> qc_conn s then (0, s)
      else let (rv, s) = write_streams r ng a s in
        if rv \<noteq> 0 then (rv, s) else (0, arm_timer_from_ngtcp2 a s))"

definition deref_conn :: "'a quic_session_scheme \<Rightarrow> 'a quic_session_scheme" where
  "deref_conn s = (if qc_conn s then s else s\<lparr>qc_fault := True\<rparr>)"

definition handle_expiry ::
    "('a quic_session_scheme, 'n) role \<Rightarrow> ngtcp2 \<Rightarrow> 'n expiry_ans \<Rightarrow> 'n flush_ans \<Rightarrow> 'a quic_session_scheme \<Rightarrow>
     int \<times> 'a quic_session_scheme" where
  "handle_expiry r ng e a s =
     (let s = do_upcalls r ng (ea_upcalls e) (deref_conn s) in
      case ea_rv e of
        Some rv \<Rightarrow> vr_handle_error r (fa_close a) (s\<lparr>qc_error := ng_liberr ng rv\<rparr>)
      | None \<Rightarrow> flush_write r ng a s)"

definition on_read ::
    "('a quic_session_scheme, 'n) role \<Rightarrow> ngtcp2 \<Rightarrow> 'n read_ans \<Rightarrow> 'a quic_session_scheme \<Rightarrow>
     int \<times> 'a quic_session_scheme" where
  "on_read r ng a s =
     (let s = do_upcalls r ng (rd_upcalls a) (deref_conn s);
          s = s\<lparr>qc_draining := qc_draining s \<or> rd_draining a\<rparr> in
      case rd_rv a of
        None \<Rightarrow> (0, s)
      | Some rv \<Rightarrow>
          vr_handle_error r (rd_close a)
            (if rv = Err_crypto \<and> cc_code (qc_error s) = 0 then s\<lparr>qc_error := ng_tls_alert ng (rd_alert a)\<rparr>
             else if cc_code (qc_error s) = 0 then s\<lparr>qc_error := ng_liberr ng rv\<rparr> else s))"

text \<open>What runs later: the flush that \<open>wake_write()\<close> has posted, and the end of \<open>close_connection()\<close>.\<close>

definition run_flush ::
    "('a quic_session_scheme, 'n) role \<Rightarrow> ngtcp2 \<Rightarrow> 'n flush_ans \<Rightarrow> 'a quic_session_scheme \<Rightarrow>
     'a quic_session_scheme" where
  "run_flush r ng a s =
     (let s = s\<lparr>qc_posted := False\<rparr> in if qc_closed s then s else snd (flush_write r ng a s))"

definition run_close_connection ::
    "('a quic_session_scheme, 'n) role \<Rightarrow> ngtcp2 \<Rightarrow> nat \<Rightarrow> 'n close_ans \<Rightarrow> 'a quic_session_scheme \<Rightarrow>
     'a quic_session_scheme" where
  "run_close_connection r ng code a s =
     (if qc_closed s \<or> \<not> qc_conn s then s
      else snd (vr_handle_error r a (set_application_error ng code s)))"

end
