(* ===== verification/Quic_Udp.thy ===== *)
theory Quic_Udp
  imports Prelude
begin

text \<open>
  Datagrams: how the packets of one write pass leave (\<^verbatim>\<open>src/quic/server.cpp\<close>, \<open>send_udp()\<close> and
  \<open>send_datagrams()\<close>), and how a receive buffer that the kernel filled with several datagrams is taken apart.

  What the operating system answers is given: \<open>nt_results\<close> has one entry for each call of \<open>sendmsg()\<close> to
  come, past its end every call succeeds. \<open>nt_drops\<close> is the same for the random numbers of \<open>drop_packet()\<close>,
  \<open>nt_wire\<close> collects the datagrams the operating system has accepted.
\<close>

section \<open>Segments\<close>

text \<open>What a buffer is cut into, \<open>n\<close> bytes at a time. Both loops of the source that do this are only entered
  with \<open>n > 0\<close>; with zero they would not end.\<close>

function segments :: "nat \<Rightarrow> 'a list \<Rightarrow> 'a list list" where
  "segments n data = (if data = [] \<or> n = 0 then [] else take n data # segments n (drop n data))"
  by pat_completeness auto
termination by (relation "measure (\<lambda>(n, data). length data)") auto

declare segments.simps [simp del]

lemma segments_Nil [simp]: "segments n [] = []"
  by (simp add: segments.simps)

lemma segments_eq_Nil: "0 < n \<Longrightarrow> segments n data = [] \<longleftrightarrow> data = []"
  by (subst segments.simps) simp

lemma segments_one: "data \<noteq> [] \<Longrightarrow> length data \<le> n \<Longrightarrow> segments n data = [data]"
  by (cases n) (auto simp: segments.simps)

lemma concat_segments: "0 < n \<Longrightarrow> concat (segments n data) = data"
proof (induction n data rule: segments.induct)
  case (1 n data)
  then show ?case by (subst segments.simps) simp
qed

lemma segments_bound: "p \<in> set (segments n data) \<Longrightarrow> p \<noteq> [] \<and> length p \<le> n"
proof (induction n data rule: segments.induct)
  case (1 n data)
  then show ?case by (subst (asm) (2) segments.simps) (auto split: if_splits)
qed

lemma segments_full: "p \<in> set (butlast (segments n data)) \<Longrightarrow> length p = n"
proof (induction n data rule: segments.induct)
  case (1 n data)
  show ?case
  proof (cases "data = [] \<or> n = 0 \<or> drop n data = []")
    case True
    then show ?thesis using "1.prems" by (subst (asm) segments.simps) (auto split: if_splits)
  next
    case False
    then have "butlast (segments n data) = take n data # butlast (segments n (drop n data))"
      by (subst segments.simps) (simp add: segments_eq_Nil)
    then show ?thesis using "1.IH" "1.prems" False by auto
  qed
qed

section \<open>Sending\<close>

datatype send_result = Sent | Interrupted | Again | Rejected | Failed

record net =
  nt_drops :: "bool list"
  nt_results :: "send_result list"
  nt_wire :: "bytes list"

definition drop_packet :: "bool \<Rightarrow> net \<Rightarrow> bool \<times> net" where
  "drop_packet dropping n =
     (if \<not> dropping then (False, n)
      else case nt_drops n of [] \<Rightarrow> (False, n) | b # bs \<Rightarrow> (b, n\<lparr>nt_drops := bs\<rparr>))"

text \<open>The result of \<open>sendmsg()\<close> once it is not interrupted any more (the loop over \<open>EINTR\<close>). \<open>Rejected\<close> is
  \<open>EINVAL\<close> or \<open>EOPNOTSUPP\<close>, \<open>Again\<close> is \<open>EAGAIN\<close>, \<open>Failed\<close> any other error.\<close>

fun uninterrupted :: "send_result list \<Rightarrow> send_result \<times> send_result list" where
  "uninterrupted [] = (Sent, [])"
| "uninterrupted (r # rs) = (if r = Interrupted then uninterrupted rs else (r, rs))"

definition sendmsg :: "bytes list \<Rightarrow> net \<Rightarrow> send_result \<times> net" where
  "sendmsg ds n =
     (case uninterrupted (nt_results n) of
        (r, rs) \<Rightarrow> (r, n\<lparr>nt_results := rs, nt_wire := nt_wire n @ (if r = Sent then ds else [])\<rparr>))"

definition send_udp :: "bool \<Rightarrow> bytes \<Rightarrow> net \<Rightarrow> int \<times> net" where
  "send_udp dropping packet n =
     (let (dropped, n) = drop_packet dropping n in
      if dropped then (0, n)
      else let (r, n) = sendmsg [packet] n in if r = Sent \<or> r = Again then (0, n) else (- 1, n))"

fun send_each :: "bool \<Rightarrow> bytes list \<Rightarrow> net \<Rightarrow> int \<times> net" where
  "send_each dropping [] n = (0, n)"
| "send_each dropping (p # ps) n =
     (case send_udp dropping p n of (rv, n) \<Rightarrow> if rv \<noteq> 0 then (- 1, n) else send_each dropping ps n)"

text \<open>What the kernel makes of one \<open>sendmsg()\<close> with \<open>UDP_SEGMENT\<close>; a segment size of zero leaves the buffer
  whole.\<close>

definition udp_segment :: "16 word \<Rightarrow> bytes \<Rightarrow> bytes list" where
  "udp_segment seg data = (if seg = 0 then [data] else segments (unat seg) data)"

text \<open>The flag is \<open>no_gso_\<close>, before and after.\<close>

definition send_datagrams :: "bool \<Rightarrow> bool \<Rightarrow> bytes \<Rightarrow> nat \<Rightarrow> net \<Rightarrow> int \<times> bool \<times> net" where
  "send_datagrams dropping no_gso data gso_size n =
     (if no_gso \<or> length data \<le> gso_size \<or> dropping
      then let (rv, n) = send_each dropping (segments gso_size data) n in (rv, no_gso, n)
      else let (r, n) = sendmsg (udp_segment (of_nat gso_size) data) n in
        if r = Sent \<or> r = Again then (0, no_gso, n)
        else if r = Rejected
        then let (rv, n) = send_each dropping (segments gso_size data) n in (rv, True, n)
        else (- 1, no_gso, n))"

section \<open>Receiving\<close>

text \<open>The datagrams in one receive buffer: with \<open>UDP_GRO\<close> they are \<open>gro_size\<close> bytes each, without it there is
  one.\<close>

definition split_gro :: "nat \<Rightarrow> bytes \<Rightarrow> bytes list" where
  "split_gro gro_size data = segments (if 0 < gro_size then gro_size else length data) data"

section \<open>Lemmas\<close>

definition accepting :: "net \<Rightarrow> bool" where
  "accepting n \<longleftrightarrow> set (nt_results n) \<subseteq> {Sent, Interrupted}"

lemma uninterrupted_accepting:
  "set rs \<subseteq> {Sent, Interrupted} \<Longrightarrow> \<exists>rs'. uninterrupted rs = (Sent, rs') \<and> set rs' \<subseteq> {Sent, Interrupted}"
  by (induction rs) auto

lemma uninterrupted_interrupts [simp]: "uninterrupted (replicate k Interrupted @ rs) = uninterrupted rs"
  by (induction k) auto

lemma sendmsg_accepting:
  assumes "accepting n"
  obtains n' where "sendmsg ds n = (Sent, n')" "accepting n'" "nt_wire n' = nt_wire n @ ds"
  using uninterrupted_accepting [of "nt_results n"] assms that
  unfolding accepting_def sendmsg_def by fastforce

lemma send_udp_accepting:
  assumes "accepting n"
  obtains n' where "send_udp False p n = (0, n')" "accepting n'" "nt_wire n' = nt_wire n @ [p]"
  using sendmsg_accepting [OF assms, of "[p]"] that
  unfolding send_udp_def drop_packet_def by force

lemma send_each_accepting:
  "accepting n \<Longrightarrow> \<exists>n'. send_each False ps n = (0, n') \<and> nt_wire n' = nt_wire n @ ps"
proof (induction ps arbitrary: n)
  case (Cons p ps)
  then obtain n' where n': "send_udp False p n = (0, n')" "accepting n'" "nt_wire n' = nt_wire n @ [p]"
    using send_udp_accepting by blast
  then show ?case using Cons.IH [OF n'(2)] by auto
qed simp

lemma unat_of_nat_16: "k < 65536 \<Longrightarrow> unat (of_nat k :: 16 word) = k"
  by (simp add: unat_of_nat take_bit_nat_eq_self_iff)

lemma udp_segment_eq:
  assumes "0 < k" "k < 65536"
  shows "udp_segment (of_nat k) data = segments k data"
proof -
  have "(of_nat k :: 16 word) \<noteq> 0"
    using assms unat_of_nat_16 [OF assms(2)] by (metis less_not_refl unat_0)
  then show ?thesis using unat_of_nat_16 [OF assms(2)] by (simp add: udp_segment_def)
qed

end
