(* ===== verification/Quic_Server.thy ===== *)
theory Quic_Server
  imports Quic_Conn Quic_Udp
begin

text \<open>
  The QUIC server, \<^verbatim>\<open>src/quic/server.cpp\<close>: the server's end of a connection (\<open>QuicServerSession\<close>, the role of the
  server), the receive path that sorts datagrams by connection ID and hands every session its share
  (\<open>udp_on_read()\<close>), what a session does with its share on its own executor (\<open>process_quic_batch()\<close>), and the
  table of connection IDs that all sessions share.

  An operation of a session is one step, as is one pass of the receive path. A session never looks at the table, so its
  calls into it are collected in \<open>qc_demux\<close> and take effect, in order, when the step ends.
\<close>

section \<open>The session\<close>

record server_session = quic_session +
  ss_done :: bool
  ss_closebuf :: bytes
  ss_no_gso :: bool
  ss_registered :: bool

definition new_session :: "bool \<Rightarrow> server_session" where
  "new_session disable_gso =
     \<lparr>qc_conn = False, qc_closing = False, qc_draining = False, qc_closed = False, qc_error = ccerr_default,
      qc_posted = False, qc_timer = Unarmed, qc_application = False, qc_ready = False, qc_jobs = [],
      qc_failed = [], qc_sent = [], qc_demux = [], qc_fault = False,
      ss_done = False, ss_closebuf = [], ss_no_gso = disable_gso, ss_registered = False\<rparr>"

definition call_demux :: "demux \<Rightarrow> server_session \<Rightarrow> server_session" where
  "call_demux d s = s\<lparr>qc_demux := qc_demux s @ [d]\<rparr>"

definition signal_done :: "server_session \<Rightarrow> server_session" where
  "signal_done s = s\<lparr>ss_done := True\<rparr>"

text \<open>\<open>send_udp()\<close> and \<open>send_datagrams()\<close> on the session's own socket; the first argument is whether
  \<open>drop_rate_tx\<close> is positive.\<close>

definition ss_send_udp :: "bool \<Rightarrow> bytes \<Rightarrow> net \<Rightarrow> server_session \<Rightarrow> int \<times> server_session" where
  "ss_send_udp dropping packet n s =
     (let (rv, n) = send_udp dropping packet (n\<lparr>nt_wire := []\<rparr>) in (rv, s\<lparr>qc_sent := qc_sent s @ nt_wire n\<rparr>))"

definition ss_send_datagrams ::
    "bool \<Rightarrow> bytes \<Rightarrow> nat \<Rightarrow> net flush_ans \<Rightarrow> server_session \<Rightarrow> int \<times> server_session" where
  "ss_send_datagrams dropping data gso_size a s =
     (let (rv, no_gso, n) = send_datagrams dropping (ss_no_gso s) data gso_size ((fa_net a)\<lparr>nt_wire := []\<rparr>) in
      (rv, s\<lparr>ss_no_gso := no_gso, qc_sent := qc_sent s @ nt_wire n\<rparr>))"

definition schedule_close_timer :: "net close_ans \<Rightarrow> server_session \<Rightarrow> server_session" where
  "schedule_close_timer a s =
     s\<lparr>qc_timer := Close_timer (if qc_conn s then ca_pto a * 3 else 100 * 1000 * 1000)\<rparr>"

definition server_handle_error :: "bool \<Rightarrow> net close_ans \<Rightarrow> server_session \<Rightarrow> int \<times> server_session" where
  "server_handle_error dropping a s =
     (if qc_closed s then (- 1, s)
      else let s = qc_fail_streams Connection_reset (s\<lparr>qc_closed := True\<rparr>) in
        if cc_type (qc_error s) = Cc_idle_close \<or> cc_type (qc_error s) = Cc_drop_conn
        then (- 1, signal_done (call_demux Erase (s\<lparr>qc_timer := Unarmed\<rparr>)))
        else if qc_conn s \<and> \<not> qc_draining s \<and> \<not> qc_closing s
        then let (packet, s) = write_connection_close a s in
          if packet \<noteq> []
          then (- 1, schedule_close_timer a (snd (ss_send_udp dropping packet (ca_net a) (s\<lparr>ss_closebuf := packet\<rparr>))))
          else (- 1, signal_done (s\<lparr>ss_closebuf := []\<rparr>))
        else (- 1, schedule_close_timer a s))"

definition resend_conn_close :: "bool \<Rightarrow> net \<Rightarrow> server_session \<Rightarrow> server_session" where
  "resend_conn_close dropping n s =
     (if ss_closebuf s = [] then s else snd (ss_send_udp dropping (ss_closebuf s) n s))"

definition do_destroy :: "bool \<Rightarrow> net close_ans \<Rightarrow> server_session \<Rightarrow> server_session" where
  "do_destroy dropping a s =
     (let s = qc_clear_streams s in
      if qc_closed s then signal_done (s\<lparr>qc_timer := Unarmed\<rparr>)
      else let s = s\<lparr>qc_closed := True\<rparr>;
               s = (if qc_conn s \<and> \<not> qc_closing s \<and> \<not> qc_draining s
                    then let (packet, s) = write_connection_close a s in
                      if packet \<noteq> [] then snd (ss_send_udp dropping packet (ca_net a) s) else s
                    else s)
           in signal_done (s\<lparr>qc_timer := Unarmed\<rparr>))"

definition server_role :: "bool \<Rightarrow> (server_session, net) role" where
  "server_role dropping =
     \<lparr>vr_handle_error = server_handle_error dropping,
      vr_send_datagrams = ss_send_datagrams dropping,
      vr_on_new_cid = (\<lambda>cid. call_demux (Associate cid)),
      vr_on_remove_cid = (\<lambda>cid. call_demux (Dissociate cid)),
      vr_on_application_ready = (\<lambda>s. s),
      vr_on_dropped = (\<lambda>a s. s)\<rparr>"

section \<open>A batch of datagrams\<close>

text \<open>How far \<open>init()\<close> gets: random numbers, the connection and its TLS half have to be had before the first packet
  is read.\<close>

datatype init_ans = Rand_failed | New_failed | Tls_failed | Init_read "net read_ans"

record batch_ans =
  bt_init :: init_ans
  bt_scids :: "cid list"
  bt_registered :: bool
  bt_reads :: "nat \<Rightarrow> net read_ans"
  bt_resend :: "nat \<Rightarrow> net"
  bt_flush :: "net flush_ans"
  bt_destroy :: "net close_ans"

definition server_init :: "bool \<Rightarrow> ngtcp2 \<Rightarrow> init_ans \<Rightarrow> server_session \<Rightarrow> int \<times> server_session" where
  "server_init dropping ng a s =
     (case a of
        Rand_failed \<Rightarrow> (- 1, s)
      | New_failed \<Rightarrow> (- 1, s)
      | Tls_failed \<Rightarrow> (- 1, s\<lparr>qc_conn := True\<rparr>)
      | Init_read ra \<Rightarrow> on_read (server_role dropping) ng ra (s\<lparr>qc_conn := True\<rparr>))"

text \<open>In the closing or draining period, as far as the session can tell.\<close>

definition in_close_period :: "server_session \<Rightarrow> bool" where
  "in_close_period s \<longleftrightarrow> qc_conn s \<and> (qc_closing s \<or> qc_draining s)"

fun feed ::
    "bool \<Rightarrow> ngtcp2 \<Rightarrow> batch_ans \<Rightarrow> nat \<Rightarrow> datagram list \<Rightarrow> bool \<Rightarrow> server_session \<Rightarrow> bool \<times> server_session" where
  "feed dropping ng a i [] read_ok s = (read_ok, s)"
| "feed dropping ng a i (d # ds) read_ok s =
     (if qc_conn s \<and> qc_closing s
      then feed dropping ng a (i + 1) ds read_ok (resend_conn_close dropping (bt_resend a i) s)
      else if qc_conn s \<and> qc_draining s then feed dropping ng a (i + 1) ds read_ok s
      else if qc_closed s then feed dropping ng a (i + 1) ds read_ok s
      else case on_read (server_role dropping) ng (bt_reads a i) s of (rv, s) \<Rightarrow>
        if rv = 0 then feed dropping ng a (i + 1) ds True s
        else feed dropping ng a (i + 1) ds read_ok
               (if qc_closed s \<and> \<not> in_close_period s then call_demux Erase s else s))"

definition flush_batch :: "bool \<Rightarrow> ngtcp2 \<Rightarrow> batch_ans \<Rightarrow> bool \<times> server_session \<Rightarrow> server_session" where
  "flush_batch dropping ng a rs =
     (case rs of (read_ok, s) \<Rightarrow>
        if \<not> read_ok then s
        else let (rv, s) = flush_write (server_role dropping) ng (bt_flush a) s in
          if rv = 0 \<or> \<not> qc_closed s then s
          else if \<not> in_close_period s then call_demux Erase s else s)"

definition process_quic_batch ::
    "bool \<Rightarrow> ngtcp2 \<Rightarrow> batch_ans \<Rightarrow> batch \<Rightarrow> server_session \<Rightarrow> server_session" where
  "process_quic_batch dropping ng a b s =
     (if ba_is_new b
      then case server_init dropping ng (bt_init a) s of (rv, s) \<Rightarrow>
        if rv \<noteq> 0 then call_demux Erase s
        else let s = (if length (bt_scids a) \<le> 8 then fold (\<lambda>cid. call_demux (Associate cid)) (bt_scids a) s else s) in
          if \<not> bt_registered a then do_destroy dropping (bt_destroy a) (call_demux Erase s)
          else flush_batch dropping ng a
                 (feed dropping ng a 1 (tl (ba_datagrams b)) True (s\<lparr>ss_registered := True\<rparr>))
      else flush_batch dropping ng a (feed dropping ng a 0 (ba_datagrams b) False s))"

section \<open>The table of connection IDs\<close>

record quic_server =
  qv_sessions :: "cid \<rightharpoonup> nat"
  qv_object :: "nat \<Rightarrow> server_session"
  qv_next :: nat
  qv_destroyed :: bool

definition associate_quic_cid :: "cid \<Rightarrow> nat \<Rightarrow> (cid \<rightharpoonup> nat) \<Rightarrow> (cid \<rightharpoonup> nat)" where
  "associate_quic_cid cid h t = (if t cid = None then t(cid \<mapsto> h) else t)"

definition dissociate_quic_cid :: "cid \<Rightarrow> (cid \<rightharpoonup> nat) \<Rightarrow> (cid \<rightharpoonup> nat)" where
  "dissociate_quic_cid cid t = t(cid := None)"

definition erase_quic_session :: "nat \<Rightarrow> (cid \<rightharpoonup> nat) \<Rightarrow> (cid \<rightharpoonup> nat)" where
  "erase_quic_session h t = (\<lambda>cid. if t cid = Some h then None else t cid)"

definition do_demux :: "nat \<Rightarrow> demux \<Rightarrow> (cid \<rightharpoonup> nat) \<Rightarrow> (cid \<rightharpoonup> nat)" where
  "do_demux h d t =
     (case d of
        Associate cid \<Rightarrow> associate_quic_cid cid h t
      | Dissociate cid \<Rightarrow> dissociate_quic_cid cid t
      | Erase \<Rightarrow> erase_quic_session h t)"

definition commit :: "nat \<Rightarrow> server_session \<Rightarrow> quic_server \<Rightarrow> quic_server" where
  "commit h s v =
     v\<lparr>qv_object := (qv_object v)(h := s\<lparr>qc_demux := []\<rparr>),
       qv_sessions := fold (do_demux h) (qc_demux s) (qv_sessions v)\<rparr>"

section \<open>The receive path\<close>

text \<open>What one \<open>recvmsg()\<close> yields: an error (there is nothing more to read), a datagram whose local or remote address
  cannot be had, or a buffer with its sender, the segment size of \<open>UDP_GRO\<close>, and which of its segments
  \<open>drop_packet()\<close> drops.\<close>

record received =
  rx_data :: bytes
  rx_remote :: nat
  rx_addressed :: bool
  rx_gro_size :: nat
  rx_dropped :: "nat \<Rightarrow> bool"

text \<open>Decoding the connection ID of a packet and accepting a first packet are ngtcp2's.\<close>

record ng_packet =
  np_decode_dcid :: "bytes \<Rightarrow> cid option"
  np_accept :: "bytes \<Rightarrow> bool"

text \<open>The batches of one pass, and the state of the receive path: the table, the next session to make, the batches.\<close>

type_synonym batches = "(nat \<times> batch) list"

definition add_datagram :: "nat \<Rightarrow> datagram \<Rightarrow> batches \<Rightarrow> batches" where
  "add_datagram h d bs =
     (case map_of bs h of
        None \<Rightarrow> bs @ [(h, \<lparr>ba_is_new = False, ba_datagrams = [d]\<rparr>)]
      | Some b \<Rightarrow> map (\<lambda>(k, c). (k, if k = h then c\<lparr>ba_datagrams := ba_datagrams c @ [d]\<rparr> else c)) bs)"

record demultiplexer =
  dx_sessions :: "cid \<rightharpoonup> nat"
  dx_next :: nat
  dx_batches :: batches

definition route :: "ng_packet \<Rightarrow> nat \<Rightarrow> bytes \<Rightarrow> demultiplexer \<Rightarrow> demultiplexer" where
  "route np remote data x =
     (case np_decode_dcid np data of
        None \<Rightarrow> x
      | Some cid \<Rightarrow>
          let d = \<lparr>dg_remote = remote, dg_data = data\<rparr> in
          case dx_sessions x cid of
            Some h \<Rightarrow> x\<lparr>dx_batches := add_datagram h d (dx_batches x)\<rparr>
          | None \<Rightarrow>
              if \<not> np_accept np data then x
              else let h = dx_next x in
                \<lparr>dx_sessions = (dx_sessions x)(cid \<mapsto> h), dx_next = h + 1,
                 dx_batches = add_datagram h d (dx_batches x @ [(h, \<lparr>ba_is_new = True, ba_datagrams = []\<rparr>)])\<rparr>)"

text \<open>The segments of a buffer that are not dropped.\<close>

definition surviving :: "received \<Rightarrow> bytes list" where
  "surviving m =
     (let ds = split_gro (rx_gro_size m) (rx_data m)
      in map fst (filter (\<lambda>(d, i). \<not> rx_dropped m i) (zip ds [0..<length ds])))"

text \<open>At most 32 calls of \<open>recvmsg()\<close> per pass; one that fails ends it.\<close>

fun receive_pass :: "ng_packet \<Rightarrow> nat \<Rightarrow> received list \<Rightarrow> demultiplexer \<Rightarrow> demultiplexer" where
  "receive_pass np 0 ms x = x"
| "receive_pass np (Suc k) [] x = x"
| "receive_pass np (Suc k) (m # ms) x =
     receive_pass np k ms
       (if length (rx_data m) < 22 \<or> \<not> rx_addressed m then x
        else fold (route np (rx_remote m)) (surviving m) x)"

definition post_batches :: "batches \<Rightarrow> (nat \<Rightarrow> server_session) \<Rightarrow> (nat \<Rightarrow> server_session)" where
  "post_batches bs obj = fold (\<lambda>(h, b) f. f(h := run_later (Batch b) (f h))) bs obj"

definition udp_on_read :: "bool \<Rightarrow> ng_packet \<Rightarrow> received list \<Rightarrow> quic_server \<Rightarrow> quic_server" where
  "udp_on_read disable_gso np ms v =
     (let x = receive_pass np 32 ms \<lparr>dx_sessions = qv_sessions v, dx_next = qv_next v, dx_batches = []\<rparr>;
          made = (\<lambda>h. if qv_next v \<le> h \<and> h < dx_next x then new_session disable_gso else qv_object v h)
      in v\<lparr>qv_sessions := dx_sessions x, qv_next := dx_next x, qv_object := post_batches (dx_batches x) made\<rparr>)"

section \<open>Steps\<close>

text \<open>The answers to whatever the next job of a session turns out to be.\<close>

record job_ans =
  ja_batch :: batch_ans
  ja_flush :: "net flush_ans"
  ja_close :: "net close_ans"

definition run_job ::
    "bool \<Rightarrow> ngtcp2 \<Rightarrow> job_ans \<Rightarrow> server_session \<Rightarrow> server_session" where
  "run_job dropping ng a s =
     (case qc_jobs s of
        [] \<Rightarrow> s
      | j # js \<Rightarrow>
          let s = s\<lparr>qc_jobs := js\<rparr> in
          case j of
            Batch b \<Rightarrow> process_quic_batch dropping ng (ja_batch a) b s
          | Flush_job \<Rightarrow> run_flush (server_role dropping) ng (ja_flush a) s
          | Close_job code \<Rightarrow> run_close_connection (server_role dropping) ng code (ja_close a) s)"

text \<open>The timer of a session fires; a timer fires once.\<close>

definition fire_timer ::
    "bool \<Rightarrow> ngtcp2 \<Rightarrow> net expiry_ans \<Rightarrow> net flush_ans \<Rightarrow> server_session \<Rightarrow> server_session" where
  "fire_timer dropping ng e a s =
     (case qc_timer s of
        Unarmed \<Rightarrow> s
      | Expiry_timer d \<Rightarrow> snd (handle_expiry (server_role dropping) ng e a (s\<lparr>qc_timer := Unarmed\<rparr>))
      | Close_timer d \<Rightarrow> signal_done (call_demux Erase (s\<lparr>qc_timer := Unarmed\<rparr>)))"

datatype event =
    Receive "received list"
  | Run nat job_ans
  | Timer nat "net expiry_ans" "net flush_ans"
  | Woken nat
  | Close_requested nat nat
  | Server_destroyed
  | Destroyed nat "net close_ans"

record config =
  cf_dropping :: bool
  cf_disable_gso :: bool
  cf_ngtcp2 :: ngtcp2
  cf_packet :: ng_packet

text \<open>A session registers itself only as long as the server is not destroyed, and is told to destroy itself only when it
  is (\<open>add_session()\<close> and \<open>destroy()\<close> of \<^verbatim>\<open>src/server_impl.cpp\<close>).\<close>

definition enabled :: "event \<Rightarrow> quic_server \<Rightarrow> bool" where
  "enabled e v =
     (case e of
        Receive ms \<Rightarrow> True
      | Run h a \<Rightarrow> h < qv_next v \<and> bt_registered (ja_batch a) = (\<not> qv_destroyed v)
      | Timer h e a \<Rightarrow> h < qv_next v
      | Woken h \<Rightarrow> h < qv_next v
      | Close_requested h c \<Rightarrow> h < qv_next v
      | Server_destroyed \<Rightarrow> True
      | Destroyed h a \<Rightarrow> h < qv_next v \<and> qv_destroyed v)"

definition qv_apply :: "config \<Rightarrow> event \<Rightarrow> quic_server \<Rightarrow> quic_server" where
  "qv_apply cf e v =
     (case e of
        Receive ms \<Rightarrow> udp_on_read (cf_disable_gso cf) (cf_packet cf) ms v
      | Run h a \<Rightarrow> commit h (run_job (cf_dropping cf) (cf_ngtcp2 cf) a (qv_object v h)) v
      | Timer h e a \<Rightarrow> commit h (fire_timer (cf_dropping cf) (cf_ngtcp2 cf) e a (qv_object v h)) v
      | Woken h \<Rightarrow> commit h (wake_write (qv_object v h)) v
      | Close_requested h c \<Rightarrow> commit h (close_connection c (qv_object v h)) v
      | Server_destroyed \<Rightarrow> v\<lparr>qv_destroyed := True\<rparr>
      | Destroyed h a \<Rightarrow> commit h (do_destroy (cf_dropping cf) a (qv_object v h)) v)"

definition qv_start :: quic_server where
  "qv_start = \<lparr>qv_sessions = Map.empty, qv_object = (\<lambda>h. new_session False), qv_next = 0, qv_destroyed = False\<rparr>"

inductive qv_run :: "config \<Rightarrow> event list \<Rightarrow> quic_server \<Rightarrow> quic_server \<Rightarrow> bool" for cf where
  nil: "qv_run cf [] v v"
| snoc: "qv_run cf es v w \<Longrightarrow> enabled e w \<Longrightarrow> qv_run cf (es @ [e]) v (qv_apply cf e w)"

end
