(* ===== verification/Quic_Role.thy ===== *)
theory Quic_Role
  imports Quic_Server
begin

text \<open>
  What the connection of \<^verbatim>\<open>src/quic/session.cpp\<close> relies on in its role, as a locale, and what follows from it for
  every role: an operation that reports an error of the connection has closed it, a closed connection is not written
  to, and the write loop is woken at most once at a time. The server is the first to keep the contract.
\<close>

section \<open>The contract\<close>

text \<open>What a virtual function leaves alone.\<close>

definition untouched :: "'a quic_session_scheme \<Rightarrow> 'a quic_session_scheme \<Rightarrow> bool" where
  "untouched s s' \<longleftrightarrow>
     qc_jobs s' = qc_jobs s \<and> qc_posted s' = qc_posted s \<and> qc_conn s' = qc_conn s \<and> qc_fault s' = qc_fault s \<and>
     (qc_closed s \<longrightarrow> qc_closed s')"

lemma untouched_trans: "untouched s t \<Longrightarrow> untouched t u \<Longrightarrow> untouched s u"
  by (auto simp: untouched_def)

text \<open>At most one flush is on its way, and \<open>write_posted_\<close> says whether.\<close>

definition coalesced :: "'a quic_session_scheme \<Rightarrow> bool" where
  "coalesced s \<longleftrightarrow> count_list (qc_jobs s) Flush_job = (if qc_posted s then 1 else 0)"

lemma coalesced_untouched: "untouched s s' \<Longrightarrow> coalesced s \<Longrightarrow> coalesced s'"
  by (auto simp: untouched_def coalesced_def)

lemma coalesced_wake_write: "coalesced s \<Longrightarrow> coalesced (wake_write s)"
  by (auto simp: coalesced_def wake_write_def run_later_def)

lemma coalesced_run_later: "j \<noteq> Flush_job \<Longrightarrow> coalesced s \<Longrightarrow> coalesced (run_later j s)"
  by (auto simp: coalesced_def run_later_def)

locale quic_role =
  fixes r :: "('a quic_session_scheme, 'n) role"
  assumes error_untouched: "untouched s (snd (vr_handle_error r a s))"
    and error_closes: "fst (vr_handle_error r a s) = - 1" "qc_closed (snd (vr_handle_error r a s))"
    and send_untouched: "untouched s (snd (vr_send_datagrams r data gso_size f s))"
    and new_cid_untouched: "untouched s (vr_on_new_cid r cid s)" "qc_closed (vr_on_new_cid r cid s) = qc_closed s"
    and remove_cid_untouched:
      "untouched s (vr_on_remove_cid r cid s)" "qc_closed (vr_on_remove_cid r cid s) = qc_closed s"
    and ready_untouched:
      "untouched s (vr_on_application_ready r s)" "qc_closed (vr_on_application_ready r s) = qc_closed s"
    and dropped_untouched: "untouched s (vr_on_dropped r a s)"
begin

lemma start_application_untouched:
  "untouched s (snd (start_application r b s))" "qc_closed (snd (start_application r b s)) = qc_closed s"
  using ready_untouched [where s = "s\<lparr>qc_ready := True\<rparr>"]
  by (auto simp: start_application_def untouched_def)

lemma upcall_keeps:
  "qc_conn (do_upcall r ng u s) = qc_conn s" "qc_fault (do_upcall r ng u s) = qc_fault s"
  "qc_closed s \<Longrightarrow> qc_closed (do_upcall r ng u s)"
  using dropped_untouched [where s = s] new_cid_untouched [where s = s] remove_cid_untouched [where s = s] start_application_untouched [where s = s]
  by (cases u; auto simp: do_upcall_def untouched_def wake_write_def run_later_def close_connection_def
      set_application_error_def)+

lemma upcall_coalesced:
  assumes "coalesced s" shows "coalesced (do_upcall r ng u s)"
proof -
  have "coalesced (vr_on_new_cid r cid s)" "coalesced (vr_on_remove_cid r cid s)"
    "coalesced (snd (start_application r b s))" "coalesced (vr_on_dropped r a s)" for cid b a
    using dropped_untouched new_cid_untouched(1) remove_cid_untouched(1) start_application_untouched(1) coalesced_untouched assms
    by blast+
  then show ?thesis using assms coalesced_wake_write [OF assms]
    by (cases u) (simp_all add: do_upcall_def close_connection_def set_application_error_def coalesced_run_later,
        simp_all add: coalesced_def)
qed

lemma upcalls_keep:
  "qc_conn (do_upcalls r ng us s) = qc_conn s" "qc_fault (do_upcalls r ng us s) = qc_fault s"
  "qc_closed s \<Longrightarrow> qc_closed (do_upcalls r ng us s)"
  unfolding do_upcalls_def by (induction us arbitrary: s) (simp_all add: upcall_keeps)

lemma upcalls_coalesced: "coalesced s \<Longrightarrow> coalesced (do_upcalls r ng us s)"
  unfolding do_upcalls_def by (induction us arbitrary: s) (simp_all add: upcall_coalesced)

lemma upcalls_jobs: "\<exists>js. qc_jobs (do_upcalls r ng us s) = qc_jobs s @ js"
proof (induction us arbitrary: s)
  case (Cons u us)
  have "\<exists>js. qc_jobs (do_upcall r ng u s) = qc_jobs s @ js"
    using new_cid_untouched [where s = s] remove_cid_untouched [where s = s] start_application_untouched [where s = s]
      dropped_untouched [where s = s]
    by (cases u) (auto simp: do_upcall_def untouched_def wake_write_def run_later_def close_connection_def
        set_application_error_def)
  then show ?case using Cons.IH [of "do_upcall r ng u s"] by (auto simp: do_upcalls_def)
qed (simp add: do_upcalls_def)

lemma write_streams_coalesced: "coalesced s \<Longrightarrow> coalesced (snd (write_streams r ng a s))"
proof -
  assume "coalesced s"
  then have c: "coalesced (do_upcalls r ng (fa_upcalls a) s)" by (rule upcalls_coalesced)
  have e: "coalesced (snd (vr_handle_error r x t))" if "coalesced t" for x t
    using that coalesced_untouched error_untouched by blast
  have d: "coalesced (snd (vr_send_datagrams r x y f t))" if "coalesced t" for x y f t
    using that coalesced_untouched send_untouched by blast
  have "coalesced (t\<lparr>qc_error := x\<rparr>)" if "coalesced t" for t :: "'a quic_session_scheme" and x
    using that by (simp add: coalesced_def)
  then show ?thesis using c d e \<open>coalesced s\<close>
    by (auto simp: write_streams_def Let_def split: sum.split)
qed

lemma flush_write_coalesced:
  assumes "coalesced s" shows "coalesced (snd (flush_write r ng a s))"
proof -
  obtain rv t where t: "write_streams r ng a s = (rv, t)" by fastforce
  have "coalesced t" using write_streams_coalesced [OF assms, of ng a] t by simp
  then have "coalesced (arm_timer_from_ngtcp2 a t)"
    by (auto simp: arm_timer_from_ngtcp2_def coalesced_def split: option.split)
  then show ?thesis using \<open>coalesced t\<close> assms t by (simp add: flush_write_def)
qed

lemma run_flush_coalesced:
  assumes "coalesced (s\<lparr>qc_posted := False\<rparr>)" shows "coalesced (run_flush r ng a s)"
  using flush_write_coalesced [OF assms] assms by (simp add: run_flush_def Let_def)

lemma handle_error_coalesced: "coalesced s \<Longrightarrow> coalesced (snd (vr_handle_error r a s))"
  using error_untouched coalesced_untouched by blast

lemma deref_coalesced: "coalesced (deref_conn s) = coalesced s"
  by (simp add: coalesced_def deref_conn_def)

lemma handle_expiry_coalesced:
  assumes "coalesced s" shows "coalesced (snd (handle_expiry r ng e a s))"
proof -
  have "coalesced (do_upcalls r ng (ea_upcalls e) (deref_conn s))"
    using assms upcalls_coalesced deref_coalesced by blast
  moreover have "coalesced (t\<lparr>qc_error := x\<rparr>)" if "coalesced t" for t :: "'a quic_session_scheme" and x
    using that by (simp add: coalesced_def)
  ultimately show ?thesis
    by (auto simp: handle_expiry_def Let_def handle_error_coalesced flush_write_coalesced split: option.split)
qed

lemma on_read_coalesced:
  assumes "coalesced s" shows "coalesced (snd (on_read r ng a s))"
proof -
  have "coalesced (do_upcalls r ng (rd_upcalls a) (deref_conn s))"
    using assms upcalls_coalesced deref_coalesced by blast
  moreover have "coalesced (t\<lparr>qc_error := x\<rparr>)" "coalesced (t\<lparr>qc_draining := b\<rparr>)"
    "coalesced (t\<lparr>qc_draining := b, qc_error := x\<rparr>)"
    if "coalesced t" for t :: "'a quic_session_scheme" and x b
    using that by (simp_all add: coalesced_def)
  ultimately show ?thesis
    by (auto simp: on_read_def Let_def intro!: handle_error_coalesced split: option.split)
qed

lemma run_close_coalesced:
  assumes "coalesced s" shows "coalesced (run_close_connection r ng code a s)"
proof -
  have "coalesced (set_application_error ng code s)"
    using assms by (simp add: coalesced_def set_application_error_def)
  then show ?thesis using assms handle_error_coalesced by (simp add: run_close_connection_def)
qed

text \<open>Reading either succeeds or closes the connection.\<close>

lemma on_read_cases:
  assumes "on_read r ng a s = (rv, t)"
  shows "rv = 0 \<and> rd_rv a = None \<or> rv = - 1 \<and> rd_rv a \<noteq> None \<and> qc_closed t"
  using assms error_closes
  by (auto simp: on_read_def Let_def split: option.splits) (metis fst_conv snd_conv)+

lemma flush_write_closed: "qc_closed s \<Longrightarrow> flush_write r ng a s = (0, s)"
  by (simp add: flush_write_def)

lemma run_flush_closed: "qc_closed s \<Longrightarrow> run_flush r ng a s = s\<lparr>qc_posted := False\<rparr>"
  by (simp add: run_flush_def)

end

section \<open>Invariants of a role\<close>

text \<open>A predicate that the virtual functions keep, and that does not depend on what the connection changes itself, is kept
  by every operation of the connection. The timer may be armed on an open connection only.\<close>

locale role_invariant = quic_role r for r :: "('a quic_session_scheme, 'n) role" +
  fixes P :: "'a quic_session_scheme \<Rightarrow> bool"
  assumes P_error: "P s \<Longrightarrow> P (snd (vr_handle_error r a s))"
    and P_send: "P s \<Longrightarrow> P (snd (vr_send_datagrams r data gso_size f s))"
    and P_new_cid: "P s \<Longrightarrow> P (vr_on_new_cid r cid s)"
    and P_remove_cid: "P s \<Longrightarrow> P (vr_on_remove_cid r cid s)"
    and P_ready: "P s \<Longrightarrow> P (vr_on_application_ready r (s\<lparr>qc_ready := True\<rparr>))"
    and P_dropped: "P s \<Longrightarrow> P (vr_on_dropped r a s)"
    and P_jobs: "P s \<Longrightarrow> P (s\<lparr>qc_jobs := js\<rparr>)"
    and P_posted: "P s \<Longrightarrow> P (s\<lparr>qc_posted := b\<rparr>)"
    and P_last_error: "P s \<Longrightarrow> P (s\<lparr>qc_error := e\<rparr>)"
    and P_application: "P s \<Longrightarrow> P (s\<lparr>qc_application := b\<rparr>)"
    and P_draining: "P s \<Longrightarrow> P (s\<lparr>qc_draining := b\<rparr>)"
    and P_fault: "P s \<Longrightarrow> P (s\<lparr>qc_fault := b\<rparr>)"
    and P_timer: "P s \<Longrightarrow> \<not> qc_closed s \<Longrightarrow> P (s\<lparr>qc_timer := t\<rparr>)"
begin

lemma wake_write_P: "P s \<Longrightarrow> P (wake_write s)"
  using P_jobs [OF P_posted] by (simp add: wake_write_def run_later_def)

lemma do_upcall_P: "P s \<Longrightarrow> P (do_upcall r ng u s)"
  by (cases u) (simp_all add: do_upcall_def P_new_cid P_remove_cid wake_write_P close_connection_def run_later_def P_jobs
      set_application_error_def P_last_error P_application P_dropped start_application_def P_ready)

lemma do_upcalls_P: "P s \<Longrightarrow> P (do_upcalls r ng us s)"
  unfolding do_upcalls_def by (induction us arbitrary: s) (simp_all add: do_upcall_P)

lemma write_streams_P: "P s \<Longrightarrow> P (snd (write_streams r ng a s))"
  by (auto simp: write_streams_def Let_def do_upcalls_P intro!: P_error P_send P_last_error split: sum.split)

lemma flush_write_P:
  assumes "P s" shows "P (snd (flush_write r ng a s))"
proof -
  obtain rv t where t: "write_streams r ng a s = (rv, t)" by fastforce
  then have "P t" using write_streams_P [OF assms, of ng a] by simp
  then show ?thesis using t assms
    by (auto simp: flush_write_def arm_timer_from_ngtcp2_def intro: P_timer split: option.split)
qed

lemma deref_conn_P: "P s \<Longrightarrow> P (deref_conn s)"
  by (simp add: deref_conn_def P_fault)

lemma handle_expiry_P: "P s \<Longrightarrow> P (snd (handle_expiry r ng e a s))"
  by (auto simp: handle_expiry_def Let_def
      intro!: P_error P_last_error do_upcalls_P deref_conn_P flush_write_P split: option.split)

lemma on_read_P: "P s \<Longrightarrow> P (snd (on_read r ng a s))"
  by (auto simp: on_read_def Let_def intro!: P_error P_last_error P_draining do_upcalls_P deref_conn_P
      split: option.split)

lemma run_flush_P: "P s \<Longrightarrow> P (run_flush r ng a s)"
  by (simp add: run_flush_def Let_def P_posted flush_write_P)

lemma run_close_P: "P s \<Longrightarrow> P (run_close_connection r ng code a s)"
  by (simp add: run_close_connection_def set_application_error_def P_error P_last_error)

end

section \<open>The server keeps it\<close>

lemma ss_send_udp_eq: "snd (ss_send_udp dropping p n s) =
    s\<lparr>qc_sent := qc_sent s @ nt_wire (snd (send_udp dropping p (n\<lparr>nt_wire := []\<rparr>)))\<rparr>"
  by (simp add: ss_send_udp_def split: prod.split)

interpretation server: quic_role "server_role dropping"
proof
  show "untouched s (snd (vr_handle_error (server_role dropping) a s))" for a s
    by (auto simp: server_role_def server_handle_error_def Let_def untouched_def qc_fail_streams_def signal_done_def
        call_demux_def write_connection_close_def ss_send_udp_eq schedule_close_timer_def)
  show "fst (vr_handle_error (server_role dropping) a s) = - 1" for a s
    by (auto simp: server_role_def server_handle_error_def Let_def split: prod.split)
  show "qc_closed (snd (vr_handle_error (server_role dropping) a s))" for a s
    by (auto simp: server_role_def server_handle_error_def Let_def qc_fail_streams_def signal_done_def
        call_demux_def write_connection_close_def ss_send_udp_eq schedule_close_timer_def)
qed (auto simp: server_role_def untouched_def call_demux_def ss_send_datagrams_def split: prod.split)

end
