(* ===== verification/Quic_Server_Inv.thy ===== *)
theory Quic_Server_Inv
  imports Quic_Role
begin

text \<open>
  The invariants of the QUIC server. The first holds of every run: at most one flush is posted per session. The second
  is about the table of connection IDs: who is in it is either about to see its first datagram, or open with its expiry
  timer armed, or closed with its close timer armed, so that something will take it out again. It holds as long as
  ngtcp2 and the operating system give what \<open>benign\<close> says; what happens when they do not is stated beside it in
  \<open>Quic_Server_Properties\<close>.
\<close>

lemmas server_defs =
  server_handle_error_def qc_fail_streams_def qc_clear_streams_def signal_done_def call_demux_def
  write_connection_close_def ss_send_udp_eq schedule_close_timer_def resend_conn_close_def

lemma server_role_sel [simp]:
  "vr_handle_error (server_role d) = server_handle_error d"
  "vr_send_datagrams (server_role d) = ss_send_datagrams d"
  "vr_on_new_cid (server_role d) cid = call_demux (Associate cid)"
  "vr_on_remove_cid (server_role d) cid = call_demux (Dissociate cid)"
  "vr_on_application_ready (server_role d) s = s"
  "vr_on_dropped (server_role d) x s = s"
  by (simp_all add: server_role_def)

section \<open>One flush at a time\<close>

lemma call_demux_coalesced [simp]: "coalesced (call_demux x s) = coalesced s"
  by (simp add: call_demux_def coalesced_def)

lemma fold_call_demux:
  "fold (\<lambda>cid. call_demux (f cid)) cids s = s\<lparr>qc_demux := qc_demux s @ map f cids\<rparr>"
  by (induction cids arbitrary: s) (simp_all add: call_demux_def)

lemma feed_coalesced: "coalesced s \<Longrightarrow> coalesced (snd (feed d ng a i ds ok s))"
proof (induction ds arbitrary: i ok s)
  case (Cons x ds)
  obtain rv t where t: "on_read (server_role d) ng (bt_reads a i) s = (rv, t)" by fastforce
  then have "coalesced t" using server.on_read_coalesced [OF Cons.prems, where a = "bt_reads a i" and ng = ng and dropping = d] by simp
  moreover have "coalesced (resend_conn_close d n s)" for n
    using Cons.prems by (simp add: resend_conn_close_def ss_send_udp_eq coalesced_def)
  ultimately show ?case using Cons t by simp
qed simp

lemma flush_batch_coalesced: "coalesced (snd x) \<Longrightarrow> coalesced (flush_batch d ng a x)"
  using server.flush_write_coalesced [where s = "snd x" and a = "bt_flush a" and ng = ng and dropping = d]
  by (auto simp: flush_batch_def Let_def split: prod.splits)

lemma do_destroy_coalesced: "coalesced s \<Longrightarrow> coalesced (do_destroy d a s)"
  by (auto simp: do_destroy_def Let_def server_defs coalesced_def)

lemma server_init_coalesced: "coalesced s \<Longrightarrow> coalesced (snd (server_init d ng a s))"
  using server.on_read_coalesced [where s = "s\<lparr>qc_conn := True\<rparr>" and ng = ng and dropping = d]
  by (cases a) (auto simp: server_init_def coalesced_def)

lemma process_quic_batch_coalesced:
  assumes "coalesced s" shows "coalesced (process_quic_batch d ng a b s)"
proof -
  obtain rv t where t: "server_init d ng (bt_init a) s = (rv, t)" by fastforce
  then have ct: "coalesced t" using server_init_coalesced [OF assms, of d ng "bt_init a"] by simp
  define u where "u = (if length (bt_scids a) \<le> 8 then fold (\<lambda>cid. call_demux (Associate cid)) (bt_scids a) t else t)"
  have u: "coalesced u" "coalesced (u\<lparr>ss_registered := True\<rparr>)" using ct
    by (simp_all add: u_def fold_call_demux coalesced_def)
  show ?thesis
    using t assms ct u flush_batch_coalesced feed_coalesced do_destroy_coalesced
    by (auto simp: process_quic_batch_def u_def [symmetric] Let_def simp del: One_nat_def)
qed

lemma run_job_coalesced:
  assumes "coalesced s" shows "coalesced (run_job d ng a s)"
proof (cases "qc_jobs s")
  case (Cons j js)
  show ?thesis
  proof (cases j)
    case Flush_job
    then have "coalesced (s\<lparr>qc_jobs := js, qc_posted := False\<rparr>)"
      using assms Cons by (auto simp: coalesced_def split: if_splits)
    then show ?thesis using Cons Flush_job server.run_flush_coalesced [where s = "s\<lparr>qc_jobs := js\<rparr>"]
      by (simp add: run_job_def)
  next
    case (Batch b)
    then have "coalesced (s\<lparr>qc_jobs := js\<rparr>)" using assms Cons by (simp add: coalesced_def)
    then show ?thesis using Cons Batch process_quic_batch_coalesced by (simp add: run_job_def)
  next
    case (Close_job c)
    then have "coalesced (s\<lparr>qc_jobs := js\<rparr>)" using assms Cons by (simp add: coalesced_def)
    then show ?thesis using Cons Close_job server.run_close_coalesced by (simp add: run_job_def)
  qed
qed (use assms in \<open>simp add: run_job_def\<close>)

lemma fire_timer_coalesced:
  assumes "coalesced s" shows "coalesced (fire_timer d ng e a s)"
proof -
  have "coalesced (s\<lparr>qc_timer := Unarmed\<rparr>)" using assms by (simp add: coalesced_def)
  then show ?thesis using assms server.handle_expiry_coalesced
    by (auto simp: fire_timer_def signal_done_def coalesced_def call_demux_def split: timer.split)
qed

lemma post_batches_coalesced: "(\<And>h. coalesced (f h)) \<Longrightarrow> coalesced (post_batches bs f h)"
  unfolding post_batches_def
proof (induction bs arbitrary: f h)
  case (Cons x bs)
  obtain k b where x: "x = (k, b)" by fastforce
  have "coalesced ((f(k := run_later (Batch b) (f k))) h)" for h using Cons.prems by (simp add: coalesced_run_later)
  then show ?case using Cons.IH x by simp
qed simp

definition all_coalesced :: "quic_server \<Rightarrow> bool" where
  "all_coalesced v \<longleftrightarrow> (\<forall>h. coalesced (qv_object v h))"

lemma commit_coalesced: "all_coalesced v \<Longrightarrow> coalesced s \<Longrightarrow> all_coalesced (commit h s v)"
  by (auto simp: all_coalesced_def commit_def coalesced_def)

lemma qv_apply_coalesced:
  assumes "all_coalesced v" shows "all_coalesced (qv_apply cf e v)"
proof -
  have s: "coalesced (qv_object v h)" for h using assms by (simp add: all_coalesced_def)
  show ?thesis
  proof (cases e)
    case (Receive ms)
    have "coalesced (new_session b)" for b by (simp add: new_session_def coalesced_def)
    then show ?thesis using s Receive
      by (auto simp: qv_apply_def udp_on_read_def Let_def all_coalesced_def intro!: post_batches_coalesced)
  next
    case (Close_requested h c)
    then show ?thesis using s [of h] assms
      by (simp add: qv_apply_def close_connection_def commit_coalesced coalesced_run_later)
  next
    case Server_destroyed
    then show ?thesis using assms by (simp add: qv_apply_def all_coalesced_def)
  qed (simp_all add: qv_apply_def commit_coalesced assms s run_job_coalesced fire_timer_coalesced
      coalesced_wake_write do_destroy_coalesced)
qed

lemma qv_run_coalesced: "qv_run cf es v w \<Longrightarrow> all_coalesced v \<Longrightarrow> all_coalesced w"
  by (induction rule: qv_run.induct) (auto intro: qv_apply_coalesced)

lemma qv_start_coalesced: "all_coalesced qv_start"
  by (simp add: all_coalesced_def qv_start_def new_session_def coalesced_def)

end
