(* ===== verification/Quic_Server_Table.thy ===== *)
theory Quic_Server_Table
  imports Quic_Server_Inv
begin

text \<open>
  The second invariant of the QUIC server: nobody is left behind in the table of connection IDs. First what an operation
  makes of one session, then what that means for the table.
\<close>

section \<open>Where a session stands\<close>

definition expiring :: "'a quic_session_scheme \<Rightarrow> bool" where
  "expiring s = (case qc_timer s of Expiry_timer d \<Rightarrow> True | _ \<Rightarrow> False)"

definition lingering :: "'a quic_session_scheme \<Rightarrow> bool" where
  "lingering s \<longleftrightarrow> qc_closed s \<and> (case qc_timer s of Close_timer d \<Rightarrow> True | _ \<Rightarrow> False)"

definition opened :: "'a quic_session_scheme \<Rightarrow> bool" where
  "opened s \<longleftrightarrow> qc_conn s \<and> \<not> qc_closed s"

definition armed :: "'a quic_session_scheme \<Rightarrow> bool" where
  "armed s \<longleftrightarrow> opened s \<and> expiring s"

definition over :: "'a quic_session_scheme \<Rightarrow> bool" where
  "over s \<longleftrightarrow> qc_closed s \<and> \<not> expiring s"

fun is_new_batch :: "job \<Rightarrow> bool" where
  "is_new_batch (Batch b) = ba_is_new b"
| "is_new_batch _ = False"

definition no_new :: "job list \<Rightarrow> bool" where
  "no_new js \<longleftrightarrow> (\<forall>j \<in> set js. \<not> is_new_batch j)"

definition unborn :: "'a quic_session_scheme \<Rightarrow> bool" where
  "unborn s \<longleftrightarrow>
     \<not> qc_conn s \<and> \<not> qc_closed s \<and> qc_timer s = Unarmed \<and> qc_jobs s \<noteq> [] \<and> is_new_batch (hd (qc_jobs s)) \<and> no_new (tl (qc_jobs s))"

definition sound :: "'a quic_session_scheme \<Rightarrow> bool" where
  "sound s \<longleftrightarrow> unborn s \<or> (armed s \<or> over s) \<and> no_new (qc_jobs s)"

text \<open>The last word of the session to the table is that it wants to be forgotten.\<close>

definition gone :: "'a quic_session_scheme \<Rightarrow> bool" where
  "gone s \<longleftrightarrow> qc_demux s \<noteq> [] \<and> last (qc_demux s) = Erase"

definition ended :: "'a quic_session_scheme \<Rightarrow> bool" where
  "ended s \<longleftrightarrow> over s \<and> (lingering s \<or> gone s)"

lemmas standing_defs = expiring_def lingering_def opened_def armed_def over_def gone_def ended_def

section \<open>What is asked of ngtcp2 and of the operating system\<close>

definition no_send_error :: "net \<Rightarrow> bool" where
  "no_send_error n \<longleftrightarrow> set (nt_results n) \<subseteq> {Sent, Interrupted, Again}"

definition benign_flush :: "net flush_ans \<Rightarrow> bool" where
  "benign_flush a \<longleftrightarrow> ca_packet (fa_close a) \<noteq> [] \<and> fa_expiry a \<noteq> None \<and> no_send_error (fa_net a)"

definition benign_batch :: "batch_ans \<Rightarrow> bool" where
  "benign_batch a \<longleftrightarrow>
     (case bt_init a of Init_read ra \<Rightarrow> ca_packet (rd_close ra) \<noteq> [] | _ \<Rightarrow> False) \<and>
     (\<forall>i. ca_packet (rd_close (bt_reads a i)) \<noteq> []) \<and> benign_flush (bt_flush a)"

text \<open>A \<^verbatim>\<open>CONNECTION_CLOSE\<close> can be written when one is due, \<open>sendmsg()\<close> does not fail for good, an open connection
  has an expiry, and a new connection is made.\<close>

fun benign :: "event \<Rightarrow> bool" where
  "benign (Run h a) \<longleftrightarrow> benign_batch (ja_batch a) \<and> benign_flush (ja_flush a) \<and> ca_packet (ja_close a) \<noteq> []"
| "benign (Timer h e a) \<longleftrightarrow> benign_flush a"
| "benign _ \<longleftrightarrow> True"

section \<open>Sending\<close>

lemma uninterrupted_no_error:
  "set rs \<subseteq> {Sent, Interrupted, Again} \<Longrightarrow>
   fst (uninterrupted rs) \<in> {Sent, Again} \<and> set (snd (uninterrupted rs)) \<subseteq> {Sent, Interrupted, Again}"
  by (induction rs) auto

lemma sendmsg_no_error:
  assumes "no_send_error n"
  shows "fst (sendmsg ds n) \<in> {Sent, Again}" "no_send_error (snd (sendmsg ds n))"
  using uninterrupted_no_error [of "nt_results n"] assms
  by (auto simp: sendmsg_def no_send_error_def split: prod.splits)

lemma send_udp_no_error:
  assumes "no_send_error n"
  shows "fst (send_udp d p n) = 0" "no_send_error (snd (send_udp d p n))"
proof -
  obtain b m where m: "drop_packet d n = (b, m)" by fastforce
  then have "no_send_error m" using assms
    by (auto simp: drop_packet_def no_send_error_def split: if_splits list.splits)
  from sendmsg_no_error [OF this, of "[p]"] this
  show "fst (send_udp d p n) = 0" "no_send_error (snd (send_udp d p n))"
    by (auto simp: send_udp_def m split: prod.splits)
qed

lemma send_each_no_error: "no_send_error n \<Longrightarrow> fst (send_each d ps n) = 0"
proof (induction ps arbitrary: n)
  case (Cons p ps)
  obtain rv m where m: "send_udp d p n = (rv, m)" by fastforce
  then show ?case using Cons.IH [of m] send_udp_no_error [OF Cons.prems, of d p] by simp
qed simp

lemma send_datagrams_no_error:
  assumes "no_send_error n" shows "fst (send_datagrams d no_gso data k n) = 0"
proof -
  obtain rv m where m: "send_each d (segments k data) n = (rv, m)" by fastforce
  obtain r w where w: "sendmsg (udp_segment (of_nat k) data) n = (r, w)" by fastforce
  have "rv = 0" "r = Sent \<or> r = Again"
    using send_each_no_error [OF assms, of d "segments k data"] sendmsg_no_error(1) [OF assms] m w
    by (simp_all) (metis fst_conv insertE singletonD)
  then show ?thesis by (simp add: send_datagrams_def m w)
qed

lemma ss_send_datagrams_no_error:
  assumes "no_send_error (fa_net a)"
  shows "fst (ss_send_datagrams d data k a s) = 0"
proof -
  have "no_send_error ((fa_net a)\<lparr>nt_wire := []\<rparr>)" using assms by (simp add: no_send_error_def)
  from send_datagrams_no_error [OF this] show ?thesis
    by (auto simp: ss_send_datagrams_def split: prod.split) (metis fst_conv)
qed

lemma ss_send_datagrams_keeps:
  "qc_conn (snd (ss_send_datagrams d data k a s)) = qc_conn s"
  "qc_closed (snd (ss_send_datagrams d data k a s)) = qc_closed s"
  "qc_timer (snd (ss_send_datagrams d data k a s)) = qc_timer s"
  "qc_demux (snd (ss_send_datagrams d data k a s)) = qc_demux s"
  by (simp_all add: ss_send_datagrams_def split: prod.split)

section \<open>Operations of a session\<close>

lemma upcall_timer [simp]: "qc_timer (do_upcalls (server_role d) ng us s) = qc_timer s"
proof -
  have "qc_timer (do_upcall (server_role d) ng u s) = qc_timer s" for u s
    by (cases u) (auto simp: do_upcall_def call_demux_def wake_write_def run_later_def close_connection_def
        set_application_error_def start_application_def)
  then show ?thesis unfolding do_upcalls_def by (induction us arbitrary: s) simp_all
qed

lemma upcalls_closed [simp]: "qc_closed (do_upcalls (server_role d) ng us s) = qc_closed s"
proof -
  have "qc_closed (do_upcall (server_role d) ng u s) = qc_closed s" for u s
    by (cases u) (auto simp: do_upcall_def call_demux_def wake_write_def run_later_def close_connection_def
        set_application_error_def start_application_def)
  then show ?thesis unfolding do_upcalls_def by (induction us arbitrary: s) simp_all
qed

lemma upcalls_opened [simp]: "opened (do_upcalls (server_role d) ng us s) = opened s"
  by (simp add: opened_def server.upcalls_keep)

lemma handle_error_ends:
  assumes "opened s" "ca_packet a \<noteq> []"
  shows "ended (snd (server_handle_error d a s))"
  using assms by (auto simp: server_defs standing_defs Let_def)

lemma handle_error_rv: "fst (server_handle_error d a s) = - 1"
  using server.error_closes(1) by simp

lemma on_read_outcome:
  assumes "opened s" "ca_packet (rd_close a) \<noteq> []"
  shows "(case on_read (server_role d) ng a s of (rv, t) \<Rightarrow>
            rv = 0 \<and> opened t \<and> qc_timer t = qc_timer s \<or> rv \<noteq> 0 \<and> ended t)"
proof -
  define u where "u = do_upcalls (server_role d) ng (rd_upcalls a) (deref_conn s)"
  define v where "v = u\<lparr>qc_draining := qc_draining u \<or> rd_draining a\<rparr>"
  have "opened (deref_conn s)" "qc_timer (deref_conn s) = qc_timer s" using assms(1)
    by (simp_all add: deref_conn_def opened_def)
  then have v: "opened v" "qc_timer v = qc_timer s" by (simp_all add: u_def v_def opened_def server.upcalls_keep)
  then have w: "opened (v\<lparr>qc_error := x\<rparr>)" for x by (simp add: opened_def)
  have "rv \<noteq> 0 \<and> ended t" if "server_handle_error d (rd_close a) x = (rv, t)" "opened x" for x rv t
    using handle_error_ends [OF that(2) assms(2), of d] handle_error_rv [of d "rd_close a" x] that(1) by simp
  then show ?thesis using v w
    unfolding on_read_def u_def [symmetric] Let_def v_def [symmetric]
    by (auto split: option.split)
qed

lemma write_streams_outcome:
  assumes "opened s" "benign_flush a"
  shows "(case write_streams (server_role d) ng a s of (rv, t) \<Rightarrow> rv = 0 \<and> opened t \<or> rv \<noteq> 0 \<and> ended t)"
proof -
  define u where "u = do_upcalls (server_role d) ng (fa_upcalls a) s"
  have u: "opened u" "opened (u\<lparr>qc_error := x\<rparr>)" for x
    using assms(1) by (simp_all add: u_def) (simp add: opened_def server.upcalls_keep)
  have e: "rv \<noteq> 0 \<and> ended t" if "server_handle_error d (fa_close a) x = (rv, t)" "opened x" for x rv t
    using handle_error_ends [OF that(2), of "fa_close a" d] assms(2) handle_error_rv [of d "fa_close a" x] that(1)
    by (simp add: benign_flush_def)
  have "rv = 0 \<and> opened t" if "ss_send_datagrams d x k a u = (rv, t)" for x k rv t
    using ss_send_datagrams_no_error [of a d x k u] ss_send_datagrams_keeps [of d x k a u] assms(2) that u(1)
    by (simp add: benign_flush_def opened_def)
  then show ?thesis using u assms(1)
    unfolding write_streams_def u_def [symmetric] Let_def
    by (auto split: sum.split dest: e)
qed

lemma flush_write_outcome:
  assumes "opened s" "benign_flush a"
  shows "(case flush_write (server_role d) ng a s of (rv, t) \<Rightarrow> rv = 0 \<and> armed t \<or> rv \<noteq> 0 \<and> ended t)"
proof -
  obtain rv t where t: "write_streams (server_role d) ng a s = (rv, t)" by fastforce
  have "armed (arm_timer_from_ngtcp2 a t)" if "opened t"
    using that assms(2) by (auto simp: arm_timer_from_ngtcp2_def benign_flush_def standing_defs)
  then show ?thesis using write_streams_outcome [OF assms, of d ng] assms(1) t
    by (auto simp: flush_write_def opened_def)
qed

lemma ended_call_demux: "ended s \<Longrightarrow> ended (call_demux Erase s)"
  by (auto simp: standing_defs call_demux_def split: timer.splits)

lemma over_resend: "over s \<Longrightarrow> over (resend_conn_close d n s)" "ended s \<Longrightarrow> ended (resend_conn_close d n s)"
  "qc_demux (resend_conn_close d n s) = qc_demux s" "qc_timer (resend_conn_close d n s) = qc_timer s"
  "qc_closed (resend_conn_close d n s) = qc_closed s" "qc_conn (resend_conn_close d n s) = qc_conn s"
  by (auto simp: standing_defs resend_conn_close_def ss_send_udp_eq)

lemma feed_closed:
  "qc_closed s \<Longrightarrow>
   fst (feed d ng a i ds ok s) = ok \<and> qc_closed (snd (feed d ng a i ds ok s)) \<and>
   qc_timer (snd (feed d ng a i ds ok s)) = qc_timer s \<and> qc_demux (snd (feed d ng a i ds ok s)) = qc_demux s"
  by (induction ds arbitrary: i s) (auto simp: over_resend)

lemma feed_ended:
  assumes "ended s" shows "fst (feed d ng a i ds ok s) = ok" "ended (snd (feed d ng a i ds ok s))"
  using assms feed_closed [where s = s and d = d and ng = ng and a = a and i = i and ds = ds and ok = ok] by (auto simp: standing_defs)

text \<open>An open session either stays open, with its timer as it was unless a read went well, or it ends.\<close>

lemma feed_outcome:
  assumes "opened s" "\<forall>i. ca_packet (rd_close (bt_reads a i)) \<noteq> []"
  shows "(case feed d ng a i ds ok s of (ok', t) \<Rightarrow>
            (ok \<longrightarrow> ok') \<and> (opened t \<and> qc_timer t = qc_timer s \<or> ended t))"
  using assms(1)
proof (induction ds arbitrary: i ok s)
  case (Cons x ds)
  obtain rv t where t: "on_read (server_role d) ng (bt_reads a i) s = (rv, t)" by fastforce
  have "rv = 0 \<and> opened t \<and> qc_timer t = qc_timer s \<or> rv \<noteq> 0 \<and> ended t"
    using on_read_outcome [OF Cons.prems, of "bt_reads a i" d ng] assms(2) t by simp
  then show ?case
  proof (elim disjE)
    assume "rv = 0 \<and> opened t \<and> qc_timer t = qc_timer s"
    moreover have "opened (resend_conn_close d n s)" for n using Cons.prems by (simp add: over_resend opened_def)
    ultimately show ?thesis
      using Cons.IH [where s = t and i = "i + 1" and ok = True] Cons.IH [where s = s and i = "i + 1" and ok = ok] Cons.prems t
        Cons.IH [where s = "resend_conn_close d (bt_resend a i) s" and i = "i + 1" and ok = ok]
      by (auto simp: over_resend split: prod.splits)
  next
    assume e: "rv \<noteq> 0 \<and> ended t"
    define u where "u = (if qc_closed t \<and> \<not> in_close_period t then call_demux Erase t else t)"
    have "ended u" using e ended_call_demux by (simp add: u_def)
    note u = feed_ended [OF this, where d = d and ng = ng and a = a and i = "i + 1" and ds = ds and ok = ok]
    moreover have "opened (resend_conn_close d n s)" for n using Cons.prems by (simp add: over_resend opened_def)
    ultimately show ?thesis
      using e Cons.IH [where s = s and i = "i + 1" and ok = ok] Cons.prems t Cons.IH [where s = "resend_conn_close d (bt_resend a i) s" and i = "i + 1" and ok = ok]
      by (auto simp: over_resend u_def [symmetric] split: prod.splits)
  qed
qed simp

lemma flush_batch_ended: "ended s \<Longrightarrow> ended (flush_batch d ng a (ok, s))"
  by (auto simp: flush_batch_def flush_write_def standing_defs)

lemma flush_batch_outcome:
  assumes "opened s" "benign_flush (bt_flush a)" "ok \<or> expiring s"
  shows "armed (flush_batch d ng a (ok, s)) \<or> ended (flush_batch d ng a (ok, s))"
  using flush_write_outcome [OF assms(1,2), of d ng] assms ended_call_demux
  by (auto simp: flush_batch_def armed_def split: prod.splits)

lemma old_batch_outcome:
  assumes "armed s" "benign_batch a" "\<not> ba_is_new b"
  shows "armed (process_quic_batch d ng a b s) \<or> ended (process_quic_batch d ng a b s)"
proof -
  obtain ok t where t: "feed d ng a 0 (ba_datagrams b) False s = (ok, t)" by fastforce
  have "opened t \<and> qc_timer t = qc_timer s \<or> ended t"
    using feed_outcome [where s = s and a = a and d = d and ng = ng and i = 0 and ds = "ba_datagrams b" and ok = False] assms t by (simp add: armed_def benign_batch_def)
  moreover have "expiring t" if "qc_timer t = qc_timer s" using that assms(1) by (simp add: armed_def expiring_def)
  ultimately show ?thesis
    using flush_batch_outcome [where s = t and a = a and ok = ok and d = d and ng = ng] flush_batch_ended [of t d ng a ok] assms t
    by (auto simp: process_quic_batch_def benign_batch_def)
qed

lemma new_batch_outcome:
  assumes "\<not> qc_closed s" "benign_batch a" "ba_is_new b" "bt_registered a"
  shows "armed (process_quic_batch d ng a b s) \<or> ended (process_quic_batch d ng a b s)"
proof -
  obtain ra where ra: "bt_init a = Init_read ra" "ca_packet (rd_close ra) \<noteq> []"
    using assms(2) by (auto simp: benign_batch_def split: init_ans.splits)
  obtain rv t where t: "on_read (server_role d) ng ra (s\<lparr>qc_conn := True\<rparr>) = (rv, t)" by fastforce
  have o: "rv = 0 \<and> opened t \<or> rv \<noteq> 0 \<and> ended t"
    using on_read_outcome [of "s\<lparr>qc_conn := True\<rparr>" ra d ng] assms(1) ra(2) t by (auto simp: opened_def)
  define u where
    "u = (if length (bt_scids a) \<le> 8 then fold (\<lambda>cid. call_demux (Associate cid)) (bt_scids a) t else t)
           \<lparr>ss_registered := True\<rparr>"
  obtain ok w where w: "feed d ng a 1 (tl (ba_datagrams b)) True u = (ok, w)" by fastforce
  have "opened u" if "opened t" using that by (simp add: u_def opened_def fold_call_demux)
  then have "opened t \<Longrightarrow> ok \<and> (opened w \<or> ended w)"
    using feed_outcome [where s = u and a = a and d = d and ng = ng and i = 1 and ds = "tl (ba_datagrams b)" and ok = True] assms(2) w by (auto simp: benign_batch_def)
  then have "opened t \<Longrightarrow> armed (flush_batch d ng a (ok, w)) \<or> ended (flush_batch d ng a (ok, w))"
    using flush_batch_outcome [where s = w and a = a and ok = ok and d = d and ng = ng] flush_batch_ended [of w d ng a ok] assms(2)
    by (auto simp: benign_batch_def)
  moreover have "process_quic_batch d ng a b s =
      (if rv \<noteq> 0 then call_demux Erase t else flush_batch d ng a (ok, w))"
    using assms(3,4) ra(1) t w
    by (simp add: process_quic_batch_def server_init_def Let_def u_def [symmetric] split: if_splits)
  ultimately show ?thesis using o ended_call_demux by auto
qed

lemma closed_batch:
  assumes "qc_closed s" "\<not> ba_is_new b"
  shows "qc_closed (process_quic_batch d ng a b s)" "qc_timer (process_quic_batch d ng a b s) = qc_timer s"
    "qc_demux (process_quic_batch d ng a b s) = qc_demux s"
  using feed_closed [OF assms(1), where d = d and ng = ng and a = a and i = 0 and ds = "ba_datagrams b" and ok = False] assms(2)
  by (auto simp: process_quic_batch_def flush_batch_def split: prod.splits)

end
