(* ===== verification/Quic_Demux.thy ===== *)
theory Quic_Demux
  imports Quic_Server
begin

text \<open>
  What one pass of the receive path does with the datagrams it reads, \<open>udp_on_read()\<close> of
  \<^verbatim>\<open>src/quic/server.cpp\<close>: whom it hands which, and which sessions it makes.
\<close>

section \<open>Batches\<close>

definition batch_of :: "batches \<Rightarrow> nat \<Rightarrow> datagram list" where
  "batch_of bs h = (case map_of bs h of None \<Rightarrow> [] | Some b \<Rightarrow> ba_datagrams b)"

lemma map_of_adjust:
  "map_of (map (\<lambda>(k, c). (k, if k = h then f c else c)) bs) k =
     (if k = h then map_option f (map_of bs k) else map_of bs k)"
  by (induction bs) auto

lemma add_datagram_keys:
  "map fst (add_datagram h d bs) = (if h \<in> fst ` set bs then map fst bs else map fst bs @ [h])"
proof (cases "map_of bs h")
  case None
  then have "h \<notin> fst ` set bs" by (simp add: map_of_eq_None_iff)
  then show ?thesis using None by (simp add: add_datagram_def)
next
  case (Some b)
  then have "h \<in> fst ` set bs" by (metis domI dom_map_of_conv_image_fst)
  then show ?thesis using Some by (simp add: add_datagram_def case_prod_beta comp_def)
qed

lemma map_of_add_datagram:
  "map_of (add_datagram h d bs) k =
     (if k = h then Some (case map_of bs h of
                            None \<Rightarrow> \<lparr>ba_is_new = False, ba_datagrams = [d]\<rparr>
                          | Some b \<Rightarrow> b\<lparr>ba_datagrams := ba_datagrams b @ [d]\<rparr>)
      else map_of bs k)"
  by (auto simp: add_datagram_def map_of_adjust map_add_def split: option.split)

lemma batch_of_add_datagram: "batch_of (add_datagram h d bs) k = batch_of bs k @ (if k = h then [d] else [])"
  by (auto simp: batch_of_def map_of_add_datagram split: option.split)

lemma post_batches_eq:
  "distinct (map fst bs) \<Longrightarrow>
   post_batches bs f h = (case map_of bs h of None \<Rightarrow> f h | Some b \<Rightarrow> run_later (Batch b) (f h))"
proof (induction bs arbitrary: f)
  case (Cons x bs)
  obtain k b where x: "x = (k, b)" by fastforce
  have "map_of bs k = None" using Cons.prems x by (simp add: map_of_eq_None_iff)
  then show ?case using Cons x by (auto simp: post_batches_def split: option.split)
qed (simp add: post_batches_def)

section \<open>Arrivals\<close>

text \<open>The datagrams of one pass, with their senders, in the order they arrived.\<close>

definition arrivals :: "received list \<Rightarrow> (nat \<times> bytes) list" where
  "arrivals ms =
     concat (map (\<lambda>m. if length (rx_data m) < 22 \<or> \<not> rx_addressed m then []
                      else map (Pair (rx_remote m)) (surviving m)) ms)"

definition route_all :: "ng_packet \<Rightarrow> (nat \<times> bytes) list \<Rightarrow> demultiplexer \<Rightarrow> demultiplexer" where
  "route_all np as x = fold (\<lambda>(remote, data). route np remote data) as x"

lemma route_all_Nil [simp]: "route_all np [] x = x"
  by (simp add: route_all_def)

lemma route_all_snoc [simp]: "route_all np (as @ [(r, d)]) x = route np r d (route_all np as x)"
  by (simp add: route_all_def)

lemma receive_pass_eq: "receive_pass np k ms x = route_all np (arrivals (take k ms)) x"
proof (induction np k ms x rule: receive_pass.induct)
  case (3 np k m ms x)
  have "fold (\<lambda>(r, d). route np r d) (map (Pair p) ds) y = fold (route np p) ds y" for p ds y
    by (induction ds arbitrary: y) simp_all
  then show ?case using 3 by (simp add: arrivals_def route_all_def)
qed (simp_all add: arrivals_def)

section \<open>The pass\<close>

definition pass_start :: "(cid \<rightharpoonup> nat) \<Rightarrow> nat \<Rightarrow> demultiplexer" where
  "pass_start t n = \<lparr>dx_sessions = t, dx_next = n, dx_batches = []\<rparr>"

text \<open>Every session of the pass is known from before and gets an ordinary batch, or is made in it and gets a new one.\<close>

definition dx_ok :: "(cid \<rightharpoonup> nat) \<Rightarrow> nat \<Rightarrow> demultiplexer \<Rightarrow> bool" where
  "dx_ok t n x \<longleftrightarrow>
     n \<le> dx_next x \<and> distinct (map fst (dx_batches x)) \<and>
     (\<forall>c h. t c = Some h \<longrightarrow> dx_sessions x c = Some h) \<and>
     (\<forall>c h. dx_sessions x c = Some h \<longrightarrow> t c = Some h \<or> t c = None \<and> n \<le> h \<and> h < dx_next x) \<and>
     (\<forall>h b. map_of (dx_batches x) h = Some b \<longrightarrow> h < dx_next x \<and> (ba_is_new b \<longleftrightarrow> n \<le> h)) \<and>
     (\<forall>h. n \<le> h \<and> h < dx_next x \<longrightarrow> map_of (dx_batches x) h \<noteq> None) \<and>
     (\<forall>b c h. dx_sessions x b = Some h \<longrightarrow> dx_sessions x c = Some h \<longrightarrow> n \<le> h \<longrightarrow> b = c)"

lemma dx_okD:
  assumes "dx_ok t n x"
  shows "n \<le> dx_next x" "distinct (map fst (dx_batches x))" "t c = Some h \<Longrightarrow> dx_sessions x c = Some h"
    "dx_sessions x c = Some h \<Longrightarrow> t c = Some h \<or> t c = None \<and> n \<le> h \<and> h < dx_next x"
    "map_of (dx_batches x) h = Some b \<Longrightarrow> h < dx_next x \<and> (ba_is_new b \<longleftrightarrow> n \<le> h)"
    "n \<le> h \<Longrightarrow> h < dx_next x \<Longrightarrow> map_of (dx_batches x) h \<noteq> None"
    "dx_sessions x c = Some h \<Longrightarrow> dx_sessions x c' = Some h \<Longrightarrow> n \<le> h \<Longrightarrow> c = c'"
  using assms unfolding dx_ok_def by blast+

lemma route_old:
  assumes "np_decode_dcid np d = Some c" "dx_sessions x c = Some h"
  shows "route np r d x = x\<lparr>dx_batches := add_datagram h \<lparr>dg_remote = r, dg_data = d\<rparr> (dx_batches x)\<rparr>"
  using assms by (simp add: route_def)

lemma add_datagram_fresh:
  "h \<notin> fst ` set bs \<Longrightarrow>
   add_datagram h d (bs @ [(h, \<lparr>ba_is_new = w, ba_datagrams = []\<rparr>)]) =
     bs @ [(h, \<lparr>ba_is_new = w, ba_datagrams = [d]\<rparr>)]"
proof -
  assume h: "h \<notin> fst ` set bs"
  then have "map (\<lambda>(k, c). (k, if k = h then c\<lparr>ba_datagrams := ba_datagrams c @ [d]\<rparr> else c)) bs = bs"
    by (induction bs) auto
  then show ?thesis using h by (simp add: add_datagram_def map_of_eq_None_iff [symmetric] map_add_def)
qed

lemma route_new:
  assumes "dx_ok t n x" "np_decode_dcid np d = Some c" "dx_sessions x c = None" "np_accept np d"
  shows "route np r d x =
    \<lparr>dx_sessions = (dx_sessions x)(c \<mapsto> dx_next x), dx_next = dx_next x + 1,
     dx_batches = dx_batches x @ [(dx_next x, \<lparr>ba_is_new = True, ba_datagrams = [\<lparr>dg_remote = r, dg_data = d\<rparr>]\<rparr>)]\<rparr>"
proof -
  have "dx_next x \<notin> fst ` set (dx_batches x)"
    using dx_okD(5) [OF assms(1), of "dx_next x"] by (metis less_irrefl map_of_eq_None_iff option.exhaust)
  then show ?thesis using assms(2-4) by (simp add: route_def Let_def add_datagram_fresh)
qed

lemma route_ignored:
  assumes "np_decode_dcid np d = None \<or> (\<exists>c. np_decode_dcid np d = Some c \<and> dx_sessions x c = None \<and> \<not> np_accept np d)"
  shows "route np r d x = x"
  using assms by (auto simp: route_def)

lemma route_cases:
  obtains (ignored) "np_decode_dcid np d = None \<or> (\<exists>c. np_decode_dcid np d = Some c \<and> dx_sessions x c = None \<and> \<not> np_accept np d)"
  | (old) c h where "np_decode_dcid np d = Some c" "dx_sessions x c = Some h"
  | (new) c where "np_decode_dcid np d = Some c" "dx_sessions x c = None" "np_accept np d"
  by (cases "np_decode_dcid np d") (auto, metis option.exhaust)

lemma dx_ok_route:
  assumes "dx_ok t n x" "\<forall>c h. t c = Some h \<longrightarrow> h < n"
  shows "dx_ok t n (route np r d x)"
proof (cases rule: route_cases [of np d x])
  case ignored
  then show ?thesis using assms route_ignored by metis
next
  case (old c h)
  note x = dx_okD [OF assms(1)]
  have h: "h < dx_next x" using x(1,4) old assms(2) by (meson less_le_trans)
  have k: "h \<in> fst ` set (dx_batches x) \<longleftrightarrow> map_of (dx_batches x) h \<noteq> None" by (auto simp: map_of_eq_None_iff)
  show ?thesis unfolding route_old [OF old] dx_ok_def
  proof (intro conjI allI impI)
    fix h' b
    assume "map_of (dx_batches (x\<lparr>dx_batches := add_datagram h \<lparr>dg_remote = r, dg_data = d\<rparr> (dx_batches x)\<rparr>)) h' = Some b"
    then show "h' < dx_next (x\<lparr>dx_batches := add_datagram h \<lparr>dg_remote = r, dg_data = d\<rparr> (dx_batches x)\<rparr>)"
      "ba_is_new b = (n \<le> h')"
      using x(5) h x(6) [of h]
      by (auto simp: map_of_add_datagram split: if_splits option.splits)
  qed (use x k in \<open>auto simp: add_datagram_keys map_of_add_datagram distinct_map_filter\<close>)
next
  case (new c)
  note x = dx_okD [OF assms(1)]
  have k: "dx_next x \<notin> fst ` set (dx_batches x)"
    using x(5) [of "dx_next x"] by (metis less_irrefl map_of_eq_None_iff option.exhaust)
  have x6: "\<exists>b. map_of (dx_batches x) h = Some b" if "n \<le> h" "h < dx_next x" for h using x(6) that by blast
  have "t c = None" using x(3) new(2) by (metis option.distinct(1) option.exhaust)
  then show ?thesis unfolding route_new [OF assms(1) new] dx_ok_def
    using x(1,2) k
    apply (intro conjI)
    subgoal by simp
    subgoal by simp
    subgoal using x(3) by auto
    subgoal using x(4) by (auto simp: less_Suc_eq)
    subgoal using x(5) x(1) by (fastforce simp: map_add_def less_Suc_eq split: option.splits if_splits)
    subgoal using x6 by (auto simp: map_add_def less_Suc_eq split: option.split dest!: x6)
    subgoal using x(4,7) assms(2) by (auto split: if_splits) (metis less_irrefl less_le_trans not_le)+
    done
qed

lemma dx_ok_route_all:
  "\<forall>c h. t c = Some h \<longrightarrow> h < n \<Longrightarrow> dx_ok t n (route_all np as (pass_start t n))"
proof (induction as rule: rev_induct)
  case Nil
  then show ?case by (fastforce simp: pass_start_def dx_ok_def)
next
  case (snoc a as)
  obtain r d where "a = (r, d)" by fastforce
  then show ?case using snoc dx_ok_route by simp
qed

section \<open>Who gets what\<close>

definition to_datagram :: "nat \<times> bytes \<Rightarrow> datagram" where
  "to_datagram a = \<lparr>dg_remote = fst a, dg_data = snd a\<rparr>"

text \<open>What arrives for a connection ID, from the first datagram on that ngtcp2 accepts as the start of a connection.\<close>

definition addressed_to :: "ng_packet \<Rightarrow> cid \<Rightarrow> (nat \<times> bytes) list \<Rightarrow> (nat \<times> bytes) list" where
  "addressed_to np c as = filter (\<lambda>a. np_decode_dcid np (snd a) = Some c) as"

definition from_initial :: "ng_packet \<Rightarrow> cid \<Rightarrow> (nat \<times> bytes) list \<Rightarrow> (nat \<times> bytes) list" where
  "from_initial np c as = dropWhile (\<lambda>a. \<not> np_accept np (snd a)) (addressed_to np c as)"

lemma dropWhile_snoc:
  "dropWhile P (xs @ [a]) = (if dropWhile P xs = [] then if P a then [] else [a] else dropWhile P xs @ [a])"
  by (induction xs) auto

lemma from_initial_snoc:
  "from_initial np c (as @ [a]) =
     (if np_decode_dcid np (snd a) \<noteq> Some c then from_initial np c as
      else if from_initial np c as = [] then if np_accept np (snd a) then [a] else []
      else from_initial np c as @ [a])"
  by (simp add: from_initial_def addressed_to_def dropWhile_snoc del: dropWhile_eq_Nil_conv)

lemma batch_of_route:
  assumes "dx_ok t n x"
  shows "batch_of (dx_batches (route np r d x)) k = batch_of (dx_batches x) k @
    (if \<exists>c. np_decode_dcid np d = Some c \<and>
          (dx_sessions x c = Some k \<or> dx_sessions x c = None \<and> np_accept np d \<and> k = dx_next x)
     then [to_datagram (r, d)] else [])"
proof (cases rule: route_cases [of np d x])
  case ignored
  then show ?thesis using route_ignored [OF ignored] by auto
next
  case (old c h)
  then show ?thesis by (auto simp: route_old [OF old] batch_of_add_datagram to_datagram_def)
next
  case (new c)
  have "map_of (dx_batches x) (dx_next x) = None"
    using dx_okD(5) [OF assms, of "dx_next x"] by (metis less_irrefl option.exhaust)
  then show ?thesis using new
    by (auto simp: route_new [OF assms new] batch_of_def map_add_def to_datagram_def split: option.split)
qed

lemma route_known:
  assumes "\<forall>c h. t c = Some h \<longrightarrow> h < n" "h < n"
  shows "batch_of (dx_batches (route_all np as (pass_start t n))) h =
    map to_datagram (filter (\<lambda>a. \<exists>c. np_decode_dcid np (snd a) = Some c \<and> t c = Some h) as)"
proof (induction as rule: rev_induct)
  case Nil
  then show ?case by (simp add: batch_of_def pass_start_def)
next
  case (snoc a as)
  obtain r d where a: "a = (r, d)" by fastforce
  let ?x = "route_all np as (pass_start t n)"
  note ok = dx_ok_route_all [OF assms(1), of np as]
  have "dx_sessions ?x c = Some h \<longleftrightarrow> t c = Some h" for c
    using dx_okD(3,4) [OF ok] assms(2) by (metis not_le)
  moreover have "h \<noteq> dx_next ?x" using dx_okD(1) [OF ok] assms(2) by simp
  ultimately show ?case using batch_of_route [OF ok] snoc a by simp
qed

lemma route_unknown:
  fixes np :: ng_packet
  assumes "\<forall>c h. t c = Some h \<longrightarrow> h < n" "t c = None"
  defines "x \<equiv> \<lambda>as. route_all np as (pass_start t n)"
  shows "if from_initial np c as = [] then dx_sessions (x as) c = None
    else \<exists>h \<ge> n. dx_sessions (x as) c = Some h \<and>
           batch_of (dx_batches (x as)) h = map to_datagram (from_initial np c as)"
proof (induction as rule: rev_induct)
  case Nil
  then show ?case using assms(2) by (simp add: from_initial_def addressed_to_def x_def pass_start_def)
next
  case (snoc a as)
  obtain r d where a: "a = (r, d)" by fastforce
  have xs: "x (as @ [a]) = route np r d (x as)" by (simp add: x_def a)
  have ok: "dx_ok t n (x as)" unfolding x_def by (rule dx_ok_route_all [OF assms(1)])
  note b = batch_of_route [OF ok, of np r d, folded xs]
  have sa: "snd a = d" "to_datagram a = to_datagram (r, d)" by (simp_all add: a)
  show ?case
  proof (cases rule: route_cases [of np d "x as"])
    case ignored
    then have "x (as @ [a]) = x as" unfolding xs by (rule route_ignored)
    moreover have "from_initial np c (as @ [a]) = from_initial np c as"
      using ignored snoc by (auto simp: from_initial_snoc sa split: if_splits)
    ultimately show ?thesis using snoc by simp
  next
    case (old c' h')
    have s: "dx_sessions (x (as @ [a])) = dx_sessions (x as)" unfolding xs route_old [OF old] by simp
    have "h' = h \<Longrightarrow> c' = c" if "dx_sessions (x as) c = Some h" "n \<le> h" for h
      using dx_okD(7) [OF ok] old(2) that by blast
    then show ?thesis using snoc old b s
      by (auto simp: from_initial_snoc sa split: if_splits)
  next
    case (new c')
    have s: "dx_sessions (x (as @ [a])) = (dx_sessions (x as))(c' \<mapsto> dx_next (x as))"
      unfolding xs route_new [OF ok new] by simp
    have "map_of (dx_batches (x as)) (dx_next (x as)) = None"
      using dx_okD(5) [OF ok, of "dx_next (x as)"] by (metis less_irrefl option.exhaust)
    then have e: "batch_of (dx_batches (x as)) (dx_next (x as)) = []" by (simp add: batch_of_def)
    have "h < dx_next (x as)" if "dx_sessions (x as) c = Some h" for h
      using dx_okD(4) [OF ok that] assms(2) by simp
    then show ?thesis using snoc new b s e dx_okD(1) [OF ok]
      by (auto simp: from_initial_snoc sa split: if_splits) (metis less_irrefl)+
  qed
qed

lemma batch_nonempty:
  assumes "\<forall>c h. t c = Some h \<longrightarrow> h < n"
  shows "batch_of (dx_batches (route_all np as (pass_start t n))) k = [] \<longleftrightarrow>
    map_of (dx_batches (route_all np as (pass_start t n))) k = None"
proof (induction as rule: rev_induct)
  case Nil
  then show ?case by (simp add: batch_of_def pass_start_def)
next
  case (snoc a as)
  obtain r d where a: "a = (r, d)" by fastforce
  let ?x = "route_all np as (pass_start t n)"
  note ok = dx_ok_route_all [OF assms, of np as]
  show ?case
  proof (cases rule: route_cases [of np d ?x])
    case ignored
    then show ?thesis using snoc a route_ignored [OF ignored] by simp
  next
    case (old c h)
    then show ?thesis using snoc a route_old [OF old, of r]
      by (simp add: batch_of_add_datagram map_of_add_datagram)
  next
    case (new c)
    then show ?thesis using snoc a route_new [OF ok new, of r]
      by (auto simp: batch_of_def map_add_def split: option.split)
  qed
qed

end
