(* ===== verification/Quic_Server_Run.thy ===== *)
theory Quic_Server_Run
  imports Quic_Server_Table Quic_Demux
begin

text \<open>
  The invariant of the table of connection IDs, kept by every benign event as long as the server is not destroyed.
\<close>

section \<open>Jobs\<close>

text \<open>An operation posts flushes and requests to close, never a first batch.\<close>

definition posts :: "'a quic_session_scheme \<Rightarrow> 'a quic_session_scheme \<Rightarrow> bool" where
  "posts s t \<longleftrightarrow> (\<exists>js. qc_jobs t = qc_jobs s @ js \<and> no_new js)"

lemma no_new_simps [simp]: "no_new []" "no_new (j # js) \<longleftrightarrow> \<not> is_new_batch j \<and> no_new js"
  "no_new (js @ ks) \<longleftrightarrow> no_new js \<and> no_new ks"
  by (auto simp: no_new_def)

lemma posts_same: "qc_jobs t = qc_jobs s \<Longrightarrow> posts s t"
  by (simp add: posts_def)

lemma posts_trans: "posts s t \<Longrightarrow> posts t u \<Longrightarrow> posts s u"
  by (auto simp: posts_def)

lemma posts_no_new: "posts s t \<Longrightarrow> no_new (qc_jobs s) \<Longrightarrow> no_new (qc_jobs t)"
  by (auto simp: posts_def)

lemma wake_write_posts: "posts s (wake_write s)"
  by (auto simp: posts_def wake_write_def run_later_def)

lemma upcall_posts: "posts s (do_upcall (server_role d) ng u s)"
  using wake_write_posts [of s]
  by (cases u) (auto simp: posts_def do_upcall_def call_demux_def run_later_def close_connection_def
      set_application_error_def start_application_def)

lemma upcalls_posts: "posts s (do_upcalls (server_role d) ng us s)"
  unfolding do_upcalls_def
proof (induction us arbitrary: s)
  case (Cons u us)
  then show ?case using upcall_posts posts_trans by fastforce
qed (simp add: posts_same)

lemma handle_error_jobs: "qc_jobs (snd (server_handle_error d a s)) = qc_jobs s"
  using server.error_untouched [of s d a] by (simp add: untouched_def)

lemma write_streams_posts: "posts s (snd (write_streams (server_role d) ng a s))"
proof -
  define u where "u = do_upcalls (server_role d) ng (fa_upcalls a) s"
  have u: "posts s u" by (simp add: u_def upcalls_posts)
  have "qc_jobs (snd (server_handle_error d x (u\<lparr>qc_error := e\<rparr>))) = qc_jobs u"
    "qc_jobs (snd (server_handle_error d x u)) = qc_jobs u"
    "qc_jobs (snd (ss_send_datagrams d y k a u)) = qc_jobs u" for x e y k
    using server.send_untouched [of u d y k a] by (simp_all add: handle_error_jobs untouched_def)
  then show ?thesis using u unfolding write_streams_def u_def [symmetric] Let_def
    by (auto simp: posts_def split: sum.split)
qed

lemma flush_write_posts: "posts s (snd (flush_write (server_role d) ng a s))"
proof -
  obtain rv t where t: "write_streams (server_role d) ng a s = (rv, t)" by fastforce
  have "qc_jobs (arm_timer_from_ngtcp2 a t) = qc_jobs t"
    by (auto simp: arm_timer_from_ngtcp2_def split: option.split)
  then show ?thesis using write_streams_posts [of s d ng a] t by (auto simp: flush_write_def posts_def)
qed

lemma on_read_posts: "posts s (snd (on_read (server_role d) ng a s))"
proof -
  define u where "u = do_upcalls (server_role d) ng (rd_upcalls a) (deref_conn s)"
  have "posts s (deref_conn s)" by (simp add: posts_def deref_conn_def)
  then have "posts s u" unfolding u_def using upcalls_posts posts_trans by blast
  then show ?thesis unfolding on_read_def u_def [symmetric] Let_def
    by (auto simp: posts_def handle_error_jobs split: option.split)
qed

lemma feed_posts: "posts s (snd (feed d ng a i ds ok s))"
proof (induction ds arbitrary: i ok s)
  case (Cons x ds)
  obtain rv t where t: "on_read (server_role d) ng (bt_reads a i) s = (rv, t)" by fastforce
  have "posts s t" using on_read_posts [of s d ng "bt_reads a i"] t by simp
  moreover have "posts s (resend_conn_close d n s)" for n
    by (simp add: posts_def resend_conn_close_def ss_send_udp_eq)
  moreover have "posts t (call_demux Erase t)" by (simp add: posts_def call_demux_def)
  moreover have "posts s (snd (feed d ng a j ds b w))" if "posts s w" for j b w
    using that Cons.IH posts_trans by blast
  ultimately show ?case using Cons.IH t posts_trans [of s t "call_demux Erase t"] by simp
qed (simp add: posts_same)

lemma flush_batch_posts: "posts (snd x) (flush_batch d ng a x)"
  using flush_write_posts [of "snd x" d ng "bt_flush a"]
  by (auto simp: flush_batch_def call_demux_def posts_def split: prod.splits)

lemma process_quic_batch_posts: "posts s (process_quic_batch d ng a b s)"
proof -
  obtain rv t where t: "server_init d ng (bt_init a) s = (rv, t)" by fastforce
  have "posts s (snd (server_init d ng (bt_init a) s))"
  proof (cases "bt_init a")
    case (Init_read ra)
    then show ?thesis using on_read_posts [of "s\<lparr>qc_conn := True\<rparr>" d ng ra] by (simp add: server_init_def posts_def)
  qed (simp_all add: server_init_def posts_def)
  then have st: "posts s t" using t by simp
  define u where "u = (if length (bt_scids a) \<le> 8 then fold (\<lambda>cid. call_demux (Associate cid)) (bt_scids a) t else t)"
  have u: "posts s u" "posts s (u\<lparr>ss_registered := True\<rparr>)" "posts s (call_demux Erase t)"
    "posts s (do_destroy d (bt_destroy a) (call_demux Erase u))"
    using st by (auto simp: u_def posts_def fold_call_demux do_destroy_def Let_def server_defs)
  have f: "posts w (flush_batch d ng a (feed d ng a i ds ok w))" for i ds ok w
    using feed_posts flush_batch_posts posts_trans by blast
  show ?thesis using t u f [of s 0 "ba_datagrams b" False]
      posts_trans [OF u(2) f [of _ 1 "tl (ba_datagrams b)" True]]
    by (auto simp: process_quic_batch_def u_def [symmetric] Let_def simp del: One_nat_def)
qed

section \<open>A session and its steps\<close>

text \<open>What a step has to make of a session for the table to stay in order.\<close>

definition fares :: "server_session \<Rightarrow> server_session \<Rightarrow> bool" where
  "fares s t \<longleftrightarrow>
     sound t \<and> (ended t \<or> \<not> qc_closed t \<or>
       over s \<and> over t \<and> qc_demux t = [] \<and> (lingering s \<longrightarrow> lingering t))"

lemma fares_armed: "armed t \<Longrightarrow> no_new (qc_jobs t) \<Longrightarrow> fares s t"
  by (simp add: fares_def sound_def armed_def opened_def)

lemma fares_ended: "ended t \<Longrightarrow> no_new (qc_jobs t) \<Longrightarrow> fares s t"
  by (simp add: fares_def sound_def ended_def)

lemma fares_over:
  "over s \<Longrightarrow> qc_closed t \<Longrightarrow> qc_timer t = qc_timer s \<Longrightarrow> qc_demux t = [] \<Longrightarrow> no_new (qc_jobs t) \<Longrightarrow> fares s t"
  by (simp add: fares_def sound_def standing_defs)

lemma run_batch_fares:
  assumes "sound s" "qc_demux s = []" "qc_jobs s = Batch b # js" "benign_batch a" "bt_registered a"
  shows "fares s (process_quic_batch d ng a b (s\<lparr>qc_jobs := js\<rparr>))" (is "fares s ?t")
proof -
  have "no_new js" using assms(1,3) by (auto simp: sound_def unborn_def)
  then have n: "no_new (qc_jobs ?t)" using posts_no_new [OF process_quic_batch_posts] by simp
  consider "unborn s" "ba_is_new b" | "armed s" "\<not> ba_is_new b" | "over s" "\<not> ba_is_new b"
    using assms(1,3) by (auto simp: sound_def unborn_def)
  then show ?thesis
  proof cases
    case 1
    then have "\<not> qc_closed (s\<lparr>qc_jobs := js\<rparr>)" by (simp add: unborn_def)
    from new_batch_outcome [OF this assms(4) 1(2) assms(5)] show ?thesis using n fares_armed fares_ended by blast
  next
    case 2
    then have "armed (s\<lparr>qc_jobs := js\<rparr>)" by (simp add: standing_defs)
    from old_batch_outcome [OF this assms(4) 2(2)] show ?thesis using n fares_armed fares_ended by blast
  next
    case 3
    then have "qc_closed (s\<lparr>qc_jobs := js\<rparr>)" by (simp add: over_def)
    note c = closed_batch [OF this 3(2), of d ng a]
    then show ?thesis using 3(1) n assms(2) by (intro fares_over) simp_all
  qed
qed

lemma run_flush_fares:
  assumes "armed s \<or> over s" "no_new (qc_jobs s)" "qc_demux s = []" "benign_flush a"
  shows "fares s (run_flush (server_role d) ng a s)" (is "fares s ?t")
proof -
  obtain rv t where t: "flush_write (server_role d) ng a (s\<lparr>qc_posted := False\<rparr>) = (rv, t)" by fastforce
  have "no_new (qc_jobs t)"
    using posts_no_new [OF flush_write_posts, of "s\<lparr>qc_posted := False\<rparr>" d ng a] assms(2) t by simp
  moreover have "armed t \<or> ended t" if "armed s"
    using flush_write_outcome [of "s\<lparr>qc_posted := False\<rparr>" a d ng] assms(4) t that
    by (auto simp: armed_def opened_def)
  ultimately have "fares s t" if "armed s" using that fares_armed fares_ended by blast
  moreover have "fares s (s\<lparr>qc_posted := False\<rparr>)" if "over s"
    using that assms(2,3) by (intro fares_over) (simp_all add: over_def)
  ultimately show ?thesis
    using assms(1) t by (auto simp: run_flush_def Let_def armed_def opened_def over_def)
qed

lemma handle_error_fares:
  assumes "opened s" "no_new (qc_jobs s)" "ca_packet a \<noteq> []"
  shows "fares r (snd (server_handle_error d a s))"
  using handle_error_ends [OF assms(1,3), of d] assms(2) by (auto intro: fares_ended simp: handle_error_jobs)

lemma run_close_fares:
  assumes "armed s \<or> over s" "no_new (qc_jobs s)" "qc_demux s = []" "ca_packet a \<noteq> []"
  shows "fares s (run_close_connection (server_role d) ng code a s)"
proof (cases "armed s")
  case True
  then have "opened (set_application_error ng code s)" by (simp add: standing_defs set_application_error_def)
  then show ?thesis using handle_error_fares [of "set_application_error ng code s" a s d] assms True
    by (simp add: run_close_connection_def set_application_error_def armed_def opened_def)
next
  case False
  then show ?thesis using assms by (auto simp: run_close_connection_def over_def intro!: fares_over)
qed

lemma fares_with_jobs: "fares (s\<lparr>qc_jobs := js\<rparr>) t = fares s t"
  by (simp add: fares_def standing_defs)

lemma run_job_fares:
  assumes "sound s" "qc_demux s = []" "qc_jobs s = j # js" "benign (Run h a)" "bt_registered (ja_batch a)"
  shows "fares s (run_job d ng a s)"
proof (cases "is_new_batch j \<or> (\<exists>b. j = Batch b)")
  case True
  then obtain b where "j = Batch b" by (cases j) auto
  then show ?thesis using run_batch_fares [OF assms(1,2), of b js "ja_batch a" d ng] assms(3-5)
    by (simp add: run_job_def)
next
  case False
  let ?s = "s\<lparr>qc_jobs := js\<rparr>"
  have s: "armed ?s \<or> over ?s" "no_new (qc_jobs ?s)" "qc_demux ?s = []"
    using False assms(1-3) by (auto simp: sound_def unborn_def standing_defs)
  show ?thesis
    using run_flush_fares [OF s, of "ja_flush a" d ng] run_close_fares [OF s, of "ja_close a" d ng] assms(3,4) False
    by (cases j) (auto simp: run_job_def fares_with_jobs)
qed

lemma handle_expiry_fares:
  assumes "opened s" "no_new (qc_jobs s)" "benign_flush a"
  shows "fares r (snd (handle_expiry (server_role d) ng e a s))"
proof -
  define u where "u = do_upcalls (server_role d) ng (ea_upcalls e) (deref_conn s)"
  have u: "opened u" "no_new (qc_jobs u)"
    using assms(1,2) posts_no_new [OF upcalls_posts, of "deref_conn s" d ng "ea_upcalls e"]
    by (simp_all add: u_def deref_conn_def opened_def server.upcalls_keep)
  obtain rv t where t: "flush_write (server_role d) ng a u = (rv, t)" by fastforce
  then have "armed t \<or> ended t" "no_new (qc_jobs t)"
    using flush_write_outcome [OF u(1) assms(3), of d ng] posts_no_new [OF flush_write_posts u(2), of d ng a] by auto
  then have "fares r t" using fares_armed fares_ended by blast
  moreover have "fares r (snd (server_handle_error d (fa_close a) (u\<lparr>qc_error := x\<rparr>)))" for x
    using handle_error_fares [of "u\<lparr>qc_error := x\<rparr>" "fa_close a" r d] u assms(3)
    by (simp add: opened_def benign_flush_def)
  ultimately show ?thesis unfolding handle_expiry_def u_def [symmetric] Let_def
    using t by (auto split: option.split)
qed

lemma fire_timer_fares:
  assumes "sound s" "qc_demux s = []" "benign_flush a" "qc_timer s \<noteq> Unarmed"
  shows "fares s (fire_timer d ng e a s)"
proof (cases "qc_timer s")
  case (Expiry_timer x)
  then have "opened (s\<lparr>qc_timer := Unarmed\<rparr>)" "no_new (qc_jobs s)"
    using assms by (auto simp: sound_def unborn_def standing_defs)
  then show ?thesis using handle_expiry_fares [of "s\<lparr>qc_timer := Unarmed\<rparr>" a s d ng e] assms(3) Expiry_timer
    by (simp add: fire_timer_def)
next
  case (Close_timer x)
  then have "over s" "no_new (qc_jobs s)" using assms by (auto simp: sound_def unborn_def standing_defs)
  then show ?thesis using Close_timer
    by (auto simp: fire_timer_def signal_done_def call_demux_def standing_defs intro!: fares_ended)
qed (use assms in simp)

lemma fares_posts:
  assumes "sound s" "qc_demux s = []" "posts s t" "qc_conn t = qc_conn s" "qc_closed t = qc_closed s"
    "qc_timer t = qc_timer s" "qc_demux t = []"
  shows "fares s t"
proof -
  have "no_new (qc_jobs t)" if "no_new (qc_jobs s)" using that posts_no_new [OF assms(3)] by blast
  moreover have "unborn t" if "unborn s"
  proof -
    obtain js where "qc_jobs t = qc_jobs s @ js" "no_new js" using assms(3) by (auto simp: posts_def)
    then show ?thesis using that assms(4-6) by (auto simp: unborn_def)
  qed
  ultimately show ?thesis using assms by (auto simp: fares_def sound_def unborn_def standing_defs)
qed

section \<open>The table\<close>

definition table_ok :: "quic_server \<Rightarrow> bool" where
  "table_ok v \<longleftrightarrow>
     (\<forall>h < qv_next v. sound (qv_object v h) \<and> qc_demux (qv_object v h) = []) \<and>
     (\<forall>c h. qv_sessions v c = Some h \<longrightarrow> h < qv_next v \<and> (over (qv_object v h) \<longrightarrow> lingering (qv_object v h)))"

lemma table_okD:
  assumes "table_ok v"
  shows "h < qv_next v \<Longrightarrow> sound (qv_object v h)" "h < qv_next v \<Longrightarrow> qc_demux (qv_object v h) = []"
    "qv_sessions v c = Some h \<Longrightarrow> h < qv_next v"
    "qv_sessions v c = Some h \<Longrightarrow> over (qv_object v h) \<Longrightarrow> lingering (qv_object v h)"
  using assms by (auto simp: table_ok_def)

lemma do_demux_mono: "do_demux h x t c = Some k \<Longrightarrow> k = h \<or> t c = Some k"
  by (auto simp: do_demux_def associate_quic_cid_def dissociate_quic_cid_def erase_quic_session_def
      split: demux.splits if_splits)

lemma fold_demux_mono: "fold (do_demux h) xs t c = Some k \<Longrightarrow> k = h \<or> t c = Some k"
proof (induction xs arbitrary: t)
  case (Cons x xs)
  then show ?case using do_demux_mono by fastforce
qed simp

lemma fold_demux_gone: "xs \<noteq> [] \<Longrightarrow> last xs = Erase \<Longrightarrow> fold (do_demux h) xs t c \<noteq> Some h"
  by (cases xs rule: rev_cases) (auto simp: do_demux_def erase_quic_session_def)

lemma standing_demux [simp]:
  "sound (s\<lparr>qc_demux := x\<rparr>) = sound s" "over (s\<lparr>qc_demux := x\<rparr>) = over s"
  "lingering (s\<lparr>qc_demux := x\<rparr>) = lingering s"
  by (simp_all add: sound_def unborn_def standing_defs)

lemma commit_ok:
  assumes "table_ok v" "h < qv_next v" "fares (qv_object v h) s"
  shows "table_ok (commit h s v)"
  unfolding table_ok_def
proof (intro conjI allI impI)
  fix k
  assume "k < qv_next (commit h s v)"
  then show "sound (qv_object (commit h s v) k)" "qc_demux (qv_object (commit h s v) k) = []"
    using assms table_okD(1,2) [OF assms(1)] by (auto simp: commit_def fares_def)
next
  fix c k
  assume c: "qv_sessions (commit h s v) c = Some k"
  then have k: "k = h \<or> qv_sessions v c = Some k" by (auto simp: commit_def dest: fold_demux_mono)
  then show "k < qv_next (commit h s v)"
    using assms(2) table_okD(3) [OF assms(1)] by (auto simp: commit_def)
  assume o: "over (qv_object (commit h s v) k)"
  show "lingering (qv_object (commit h s v) k)"
  proof (cases "k = h")
    case True
    then have s: "over s" "fold (do_demux h) (qc_demux s) (qv_sessions v) c = Some h"
      using o c by (simp_all add: commit_def)
    have "\<not> gone s" using s(2) fold_demux_gone unfolding gone_def by metis
    moreover have "lingering s" if "qc_demux s = []" "lingering (qv_object v h) \<longrightarrow> lingering s" "over (qv_object v h)"
      using that s table_okD(4) [OF assms(1)] by simp
    ultimately show ?thesis using assms(3) s(1) True by (auto simp: commit_def fares_def ended_def over_def)
  next
    case False
    then show ?thesis using k o table_okD(4) [OF assms(1)] by (auto simp: commit_def)
  qed
qed

lemma udp_on_read_ok:
  assumes "table_ok v" shows "table_ok (udp_on_read g np ms v)"
proof -
  define x where "x = route_all np (arrivals (take 32 ms)) (pass_start (qv_sessions v) (qv_next v))"
  define made where
    "made = (\<lambda>h. if qv_next v \<le> h \<and> h < dx_next x then new_session g else qv_object v h)"
  have u: "udp_on_read g np ms v =
      v\<lparr>qv_sessions := dx_sessions x, qv_next := dx_next x, qv_object := post_batches (dx_batches x) made\<rparr>"
    by (simp add: udp_on_read_def x_def made_def receive_pass_eq pass_start_def Let_def)
  have "\<forall>c h. qv_sessions v c = Some h \<longrightarrow> h < qv_next v" using table_okD(3) [OF assms] by blast
  then have ok: "dx_ok (qv_sessions v) (qv_next v) x" unfolding x_def by (rule dx_ok_route_all)
  note dx = dx_okD [OF ok]
  define w where "w = post_batches (dx_batches x) made"
  have w: "w h = (case map_of (dx_batches x) h of None \<Rightarrow> made h | Some b \<Rightarrow> run_later (Batch b) (made h))" for h
    unfolding w_def by (rule post_batches_eq [OF dx(2)])
  have old: "fares (qv_object v h) (w h)" "qc_demux (w h) = []" "qc_closed (w h) = qc_closed (qv_object v h)"
    "qc_timer (w h) = qc_timer (qv_object v h)" if "h < qv_next v" for h
  proof -
    have "posts (qv_object v h) (w h)" using that dx(5) [of h] w [of h]
      by (auto simp: made_def posts_def run_later_def split: option.splits)
    then show "fares (qv_object v h) (w h)" using that table_okD(1,2) [OF assms that] w [of h]
      by (intro fares_posts) (auto simp: made_def run_later_def split: option.split)
  qed (use that w [of h] table_okD(2) [OF assms that] in \<open>auto simp: made_def run_later_def split: option.split\<close>)
  have new: "unborn (w h)" "qc_demux (w h) = []" if h: "qv_next v \<le> h" "h < dx_next x" for h
  proof -
    obtain b where b: "map_of (dx_batches x) h = Some b" using dx(6) [OF h] by blast
    then have "w h = run_later (Batch b) (new_session g)" "ba_is_new b"
      using w [of h] h dx(5) [OF b] by (simp_all add: made_def)
    then show "unborn (w h)" "qc_demux (w h) = []" by (simp_all add: unborn_def run_later_def new_session_def)
  qed
  show ?thesis unfolding u table_ok_def w_def [symmetric]
  proof (intro conjI allI impI; simp)
    fix h assume "h < dx_next x"
    then show "sound (w h)" "qc_demux (w h) = []"
      using old(1,2) [of h] new [of h] by (cases "h < qv_next v"; auto simp: fares_def sound_def)+
  next
    fix c h assume c: "dx_sessions x c = Some h"
    then have k: "qv_sessions v c = Some h \<or> qv_next v \<le> h \<and> h < dx_next x" using dx(4) by blast
    then show "h < dx_next x" using table_okD(3) [OF assms] dx(1) by (meson less_le_trans)
    assume o: "over (w h)"
    show "lingering (w h)"
    proof (cases "h < qv_next v")
      case True
      then have "over (qv_object v h)" "qv_sessions v c = Some h" using o old(3,4) [OF True] k
        by (auto simp: over_def expiring_def)
      then show ?thesis using table_okD(4) [OF assms] old(3,4) [OF True] by (simp add: lingering_def)
    next
      case False
      then show ?thesis using new(1) [of h] k o table_okD(3) [OF assms]
        by (auto simp: unborn_def over_def)
    qed
  qed
qed

lemma qv_apply_ok:
  assumes "table_ok v" "enabled e v" "benign e" "\<not> qv_destroyed v" "e \<noteq> Server_destroyed"
  shows "table_ok (qv_apply cf e v)"
proof -
  note s = table_okD(1,2) [OF assms(1)]
  have refl: "fares (qv_object v h) (qv_object v h)" if "h < qv_next v" for h
    using s [OF that] by (intro fares_posts) (simp_all add: posts_def)
  show ?thesis
  proof (cases e)
    case (Receive ms)
    then show ?thesis using udp_on_read_ok assms(1) by (simp add: qv_apply_def)
  next
    case (Run h a)
    then have h: "h < qv_next v" "bt_registered (ja_batch a)" using assms(2,4) by (simp_all add: enabled_def)
    have "fares (qv_object v h) (run_job (cf_dropping cf) (cf_ngtcp2 cf) a (qv_object v h))"
      using run_job_fares [OF s [OF h(1)] _ _ h(2)] assms(3) Run refl [OF h(1)]
      by (cases "qc_jobs (qv_object v h)") (auto simp: run_job_def)
    then show ?thesis using commit_ok [OF assms(1) h(1)] Run by (simp add: qv_apply_def)
  next
    case (Timer h x a)
    then have h: "h < qv_next v" using assms(2) by (simp add: enabled_def)
    have "fares (qv_object v h) (fire_timer (cf_dropping cf) (cf_ngtcp2 cf) x a (qv_object v h))"
      using fire_timer_fares [OF s [OF h]] assms(3) Timer refl [OF h]
      by (cases "qc_timer (qv_object v h) = Unarmed") (auto simp: fire_timer_def)
    then show ?thesis using commit_ok [OF assms(1) h] Timer by (simp add: qv_apply_def)
  next
    case (Woken h)
    then have h: "h < qv_next v" using assms(2) by (simp add: enabled_def)
    have "fares (qv_object v h) (wake_write (qv_object v h))"
      using s [OF h] wake_write_posts [of "qv_object v h"]
      by (intro fares_posts) (simp_all add: wake_write_def run_later_def)
    then show ?thesis using commit_ok [OF assms(1) h] Woken by (simp add: qv_apply_def)
  next
    case (Close_requested h c)
    then have h: "h < qv_next v" using assms(2) by (simp add: enabled_def)
    have "fares (qv_object v h) (close_connection c (qv_object v h))"
      using s [OF h] by (intro fares_posts) (simp_all add: close_connection_def run_later_def posts_def)
    then show ?thesis using commit_ok [OF assms(1) h] Close_requested by (simp add: qv_apply_def)
  qed (use assms in \<open>simp_all add: enabled_def\<close>)
qed

lemma qv_run_ok:
  "qv_run cf es v w \<Longrightarrow> table_ok v \<Longrightarrow> \<forall>e \<in> set es. benign e \<Longrightarrow> \<not> qv_destroyed w \<Longrightarrow> table_ok w"
proof (induction rule: qv_run.induct)
  case (snoc es v w e)
  have "qv_destroyed w \<or> e = Server_destroyed \<Longrightarrow> qv_destroyed (qv_apply cf e w)"
    by (cases e) (auto simp: qv_apply_def commit_def udp_on_read_def Let_def)
  then show ?case using snoc qv_apply_ok [of w e cf] by auto
qed simp

lemma qv_start_ok: "table_ok qv_start"
  by (simp add: table_ok_def qv_start_def)

end
