(* ===== verification/Quic_Server_Quiet.thy ===== *)
theory Quic_Server_Quiet
  imports Quic_Server_Run
begin

text \<open>
  What a connection of the QUIC server still sends once it is closed: every operation, and so every run, keeps it closed
  and adds nothing to what it has sent but copies of the packet in \<open>conn_closebuf_\<close>.
\<close>

section \<open>A closed connection\<close>

text \<open>Closed before and after, and nothing sent in between but the packet in \<open>conn_closebuf_\<close>.\<close>

definition subdued :: "server_session \<Rightarrow> server_session \<Rightarrow> bool" where
  "subdued s t \<longleftrightarrow> (qc_closed s \<longrightarrow> qc_closed t \<and> ss_closebuf t = ss_closebuf s \<and>
     (\<exists>k. qc_sent t = qc_sent s @ replicate k (ss_closebuf s)))"

lemma subdued_trans: "subdued s t \<Longrightarrow> subdued t u \<Longrightarrow> subdued s u"
  by (auto simp: subdued_def replicate_add [symmetric])

lemma subdued_same:
  "qc_closed t = qc_closed s \<Longrightarrow> ss_closebuf t = ss_closebuf s \<Longrightarrow> qc_sent t = qc_sent s \<Longrightarrow> subdued s t"
  by (auto simp: subdued_def intro: exI [of _ 0])

lemma subdued_refl [simp]: "subdued s s"
  by (rule subdued_same) simp_all

lemma upcall_subdued: "subdued s (do_upcall (server_role d) ng u s)"
  by (rule subdued_same; cases u)
    (auto simp: do_upcall_def call_demux_def wake_write_def run_later_def close_connection_def
      set_application_error_def start_application_def)

lemma upcalls_subdued: "subdued s (do_upcalls (server_role d) ng us s)"
  unfolding do_upcalls_def
proof (induction us arbitrary: s)
  case (Cons u us)
  then show ?case using upcall_subdued subdued_trans by fastforce
qed simp

lemma deref_subdued: "subdued s (deref_conn s)"
  by (rule subdued_same) (simp_all add: deref_conn_def)

lemma on_read_subdued: "subdued s (snd (on_read (server_role d) ng a s))"
proof -
  define u where "u = do_upcalls (server_role d) ng (rd_upcalls a) (deref_conn s)"
  have u: "subdued s u" unfolding u_def using deref_subdued upcalls_subdued subdued_trans by blast
  have "subdued u (u\<lparr>qc_draining := x\<rparr>)" for x by (rule subdued_same) simp_all
  moreover have "subdued u (snd (server_handle_error d y (u\<lparr>qc_draining := x, qc_error := e\<rparr>)))"
    "subdued u (snd (server_handle_error d y (u\<lparr>qc_draining := x\<rparr>)))" for x y e
    by (auto simp: subdued_def server_handle_error_def intro: exI [of _ 0])
  ultimately show ?thesis unfolding on_read_def u_def [symmetric] Let_def
    using u subdued_trans by (auto split: option.split)
qed

lemma send_udp_once: "nt_wire (snd (send_udp d p (n\<lparr>nt_wire := []\<rparr>))) \<in> {[], [p]}"
  by (auto simp: send_udp_def drop_packet_def sendmsg_def Let_def split: prod.split list.split)

lemma resend_subdued: "subdued s (resend_conn_close d n s)"
  using send_udp_once [of d "ss_closebuf s" n]
  by (auto simp: subdued_def resend_conn_close_def ss_send_udp_eq intro: exI [of _ 0] exI [of _ "Suc 0"])

lemma feed_subdued: "subdued s (snd (feed d ng a i ds ok s))"
proof (induction ds arbitrary: i ok s)
  case (Cons x ds)
  obtain rv t where t: "on_read (server_role d) ng (bt_reads a i) s = (rv, t)" by fastforce
  have "subdued s t" using on_read_subdued [of s d ng "bt_reads a i"] t by simp
  moreover have "subdued t (call_demux Erase t)" by (rule subdued_same) (simp_all add: call_demux_def)
  moreover have "subdued s (snd (feed d ng a j ds b w))" if "subdued s w" for j b w
    using that Cons.IH subdued_trans by blast
  ultimately show ?case using resend_subdued t subdued_trans [of s t "call_demux Erase t"] by simp
qed simp

lemma flush_batch_subdued: "subdued (snd x) (flush_batch d ng a x)"
  by (auto simp: flush_batch_def flush_write_def subdued_def split: prod.splits intro: exI [of _ 0])

lemma do_destroy_subdued: "subdued s (do_destroy d a s)"
  by (auto simp: subdued_def do_destroy_def qc_clear_streams_def signal_done_def intro: exI [of _ 0])

lemma process_quic_batch_subdued: "subdued s (process_quic_batch d ng a b s)"
proof -
  obtain rv t where t: "server_init d ng (bt_init a) s = (rv, t)" by fastforce
  have c: "subdued s (s\<lparr>qc_conn := True\<rparr>)" by (rule subdued_same) simp_all
  have "subdued s (snd (server_init d ng (bt_init a) s))"
    using subdued_trans [OF c on_read_subdued] c by (auto simp: server_init_def split: init_ans.split)
  then have st: "subdued s t" using t by simp
  define u where "u = (if length (bt_scids a) \<le> 8 then fold (\<lambda>cid. call_demux (Associate cid)) (bt_scids a) t else t)"
  have "subdued t (call_demux Erase t)" "subdued t (call_demux Erase u)" "subdued t (u\<lparr>ss_registered := True\<rparr>)"
    by (rule subdued_same; simp add: u_def call_demux_def fold_call_demux)+
  then have u: "subdued s (call_demux Erase t)" "subdued s (do_destroy d (bt_destroy a) (call_demux Erase u))"
    "subdued s (u\<lparr>ss_registered := True\<rparr>)"
    using st do_destroy_subdued subdued_trans by blast+
  have f: "subdued w (flush_batch d ng a (feed d ng a i ds ok w))" for i ds ok w
    using feed_subdued flush_batch_subdued subdued_trans by blast
  show ?thesis using t u f [of s 0 "ba_datagrams b" False]
      subdued_trans [OF u(3) f [of _ 1 "tl (ba_datagrams b)" True]]
    by (auto simp: process_quic_batch_def u_def [symmetric] Let_def simp del: One_nat_def)
qed

lemma run_job_subdued: "subdued s (run_job d ng a s)"
proof (cases "qc_jobs s")
  case (Cons j js)
  have "subdued s (s\<lparr>qc_jobs := js\<rparr>)" by (rule subdued_same) simp_all
  moreover have "subdued (s\<lparr>qc_jobs := js\<rparr>) (run_flush (server_role d) ng (ja_flush a) (s\<lparr>qc_jobs := js\<rparr>))"
    "subdued (s\<lparr>qc_jobs := js\<rparr>) (run_close_connection (server_role d) ng c (ja_close a) (s\<lparr>qc_jobs := js\<rparr>))" for c
    by (auto simp: subdued_def run_flush_def run_close_connection_def intro: exI [of _ 0])
  ultimately show ?thesis using Cons process_quic_batch_subdued subdued_trans
    by (auto simp: run_job_def Let_def split: job.split)
qed (simp add: run_job_def)

lemma fire_timer_subdued: "subdued s (fire_timer d ng e a s)"
proof -
  define u where "u = do_upcalls (server_role d) ng (ea_upcalls e) (deref_conn (s\<lparr>qc_timer := Unarmed\<rparr>))"
  have t: "subdued s (s\<lparr>qc_timer := Unarmed\<rparr>)" by (rule subdued_same) simp_all
  then have u: "subdued s u" unfolding u_def using deref_subdued upcalls_subdued subdued_trans by blast
  have "subdued u (snd (server_handle_error d y (u\<lparr>qc_error := x\<rparr>)))"
    "subdued u (snd (flush_write (server_role d) ng a u))" for x y
    by (auto simp: subdued_def server_handle_error_def flush_write_def intro: exI [of _ 0])
  then have "subdued s (snd (handle_expiry (server_role d) ng e a (s\<lparr>qc_timer := Unarmed\<rparr>)))"
    unfolding handle_expiry_def u_def [symmetric] Let_def using u subdued_trans by (auto split: option.split)
  moreover have "subdued s (signal_done (call_demux Erase (s\<lparr>qc_timer := Unarmed\<rparr>)))"
    by (rule subdued_same) (simp_all add: signal_done_def call_demux_def)
  ultimately show ?thesis by (simp add: fire_timer_def split: timer.split)
qed

lemma post_batches_subdued: "subdued (f h) (post_batches bs f h)"
  unfolding post_batches_def
proof (induction bs arbitrary: f)
  case (Cons x bs)
  obtain k b where x: "x = (k, b)" by fastforce
  have "subdued (f h) ((f(k := run_later (Batch b) (f k))) h)" by (rule subdued_same) (simp_all add: run_later_def)
  from subdued_trans [OF this Cons.IH [of "f(k := run_later (Batch b) (f k))"]] show ?case by (simp add: x)
qed simp

lemma commit_subdued: "subdued (qv_object v h) s \<Longrightarrow> subdued (qv_object v k) (qv_object (commit h s v) k)"
  by (auto simp: commit_def subdued_def intro: exI [of _ 0])

lemma qv_apply_subdued:
  assumes "k < qv_next v"
  shows "subdued (qv_object v k) (qv_object (qv_apply cf e v) k)"
proof (cases e)
  case (Receive ms)
  then show ?thesis
    using post_batches_subdued [of "\<lambda>h. if qv_next v \<le> h \<and> h < _ then new_session (cf_disable_gso cf) else qv_object v h" k] assms
    by (simp add: qv_apply_def udp_on_read_def Let_def)
next
  case (Woken h)
  have "subdued (qv_object v h) (wake_write (qv_object v h))"
    by (rule subdued_same) (simp_all add: wake_write_def run_later_def)
  then show ?thesis using Woken commit_subdued by (simp add: qv_apply_def)
next
  case (Close_requested h c)
  have "subdued (qv_object v h) (close_connection c (qv_object v h))"
    by (rule subdued_same) (simp_all add: close_connection_def run_later_def)
  then show ?thesis using Close_requested commit_subdued by (simp add: qv_apply_def)
qed (simp_all add: qv_apply_def commit_subdued run_job_subdued fire_timer_subdued do_destroy_subdued)

lemma qv_apply_next: "qv_next v \<le> qv_next (qv_apply cf e v)"
proof (cases e)
  case (Receive ms)
  have "dx_next x \<le> dx_next (route np r d x)" for np r d x
    by (auto simp: route_def Let_def split: option.split)
  then have "dx_next x \<le> dx_next (route_all np as x)" for np as x
  proof (induction as rule: rev_induct)
    case (snoc a as)
    then show ?case by (cases a) (auto intro: le_trans)
  qed simp
  then have "dx_next x \<le> dx_next (receive_pass np n ms x)" for np n x by (simp add: receive_pass_eq)
  from this [where x = "\<lparr>dx_sessions = qv_sessions v, dx_next = qv_next v, dx_batches = []\<rparr>"] Receive
  show ?thesis by (simp add: qv_apply_def udp_on_read_def Let_def)
qed (simp_all add: qv_apply_def commit_def)

lemma qv_run_subdued:
  "qv_run cf es v w \<Longrightarrow> k < qv_next v \<Longrightarrow> qv_next v \<le> qv_next w \<and> subdued (qv_object v k) (qv_object w k)"
proof (induction rule: qv_run.induct)
  case (snoc es v w e)
  then have "k < qv_next w" "qv_next v \<le> qv_next w" "subdued (qv_object v k) (qv_object w k)" by auto
  then show ?case using qv_apply_subdued [of k w cf e] qv_apply_next [of w cf e] subdued_trans by (meson le_trans)
qed simp

end
