(* ===== verification/Quic_Alpn.thy ===== *)
theory Quic_Alpn
  imports Prelude
begin

text \<open>
  Which protocol a QUIC connection speaks: the applications registered with the server
  (\<^verbatim>\<open>src/quic/server.cpp\<close>, \<open>add_application()\<close>), the callback in which the server picks one of those the
  client offers (\<open>alpn_select_cb()\<close>, \<open>select_application()\<close>), and the offer of the client
  (\<^verbatim>\<open>src/quic/client.cpp\<close>, \<open>TlsClientContext\<close>). The offer is the list of RFC 7301, each name behind a byte
  with its length. An application is made by a factory, which is a value of any type here.
\<close>

section \<open>Registered applications\<close>

fun add_application :: "bytes \<Rightarrow> 'f \<Rightarrow> (bytes \<times> 'f) list \<Rightarrow> (bytes \<times> 'f) list" where
  "add_application alpn factory [] = [(alpn, factory)]"
| "add_application alpn factory ((registered, f) # apps) =
     (if registered = alpn then (registered, factory) # apps
      else (registered, f) # add_application alpn factory apps)"

section \<open>The choice\<close>

text \<open>The names in an offer, as the loop of the callback meets them: it stops where a length points past the
  end.\<close>

function offered :: "bytes \<Rightarrow> bytes list" where
  "offered s =
     (if s \<noteq> [] \<and> unat (hd s) < length s
      then take (unat (hd s)) (tl s) # offered (drop (unat (hd s)) (tl s)) else [])"
  by pat_completeness auto
termination by (relation "measure length") (auto simp: less_Suc_eq_le length_greater_0_conv [symmetric] simp del: length_greater_0_conv)

declare offered.simps [simp del]

text \<open>The two loops. What they have found so far is the name, empty at first, and the factory beside it.\<close>

fun match_alpn :: "bytes \<Rightarrow> 'f \<Rightarrow> bytes list \<Rightarrow> bytes \<times> 'f option \<Rightarrow> bytes \<times> 'f option" where
  "match_alpn alpn f [] chosen = chosen"
| "match_alpn alpn f (s # ss) chosen = (if s = alpn then (s, Some f) else match_alpn alpn f ss chosen)"

fun choose_alpn :: "(bytes \<times> 'f) list \<Rightarrow> bytes list \<Rightarrow> bytes \<times> 'f option \<Rightarrow> bytes \<times> 'f option" where
  "choose_alpn [] ss chosen = chosen"
| "choose_alpn ((alpn, f) # apps) ss chosen =
     (let chosen = match_alpn alpn f ss chosen in
      if fst chosen \<noteq> [] then chosen else choose_alpn apps ss chosen)"

text \<open>What the session keeps of it: \<open>alpn_\<close> and \<open>application_\<close>, the latter as the factory that made it.\<close>

record 'f selection =
  se_alpn :: bytes
  se_application :: "'f option"

definition select_application :: "bytes \<Rightarrow> 'f option \<Rightarrow> 'f selection \<Rightarrow> bool \<times> 'f selection" where
  "select_application alpn factory s =
     (if se_application s \<noteq> None then (alpn = se_alpn s, s)
      else (True, s\<lparr>se_alpn := alpn, se_application := factory\<rparr>))"

text \<open>The callback answers with the name, or with none, which is \<open>SSL_TLSEXT_ERR_ALERT_FATAL\<close>. The session is
  missing when the connection has lost its \<open>SSL\<close>.\<close>

definition alpn_select_cb ::
    "(bytes \<times> 'f) list \<Rightarrow> bytes \<Rightarrow> 'f selection option \<Rightarrow> bytes option \<times> 'f selection option" where
  "alpn_select_cb apps offer session =
     (case session of
        None \<Rightarrow> (None, None)
      | Some s \<Rightarrow>
          (let (chosen, factory) = choose_alpn apps (offered offer) ([], None) in
           if chosen = [] then (None, Some s)
           else let (ok, s) = select_application chosen factory s in
             (if ok then Some chosen else None, Some s)))"

section \<open>The offer of the client\<close>

definition client_offer :: "bytes \<Rightarrow> bytes option" where
  "client_offer alpn = (if alpn = [] \<or> 255 < length alpn then None else Some (of_nat (length alpn) # alpn))"

section \<open>Lemmas\<close>

text \<open>The wire format of RFC 7301.\<close>

definition encode_offer :: "bytes list \<Rightarrow> bytes" where
  "encode_offer names = concat (map (\<lambda>a. of_nat (length a) # a) names)"

lemma unat_length_byte: "length (a :: bytes) < 256 \<Longrightarrow> unat (of_nat (length a) :: byte) = length a"
  by (simp add: unat_of_nat take_bit_nat_eq_self_iff)

lemma offered_encode: "\<forall>a \<in> set names. length a < 256 \<Longrightarrow> offered (encode_offer names) = names"
proof (induction names)
  case Nil
  then show ?case by (simp add: offered.simps encode_offer_def)
next
  case (Cons a names)
  let ?rest = "encode_offer names"
  have enc: "encode_offer (a # names) = of_nat (length a) # a @ ?rest" by (simp add: encode_offer_def)
  have l: "unat (of_nat (length a) :: byte) = length a" using Cons.prems unat_length_byte by simp
  have "offered (encode_offer (a # names)) = a # offered ?rest"
    unfolding enc by (subst offered.simps) (simp add: l)
  then show ?case using Cons by simp
qed

lemma match_alpn_eq: "match_alpn alpn f ss chosen = (if alpn \<in> set ss then (alpn, Some f) else chosen)"
  by (induction ss) auto

lemma choose_alpn_eq:
  "\<forall>(a, f) \<in> set apps. a \<noteq> [] \<Longrightarrow>
   choose_alpn apps ss ([], None) =
     (case find (\<lambda>(a, f). a \<in> set ss) apps of None \<Rightarrow> ([], None) | Some (a, f) \<Rightarrow> (a, Some f))"
  by (induction apps) (auto simp: match_alpn_eq Let_def)

lemma add_application_names:
  "map fst (add_application a f apps) = (if a \<in> fst ` set apps then map fst apps else map fst apps @ [a])"
  by (induction a f apps rule: add_application.induct) auto

lemma add_application_lookup:
  "map_of (add_application a f apps) b = (if b = a then Some f else map_of apps b)"
  by (induction a f apps rule: add_application.induct) auto

end
