(* ===== verification/Quic_Server_Properties.thy ===== *)
theory Quic_Server_Properties
  imports Quic_Server_Quiet Quic_Alpn
begin

text \<open>
  The properties of the QUIC server: who is in the table of connection IDs and who gets which datagram, what a closed
  connection still says, how the write loop is woken, how packets are cut into datagrams and which protocol is chosen.
\<close>

section \<open>Concrete inputs\<close>

text \<open>Answers for the examples: everything is sent, the connection has an expiry, ngtcp2 reads without error; a packet
  whose first byte is one is the start of a connection, and the first byte is its connection ID.\<close>

definition sample_net :: net where
  "sample_net = \<lparr>nt_drops = [], nt_results = [], nt_wire = []\<rparr>"

definition sample_close :: "net close_ans" where
  "sample_close = \<lparr>ca_packet = [7], ca_closing = True, ca_pto = 5, ca_net = sample_net\<rparr>"

definition sample_read :: "net read_ans" where
  "sample_read = \<lparr>rd_upcalls = [], rd_rv = None, rd_alert = 0, rd_draining = False, rd_close = sample_close\<rparr>"

definition sample_flush :: "net flush_ans" where
  "sample_flush =
     \<lparr>fa_upcalls = [], fa_result = Inr [3], fa_gso_size = 0, fa_net = sample_net, fa_close = sample_close,
      fa_expiry = Some 9, fa_now = 4\<rparr>"

definition sample_job :: job_ans where
  "sample_job =
     \<lparr>ja_batch = \<lparr>bt_init = Init_read sample_read, bt_scids = [], bt_registered = True, bt_reads = (\<lambda>i. sample_read),
                 bt_resend = (\<lambda>i. sample_net), bt_flush = sample_flush, bt_destroy = sample_close\<rparr>,
      ja_flush = sample_flush, ja_close = sample_close\<rparr>"

definition sample_ngtcp2 :: ngtcp2 where
  "sample_ngtcp2 =
     \<lparr>ng_liberr = (\<lambda>e. \<lparr>cc_type = (if e = Err_idle_close then Cc_idle_close else Cc_transport), cc_code = 1\<rparr>),
      ng_tls_alert = (\<lambda>a. \<lparr>cc_type = Cc_transport, cc_code = a\<rparr>),
      ng_app_error = (\<lambda>c. \<lparr>cc_type = Cc_application, cc_code = c\<rparr>)\<rparr>"

definition sample_packet :: ng_packet where
  "sample_packet =
     \<lparr>np_decode_dcid = (\<lambda>d. if d = [] then None else Some [hd d]), np_accept = (\<lambda>d. d \<noteq> [] \<and> hd d = 1)\<rparr>"

definition sample_config :: config where
  "sample_config =
     \<lparr>cf_dropping = False, cf_disable_gso = False, cf_ngtcp2 = sample_ngtcp2, cf_packet = sample_packet\<rparr>"

definition sample_received :: "received list" where
  "sample_received =
     [\<lparr>rx_data = replicate 22 1, rx_remote = 6, rx_addressed = True, rx_gro_size = 0, rx_dropped = (\<lambda>i. False)\<rparr>]"

text \<open>A connection that is open, and the same in its closing period, with a datagram waiting for it.\<close>

definition sample_open :: server_session where
  "sample_open = (new_session False)\<lparr>qc_conn := True, qc_timer := Expiry_timer 2\<rparr>"

definition sample_closing :: server_session where
  "sample_closing =
     sample_open\<lparr>qc_closing := True, qc_closed := True, qc_timer := Close_timer 15, qc_sent := [[7]], ss_closebuf := [7],
       qc_jobs := [Batch \<lparr>ba_is_new = False, ba_datagrams = [\<lparr>dg_remote = 6, dg_data = [1]\<rparr>]\<rparr>]\<rparr>"

definition sample_server :: "server_session \<Rightarrow> quic_server" where
  "sample_server s =
     \<lparr>qv_sessions = Map.empty([1] \<mapsto> 0), qv_object = (\<lambda>h. s), qv_next = 1, qv_destroyed = False\<rparr>"

lemmas sample_defs =
  sample_net_def sample_close_def sample_read_def sample_flush_def sample_job_def sample_ngtcp2_def
  sample_packet_def sample_config_def sample_received_def sample_open_def sample_closing_def sample_server_def
  new_session_def ccerr_default_def

lemma qv_run_one: "enabled e v \<Longrightarrow> qv_run cf [e] v (qv_apply cf e v)"
  using qv_run.snoc [OF qv_run.nil, of e v cf] by simp

lemma sample_first:
  defines "v \<equiv> qv_apply sample_config (Receive sample_received) qv_start"
  shows "qv_sessions v [1] = Some 0" "\<not> qv_destroyed v" "qv_next v = 1"
proof -
  have "surviving (hd sample_received) = [replicate 22 1]"
    by (simp add: surviving_def sample_received_def split_gro_def segments_one Let_def)
  then show "qv_sessions v [1] = Some 0" "\<not> qv_destroyed v" "qv_next v = 1" unfolding v_def
    by (simp_all add: qv_apply_def udp_on_read_def receive_pass_eq arrivals_def route_all_def route_def
        sample_config_def sample_packet_def sample_received_def qv_start_def Let_def)
qed

section \<open>Properties\<close>

text \<open>C33: once a connection of the server is closed, it stays closed, and whatever happens from then on - datagrams, timers,
  wake-ups, the end of the server - nothing leaves for its peer but copies of the one \<^verbatim>\<open>CONNECTION_CLOSE\<close> it has
  written.
\<close>
theorem quic_closed_is_quiet:
  assumes "qv_run cf es v w" "h < qv_next v" "qc_closed (qv_object v h)"
  shows "qc_closed (qv_object w h) \<and>
    (\<exists>k. qc_sent (qv_object w h) = qc_sent (qv_object v h) @ replicate k (ss_closebuf (qv_object v h)))"
  using qv_run_subdued [OF assms(1,2)] assms(3) by (simp add: subdued_def)


theorem quic_closed_is_quiet_witness:
  "qc_closed (qv_object (qv_apply sample_config (Run 0 sample_job) (sample_server sample_closing)) 0) \<and>
   (\<exists>k. qc_sent (qv_object (qv_apply sample_config (Run 0 sample_job) (sample_server sample_closing)) 0) =
      [[7]] @ replicate k [7])"
proof -
  have "enabled (Run 0 sample_job) (sample_server sample_closing)" by (simp add: enabled_def sample_defs)
  from quic_closed_is_quiet [OF qv_run_one [OF this, of sample_config], of 0]
  show ?thesis by (simp add: sample_server_def sample_closing_def)
qed

text \<open>During the closing period the server answers every datagram that arrives for the connection with the one
  \<^verbatim>\<open>CONNECTION_CLOSE\<close> it has written, and does nothing else; during the draining period it says nothing at all.
\<close>
theorem quic_closing_period:
  assumes "qc_conn s" "qc_closed s" "\<not> ba_is_new b" "\<forall>i. accepting (bt_resend a i)"
    "qc_closing s \<longrightarrow> ss_closebuf s \<noteq> []"
  shows "process_quic_batch False ng a b s =
    (if qc_closing s
     then s\<lparr>qc_sent := qc_sent s @ replicate (length (ba_datagrams b)) (ss_closebuf s)\<rparr> else s)"
proof -
  have "feed False ng a i ds ok s = (ok, if qc_closing s
      then s\<lparr>qc_sent := qc_sent s @ replicate (length ds) (ss_closebuf s)\<rparr> else s)"
    if "qc_conn s" "qc_closed s" "qc_closing s \<longrightarrow> ss_closebuf s \<noteq> []" for i ds ok s
    using that
  proof (induction ds arbitrary: i s)
    case (Cons d ds)
    have acc: "accepting ((bt_resend a i)\<lparr>nt_wire := []\<rparr>)" using assms(4) by (simp add: accepting_def)
    obtain n' where "send_udp False (ss_closebuf s) ((bt_resend a i)\<lparr>nt_wire := []\<rparr>) = (0, n')"
      "nt_wire n' = [ss_closebuf s]"
      by (rule send_udp_accepting [OF acc, of "ss_closebuf s"]) simp
    then have r: "resend_conn_close False (bt_resend a i) s = s\<lparr>qc_sent := qc_sent s @ [ss_closebuf s]\<rparr>"
      if "qc_closing s" using that Cons.prems(3) by (simp add: resend_conn_close_def ss_send_udp_eq)
    show ?case
    proof (cases "qc_closing s")
      case True
      define t where "t = s\<lparr>qc_sent := qc_sent s @ [ss_closebuf s]\<rparr>"
      have "feed False ng a i (d # ds) ok s = feed False ng a (i + 1) ds ok t"
        using True Cons.prems(1) r by (simp add: t_def)
      also have "\<dots> = (ok, t\<lparr>qc_sent := qc_sent t @ replicate (length ds) (ss_closebuf t)\<rparr>)"
        using Cons.IH [of t "i + 1"] Cons.prems True by (simp add: t_def)
      finally show ?thesis using True by (simp add: t_def)
    next
      case False
      then show ?thesis using Cons.IH [of s "i + 1"] Cons.prems by simp
    qed
  qed simp
  from this [OF assms(1,2,5)] show ?thesis
    using assms(2,3) by (simp add: process_quic_batch_def flush_batch_def)
qed

theorem quic_closing_period_witness:
  "process_quic_batch False sample_ngtcp2 (ja_batch sample_job)
     \<lparr>ba_is_new = False, ba_datagrams = [\<lparr>dg_remote = 6, dg_data = [1]\<rparr>, \<lparr>dg_remote = 6, dg_data = [2]\<rparr>]\<rparr>
     sample_closing =
   sample_closing\<lparr>qc_sent := [[7], [7], [7]]\<rparr>"
  by (subst quic_closing_period) (simp_all add: sample_defs accepting_def)



text \<open>The timer of a session takes it out of the table: an idle connection is forgotten on the spot, its streams fail
  with \<open>connection_reset\<close> and nothing is sent, and at the end of its closing or draining period so is a closed one.
\<close>
theorem quic_timer_takes_out:
  assumes "qc_timer s = Close_timer d \<or>
      qc_timer s = Expiry_timer d \<and> \<not> qc_closed s \<and> ea_rv e = Some Err_idle_close \<and> ea_upcalls e = []"
    "cc_type (ng_liberr (cf_ngtcp2 cf) Err_idle_close) = Cc_idle_close" "qv_object v h = s" "qc_demux s = []"
  shows "let w = qv_apply cf (Timer h e a) v; t = qv_object w h in
    (\<forall>c. qv_sessions w c \<noteq> Some h) \<and> (\<forall>c k. k \<noteq> h \<longrightarrow> (qv_sessions w c = Some k \<longleftrightarrow> qv_sessions v c = Some k)) \<and>
    ss_done t \<and> qc_timer t = Unarmed \<and> qc_sent t = qc_sent s \<and>
    qc_failed t = qc_failed s @ (if qc_timer s = Close_timer d then [] else [Connection_reset])"
proof -
  define t where "t = fire_timer (cf_dropping cf) (cf_ngtcp2 cf) e a s"
  have t: "qc_demux t = [Erase]" "ss_done t" "qc_timer t = Unarmed" "qc_sent t = qc_sent s"
    "qc_failed t = qc_failed s @ (if qc_timer s = Close_timer d then [] else [Connection_reset])"
    using assms(1,2,4)
    by (auto simp: t_def fire_timer_def signal_done_def call_demux_def handle_expiry_def do_upcalls_def deref_conn_def
        server_handle_error_def qc_fail_streams_def Let_def)
  have w: "qv_apply cf (Timer h e a) v = commit h t v" using assms(3) by (simp add: qv_apply_def t_def)
  show ?thesis unfolding w Let_def commit_def using t
    by (auto simp: do_demux_def erase_quic_session_def)
qed

theorem quic_timer_takes_out_witness:
  "qv_sessions (qv_apply sample_config (Timer 0 \<lparr>ea_upcalls = [], ea_rv = Some Err_idle_close\<rparr> sample_flush)
     (sample_server sample_open)) [1] \<noteq> Some 0"
  using quic_timer_takes_out [of sample_open 2 "\<lparr>ea_upcalls = [], ea_rv = Some Err_idle_close\<rparr>" sample_config
      "sample_server sample_open" 0 sample_flush]
  by (simp add: sample_defs Let_def)

text \<open>The write loop is woken once at a time: in every run, at most one flush is on the executor of a session, and
  \<open>write_posted_\<close> says whether one is.
\<close>
theorem quic_one_flush_at_a_time:
  assumes "qv_run cf es qv_start v"
  shows "count_list (qc_jobs (qv_object v h)) Flush_job = (if qc_posted (qv_object v h) then 1 else 0)"
  using qv_run_coalesced [OF assms qv_start_coalesced] by (simp add: all_coalesced_def coalesced_def)

theorem quic_one_flush_at_a_time_witness:
  "let v = qv_apply sample_config (Woken 0) (qv_apply sample_config (Woken 0)
             (qv_apply sample_config (Receive sample_received) qv_start))
   in count_list (qc_jobs (qv_object v 0)) Flush_job = (if qc_posted (qv_object v 0) then 1 else 0)"
proof -
  define v where "v = qv_apply sample_config (Receive sample_received) qv_start"
  define w where "w = qv_apply sample_config (Woken 0) v"
  have "qv_run sample_config [Receive sample_received] qv_start v"
    unfolding v_def by (rule qv_run_one) (simp add: enabled_def)
  moreover have "qv_next v = 1" unfolding v_def by (rule sample_first(3))
  moreover from this have "0 < qv_next w" using qv_apply_next [of v sample_config "Woken 0"] by (simp add: w_def)
  ultimately have "qv_run sample_config ([Receive sample_received] @ [Woken 0]) qv_start w"
    unfolding w_def by (intro qv_run.snoc) (simp_all add: enabled_def)
  then have "qv_run sample_config (([Receive sample_received] @ [Woken 0]) @ [Woken 0]) qv_start
      (qv_apply sample_config (Woken 0) w)"
    using \<open>0 < qv_next w\<close> by (intro qv_run.snoc) (simp_all add: enabled_def)
  from quic_one_flush_at_a_time [OF this, of 0] show ?thesis by (simp only: Let_def v_def w_def)
qed

text \<open>C12: datagrams go where they belong. One pass of the receive path hands a session that is in the table exactly the
  datagrams with one of its connection IDs, in the order they arrived. For an unknown connection ID it makes one session,
  with the first datagram that ngtcp2 accepts as the start of a connection, and everything that arrives for that ID from
  there on is in its first batch; without such a datagram it makes none.
\<close>
theorem quic_datagrams_routed:
  fixes ms :: "received list" and np :: ng_packet and g :: bool
  assumes "\<forall>c h. qv_sessions v c = Some h \<longrightarrow> h < qv_next v" "h < qv_next v" "qv_sessions v c = None"
  defines "as \<equiv> arrivals (take 32 ms)" and "w \<equiv> udp_on_read g np ms v"
  shows "(let ds = map to_datagram (filter (\<lambda>a. \<exists>c. np_decode_dcid np (snd a) = Some c \<and> qv_sessions v c = Some h) as)
      in qc_jobs (qv_object w h) = qc_jobs (qv_object v h) @
           (if ds = [] then [] else [Batch \<lparr>ba_is_new = False, ba_datagrams = ds\<rparr>])) \<and>
    (let ds = map to_datagram (from_initial np c as)
      in if ds = [] then qv_sessions w c = None
         else \<exists>k \<ge> qv_next v. qv_sessions w c = Some k \<and>
                qv_object w k = run_later (Batch \<lparr>ba_is_new = True, ba_datagrams = ds\<rparr>) (new_session g))"
proof -
  define x where "x = route_all np as (pass_start (qv_sessions v) (qv_next v))"
  define made where
    "made = (\<lambda>h. if qv_next v \<le> h \<and> h < dx_next x then new_session g else qv_object v h)"
  have w: "qv_sessions w = dx_sessions x" "qv_object w = post_batches (dx_batches x) made"
    by (simp_all add: w_def udp_on_read_def x_def made_def as_def receive_pass_eq pass_start_def Let_def)
  have ok: "dx_ok (qv_sessions v) (qv_next v) x" unfolding x_def by (rule dx_ok_route_all [OF assms(1)])
  note obj = post_batches_eq [OF dx_okD(2) [OF ok], of made, folded w(2)]
  have nonempty: "batch_of (dx_batches x) k = [] \<longleftrightarrow> map_of (dx_batches x) k = None" for k
    unfolding x_def by (rule batch_nonempty [OF assms(1)])
  have batch: "map_of (dx_batches x) k =
      (if batch_of (dx_batches x) k = [] then None
       else Some \<lparr>ba_is_new = (qv_next v \<le> k), ba_datagrams = batch_of (dx_batches x) k\<rparr>)" for k
    using nonempty [of k] dx_okD(5) [OF ok, of k] by (auto simp: batch_of_def split: option.split)
  have "qc_jobs (qv_object w h) = qc_jobs (qv_object v h) @ (if batch_of (dx_batches x) h = [] then []
      else [Batch \<lparr>ba_is_new = False, ba_datagrams = batch_of (dx_batches x) h\<rparr>])"
    using assms(2) by (simp add: obj batch made_def run_later_def)
  moreover have "if from_initial np c as = [] then qv_sessions w c = None
      else \<exists>k \<ge> qv_next v. qv_sessions w c = Some k \<and> qv_object w k =
             run_later (Batch \<lparr>ba_is_new = True, ba_datagrams = map to_datagram (from_initial np c as)\<rparr>) (new_session g)"
  proof (cases "from_initial np c as = []")
    case True
    then show ?thesis using route_unknown [OF assms(1,3), of np as] by (simp add: w x_def)
  next
    case False
    then obtain k where k: "qv_next v \<le> k" "dx_sessions x c = Some k"
      "batch_of (dx_batches x) k = map to_datagram (from_initial np c as)"
      using route_unknown [OF assms(1,3), of np as] by (auto simp: x_def)
    have "k < dx_next x" using dx_okD(4) [OF ok k(2)] assms(3) by simp
    then show ?thesis using False k by (auto simp: w(1) obj batch made_def)
  qed
  ultimately show ?thesis using route_known [OF assms(1,2), of np as] by (simp add: x_def Let_def)
qed

theorem quic_datagrams_routed_witness:
  "qc_jobs (qv_object (udp_on_read False sample_packet sample_received (sample_server sample_open)) 0) =
     [Batch \<lparr>ba_is_new = False, ba_datagrams = [\<lparr>dg_remote = 6, dg_data = replicate 22 1\<rparr>]\<rparr>] \<and>
   qv_sessions (udp_on_read False sample_packet sample_received (sample_server sample_open)) [2] = None"
proof -
  have "surviving (hd sample_received) = [replicate 22 1]"
    by (simp add: surviving_def sample_received_def split_gro_def segments_one Let_def)
  then have "arrivals (take 32 sample_received) = [(6, replicate 22 1)]"
    by (simp add: arrivals_def sample_received_def)
  then show ?thesis
    using quic_datagrams_routed [where v = "sample_server sample_open" and h = 0 and c = "[2]" and
        ms = sample_received and g = False and np = sample_packet]
    by (simp add: sample_server_def sample_open_def new_session_def sample_packet_def from_initial_def
        addressed_to_def to_datagram_def)
qed

text \<open>C34: segmentation offload changes nothing on the wire. As long as the operating system takes what it is given, the same
  datagrams leave, in the same order, whether the packets of a write pass are handed over one by one, all at once with
  \<open>UDP_SEGMENT\<close>, or one by one because the kernel rejected \<open>UDP_SEGMENT\<close> first, which is then not tried again. Together
  they are the bytes of the pass, none is empty or longer than \<open>gso_size\<close>, and all but the last are that long.
\<close>
theorem quic_offload_changes_nothing:
  assumes "0 < gso_size" "gso_size < 65536" "set rs \<subseteq> {Sent, Interrupted}"
    "n = \<lparr>nt_drops = [], nt_results = (if rejected then replicate k Interrupted @ [Rejected] else []) @ rs,
          nt_wire = []\<rparr>"
    "rejected \<longrightarrow> \<not> no_gso \<and> gso_size < length data"
  shows "\<exists>n'. send_datagrams False no_gso data gso_size n = (0, no_gso \<or> rejected, n') \<and>
    nt_wire n' = segments gso_size data \<and> concat (nt_wire n') = data \<and>
    (\<forall>p \<in> set (nt_wire n'). p \<noteq> [] \<and> length p \<le> gso_size) \<and>
    (\<forall>p \<in> set (butlast (nt_wire n')). length p = gso_size)"
proof -
  have "\<exists>n'. send_datagrams False no_gso data gso_size n = (0, no_gso \<or> rejected, n') \<and>
    nt_wire n' = segments gso_size data"
  proof (cases rejected)
    case True
    define m where "m = \<lparr>nt_drops = [], nt_results = rs, nt_wire = []\<rparr>"
    have "sendmsg x n = (Rejected, m)" for x using True by (simp add: sendmsg_def assms(4) m_def)
    moreover have "accepting m" using assms(3) by (simp add: accepting_def m_def)
    then obtain n' where "send_each False (segments gso_size data) m = (0, n')"
      "nt_wire n' = segments gso_size data"
      using send_each_accepting by (force simp: m_def)
    ultimately show ?thesis using True assms(5) by (simp add: send_datagrams_def)
  next
    case False
    then have acc: "accepting n" "nt_wire n = []" using assms(3,4) by (simp_all add: accepting_def)
    obtain n' where n': "send_each False (segments gso_size data) n = (0, n')" "nt_wire n' = segments gso_size data"
      using send_each_accepting [OF acc(1)] acc(2) by force
    obtain n'' where n'': "sendmsg (segments gso_size data) n = (Sent, n'')" "nt_wire n'' = segments gso_size data"
      by (rule sendmsg_accepting [OF acc(1), of "segments gso_size data"]) (simp add: acc(2))
    show ?thesis using False n' n'' udp_segment_eq [OF assms(1,2), of data] by (simp add: send_datagrams_def)
  qed
  then show ?thesis using concat_segments [OF assms(1)] segments_bound segments_full by fastforce
qed

theorem quic_offload_changes_nothing_witness:
  "\<exists>n'. send_datagrams False False [1, 2, 3, 4, 5] 2
     \<lparr>nt_drops = [], nt_results = [Interrupted, Rejected, Interrupted, Sent], nt_wire = []\<rparr> = (0, True, n') \<and>
     nt_wire n' = segments 2 [1, 2, 3, 4, 5]"
  using quic_offload_changes_nothing [of 2 "[Interrupted, Sent]"
      "\<lparr>nt_drops = [], nt_results = [Interrupted, Rejected, Interrupted, Sent], nt_wire = []\<rparr>" True 1 False
      "[1, 2, 3, 4, 5]"]
  by auto

text \<open>the server's preference decides. Of the names the client offers in the wire format of RFC 7301, the callback picks
  the one whose application was registered first, and that application is installed on the session; if none is
  registered, the handshake fails and the session is left alone. A second hello, after a retry, has to lead to the same
  choice.
\<close>
theorem quic_alpn_server_preference:
  assumes "\<forall>(a, f) \<in> set apps. a \<noteq> []" "\<forall>a \<in> set names. length a < 256"
  shows "alpn_select_cb apps (encode_offer names) (Some s) =
    (case find (\<lambda>(a, f). a \<in> set names) apps of
       None \<Rightarrow> (None, Some s)
     | Some (a, f) \<Rightarrow>
         if se_application s = None then (Some a, Some (s\<lparr>se_alpn := a, se_application := Some f\<rparr>))
         else (if a = se_alpn s then Some a else None, Some s))"
proof -
  have "a \<noteq> []" if "find (\<lambda>(a, f). a \<in> set names) apps = Some (a, f)" for a f
    using that assms(1) by (auto simp: find_Some_iff) (metis (mono_tags, lifting) case_prodD nth_mem)
  then show ?thesis
    using choose_alpn_eq [OF assms(1), of names] offered_encode [OF assms(2)]
    by (auto simp: alpn_select_cb_def select_application_def split: option.split)
qed

theorem quic_alpn_server_preference_witness:
  "alpn_select_cb [([104, 51], True), ([113], False)] (encode_offer [[113], [104, 51]])
     (Some \<lparr>se_alpn = [], se_application = None\<rparr>) =
   (Some [104, 51], Some \<lparr>se_alpn = [104, 51], se_application = Some True\<rparr>)"
  by (subst quic_alpn_server_preference) simp_all

section \<open>Where sessions are left behind\<close>

text \<open>What the session itself, its timer, its peer and its application can do; ngtcp2 does not retire connection IDs of
  a connection that is over.\<close>

fun own_event :: "nat \<Rightarrow> event \<Rightarrow> bool" where
  "own_event h (Receive ms) = True"
| "own_event h (Run k a) = (k = h)"
| "own_event h (Timer k e a) = (k = h \<and> ea_upcalls e = [])"
| "own_event h (Woken k) = (k = h)"
| "own_event h (Close_requested k c) = (k = h)"
| "own_event h _ = False"

text \<open>In the table, closed, and without the timer that would take it out.\<close>

definition stranded :: "nat \<Rightarrow> cid \<Rightarrow> quic_server \<Rightarrow> bool" where
  "stranded h c v \<longleftrightarrow>
     qv_sessions v c = Some h \<and> h < qv_next v \<and> (\<forall>c k. qv_sessions v c = Some k \<longrightarrow> k < qv_next v) \<and>
     qc_closed (qv_object v h) \<and> \<not> lingering (qv_object v h) \<and> no_new (qc_jobs (qv_object v h)) \<and>
     qc_demux (qv_object v h) = []"

lemma stranded_commit:
  assumes "stranded h c v" "qc_closed s" "\<not> lingering s" "no_new (qc_jobs s)" "qc_demux s = []"
  shows "stranded h c (commit h s v)"
  using assms by (auto simp: stranded_def commit_def)

lemma stranded_job:
  assumes "qc_closed s" "\<not> lingering s" "no_new (qc_jobs s)" "qc_demux s = []"
  shows "qc_closed (run_job d ng a s)" "\<not> lingering (run_job d ng a s)" "no_new (qc_jobs (run_job d ng a s))"
    "qc_demux (run_job d ng a s) = []"
proof -
  have "qc_closed (run_job d ng a s) \<and> qc_timer (run_job d ng a s) = qc_timer s \<and>
    qc_demux (run_job d ng a s) = [] \<and> no_new (qc_jobs (run_job d ng a s))"
  proof (cases "qc_jobs s")
    case (Cons j js)
    let ?s = "s\<lparr>qc_jobs := js\<rparr>"
    have j: "\<not> is_new_batch j" "no_new js" "qc_closed ?s" using assms(1,3) Cons by simp_all
    show ?thesis
    proof (cases j)
      case (Batch b)
      then have "\<not> ba_is_new b" using j(1) by simp
      from closed_batch [OF j(3) this, of d ng "ja_batch a"] posts_no_new [OF process_quic_batch_posts, of ?s]
      show ?thesis using Cons Batch assms(4) j(2) by (simp add: run_job_def)
    qed (use Cons assms j in \<open>simp_all add: run_job_def run_flush_def run_close_connection_def\<close>)
  qed (use assms in \<open>simp add: run_job_def\<close>)
  then show "qc_closed (run_job d ng a s)" "\<not> lingering (run_job d ng a s)" "no_new (qc_jobs (run_job d ng a s))"
    "qc_demux (run_job d ng a s) = []" using assms(2) by (auto simp: lingering_def assms(1))
qed

lemma stranded_timer:
  assumes "qc_closed s" "\<not> lingering s" "ea_upcalls e = []"
  shows "fire_timer d ng e a s = (case ea_rv e of
      Some x \<Rightarrow> (if qc_timer s = Unarmed then s else (deref_conn (s\<lparr>qc_timer := Unarmed\<rparr>))\<lparr>qc_error := ng_liberr ng x\<rparr>)
    | None \<Rightarrow> if qc_timer s = Unarmed then s else deref_conn (s\<lparr>qc_timer := Unarmed\<rparr>))"
  using assms
  by (cases "qc_timer s")
    (auto simp: fire_timer_def handle_expiry_def do_upcalls_def lingering_def server_handle_error_def flush_write_def
      deref_conn_def Let_def split: option.split)

lemma stranded_receive:
  assumes "stranded h c v" shows "stranded h c (udp_on_read g np ms v)"
proof -
  have t: "\<forall>c k. qv_sessions v c = Some k \<longrightarrow> k < qv_next v" and h: "h < qv_next v" "qv_sessions v c = Some h"
    using assms by (simp_all add: stranded_def)
  define x where "x = route_all np (arrivals (take 32 ms)) (pass_start (qv_sessions v) (qv_next v))"
  define w where "w = udp_on_read g np ms v"
  have ok: "dx_ok (qv_sessions v) (qv_next v) x" unfolding x_def by (rule dx_ok_route_all [OF t])
  note dx = dx_okD [OF ok]
  have w: "qv_sessions w = dx_sessions x" "qv_next w = dx_next x"
    "qv_object w h = (case map_of (dx_batches x) h of None \<Rightarrow> qv_object v h | Some b \<Rightarrow> run_later (Batch b) (qv_object v h))"
    using h(1) dx(1)
    by (simp_all add: w_def udp_on_read_def x_def [symmetric] receive_pass_eq pass_start_def [symmetric] Let_def
        post_batches_eq [OF dx(2)])
  have "no_new (qc_jobs (qv_object w h))" using assms h(1) dx(5) [of h]
    by (auto simp: stranded_def w(3) run_later_def split: option.split)
  moreover have "k < dx_next x" if "dx_sessions x b = Some k" for b k
    using dx(1,4) that t by (meson less_le_trans)
  ultimately show ?thesis unfolding w_def [symmetric]
    using assms dx(1,3) h by (auto simp: stranded_def w lingering_def run_later_def split: option.split)
qed

lemma stranded_step:
  assumes "stranded h c v" "own_event h e" shows "stranded h c (qv_apply cf e v)"
proof -
  define s where "s = qv_object v h"
  have s: "qc_closed s" "\<not> lingering s" "no_new (qc_jobs s)" "qc_demux s = []"
    using assms(1) by (simp_all add: stranded_def s_def)
  show ?thesis
  proof (cases e)
    case (Timer k x a)
    have "qc_closed (fire_timer d ng x a s)" "\<not> lingering (fire_timer d ng x a s)"
      "no_new (qc_jobs (fire_timer d ng x a s))" "qc_demux (fire_timer d ng x a s) = []" for d ng
      using s assms(2) Timer
      by (auto simp: stranded_timer deref_conn_def lingering_def split: option.split)
    then show ?thesis using Timer assms stranded_commit by (simp add: qv_apply_def s_def)
  next
    case (Run k a)
    then show ?thesis using stranded_job [OF s] assms stranded_commit by (simp add: qv_apply_def s_def)
  next
    case (Woken k)
    have "qc_closed (wake_write s)" "\<not> lingering (wake_write s)" "no_new (qc_jobs (wake_write s))"
      "qc_demux (wake_write s) = []"
      using s by (auto simp: wake_write_def run_later_def lingering_def)
    then show ?thesis using Woken assms stranded_commit by (simp add: qv_apply_def s_def)
  next
    case (Close_requested k y)
    have "qc_closed (close_connection y s)" "\<not> lingering (close_connection y s)"
      "no_new (qc_jobs (close_connection y s))" "qc_demux (close_connection y s) = []"
      using s by (auto simp: close_connection_def run_later_def lingering_def)
    then show ?thesis using Close_requested assms stranded_commit by (simp add: qv_apply_def s_def)
  qed (use assms stranded_receive in \<open>auto simp: qv_apply_def\<close>)
qed

lemma stranded_run: "qv_run cf es v x \<Longrightarrow> stranded h c v \<Longrightarrow> \<forall>e \<in> set es. own_event h e \<Longrightarrow> stranded h c x"
  by (induction rule: qv_run.induct) (auto intro: stranded_step)

text \<open>C35: what is left when no \<^verbatim>\<open>CONNECTION_CLOSE\<close> can be written. The application closes an open connection, and ngtcp2
  gives no packet: the session is closed and reported as done, but it keeps its place in the table of connection IDs,
  and nothing that the session, its timer, its peer or its application does afterwards takes it out.
\<close>
theorem quic_unwritable_close_leaks:
  assumes "table_ok v" "qv_sessions v c = Some h" "qv_object v h = s" "opened s" "\<not> qc_closing s" "\<not> qc_draining s"
    "qc_jobs s = Close_job code # js" "ca_packet (ja_close a) = []"
    "cc_type (ng_app_error (cf_ngtcp2 cf) code) = Cc_application"
  defines "w \<equiv> qv_apply cf (Run h a) v"
  shows "qc_closed (qv_object w h) \<and> ss_done (qv_object w h) \<and>
    (\<forall>es x. qv_run cf es w x \<longrightarrow> (\<forall>e \<in> set es. own_event h e) \<longrightarrow> qv_sessions x c = Some h)"
proof -
  define t where "t = run_job (cf_dropping cf) (cf_ngtcp2 cf) a s"
  note tok = table_okD [OF assms(1)]
  have h: "h < qv_next v" using tok(3) assms(2) by blast
  have "sound s" "qc_demux s = []" using tok(1,2) [OF h] assms(3) by simp_all
  then have s: "armed s" "no_new js" "qc_demux s = []" using assms(4,7)
    by (auto simp: sound_def standing_defs unborn_def)
  then have t: "qc_closed t" "ss_done t" "qc_timer t = qc_timer s" "qc_jobs t = js" "qc_demux t = []"
    using assms(4-9)
    by (simp_all add: t_def run_job_def run_close_connection_def set_application_error_def server_handle_error_def
        qc_fail_streams_def write_connection_close_def signal_done_def opened_def Let_def)
  have w: "w = commit h t v" by (simp add: w_def qv_apply_def t_def assms(3))
  have "stranded h c w" unfolding w stranded_def
    using t s h assms(2) tok(3) by (auto simp: commit_def standing_defs split: timer.splits)
  then have "\<forall>es x. qv_run cf es w x \<longrightarrow> (\<forall>e \<in> set es. own_event h e) \<longrightarrow> qv_sessions x c = Some h"
    using stranded_run by (fastforce simp: stranded_def)
  then show ?thesis using t(1,2) by (simp add: w commit_def)
qed

theorem quic_unwritable_close_leaks_witness:
  "qc_closed (qv_object (qv_apply sample_config
       (Run 0 (sample_job\<lparr>ja_close := sample_close\<lparr>ca_packet := []\<rparr>\<rparr>))
       (sample_server (sample_open\<lparr>qc_jobs := [Close_job 3]\<rparr>))) 0)"
proof -
  let ?s = "sample_open\<lparr>qc_jobs := [Close_job 3]\<rparr>"
  have "table_ok (sample_server ?s)"
    by (auto simp: table_ok_def sample_defs sound_def standing_defs split: if_splits)
  from quic_unwritable_close_leaks [OF this, of "[1]" 0 ?s 3 "[]"
      "sample_job\<lparr>ja_close := sample_close\<lparr>ca_packet := []\<rparr>\<rparr>" sample_config]
  show ?thesis by (simp add: sample_defs opened_def)
qed

text \<open>C36: what is left when sending fails. The expiry timer of an open connection fires, ngtcp2 has a packet to retransmit,
  and \<open>sendmsg()\<close> reports an error other than \<open>EAGAIN\<close>: the connection stays open, but its timer is not armed again, so
  that neither the retransmission nor the idle timeout will ever happen unless the peer or the application moves first.
\<close>
theorem quic_failed_send_stalls:
  assumes "opened s" "\<not> qc_closing s" "\<not> qc_draining s" "qc_timer s = Expiry_timer d" "qc_jobs s = []"
    "ea_rv e = None" "ea_upcalls e = []" "fa_upcalls a = []" "fa_result a = Inr data" "data \<noteq> []" "fa_gso_size a = 0"
    "nt_results (fa_net a) = [Failed]"
  shows "let t = fire_timer False ng e a s in
    \<not> qc_closed t \<and> qc_timer t = Unarmed \<and> qc_jobs t = [] \<and> qc_demux t = qc_demux s"
proof -
  have "send_udp False data ((fa_net a)\<lparr>nt_wire := []\<rparr>) = (- 1, (fa_net a)\<lparr>nt_wire := [], nt_results := []\<rparr>)"
    using assms(12) by (simp add: send_udp_def drop_packet_def sendmsg_def)
  then have "fst (send_datagrams False g data (length data) ((fa_net a)\<lparr>nt_wire := []\<rparr>)) = - 1" for g
    using assms(10) by (simp add: send_datagrams_def segments_one)
  then obtain g n where
    "send_datagrams False (ss_no_gso s) data (length data) ((fa_net a)\<lparr>nt_wire := []\<rparr>) = (- 1, g, n)"
    by (metis prod.collapse)
  then show ?thesis using assms
    by (auto simp: fire_timer_def handle_expiry_def do_upcalls_def deref_conn_def flush_write_def write_streams_def
        ss_send_datagrams_def opened_def Let_def split: prod.splits)
qed

theorem quic_failed_send_stalls_witness:
  "let t = fire_timer False sample_ngtcp2 \<lparr>ea_upcalls = [], ea_rv = None\<rparr>
             (sample_flush\<lparr>fa_net := sample_net\<lparr>nt_results := [Failed]\<rparr>\<rparr>) sample_open in
    \<not> qc_closed t \<and> qc_timer t = Unarmed \<and> qc_jobs t = [] \<and> qc_demux t = qc_demux sample_open"
  by (rule quic_failed_send_stalls [where d = 2 and data = "[3]"]) (simp_all add: sample_defs opened_def)

end
