(* ===== verification/Quic_Client.thy ===== *)
theory Quic_Client
  imports Quic_Role
begin

text \<open>
  The QUIC client, \<^verbatim>\<open>src/quic/client.cpp\<close>: the client's end of a connection (\<open>QuicClientSession\<close>, the role of the
  client), the receive loop that feeds it, and \<open>async_connect()\<close>, which tries one endpoint after the other.

  A connection of the client has a socket of its own, and one coroutine, \<open>do_session()\<close>, that waits for datagrams on it.
  Cancelling the socket ends a receive that is under way and has no effect on one that is started afterwards, which is
  why the state says where the coroutine is.
\<close>

section \<open>The session\<close>

datatype client_phase = Starting | Receiving | Busy | Finished

text \<open>What \<open>io::send()\<close> answers, one entry per call; past the end of a list every call succeeds.\<close>

datatype io_result = Io_ok | Io_refused | Io_would_block | Io_error

type_synonym io = "io_result list"

record client_session = quic_session +
  cl_ready :: bool
  cl_phase :: client_phase
  cl_canceled :: bool

definition new_client :: client_session where
  "new_client =
     \<lparr>qc_conn = True, qc_closing = False, qc_draining = False, qc_closed = False, qc_error = ccerr_default,
      qc_posted = False, qc_timer = Unarmed, qc_application = True, qc_ready = False, qc_jobs = [],
      qc_failed = [], qc_sent = [], qc_demux = [], qc_fault = False,
      cl_ready = False, cl_phase = Starting, cl_canceled = False\<rparr>"

definition signal_ready :: "client_session \<Rightarrow> client_session" where
  "signal_ready s = s\<lparr>cl_ready := True\<rparr>"

text \<open>\<open>io::cancel(socket_)\<close>.\<close>

definition cancel_socket :: "client_session \<Rightarrow> client_session" where
  "cancel_socket s = (if cl_phase s = Receiving then s\<lparr>cl_canceled := True\<rparr> else s)"

text \<open>The loop of \<open>send_datagrams()\<close>: what was sent, and whether the peer's port turned out to be unreachable.\<close>

fun send_segments :: "bytes list \<Rightarrow> io \<Rightarrow> bytes list \<times> bool" where
  "send_segments [] rs = ([], False)"
| "send_segments (p # ps) [] = (p # ps, False)"
| "send_segments (p # ps) (r # rs) =
     (case r of
        Io_refused \<Rightarrow> ([], True)
      | Io_error \<Rightarrow> ([], False)
      | Io_would_block \<Rightarrow> send_segments ps rs
      | Io_ok \<Rightarrow> (let (sent, refused) = send_segments ps rs in (p # sent, refused)))"

text \<open>\<open>close()\<close> sends its packet with \<open>send_datagrams()\<close>, which calls \<open>close()\<close> again when the port is unreachable; by
  then the session is closed, and that call has no effect.\<close>

definition client_close :: "io close_ans \<Rightarrow> client_session \<Rightarrow> client_session" where
  "client_close a s =
     (if qc_closed s then s
      else let s = qc_fail_streams Connection_reset (s\<lparr>qc_closed := True\<rparr>);
               silent = (cc_type (qc_error s) = Cc_idle_close \<or> cc_type (qc_error s) = Cc_drop_conn);
               s = (if qc_conn s \<and> \<not> silent \<and> \<not> qc_closing s \<and> \<not> qc_draining s
                    then let (packet, s) = write_connection_close a s in
                      if packet \<noteq> [] then s\<lparr>qc_sent := qc_sent s @ fst (send_segments [packet] (ca_net a))\<rparr> else s
                    else s)
           in signal_ready ((cancel_socket s)\<lparr>qc_timer := Unarmed\<rparr>))"

definition client_handle_error :: "io close_ans \<Rightarrow> client_session \<Rightarrow> int \<times> client_session" where
  "client_handle_error a s = (- 1, client_close a s)"

definition client_send_datagrams ::
    "bytes \<Rightarrow> nat \<Rightarrow> io flush_ans \<Rightarrow> client_session \<Rightarrow> int \<times> client_session" where
  "client_send_datagrams data gso_size a s =
     (let (sent, refused) = send_segments (segments gso_size data) (fa_net a);
          s = s\<lparr>qc_sent := qc_sent s @ sent\<rparr>
      in if refused then client_handle_error (fa_close a) s else (0, s))"

definition client_role :: "(client_session, io) role" where
  "client_role =
     \<lparr>vr_handle_error = client_handle_error,
      vr_send_datagrams = client_send_datagrams,
      vr_on_new_cid = (\<lambda>cid s. s),
      vr_on_remove_cid = (\<lambda>cid s. s),
      vr_on_application_ready = signal_ready,
      vr_on_dropped = client_close\<rparr>"

section \<open>The receive loop\<close>

definition client_on_read ::
    "ngtcp2 \<Rightarrow> io read_ans \<Rightarrow> io flush_ans \<Rightarrow> client_session \<Rightarrow> int \<times> client_session" where
  "client_on_read ng ra fa s =
     (let (rv, s) = on_read client_role ng ra s in
      if rv \<noteq> 0 then (- 1, s) else flush_write client_role ng fa s)"

definition receive_again :: "client_session \<Rightarrow> client_session" where
  "receive_again s = s\<lparr>cl_phase := Receiving, cl_canceled := False\<rparr>"

definition leave_loop :: "io close_ans \<Rightarrow> client_session \<Rightarrow> client_session" where
  "leave_loop a s = (client_close a s)\<lparr>cl_phase := Finished\<rparr>"

text \<open>\<open>do_session()\<close>, from one \<open>co_await\<close> to the next.\<close>

definition client_start :: "ngtcp2 \<Rightarrow> io flush_ans \<Rightarrow> client_session \<Rightarrow> client_session" where
  "client_start ng fa s =
     (let (rv, s) = flush_write client_role ng fa s in
      if rv \<noteq> 0 then (signal_ready s)\<lparr>cl_phase := Finished\<rparr> else receive_again s)"

definition client_received ::
    "ngtcp2 \<Rightarrow> io read_ans \<Rightarrow> io flush_ans \<Rightarrow> io close_ans \<Rightarrow> client_session \<Rightarrow> client_session" where
  "client_received ng ra fa ca s =
     (let (rv, s) = client_on_read ng ra fa (s\<lparr>cl_phase := Busy\<rparr>) in
      if rv \<noteq> 0 then leave_loop ca s else if qc_closed s then leave_loop ca s else receive_again s)"

definition client_receive_failed :: "io close_ans \<Rightarrow> client_session \<Rightarrow> client_session" where
  "client_receive_failed ca s = leave_loop ca (s\<lparr>cl_phase := Busy\<rparr>)"

section \<open>Requests\<close>

definition client_async_submit :: "client_session \<Rightarrow> error_code option" where
  "client_async_submit s = (if qc_closed s \<or> \<not> qc_ready s then Some Canceled else None)"

section \<open>Steps\<close>

datatype client_event =
    Cl_start "io flush_ans"
  | Cl_received "io read_ans" "io flush_ans" "io close_ans"
  | Cl_receive_failed "io close_ans"
  | Cl_run "io flush_ans" "io close_ans"
  | Cl_timer "io expiry_ans" "io flush_ans"
  | Cl_woken
  | Cl_close_requested nat
  | Cl_destroy "io close_ans"

definition client_run_job :: "ngtcp2 \<Rightarrow> io flush_ans \<Rightarrow> io close_ans \<Rightarrow> client_session \<Rightarrow> client_session" where
  "client_run_job ng fa ca s =
     (case qc_jobs s of
        [] \<Rightarrow> s
      | j # js \<Rightarrow>
          (case j of
             Flush_job \<Rightarrow> run_flush client_role ng fa (s\<lparr>qc_jobs := js\<rparr>)
           | Close_job code \<Rightarrow> run_close_connection client_role ng code ca (s\<lparr>qc_jobs := js\<rparr>)
           | Batch b \<Rightarrow> s))"

definition client_fire_timer ::
    "ngtcp2 \<Rightarrow> io expiry_ans \<Rightarrow> io flush_ans \<Rightarrow> client_session \<Rightarrow> client_session" where
  "client_fire_timer ng e fa s =
     (if qc_timer s = Unarmed then s else snd (handle_expiry client_role ng e fa (s\<lparr>qc_timer := Unarmed\<rparr>)))"

text \<open>Nothing happens to a session before its coroutine has started: \<open>async_connect()\<close> launches that before it does
  anything else with it, and hands it out only after the handshake, so that there is no handle to drop yet.\<close>

definition client_enabled :: "client_event \<Rightarrow> client_session \<Rightarrow> bool" where
  "client_enabled e s =
     (case e of
        Cl_start fa \<Rightarrow> cl_phase s = Starting \<and> (\<forall>u \<in> set (fa_upcalls fa). case u of Dropped a \<Rightarrow> False | _ \<Rightarrow> True)
      | Cl_received ra fa ca \<Rightarrow> cl_phase s = Receiving
      | Cl_receive_failed ca \<Rightarrow> cl_phase s = Receiving
      | _ \<Rightarrow> cl_phase s \<noteq> Starting)"

definition client_apply :: "ngtcp2 \<Rightarrow> client_event \<Rightarrow> client_session \<Rightarrow> client_session" where
  "client_apply ng e s =
     (case e of
        Cl_start fa \<Rightarrow> client_start ng fa s
      | Cl_received ra fa ca \<Rightarrow> client_received ng ra fa ca s
      | Cl_receive_failed ca \<Rightarrow> client_receive_failed ca s
      | Cl_run fa ca \<Rightarrow> client_run_job ng fa ca s
      | Cl_timer e fa \<Rightarrow> client_fire_timer ng e fa s
      | Cl_woken \<Rightarrow> wake_write s
      | Cl_close_requested code \<Rightarrow> close_connection code s
      | Cl_destroy ca \<Rightarrow> client_close ca s)"

inductive cl_run :: "ngtcp2 \<Rightarrow> client_event list \<Rightarrow> client_session \<Rightarrow> client_session \<Rightarrow> bool" for ng where
  nil: "cl_run ng [] s s"
| snoc: "cl_run ng es s t \<Longrightarrow> client_enabled e t \<Longrightarrow> cl_run ng (es @ [e]) s (client_apply ng e t)"

section \<open>Connecting\<close>

text \<open>What becomes of the attempt to reach one endpoint: \<open>init()\<close> throws or fails, or the wait for the handshake ends,
  with the session ready, or with it not ready and the error of the wait.\<close>

datatype attempt = Init_throws error_code | Init_failed | Ready | Not_ready error_code

text \<open>The outcome is the index of the endpoint that was reached, or the error that is thrown, with the sessions that
  were destroyed on the way.\<close>

fun connect_each :: "nat \<Rightarrow> attempt list \<Rightarrow> (error_code option + nat) \<times> nat list" where
  "connect_each i [] = (Inl None, [])"
| "connect_each i (a # as) =
     (case a of
        Init_throws ec \<Rightarrow> (Inl (Some ec), [])
      | Init_failed \<Rightarrow> connect_each (i + 1) as
      | Ready \<Rightarrow> (Inr i, [])
      | Not_ready ec \<Rightarrow>
          if ec \<noteq> Success then (Inl (Some ec), [i])
          else let (r, destroyed) = connect_each (i + 1) as in (r, i # destroyed))"

datatype connect_error = Host_unreachable | Connection_refused | Thrown error_code

definition async_connect :: "attempt list \<Rightarrow> (connect_error + nat) \<times> nat list" where
  "async_connect as =
     (if as = [] then (Inl Host_unreachable, [])
      else case connect_each 0 as of
        (Inl None, ds) \<Rightarrow> (Inl Connection_refused, ds)
      | (Inl (Some ec), ds) \<Rightarrow> (Inl (Thrown ec), ds)
      | (Inr i, ds) \<Rightarrow> (Inr i, ds))"

end
