(* ===== verification/Quic_Client_Properties.thy ===== *)
theory Quic_Client_Properties
  imports Quic_Client
begin

text \<open>
  The properties of the QUIC client: nobody is left waiting when a connection ends, a closed connection sends nothing, and
  an attempt to connect ends with the first endpoint that answers.
\<close>

section \<open>The client keeps the contract of its role\<close>

lemma client_role_sel [simp]:
  "vr_handle_error client_role = client_handle_error" "vr_send_datagrams client_role = client_send_datagrams"
  "vr_on_new_cid client_role = (\<lambda>cid s. s)" "vr_on_remove_cid client_role = (\<lambda>cid s. s)"
  "vr_on_application_ready client_role = signal_ready" "vr_on_dropped client_role = client_close"
  by (simp_all add: client_role_def)

lemmas client_defs =
  client_close_def client_handle_error_def signal_ready_def cancel_socket_def qc_fail_streams_def
  write_connection_close_def

lemma client_close_keeps:
  "untouched s (client_close a s)" "qc_closed (client_close a s)" "cl_phase (client_close a s) = cl_phase s"
  "qc_ready (client_close a s) = qc_ready s"
  by (auto simp: client_defs untouched_def Let_def)

lemma client_send_cases:
  obtains sent where "client_send_datagrams data k a s = (0, s\<lparr>qc_sent := qc_sent s @ sent\<rparr>)"
  | sent where "client_send_datagrams data k a s = (- 1, client_close (fa_close a) (s\<lparr>qc_sent := qc_sent s @ sent\<rparr>))"
  by (cases "send_segments (segments k data) (fa_net a)"; cases "snd (send_segments (segments k data) (fa_net a))")
    (auto simp: client_send_datagrams_def client_handle_error_def)

interpretation client: quic_role client_role
proof
  fix s :: client_session and data and gso_size and f :: "io flush_ans"
  show "untouched s (snd (vr_send_datagrams client_role data gso_size f s))"
  proof (cases rule: client_send_cases [of data gso_size f s])
    case (1 sent)
    then show ?thesis by (simp add: untouched_def)
  next
    case (2 sent)
    have "untouched s (s\<lparr>qc_sent := qc_sent s @ sent\<rparr>)" by (simp add: untouched_def)
    then show ?thesis using 2 client_close_keeps(1) untouched_trans by simp blast
  qed
qed (simp_all add: client_handle_error_def client_close_keeps, simp_all add: untouched_def signal_ready_def)

section \<open>Nobody waits for a closed connection\<close>

text \<open>Once closed, the event that \<open>async_connect()\<close> waits for is set, the timer is off, and a receive that is under way
  has been cancelled. The phase does not change within an operation.\<close>

definition released :: "client_phase \<Rightarrow> client_session \<Rightarrow> bool" where
  "released p s \<longleftrightarrow>
     cl_phase s = p \<and> (qc_ready s \<longrightarrow> cl_ready s) \<and>
     (qc_closed s \<longrightarrow> cl_ready s \<and> qc_timer s = Unarmed \<and> (p = Receiving \<longrightarrow> cl_canceled s))"

lemma client_close_released: "released p s \<Longrightarrow> released p (client_close a s)"
  by (auto simp: released_def client_defs Let_def)

lemma client_send_released:
  assumes "released p s" shows "released p (snd (client_send_datagrams data k a s))"
proof -
  have "released p (s\<lparr>qc_sent := x\<rparr>)" for x using assms by (simp add: released_def)
  then show ?thesis using client_close_released
    by (cases rule: client_send_cases [of data k a s]) auto
qed

interpretation waiting: role_invariant client_role "released p"
  by unfold_locales
    (simp_all add: client_handle_error_def client_close_released client_send_released,
     auto simp: released_def signal_ready_def)

lemma client_send_outcome:
  "client_send_datagrams data k a s = (rv, t) \<Longrightarrow> rv = 0 \<and> qc_closed t = qc_closed s \<or> rv \<noteq> 0 \<and> qc_closed t"
  using client_close_keeps(2) by (cases rule: client_send_cases [of data k a s]) auto

lemma not_dropped_closed:
  "\<forall>u \<in> set us. case u of Dropped a \<Rightarrow> False | _ \<Rightarrow> True \<Longrightarrow>
   qc_closed (do_upcalls client_role ng us s) = qc_closed s"
proof (induction us arbitrary: s)
  case (Cons u us)
  have "qc_closed (do_upcall client_role ng u s) = qc_closed s" using Cons.prems
    by (cases u) (auto simp: do_upcall_def wake_write_def run_later_def close_connection_def
        set_application_error_def start_application_def signal_ready_def)
  then show ?case using Cons by (simp add: do_upcalls_def)
qed (simp add: do_upcalls_def)

lemma client_write_streams_outcome:
  assumes "write_streams client_role ng a s = (rv, t)"
  shows "rv = 0 \<and> (t = s \<or> qc_closed t = qc_closed (do_upcalls client_role ng (fa_upcalls a) s)) \<or> rv \<noteq> 0 \<and> qc_closed t"
proof -
  define u where "u = do_upcalls client_role ng (fa_upcalls a) s"
  show ?thesis using assms client_close_keeps(2)
    unfolding write_streams_def u_def [symmetric] Let_def
    by (auto simp: client_handle_error_def split: if_splits sum.splits dest: client_send_outcome)
qed

lemma client_flush_write_outcome:
  assumes "flush_write client_role ng a s = (rv, t)" "\<not> qc_closed s"
  shows "rv = 0 \<and> (\<not> qc_closed t \<or> qc_closed (do_upcalls client_role ng (fa_upcalls a) s)) \<or> rv \<noteq> 0 \<and> qc_closed t"
proof -
  obtain rv' u where u: "write_streams client_role ng a s = (rv', u)" by fastforce
  have "qc_closed (arm_timer_from_ngtcp2 a u) = qc_closed u"
    by (auto simp: arm_timer_from_ngtcp2_def split: option.split)
  then show ?thesis using client_write_streams_outcome [OF u] assms u
    by (auto simp: flush_write_def split: if_splits)
qed

definition client_ok :: "client_session \<Rightarrow> bool" where
  "client_ok s \<longleftrightarrow> released (cl_phase s) s \<and> cl_phase s \<noteq> Busy \<and> (cl_phase s = Starting \<longrightarrow> \<not> qc_closed s) \<and>
     (cl_phase s = Finished \<longrightarrow> qc_closed s)"

lemma leave_loop_ok: "released Busy s \<Longrightarrow> client_ok (leave_loop a s)"
  using client_close_released [of Busy s a] client_close_keeps(2) [of a s]
  by (simp add: leave_loop_def client_ok_def released_def)

lemma receive_again_ok: "released p s \<Longrightarrow> \<not> qc_closed s \<Longrightarrow> client_ok (receive_again s)"
  by (simp add: receive_again_def client_ok_def released_def)

text \<open>An operation that keeps the phase and never opens a connection again.\<close>

lemma same_phase_ok:
  "client_ok s \<Longrightarrow> released (cl_phase s) t \<Longrightarrow> (qc_closed s \<Longrightarrow> qc_closed t) \<Longrightarrow> cl_phase s \<noteq> Starting \<Longrightarrow> client_ok t"
  by (auto simp: client_ok_def released_def)

lemma client_start_ok:
  assumes "client_ok s" "client_enabled (Cl_start fa) s" shows "client_ok (client_start ng fa s)"
proof -
  have p: "cl_phase s = Starting" "\<not> qc_closed s" using assms by (simp_all add: client_enabled_def client_ok_def)
  obtain rv t where t: "flush_write client_role ng fa s = (rv, t)" by fastforce
  have r: "released Starting t" using waiting.flush_write_P [of Starting s ng fa] assms p t by (simp add: client_ok_def)
  have "rv = 0 \<and> \<not> qc_closed t \<or> rv \<noteq> 0 \<and> qc_closed t"
    using client_flush_write_outcome [OF t p(2)] not_dropped_closed [of "fa_upcalls fa" ng s] assms(2) p(2)
    by (auto simp: client_enabled_def)
  then show ?thesis using t r receive_again_ok [OF r]
    by (auto simp: client_start_def) (simp add: client_ok_def released_def signal_ready_def)
qed

lemma client_received_ok:
  assumes "client_ok s" "cl_phase s = Receiving" shows "client_ok (client_received ng ra fa ca s)"
proof -
  have b: "released Busy (s\<lparr>cl_phase := Busy\<rparr>)" using assms by (simp add: client_ok_def released_def)
  obtain rv t where t: "client_on_read ng ra fa (s\<lparr>cl_phase := Busy\<rparr>) = (rv, t)" by fastforce
  have "released Busy (snd (client_on_read ng ra fa (s\<lparr>cl_phase := Busy\<rparr>)))"
    using waiting.on_read_P [OF b, of ng ra] waiting.flush_write_P
    by (auto simp: client_on_read_def split: prod.split)
  then have "released Busy t" using t by simp
  then show ?thesis using t leave_loop_ok receive_again_ok by (auto simp: client_received_def)
qed

lemma client_receive_failed_ok: "client_ok s \<Longrightarrow> client_ok (client_receive_failed a s)"
  unfolding client_receive_failed_def by (rule leave_loop_ok) (simp add: client_ok_def released_def)

lemma run_flush_stays_closed: "qc_closed s \<Longrightarrow> qc_closed (run_flush client_role ng a s)"
  by (simp add: run_flush_def)

lemma client_run_job_ok:
  assumes "client_ok s" "cl_phase s \<noteq> Starting" shows "client_ok (client_run_job ng fa ca s)"
proof (cases "qc_jobs s")
  case (Cons j js)
  have "released (cl_phase s) (s\<lparr>qc_jobs := js\<rparr>)" using assms by (simp add: client_ok_def released_def)
  note r = waiting.run_flush_P [OF this, of ng fa] waiting.run_close_P [OF this, of ng _ ca]
  show ?thesis using r assms Cons
    by (cases j) (auto simp: client_run_job_def run_flush_def run_close_connection_def intro!: same_phase_ok [OF assms(1)])
qed (use assms in \<open>simp add: client_run_job_def\<close>)

lemma client_fire_timer_ok:
  assumes "client_ok s" "cl_phase s \<noteq> Starting" shows "client_ok (client_fire_timer ng e fa s)"
proof (cases "qc_timer s = Unarmed")
  case False
  then have "\<not> qc_closed s" "released (cl_phase s) (s\<lparr>qc_timer := Unarmed\<rparr>)"
    using assms(1) by (auto simp: client_ok_def released_def)
  then show ?thesis using waiting.handle_expiry_P assms False
    by (auto simp: client_fire_timer_def intro!: same_phase_ok [OF assms(1)])
qed (use assms in \<open>simp add: client_fire_timer_def\<close>)

lemma client_apply_ok:
  assumes "client_ok s" "client_enabled e s" shows "client_ok (client_apply ng e s)"
proof -
  have "released (cl_phase s) s" using assms(1) by (simp add: client_ok_def)
  note r = waiting.wake_write_P [OF this] client_close_released [OF this] waiting.P_jobs [OF this]
  have "qc_closed (wake_write s) = qc_closed s" by (simp add: wake_write_def run_later_def)
  then show ?thesis
    using assms r client_start_ok client_received_ok client_receive_failed_ok client_run_job_ok client_fire_timer_ok
      client_close_keeps(2)
    by (cases e) (auto simp: client_apply_def client_enabled_def close_connection_def run_later_def
        intro!: same_phase_ok [OF assms(1)])
qed

lemma cl_run_ok: "cl_run ng es s t \<Longrightarrow> client_ok s \<Longrightarrow> client_ok t"
  by (induction rule: cl_run.induct) (auto intro: client_apply_ok)

lemma new_client_ok: "client_ok new_client"
  by (simp add: client_ok_def released_def new_client_def)

section \<open>A closed connection\<close>

definition mute :: "client_session \<Rightarrow> client_session \<Rightarrow> bool" where
  "mute s t \<longleftrightarrow> qc_closed t \<and> qc_sent t = qc_sent s"

lemma upcalls_mute: "qc_closed s \<Longrightarrow> mute s (do_upcalls client_role ng us s)"
proof (induction us arbitrary: s)
  case (Cons u us)
  have "mute s (do_upcall client_role ng u s)" using Cons.prems
    by (cases u) (auto simp: mute_def do_upcall_def wake_write_def run_later_def close_connection_def
        set_application_error_def start_application_def signal_ready_def client_close_def)
  then show ?case using Cons.IH [of "do_upcall client_role ng u s"] by (simp add: do_upcalls_def mute_def)
qed (simp add: do_upcalls_def mute_def)

lemma on_read_mute: "qc_closed s \<Longrightarrow> mute s (snd (on_read client_role ng a s))"
proof -
  define u where "u = do_upcalls client_role ng (rd_upcalls a) (deref_conn s)"
  assume "qc_closed s"
  then have "mute s u" using upcalls_mute [of "deref_conn s" ng "rd_upcalls a"]
    by (simp add: u_def mute_def deref_conn_def split: if_splits)
  then show ?thesis unfolding on_read_def u_def [symmetric] Let_def
    by (auto simp: mute_def client_handle_error_def client_close_def split: option.split)
qed

lemma handle_expiry_mute: "qc_closed s \<Longrightarrow> mute s (snd (handle_expiry client_role ng e a s))"
proof -
  define u where "u = do_upcalls client_role ng (ea_upcalls e) (deref_conn s)"
  assume "qc_closed s"
  then have "mute s u" using upcalls_mute [of "deref_conn s" ng "ea_upcalls e"]
    by (simp add: u_def mute_def deref_conn_def split: if_splits)
  then show ?thesis unfolding handle_expiry_def u_def [symmetric] Let_def
    by (auto simp: mute_def client_handle_error_def client_close_def flush_write_def split: option.split)
qed

lemma leave_loop_mute: "qc_closed s \<Longrightarrow> mute s (leave_loop a s)"
  by (simp add: leave_loop_def client_close_def mute_def)

lemma client_received_mute:
  assumes "qc_closed s" shows "mute s (client_received ng ra fa ca s)"
proof -
  let ?b = "s\<lparr>cl_phase := Busy\<rparr>"
  obtain rv t where t: "on_read client_role ng ra ?b = (rv, t)" by fastforce
  have "mute ?b t" using on_read_mute [of ?b ng ra] assms t by simp
  then have "mute s t" by (simp add: mute_def)
  moreover from this have "mute s (leave_loop ca t)" using leave_loop_mute [of t ca] by (simp add: mute_def)
  ultimately show ?thesis using t
    by (auto simp: client_received_def client_on_read_def flush_write_def mute_def)
qed

lemma client_apply_mute:
  assumes "qc_closed s" "client_enabled e s" "cl_phase s \<noteq> Starting" shows "mute s (client_apply ng e s)"
proof (cases e)
  case (Cl_run fa ca)
  then show ?thesis using assms(1)
    by (auto simp: client_apply_def client_run_job_def mute_def run_flush_def run_close_connection_def
        split: list.split job.split)
next
  case (Cl_timer x fa)
  then show ?thesis using assms(1) handle_expiry_mute [of "s\<lparr>qc_timer := Unarmed\<rparr>" ng x fa]
    by (auto simp: client_apply_def client_fire_timer_def mute_def)
next
  case (Cl_receive_failed ca)
  then show ?thesis using assms(1) leave_loop_mute [of "s\<lparr>cl_phase := Busy\<rparr>" ca]
    by (simp add: client_apply_def client_receive_failed_def mute_def)
qed (use assms client_received_mute in
    \<open>auto simp: client_apply_def client_enabled_def mute_def wake_write_def run_later_def close_connection_def
       client_close_def\<close>)

lemma cl_run_mute:
  assumes "cl_run ng es s t" "client_ok s" "qc_closed s" shows "mute s t"
  using assms
proof (induction rule: cl_run.induct)
  case (snoc es s t e)
  then have "mute s t" "client_ok t" using cl_run_ok by auto
  then have "mute t (client_apply ng e t)" using snoc(2)
    by (intro client_apply_mute) (auto simp: mute_def client_ok_def)
  then show ?case using \<open>mute s t\<close> by (simp add: mute_def)
qed (simp add: mute_def)

section \<open>Concrete inputs\<close>

definition sample_io_close :: "io close_ans" where
  "sample_io_close = \<lparr>ca_packet = [7], ca_closing = True, ca_pto = 5, ca_net = []\<rparr>"

definition sample_io_flush :: "io flush_ans" where
  "sample_io_flush =
     \<lparr>fa_upcalls = [], fa_result = Inr [3], fa_gso_size = 0, fa_net = [], fa_close = sample_io_close,
      fa_expiry = Some 9, fa_now = 4\<rparr>"

definition sample_errors :: ngtcp2 where
  "sample_errors =
     \<lparr>ng_liberr = (\<lambda>e. \<lparr>cc_type = Cc_transport, cc_code = 1\<rparr>), ng_tls_alert = (\<lambda>a. \<lparr>cc_type = Cc_transport, cc_code = a\<rparr>),
      ng_app_error = (\<lambda>c. \<lparr>cc_type = Cc_application, cc_code = c\<rparr>)\<rparr>"

lemma sample_client_run:
  "cl_run sample_errors [Cl_start sample_io_flush, Cl_destroy sample_io_close] new_client
     (client_close sample_io_close (client_start sample_errors sample_io_flush new_client))"
proof -
  have e: "client_enabled (Cl_start sample_io_flush) new_client"
    by (simp add: client_enabled_def new_client_def sample_io_flush_def)
  note one = cl_run.snoc [OF cl_run.nil e, of sample_errors]
  have "client_ok (client_start sample_errors sample_io_flush new_client)"
    by (rule client_start_ok [OF new_client_ok e])
  moreover have "cl_phase (client_start sample_errors sample_io_flush new_client) \<noteq> Starting"
    by (auto simp: client_start_def receive_again_def split: prod.split)
  ultimately have "client_enabled (Cl_destroy sample_io_close) (client_apply sample_errors (Cl_start sample_io_flush) new_client)"
    by (simp add: client_enabled_def client_apply_def)
  from cl_run.snoc [OF one this] show ?thesis by (simp add: client_apply_def)
qed

section \<open>Properties\<close>

text \<open>C37: nobody is left waiting when a connection of the client ends. In every run, once the connection is closed, by the
  application, by an error or by the peer, the wait of \<open>async_connect()\<close> is over, no timer is left, and a receive that is
  under way has been cancelled, also when the connection was closed between two of them; and the receive loop only ever
  ends with the connection closed.
\<close>
theorem quic_client_leaves_nobody_waiting:
  assumes "cl_run ng es new_client s"
  shows "(qc_closed s \<longrightarrow> cl_ready s \<and> qc_timer s = Unarmed \<and> (cl_phase s = Receiving \<longrightarrow> cl_canceled s)) \<and>
    (qc_ready s \<longrightarrow> cl_ready s) \<and> (cl_phase s = Finished \<longrightarrow> qc_closed s)"
  using cl_run_ok [OF assms new_client_ok] by (simp add: client_ok_def released_def)

theorem quic_client_leaves_nobody_waiting_witness:
  "let s = client_close sample_io_close (client_start sample_errors sample_io_flush new_client)
   in qc_closed s \<and> cl_ready s \<and> qc_timer s = Unarmed"
  using quic_client_leaves_nobody_waiting [OF sample_client_run] client_close_keeps(2)
  by (auto simp: Let_def)

text \<open>closing a connection of the client sends one \<^verbatim>\<open>CONNECTION_CLOSE\<close>, if ngtcp2 can write one and the operating system
  takes it, and none if the connection was idle or dropped or the peer closed it first; every stream fails with
  \<open>connection_reset\<close>; and from then on nothing is sent, whatever happens.
\<close>
theorem quic_client_closes_once:
  assumes "cl_run ng es new_client s" "\<not> qc_closed s" "qc_conn s" "cl_phase s \<noteq> Starting" "ca_net a = []"
    "cl_run ng es' (client_close a s) t"
  shows "qc_closed t \<and> qc_failed (client_close a s) = qc_failed s @ [Connection_reset] \<and>
    qc_sent t = qc_sent s @
      (if cc_type (qc_error s) \<in> {Cc_idle_close, Cc_drop_conn} \<or> qc_closing s \<or> qc_draining s \<or> ca_packet a = []
       then [] else [ca_packet a])"
proof -
  have "client_ok s" using cl_run_ok [OF assms(1) new_client_ok] .
  then have "client_ok (client_close a s)"
    using client_apply_ok [of s "Cl_destroy a" ng] assms(4) by (simp add: client_enabled_def client_apply_def)
  then have "mute (client_close a s) t" using cl_run_mute [OF assms(6)] client_close_keeps(2) by blast
  then show ?thesis using assms(2,3,5) by (auto simp: mute_def client_defs Let_def)
qed

theorem quic_client_closes_once_witness:
  "let s = client_start sample_errors sample_io_flush new_client
   in qc_sent (client_close sample_io_close s) = [[3], [7]]"
proof -
  have e: "client_enabled (Cl_start sample_io_flush) new_client"
    by (simp add: client_enabled_def new_client_def sample_io_flush_def)
  have "cl_run sample_errors [Cl_start sample_io_flush] new_client (client_start sample_errors sample_io_flush new_client)"
    using cl_run.snoc [OF cl_run.nil e, of sample_errors] by (simp add: client_apply_def)
  from quic_client_closes_once [OF this _ _ _ _ cl_run.nil, of sample_io_close]
  show ?thesis
    by (simp add: client_start_def flush_write_def write_streams_def do_upcalls_def client_send_datagrams_def
        segments_one arm_timer_from_ngtcp2_def receive_again_def new_client_def sample_io_flush_def sample_io_close_def
        ccerr_default_def)
qed

text \<open>An attempt to connect takes the endpoints in their order and ends with the first one that gets ready; every session
  that did not is destroyed, and none is made after that one. An endpoint whose session cannot be set up is passed over,
  and when no endpoint is left, the attempt fails with \<open>connection_refused\<close>.
\<close>
theorem quic_client_connects_in_order:
  assumes "\<forall>a \<in> set failed. a = Init_failed \<or> a = Not_ready Success"
  shows "let destroyed = map fst (filter (\<lambda>(i, a). a \<noteq> Init_failed) (List.enumerate 0 failed)) in
    async_connect (failed @ Ready # rest) = (Inr (length failed), destroyed) \<and>
    (failed \<noteq> [] \<longrightarrow> async_connect failed = (Inl Connection_refused, destroyed))"
proof -
  have "connect_each k (as @ Ready # rest) =
      (Inr (k + length as), map fst (filter (\<lambda>(i, a). a \<noteq> Init_failed) (List.enumerate k as))) \<and>
    connect_each k as = (Inl None, map fst (filter (\<lambda>(i, a). a \<noteq> Init_failed) (List.enumerate k as)))"
    if "\<forall>a \<in> set as. a = Init_failed \<or> a = Not_ready Success" for k as
    using that by (induction as arbitrary: k) auto
  from this [OF assms, of 0] show ?thesis by (simp add: async_connect_def Let_def)
qed

theorem quic_client_connects_in_order_witness:
  "async_connect [Init_failed, Not_ready Success, Ready, Ready] = (Inr 2, [1])"
  using quic_client_connects_in_order [of "[Init_failed, Not_ready Success]" "[Ready]"]
  by (simp add: Let_def numeral_2_eq_2)

end
