(* ===== verification/H3_Exchange.thy ===== *)
theory H3_Exchange
  imports H2_Session
begin

text \<open>
  The header sections of an HTTP/3 exchange, \<^verbatim>\<open>src/h3/stream.cpp\<close>, \<^verbatim>\<open>src/h3/client.cpp\<close> and
  \<^verbatim>\<open>src/h3/server.cpp\<close>: what a stream makes of the fields nghttp3 gives it, what it does when a section is complete,
  how the response reaches the one who waits for it on the client, how requests and responses are submitted, and what becomes
  of a message whose writer goes away. The body
  is that of the QUIC stream of \<open>Quic_Stream\<close>.

  A call of \<open>async_get_response()\<close> is numbered, and \<open>e_answers\<close> records how each was completed. Completing one may resume
  the application right there; whatever it does then is the next operation of the run.
\<close>

section \<open>State\<close>

datatype h3_role = H3_server | H3_client

datatype h3_answer = Response nat | No_response error_code

record 'u h3_exchange =
  e_role :: h3_role
  e_method :: string
  e_url :: 'u
  e_status_code :: nat
  e_content_length :: "nat option"
  e_fields :: "field list"
  e_header_size :: nat
  e_header_limit_exceeded :: bool
  e_headers_received :: bool
  e_headers_submitted :: bool
  e_closed :: bool
  e_response_delivered :: bool
  e_response_handler :: "nat option"
  e_failure :: error_code
  e_asked :: nat
  e_answers :: "(nat \<times> h3_answer) list"
  e_launched :: "launched list"
  e_resets :: nat

definition new_h3_exchange :: "h3_role \<Rightarrow> 'u \<Rightarrow> 'u h3_exchange" where
  "new_h3_exchange role u =
     \<lparr>e_role = role, e_method = [], e_url = u, e_status_code = 0, e_content_length = None, e_fields = [],
      e_header_size = 0, e_header_limit_exceeded = False, e_headers_received = False, e_headers_submitted = False,
      e_closed = False, e_response_delivered = False, e_response_handler = None, e_failure = Success, e_asked = 0,
      e_answers = [], e_launched = [], e_resets = 0\<rparr>"

section \<open>Fields\<close>

text \<open>An exception of the URL library is caught in \<open>on_header()\<close>, and the field ignored.\<close>

definition server_pseudo_header :: "'u h2_lib \<Rightarrow> string \<Rightarrow> string \<Rightarrow> 'u h3_exchange \<Rightarrow> 'u h3_exchange" where
  "server_pseudo_header lib name val x =
     (if name = '':method'' then x\<lparr>e_method := val\<rparr>
      else if name = '':path'' then x\<lparr>e_url := set_target lib val (e_url x)\<rparr>
      else if name = '':scheme'' then x\<lparr>e_url := set_part (set_scheme lib val) (e_url x)\<rparr>
      else if name = '':authority'' then x\<lparr>e_url := set_part (set_encoded_authority lib val) (e_url x)\<rparr>
      else x)"

definition client_pseudo_header :: "string \<Rightarrow> string \<Rightarrow> 'u h3_exchange \<Rightarrow> 'u h3_exchange" where
  "client_pseudo_header name val x =
     (if name = '':status''
      then case from_chars 32 val of Some (status, _) \<Rightarrow> x\<lparr>e_status_code := status\<rparr> | None \<Rightarrow> x
      else x)"

definition h3_on_header :: "'u h2_lib \<Rightarrow> nat \<Rightarrow> string \<Rightarrow> string \<Rightarrow> 'u h3_exchange \<Rightarrow> 'u h3_exchange" where
  "h3_on_header lib limit name val x =
     (if e_header_limit_exceeded x then x
      else let x = x\<lparr>e_header_size := e_header_size x + header_field_size name val\<rparr> in
        if limit < e_header_size x then x\<lparr>e_header_limit_exceeded := True\<rparr>
        else if starts_with_colon name
        then (case e_role x of
                H3_server \<Rightarrow> server_pseudo_header lib name val x
              | H3_client \<Rightarrow> client_pseudo_header name val x)
        else let x = (if name = ''content-length''
                      then case from_chars 64 val of Some (len, _) \<Rightarrow> x\<lparr>e_content_length := Some len\<rparr> | None \<Rightarrow> x
                      else x)
             in x\<lparr>e_fields := e_fields x @ [(name, val)]\<rparr>)"

section \<open>The response, on the client\<close>

definition answer_call :: "h3_answer \<Rightarrow> 'u h3_exchange \<Rightarrow> 'u h3_exchange" where
  "answer_call a x =
     (case e_response_handler x of
        None \<Rightarrow> x
      | Some k \<Rightarrow> x\<lparr>e_response_handler := None, e_answers := e_answers x @ [(k, a)]\<rparr>)"

definition h3_deliver_response :: "'u h3_exchange \<Rightarrow> 'u h3_exchange" where
  "h3_deliver_response x =
     (if \<not> e_headers_received x \<or> e_response_handler x = None then x
      else answer_call (Response (e_status_code x)) (x\<lparr>e_response_delivered := True\<rparr>))"

definition h3_deliver_failure :: "'u h3_exchange \<Rightarrow> 'u h3_exchange" where
  "h3_deliver_failure x =
     (if e_headers_received x \<or> e_response_delivered x \<or> e_response_handler x = None then x
      else answer_call (No_response (e_failure x)) (x\<lparr>e_response_delivered := True\<rparr>))"

definition client_headers_complete :: "'u h3_exchange \<Rightarrow> 'u h3_exchange" where
  "client_headers_complete x =
     (if e_header_limit_exceeded x
      then h3_deliver_failure (x\<lparr>e_headers_received := False, e_failure := Header_limit, e_resets := e_resets x + 1\<rparr>)
      else h3_deliver_response x)"

definition h3_on_failed :: "error_code \<Rightarrow> 'u h3_exchange \<Rightarrow> 'u h3_exchange" where
  "h3_on_failed ec x =
     h3_deliver_failure
       (if e_failure x = Success then x\<lparr>e_failure := (if ec \<noteq> Success then ec else End_of_stream)\<rparr> else x)"

definition h3_get_response :: "'u h3_exchange \<Rightarrow> 'u h3_exchange" where
  "h3_get_response x =
     (let k = e_asked x; x = x\<lparr>e_asked := k + 1\<rparr> in
      if e_response_delivered x then x\<lparr>e_answers := e_answers x @ [(k, No_response Already_started)]\<rparr>
      else let x = h3_deliver_response (x\<lparr>e_response_handler := Some k\<rparr>) in
        if e_closed x then h3_deliver_failure x else x)"

definition cancel_response :: "'u h3_exchange \<Rightarrow> 'u h3_exchange" where
  "cancel_response x = answer_call (No_response Canceled) x"

text \<open>The destructor of the stream.\<close>

definition destroy_exchange :: "'u h3_exchange \<Rightarrow> 'u h3_exchange" where
  "destroy_exchange x = (if \<not> e_response_delivered x then answer_call (No_response Connection_reset) x else x)"

section \<open>The request, on the server\<close>

definition server_headers_complete :: "bool \<Rightarrow> 'u h3_exchange \<Rightarrow> 'u h3_exchange" where
  "server_headers_complete has_handler x =
     x\<lparr>e_launched := e_launched x @
         [if e_header_limit_exceeded x then Launch_too_large else if has_handler then Launch_handler else Launch_not_found]\<rparr>"

definition h3_on_end_headers :: "bool \<Rightarrow> 'u h3_exchange \<Rightarrow> 'u h3_exchange" where
  "h3_on_end_headers has_handler x =
     (let x = x\<lparr>e_headers_received := True\<rparr> in
      case e_role x of H3_server \<Rightarrow> server_headers_complete has_handler x | H3_client \<Rightarrow> client_headers_complete x)"

text \<open>What of \<open>QuicStream::fail()\<close> concerns the exchange; only the client overrides \<open>on_failed()\<close>.\<close>

definition fail_exchange :: "error_code \<Rightarrow> 'u h3_exchange \<Rightarrow> 'u h3_exchange" where
  "fail_exchange ec x =
     (let x = x\<lparr>e_closed := True\<rparr> in case e_role x of H3_server \<Rightarrow> x | H3_client \<Rightarrow> h3_on_failed ec x)"

text \<open>The header section of a response; \<open>date\<close> is what \<open>http_date_now()\<close> returns.\<close>

definition h3_response_fields :: "nat \<Rightarrow> string \<Rightarrow> nat option \<Rightarrow> field list \<Rightarrow> field list" where
  "h3_response_fields status date len user =
     [('':status'', to_string status), (''date'', date), (''server'', ''anyhttp-quic/0.1'')] @
     (case len of None \<Rightarrow> [] | Some n \<Rightarrow> [(''content-length'', to_string n)]) @
     filter (\<lambda>(name, val). \<not> starts_with_colon name) user"

text \<open>\<open>Http3Writer::async_submit()\<close> with \<open>submit_response()\<close> and \<open>submit_headers()\<close>; the first argument is whether nghttp3
  takes the header section. The result is what the application is told.\<close>

definition h3_submit_response :: "bool \<Rightarrow> 'u h3_exchange \<Rightarrow> error_code \<times> 'u h3_exchange" where
  "h3_submit_response accepted x =
     (if e_closed x then (Connection_reset, x)
      else (Success, if accepted then x\<lparr>e_headers_submitted := True\<rparr> else x))"

section \<open>The request, on the client\<close>

text \<open>The header section of a request: unlike those of a response, the fields of the application are all sent, with only a
  warning for a pseudo-header.\<close>

definition h3_request_fields :: "string \<Rightarrow> string \<Rightarrow> string \<Rightarrow> string \<Rightarrow> field list \<Rightarrow> field list" where
  "h3_request_fields method scheme target authority headers =
     [('':method'', method), ('':scheme'', scheme), ('':path'', target), ('':authority'', authority)] @ headers"

definition h3_submit_request :: "bool \<Rightarrow> 'u \<Rightarrow> 'u h3_exchange \<Rightarrow> bool \<times> 'u h3_exchange" where
  "h3_submit_request accepted u x =
     (let x = x\<lparr>e_url := u\<rparr> in if accepted then (True, x\<lparr>e_headers_submitted := True\<rparr>) else (False, x))"

text \<open>\<open>Http3ClientApplication::async_submit()\<close>, on the table of streams of the session. The first argument is what ngtcp2
  answers to the wish for a stream, the second whether nghttp3 takes the header section.\<close>

datatype stream_opened = Opened int | Id_blocked | Open_failed

definition h3_async_submit ::
  "stream_opened \<Rightarrow> bool \<Rightarrow> 'u \<Rightarrow> 'u \<Rightarrow> (int \<rightharpoonup> 'u h3_exchange) \<Rightarrow> error_code \<times> (int \<rightharpoonup> 'u h3_exchange)" where
  "h3_async_submit opn accepted none u streams =
     (case opn of
        Id_blocked \<Rightarrow> (Would_block, streams)
      | Open_failed \<Rightarrow> (Invalid_argument, streams)
      | Opened sid \<Rightarrow>
          let (ok, x) = h3_submit_request accepted u (new_h3_exchange H3_client none);
              streams = streams(sid \<mapsto> x)
          in if ok then (Success, streams) else (Invalid_argument, streams(sid := None)))"

section \<open>The end of the outgoing message\<close>

text \<open>\<open>Http3Stream::delete_writer()\<close>, for both roles; the first argument is \<open>eof_submitted\<close>.\<close>

definition h3_delete_writer :: "bool \<Rightarrow> 'u h3_exchange \<Rightarrow> 'u h3_exchange" where
  "h3_delete_writer eof_submitted x =
     (if e_closed x then x
      else if \<not> e_headers_submitted x then x\<lparr>e_closed := True, e_resets := e_resets x + 1\<rparr>
      else if \<not> eof_submitted then fail_exchange Partial_message (x\<lparr>e_resets := e_resets x + 1\<rparr>)
      else x)"

section \<open>Runs of the client\<close>

datatype h3_op =
    Ex_header string string
  | Ex_end_headers
  | Ex_fail error_code
  | Ex_get_response
  | Ex_cancel
  | Ex_delete_writer bool

text \<open>The stream of a request that was submitted.\<close>

definition h3_requested :: "'u \<Rightarrow> 'u \<Rightarrow> 'u h3_exchange" where
  "h3_requested none u = snd (h3_submit_request True u (new_h3_exchange H3_client none))"

text \<open>A call of \<open>async_get_response()\<close> is made when no other one is waiting.\<close>

definition h3_allowed :: "h3_op \<Rightarrow> 'u h3_exchange \<Rightarrow> bool" where
  "h3_allowed op x = (op = Ex_get_response \<longrightarrow> e_response_handler x = None)"

definition h3_do :: "'u h2_lib \<Rightarrow> nat \<Rightarrow> h3_op \<Rightarrow> 'u h3_exchange \<Rightarrow> 'u h3_exchange" where
  "h3_do lib limit op x =
     (case op of
        Ex_header name val \<Rightarrow> h3_on_header lib limit name val x
      | Ex_end_headers \<Rightarrow> h3_on_end_headers True x
      | Ex_fail ec \<Rightarrow> fail_exchange ec x
      | Ex_get_response \<Rightarrow> h3_get_response x
      | Ex_cancel \<Rightarrow> cancel_response x
      | Ex_delete_writer eof \<Rightarrow> h3_delete_writer eof x)"

fun h3_ops :: "'u h2_lib \<Rightarrow> nat \<Rightarrow> h3_op list \<Rightarrow> 'u h3_exchange \<Rightarrow> 'u h3_exchange option" where
  "h3_ops lib limit [] x = Some x"
| "h3_ops lib limit (op # ops) x =
     (if h3_allowed op x then h3_ops lib limit ops (h3_do lib limit op x) else None)"

end
