(* ===== verification/H3_Exchange_Properties.thy ===== *)
theory H3_Exchange_Properties
  imports H3_Exchange
begin

text \<open>
  The properties of the header sections of HTTP/3: every request for the response is answered exactly once, and a response
  is received as it was sent.
\<close>

section \<open>Answers\<close>

lemma answer_call_sel [simp]:
  "e_role (answer_call a x) = e_role x" "e_headers_received (answer_call a x) = e_headers_received x"
  "e_closed (answer_call a x) = e_closed x" "e_response_delivered (answer_call a x) = e_response_delivered x"
  "e_failure (answer_call a x) = e_failure x" "e_asked (answer_call a x) = e_asked x"
  "e_response_handler (answer_call a x) = None" "e_headers_submitted (answer_call a x) = e_headers_submitted x"
  by (simp_all add: answer_call_def split: option.split)

lemma answer_call_answers:
  "e_answers (answer_call a x) =
     e_answers x @ (case e_response_handler x of None \<Rightarrow> [] | Some k \<Rightarrow> [(k, a)])"
  by (simp add: answer_call_def split: option.split)

text \<open>Calls are answered in order, none with success and no response, and one waits only as long as neither the header
  section nor the end of the stream has come.\<close>

fun answered :: "nat option \<Rightarrow> nat \<Rightarrow> nat" where
  "answered None asked = asked"
| "answered (Some k) asked = k"

definition answers_ok :: "'u h3_exchange \<Rightarrow> bool" where
  "answers_ok x \<longleftrightarrow>
     map fst (e_answers x) = [0..<answered (e_response_handler x) (e_asked x)] \<and>
     No_response Success \<notin> snd ` set (e_answers x)"

definition h3_ok :: "'u h3_exchange \<Rightarrow> bool" where
  "h3_ok x \<longleftrightarrow>
     e_role x = H3_client \<and> e_headers_submitted x \<and> answers_ok x \<and> (e_closed x \<longrightarrow> e_failure x \<noteq> Success) \<and>
     (\<forall>k. e_response_handler x = Some k \<longrightarrow>
        e_asked x = k + 1 \<and> \<not> e_headers_received x \<and> \<not> e_closed x \<and> \<not> e_response_delivered x)"

text \<open>Answering whoever waits keeps the order.\<close>

lemma answer_call_ok:
  assumes "answers_ok x" "\<forall>k. e_response_handler x = Some k \<longrightarrow> e_asked x = k + 1" "a \<noteq> No_response Success"
  shows "answers_ok (answer_call a x)"
  using assms by (auto simp: answers_ok_def answer_call_answers split: option.splits)

lemma on_header_same:
  "e_role (h3_on_header lib limit name val x) = e_role x"
  "e_headers_submitted (h3_on_header lib limit name val x) = e_headers_submitted x"
  "e_answers (h3_on_header lib limit name val x) = e_answers x"
  "e_response_handler (h3_on_header lib limit name val x) = e_response_handler x"
  "e_asked (h3_on_header lib limit name val x) = e_asked x"
  "e_closed (h3_on_header lib limit name val x) = e_closed x"
  "e_failure (h3_on_header lib limit name val x) = e_failure x"
  "e_headers_received (h3_on_header lib limit name val x) = e_headers_received x"
  "e_response_delivered (h3_on_header lib limit name val x) = e_response_delivered x"
  unfolding h3_on_header_def Let_def
  by (auto simp: server_pseudo_header_def client_pseudo_header_def split: h3_role.split option.split)

lemma on_header_ok: "h3_ok x \<Longrightarrow> h3_ok (h3_on_header lib limit name val x)"
  unfolding h3_ok_def answers_ok_def by (simp add: on_header_same)

lemma deliver_failure_ok:
  assumes "e_role x = H3_client" "e_headers_submitted x" "answers_ok x" "e_failure x \<noteq> Success"
    "\<forall>k. e_response_handler x = Some k \<longrightarrow> e_asked x = k + 1 \<and> \<not> e_headers_received x \<and> \<not> e_response_delivered x"
  shows "h3_ok (h3_deliver_failure x)"
proof (cases "e_response_handler x")
  case None
  then show ?thesis using assms by (simp add: h3_deliver_failure_def h3_ok_def)
next
  case (Some k)
  define y where "y = x\<lparr>e_response_delivered := True\<rparr>"
  have "answers_ok y" using assms(3) by (simp add: y_def answers_ok_def)
  then have "answers_ok (answer_call (No_response (e_failure x)) y)"
    using assms(4,5) by (intro answer_call_ok) (simp_all add: y_def)
  then show ?thesis using Some assms by (simp add: h3_deliver_failure_def h3_ok_def y_def)
qed

lemma deliver_response_ok:
  assumes "h3_ok x \<or> e_role x = H3_client \<and> e_headers_submitted x \<and> answers_ok x \<and> (e_closed x \<longrightarrow> e_failure x \<noteq> Success) \<and>
      (\<forall>k. e_response_handler x = Some k \<longrightarrow> e_asked x = k + 1 \<and> e_headers_received x)"
  shows "h3_ok (h3_deliver_response x)"
proof (cases "e_response_handler x = None \<or> \<not> e_headers_received x")
  case True
  then show ?thesis using assms by (auto simp: h3_deliver_response_def h3_ok_def)
next
  case False
  define y where "y = x\<lparr>e_response_delivered := True\<rparr>"
  have "answers_ok y" using assms by (auto simp: y_def answers_ok_def h3_ok_def)
  then have "answers_ok (answer_call (Response (e_status_code x)) y)"
    using assms False by (intro answer_call_ok) (auto simp: y_def h3_ok_def)
  then show ?thesis using False assms by (auto simp: h3_deliver_response_def h3_ok_def y_def)
qed

lemma on_end_headers_ok:
  assumes "h3_ok x" shows "h3_ok (h3_on_end_headers b x)"
proof -
  have a: "answers_ok (x\<lparr>e_headers_received := h\<rparr>)" "answers_ok (x\<lparr>e_headers_received := h, e_failure := f, e_resets := n\<rparr>)"
    for h f n using assms by (simp_all add: h3_ok_def answers_ok_def)
  have "h3_ok (h3_deliver_failure (x\<lparr>e_headers_received := False, e_failure := Header_limit, e_resets := e_resets x + 1\<rparr>))"
    using assms a by (intro deliver_failure_ok) (auto simp: h3_ok_def)
  moreover have "h3_ok (h3_deliver_response (x\<lparr>e_headers_received := True\<rparr>))"
    using assms a by (intro deliver_response_ok) (auto simp: h3_ok_def)
  moreover have "e_role x = H3_client" using assms by (simp add: h3_ok_def)
  ultimately show ?thesis by (simp add: h3_on_end_headers_def client_headers_complete_def Let_def)
qed

lemma fail_exchange_ok:
  assumes "h3_ok x" shows "h3_ok (fail_exchange ec x)"
proof -
  have "answers_ok (x\<lparr>e_closed := True\<rparr>)" "answers_ok (x\<lparr>e_closed := True, e_failure := f\<rparr>)" for f
    using assms by (simp_all add: h3_ok_def answers_ok_def)
  then have "h3_ok (h3_on_failed ec (x\<lparr>e_closed := True\<rparr>))"
    unfolding h3_on_failed_def using assms by (intro deliver_failure_ok) (auto simp: h3_ok_def)
  moreover have "e_role x = H3_client" using assms by (simp add: h3_ok_def)
  ultimately show ?thesis by (simp add: fail_exchange_def Let_def)
qed

lemma get_response_ok:
  assumes "h3_ok x" "e_response_handler x = None" shows "h3_ok (h3_get_response x)"
proof (cases "e_response_delivered x")
  case True
  then show ?thesis using assms by (auto simp: h3_get_response_def Let_def h3_ok_def answers_ok_def)
next
  case False
  define y where "y = x\<lparr>e_asked := e_asked x + 1, e_response_handler := Some (e_asked x)\<rparr>"
  have y: "answers_ok y" "e_role y = H3_client" "e_headers_submitted y" "e_closed y \<longrightarrow> e_failure y \<noteq> Success"
    using assms by (simp_all add: y_def answers_ok_def h3_ok_def)
  show ?thesis
  proof (cases "e_headers_received x")
    case True
    then have "h3_ok (h3_deliver_response y)" using y by (intro deliver_response_ok) (simp add: y_def)
    moreover have "e_headers_received (h3_deliver_response y)" using True by (simp add: h3_deliver_response_def y_def)
    ultimately show ?thesis using False by (simp add: h3_get_response_def Let_def y_def h3_deliver_failure_def)
  next
    case h: False
    then have d: "h3_deliver_response y = y" by (simp add: h3_deliver_response_def y_def)
    have "h3_ok (h3_deliver_failure y)" if "e_closed x"
      using that y h False by (intro deliver_failure_ok) (auto simp: y_def)
    moreover have "h3_ok y" if "\<not> e_closed x" using that y h False by (simp add: h3_ok_def y_def)
    ultimately show ?thesis using False d by (simp add: h3_get_response_def Let_def y_def)
  qed
qed

lemma cancel_response_ok: "h3_ok x \<Longrightarrow> h3_ok (cancel_response x)"
  using answer_call_ok [of x "No_response Canceled"] by (simp add: cancel_response_def h3_ok_def)

lemma delete_writer_ok:
  assumes "h3_ok x" shows "h3_ok (h3_delete_writer eof x)"
proof -
  have "h3_ok (x\<lparr>e_resets := n\<rparr>)" for n using assms by (simp add: h3_ok_def answers_ok_def)
  moreover have "e_headers_submitted x" using assms by (simp add: h3_ok_def)
  ultimately show ?thesis using assms by (simp add: h3_delete_writer_def fail_exchange_ok)
qed

lemma h3_do_ok: "h3_ok x \<Longrightarrow> h3_allowed op x \<Longrightarrow> h3_ok (h3_do lib limit op x)"
  by (cases op) (simp_all add: h3_do_def h3_allowed_def on_header_ok on_end_headers_ok fail_exchange_ok get_response_ok
      cancel_response_ok delete_writer_ok)

lemma h3_ops_ok: "h3_ops lib limit ops x = Some y \<Longrightarrow> h3_ok x \<Longrightarrow> h3_ok y"
  by (induction lib limit ops x rule: h3_ops.induct) (auto simp: h3_do_ok split: if_splits)

section \<open>Properties\<close>


definition plain_url :: "unit h2_lib" where
  "plain_url =
     \<lparr>parse_relative_ref = (\<lambda>s. None), set_path = (\<lambda>s u. u), set_query = (\<lambda>s u. u), set_fragment = (\<lambda>s u. u),
      set_scheme = (\<lambda>s u. Some u), set_encoded_authority = (\<lambda>s u. Some u), set_host = (\<lambda>s u. Some u),
      field_value = (\<lambda>n fs. [])\<rparr>"


section \<open>A header section, sent and received\<close>

definition section_size :: "field list \<Rightarrow> nat" where
  "section_size fs = sum_list (map (\<lambda>(name, val). header_field_size name val) fs)"

definition receive_section :: "'u h2_lib \<Rightarrow> nat \<Rightarrow> field list \<Rightarrow> 'u h3_exchange \<Rightarrow> 'u h3_exchange" where
  "receive_section lib limit fs x = fold (\<lambda>(name, val). h3_on_header lib limit name val) fs x"

lemma receive_field:
  assumes "\<not> starts_with_colon name" "\<not> e_header_limit_exceeded x" "e_header_size x + header_field_size name val \<le> limit"
  shows "h3_on_header lib limit name val x =
    x\<lparr>e_header_size := e_header_size x + header_field_size name val, e_fields := e_fields x @ [(name, val)],
      e_content_length := (if name = ''content-length'' \<and> from_chars 64 val \<noteq> None
                           then Some (fst (the (from_chars 64 val))) else e_content_length x)\<rparr>"
  using assms by (auto simp: h3_on_header_def Let_def split: option.split)

lemma receive_fields:
  assumes "\<forall>(name, val) \<in> set fs. \<not> starts_with_colon name \<and> name \<noteq> ''content-length''"
    "\<not> e_header_limit_exceeded x" "e_header_size x + section_size fs \<le> limit"
  shows "receive_section lib limit fs x =
    x\<lparr>e_header_size := e_header_size x + section_size fs, e_fields := e_fields x @ fs\<rparr>"
  using assms
proof (induction fs arbitrary: x)
  case (Cons f fs)
  obtain name val where f: "f = (name, val)" by fastforce
  define y where "y = x\<lparr>e_header_size := e_header_size x + header_field_size name val, e_fields := e_fields x @ [(name, val)]\<rparr>"
  have "h3_on_header lib limit name val x = y"
    using Cons.prems f by (subst receive_field) (auto simp: y_def section_size_def)
  then have "receive_section lib limit (f # fs) x = receive_section lib limit fs y"
    by (simp add: receive_section_def f)
  also have "\<dots> = y\<lparr>e_header_size := e_header_size y + section_size fs, e_fields := e_fields y @ fs\<rparr>"
    using Cons.prems f by (intro Cons.IH) (auto simp: y_def section_size_def)
  finally show ?case by (simp add: y_def f section_size_def add.assoc)
qed (simp add: receive_section_def section_size_def)

lemma receive_section_append:
  "receive_section lib limit (fs @ gs) x = receive_section lib limit gs (receive_section lib limit fs x)"
  by (simp add: receive_section_def)

lemma section_size_append: "section_size (fs @ gs) = section_size fs + section_size gs"
  by (simp add: section_size_def)

text \<open>No message is left unfinished: once its writer is gone, it was ended, or the stream is closed and was reset.\<close>

lemma h3_message_ended_or_reset:
  "e_closed (h3_delete_writer eof x) \<or> e_headers_submitted (h3_delete_writer eof x) \<and> eof"
  by (auto simp: h3_delete_writer_def fail_exchange_def h3_on_failed_def h3_deliver_failure_def Let_def split: h3_role.split)

text \<open>A request that fails leaves no stream behind; one that succeeds has the stream it was given.\<close>

lemma h3_async_submit_streams:
  assumes "h3_async_submit opn accepted none u streams = (ec, streams')" "\<forall>sid. opn = Opened sid \<longrightarrow> streams sid = None"
  shows "ec \<noteq> Success \<Longrightarrow> streams' = streams"
    and "ec = Success \<Longrightarrow> \<exists>sid. opn = Opened sid \<and> streams' = streams(sid \<mapsto> h3_requested none u)"
  using assms
  by (auto simp: h3_async_submit_def h3_submit_request_def h3_requested_def Let_def fun_upd_idem split: stream_opened.splits if_splits)

lemmas requested_simps = h3_requested_def h3_submit_request_def new_h3_exchange_def Let_def

text \<open>The header section a server builds for an HTTP/3 response, if it is within the limit of the client, is received there
  as the same status, length and fields, and is the answer to the request for the response.\<close>
theorem h3_response_header_round_trip:
  fixes lib :: "'u h2_lib" and none u :: 'u
  assumes "status < 2 ^ 32" "\<forall>n. len = Some n \<longrightarrow> n < 2 ^ 64"
    "\<forall>(name, val) \<in> set user. name \<noteq> ''content-length''"
    "section_size (h3_response_fields status date len user) \<le> limit"
  defines "x \<equiv> receive_section lib limit (h3_response_fields status date len user) (h3_requested none u)"
  shows "e_fields x = tl (h3_response_fields status date len user) \<and> e_content_length x = len \<and>
    e_answers (h3_get_response (h3_on_end_headers b x)) = [(0, Response status)]"
proof -
  define plain where "plain = [(''date'', date), (''server'', ''anyhttp-quic/0.1'')]"
  define cl where "cl = (case len of None \<Rightarrow> [] | Some n \<Rightarrow> [(''content-length'', to_string n)])"
  define rest where "rest = filter (\<lambda>(name, val). \<not> starts_with_colon name) user"
  define st where "st = ('':status'', to_string status)"
  have fs: "h3_response_fields status date len user = [st] @ plain @ cl @ rest"
    by (simp add: h3_response_fields_def plain_def cl_def rest_def st_def)
  have sz: "section_size [st] + section_size plain + section_size cl + section_size rest \<le> limit"
    using assms(4) unfolding fs section_size_append by (simp add: add.assoc)
  define x0 where "x0 = h3_requested none u"
  define x1 where "x1 = receive_section lib limit [st] x0"
  have x1: "x1 = x0\<lparr>e_header_size := section_size [st], e_status_code := status\<rparr>"
    using sz from_chars_to_string [OF assms(1)]
    by (simp add: x1_def receive_section_def st_def h3_on_header_def section_size_def x0_def requested_simps
        starts_with_colon_def client_pseudo_header_def Let_def)
  define x2 where "x2 = receive_section lib limit plain x1"
  have x2: "x2 = x1\<lparr>e_header_size := e_header_size x1 + section_size plain, e_fields := plain\<rparr>"
    unfolding x2_def using sz
    by (subst receive_fields) (simp_all add: plain_def starts_with_colon_def x1 x0_def requested_simps)
  define x3 where "x3 = receive_section lib limit cl x2"
  have x3: "x3 = x2\<lparr>e_header_size := e_header_size x2 + section_size cl, e_fields := plain @ cl, e_content_length := len\<rparr>"
  proof (cases len)
    case None
    then show ?thesis
      by (simp add: x3_def cl_def receive_section_def section_size_def x2 x1 x0_def requested_simps)
  next
    case (Some n)
    then have "from_chars 64 (to_string n) = Some (n, [])" using assms(2) from_chars_to_string by blast
    then show ?thesis using Some sz unfolding x3_def cl_def receive_section_def
      by (simp add: receive_field starts_with_colon_def x2 x1 x0_def requested_simps section_size_def cl_def)
  qed
  have "\<forall>(name, val) \<in> set rest. \<not> starts_with_colon name \<and> name \<noteq> ''content-length''"
    using assms(3) by (auto simp: rest_def)
  then have "receive_section lib limit rest x3 =
      x3\<lparr>e_header_size := e_header_size x3 + section_size rest, e_fields := plain @ cl @ rest\<rparr>"
    using sz by (subst receive_fields) (simp_all add: x3 x2 x1 x0_def requested_simps)
  moreover have "x = receive_section lib limit rest x3"
    by (simp only: x_def fs receive_section_append x0_def [symmetric] x1_def [symmetric] x2_def [symmetric] x3_def [symmetric])
  ultimately have x: "x = x3\<lparr>e_header_size := e_header_size x3 + section_size rest, e_fields := plain @ cl @ rest\<rparr>" by simp
  show ?thesis
    by (simp add: x fs x3 x2 x1 x0_def requested_simps h3_on_end_headers_def client_headers_complete_def
        h3_deliver_response_def h3_get_response_def answer_call_def h3_deliver_failure_def Let_def)
qed

theorem h3_response_header_round_trip_witness:
  "e_answers (h3_get_response (h3_on_end_headers True
     (receive_section plain_url 1000 (h3_response_fields 404 ''now'' (Some 12) [(''a'', ''b''), ('':c'', ''d'')])
       (h3_requested () ())))) = [(0, Response 404)]"
proof -
  have "length (to_string 404) = 3" "length (to_string 12) = 2"
    by (simp_all add: to_string.simps)
  then have "section_size (h3_response_fields 404 ''now'' (Some 12) [(''a'', ''b''), ('':c'', ''d'')]) \<le> 1000"
    by (simp add: h3_response_fields_def section_size_def header_field_size_def starts_with_colon_def)
  then show ?thesis
    using h3_response_header_round_trip [of 404 "Some 12" "[(''a'', ''b''), ('':c'', ''d'')]" "''now''" 1000 plain_url "()" "()" True]
    by simp
qed

section \<open>Two surprises\<close>

text \<open>What a client makes of a response that is preceded by an informational one: nghttp3 reports both header sections in the
  same way, and the first one is delivered as the response.\<close>

lemma h3_informational_is_the_response:
  "\<exists>x. h3_ops plain_url 1000
     [Ex_get_response, Ex_header '':status'' ''103'', Ex_end_headers, Ex_header '':status'' ''200'', Ex_end_headers]
     (h3_requested () ()) = Some x \<and> e_answers x = [(0, Response 103)] \<and>
     e_answers (h3_get_response x) = [(0, Response 103), (1, No_response Already_started)]"
proof -
  have p: "from_chars 32 ''103'' = Some (103, [])" "from_chars 32 ''200'' = Some (200, [])"
    by (simp_all add: from_chars_def is_digit_def digits_value_def digit_value_def)
  show ?thesis
    by (simp add: h3_allowed_def h3_do_def Let_def h3_get_response_def h3_deliver_response_def answer_call_def h3_on_header_def
        header_field_size_def starts_with_colon_def client_pseudo_header_def p h3_on_end_headers_def
        client_headers_complete_def requested_simps Let_def)
qed

text \<open>A header section that nghttp3 does not take is reported to the application as submitted.\<close>

lemma h3_refused_submit_reported_as_success:
  "\<not> e_closed x \<Longrightarrow> h3_submit_response False x = (Success, x)"
  by (simp add: h3_submit_response_def)

end
