(* ===== verification/H2v2_Stream.thy ===== *)
theory H2v2_Stream
  imports H2_Stream
begin

text \<open>
  One HTTP/2 stream of the backend for version 2 of nghttp2, \<^verbatim>\<open>src/h2v2/stream.cpp\<close> and
  \<^verbatim>\<open>include/anyhttp/h2v2/stream.hpp\<close>, with \<open>NGHttp2Session::close_stream\<close> (\<^verbatim>\<open>src/h2v2/session.cpp\<close>). The source has the
  definitions of version 1 in the same order, and so has this theory, compare \<open>H2_Stream\<close>. What differs is the outgoing
  body, which version 2 of nghttp2 takes by reference, and the reset of a stream that nobody needs any more, which is posted.

  \<open>v2_lent\<close> is how many of the bytes that were handed over are not in a frame yet: nghttp2 still refers to the memory they are
  in, and reads them when it makes the frame (\<open>v2_frame\<close>). Whose memory that is depends on the mode: the buffer of the
  caller, which is there as long as its write is pending, or the chunk of the stream. History only, read by no operation:
  \<open>v2_received\<close>, \<open>v2_wire\<close> (all data that went into frames) and \<open>v2_body\<close> (all data written, less what a cancelled or failed
  write took back).
\<close>

section \<open>State\<close>

datatype v2_write_mode = V2_zero_copy | V2_staged

definition write_chunk_size :: nat where
  "write_chunk_size = 16 * 1024"

datatype v2_event =
    V2_read error_code bytes nat
  | V2_write error_code
  | V2_response error_code
  | V2_extend_stream nat
  | V2_start_write
  | V2_resume_stream
  | V2_shutdown_stream rst_code
  | V2_post_reset
  | V2_erase
  | V2_reader_detach error_code
  | V2_writer_detach bool

record v2_stream =
  v2_bytesRead :: nat
  v2_bytesWritten :: nat
  v2_eof_received :: bool
  v2_read_buffer :: bytes
  v2_pending_read_buffers :: "bytes list"
  v2_write_mode :: v2_write_mode
  v2_write_buffer :: bytes
  v2_write_handler :: bool
  v2_write_chunk :: bytes
  v2_offered :: nat
  v2_written :: nat
  v2_is_deferred :: bool
  v2_write_cancelled :: bool
  v2_eof_requested :: bool
  v2_eof_submitted :: bool
  v2_response_handler :: bool
  v2_has_response :: bool
  v2_response_delivered :: bool
  v2_response_error :: error_code
  v2_header_limit_exceeded :: bool
  v2_closed :: bool
  v2_close_deferred :: bool
  v2_read_handler :: "nat option"
  v2_inside_call_read_handler :: bool
  v2_reader :: bool
  v2_writer :: bool
  v2_in_map :: bool
  v2_server :: bool
  v2_posted :: nat
  v2_lent :: nat
  v2_script :: "read_action list"
  v2_events :: "v2_event list"
  v2_received :: bytes
  v2_body :: bytes
  v2_wire :: bytes

definition v2_init :: "v2_write_mode \<Rightarrow> v2_stream" where
  "v2_init mode = \<lparr>
     v2_bytesRead = 0, v2_bytesWritten = 0, v2_eof_received = False, v2_read_buffer = [], v2_pending_read_buffers = [],
     v2_write_mode = mode, v2_write_buffer = [], v2_write_handler = False, v2_write_chunk = [], v2_offered = 0,
     v2_written = 0, v2_is_deferred = False, v2_write_cancelled = False, v2_eof_requested = False, v2_eof_submitted = False,
     v2_response_handler = False, v2_has_response = False, v2_response_delivered = False,
     v2_response_error = Success, v2_header_limit_exceeded = False,
     v2_closed = False, v2_close_deferred = False, v2_read_handler = None,
     v2_inside_call_read_handler = False, v2_reader = False, v2_writer = False, v2_in_map = True,
     v2_server = False, v2_posted = 0, v2_lent = 0,
     v2_script = [], v2_events = [], v2_received = [], v2_body = [], v2_wire = []\<rparr>"

definition v2_emit :: "v2_event \<Rightarrow> v2_stream \<Rightarrow> v2_stream" where
  [stream_defs]: "v2_emit e s = s\<lparr>v2_events := v2_events s @ [e]\<rparr>"

definition v2_reading_finished :: "v2_stream \<Rightarrow> bool" where
  "v2_reading_finished s = (\<not> v2_reader s \<or> v2_eof_received s \<and> v2_read_buffer s = [])"

text \<open>The rest of the first buffer, and all of the others.\<close>

definition v2_read_buffers_size :: "v2_stream \<Rightarrow> nat" where
  "v2_read_buffers_size s =
     length (v2_read_buffer s) + sum_list (map length (drop 1 (v2_pending_read_buffers s)))"

section \<open>Letting go of a reader or a writer\<close>

definition v2_maybe_close_stream :: "v2_stream \<Rightarrow> v2_stream" where
  [stream_defs]: "v2_maybe_close_stream s =
     (if v2_closed s then s
      else if v2_writer s then s
      else if \<not> v2_eof_submitted s \<or> (\<not> v2_eof_received s \<and> \<not> v2_reader s)
      then v2_emit V2_post_reset (s\<lparr>v2_posted := v2_posted s + 1\<rparr>)
      else s)"

text \<open>The reset that \<open>maybe_close_stream\<close> has posted, one turn later; \<open>conn\<close> is whether the session still has its connection.\<close>

definition v2_run_posted :: "bool \<Rightarrow> v2_stream \<Rightarrow> v2_stream" where
  "v2_run_posted conn s =
     (let s1 = s\<lparr>v2_posted := v2_posted s - 1\<rparr>
      in if v2_closed s1 \<or> \<not> conn then s1
         else v2_emit V2_start_write (v2_emit (V2_shutdown_stream Rst_stream_closed) s1))"

text \<open>\<open>delete_reader\<close> up to the deferred close, which it leaves to the caller when it runs nested in
  \<open>call_read_handler\<close>; \<open>~NGHttp2Reader\<close> has let go of the reader before.\<close>

definition v2_delete_reader :: "v2_stream \<Rightarrow> v2_stream" where
  [stream_defs]: "v2_delete_reader s =
     (let s1 = (if v2_closed s then s
                else if v2_reading_finished s then s
                else if v2_read_buffers_size s \<noteq> 0
                then s\<lparr>v2_read_buffer := [], v2_pending_read_buffers := []\<rparr>
                else s)
      in v2_maybe_close_stream (s1\<lparr>v2_reader := False\<rparr>))"

section \<open>Delivering what was received\<close>

text \<open>What a resumed reader does: see \<open>Prelude\<close>. A read issued from within finds
  \<open>inside_call_read_handler_\<close> set and is parked.\<close>

definition v2_reader_acts :: "v2_stream \<Rightarrow> v2_stream" where
  [stream_defs]: "v2_reader_acts s =
     (case v2_script s of
        [] \<Rightarrow> s
      | Do_nothing # as \<Rightarrow> s\<lparr>v2_script := as\<rparr>
      | Read_again n # as \<Rightarrow>
          if \<not> v2_reader s then s\<lparr>v2_script := as\<rparr>
          else if n = 0 then v2_emit (V2_read Success [] 0) (s\<lparr>v2_script := as\<rparr>)
          else s\<lparr>v2_script := as, v2_read_handler := Some n\<rparr>
      | Drop_reader # as \<Rightarrow>
          if v2_reader s then v2_delete_reader (s\<lparr>v2_script := as, v2_reader := False\<rparr>)
          else s\<lparr>v2_script := as\<rparr>)"

definition v2_invoke_read :: "error_code \<Rightarrow> bytes \<Rightarrow> v2_stream \<Rightarrow> v2_stream" where
  [stream_defs]: "v2_invoke_read ec d s =
     v2_reader_acts (v2_emit (V2_read ec d (length d)) (s\<lparr>v2_read_handler := None\<rparr>))"

definition v2_read_measure :: "v2_stream \<Rightarrow> nat" where
  "v2_read_measure s = length (v2_script s) + (case v2_read_handler s of None \<Rightarrow> 0 | Some _ \<Rightarrow> 1)"

lemma v2_invoke_read_measure:
  "v2_read_handler s = Some n \<Longrightarrow> v2_read_measure (v2_invoke_read ec d s) < v2_read_measure s"
  by (auto simp: stream_defs v2_read_measure_def Let_def split: list.splits read_action.splits)

text \<open>Advance to the next stored buffer. If there is none, start writing the view that was passed in.\<close>

definition v2_next_buffer :: "bytes \<Rightarrow> v2_stream \<Rightarrow> v2_stream \<times> bytes" where
  "v2_next_buffer view s =
     (if v2_read_buffer s = [] then
        let p = (if v2_pending_read_buffers s \<noteq> [] then tl (v2_pending_read_buffers s) else [])
        in if p \<noteq> [] then (s\<lparr>v2_pending_read_buffers := p, v2_read_buffer := hd p\<rparr>, view)
           else (s\<lparr>v2_pending_read_buffers := p, v2_read_buffer := view\<rparr>, v2_read_buffer s)
      else (s, view))"

lemma v2_next_buffer_measure: "v2_read_measure (fst (v2_next_buffer view s)) = v2_read_measure s"
  by (simp add: v2_next_buffer_def v2_read_measure_def Let_def)

function v2_deliver_loop :: "v2_stream \<Rightarrow> bytes \<Rightarrow> nat \<Rightarrow> v2_stream \<times> bytes \<times> nat" where
  "v2_deliver_loop s view consumed =
     (case v2_read_handler s of
        None \<Rightarrow> (s, view, consumed)
      | Some room \<Rightarrow>
          if v2_read_buffer s = [] then (s, view, consumed)
          else let copied = take room (v2_read_buffer s);
                   s1 = s\<lparr>v2_bytesRead := v2_bytesRead s + length copied,
                          v2_read_buffer := drop (length copied) (v2_read_buffer s)\<rparr>;
                   (s2, view2) = v2_next_buffer view (v2_invoke_read Success copied s1)
               in v2_deliver_loop s2 view2 (consumed + length copied))"
  by pat_completeness auto
termination
proof (relation "measure (\<lambda>(s, _). v2_read_measure s)", goal_cases)
  case 1 then show ?case by simp
next
  case (2 s view consumed room copied s1 x s2 view2)
  have "v2_read_measure (v2_invoke_read Success copied s1) < v2_read_measure s1"
    using 2 by (intro v2_invoke_read_measure [of _ room]) simp
  also have "v2_read_measure s1 = v2_read_measure s" using 2 by (simp add: v2_read_measure_def)
  finally show ?case
    using 2 v2_next_buffer_measure [of view "v2_invoke_read Success copied s1"] by (metis fst_conv in_measure case_prod_conv)
qed

declare v2_deliver_loop.simps [simp del]

function v2_eof_loop :: "v2_stream \<Rightarrow> v2_stream" where
  "v2_eof_loop s = (if v2_read_handler s \<noteq> None then v2_eof_loop (v2_invoke_read Eof [] s) else s)"
  by pat_completeness auto
termination
  by (relation "measure v2_read_measure") (auto intro: v2_invoke_read_measure)

declare v2_eof_loop.simps [simp del]

text \<open>To apply back pressure, the window of the stream is opened after the handlers have run.\<close>

definition v2_consume :: "nat \<Rightarrow> v2_stream \<Rightarrow> v2_stream" where
  "v2_consume consumed s =
     (if consumed \<noteq> 0 then v2_emit V2_start_write (v2_emit (V2_extend_stream consumed) s) else s)"

text \<open>What is left after delivering goes into the queue.\<close>

definition v2_store :: "bytes \<Rightarrow> v2_stream \<Rightarrow> v2_stream" where
  "v2_store view s =
     (if v2_read_buffer s = [] then s
      else if v2_pending_read_buffers s = [] then s\<lparr>v2_pending_read_buffers := [v2_read_buffer s]\<rparr>
      else if view \<noteq> [] then s\<lparr>v2_pending_read_buffers := v2_pending_read_buffers s @ [view]\<rparr>
      else s)"

definition v2_finish_delivery :: "bytes \<Rightarrow> v2_stream \<Rightarrow> v2_stream" where
  "v2_finish_delivery view s =
     (if v2_read_buffer s = [] \<and> v2_eof_received s then v2_eof_loop s
      else let s1 = v2_store view s
           in if v2_read_handler s1 = None then s1
              else if v2_reading_finished s1 \<or> v2_closed s1 then v2_invoke_read Partial_message [] s1
              else s1)"

text \<open>What \<open>call_read_handler\<close> does once it has found a reader waiting and nobody else at work.\<close>

definition v2_deliver_and_finish :: "bytes \<Rightarrow> v2_stream \<Rightarrow> v2_stream" where
  "v2_deliver_and_finish view s =
     (let (s1, view1) = (if v2_pending_read_buffers s = [] then (s\<lparr>v2_read_buffer := view\<rparr>, v2_read_buffer s)
                         else (s, view));
          (s2, view2, consumed) = v2_deliver_loop s1 view1 0
      in v2_finish_delivery view2 (v2_consume consumed s2))"

text \<open>\<open>call_read_handler\<close> without the deferred close at its end.\<close>

definition v2_call_read_handler_body :: "bytes \<Rightarrow> v2_stream \<Rightarrow> v2_stream" where
  "v2_call_read_handler_body view s =
     (if v2_read_handler s = None then
        (if view \<noteq> [] then
           let p = v2_pending_read_buffers s @ [view]
           in s\<lparr>v2_pending_read_buffers := p,
                v2_read_buffer := (if length p = 1 then hd p else v2_read_buffer s)\<rparr>
         else s)
      else if v2_inside_call_read_handler s then s
      else (v2_deliver_and_finish view (s\<lparr>v2_inside_call_read_handler := True\<rparr>))\<lparr>v2_inside_call_read_handler := False\<rparr>)"

section \<open>What nghttp2 refers to\<close>

text \<open>The memory nghttp2 has a vector into, from where it will go on reading. The buffer of the caller is his again once his
  write has completed.\<close>

definition v2_memory :: "v2_stream \<Rightarrow> bytes option" where
  "v2_memory s =
     (case v2_write_mode s of
        V2_zero_copy \<Rightarrow>
          if v2_write_handler s then Some (drop (v2_offered s - v2_lent s) (take (v2_offered s) (v2_write_buffer s))) else None
      | V2_staged \<Rightarrow> Some (drop (length (v2_write_chunk s) - v2_lent s) (v2_write_chunk s)))"

text \<open>What was handed over and is not in a frame yet.\<close>

definition v2_in_flight :: "v2_stream \<Rightarrow> bytes" where
  "v2_in_flight s = (if v2_lent s = 0 then [] else case v2_memory s of None \<Rightarrow> [] | Some m \<Rightarrow> m)"

section \<open>Closing\<close>

text \<open>A write that waits when the stream closes is told \<open>canceled\<close> if it was its own cancellation that reset the stream. nghttp2
  has forgotten the stream by now, and refers to nothing of it any more.\<close>

definition v2_mark_closed :: "v2_stream \<Rightarrow> v2_stream" where
  "v2_mark_closed s =
     (let s1 = s\<lparr>v2_closed := True, v2_lent := 0\<rparr>
      in if v2_write_handler s1
         then v2_emit (V2_write (if v2_write_cancelled s1 then Canceled else Connection_reset))
                (s1\<lparr>v2_write_handler := False, v2_body := v2_wire s @ v2_in_flight s\<rparr>)
         else s1)"

text \<open>\<open>NGHttp2Session::close_stream\<close>, where \<open>call_rh\<close> is \<open>call_read_handler()\<close>; see \<open>H2_Stream\<close>.\<close>

definition v2_close_stream_with :: "(v2_stream \<Rightarrow> v2_stream) \<Rightarrow> v2_stream \<Rightarrow> v2_stream" where
  "v2_close_stream_with call_rh s =
     (if \<not> v2_in_map s then s
      else
        let s2 = v2_mark_closed s
        in if \<not> v2_response_delivered s2 \<and> (v2_has_response s2 \<or> v2_response_error s2 \<noteq> Success)
           then call_rh s2
           else if v2_reader s2 \<and> v2_eof_received s2 \<and> \<not> v2_reading_finished s2
           then s2\<lparr>v2_close_deferred := True\<rparr>
           else
             let s3 = v2_emit V2_erase (s2\<lparr>v2_in_map := False\<rparr>);
                 s4 = (if v2_read_handler s3 \<noteq> None
                       then v2_call_read_handler_body [] (v2_invoke_read Partial_message [] s3) else s3)
             in if v2_response_handler s4
                then v2_emit (V2_response End_of_stream) (s4\<lparr>v2_response_handler := False\<rparr>) else s4)"

definition v2_finish_deferred_close :: "v2_stream \<Rightarrow> v2_stream" where
  "v2_finish_deferred_close s =
     (if v2_close_deferred s \<and> v2_reading_finished s \<and> v2_read_handler s = None \<and> \<not> v2_inside_call_read_handler s
      then v2_close_stream_with (v2_call_read_handler_body []) (s\<lparr>v2_close_deferred := False\<rparr>)
      else s)"

definition v2_call_read_handler :: "bytes \<Rightarrow> v2_stream \<Rightarrow> v2_stream" where
  "v2_call_read_handler view s = v2_finish_deferred_close (v2_call_read_handler_body view s)"

definition v2_close_stream :: "v2_stream \<Rightarrow> v2_stream" where
  "v2_close_stream s = v2_close_stream_with (v2_call_read_handler []) s"

definition v2_reader_dtor :: "v2_stream \<Rightarrow> v2_stream" where
  "v2_reader_dtor s = v2_finish_deferred_close (v2_delete_reader (s\<lparr>v2_reader := False\<rparr>))"

definition v2_writer_dtor :: "v2_stream \<Rightarrow> v2_stream" where
  "v2_writer_dtor s = v2_maybe_close_stream (s\<lparr>v2_writer := False\<rparr>)"

section \<open>Reading\<close>

definition v2_on_data :: "bytes \<Rightarrow> v2_stream \<Rightarrow> v2_stream" where
  "v2_on_data data s = v2_call_read_handler data (s\<lparr>v2_received := v2_received s @ data\<rparr>)"

definition v2_on_eof :: "v2_stream \<Rightarrow> v2_stream" where
  "v2_on_eof s = v2_call_read_handler [] (s\<lparr>v2_eof_received := True\<rparr>)"

definition v2_async_read_some :: "nat \<Rightarrow> v2_stream \<Rightarrow> v2_stream" where
  "v2_async_read_some n s =
     (if n = 0 then v2_emit (V2_read Success [] 0) s
      else v2_call_read_handler [] (s\<lparr>v2_read_handler := Some n\<rparr>))"

definition v2_cancel_read :: "v2_stream \<Rightarrow> v2_stream" where
  "v2_cancel_read s =
     (if v2_read_handler s \<noteq> None
      then v2_emit (V2_read Canceled [] 0) (s\<lparr>v2_read_handler := None\<rparr>) else s)"

text \<open>A reader that has outlived its stream.\<close>

definition v2_reader_detach_ec :: "v2_stream \<Rightarrow> error_code" where
  "v2_reader_detach_ec s = (if v2_reading_finished s then Eof else Partial_message)"

definition v2_detached_read :: "error_code \<Rightarrow> nat \<Rightarrow> v2_event" where
  "v2_detached_read detached_ec n = V2_read (if n = 0 then Success else detached_ec) [] 0"

section \<open>Writing\<close>

definition v2_resume :: "v2_stream \<Rightarrow> v2_stream" where
  [stream_defs]: "v2_resume s =
     (if v2_is_deferred s
      then v2_emit V2_start_write (v2_emit V2_resume_stream (s\<lparr>v2_is_deferred := False\<rparr>)) else s)"

definition v2_async_write :: "bytes \<Rightarrow> bool \<Rightarrow> v2_stream \<Rightarrow> v2_stream" where
  "v2_async_write buffer eof s =
     (if buffer = [] \<and> \<not> eof then v2_emit (V2_write Success) s
      else if v2_eof_requested s \<and> buffer \<noteq> [] then v2_emit (V2_write Broken_pipe) s
      else if v2_eof_requested s \<and> v2_eof_submitted s then v2_emit (V2_write Success) s
      else if v2_closed s then v2_emit (V2_write Connection_reset) s
      else v2_resume (s\<lparr>v2_write_buffer := buffer, v2_offered := 0, v2_written := 0,
                        v2_eof_requested := v2_eof_requested s \<or> eof, v2_write_handler := True,
                        v2_body := v2_wire s @ v2_in_flight s @ buffer\<rparr>))"

text \<open>Memory that nghttp2 refers to cannot be taken back: the write is left waiting for the end of the stream.\<close>

definition v2_cancel_write :: "v2_stream \<Rightarrow> v2_stream" where
  "v2_cancel_write s =
     (if \<not> v2_write_handler s then s
      else if v2_write_mode s = V2_zero_copy \<and> v2_written s < v2_offered s \<and> \<not> v2_closed s
      then v2_emit V2_start_write (v2_emit (V2_shutdown_stream Rst_cancel) (s\<lparr>v2_write_cancelled := True\<rparr>))
      else v2_emit (V2_write Canceled)
             (s\<lparr>v2_write_handler := False, v2_body := v2_wire s @ v2_in_flight s\<rparr>))"

text \<open>\<open>data_reader\<close>: what it returns, with the vector it fills and whether it carries the end.\<close>

datatype v2_read_data = V2_would_block | V2_data bytes bool

definition v2_data_reader :: "nat \<Rightarrow> v2_stream \<Rightarrow> v2_stream \<times> v2_read_data" where
  "v2_data_reader veccnt s =
     (if \<not> v2_write_handler s then
        if v2_eof_submitted s then (s, V2_data [] True)
        else (s\<lparr>v2_is_deferred := True\<rparr>, V2_would_block)
      else
        let left = length (v2_write_buffer s) - v2_offered s
        in if left = 0 then
             if \<not> v2_eof_requested s \<or> v2_eof_submitted s then (s\<lparr>v2_is_deferred := True\<rparr>, V2_would_block)
             else (v2_emit (V2_write Success) (s\<lparr>v2_eof_submitted := True, v2_write_handler := False\<rparr>), V2_data [] True)
           else if veccnt = 0 then (s\<lparr>v2_is_deferred := True\<rparr>, V2_would_block)
           else
             let offer = (case v2_write_mode s of V2_zero_copy \<Rightarrow> left | V2_staged \<Rightarrow> min left write_chunk_size);
                 vec = take offer (drop (v2_offered s) (v2_write_buffer s));
                 s1 = (case v2_write_mode s of V2_zero_copy \<Rightarrow> s | V2_staged \<Rightarrow> s\<lparr>v2_write_chunk := vec\<rparr>);
                 s2 = s1\<lparr>v2_offered := v2_offered s + offer, v2_lent := offer\<rparr>;
                 last = (v2_offered s2 = length (v2_write_buffer s));
                 eof = (last \<and> v2_eof_requested s);
                 s3 = (if eof then s2\<lparr>v2_eof_submitted := True\<rparr> else s2)
             in (if last \<and> v2_write_mode s = V2_staged
                 then v2_emit (V2_write Success) (s3\<lparr>v2_write_handler := False\<rparr>) else s3,
                 V2_data vec eof))"

definition v2_on_write_offset :: "nat \<Rightarrow> v2_stream \<Rightarrow> v2_stream" where
  "v2_on_write_offset len s =
     (let s1 = s\<lparr>v2_bytesWritten := v2_bytesWritten s + len\<rparr>
      in if v2_write_mode s1 \<noteq> V2_zero_copy then s1
         else let s2 = s1\<lparr>v2_written := v2_written s1 + len\<rparr>
              in if \<not> v2_write_handler s2 \<or> v2_written s2 < length (v2_write_buffer s2) then s2
                 else v2_emit (V2_write Success) (s2\<lparr>v2_write_handler := False\<rparr>))"

text \<open>nghttp2 makes a frame of the next bytes it refers to, which it reads from memory now, and reports it. A read from memory
  that is not there any more is the value \<open>None\<close>.\<close>

definition v2_frame :: "nat \<Rightarrow> v2_stream \<Rightarrow> v2_stream option" where
  "v2_frame n s =
     (case v2_memory s of
        None \<Rightarrow> None
      | Some m \<Rightarrow> Some (v2_on_write_offset n (s\<lparr>v2_wire := v2_wire s @ take n m, v2_lent := v2_lent s - n\<rparr>)))"

text \<open>A writer that has outlived its stream.\<close>

definition v2_detached_write :: "bool \<Rightarrow> bytes \<Rightarrow> bool \<Rightarrow> error_code" where
  "v2_detached_write detached_eof_submitted buffer eof =
     (if buffer = [] \<and> \<not> eof then Success
      else if detached_eof_submitted then (if buffer = [] then Success else Broken_pipe)
      else Connection_aborted)"

section \<open>The response of a request\<close>

definition v2_deliver_response :: "v2_stream \<Rightarrow> v2_stream" where
  "v2_deliver_response s =
     (if \<not> v2_has_response s \<and> v2_response_error s = Success then s
      else if \<not> v2_response_handler s then s
      else if v2_response_error s \<noteq> Success then
        let s1 = v2_emit (V2_response (v2_response_error s))
                   (s\<lparr>v2_response_delivered := True, v2_response_handler := False\<rparr>)
        in if v2_closed s1 then v2_close_stream s1 else s1
      else v2_emit (V2_response Success)
             (s\<lparr>v2_response_delivered := True, v2_reader := True, v2_response_handler := False\<rparr>))"

definition v2_async_get_response :: "v2_stream \<Rightarrow> v2_stream" where
  "v2_async_get_response s =
     (if v2_response_delivered s then v2_emit (V2_response Already_started) s
      else v2_deliver_response (s\<lparr>v2_response_handler := True\<rparr>))"

definition v2_cancel_get_response :: "v2_stream \<Rightarrow> v2_stream" where
  "v2_cancel_get_response s =
     (if v2_response_handler s
      then v2_emit (V2_response Canceled) (s\<lparr>v2_response_handler := False\<rparr>) else s)"

definition v2_on_response :: "v2_stream \<Rightarrow> v2_stream" where
  "v2_on_response s =
     v2_deliver_response
       (if v2_header_limit_exceeded s
        then v2_emit (V2_shutdown_stream Rst_cancel) (s\<lparr>v2_response_error := Header_limit\<rparr>)
        else s\<lparr>v2_has_response := True\<rparr>)"

text \<open>On the server, a request comes with a reader for its body and a writer for the response.\<close>

definition v2_on_request :: "v2_stream \<Rightarrow> v2_stream" where
  "v2_on_request s = s\<lparr>v2_server := True, v2_reader := True, v2_writer := True\<rparr>"

section \<open>The end\<close>

text \<open>\<open>~NGHttp2Stream\<close>. The read that is still pending is told the number of bytes read so far, on the
  whole stream, although none of them is in its buffer.\<close>

definition v2_dtor :: "v2_stream \<Rightarrow> v2_stream" where
  "v2_dtor s =
     (let s1 = (if v2_reader s then v2_emit (V2_reader_detach (v2_reader_detach_ec s)) s else s);
          s2 = (if v2_writer s1 then v2_emit (V2_writer_detach (v2_eof_submitted s1)) s1 else s1);
          s3 = (if v2_response_handler s2
                then v2_emit (V2_response Canceled) (s2\<lparr>v2_response_handler := False\<rparr>) else s2);
          s4 = (if v2_read_handler s3 \<noteq> None
                then v2_emit (V2_read Partial_message [] (v2_bytesRead s3)) (s3\<lparr>v2_read_handler := None\<rparr>) else s3)
      in if v2_write_handler s4
         then v2_emit (V2_write Canceled) (s4\<lparr>v2_write_handler := False, v2_body := v2_wire s4 @ v2_in_flight s4\<rparr>) else s4)"

end
