(* ===== verification/H2v2_View.thy ===== *)
theory H2v2_View
  imports H2v2_Stream H2_Machine
begin

text \<open>
  The incoming side of a stream of version 2 is that of version 1: \<open>v2_view\<close> lifts a stream of version 2 to one of version 1
  that has nothing to write, and every operation on the incoming body, the response and the end of the stream does to the
  view what the operation of version 1 does. A reset that is posted counts as the reset it will be. What the outgoing side is
  made of (\<open>v2_out\<close>) these operations leave alone, but for the write that the end of the stream answers.
\<close>

section \<open>The view\<close>

fun view_event :: "v2_event \<Rightarrow> h2_event list" where
  "view_event (V2_read ec d n) = [H2_read ec d n]"
| "view_event (V2_write ec) = []"
| "view_event (V2_response ec) = [H2_response ec]"
| "view_event (V2_extend_stream n) = [H2_consume n]"
| "view_event V2_start_write = [H2_start_write]"
| "view_event V2_resume_stream = [H2_resume_data]"
| "view_event (V2_shutdown_stream c) = [H2_rst_stream c]"
| "view_event V2_post_reset = [H2_rst_stream Rst_stream_closed, H2_start_write]"
| "view_event V2_erase = [H2_erase]"
| "view_event (V2_reader_detach ec) = [H2_reader_detach ec]"
| "view_event (V2_writer_detach b) = [H2_writer_detach b]"

definition v2_view :: "v2_stream \<Rightarrow> h2_stream" where
  "v2_view s = \<lparr>
     hs_bytesRead = v2_bytesRead s, hs_eof_received = v2_eof_received s, hs_read_buffer = v2_read_buffer s,
     hs_pending_read_buffers = v2_pending_read_buffers s, hs_write_buffer = [], hs_write_handler = False,
     hs_is_deferred = False, hs_eof_requested = v2_eof_requested s, hs_eof_submitted = v2_eof_submitted s,
     hs_response_handler = v2_response_handler s, hs_has_response = v2_has_response s, hs_response_delivered =
     v2_response_delivered s, hs_response_error = v2_response_error s, hs_header_limit_exceeded =
     v2_header_limit_exceeded s, hs_closed = v2_closed s, hs_close_deferred = v2_close_deferred s,
     hs_read_handler = v2_read_handler s, hs_inside_call_read_handler = v2_inside_call_read_handler s,
     hs_reader = v2_reader s, hs_writer = v2_writer s, hs_in_map = v2_in_map s, hs_server = v2_server s,
     hs_script = v2_script s, hs_events = concat (map view_event (v2_events s)), hs_received = v2_received s,
     hs_body = [], hs_wire = []\<rparr>"

fun is_v2_write :: "v2_event \<Rightarrow> bool" where
  "is_v2_write (V2_write ec) = True"
| "is_v2_write _ = False"

definition v2_out :: "v2_stream \<Rightarrow> v2_stream" where
  "v2_out s =
     s\<lparr>
       v2_bytesRead := 0, v2_eof_received := False, v2_read_buffer := [], v2_pending_read_buffers := [],
       v2_response_handler := False, v2_has_response := False, v2_response_delivered := False,
       v2_response_error := Success, v2_header_limit_exceeded := False, v2_close_deferred := False,
       v2_read_handler := None, v2_inside_call_read_handler := False, v2_reader := False, v2_writer := False,
       v2_in_map := False, v2_server := False, v2_posted := 0, v2_script := [], v2_received := [], v2_events
       := filter is_v2_write (v2_events s)\<rparr>"

lemma v2_view_sel [simp]:
  "hs_bytesRead (v2_view s) = v2_bytesRead s" "hs_eof_received (v2_view s) = v2_eof_received s"
  "hs_read_buffer (v2_view s) = v2_read_buffer s" "hs_pending_read_buffers (v2_view s) = v2_pending_read_buffers s"
  "hs_eof_requested (v2_view s) = v2_eof_requested s" "hs_eof_submitted (v2_view s) = v2_eof_submitted s"
  "hs_response_handler (v2_view s) = v2_response_handler s" "hs_has_response (v2_view s) = v2_has_response s"
  "hs_response_delivered (v2_view s) = v2_response_delivered s" "hs_response_error (v2_view s) = v2_response_error s"
  "hs_header_limit_exceeded (v2_view s) = v2_header_limit_exceeded s" "hs_closed (v2_view s) = v2_closed s"
  "hs_close_deferred (v2_view s) = v2_close_deferred s" "hs_read_handler (v2_view s) = v2_read_handler s"
  "hs_inside_call_read_handler (v2_view s) = v2_inside_call_read_handler s" "hs_reader (v2_view s) = v2_reader s"
  "hs_writer (v2_view s) = v2_writer s" "hs_in_map (v2_view s) = v2_in_map s" "hs_server (v2_view s) = v2_server s"
  "hs_script (v2_view s) = v2_script s" "hs_received (v2_view s) = v2_received s"
  "\<not> hs_write_handler (v2_view s)" "hs_body (v2_view s) = []" "hs_wire (v2_view s) = []"
  "\<not> hs_is_deferred (v2_view s)"
  by (simp_all add: v2_view_def)

lemma v2_view_upd [simp]:
  "v2_view (s\<lparr>v2_bytesRead := x0\<rparr>) = (v2_view s)\<lparr>hs_bytesRead := x0\<rparr>"
  "v2_view (s\<lparr>v2_eof_received := x1\<rparr>) = (v2_view s)\<lparr>hs_eof_received := x1\<rparr>"
  "v2_view (s\<lparr>v2_read_buffer := x2\<rparr>) = (v2_view s)\<lparr>hs_read_buffer := x2\<rparr>"
  "v2_view (s\<lparr>v2_pending_read_buffers := x3\<rparr>) = (v2_view s)\<lparr>hs_pending_read_buffers := x3\<rparr>"
  "v2_view (s\<lparr>v2_eof_requested := x4\<rparr>) = (v2_view s)\<lparr>hs_eof_requested := x4\<rparr>"
  "v2_view (s\<lparr>v2_eof_submitted := x5\<rparr>) = (v2_view s)\<lparr>hs_eof_submitted := x5\<rparr>"
  "v2_view (s\<lparr>v2_response_handler := x6\<rparr>) = (v2_view s)\<lparr>hs_response_handler := x6\<rparr>"
  "v2_view (s\<lparr>v2_has_response := x7\<rparr>) = (v2_view s)\<lparr>hs_has_response := x7\<rparr>"
  "v2_view (s\<lparr>v2_response_delivered := x8\<rparr>) = (v2_view s)\<lparr>hs_response_delivered := x8\<rparr>"
  "v2_view (s\<lparr>v2_response_error := x9\<rparr>) = (v2_view s)\<lparr>hs_response_error := x9\<rparr>"
  "v2_view (s\<lparr>v2_header_limit_exceeded := x10\<rparr>) = (v2_view s)\<lparr>hs_header_limit_exceeded := x10\<rparr>"
  "v2_view (s\<lparr>v2_closed := x11\<rparr>) = (v2_view s)\<lparr>hs_closed := x11\<rparr>"
  "v2_view (s\<lparr>v2_close_deferred := x12\<rparr>) = (v2_view s)\<lparr>hs_close_deferred := x12\<rparr>"
  "v2_view (s\<lparr>v2_read_handler := x13\<rparr>) = (v2_view s)\<lparr>hs_read_handler := x13\<rparr>"
  "v2_view (s\<lparr>v2_inside_call_read_handler := x14\<rparr>) = (v2_view s)\<lparr>hs_inside_call_read_handler := x14\<rparr>"
  "v2_view (s\<lparr>v2_reader := x15\<rparr>) = (v2_view s)\<lparr>hs_reader := x15\<rparr>"
  "v2_view (s\<lparr>v2_writer := x16\<rparr>) = (v2_view s)\<lparr>hs_writer := x16\<rparr>"
  "v2_view (s\<lparr>v2_in_map := x17\<rparr>) = (v2_view s)\<lparr>hs_in_map := x17\<rparr>"
  "v2_view (s\<lparr>v2_server := x18\<rparr>) = (v2_view s)\<lparr>hs_server := x18\<rparr>"
  "v2_view (s\<lparr>v2_script := x19\<rparr>) = (v2_view s)\<lparr>hs_script := x19\<rparr>"
  "v2_view (s\<lparr>v2_received := x20\<rparr>) = (v2_view s)\<lparr>hs_received := x20\<rparr>"
  "v2_view (s\<lparr>v2_bytesWritten := y0\<rparr>) = v2_view s"
  "v2_view (s\<lparr>v2_write_mode := y1\<rparr>) = v2_view s"
  "v2_view (s\<lparr>v2_write_buffer := y2\<rparr>) = v2_view s"
  "v2_view (s\<lparr>v2_write_handler := y3\<rparr>) = v2_view s"
  "v2_view (s\<lparr>v2_write_chunk := y4\<rparr>) = v2_view s"
  "v2_view (s\<lparr>v2_offered := y5\<rparr>) = v2_view s" "v2_view (s\<lparr>v2_written := y6\<rparr>) = v2_view s"
  "v2_view (s\<lparr>v2_is_deferred := y7\<rparr>) = v2_view s"
  "v2_view (s\<lparr>v2_write_cancelled := y8\<rparr>) = v2_view s"
  "v2_view (s\<lparr>v2_posted := y9\<rparr>) = v2_view s" "v2_view (s\<lparr>v2_lent := y10\<rparr>) = v2_view s"
  "v2_view (s\<lparr>v2_body := y11\<rparr>) = v2_view s" "v2_view (s\<lparr>v2_wire := y12\<rparr>) = v2_view s"
  by (simp_all add: v2_view_def)

lemma v2_view_emit [simp]:
  "v2_view (v2_emit (V2_read ec d n) s) = hs_emit (H2_read ec d n) (v2_view s)"
  "v2_view (v2_emit (V2_write ec) s) = v2_view s"
  "v2_view (v2_emit (V2_response ec) s) = hs_emit (H2_response ec) (v2_view s)"
  "v2_view (v2_emit (V2_extend_stream n) s) = hs_emit (H2_consume n) (v2_view s)"
  "v2_view (v2_emit V2_start_write s) = hs_emit H2_start_write (v2_view s)"
  "v2_view (v2_emit V2_resume_stream s) = hs_emit H2_resume_data (v2_view s)"
  "v2_view (v2_emit (V2_shutdown_stream c) s) = hs_emit (H2_rst_stream c) (v2_view s)"
  "v2_view (v2_emit V2_post_reset s) = hs_emit H2_start_write (hs_emit (H2_rst_stream Rst_stream_closed) (v2_view s))"
  "v2_view (v2_emit V2_erase s) = hs_emit H2_erase (v2_view s)"
  "v2_view (v2_emit (V2_reader_detach ec) s) = hs_emit (H2_reader_detach ec) (v2_view s)"
  "v2_view (v2_emit (V2_writer_detach b) s) = hs_emit (H2_writer_detach b) (v2_view s)"
  by (simp_all add: v2_view_def v2_emit_def hs_emit_def)

lemma v2_emit_sel [simp]:
  "v2_write_mode (v2_emit e s) = v2_write_mode s" "v2_write_buffer (v2_emit e s) = v2_write_buffer s"
  "v2_write_handler (v2_emit e s) = v2_write_handler s" "v2_write_chunk (v2_emit e s) = v2_write_chunk s"
  "v2_offered (v2_emit e s) = v2_offered s" "v2_written (v2_emit e s) = v2_written s"
  "v2_is_deferred (v2_emit e s) = v2_is_deferred s" "v2_write_cancelled (v2_emit e s) = v2_write_cancelled s"
  "v2_eof_requested (v2_emit e s) = v2_eof_requested s" "v2_eof_submitted (v2_emit e s) = v2_eof_submitted s"
  "v2_closed (v2_emit e s) = v2_closed s" "v2_lent (v2_emit e s) = v2_lent s" "v2_body (v2_emit e s) = v2_body s"
  "v2_wire (v2_emit e s) = v2_wire s" "v2_bytesWritten (v2_emit e s) = v2_bytesWritten s"
  "v2_bytesRead (v2_emit e s) = v2_bytesRead s" "v2_eof_received (v2_emit e s) = v2_eof_received s"
  "v2_read_buffer (v2_emit e s) = v2_read_buffer s"
  "v2_pending_read_buffers (v2_emit e s) = v2_pending_read_buffers s"
  "v2_response_handler (v2_emit e s) = v2_response_handler s" "v2_has_response (v2_emit e s) = v2_has_response s"
  "v2_response_delivered (v2_emit e s) = v2_response_delivered s"
  "v2_response_error (v2_emit e s) = v2_response_error s"
  "v2_header_limit_exceeded (v2_emit e s) = v2_header_limit_exceeded s"
  "v2_close_deferred (v2_emit e s) = v2_close_deferred s" "v2_read_handler (v2_emit e s) = v2_read_handler s"
  "v2_inside_call_read_handler (v2_emit e s) = v2_inside_call_read_handler s" "v2_reader (v2_emit e s) = v2_reader s"
  "v2_writer (v2_emit e s) = v2_writer s" "v2_in_map (v2_emit e s) = v2_in_map s"
  "v2_server (v2_emit e s) = v2_server s" "v2_posted (v2_emit e s) = v2_posted s"
  "v2_script (v2_emit e s) = v2_script s" "v2_received (v2_emit e s) = v2_received s"
  by (simp_all add: v2_emit_def)

lemma hs_emit_sel:
  "hs_read_handler (hs_emit e t) = hs_read_handler t" "hs_response_handler (hs_emit e t) = hs_response_handler t"
  "hs_closed (hs_emit e t) = hs_closed t" "hs_writer (hs_emit e t) = hs_writer t" "hs_bytesRead (hs_emit e t) = hs_bytesRead t"
  "hs_eof_submitted (hs_emit e t) = hs_eof_submitted t" "hs_write_handler (hs_emit e t) = hs_write_handler t"
  by (simp_all add: hs_emit_def)

lemma v2_out_eqD:
  assumes "v2_out s = v2_out t"
  shows
  "v2_write_mode s = v2_write_mode t" "v2_write_buffer s = v2_write_buffer t"
  "v2_write_handler s = v2_write_handler t" "v2_write_chunk s = v2_write_chunk t" "v2_offered s = v2_offered t"
  "v2_written s = v2_written t" "v2_is_deferred s = v2_is_deferred t" "v2_write_cancelled s = v2_write_cancelled t"
  "v2_eof_requested s = v2_eof_requested t" "v2_eof_submitted s = v2_eof_submitted t" "v2_closed s = v2_closed t"
  "v2_lent s = v2_lent t" "v2_body s = v2_body t" "v2_wire s = v2_wire t" "v2_bytesWritten s = v2_bytesWritten t"
  "filter is_v2_write (v2_events s) = filter is_v2_write (v2_events t)"
  using assms by (cases s; cases t; simp add: v2_out_def)+

lemma v2_out_upd [simp]:
  "v2_out (s\<lparr>v2_bytesRead := x0\<rparr>) = v2_out s"
  "v2_out (s\<lparr>v2_eof_received := x1\<rparr>) = v2_out s"
  "v2_out (s\<lparr>v2_read_buffer := x2\<rparr>) = v2_out s"
  "v2_out (s\<lparr>v2_pending_read_buffers := x3\<rparr>) = v2_out s"
  "v2_out (s\<lparr>v2_response_handler := x4\<rparr>) = v2_out s"
  "v2_out (s\<lparr>v2_has_response := x5\<rparr>) = v2_out s"
  "v2_out (s\<lparr>v2_response_delivered := x6\<rparr>) = v2_out s"
  "v2_out (s\<lparr>v2_response_error := x7\<rparr>) = v2_out s"
  "v2_out (s\<lparr>v2_header_limit_exceeded := x8\<rparr>) = v2_out s"
  "v2_out (s\<lparr>v2_close_deferred := x9\<rparr>) = v2_out s"
  "v2_out (s\<lparr>v2_read_handler := x10\<rparr>) = v2_out s"
  "v2_out (s\<lparr>v2_inside_call_read_handler := x11\<rparr>) = v2_out s"
  "v2_out (s\<lparr>v2_reader := x12\<rparr>) = v2_out s" "v2_out (s\<lparr>v2_writer := x13\<rparr>) = v2_out s"
  "v2_out (s\<lparr>v2_in_map := x14\<rparr>) = v2_out s" "v2_out (s\<lparr>v2_server := x15\<rparr>) = v2_out s"
  "v2_out (s\<lparr>v2_posted := x16\<rparr>) = v2_out s" "v2_out (s\<lparr>v2_script := x17\<rparr>) = v2_out s"
  "v2_out (s\<lparr>v2_received := x18\<rparr>) = v2_out s"
  by (simp_all add: v2_out_def)

lemma v2_out_emit [simp]: "\<not> is_v2_write e \<Longrightarrow> v2_out (v2_emit e s) = v2_out s"
  by (simp add: v2_out_def v2_emit_def)

section \<open>Delivering\<close>

text \<open>An operation of version 2 that does to the view what one of version 1 does, and leaves the outgoing side alone.\<close>

definition v2_like :: "(v2_stream \<Rightarrow> v2_stream) \<Rightarrow> (h2_stream \<Rightarrow> h2_stream) \<Rightarrow> bool" where
  "v2_like f g \<longleftrightarrow> (\<forall>s. v2_view (f s) = g (v2_view s) \<and> v2_out (f s) = v2_out s)"

lemma v2_likeD: "v2_like f g \<Longrightarrow> v2_view (f s) = g (v2_view s)" "v2_like f g \<Longrightarrow> v2_out (f s) = v2_out s"
  by (simp_all add: v2_like_def)

lemma view_tests [simp]:
  "reading_finished (v2_view s) = v2_reading_finished s" "read_buffers_size (v2_view s) = v2_read_buffers_size s"
  by (simp_all add: reading_finished_def v2_reading_finished_def read_buffers_size_def v2_read_buffers_size_def)

lemma like_maybe_close: "v2_like v2_maybe_close_stream maybe_close_stream"
  by (simp add: v2_like_def v2_maybe_close_stream_def maybe_close_stream_def)

lemma like_delete_reader: "v2_like v2_delete_reader delete_reader"
  by (simp add: v2_like_def v2_delete_reader_def delete_reader_def Let_def v2_likeD [OF like_maybe_close])

lemma like_reader_acts: "v2_like v2_reader_acts hs_reader_acts"
  unfolding v2_like_def v2_reader_acts_def hs_reader_acts_def
  by (auto simp: v2_likeD [OF like_delete_reader] split: list.split read_action.split)

lemma like_invoke: "v2_like (v2_invoke_read ec d) (hs_invoke_read ec d)"
  by (simp add: v2_like_def v2_invoke_read_def hs_invoke_read_def v2_likeD [OF like_reader_acts])

lemma like_next_buffer:
  "next_buffer view (v2_view s) = (v2_view (fst (v2_next_buffer view s)), snd (v2_next_buffer view s))"
  "v2_out (fst (v2_next_buffer view s)) = v2_out s"
  by (simp_all add: next_buffer_def v2_next_buffer_def Let_def)

lemma like_deliver_loop:
  "deliver_loop (v2_view s) view n =
     (v2_view (fst (v2_deliver_loop s view n)), snd (v2_deliver_loop s view n)) \<and>
   v2_out (fst (v2_deliver_loop s view n)) = v2_out s"
proof (induction s view n rule: v2_deliver_loop.induct)
  case (1 s view n)
  show ?case
  proof (cases "\<exists>room. v2_read_handler s = Some room \<and> v2_read_buffer s \<noteq> []")
    case True
    then obtain room where h: "v2_read_handler s = Some room" and b: "v2_read_buffer s \<noteq> []" by blast
    let ?c = "take room (v2_read_buffer s)"
    let ?s1 = "s\<lparr>v2_bytesRead := v2_bytesRead s + length ?c, v2_read_buffer := drop (length ?c) (v2_read_buffer s)\<rparr>"
    obtain s2 view2 where nb: "v2_next_buffer view (v2_invoke_read Success ?c ?s1) = (s2, view2)" by fastforce
    have "next_buffer view (hs_invoke_read Success ?c (v2_view ?s1)) = (v2_view s2, view2)" "v2_out s2 = v2_out s"
      using like_next_buffer [of view "v2_invoke_read Success ?c ?s1"] nb
      by (simp_all add: v2_likeD [OF like_invoke])
    moreover have "v2_deliver_loop s view n = v2_deliver_loop s2 view2 (n + length ?c)"
      using h b nb by (subst v2_deliver_loop.simps) (simp add: Let_def)
    moreover from calculation have "deliver_loop (v2_view s) view n = deliver_loop (v2_view s2) view2 (n + length ?c)"
      using h b by (subst deliver_loop.simps) (simp add: Let_def)
    ultimately show ?thesis using 1 [OF h b refl refl refl nb [symmetric]] by simp
  next
    case False
    then show ?thesis
      by (subst deliver_loop.simps, subst v2_deliver_loop.simps) (auto split: option.splits, auto simp: v2_deliver_loop.simps)
  qed
qed

lemma like_eof_loop: "v2_like v2_eof_loop eof_loop"
proof -
  have "v2_view (v2_eof_loop s) = eof_loop (v2_view s) \<and> v2_out (v2_eof_loop s) = v2_out s" for s
  proof (induction s rule: v2_eof_loop.induct)
    case (1 s)
    then show ?case
      by (subst v2_eof_loop.simps, subst eof_loop.simps, subst (2) v2_eof_loop.simps) (simp add: v2_likeD [OF like_invoke])
  qed
  then show ?thesis by (simp add: v2_like_def)
qed

lemma like_consume: "v2_like (v2_consume n) (hs_consume n)"
  by (simp add: v2_like_def v2_consume_def hs_consume_def)

lemma like_store: "v2_like (v2_store view) (hs_store view)"
  by (simp add: v2_like_def v2_store_def hs_store_def)

lemma like_finish: "v2_like (v2_finish_delivery view) (finish_delivery view)"
proof -
  have r: "reading_finished (hs_store view (v2_view s)) = v2_reading_finished (v2_store view s)"
    "hs_closed (hs_store view (v2_view s)) = v2_closed (v2_store view s)"
    "hs_read_handler (hs_store view (v2_view s)) = v2_read_handler (v2_store view s)" for s
    using v2_likeD(1) [OF like_store, of view s] by (metis v2_view_sel(12) v2_view_sel(14) view_tests(1))+
  show ?thesis
    unfolding v2_like_def v2_finish_delivery_def finish_delivery_def Let_def
    by (simp add: v2_likeD [OF like_eof_loop] v2_likeD [OF like_store] v2_likeD [OF like_invoke] r)
qed

lemma like_deliver: "v2_like (v2_deliver_and_finish view) (deliver_and_finish view)"
proof -
  have "v2_view (v2_deliver_and_finish view s) = deliver_and_finish view (v2_view s) \<and>
    v2_out (v2_deliver_and_finish view s) = v2_out s" for s
  proof -
    define a where "a = (if v2_pending_read_buffers s = [] then (s\<lparr>v2_read_buffer := view\<rparr>, v2_read_buffer s) else (s, view))"
    define b where "b = v2_deliver_loop (fst a) (snd a) 0"
    have d: "v2_deliver_and_finish view s = v2_finish_delivery (fst (snd b)) (v2_consume (snd (snd b)) (fst b))"
      by (simp add: v2_deliver_and_finish_def a_def [symmetric] b_def split_beta)
    have a: "(if hs_pending_read_buffers (v2_view s) = [] then ((v2_view s)\<lparr>hs_read_buffer := view\<rparr>, hs_read_buffer (v2_view s))
        else (v2_view s, view)) = (v2_view (fst a), snd a)" "v2_out (fst a) = v2_out s"
      by (simp_all add: a_def)
    have b: "deliver_loop (v2_view (fst a)) (snd a) 0 = (v2_view (fst b), snd b)" "v2_out (fst b) = v2_out (fst a)"
      using like_deliver_loop [of "fst a" "snd a" 0] by (simp_all add: b_def)
    have "deliver_and_finish view (v2_view s) = finish_delivery (fst (snd b)) (hs_consume (snd (snd b)) (v2_view (fst b)))"
      unfolding deliver_and_finish_def a by (simp add: b split_beta)
    then show ?thesis by (simp add: d v2_likeD [OF like_finish] v2_likeD [OF like_consume] a(2) b(2))
  qed
  then show ?thesis by (simp add: v2_like_def)
qed

lemma like_call_body: "v2_like (v2_call_read_handler_body view) (call_read_handler_body view)"
  by (simp add: v2_like_def v2_call_read_handler_body_def call_read_handler_body_def Let_def v2_likeD [OF like_deliver])

section \<open>Closing\<close>

lemma view_mark_closed [simp]: "v2_view (v2_mark_closed s) = hs_mark_closed (v2_view s)"
  by (simp add: v2_mark_closed_def hs_mark_closed_def Let_def)

lemma mark_closed_sel [simp]:
  "v2_closed (v2_mark_closed s)" "v2_in_map (v2_mark_closed s) = v2_in_map s" "v2_reader (v2_mark_closed s) = v2_reader s"
  "v2_eof_received (v2_mark_closed s) = v2_eof_received s" "v2_has_response (v2_mark_closed s) = v2_has_response s"
  "v2_response_error (v2_mark_closed s) = v2_response_error s" "v2_response_handler (v2_mark_closed s) = v2_response_handler s"
  "v2_response_delivered (v2_mark_closed s) = v2_response_delivered s" "v2_read_handler (v2_mark_closed s) = v2_read_handler s"
  "v2_reading_finished (v2_mark_closed s) = v2_reading_finished s" "v2_read_buffer (v2_mark_closed s) = v2_read_buffer s"
  by (simp_all add: v2_mark_closed_def Let_def v2_emit_def v2_reading_finished_def)

lemma v2_erase_read:
  defines "f \<equiv> \<lambda>s. if v2_read_handler s \<noteq> None then v2_call_read_handler_body [] (v2_invoke_read Partial_message [] s) else s"
  shows "v2_view (f s) = (if v2_read_handler s \<noteq> None
           then call_read_handler_body [] (hs_invoke_read Partial_message [] (v2_view s)) else v2_view s)"
    and "v2_out (f s) = v2_out s"
  by (simp_all add: f_def v2_likeD [OF like_call_body] v2_likeD [OF like_invoke])

lemma v2_close_with:
  assumes "\<And>t. v2_view (call_rh t) = g (v2_view t)"
  shows "v2_view (v2_close_stream_with call_rh s) = close_stream_with g (v2_view s)"
proof -
  define s3 where "s3 = v2_emit V2_erase ((v2_mark_closed s)\<lparr>v2_in_map := False\<rparr>)"
  define s4 where "s4 = (if v2_read_handler s3 \<noteq> None then v2_call_read_handler_body [] (v2_invoke_read Partial_message [] s3) else s3)"
  define t3 where "t3 = hs_emit H2_erase ((hs_mark_closed (v2_view s))\<lparr>hs_in_map := False\<rparr>)"
  define t4 where "t4 = (if hs_read_handler t3 \<noteq> None then call_read_handler_body [] (hs_invoke_read Partial_message [] t3) else t3)"
  have "v2_view s3 = t3" by (simp add: s3_def t3_def)
  then have v: "v2_view s4 = t4" unfolding s4_def t4_def v2_erase_read(1) by auto
  then have r: "hs_response_handler t4 = v2_response_handler s4" by auto
  show ?thesis
    unfolding v2_close_stream_with_def close_stream_with_eq Let_def s3_def [symmetric] t3_def [symmetric]
      s4_def [symmetric] t4_def [symmetric]
    by (simp add: assms r v)
qed

lemma v2_close_with_out:
  assumes "\<And>t. v2_closed t \<Longrightarrow> \<not> v2_write_handler t \<Longrightarrow> v2_lent t = 0 \<Longrightarrow> v2_out (call_rh t) = v2_out t" "v2_in_map s"
  shows "v2_out (v2_close_stream_with call_rh s) = v2_out (v2_mark_closed s)"
proof -
  have q: "v2_closed (v2_mark_closed s)" "\<not> v2_write_handler (v2_mark_closed s)" "v2_lent (v2_mark_closed s) = 0"
    by (simp_all add: v2_mark_closed_def Let_def)
  show ?thesis
    unfolding v2_close_stream_with_def Let_def
    using assms(2) assms(1) [OF q] v2_erase_read(2) [of "v2_emit V2_erase ((v2_mark_closed s)\<lparr>v2_in_map := False\<rparr>)"] by simp
qed

text \<open>A stream that is closed has no write waiting, and nghttp2 has nothing of it.\<close>

definition v2_over :: "v2_stream \<Rightarrow> bool" where
  "v2_over s \<longleftrightarrow> (v2_closed s \<longrightarrow> \<not> v2_write_handler s \<and> v2_lent s = 0) \<and> (v2_close_deferred s \<longrightarrow> v2_closed s)"

lemma mark_closed_again: "v2_closed s \<Longrightarrow> \<not> v2_write_handler s \<Longrightarrow> v2_lent s = 0 \<Longrightarrow> v2_out (v2_mark_closed s) = v2_out s"
  by (cases s) (simp add: v2_mark_closed_def Let_def v2_out_def)

lemma v2_finish_view [simp]: "v2_view (v2_finish_deferred_close s) = finish_deferred_close (v2_view s)"
  using v2_close_with [where call_rh = "v2_call_read_handler_body []" and g = "call_read_handler_body []"]
  by (simp add: v2_finish_deferred_close_def finish_deferred_close_def v2_likeD [OF like_call_body])

lemma v2_finish_out:
  assumes "v2_over s" shows "v2_out (v2_finish_deferred_close s) = v2_out s"
proof (cases "v2_close_deferred s \<and> v2_in_map s")
  case True
  let ?t = "s\<lparr>v2_close_deferred := False\<rparr>"
  have "v2_out (v2_close_stream_with (v2_call_read_handler_body []) ?t) = v2_out (v2_mark_closed ?t)"
    using True by (intro v2_close_with_out v2_likeD(2) [OF like_call_body]) simp_all
  also have "\<dots> = v2_out ?t" using assms True by (intro mark_closed_again) (simp_all add: v2_over_def)
  finally show ?thesis by (simp add: v2_finish_deferred_close_def)
qed (auto simp: v2_finish_deferred_close_def v2_close_stream_with_def)

lemma v2_call_view [simp]: "v2_view (v2_call_read_handler view s) = hs_call_read_handler view (v2_view s)"
  by (simp add: v2_call_read_handler_def hs_call_read_handler_def v2_likeD [OF like_call_body])

lemma v2_close_view [simp]: "v2_view (v2_close_stream s) = close_stream (v2_view s)"
  by (simp add: v2_close_stream_def close_stream_def v2_close_with)

section \<open>The operations\<close>

lemma v2_view_ops [simp]:
  "v2_view (v2_reader_dtor s) = hs_reader_dtor (v2_view s)" "v2_view (v2_writer_dtor s) = hs_writer_dtor (v2_view s)"
  "v2_view (v2_on_data d s) = hs_on_data d (v2_view s)" "v2_view (v2_on_eof s) = hs_on_eof (v2_view s)"
  "v2_view (v2_async_read_some n s) = hs_async_read_some n (v2_view s)" "v2_view (v2_cancel_read s) = hs_cancel_read (v2_view s)"
  "v2_view (v2_deliver_response s) = deliver_response (v2_view s)"
  "v2_view (v2_cancel_get_response s) = cancel_get_response (v2_view s)"
  "v2_view (v2_on_request s) = on_request (v2_view s)" "v2_view (v2_dtor s) = hs_dtor (v2_view s)"
proof -
  show "v2_view (v2_deliver_response s) = deliver_response (v2_view s)"
  proof -
    have "v2_closed (v2_emit e (s\<lparr>v2_response_delivered := a, v2_response_handler := b\<rparr>)) = v2_closed s"
      "hs_closed (hs_emit e' ((v2_view s)\<lparr>hs_response_delivered := a, hs_response_handler := b\<rparr>)) = v2_closed s" for e e' a b
      by (simp_all add: v2_emit_def hs_emit_def)
    then show ?thesis by (simp add: v2_deliver_response_def deliver_response_def Let_def)
  qed
  show "v2_view (v2_dtor s) = hs_dtor (v2_view s)"
    unfolding v2_dtor_def hs_dtor_def Let_def
    by (cases "v2_reader s"; cases "v2_writer s"; cases "v2_response_handler s"; cases "v2_read_handler s")
      (simp_all add: v2_reader_detach_ec_def h2_reader_detach_ec_def hs_emit_sel)
qed (simp_all add: v2_reader_dtor_def hs_reader_dtor_def v2_writer_dtor_def hs_writer_dtor_def v2_on_data_def hs_on_data_def
    v2_on_eof_def hs_on_eof_def v2_async_read_some_def hs_async_read_some_def v2_cancel_read_def hs_cancel_read_def
    v2_cancel_get_response_def cancel_get_response_def v2_on_request_def on_request_def
    v2_likeD [OF like_delete_reader] v2_likeD [OF like_maybe_close])

lemma v2_view_response [simp]:
  "v2_view (v2_async_get_response s) = async_get_response (v2_view s)" "v2_view (v2_on_response s) = on_response (v2_view s)"
  by (simp_all add: v2_async_get_response_def async_get_response_def v2_on_response_def on_response_def)

end
