(* ===== verification/H2v2_Machine.thy ===== *)
theory H2v2_Machine
  imports H2v2_View H2_Contracts
begin

text \<open>
  A stream of version 2 as a machine: the operations of the application, of nghttp2 and of the session in any order. The
  incoming side keeps the invariant of version 1, on the view; the outgoing side has its own (\<open>v2_write_inv\<close>).
\<close>

section \<open>Operations\<close>

datatype v2_op =
    Vop_script "read_action list"
  | Vop_read nat
  | Vop_cancel_read
  | Vop_data bytes
  | Vop_eof
  | Vop_drop_reader
  | Vop_write bytes bool
  | Vop_cancel_write
  | Vop_pull nat
  | Vop_frame nat
  | Vop_drop_writer
  | Vop_posted bool
  | Vop_get_response
  | Vop_cancel_response
  | Vop_header_limit
  | Vop_response
  | Vop_close

fun v2_exec :: "v2_op \<Rightarrow> v2_stream \<Rightarrow> v2_stream" where
  "v2_exec (Vop_script as) s = s\<lparr>v2_script := as\<rparr>"
| "v2_exec (Vop_read n) s = v2_async_read_some n s"
| "v2_exec Vop_cancel_read s = v2_cancel_read s"
| "v2_exec (Vop_data d) s = v2_on_data d s"
| "v2_exec Vop_eof s = v2_on_eof s"
| "v2_exec Vop_drop_reader s = v2_reader_dtor s"
| "v2_exec (Vop_write b eof) s = v2_async_write b eof s"
| "v2_exec Vop_cancel_write s = v2_cancel_write s"
| "v2_exec (Vop_pull veccnt) s = fst (v2_data_reader veccnt s)"
| "v2_exec (Vop_frame n) s = (case v2_frame n s of None \<Rightarrow> s | Some t \<Rightarrow> t)"
| "v2_exec Vop_drop_writer s = v2_writer_dtor s"
| "v2_exec (Vop_posted conn) s = v2_run_posted conn s"
| "v2_exec Vop_get_response s = v2_async_get_response s"
| "v2_exec Vop_cancel_response s = v2_cancel_get_response s"
| "v2_exec Vop_header_limit s = s\<lparr>v2_header_limit_exceeded := True\<rparr>"
| "v2_exec Vop_response s = v2_on_response s"
| "v2_exec Vop_close s = v2_close_stream s"

text \<open>nghttp2 delivers nothing for a stream it has closed, nothing behind the end of a body, and closes a stream once. It asks
  for data only if it has not been told to wait, with room for a vector, and only when all it was given before is in frames.
  The application uses a handle only as long as it has it, and has one read, one write and one request for the response
  outstanding at a time.\<close>

fun v2_enabled :: "v2_op \<Rightarrow> v2_stream \<Rightarrow> bool" where
  "v2_enabled (Vop_read n) s = (v2_reader s \<and> v2_read_handler s = None)"
| "v2_enabled (Vop_data d) s = (v2_in_map s \<and> \<not> v2_closed s \<and> \<not> v2_eof_received s)"
| "v2_enabled Vop_eof s = (v2_in_map s \<and> \<not> v2_closed s \<and> \<not> v2_eof_received s)"
| "v2_enabled Vop_drop_reader s = (v2_reader s \<and> v2_read_handler s = None)"
| "v2_enabled (Vop_write b eof) s = (v2_writer s \<and> \<not> v2_write_handler s)"
| "v2_enabled (Vop_pull veccnt) s = (\<not> v2_is_deferred s \<and> \<not> v2_closed s \<and> v2_lent s = 0 \<and> 0 < veccnt)"
| "v2_enabled (Vop_frame n) s = (\<not> v2_closed s \<and> 0 < n \<and> n \<le> v2_lent s)"
| "v2_enabled Vop_drop_writer s = v2_writer s"
| "v2_enabled (Vop_posted conn) s = (0 < v2_posted s)"
| "v2_enabled Vop_get_response s = (\<not> v2_server s \<and> v2_writer s \<and> \<not> v2_response_handler s)"
| "v2_enabled Vop_response s =
     (\<not> v2_server s \<and> v2_in_map s \<and> \<not> v2_closed s \<and> \<not> v2_has_response s \<and> v2_response_error s = Success)"
| "v2_enabled Vop_close s = (v2_in_map s \<and> \<not> v2_closed s)"
| "v2_enabled _ s = True"

text \<open>Streams of requests that came in and of ones that are submitted.\<close>

definition v2_start :: "v2_write_mode \<Rightarrow> bool \<Rightarrow> v2_stream" where
  "v2_start mode server = (if server then v2_on_request (v2_init mode) else (v2_init mode)\<lparr>v2_writer := True\<rparr>)"

section \<open>The incoming side\<close>

text \<open>The operation of version 1 that does the same; none for those of the outgoing body.\<close>

fun version_1 :: "v2_op \<Rightarrow> h2_op option" where
  "version_1 (Vop_script as) = Some (Hop_script as)"
| "version_1 (Vop_read n) = Some (Hop_read n)"
| "version_1 Vop_cancel_read = Some Hop_cancel_read"
| "version_1 (Vop_data d) = Some (Hop_data d)"
| "version_1 Vop_eof = Some Hop_eof"
| "version_1 Vop_drop_reader = Some Hop_drop_reader"
| "version_1 Vop_drop_writer = Some Hop_drop_writer"
| "version_1 Vop_get_response = Some Hop_get_response"
| "version_1 Vop_cancel_response = Some Hop_cancel_response"
| "version_1 Vop_header_limit = Some Hop_header_limit"
| "version_1 Vop_response = Some Hop_response"
| "version_1 Vop_close = Some Hop_close"
| "version_1 _ = None"

lemma v2_exec_version_1: "version_1 a = Some b \<Longrightarrow> v2_view (v2_exec a s) = hs_exec b (v2_view s)"
  by (cases a) auto

lemma v2_enabled_version_1: "version_1 a = Some b \<Longrightarrow> v2_enabled a s = hs_enabled b (v2_view s)"
  by (cases a) auto

text \<open>What \<open>data_reader\<close> leaves behind, case by case.\<close>

lemma data_reader_idle:
  "\<not> v2_write_handler s \<Longrightarrow> fst (v2_data_reader n s) = (if v2_eof_submitted s then s else s\<lparr>v2_is_deferred := True\<rparr>)"
  by (simp add: v2_data_reader_def)

lemma data_reader_end:
  "v2_write_handler s \<Longrightarrow> length (v2_write_buffer s) \<le> v2_offered s \<Longrightarrow>
   fst (v2_data_reader n s) =
     (if \<not> v2_eof_requested s \<or> v2_eof_submitted s then s\<lparr>v2_is_deferred := True\<rparr>
      else v2_emit (V2_write Success) (s\<lparr>v2_eof_submitted := True, v2_write_handler := False\<rparr>))"
  by (simp add: v2_data_reader_def Let_def)

lemma data_reader_zero_copy:
  "v2_write_handler s \<Longrightarrow> v2_offered s < length (v2_write_buffer s) \<Longrightarrow> 0 < n \<Longrightarrow> v2_write_mode s = V2_zero_copy \<Longrightarrow>
   fst (v2_data_reader n s) =
     s\<lparr>v2_offered := length (v2_write_buffer s), v2_lent := length (v2_write_buffer s) - v2_offered s,
       v2_eof_submitted := v2_eof_submitted s \<or> v2_eof_requested s\<rparr>"
  by (cases "v2_eof_requested s") (simp_all add: v2_data_reader_def Let_def)

lemma data_reader_staged:
  assumes "v2_write_handler s" "v2_offered s < length (v2_write_buffer s)" "0 < n" "v2_write_mode s = V2_staged"
  defines "offer \<equiv> min (length (v2_write_buffer s) - v2_offered s) write_chunk_size"
  defines "t \<equiv> s\<lparr>v2_write_chunk := take offer (drop (v2_offered s) (v2_write_buffer s)), v2_offered := v2_offered s + offer,
    v2_lent := offer\<rparr>"
  shows "fst (v2_data_reader n s) =
    (if v2_offered s + offer = length (v2_write_buffer s)
     then v2_emit (V2_write Success) (t\<lparr>v2_eof_submitted := v2_eof_submitted s \<or> v2_eof_requested s, v2_write_handler := False\<rparr>)
     else t)"
proof -
  have m: "min (length (v2_write_buffer s) - v2_offered s) write_chunk_size = offer" by (simp add: offer_def)
  have "length (v2_write_buffer s) - v2_offered s \<noteq> 0" using assms(2) by simp
  then have "fst (v2_data_reader n s) =
    (let s3 = (if v2_offered s + offer = length (v2_write_buffer s) \<and> v2_eof_requested s
               then t\<lparr>v2_eof_submitted := True\<rparr> else t)
     in if v2_offered s + offer = length (v2_write_buffer s)
        then v2_emit (V2_write Success) (s3\<lparr>v2_write_handler := False\<rparr>) else s3)"
    using assms(1,3,4) by (simp add: v2_data_reader_def Let_def t_def m)
  then show ?thesis by (cases "v2_eof_requested s") (simp_all add: Let_def t_def)
qed

lemma data_reader_cases:
  obtains (idle) "\<not> v2_write_handler s"
    | (eof) "v2_write_handler s" "length (v2_write_buffer s) \<le> v2_offered s"
    | (zero_copy) "v2_write_handler s" "v2_offered s < length (v2_write_buffer s)" "v2_write_mode s = V2_zero_copy"
    | (staged) "v2_write_handler s" "v2_offered s < length (v2_write_buffer s)" "v2_write_mode s = V2_staged"
  by (meson leI v2_write_mode.exhaust)

text \<open>The view of the outgoing operations.\<close>

lemma hs_inv_quiet_emit [simp]:
  "hs_inv s \<Longrightarrow> hs_inv (hs_emit H2_start_write s)" "hs_inv s \<Longrightarrow> hs_inv (hs_emit H2_resume_data s)"
  "hs_inv s \<Longrightarrow> hs_inv (hs_emit (H2_rst_stream c) s)"
  by (auto intro: hs_inv_emit)

lemma hs_inv_requested:
  assumes "hs_inv s" shows "hs_inv (s\<lparr>hs_eof_requested := hs_eof_requested s \<or> a\<rparr>)"
  by (rule hs_inv_frame [OF assms]) (use hs_invD(4) [OF assms] in \<open>auto simp: hs_log_defs hs_write_inv_def\<close>)

lemma hs_inv_submitted:
  assumes "hs_inv s" "\<not> hs_write_handler s" "b \<Longrightarrow> hs_eof_requested s"
  shows "hs_inv (s\<lparr>hs_eof_submitted := hs_eof_submitted s \<or> b\<rparr>)"
  by (rule hs_inv_frame [OF assms(1)]) (use assms(2,3) hs_invD(4) [OF assms(1)] in \<open>auto simp: hs_log_defs hs_write_inv_def\<close>)

lemma v2_write_ops_view:
  assumes "hs_inv (v2_view s)"
  shows "hs_inv (v2_view (v2_async_write buffer eof s))" "hs_inv (v2_view (v2_cancel_write s))"
    "0 < n \<Longrightarrow> hs_inv (v2_view (fst (v2_data_reader n s)))" "hs_inv (v2_view (v2_on_write_offset m s))"
    "hs_inv (v2_view (v2_run_posted conn s))"
proof -
  show "hs_inv (v2_view (v2_async_write buffer eof s))"
    using assms hs_inv_requested [OF assms, of eof] by (simp add: v2_async_write_def v2_resume_def)
  show "hs_inv (v2_view (v2_cancel_write s))" using assms by (simp add: v2_cancel_write_def)
  show "hs_inv (v2_view (v2_on_write_offset m s))" using assms by (simp add: v2_on_write_offset_def Let_def)
  show "hs_inv (v2_view (v2_run_posted conn s))" using assms by (simp add: v2_run_posted_def Let_def)
  show "hs_inv (v2_view (fst (v2_data_reader n s)))" if "0 < n"
  proof (cases s rule: data_reader_cases)
    case eof
    then show ?thesis using assms hs_inv_submitted [OF assms, of True] by (simp add: data_reader_end)
  next
    case staged
    then show ?thesis
      using assms that hs_inv_submitted [OF assms, of "v2_eof_requested s"] by (simp add: data_reader_staged)
  qed (use assms that hs_inv_submitted [OF assms, of "v2_eof_requested s"] in \<open>simp_all add: data_reader_idle data_reader_zero_copy\<close>)
qed

section \<open>The outgoing side\<close>

text \<open>What of the write that waits nghttp2 was not given yet.\<close>

definition v2_unoffered :: "v2_stream \<Rightarrow> bytes" where
  "v2_unoffered s = (if v2_write_handler s then drop (v2_offered s) (v2_write_buffer s) else [])"

text \<open>By reference: nghttp2 refers to the buffer of the write that waits, of which it has either nothing or all, and a write that
  was handed over waits for frames. Staged: it refers to the chunk, and the write does not wait for it.\<close>

definition v2_lent_ok :: "v2_stream \<Rightarrow> bool" where
  "v2_lent_ok s \<longleftrightarrow>
     (case v2_write_mode s of
        V2_zero_copy \<Rightarrow>
          v2_written s + v2_lent s = v2_offered s \<and> (v2_lent s > 0 \<longrightarrow> v2_write_handler s) \<and>
          (v2_write_handler s \<and> v2_offered s > 0 \<longrightarrow> v2_offered s = length (v2_write_buffer s) \<and> v2_lent s > 0)
      | V2_staged \<Rightarrow>
          v2_lent s \<le> length (v2_write_chunk s) \<and>
          (v2_write_handler s \<and> v2_write_buffer s \<noteq> [] \<longrightarrow> v2_offered s < length (v2_write_buffer s)))"

definition v2_write_inv :: "v2_stream \<Rightarrow> bool" where
  "v2_write_inv s \<longleftrightarrow>
     (v2_closed s \<longrightarrow> \<not> v2_write_handler s \<and> v2_lent s = 0 \<and> prefix (v2_wire s) (v2_body s)) \<and>
     (\<not> v2_closed s \<longrightarrow> v2_body s = v2_wire s @ v2_in_flight s @ v2_unoffered s \<and> v2_lent_ok s) \<and>
     (v2_write_handler s \<longrightarrow>
        \<not> v2_is_deferred s \<and> (v2_eof_submitted s \<longrightarrow> v2_offered s = length (v2_write_buffer s)) \<and>
        (v2_write_buffer s = [] \<longrightarrow> v2_eof_requested s \<and> \<not> v2_eof_submitted s)) \<and>
     (v2_eof_submitted s \<longrightarrow> v2_eof_requested s) \<and> v2_bytesWritten s = length (v2_wire s)"

lemmas outgoing_defs = v2_write_inv_def v2_unoffered_def v2_lent_ok_def v2_in_flight_def v2_memory_def

lemma v2_write_inv_out:
  assumes "v2_out s = v2_out t" shows "v2_write_inv s = v2_write_inv t"
  unfolding outgoing_defs by (simp only: v2_out_eqD [OF assms])

lemma mark_closed_write_inv: "v2_write_inv s \<Longrightarrow> v2_write_inv (v2_mark_closed s)"
  by (cases "v2_closed s"; cases "v2_write_handler s") (simp_all add: v2_mark_closed_def Let_def v2_write_inv_def v2_unoffered_def)

text \<open>Events, cancellation and posted resets are no part of it.\<close>

lemma v2_write_inv_cancelled [simp]:
  "v2_write_inv (v2_emit e s) = v2_write_inv s" "v2_write_inv (s\<lparr>v2_write_cancelled := a\<rparr>) = v2_write_inv s"
  "v2_write_inv (s\<lparr>v2_posted := k\<rparr>) = v2_write_inv s"
  unfolding outgoing_defs by (cases "v2_write_mode s"; simp)+

lemma async_write_inv:
  assumes "v2_write_inv s" "\<not> v2_write_handler s"
  shows "v2_write_inv (v2_async_write buffer eof s)"
proof (cases "buffer = [] \<and> \<not> eof \<or> v2_eof_requested s \<and> (buffer \<noteq> [] \<or> v2_eof_submitted s) \<or> v2_closed s")
  case True
  then show ?thesis using assms(1) by (auto simp: v2_async_write_def)
next
  case False
  define t where "t = s\<lparr>v2_write_buffer := buffer, v2_offered := 0, v2_written := 0,
    v2_eof_requested := v2_eof_requested s \<or> eof, v2_write_handler := True,
    v2_body := v2_wire s @ v2_in_flight s @ buffer\<rparr>"
  have l: "v2_lent_ok s" "v2_write_mode s = V2_zero_copy \<Longrightarrow> v2_lent s = 0"
    using assms False by (auto simp: v2_write_inv_def v2_lent_ok_def)
  then have f: "v2_in_flight t = v2_in_flight s" "v2_lent_ok t"
    by (cases "v2_write_mode s"; simp add: t_def v2_in_flight_def v2_memory_def v2_lent_ok_def)+
  let ?u = "t\<lparr>v2_is_deferred := False\<rparr>"
  have "v2_in_flight ?u = v2_in_flight t" "v2_lent_ok ?u = v2_lent_ok t"
    by (cases "v2_write_mode t"; simp add: v2_in_flight_def v2_memory_def v2_lent_ok_def)+
  then have "v2_write_inv ?u"
    using assms False f by (simp add: v2_write_inv_def v2_unoffered_def) (auto simp: t_def)
  moreover have "?u = t" if "\<not> v2_is_deferred t" using that by (cases t) simp
  ultimately have "v2_write_inv (v2_resume t)" by (cases "v2_is_deferred t") (simp_all add: v2_resume_def)
  moreover have "v2_async_write buffer eof s = v2_resume t" using False by (auto simp: v2_async_write_def t_def)
  ultimately show ?thesis by simp
qed

text \<open>Once the write is gone, with nothing of its own buffer lent, nothing else has to be kept.\<close>

lemma write_over_inv:
  assumes "v2_write_inv s" "v2_lent_ok (s\<lparr>v2_write_handler := False\<rparr>)" "\<not> v2_closed s"
    "v2_write_mode s = V2_zero_copy \<longrightarrow> v2_lent s = 0"
  shows "v2_write_inv (s\<lparr>v2_write_handler := False, v2_body := v2_wire s @ v2_in_flight s\<rparr>)"
  using assms
  by (cases "v2_write_mode s") (simp_all add: v2_write_inv_def v2_unoffered_def v2_in_flight_def v2_memory_def v2_lent_ok_def)

lemma cancel_write_inv:
  assumes "v2_write_inv s"
  shows "v2_write_inv (v2_cancel_write s)"
proof (cases "v2_write_handler s \<and> \<not> (v2_write_mode s = V2_zero_copy \<and> v2_written s < v2_offered s)")
  case True
  then have "\<not> v2_closed s" "v2_lent_ok s" using assms by (auto simp: v2_write_inv_def)
  then have "v2_write_inv (s\<lparr>v2_write_handler := False, v2_body := v2_wire s @ v2_in_flight s\<rparr>)"
    using True assms by (intro write_over_inv) (auto simp: v2_lent_ok_def split: v2_write_mode.splits)
  then show ?thesis using True assms by (simp add: v2_cancel_write_def)
next
  case False
  then show ?thesis using assms by (auto simp: v2_cancel_write_def dest: v2_write_inv_def [THEN iffD1])
qed

lemma data_reader_inv:
  assumes "v2_write_inv s" "v2_enabled (Vop_pull n) s"
  shows "v2_write_inv (fst (v2_data_reader n s))"
proof (cases s rule: data_reader_cases)
  case idle
  then show ?thesis using assms by (auto simp: data_reader_idle outgoing_defs split: v2_write_mode.splits)
next
  case eof
  then have "v2_write_buffer s = []" using assms by (auto simp: outgoing_defs split: v2_write_mode.splits)
  then show ?thesis using eof assms by (auto simp: data_reader_end outgoing_defs split: v2_write_mode.splits)
next
  case zero_copy
  then show ?thesis using assms by (auto simp: data_reader_zero_copy outgoing_defs)
next
  case staged
  define offer where "offer = min (length (v2_write_buffer s) - v2_offered s) write_chunk_size"
  let ?vec = "take offer (drop (v2_offered s) (v2_write_buffer s))"
  have o: "offer > 0" "length ?vec = offer" "v2_offered s + offer \<le> length (v2_write_buffer s)"
    using staged by (auto simp: offer_def write_chunk_size_def)
  have b: "drop (v2_offered s) (v2_write_buffer s) = ?vec @ drop (v2_offered s + offer) (v2_write_buffer s)"
    by (metis add.commute append_take_drop_id drop_drop)
  have "\<not> v2_eof_submitted s" using assms staged by (auto simp: v2_write_inv_def)
  then show ?thesis
    using assms staged o b data_reader_staged [OF staged(1,2) _ staged(3), of n]
    by (auto simp: offer_def [symmetric] outgoing_defs)
qed

lemma frame_inv:
  assumes "v2_write_inv s" "v2_enabled (Vop_frame n) s"
  shows "\<exists>t. v2_frame n s = Some t \<and> v2_write_inv t"
proof (cases "v2_write_mode s")
  case V2_zero_copy
  then have h: "v2_write_handler s" "v2_offered s = length (v2_write_buffer s)" "v2_written s + v2_lent s = v2_offered s"
    using assms by (auto simp: outgoing_defs)
  define m where "m = drop (v2_written s) (v2_write_buffer s)"
  define t where "t = s\<lparr>v2_wire := v2_wire s @ take n m, v2_lent := v2_lent s - n, v2_bytesWritten := v2_bytesWritten s + n,
    v2_written := v2_written s + n\<rparr>"
  have l: "n \<le> v2_lent s" "0 < n" "\<not> v2_closed s" using assms(2) by simp_all
  have w: "length (v2_write_buffer s) - v2_lent s = v2_written s" "v2_written s + v2_lent s = length (v2_write_buffer s)"
    using h by simp_all
  have mem: "v2_memory s = Some m" using V2_zero_copy h(1,2) by (simp add: v2_memory_def m_def w(1))
  have f: "v2_frame n s =
    Some (if v2_written t < length (v2_write_buffer t) then t else v2_emit (V2_write Success) (t\<lparr>v2_write_handler := False\<rparr>))"
    using V2_zero_copy h(1) by (simp add: v2_frame_def mem v2_on_write_offset_def Let_def t_def)
  have body: "v2_body s = v2_wire s @ m"
    using assms h l mem by (simp add: v2_write_inv_def v2_in_flight_def v2_unoffered_def)
  have d: "m = take n m @ drop (v2_written s + n) (v2_write_buffer s)" "length m = v2_lent s"
    unfolding m_def using h by (metis add.commute append_take_drop_id drop_drop, simp)
  have flight: "v2_in_flight t = drop (v2_written t) (v2_write_buffer t)"
  proof -
    have "length (v2_write_buffer s) - (v2_lent s - n) = v2_written s + n" using l w by simp
    then show ?thesis using V2_zero_copy h(1,2) l w(2) by (auto simp: t_def v2_in_flight_def v2_memory_def)
  qed
  have body_t: "v2_body t = v2_wire t @ drop (v2_written t) (v2_write_buffer t)"
    using body d(1) by (simp add: t_def)
  have i: "\<not> v2_is_deferred t" "v2_eof_submitted t \<longrightarrow> v2_eof_requested t" "v2_bytesWritten t = length (v2_wire t)"
    "v2_write_handler t" "\<not> v2_closed t" "v2_write_mode t = V2_zero_copy" "v2_offered t = length (v2_write_buffer t)"
    "v2_written t + v2_lent t = v2_offered t"
    using assms(1) V2_zero_copy h l d(2) by (simp_all add: v2_write_inv_def t_def)
  show ?thesis
  proof (cases "v2_written t < length (v2_write_buffer t)")
    case True
    then have "v2_write_buffer t \<noteq> []" by auto
    then have "v2_write_inv t"
      using i True body_t by (simp add: v2_write_inv_def v2_lent_ok_def v2_unoffered_def flight)
    with True f show ?thesis by simp
  next
    case False
    then have "v2_write_inv (t\<lparr>v2_write_handler := False\<rparr>)"
      using i body_t by (simp add: v2_write_inv_def v2_lent_ok_def v2_unoffered_def v2_in_flight_def)
    with False f show ?thesis by simp
  qed
next
  case V2_staged
  define m where "m = drop (length (v2_write_chunk s) - v2_lent s) (v2_write_chunk s)"
  have l: "v2_lent s \<le> length (v2_write_chunk s)" "n \<le> v2_lent s" "n > 0" "\<not> v2_closed s"
    using assms V2_staged by (auto simp: outgoing_defs)
  then have d: "drop (length (v2_write_chunk s) - (v2_lent s - n)) (v2_write_chunk s) = drop n m" "length m = v2_lent s"
    by (simp_all add: m_def add.commute)
  define t where "t = s\<lparr>v2_wire := v2_wire s @ take n m, v2_lent := v2_lent s - n, v2_bytesWritten := v2_bytesWritten s + n\<rparr>"
  have "v2_frame n s = Some t"
    using V2_staged by (simp add: v2_frame_def v2_memory_def v2_on_write_offset_def m_def [symmetric] t_def)
  moreover have "v2_body s = v2_wire s @ m @ v2_unoffered s"
    using assms V2_staged l by (simp add: v2_write_inv_def v2_in_flight_def v2_memory_def m_def)
  then have "v2_body t = v2_wire t @ v2_in_flight t @ v2_unoffered t"
    using V2_staged d l by (simp add: t_def v2_in_flight_def v2_memory_def v2_unoffered_def)
  then have "v2_write_inv t"
    using assms(1) l d V2_staged by (simp add: v2_write_inv_def v2_lent_ok_def) (simp add: t_def)
  ultimately show ?thesis by blast
qed

section \<open>The invariant\<close>

definition v2_inv :: "v2_stream \<Rightarrow> bool" where
  "v2_inv s \<longleftrightarrow> hs_inv (v2_view s) \<and> v2_write_inv s"

lemma v2_inv_over: "v2_inv s \<Longrightarrow> v2_over s"
  using hs_invD(5) [of "v2_view s"] by (auto simp: v2_inv_def v2_over_def v2_write_inv_def hs_life_def)

text \<open>Operations of the incoming side leave the outgoing side alone.\<close>

lemma v2_over_cong: "v2_out s = v2_out t \<Longrightarrow> v2_close_deferred s = v2_close_deferred t \<Longrightarrow> v2_over s = v2_over t"
  using v2_out_eqD [of s t] by (simp add: v2_over_def)

lemma call_body_deferred: "v2_close_deferred (v2_call_read_handler_body view s) = v2_close_deferred s"
proof -
  have "hs_rest2 (call_read_handler_body view (v2_view s)) = hs_rest2 (v2_view s)"
    using hs_same_body [of view "v2_view s"] by (simp add: hs_same_def)
  then have "hs_close_deferred (call_read_handler_body view (v2_view s)) = hs_close_deferred (v2_view s)"
    by (rule hs_rest2_eqD)
  then show ?thesis by (metis v2_likeD(1) [OF like_call_body] v2_view_sel(13))
qed

lemma v2_call_out:
  assumes "v2_over s" shows "v2_out (v2_call_read_handler view s) = v2_out s"
proof -
  have "v2_over (v2_call_read_handler_body view s)"
    using assms v2_over_cong [OF v2_likeD(2) [OF like_call_body]] call_body_deferred by blast
  then show ?thesis by (simp add: v2_call_read_handler_def v2_finish_out v2_likeD [OF like_call_body])
qed

lemma v2_close_out: "v2_in_map s \<Longrightarrow> v2_out (v2_close_stream s) = v2_out (v2_mark_closed s)"
  unfolding v2_close_stream_def by (rule v2_close_with_out) (simp_all add: v2_call_out v2_over_def)

lemma v2_over_upd [simp]:
  "v2_over (s\<lparr>v2_read_handler := h\<rparr>) = v2_over s" "v2_over (s\<lparr>v2_received := d\<rparr>) = v2_over s"
  "v2_over (s\<lparr>v2_eof_received := b\<rparr>) = v2_over s" "v2_over (s\<lparr>v2_reader := b\<rparr>) = v2_over s"
  "v2_over (s\<lparr>v2_response_handler := b\<rparr>) = v2_over s" "v2_over (s\<lparr>v2_response_delivered := b\<rparr>) = v2_over s"
  "v2_over (s\<lparr>v2_has_response := b\<rparr>) = v2_over s" "v2_over (s\<lparr>v2_response_error := ec\<rparr>) = v2_over s"
  "v2_over (v2_emit e s) = v2_over s" "v2_over (v2_delete_reader s) = v2_over s"
  by (simp_all add: v2_over_def v2_delete_reader_def v2_maybe_close_stream_def Let_def)

lemma v2_deliver_response_out: "v2_over s \<Longrightarrow> v2_out (v2_deliver_response s) = v2_out s"
proof -
  assume o: "v2_over s"
  let ?s1 = "v2_emit (V2_response (v2_response_error s)) (s\<lparr>v2_response_delivered := True, v2_response_handler := False\<rparr>)"
  have "v2_out (v2_close_stream ?s1) = v2_out s" if "v2_closed s"
  proof (cases "v2_in_map s")
    case True
    then have "v2_out (v2_close_stream ?s1) = v2_out (v2_mark_closed ?s1)" by (simp add: v2_close_out)
    also have "\<dots> = v2_out ?s1" using o that by (intro mark_closed_again) (simp_all add: v2_over_def)
    finally show ?thesis by simp
  qed (simp add: v2_close_stream_def v2_close_stream_with_def)
  then show ?thesis by (simp add: v2_deliver_response_def Let_def)
qed

lemma v2_incoming_out:
  assumes "v2_over s" "version_1 a = Some b" "a \<noteq> Vop_close"
  shows "v2_out (v2_exec a s) = v2_out s"
  using assms
  by (cases a) (auto simp: v2_async_read_some_def v2_cancel_read_def v2_on_data_def v2_on_eof_def v2_reader_dtor_def
      v2_writer_dtor_def v2_call_out v2_finish_out v2_likeD [OF like_delete_reader] v2_likeD [OF like_maybe_close]
      v2_async_get_response_def v2_cancel_get_response_def v2_on_response_def v2_deliver_response_out)

lemma v2_exec_write_inv:
  assumes "v2_inv s" "v2_enabled a s"
  shows "v2_write_inv (v2_exec a s)"
proof (cases "version_1 a")
  case (Some b)
  show ?thesis
  proof (cases "a = Vop_close")
    case True
    then have "v2_out (v2_exec a s) = v2_out (v2_mark_closed s)" using assms(2) by (simp add: v2_close_out)
    then have "v2_write_inv (v2_exec a s) = v2_write_inv (v2_mark_closed s)" by (rule v2_write_inv_out)
    then show ?thesis using mark_closed_write_inv [of s] assms(1) by (simp add: v2_inv_def)
  next
    case False
    then show ?thesis
      using v2_write_inv_out [OF v2_incoming_out [OF v2_inv_over [OF assms(1)] Some]] assms(1) by (simp add: v2_inv_def)
  qed
next
  case None
  have w: "v2_write_inv s" using assms(1) by (simp add: v2_inv_def)
  have f: "v2_write_inv (v2_exec (Vop_frame n) s)" if "v2_enabled (Vop_frame n) s" for n
    using frame_inv [OF w that] by auto
  show ?thesis
    using None assms(2) w async_write_inv [OF w] cancel_write_inv [OF w] data_reader_inv [OF w] f
    by (cases a) (auto simp: v2_run_posted_def Let_def simp del: v2_exec.simps(10) v2_enabled.simps(7))
qed

lemma v2_exec_view_inv:
  assumes "v2_inv s" "v2_enabled a s"
  shows "hs_inv (v2_view (v2_exec a s))"
proof (cases "version_1 a")
  case (Some b)
  then show ?thesis
    using assms hs_exec_inv [of "v2_view s" b] by (simp add: v2_exec_version_1 v2_enabled_version_1 v2_inv_def)
next
  case None
  have "hs_inv (v2_view s)" using assms(1) by (simp add: v2_inv_def)
  then show ?thesis
    using None assms(2) v2_write_ops_view [of s] v2_write_ops_view(4) [of "s\<lparr>v2_wire := w, v2_lent := l\<rparr>" for w l]
    by (cases a) (auto simp: v2_frame_def split: option.split)
qed

lemma v2_exec_inv: "v2_inv s \<Longrightarrow> v2_enabled a s \<Longrightarrow> v2_inv (v2_exec a s)"
  using v2_exec_write_inv v2_exec_view_inv v2_inv_def by blast

lemma v2_start_inv: "v2_inv (v2_start mode server)"
proof -
  have "v2_view (v2_start mode server) = (if server then hs_serve else hs_client)"
    by (simp add: v2_start_def hs_serve_def hs_client_def) (simp add: v2_view_def v2_init_def hs_init_def)
  moreover have "v2_write_inv (v2_start mode server)"
    by (cases mode) (simp_all add: v2_start_def outgoing_defs v2_init_def v2_on_request_def)
  ultimately show ?thesis using hs_start_inv by (simp add: v2_inv_def)
qed

interpretation v2: machine v2_exec v2_enabled v2_inv
  by unfold_locales (rule v2_exec_inv)

end
