(* ===== verification/H2v2_Session.thy ===== *)
theory H2v2_Session
  imports H2v2_Machine H2_Session
begin

text \<open>
  An HTTP/2 session of the backend for version 2 of nghttp2, \<^verbatim>\<open>src/h2v2/session.cpp\<close> and
  \<^verbatim>\<open>include/anyhttp/h2v2/session_details.hpp\<close>: the callbacks nghttp2 makes, the table of streams, submitting requests and
  responses, and the two loops that move bytes between nghttp2 and the connection. nghttp2 and the libraries of \<open>h2_lib\<close> are
  parameters: what nghttp2 answers, and which callbacks it makes meanwhile, are arguments.

  nghttp2 keeps a pointer for each of its streams and hands it to the callbacks (\<open>vs_user_data\<close>: the streams it has one for). A
  callback that needs the stream and is handed a null pointer is recorded in \<open>vs_null\<close>. \<open>vs_open\<close> are the streams nghttp2 has
  open. The lists \<open>vs_gone\<close> (the streams that were destroyed), \<open>vs_sent\<close> and \<open>vs_events\<close> are history.
\<close>

section \<open>Headers\<close>

record 'u v2_exchange =
  vx_stream :: v2_stream
  vx_method :: string
  vx_url :: 'u
  vx_status_code :: "nat option"
  vx_content_length :: "nat option"
  vx_fields :: "field list"
  vx_header_size :: nat

definition v2_new_exchange :: "'u \<Rightarrow> v2_stream \<Rightarrow> 'u v2_exchange" where
  "v2_new_exchange u stream =
     \<lparr>vx_stream = stream, vx_method = [], vx_url = u, vx_status_code = None, vx_content_length = None, vx_fields = [],
      vx_header_size = 0\<rparr>"

definition v2_store_header :: "'u h2_lib \<Rightarrow> string \<Rightarrow> string \<Rightarrow> 'u v2_exchange \<Rightarrow> 'u v2_exchange" where
  "v2_store_header lib name val x =
     (let x1 =
        (if name = '':method'' then x\<lparr>vx_method := val\<rparr>
         else if name = '':path'' then x\<lparr>vx_url := set_target lib val (vx_url x)\<rparr>
         else if name = '':scheme'' then x\<lparr>vx_url := set_part (set_scheme lib val) (vx_url x)\<rparr>
         else if name = '':authority'' then x\<lparr>vx_url := set_part (set_encoded_authority lib val) (vx_url x)\<rparr>
         else if name = '':host'' then x\<lparr>vx_url := set_part (set_host lib val) (vx_url x)\<rparr>
         else if name = '':status'' then x\<lparr>vx_status_code := Some (parsed_number 32 val)\<rparr>
         else if name = ''content-length'' then x\<lparr>vx_content_length := Some (parsed_number 64 val)\<rparr>
         else x)
      in if starts_with_colon name then x1 else x1\<lparr>vx_fields := vx_fields x1 @ [(name, val)]\<rparr>)"

definition v2_receive_header :: "'u h2_lib \<Rightarrow> nat \<Rightarrow> string \<Rightarrow> string \<Rightarrow> 'u v2_exchange \<Rightarrow> 'u v2_exchange" where
  "v2_receive_header lib limit name val x =
     (if v2_header_limit_exceeded (vx_stream x) then x
      else let x1 = x\<lparr>vx_header_size := vx_header_size x + header_field_size name val\<rparr>
           in if vx_header_size x1 > limit
              then x1\<lparr>vx_stream := (vx_stream x1)\<lparr>v2_header_limit_exceeded := True\<rparr>\<rparr>
              else v2_store_header lib name val x1)"

section \<open>The session\<close>

datatype v2_loop = Vl_new | Vl_running | Vl_waiting | Vl_ended | Vl_thrown

datatype v2s_event =
    Sv_extend_max_offset nat
  | Sv_alt_svc string
  | Sv_launch int launched
  | Sv_submit_request
  | Sv_submitted error_code
  | Sv_submit_response int "field list"
  | Sv_responded error_code
  | Sv_conn_read
  | Sv_conn_write
  | Sv_terminate
  | Sv_handle_expiry
  | Sv_io_cancel
  | Sv_io_close
  | Sv_io_shutdown
  | Sv_teardown
  | Sv_drain
  | Sv_conn_del

record 'u v2_session =
  vs_server :: bool
  vs_conn :: bool
  vs_send_ready :: bool
  vs_recv_done :: bool
  vs_closing :: bool
  vs_goaway_sent :: bool
  vs_send_failed :: bool
  vs_shutdown_started :: bool
  vs_session_done :: bool
  vs_stream_closed :: bool
  vs_streams :: "(int \<times> 'u v2_exchange) list"
  vs_last_id :: int
  vs_request_counter :: nat
  vs_max_header_size :: nat
  vs_alt_svc :: string
  vs_timer :: bool
  vs_send :: v2_loop
  vs_recv :: v2_loop
  vs_user_data :: "int list"
  vs_open :: "int list"
  vs_null :: bool
  vs_dying :: "'u v2_exchange list"
  vs_gone :: "'u v2_exchange list"
  vs_sent :: "bytes list"
  vs_events :: "v2s_event list"

definition vs_init :: "bool \<Rightarrow> nat \<Rightarrow> string \<Rightarrow> 'u v2_session" where
  "vs_init server limit alt_svc =
     \<lparr>vs_server = server, vs_conn = False, vs_send_ready = False, vs_recv_done = False, vs_closing = False,
      vs_goaway_sent = False, vs_send_failed = False, vs_shutdown_started = False, vs_session_done = False,
      vs_stream_closed = False, vs_streams = [], vs_last_id = 0, vs_request_counter = 0, vs_max_header_size = limit,
      vs_alt_svc = alt_svc, vs_timer = False, vs_send = Vl_new, vs_recv = Vl_new, vs_user_data = [], vs_open = [],
      vs_null = False, vs_dying = [], vs_gone = [], vs_sent = [], vs_events = []\<rparr>"

definition vs_emit :: "v2s_event \<Rightarrow> 'u v2_session \<Rightarrow> 'u v2_session" where
  "vs_emit e s = s\<lparr>vs_events := vs_events s @ [e]\<rparr>"

definition vs_start_write :: "'u v2_session \<Rightarrow> 'u v2_session" where
  "vs_start_write s = s\<lparr>vs_send_ready := True\<rparr>"

definition vs_find_stream :: "int \<Rightarrow> 'u v2_session \<Rightarrow> 'u v2_exchange option" where
  "vs_find_stream sid s = map_of (vs_streams s) sid"

text \<open>A stream the peer opened; its response is handed to nghttp2 by reference.\<close>

definition vs_create_stream :: "'u \<Rightarrow> int \<Rightarrow> 'u v2_session \<Rightarrow> 'u v2_session" where
  "vs_create_stream no_url sid s =
     s\<lparr>vs_streams := (if vs_find_stream sid s = None
                      then vs_streams s @ [(sid, v2_new_exchange no_url (v2_init V2_zero_copy))] else vs_streams s),
       vs_last_id := sid, vs_request_counter := vs_request_counter s + 1\<rparr>"

text \<open>An operation of a stream, in its session: it may wake the send loop, and it may have closed the stream
  (\<open>NGHttp2Session::close_stream\<close>), for which nghttp2 is left without a pointer then, and erased it from the table.\<close>

definition v2_wakes :: "v2_stream \<Rightarrow> v2_stream \<Rightarrow> bool" where
  "v2_wakes before after = (V2_start_write \<in> set (drop (length (v2_events before)) (v2_events after)))"

definition vs_on_stream :: "(v2_stream \<Rightarrow> v2_stream) \<Rightarrow> int \<Rightarrow> 'u v2_session \<Rightarrow> 'u v2_session" where
  "vs_on_stream f sid s =
     (case vs_find_stream sid s of
        None \<Rightarrow> s
      | Some x \<Rightarrow>
          let x1 = x\<lparr>vx_stream := f (vx_stream x)\<rparr>;
              s1 = s\<lparr>vs_send_ready := vs_send_ready s \<or> v2_wakes (vx_stream x) (vx_stream x1),
                     vs_user_data := (if v2_closed (vx_stream x1) \<and> vs_conn s then removeAll sid (vs_user_data s)
                                      else vs_user_data s)\<rparr>
          in if v2_in_map (vx_stream x1) then s1\<lparr>vs_streams := AList.update sid x1 (vs_streams s)\<rparr>
             else s1\<lparr>vs_streams := AList.delete sid (vs_streams s), vs_dying := vs_dying s @ [x1]\<rparr>)"

definition vs_close_stream :: "int \<Rightarrow> 'u v2_session \<Rightarrow> 'u v2_session" where
  "vs_close_stream sid s = vs_on_stream v2_close_stream sid s"

section \<open>The callbacks of nghttp2\<close>

definition on_stream_open :: "'u \<Rightarrow> int \<Rightarrow> 'u v2_session \<Rightarrow> 'u v2_session" where
  "on_stream_open no_url sid s =
     (let s1 = vs_create_stream no_url sid s
      in s1\<lparr>vs_user_data := sid # vs_user_data s1, vs_open := sid # vs_open s1\<rparr>)"

text \<open>The callbacks for headers rely on the pointer.\<close>

definition on_recv_header :: "'u h2_lib \<Rightarrow> int \<Rightarrow> string \<Rightarrow> string \<Rightarrow> 'u v2_session \<Rightarrow> 'u v2_session" where
  "on_recv_header lib sid name val s =
     (case (if sid \<in> set (vs_user_data s) then vs_find_stream sid s else None) of
        None \<Rightarrow> s\<lparr>vs_null := True\<rparr>
      | Some x \<Rightarrow>
          s\<lparr>vs_streams := AList.update sid (v2_receive_header lib (vs_max_header_size s) name val x) (vs_streams s)\<rparr>)"

definition vs_on_alt_svc :: "string \<Rightarrow> 'u v2_session \<Rightarrow> 'u v2_session" where
  "vs_on_alt_svc v s = (if vs_server s then s else vs_emit (Sv_alt_svc v) s)"

definition vs_on_request :: "bool \<Rightarrow> int \<Rightarrow> 'u v2_exchange \<Rightarrow> 'u v2_session \<Rightarrow> 'u v2_session" where
  "vs_on_request has_handler sid x s =
     vs_emit (Sv_launch sid (if v2_header_limit_exceeded (vx_stream x) then Launch_too_large
                             else if has_handler then Launch_handler else Launch_not_found))
       (vs_on_stream v2_on_request sid s)"

definition on_end_headers :: "'u h2_lib \<Rightarrow> bool \<Rightarrow> int \<Rightarrow> 'u v2_session \<Rightarrow> 'u v2_session" where
  "on_end_headers lib has_handler sid s =
     (case (if sid \<in> set (vs_user_data s) then vs_find_stream sid s else None) of
        None \<Rightarrow> s\<lparr>vs_null := True\<rparr>
      | Some x \<Rightarrow>
          vs_start_write
            (if vs_server s then vs_on_request has_handler sid x s
             else let v = field_value lib ''alt-svc'' (vx_fields x);
                      s1 = (if v \<noteq> [] then vs_on_alt_svc v s else s)
                  in vs_on_stream v2_on_response sid s1))"

text \<open>Credit of the connection is given back at once, with or without a stream.\<close>

definition on_recv_data :: "int \<Rightarrow> bytes \<Rightarrow> 'u v2_session \<Rightarrow> 'u v2_session" where
  "on_recv_data sid data s =
     (let s1 = vs_emit (Sv_extend_max_offset (length data)) s
      in vs_start_write (if sid \<in> set (vs_user_data s1) then vs_on_stream (v2_on_data data) sid s1 else s1))"

definition on_end_stream_remote :: "int \<Rightarrow> 'u v2_session \<Rightarrow> 'u v2_session" where
  "on_end_stream_remote sid s = (if sid \<in> set (vs_user_data s) then vs_on_stream v2_on_eof sid s else s)"

text \<open>\<open>stream_read_data\<close> relies on the pointer, \<open>on_write_stream_data_offset\<close> does not. nghttp2 has read the bytes from memory
  before it reports them, see \<open>v2_frame\<close>.\<close>

definition stream_read_data :: "int \<Rightarrow> nat \<Rightarrow> 'u v2_session \<Rightarrow> 'u v2_session" where
  "stream_read_data sid veccnt s =
     (if sid \<in> set (vs_user_data s) then vs_on_stream (\<lambda>t. fst (v2_data_reader veccnt t)) sid s else s\<lparr>vs_null := True\<rparr>)"

definition on_write_stream_data_offset :: "int \<Rightarrow> nat \<Rightarrow> 'u v2_session \<Rightarrow> 'u v2_session" where
  "on_write_stream_data_offset sid len s =
     (if sid \<in> set (vs_user_data s) then vs_on_stream (v2_exec (Vop_frame len)) sid s else s)"

definition on_stream_close :: "int \<Rightarrow> 'u v2_session \<Rightarrow> 'u v2_session" where
  "on_stream_close sid s = vs_close_stream sid (s\<lparr>vs_open := removeAll sid (vs_open s)\<rparr>)"

section \<open>Requests and responses\<close>

text \<open>What \<open>nghttp2_conn_submit_request\<close> answers: the number of the new stream, \<^verbatim>\<open>NGHTTP2_ERR_STREAM_ID_BLOCKED\<close>,
  \<^verbatim>\<open>NGHTTP2_ERR_REFUSED_STREAM\<close> or another error.\<close>

datatype submit_answer = Sub_id int | Sub_blocked | Sub_refused | Sub_failed

definition vs_async_submit :: "submit_answer \<Rightarrow> 'u \<Rightarrow> 'u v2_session \<Rightarrow> 'u v2_session" where
  "vs_async_submit answer u s =
     (if \<not> vs_conn s \<or> vs_closing s then vs_emit (Sv_submitted Canceled) s
      else let s1 = vs_emit Sv_submit_request s
           in case answer of
                Sub_blocked \<Rightarrow> vs_emit (Sv_submitted Would_block) s1
              | Sub_refused \<Rightarrow> vs_emit (Sv_submitted Connection_aborted) s1
              | Sub_failed \<Rightarrow> vs_emit (Sv_submitted Invalid_argument) s1
              | Sub_id sid \<Rightarrow>
                  vs_start_write (vs_emit (Sv_submitted Success)
                    (s1\<lparr>vs_last_id := sid,
                        vs_streams := (if vs_find_stream sid s1 = None
                                       then vs_streams s1 @ [(sid, v2_new_exchange u (v2_start V2_staged False))]
                                       else vs_streams s1),
                        vs_user_data := sid # vs_user_data s1, vs_open := sid # vs_open s1\<rparr>)))"

text \<open>\<open>NGHttp2Writer::async_submit\<close>: \<open>accepted\<close> is what \<open>nghttp2_conn_submit_response\<close> answers, and \<open>named\<close> whether the headers
  have a field for alternative services of their own.\<close>

definition vs_submit_response ::
  "bool \<Rightarrow> int \<Rightarrow> nat \<Rightarrow> string \<Rightarrow> bool \<Rightarrow> field list \<Rightarrow> nat option \<Rightarrow> 'u v2_session \<Rightarrow> 'u v2_session" where
  "vs_submit_response accepted sid status date named headers content_length s =
     (if vs_find_stream sid s = None then vs_emit (Sv_responded Connection_aborted) s
      else let s1 = vs_emit (Sv_submit_response sid
                      (response_nva status date (vs_alt_svc s) (\<lambda>_ _. named) headers content_length)) s
           in if \<not> accepted then vs_emit (Sv_responded Connection_aborted) s1
              else vs_emit (Sv_responded Success) (vs_start_write s1))"

text \<open>A stream that was erased is destroyed in a turn of its own.\<close>

definition vs_reap_stream :: "'u v2_session \<Rightarrow> 'u v2_session" where
  "vs_reap_stream s =
     (case vs_dying s of
        [] \<Rightarrow> s
      | x # xs \<Rightarrow> s\<lparr>vs_dying := xs, vs_gone := vs_gone s @ [x\<lparr>vx_stream := v2_dtor (vx_stream x)\<rparr>]\<rparr>)"

text \<open>\<open>streams_.clear()\<close>.\<close>

definition vs_clear_streams :: "'u v2_session \<Rightarrow> 'u v2_session" where
  "vs_clear_streams s =
     s\<lparr>vs_streams := [],
       vs_gone := vs_gone s @ map (\<lambda>(_, x). x\<lparr>vx_stream := v2_dtor (vx_stream x)\<rparr>) (vs_streams s)\<rparr>"

section \<open>What goes on while nghttp2 is at work, and between\<close>

datatype 'u v2s_op =
    Sp_open int
  | Sp_header int string string
  | Sp_end_headers int
  | Sp_data int bytes
  | Sp_end_stream int
  | Sp_pull int nat
  | Sp_framed int nat
  | Sp_closed int
  | Sp_submit submit_answer 'u
  | Sp_respond bool int nat string bool "field list" "nat option"
  | Sp_app int v2_op
  | Sp_reap

fun v2s_exec :: "'u h2_lib \<Rightarrow> 'u \<Rightarrow> bool \<Rightarrow> 'u v2s_op \<Rightarrow> 'u v2_session \<Rightarrow> 'u v2_session" where
  "v2s_exec lib no_url hh (Sp_open sid) s = on_stream_open no_url sid s"
| "v2s_exec lib no_url hh (Sp_header sid name val) s = on_recv_header lib sid name val s"
| "v2s_exec lib no_url hh (Sp_end_headers sid) s = on_end_headers lib hh sid s"
| "v2s_exec lib no_url hh (Sp_data sid d) s = on_recv_data sid d s"
| "v2s_exec lib no_url hh (Sp_end_stream sid) s = on_end_stream_remote sid s"
| "v2s_exec lib no_url hh (Sp_pull sid veccnt) s = stream_read_data sid veccnt s"
| "v2s_exec lib no_url hh (Sp_framed sid len) s = on_write_stream_data_offset sid len s"
| "v2s_exec lib no_url hh (Sp_closed sid) s = on_stream_close sid s"
| "v2s_exec lib no_url hh (Sp_submit answer u) s = vs_async_submit answer u s"
| "v2s_exec lib no_url hh (Sp_respond ok sid status date named headers cl) s =
     vs_submit_response ok sid status date named headers cl s"
| "v2s_exec lib no_url hh (Sp_app sid a) s = vs_on_stream (v2_exec a) sid s"
| "v2s_exec lib no_url hh Sp_reap s = vs_reap_stream s"

section \<open>The loops\<close>

definition vs_do :: "'u h2_lib \<Rightarrow> 'u \<Rightarrow> bool \<Rightarrow> 'u v2s_op list \<Rightarrow> 'u v2_session \<Rightarrow> 'u v2_session" where
  "vs_do lib no_url hh acts s = fold (v2s_exec lib no_url hh) acts s"

text \<open>\<open>nghttp2_conn_read\<close> makes the callbacks \<open>acts\<close> and succeeds or not.\<close>

definition vs_handle_buffer_contents ::
  "'u h2_lib \<Rightarrow> 'u \<Rightarrow> bool \<Rightarrow> 'u v2s_op list \<Rightarrow> bool \<Rightarrow> 'u v2_session \<Rightarrow> 'u v2_session" where
  "vs_handle_buffer_contents lib no_url hh acts ok s =
     (if vs_closing s then s
      else let s1 = vs_do lib no_url hh acts (vs_emit Sv_conn_read s)
           in if \<not> ok then s1\<lparr>vs_closing := True\<rparr> else s1)"

text \<open>\<open>upper_bound\<close> of the table: the next stream in the order of their numbers.\<close>

definition first_of :: "int list \<Rightarrow> int option" where
  "first_of ks = (case sort ks of [] \<Rightarrow> None | k # _ \<Rightarrow> Some k)"

definition upper_bound :: "int \<Rightarrow> (int \<times> 'v) list \<Rightarrow> int option" where
  "upper_bound sid t = first_of (filter (\<lambda>k. sid < k) (map fst t))"

lemma first_of_Some: "first_of ks = Some k \<Longrightarrow> k \<in> set ks \<and> (\<forall>j \<in> set ks. k \<le> j)"
proof -
  assume "first_of ks = Some k"
  then obtain r where r: "sort ks = k # r" by (auto simp: first_of_def split: list.splits)
  then have "sorted (k # r)" "set ks = set (k # r)" by (metis sorted_sort, metis set_sort)
  then show ?thesis by auto
qed

lemma first_of_None: "first_of ks = None \<longleftrightarrow> ks = []"
  by (auto simp: first_of_def split: list.splits) (metis set_sort empty_set set_empty)

lemma upper_bound_Some:
  "upper_bound sid t = Some k \<Longrightarrow> k \<in> fst ` set t \<and> sid < k \<and> (\<forall>j \<in> fst ` set t. sid < j \<longrightarrow> k \<le> j)"
  using first_of_Some by (fastforce simp: upper_bound_def)

lemma upper_bound_None: "upper_bound sid t = None \<longleftrightarrow> (\<forall>j \<in> fst ` set t. j \<le> sid)"
  by (auto simp: upper_bound_def first_of_None filter_empty_conv)

definition vs_keys :: "'u v2_session \<Rightarrow> int set" where
  "vs_keys s = fst ` set (vs_streams s)"

lemma vs_keys_find: "k \<in> vs_keys s \<longleftrightarrow> vs_find_stream k s \<noteq> None"
  by (simp add: vs_keys_def vs_find_stream_def map_of_eq_None_iff)

lemma vs_find_on_stream:
  "vs_find_stream j (vs_on_stream f sid s) =
    (if j = sid then (case vs_find_stream sid s of
        Some x \<Rightarrow> if v2_in_map (f (vx_stream x)) then Some (x\<lparr>vx_stream := f (vx_stream x)\<rparr>) else None
      | None \<Rightarrow> None)
     else vs_find_stream j s)"
  by (auto simp: vs_on_stream_def vs_find_stream_def Let_def update_conv' delete_conv' split: option.splits)

lemma vs_keys_on_stream: "vs_keys (vs_on_stream f sid s) \<subseteq> vs_keys s"
  by (auto simp: vs_keys_find vs_find_on_stream split: if_splits option.splits)

text \<open>Closing what is left, from the stream with a given number on. A stream that a reader or a response still needs stays in the
  table.\<close>

function vs_close_from :: "int option \<Rightarrow> 'u v2_session \<Rightarrow> 'u v2_session" where
  "vs_close_from None s = s"
| "vs_close_from (Some sid) s =
     (let s1 = vs_close_stream sid s in vs_close_from (upper_bound sid (vs_streams s1)) s1)"
  by pat_completeness auto
termination
proof (relation "measure (\<lambda>(i, s). case i of None \<Rightarrow> 0 | Some sid \<Rightarrow> card {k \<in> vs_keys s. sid < k} + 1)", goal_cases)
  case 1 then show ?case by simp
next
  case (2 sid s s1)
  have k: "vs_keys s1 \<subseteq> vs_keys s" unfolding 2 vs_close_stream_def by (rule vs_keys_on_stream)
  show ?case
  proof (cases "upper_bound sid (vs_streams s1)")
    case (Some j)
    have j: "j \<in> vs_keys s1" "sid < j" using upper_bound_Some [OF Some] by (simp_all add: vs_keys_def)
    have "finite (vs_keys s)" by (simp add: vs_keys_def)
    moreover have "{k \<in> vs_keys s1. j < k} \<subset> {k \<in> vs_keys s. sid < k}" using k j by force
    ultimately have "card {k \<in> vs_keys s1. j < k} < card {k \<in> vs_keys s. sid < k}" by (intro psubset_card_mono) auto
    with Some show ?thesis by simp
  qed simp
qed

text \<open>The end of \<open>send_loop\<close>.\<close>

definition vs_end_send_loop :: "'u v2_session \<Rightarrow> 'u v2_session" where
  "vs_end_send_loop s =
     (let s1 = vs_emit Sv_io_cancel (s\<lparr>vs_timer := False\<rparr>);
          s2 = vs_clear_streams (vs_close_from (first_of (map fst (vs_streams s1))) s1)
      in s2\<lparr>vs_send := Vl_ended\<rparr>)"

text \<open>\<open>expiry\<close> is \<open>nghttp2_conn_get_expiry\<close>, \<open>None\<close> if nothing is pending.\<close>

definition vs_arm_timer :: "nat option \<Rightarrow> 'u v2_session \<Rightarrow> 'u v2_session" where
  "vs_arm_timer expiry s =
     (if vs_closing s \<or> \<not> vs_conn s then s else s\<lparr>vs_timer := (expiry \<noteq> None)\<rparr>)"

definition vs_handle_expiry :: "bool \<Rightarrow> 'u v2_session \<Rightarrow> 'u v2_session" where
  "vs_handle_expiry ok s =
     (let s0 = s\<lparr>vs_timer := False\<rparr>
      in if vs_closing s0 \<or> \<not> vs_conn s0 then s0
         else let s1 = vs_emit Sv_handle_expiry s0
              in vs_start_write (if \<not> ok then s1\<lparr>vs_closing := True\<rparr> else s1))"

text \<open>A turn of \<open>send_loop\<close>: how a wait before it ended, the callbacks \<open>nghttp2_conn_write\<close> makes and what it returns, the outcome
  of writing that to the connection, and when nghttp2 wants to be called back.\<close>

datatype conn_write = Cw_closing | Cw_error | Cw_bytes bytes

record 'u v2_turn =
  vt_wait :: error_code
  vt_acts :: "'u v2s_op list"
  vt_nwrite :: conn_write
  vt_write :: error_code
  vt_expiry :: "nat option"

definition vs_send_turn :: "'u h2_lib \<Rightarrow> 'u \<Rightarrow> bool \<Rightarrow> 'u v2_turn \<Rightarrow> 'u v2_session \<Rightarrow> 'u v2_session" where
  "vs_send_turn lib no_url hh t s =
     (if vs_send s = Vl_waiting \<and> vt_wait t \<noteq> Success then vs_end_send_loop s
      else
        let s1 = vs_do lib no_url hh (vt_acts t) (vs_emit Sv_conn_write (s\<lparr>vs_send_ready := False\<rparr>))
        in case vt_nwrite t of
             Cw_closing \<Rightarrow> vs_end_send_loop (s1\<lparr>vs_closing := True\<rparr>)
           | Cw_error \<Rightarrow> vs_emit Sv_io_close (s1\<lparr>vs_closing := True, vs_send := Vl_thrown\<rparr>)
           | Cw_bytes data \<Rightarrow>
               if data \<noteq> [] then
                 if vt_write t \<noteq> Success then vs_end_send_loop (s1\<lparr>vs_send_failed := True\<rparr>)
                 else s1\<lparr>vs_sent := vs_sent s1 @ [data], vs_send := Vl_running\<rparr>
               else if vs_recv_done s1 then vs_end_send_loop s1
               else (vs_arm_timer (vt_expiry t) s1)\<lparr>vs_send := Vl_waiting\<rparr>)"

text \<open>What \<open>recv_loop\<close> and \<open>ClientSession::shutdown\<close> ask for at the end.\<close>

definition vs_terminate :: "'u v2_session \<Rightarrow> 'u v2_session" where
  "vs_terminate s =
     (if \<not> vs_goaway_sent s \<and> \<not> vs_closing s then vs_emit Sv_terminate (s\<lparr>vs_goaway_sent := True\<rparr>) else s)"

text \<open>A turn of \<open>recv_loop\<close>, from the condition of the loop on: \<open>ec\<close> is what reading from the connection ends with.\<close>

definition vs_recv_turn :: "'u h2_lib \<Rightarrow> 'u \<Rightarrow> bool \<Rightarrow> error_code \<Rightarrow> 'u v2s_op list \<Rightarrow> bool \<Rightarrow> 'u v2_session \<Rightarrow> 'u v2_session" where
  "vs_recv_turn lib no_url hh ec acts ok s =
     (if \<not> vs_closing s \<and> ec = Success
      then vs_start_write (vs_handle_buffer_contents lib no_url hh acts ok s)
      else vs_start_write ((vs_terminate s)\<lparr>vs_recv_done := True, vs_recv := Vl_ended\<rparr>))"

text \<open>\<open>ClientSession::shutdown\<close> up to its wait for the end of the session.\<close>

definition vs_shutdown :: "'u v2_session \<Rightarrow> 'u v2_session" where
  "vs_shutdown s =
     (if vs_shutdown_started s \<or> vs_session_done s then s\<lparr>vs_shutdown_started := True\<rparr>
      else let s1 = s\<lparr>vs_shutdown_started := True\<rparr>;
               s2 = (if vs_conn s1 then vs_terminate s1 else s1)
           in vs_start_write (s2\<lparr>vs_recv_done := True\<rparr>))"

definition vs_shutdown_result :: "'u v2_session \<Rightarrow> error_code" where
  "vs_shutdown_result s = (if vs_send_failed s then Connection_aborted else Success)"

text \<open>\<open>do_session\<close> up to its loops, where \<open>created\<close> is whether nghttp2 has made a connection, and after them.\<close>

definition vs_begin_session ::
  "'u h2_lib \<Rightarrow> 'u \<Rightarrow> bool \<Rightarrow> bool \<Rightarrow> 'u v2s_op list \<Rightarrow> bool \<Rightarrow> 'u v2_session \<Rightarrow> 'u v2_session" where
  "vs_begin_session lib no_url hh created acts ok s =
     (if \<not> created then s\<lparr>vs_send := Vl_thrown, vs_recv := Vl_thrown, vs_session_done := True\<rparr>
      else vs_handle_buffer_contents lib no_url hh acts ok (s\<lparr>vs_conn := True, vs_send := Vl_running, vs_recv := Vl_running\<rparr>))"

definition vs_end_connection :: "bool \<Rightarrow> 'u v2_session \<Rightarrow> 'u v2_session" where
  "vs_end_connection shut_down s =
     (let s1 = (if \<not> vs_send_failed s then vs_emit Sv_teardown s else s);
          s2 = vs_emit Sv_io_shutdown s1;
          s3 = (if shut_down then vs_emit Sv_drain s2 else s2)
      in (vs_emit Sv_io_close s3)\<lparr>vs_stream_closed := True\<rparr>)"

definition vs_end_session :: "bool \<Rightarrow> 'u v2_session \<Rightarrow> 'u v2_session" where
  "vs_end_session shut_down s =
     (let s1 = vs_emit Sv_conn_del (vs_end_connection shut_down s)
      in s1\<lparr>vs_conn := False, vs_user_data := [], vs_open := [], vs_session_done := True\<rparr>)"

definition vs_destroy :: "'u v2_session \<Rightarrow> 'u v2_session" where
  "vs_destroy s = (if vs_stream_closed s then s else vs_emit Sv_io_shutdown s)"

text \<open>\<open>~NGHttp2Session\<close>; the connection of nghttp2 goes if it is still there.\<close>

definition vs_dtor :: "'u v2_session \<Rightarrow> 'u v2_session" where
  "vs_dtor s = (vs_clear_streams (s\<lparr>vs_timer := False\<rparr>))\<lparr>vs_conn := False, vs_user_data := [], vs_open := []\<rparr>"

end
