(* ===== verification/H2v2_Session_Machine.thy ===== *)
theory H2v2_Session_Machine
  imports H2v2_Session H2_Session_Machine
begin

text \<open>
  A session of version 2 as a machine: the two loops, with the callbacks nghttp2 makes in them, requests, and operations of the
  application on the streams, in any order.
\<close>

section \<open>The machine\<close>

definition v2s_allows :: "v2_op \<Rightarrow> int \<Rightarrow> 'u v2_session \<Rightarrow> bool" where
  "v2s_allows a sid s = (case vs_find_stream sid s of None \<Rightarrow> True | Some x \<Rightarrow> v2_enabled a (vx_stream x))"

definition v2s_fresh :: "int \<Rightarrow> 'u v2_session \<Rightarrow> bool" where
  "v2s_fresh sid s =
     (case vs_find_stream sid s of
        None \<Rightarrow> True
      | Some x \<Rightarrow> vx_stream x =
          (v2_init V2_zero_copy)\<lparr>v2_header_limit_exceeded := v2_header_limit_exceeded (vx_stream x)\<rparr>)"

fun is_v2_app_op :: "v2_op \<Rightarrow> bool" where
  "is_v2_app_op (Vop_data d) = False"
| "is_v2_app_op Vop_eof = False"
| "is_v2_app_op (Vop_pull n) = False"
| "is_v2_app_op (Vop_frame n) = False"
| "is_v2_app_op Vop_header_limit = False"
| "is_v2_app_op Vop_response = False"
| "is_v2_app_op Vop_close = False"
| "is_v2_app_op _ = True"

fun is_callback :: "'u v2s_op \<Rightarrow> bool" where
  "is_callback (Sp_submit answer u) = False"
| "is_callback (Sp_respond ok sid status date named headers cl) = False"
| "is_callback (Sp_app sid a) = False"
| "is_callback Sp_reap = False"
| "is_callback _ = True"

text \<open>nghttp2 has a stream open from when it is opened or submitted until it is closed, reports headers and the end of a body for
  open streams only, in the order of the protocol (\<open>v2_enabled\<close>), and gives a new stream a number that is not in use.\<close>

fun v2s_enabled :: "'u v2s_op \<Rightarrow> 'u v2_session \<Rightarrow> bool" where
  "v2s_enabled (Sp_open sid) s = (vs_conn s \<and> vs_server s \<and> vs_find_stream sid s = None \<and> sid \<notin> set (vs_open s))"
| "v2s_enabled (Sp_header sid name val) s = (sid \<in> set (vs_open s))"
| "v2s_enabled (Sp_end_headers sid) s =
     (sid \<in> set (vs_open s) \<and> (if vs_server s then v2s_fresh sid s else v2s_allows Vop_response sid s))"
| "v2s_enabled (Sp_data sid d) s = (sid \<in> set (vs_user_data s) \<longrightarrow> v2s_allows (Vop_data d) sid s)"
| "v2s_enabled (Sp_end_stream sid) s =
     (sid \<in> set (vs_open s) \<and> (sid \<in> set (vs_user_data s) \<longrightarrow> v2s_allows Vop_eof sid s))"
| "v2s_enabled (Sp_pull sid veccnt) s =
     (sid \<in> set (vs_open s) \<and> (sid \<in> set (vs_user_data s) \<longrightarrow> v2s_allows (Vop_pull veccnt) sid s))"
| "v2s_enabled (Sp_framed sid len) s = (sid \<in> set (vs_user_data s) \<longrightarrow> v2s_allows (Vop_frame len) sid s)"
| "v2s_enabled (Sp_closed sid) s = (sid \<in> set (vs_open s))"
| "v2s_enabled (Sp_submit answer u) s =
     (\<not> vs_server s \<and> (case answer of Sub_id sid \<Rightarrow> vs_find_stream sid s = None \<and> sid \<notin> set (vs_open s) | _ \<Rightarrow> True))"
| "v2s_enabled (Sp_respond ok sid status date named headers cl) s = True"
| "v2s_enabled (Sp_app sid a) s =
     (is_v2_app_op a \<and> v2s_allows a sid s \<and> (case a of Vop_posted conn \<Rightarrow> conn = vs_conn s | _ \<Rightarrow> True))"
| "v2s_enabled Sp_reap s = True"

text \<open>The loops, and what happens between their turns.\<close>

datatype 'u v2l_op =
    Lp_begin bool "'u v2s_op list" bool
  | Lp_send "'u v2_turn"
  | Lp_recv error_code "'u v2s_op list" bool
  | Lp_do "'u v2s_op"
  | Lp_expiry bool
  | Lp_shutdown
  | Lp_end bool

fun v2l_exec :: "'u h2_lib \<Rightarrow> 'u \<Rightarrow> bool \<Rightarrow> 'u v2l_op \<Rightarrow> 'u v2_session \<Rightarrow> 'u v2_session" where
  "v2l_exec lib no_url hh (Lp_begin created acts ok) s = vs_begin_session lib no_url hh created acts ok s"
| "v2l_exec lib no_url hh (Lp_send t) s = vs_send_turn lib no_url hh t s"
| "v2l_exec lib no_url hh (Lp_recv ec acts ok) s = vs_recv_turn lib no_url hh ec acts ok s"
| "v2l_exec lib no_url hh (Lp_do a) s = v2s_exec lib no_url hh a s"
| "v2l_exec lib no_url hh (Lp_expiry ok) s = vs_handle_expiry ok s"
| "v2l_exec lib no_url hh Lp_shutdown s = vs_shutdown s"
| "v2l_exec lib no_url hh (Lp_end shut_down) s = vs_end_session shut_down s"

abbreviation acts_possible :: "'u h2_lib \<Rightarrow> 'u \<Rightarrow> bool \<Rightarrow> 'u v2s_op list \<Rightarrow> 'u v2_session \<Rightarrow> bool" where
  "acts_possible lib no_url hh acts s \<equiv> run (v2s_exec lib no_url hh) v2s_enabled s acts \<noteq> None"

fun v2l_enabled :: "'u h2_lib \<Rightarrow> 'u \<Rightarrow> bool \<Rightarrow> 'u v2l_op \<Rightarrow> 'u v2_session \<Rightarrow> bool" where
  "v2l_enabled lib no_url hh (Lp_begin created acts ok) s =
     (vs_send s = Vl_new \<and>
      acts_possible lib no_url hh acts (vs_emit Sv_conn_read (s\<lparr>vs_conn := True, vs_send := Vl_running, vs_recv := Vl_running\<rparr>)))"
| "v2l_enabled lib no_url hh (Lp_send t) s =
     ((vs_send s = Vl_running \<or> vs_send s = Vl_waiting \<and> (vt_wait t = Success \<longrightarrow> vs_send_ready s)) \<and>
      acts_possible lib no_url hh (vt_acts t) (vs_emit Sv_conn_write (s\<lparr>vs_send_ready := False\<rparr>)))"
| "v2l_enabled lib no_url hh (Lp_recv ec acts ok) s =
     (vs_recv s = Vl_running \<and> acts_possible lib no_url hh acts (vs_emit Sv_conn_read s))"
| "v2l_enabled lib no_url hh (Lp_do a) s = (\<not> is_callback a \<and> v2s_enabled a s)"
| "v2l_enabled lib no_url hh (Lp_expiry ok) s = vs_timer s"
| "v2l_enabled lib no_url hh Lp_shutdown s = (\<not> vs_server s)"
| "v2l_enabled lib no_url hh (Lp_end shut_down) s = (vs_send s = Vl_ended \<and> vs_recv s = Vl_ended \<and> vs_conn s)"

lemma run_fold: "run (v2s_exec lib no_url hh) v2s_enabled s acts = Some t \<Longrightarrow> vs_do lib no_url hh acts s = t"
  by (induction acts arbitrary: s) (auto simp: vs_do_def split: if_splits)

section \<open>Headers are received as in version 1\<close>

definition x_view :: "'u v2_exchange \<Rightarrow> 'u exchange" where
  "x_view x =
     \<lparr>x_stream = v2_view (vx_stream x), x_method = vx_method x, x_url = vx_url x, x_status_code = vx_status_code x,
      x_content_length = vx_content_length x, x_fields = vx_fields x, x_header_size = vx_header_size x\<rparr>"

lemma x_view_sel [simp]:
  "x_stream (x_view x) = v2_view (vx_stream x)" "x_fields (x_view x) = vx_fields x"
  "x_header_size (x_view x) = vx_header_size x" "x_status_code (x_view x) = vx_status_code x"
  "x_content_length (x_view x) = vx_content_length x"
  by (simp_all add: x_view_def)

lemma receive_header_view: "x_view (v2_receive_header lib limit name val x) = receive_header lib limit name val (x_view x)"
  by (simp add: x_view_def v2_receive_header_def receive_header_def v2_store_header_def store_header_def Let_def)

section \<open>The invariant\<close>

definition vx_ok :: "nat \<Rightarrow> 'u v2_exchange \<Rightarrow> bool" where
  "vx_ok limit x = (x_ok limit (x_view x) \<and> v2_write_inv (vx_stream x))"

lemma vx_okD: "vx_ok limit x \<Longrightarrow> v2_inv (vx_stream x) \<and> v2_in_map (vx_stream x)"
  by (simp add: vx_ok_def x_ok_def v2_inv_def)

lemma vx_ok_upd: "vx_ok limit x \<Longrightarrow> v2_inv t \<Longrightarrow> v2_in_map t \<Longrightarrow> vx_ok limit (x\<lparr>vx_stream := t\<rparr>)"
  by (simp add: vx_ok_def x_ok_def v2_inv_def)

definition vs_table_ok :: "'u v2_session \<Rightarrow> bool" where
  "vs_table_ok s \<longleftrightarrow>
     distinct_keys (vs_streams s) \<and> (\<forall>sid x. vs_find_stream sid s = Some x \<longrightarrow> vx_ok (vs_max_header_size s) x) \<and>
     (\<forall>x \<in> set (vs_dying s). v2_inv (vx_stream x) \<and> \<not> v2_in_map (vx_stream x))"

text \<open>nghttp2 has a pointer for the streams that are not closed, and, until the send loop is over, for all it has open.\<close>

definition vs_pointers_ok :: "'u v2_session \<Rightarrow> bool" where
  "vs_pointers_ok s \<longleftrightarrow>
     (vs_conn s \<longrightarrow> (\<forall>sid. sid \<in> set (vs_user_data s) \<longleftrightarrow> (\<exists>x. vs_find_stream sid s = Some x \<and> \<not> v2_closed (vx_stream x)))) \<and>
     (\<not> vs_conn s \<longrightarrow> vs_user_data s = [] \<and> vs_open s = []) \<and>
     (vs_send s = Vl_new \<longrightarrow> vs_streams s = [] \<and> \<not> vs_conn s) \<and>
     (vs_send s \<noteq> Vl_ended \<longrightarrow> set (vs_open s) \<subseteq> set (vs_user_data s) \<and> \<not> vs_null s)"

definition v2_idle :: "v2_stream \<Rightarrow> bool" where
  "v2_idle t \<longleftrightarrow> \<not> v2_write_handler t \<and> v2_read_handler t = None \<and> \<not> v2_response_handler t"

definition vs_log_ok :: "'u v2_session \<Rightarrow> bool" where
  "vs_log_ok s \<longleftrightarrow>
     (\<forall>x \<in> set (vs_gone s). v2_idle (vx_stream x)) \<and>
     length (filter (\<lambda>e. e = Sv_terminate) (vs_events s)) = (if vs_goaway_sent s then 1 else 0)"

definition vs_inv :: "'u v2_session \<Rightarrow> bool" where
  "vs_inv s \<longleftrightarrow> vs_table_ok s \<and> vs_pointers_ok s \<and> vs_log_ok s"

lemmas vs_defs = vs_table_ok_def vs_pointers_ok_def vs_log_ok_def vs_find_stream_def

lemma vs_invD:
  assumes "vs_inv s"
  shows "distinct_keys (vs_streams s)" "vs_find_stream sid s = Some x \<Longrightarrow> vx_ok (vs_max_header_size s) x"
    "vs_find_stream sid s = Some x \<Longrightarrow> v2_inv (vx_stream x) \<and> v2_in_map (vx_stream x)"
    "vs_conn s \<Longrightarrow> sid \<in> set (vs_user_data s) \<longleftrightarrow> (\<exists>x. vs_find_stream sid s = Some x \<and> \<not> v2_closed (vx_stream x))"
    "vs_send s \<noteq> Vl_ended \<Longrightarrow> set (vs_open s) \<subseteq> set (vs_user_data s)" "vs_send s \<noteq> Vl_ended \<Longrightarrow> \<not> vs_null s"
    "\<not> vs_conn s \<Longrightarrow> vs_user_data s = [] \<and> vs_open s = []" "vs_send s = Vl_new \<Longrightarrow> vs_streams s = [] \<and> \<not> vs_conn s"
  using assms vx_okD by (auto simp: vs_inv_def vs_table_ok_def vs_pointers_ok_def)

text \<open>What the invariant looks at, and what it does not.\<close>

lemma vs_inv_cong:
  assumes "vs_inv s" "vs_streams t = vs_streams s" "vs_dying t = vs_dying s" "vs_max_header_size t = vs_max_header_size s"
    "vs_conn t = vs_conn s" "vs_user_data t = vs_user_data s" "vs_open t = vs_open s" "vs_send t = vs_send s" "vs_null t = vs_null s"
    "vs_gone t = vs_gone s" "vs_events t = vs_events s" "vs_goaway_sent t = vs_goaway_sent s"
  shows "vs_inv t"
  using assms by (simp add: vs_inv_def vs_defs)

lemma vs_inv_simple [simp]:
  "vs_inv (vs_start_write s) = vs_inv s" "vs_inv (s\<lparr>vs_send_ready := b\<rparr>) = vs_inv s" "vs_inv (s\<lparr>vs_recv_done := b\<rparr>) = vs_inv s"
  "vs_inv (s\<lparr>vs_closing := b\<rparr>) = vs_inv s" "vs_inv (s\<lparr>vs_send_failed := b\<rparr>) = vs_inv s"
  "vs_inv (s\<lparr>vs_shutdown_started := b\<rparr>) = vs_inv s" "vs_inv (s\<lparr>vs_session_done := b\<rparr>) = vs_inv s"
  "vs_inv (s\<lparr>vs_stream_closed := b\<rparr>) = vs_inv s" "vs_inv (s\<lparr>vs_last_id := sid\<rparr>) = vs_inv s"
  "vs_inv (s\<lparr>vs_request_counter := n\<rparr>) = vs_inv s" "vs_inv (s\<lparr>vs_timer := b\<rparr>) = vs_inv s"
  "vs_inv (s\<lparr>vs_recv := l\<rparr>) = vs_inv s" "vs_inv (s\<lparr>vs_sent := d\<rparr>) = vs_inv s"
  "e \<noteq> Sv_terminate \<Longrightarrow> vs_inv (vs_emit e s) = vs_inv s" "vs_inv (vs_on_alt_svc v s) = vs_inv s"
  by (simp_all add: vs_inv_def vs_defs vs_start_write_def vs_emit_def vs_on_alt_svc_def)

lemma vs_find_simple [simp]:
  "vs_find_stream sid (vs_emit e s) = vs_find_stream sid s" "vs_find_stream sid (vs_start_write s) = vs_find_stream sid s"
  "vs_find_stream sid (vs_on_alt_svc v s) = vs_find_stream sid s"
  by (simp_all add: vs_find_stream_def vs_emit_def vs_start_write_def vs_on_alt_svc_def)

lemma vs_sel_simple [simp]:
  "vs_open (vs_emit e s) = vs_open s" "vs_user_data (vs_emit e s) = vs_user_data s" "vs_conn (vs_emit e s) = vs_conn s"
  "vs_open (vs_on_alt_svc v s) = vs_open s" "vs_send (vs_emit e s) = vs_send s" "vs_send (vs_on_alt_svc v s) = vs_send s"
  "vs_send (vs_start_write s) = vs_send s" "vs_streams (vs_emit e s) = vs_streams s" "vs_closing (vs_emit e s) = vs_closing s"
  by (simp_all add: vs_emit_def vs_on_alt_svc_def vs_start_write_def)

section \<open>Streams\<close>

lemma v2_exec_closed:
  assumes "v2_inv s" "v2_enabled a s" "a \<noteq> Vop_close"
  shows "v2_closed (v2_exec a s) = v2_closed s"
proof (cases "version_1 a")
  case (Some b)
  then show ?thesis using v2_out_eqD [OF v2_incoming_out [OF v2_inv_over [OF assms(1)] Some assms(3)]] by simp
next
  case None
  have f: "v2_closed (fst (v2_data_reader n s)) = v2_closed s" if "0 < n" for n
    using that by (cases s rule: data_reader_cases)
      (simp_all add: data_reader_idle data_reader_end data_reader_zero_copy data_reader_staged)
  show ?thesis using None assms(2) f
    by (cases a) (auto simp: v2_async_write_def v2_resume_def v2_cancel_write_def v2_frame_def v2_on_write_offset_def
        v2_run_posted_def Let_def split: option.split)
qed

lemma v2_close_closed: "v2_in_map s \<Longrightarrow> v2_closed (v2_close_stream s)"
  using v2_out_eqD [OF v2_close_out, of s] by (simp add: v2_mark_closed_def Let_def)

text \<open>Closing a stream that is closed already, and kept, changes nothing or lets it go.\<close>

lemma hs_close_again:
  assumes "hs_inv s" "hs_in_map s" "hs_close_deferred s"
  shows "close_stream s = s"
proof -
  have w: "\<not> hs_write_handler s" "hs_closed s"
    using hs_invD(4,5) [OF assms(1)] assms(3) by (auto simp: hs_write_inv_def hs_life_def)
  then have "hs_mark_closed s = s" by (cases s) (simp add: hs_mark_closed_def)
  moreover have "hs_reader s" "hs_eof_received s" "\<not> reading_finished s"
    "\<not> (\<not> hs_response_delivered s \<and> (hs_has_response s \<or> hs_response_error s \<noteq> Success))"
    using hs_invD(5,6) [OF assms(1)] assms(3) by (auto simp: hs_life_def hs_settled_def reading_finished_def)
  ultimately have "close_stream s = s\<lparr>hs_close_deferred := True\<rparr>"
    using assms(2) by (auto simp: close_stream_def close_stream_with_eq Let_def)
  also have "\<dots> = s" using assms(3) by (cases s) simp
  finally show ?thesis .
qed

lemma hs_close_inv:
  assumes "hs_inv s" "hs_in_map s" shows "hs_inv (close_stream s)"
proof (cases "hs_close_deferred s")
  case True
  with hs_close_again assms show ?thesis by simp
next
  case False
  then show ?thesis unfolding close_stream_def
    by (intro close_stream_with_ok hs_invD(1) assms)
      (simp_all add: hs_call_read_handler_def call_read_handler_body_def finish_deferred_close_def)
qed

lemma v2_close_inv:
  assumes "v2_inv s" "v2_in_map s" shows "v2_inv (v2_close_stream s)"
proof -
  have "hs_inv (v2_view (v2_close_stream s))"
    using hs_close_inv [of "v2_view s"] assms v2_exec_version_1 [of Vop_close Hop_close s] by (simp add: v2_inv_def)
  moreover have "v2_write_inv (v2_close_stream s)"
    using v2_write_inv_out [OF v2_close_out [OF assms(2)]] mark_closed_write_inv [of s] assms(1) by (simp add: v2_inv_def)
  ultimately show ?thesis by (simp add: v2_inv_def)
qed

lemma v2_init_ok:
  "v2_inv ((v2_init mode)\<lparr>v2_header_limit_exceeded := b\<rparr>)"
  "v2_inv (v2_on_request ((v2_init mode)\<lparr>v2_header_limit_exceeded := b\<rparr>))"
proof -
  have "v2_view ((v2_init mode)\<lparr>v2_header_limit_exceeded := b\<rparr>) = hs_init\<lparr>hs_header_limit_exceeded := b\<rparr>"
    "v2_view (v2_on_request ((v2_init mode)\<lparr>v2_header_limit_exceeded := b\<rparr>)) =
      on_request (hs_init\<lparr>hs_header_limit_exceeded := b\<rparr>)"
    by (simp_all add: v2_view_def v2_init_def hs_init_def v2_on_request_def on_request_def)
  moreover have "v2_write_inv ((v2_init mode)\<lparr>v2_header_limit_exceeded := b\<rparr>)"
    "v2_write_inv (v2_on_request ((v2_init mode)\<lparr>v2_header_limit_exceeded := b\<rparr>))"
    by (cases mode; simp add: outgoing_defs v2_init_def v2_on_request_def)+
  ultimately show "v2_inv ((v2_init mode)\<lparr>v2_header_limit_exceeded := b\<rparr>)"
    "v2_inv (v2_on_request ((v2_init mode)\<lparr>v2_header_limit_exceeded := b\<rparr>))"
    using hs_init_ok(1,2) by (simp_all add: v2_inv_def)
qed

lemma v2_dtor_idle: "v2_idle (v2_dtor s)"
  by (simp add: v2_idle_def v2_dtor_def Let_def)

section \<open>The table\<close>

lemma vs_on_stream_inv:
  assumes inv: "vs_inv s"
    and f: "\<And>x. vs_find_stream sid s = Some x \<Longrightarrow> v2_inv (f (vx_stream x)) \<and>
      (v2_closed (vx_stream x) \<longrightarrow> v2_closed (f (vx_stream x))) \<and>
      (v2_closed (f (vx_stream x)) \<longrightarrow> v2_closed (vx_stream x) \<or> sid \<notin> set (vs_open s) \<or> vs_send s = Vl_ended)"
  shows "vs_inv (vs_on_stream f sid s)"
proof (cases "vs_find_stream sid s")
  case None
  with inv show ?thesis by (simp add: vs_on_stream_def)
next
  case (Some x)
  let ?t = "vs_on_stream f sid s" and ?x1 = "x\<lparr>vx_stream := f (vx_stream x)\<rparr>"
  note g = f [OF Some] and ok = vs_invD(2) [OF inv Some]
  have sel: "vs_conn ?t = vs_conn s" "vs_open ?t = vs_open s" "vs_null ?t = vs_null s" "vs_send ?t = vs_send s"
    "vs_max_header_size ?t = vs_max_header_size s" "vs_gone ?t = vs_gone s" "vs_events ?t = vs_events s"
    "vs_goaway_sent ?t = vs_goaway_sent s"
    "vs_user_data ?t = (if v2_closed (f (vx_stream x)) \<and> vs_conn s then removeAll sid (vs_user_data s) else vs_user_data s)"
    "vs_dying ?t = (if v2_in_map (f (vx_stream x)) then vs_dying s else vs_dying s @ [?x1])"
    "distinct_keys (vs_streams ?t)"
    using Some vs_invD(1) [OF inv] by (simp_all add: vs_on_stream_def Let_def tbl.ok_put tbl.ok_del)
  have find: "vs_find_stream j ?t = (if j = sid then if v2_in_map (f (vx_stream x)) then Some ?x1 else None else vs_find_stream j s)" for j
    using Some by (simp add: vs_find_on_stream)
  have "vs_table_ok ?t"
    using inv g vx_ok_upd [OF ok, of "f (vx_stream x)"] by (auto simp: vs_table_ok_def find sel vs_inv_def)
  moreover have "vs_pointers_ok ?t"
  proof (cases "vs_conn s")
    case True
    have m: "v2_in_map (f (vx_stream x)) \<or> v2_closed (f (vx_stream x))"
      using g hs_invD(5) [of "v2_view (f (vx_stream x))"] by (auto simp: v2_inv_def hs_life_def)
    have u: "j \<in> set (vs_user_data ?t) \<longleftrightarrow> (\<exists>y. vs_find_stream j ?t = Some y \<and> \<not> v2_closed (vx_stream y))" for j
      using vs_invD(4) [OF inv True, of j] True Some g m by (auto simp: sel find)
    have "set (vs_open s) \<subseteq> set (vs_user_data ?t)" if "vs_send s \<noteq> Vl_ended"
      using vs_invD(5) [OF inv that] vs_invD(4) [OF inv True, of sid] Some g that by (auto simp: sel)
    with True u vs_invD(6,8) [OF inv] show ?thesis by (auto simp: vs_pointers_ok_def sel)
  next
    case False
    moreover have "vs_send s \<noteq> Vl_new" using vs_invD(8) [OF inv] Some by (auto simp: vs_find_stream_def)
    ultimately show ?thesis using inv by (auto simp: vs_inv_def vs_pointers_ok_def sel)
  qed
  moreover have "vs_log_ok ?t" using inv by (simp add: vs_inv_def vs_log_ok_def sel)
  ultimately show ?thesis by (simp add: vs_inv_def)
qed

lemma vs_on_allowed_inv:
  assumes "vs_inv s" "v2s_allows a sid s" "a \<noteq> Vop_close"
  shows "vs_inv (vs_on_stream (v2_exec a) sid s)"
  using assms v2_exec_inv v2_exec_closed vs_invD(3) [OF assms(1)]
  by (intro vs_on_stream_inv) (auto simp: v2s_allows_def)

lemma vs_close_stream_inv:
  assumes "vs_inv s" "sid \<notin> set (vs_open s) \<or> vs_send s = Vl_ended"
  shows "vs_inv (vs_close_stream sid s)"
  unfolding vs_close_stream_def
  using assms(2) v2_close_inv v2_close_closed vs_invD(3) [OF assms(1)] by (intro vs_on_stream_inv assms(1)) auto

text \<open>A new stream.\<close>

lemma vs_new_stream_inv:
  assumes inv: "vs_inv s" and new: "vs_conn s" "vs_find_stream sid s = None" and ok: "v2_inv t" "v2_in_map t" "\<not> v2_closed t"
  shows "vs_inv (s\<lparr>vs_streams := vs_streams s @ [(sid, v2_new_exchange u t)], vs_user_data := sid # vs_user_data s,
    vs_open := sid # vs_open s\<rparr>)" (is "vs_inv ?s")
proof -
  have x: "vx_ok (vs_max_header_size s) (v2_new_exchange u t)"
    using ok by (simp add: vx_ok_def x_ok_def v2_new_exchange_def x_view_def fields_size_def v2_inv_def)
  have c: "vx_stream (v2_new_exchange u t) = t" by (simp add: v2_new_exchange_def)
  have find: "vs_find_stream j ?s = (if j = sid then Some (v2_new_exchange u t) else vs_find_stream j s)" for j
    using new(2) by (auto simp: vs_find_stream_def map_of_append map_add_def split: option.splits)
  have "distinct_keys (vs_streams ?s)"
    using vs_invD(1) [OF inv] new(2) by (auto simp: distinct_keys_def vs_find_stream_def map_of_eq_None_iff)
  then have "vs_table_ok ?s" using inv x by (auto simp: vs_table_ok_def find vs_inv_def)
  moreover have "vs_pointers_ok ?s"
    using vs_invD(4) [OF inv new(1)] vs_invD(5,6,8) [OF inv] new ok(3)
    by (auto simp: vs_pointers_ok_def find c)
  ultimately show ?thesis using inv by (simp add: vs_inv_def vs_log_ok_def)
qed

lemma vs_put_header_inv:
  assumes inv: "vs_inv s" and x: "vs_find_stream sid s = Some x"
  shows "vs_inv (s\<lparr>vs_streams := AList.update sid (v2_receive_header lib (vs_max_header_size s) name val x) (vs_streams s)\<rparr>)"
    (is "vs_inv (s\<lparr>vs_streams := AList.update sid ?y _\<rparr>)")
proof -
  let ?s = "s\<lparr>vs_streams := AList.update sid ?y (vs_streams s)\<rparr>"
  have "x_ok (vs_max_header_size s) (x_view ?y)"
    using vs_invD(2) [OF inv x] unfolding receive_header_view by (intro receive_header_ok) (simp add: vx_ok_def)
  moreover have "v2_write_inv (vx_stream ?y)" "v2_closed (vx_stream ?y) = v2_closed (vx_stream x)"
  proof -
    have l: "v2_write_inv ((vx_stream x)\<lparr>v2_header_limit_exceeded := True\<rparr>)"
      using v2_exec_write_inv [of "vx_stream x" Vop_header_limit] vs_invD(3) [OF inv x] by simp
    then show "v2_write_inv (vx_stream ?y)" "v2_closed (vx_stream ?y) = v2_closed (vx_stream x)"
      using vs_invD(2) [OF inv x] by (simp_all add: v2_receive_header_def v2_store_header_def Let_def vx_ok_def)
  qed
  ultimately have y: "vx_ok (vs_max_header_size s) ?y" "v2_closed (vx_stream ?y) = v2_closed (vx_stream x)"
    by (simp_all add: vx_ok_def)
  have find: "vs_find_stream j ?s = (if j = sid then Some ?y else vs_find_stream j s)" for j
    by (simp add: vs_find_stream_def update_conv')
  have "vs_table_ok ?s" using inv y by (auto simp: vs_table_ok_def find vs_inv_def tbl.ok_put)
  moreover have "vs_send s \<noteq> Vl_new" using vs_invD(8) [OF inv] x by (auto simp: vs_find_stream_def)
  then have "vs_pointers_ok ?s" using inv x y by (auto simp: vs_inv_def vs_pointers_ok_def find)
  ultimately show ?thesis using inv by (simp add: vs_inv_def vs_log_ok_def)
qed

text \<open>A null pointer is only found after the send loop has ended.\<close>

lemma vs_null_inv:
  assumes "vs_inv s" "sid \<in> set (vs_open s)" "sid \<notin> set (vs_user_data s) \<or> vs_find_stream sid s = None"
  shows "vs_inv (s\<lparr>vs_null := True\<rparr>)"
proof -
  have "vs_conn s" using vs_invD(7) [OF assms(1)] assms(2) by (cases "vs_conn s") auto
  then have "vs_send s = Vl_ended" using vs_invD(4) [OF assms(1), of sid] vs_invD(5) [OF assms(1)] assms(2,3) by force
  with assms(1) show ?thesis by (simp add: vs_inv_def vs_defs)
qed

lemma vs_open_shrinks:
  assumes "vs_inv s" shows "vs_inv (s\<lparr>vs_open := removeAll sid (vs_open s)\<rparr>)"
  using assms by (auto simp: vs_inv_def vs_defs)

section \<open>Every operation keeps the invariant\<close>

lemma vs_on_request_inv:
  assumes inv: "vs_inv s" and fresh: "v2s_fresh sid s" and x: "vs_find_stream sid s = Some x"
  shows "vs_inv (vs_on_request hh sid x s)"
proof -
  obtain b where t: "vx_stream x = (v2_init V2_zero_copy)\<lparr>v2_header_limit_exceeded := b\<rparr>"
    using fresh x by (auto simp: v2s_fresh_def)
  have "vs_inv (vs_on_stream v2_on_request sid s)"
    by (rule vs_on_stream_inv [OF inv]) (use x t v2_init_ok(2) in \<open>simp add: v2_on_request_def\<close>)
  then show ?thesis by (simp add: vs_on_request_def)
qed

lemma v2s_exec_inv:
  assumes inv: "vs_inv s" and en: "v2s_enabled a s"
  shows "vs_inv (v2s_exec lib no_url hh a s)"
proof (cases a)
  case (Sp_open sid)
  then have "vs_inv (s\<lparr>vs_streams := vs_streams s @ [(sid, v2_new_exchange no_url (v2_init V2_zero_copy))],
      vs_user_data := sid # vs_user_data s, vs_open := sid # vs_open s\<rparr>)" (is "vs_inv ?t")
    using en v2_init_ok(1) [where mode = V2_zero_copy and b = False] by (intro vs_new_stream_inv [OF inv]) (simp_all add: v2_init_def)
  then have "vs_inv (on_stream_open no_url sid s)"
    by (rule vs_inv_cong) (use Sp_open en in \<open>simp_all add: on_stream_open_def vs_create_stream_def Let_def\<close>)
  with Sp_open show ?thesis by simp
next
  case (Sp_header sid name val)
  with vs_put_header_inv [OF inv] vs_null_inv [OF inv, of sid] en show ?thesis
    by (auto simp: on_recv_header_def split: option.splits)
next
  case (Sp_end_headers sid)
  show ?thesis
  proof (cases "if sid \<in> set (vs_user_data s) then vs_find_stream sid s else None")
    case None
    with Sp_end_headers vs_null_inv [OF inv, of sid] en show ?thesis by (auto simp: on_end_headers_def split: if_splits)
  next
    case (Some x)
    then have x: "vs_find_stream sid s = Some x" by (auto split: if_splits)
    have "vs_inv (vs_on_stream v2_on_response sid t)" if "\<not> vs_server s" "t = s \<or> t = vs_on_alt_svc v s" for t v
    proof -
      have "vs_inv (vs_on_stream (v2_exec Vop_response) sid t)"
        using that Sp_end_headers en inv x by (intro vs_on_allowed_inv) (auto simp: v2s_allows_def)
      moreover have "v2_exec Vop_response = v2_on_response" by (rule ext) simp
      ultimately show ?thesis by simp
    qed
    with Sp_end_headers Some vs_on_request_inv [OF inv _ x] en show ?thesis by (auto simp: on_end_headers_def Let_def)
  qed
next
  case (Sp_data sid d)
  let ?s = "vs_emit (Sv_extend_max_offset (length d)) s"
  have "vs_inv (vs_on_stream (v2_exec (Vop_data d)) sid ?s)" if "sid \<in> set (vs_user_data s)"
    using Sp_data en inv that by (intro vs_on_allowed_inv) (simp_all add: v2s_allows_def)
  moreover have "v2_exec (Vop_data d) = v2_on_data d" by (rule ext) simp
  ultimately show ?thesis using Sp_data inv by (simp add: on_recv_data_def Let_def)
next
  case (Sp_end_stream sid)
  have "v2_exec Vop_eof = v2_on_eof" by (rule ext) simp
  then show ?thesis using Sp_end_stream inv en vs_on_allowed_inv [OF inv, of Vop_eof sid] by (simp add: on_end_stream_remote_def)
next
  case (Sp_pull sid n)
  have "v2_exec (Vop_pull n) = (\<lambda>t. fst (v2_data_reader n t))" by (rule ext) simp
  then show ?thesis
    using Sp_pull inv en vs_on_allowed_inv [OF inv, of "Vop_pull n" sid] vs_null_inv [OF inv, of sid] by (simp add: stream_read_data_def)
next
  case (Sp_framed sid n)
  then show ?thesis
    using inv en vs_on_allowed_inv [OF inv, of "Vop_frame n" sid] by (auto simp: on_write_stream_data_offset_def simp del: v2_exec.simps)
next
  case (Sp_closed sid)
  then show ?thesis using vs_close_stream_inv [OF vs_open_shrinks [OF inv, of sid], of sid] by (simp add: on_stream_close_def)
next
  case (Sp_submit answer u)
  show ?thesis
  proof (cases "vs_conn s \<and> \<not> vs_closing s \<and> (\<exists>sid. answer = Sub_id sid)")
    case True
    then obtain sid where sid: "answer = Sub_id sid" by blast
    let ?s1 = "vs_emit (Sv_submitted Success) (vs_emit Sv_submit_request s)"
    have "vs_inv (?s1\<lparr>vs_streams := vs_streams ?s1 @ [(sid, v2_new_exchange u (v2_start V2_staged False))],
        vs_user_data := sid # vs_user_data ?s1, vs_open := sid # vs_open ?s1\<rparr>)" (is "vs_inv ?t")
      using True Sp_submit en sid inv by (intro vs_new_stream_inv v2_start_inv) (simp_all add: v2_start_def v2_init_def)
    then have "vs_inv (vs_async_submit answer u s)"
      by (rule vs_inv_cong) (use True Sp_submit en sid in \<open>simp_all add: vs_async_submit_def vs_emit_def vs_start_write_def Let_def vs_find_stream_def\<close>)
    with Sp_submit show ?thesis by simp
  qed (use Sp_submit inv in \<open>auto simp: vs_async_submit_def Let_def split: submit_answer.splits\<close>)
next
  case (Sp_app sid b)
  with vs_on_allowed_inv [OF inv, of b sid] en show ?thesis by (cases "b = Vop_close") auto
next
  case Sp_reap
  with inv v2_dtor_idle show ?thesis by (auto simp: vs_reap_stream_def vs_inv_def vs_defs split: list.splits)
qed (use inv in \<open>simp_all add: vs_submit_response_def Let_def\<close>)

interpretation vsi: machine "v2s_exec lib no_url hh" v2s_enabled vs_inv
  for lib :: "'u h2_lib" and no_url hh
  by unfold_locales (rule v2s_exec_inv)

lemma vs_do_inv: "vs_inv s \<Longrightarrow> acts_possible lib no_url hh acts s \<Longrightarrow> vs_inv (vs_do lib no_url hh acts s)"
  using run_fold vsi.run_inv by (metis not_None_eq)

section \<open>The loops\<close>

text \<open>How the send loop stands does not matter to closing streams.\<close>

lemma vs_on_stream_send: "vs_on_stream f sid (s\<lparr>vs_send := l\<rparr>) = (vs_on_stream f sid s)\<lparr>vs_send := l\<rparr>"
  by (simp add: vs_on_stream_def vs_find_stream_def Let_def split: option.split)

lemma vs_close_from_send: "vs_close_from i (s\<lparr>vs_send := l\<rparr>) = (vs_close_from i s)\<lparr>vs_send := l\<rparr>"
  by (induction i s rule: vs_close_from.induct) (simp_all add: vs_close_stream_def vs_on_stream_send Let_def)

lemma vs_on_stream_sel [simp]:
  "vs_send (vs_on_stream f sid s) = vs_send s" "vs_conn (vs_on_stream f sid s) = vs_conn s"
  "vs_closing (vs_on_stream f sid s) = vs_closing s" "vs_goaway_sent (vs_on_stream f sid s) = vs_goaway_sent s"
  "vs_events (vs_on_stream f sid s) = vs_events s" "vs_open (vs_on_stream f sid s) = vs_open s"
  "vs_gone (vs_on_stream f sid s) = vs_gone s" "vs_null (vs_on_stream f sid s) = vs_null s"
  by (simp_all add: vs_on_stream_def Let_def split: option.split)

lemma vs_close_from_sel [simp]:
  "vs_send (vs_close_from i s) = vs_send s" "vs_conn (vs_close_from i s) = vs_conn s"
  "vs_closing (vs_close_from i s) = vs_closing s" "vs_goaway_sent (vs_close_from i s) = vs_goaway_sent s"
  "vs_events (vs_close_from i s) = vs_events s" "vs_open (vs_close_from i s) = vs_open s"
  "vs_gone (vs_close_from i s) = vs_gone s" "vs_null (vs_close_from i s) = vs_null s"
  by (induction i s rule: vs_close_from.induct) (simp_all add: vs_close_stream_def Let_def)

lemma vs_close_from_inv: "vs_inv s \<Longrightarrow> vs_send s = Vl_ended \<Longrightarrow> vs_inv (vs_close_from i s)"
proof (induction i s rule: vs_close_from.induct)
  case (2 sid s)
  then have "vs_inv (vs_close_stream sid s)" "vs_send (vs_close_stream sid s) = Vl_ended"
    using vs_close_stream_inv by (blast, simp add: vs_close_stream_def)
  with 2(1) show ?case by (simp add: Let_def)
qed simp

text \<open>The loop reaches every stream in the table from its first one on, and only those.\<close>

lemma vs_close_from_find:
  "vs_find_stream j (vs_close_from (Some sid) s) =
     (if j < sid then vs_find_stream j s
      else case vs_find_stream j s of
             None \<Rightarrow> None
           | Some x \<Rightarrow> let y = v2_close_stream (vx_stream x) in if v2_in_map y then Some (x\<lparr>vx_stream := y\<rparr>) else None)"
proof (induction "Some sid" s arbitrary: sid rule: vs_close_from.induct)
  case (2 sid s)
  let ?s1 = "vs_close_stream sid s" and ?c = "\<lambda>x. let y = v2_close_stream (vx_stream x) in if v2_in_map y then Some (x\<lparr>vx_stream := y\<rparr>) else None"
  have s1: "vs_find_stream j ?s1 = (if j = sid then case vs_find_stream sid s of None \<Rightarrow> None | Some x \<Rightarrow> ?c x else vs_find_stream j s)"
    by (auto simp: vs_close_stream_def vs_find_on_stream Let_def split: option.split)
  show ?case
  proof (cases "upper_bound sid (vs_streams ?s1)")
    case None
    then have "vs_find_stream j ?s1 = None" if "sid < j" for j
      using that vs_keys_find [of j ?s1] by (fastforce simp: upper_bound_None vs_keys_def)
    with None s1 show ?thesis by (cases "sid < j") (auto split: option.split)
  next
    case (Some k)
    have k: "sid < k" "\<And>i. sid < i \<Longrightarrow> i < k \<Longrightarrow> vs_find_stream i ?s1 = None"
      using upper_bound_Some [OF Some] vs_keys_find [of _ ?s1] by (auto simp: vs_keys_def) force
    have "vs_find_stream j (vs_close_from (Some sid) s) =
        (if j < k then vs_find_stream j ?s1 else case vs_find_stream j ?s1 of None \<Rightarrow> None | Some x \<Rightarrow> ?c x)"
      using 2 [OF refl Some] Some by (simp add: Let_def)
    with k s1 show ?thesis by (cases "j < k"; cases "sid < j") (auto split: option.split)
  qed
qed

lemma vs_clear_inv: "vs_inv s \<Longrightarrow> vs_send s = Vl_ended \<Longrightarrow> vs_user_data s = [] \<Longrightarrow> vs_inv (vs_clear_streams s)"
  using v2_dtor_idle by (auto simp: vs_inv_def vs_defs vs_clear_streams_def distinct_keys_def)

text \<open>With every stream closed, nghttp2 has no pointer any more.\<close>

lemma vs_close_all:
  assumes "vs_inv s" "vs_send s = Vl_ended"
  defines "t \<equiv> vs_close_from (first_of (map fst (vs_streams s))) s"
  shows "vs_inv t" "vs_user_data t = []"
    "vs_find_stream j t = (case vs_find_stream j s of
             None \<Rightarrow> None
           | Some x \<Rightarrow> let y = v2_close_stream (vx_stream x) in if v2_in_map y then Some (x\<lparr>vx_stream := y\<rparr>) else None)"
proof -
  show i: "vs_inv t" unfolding t_def using assms by (intro vs_close_from_inv)
  show f: "vs_find_stream j t = (case vs_find_stream j s of
             None \<Rightarrow> None
           | Some x \<Rightarrow> let y = v2_close_stream (vx_stream x) in if v2_in_map y then Some (x\<lparr>vx_stream := y\<rparr>) else None)" for j
  proof (cases "first_of (map fst (vs_streams s))")
    case None
    then have "t = s" "vs_streams s = []" by (simp add: t_def, simp add: first_of_None)
    then show ?thesis by (simp add: vs_find_stream_def)
  next
    case (Some k)
    have "vs_find_stream j s = None" if "j < k"
      using first_of_Some [OF Some] that by (force simp: vs_find_stream_def map_of_eq_None_iff)
    with Some show ?thesis by (auto simp: t_def vs_close_from_find simp del: vs_close_from.simps)
  qed
  have "v2_closed (vx_stream y)" if y: "vs_find_stream k t = Some y" for k y
  proof -
    obtain x where x: "vs_find_stream k s = Some x" "y = x\<lparr>vx_stream := v2_close_stream (vx_stream x)\<rparr>"
      using y by (auto simp: f Let_def split: option.splits if_splits)
    then show ?thesis using vs_invD(3) [OF assms(1) x(1)] by (simp add: v2_close_closed)
  qed
  then have "set (vs_user_data t) = {}" if "vs_conn t" using vs_invD(4) [OF i that] by (meson ex_in_conv)
  then show "vs_user_data t = []" using vs_invD(7) [OF i] by (metis set_empty)
qed

lemma vs_end_send_loop_eq:
  "vs_end_send_loop s =
     (let s1 = vs_emit Sv_io_cancel (s\<lparr>vs_timer := False, vs_send := Vl_ended\<rparr>)
      in vs_clear_streams (vs_close_from (first_of (map fst (vs_streams s1))) s1))"
proof -
  have "vs_emit Sv_io_cancel (s\<lparr>vs_timer := False, vs_send := Vl_ended\<rparr>) = (vs_emit Sv_io_cancel (s\<lparr>vs_timer := False\<rparr>))\<lparr>vs_send := Vl_ended\<rparr>"
    by (simp add: vs_emit_def)
  then show ?thesis by (simp add: vs_end_send_loop_def vs_close_from_send Let_def vs_clear_streams_def)
qed

lemma vs_ended_inv: "vs_inv s \<Longrightarrow> vs_inv (s\<lparr>vs_send := Vl_ended\<rparr>)"
  by (auto simp: vs_inv_def vs_defs)

lemma vs_end_send_loop_inv:
  assumes "vs_inv s" shows "vs_inv (vs_end_send_loop s)"
proof -
  let ?s1 = "vs_emit Sv_io_cancel (s\<lparr>vs_timer := False, vs_send := Vl_ended\<rparr>)"
  have s1: "vs_inv ?s1" using vs_ended_inv [OF assms] by (subst vs_inv_simple) (auto elim: vs_inv_cong)
  have "vs_send ?s1 = Vl_ended" by simp
  from vs_close_all [OF s1 this] show ?thesis
    unfolding vs_end_send_loop_eq Let_def by (intro vs_clear_inv) simp_all
qed

lemma vs_terminate_inv: "vs_inv s \<Longrightarrow> vs_inv (vs_terminate s)"
  by (auto simp: vs_terminate_def vs_inv_def vs_defs vs_emit_def)

lemma vs_running_inv: "vs_inv s \<Longrightarrow> vs_send s \<in> {Vl_running, Vl_waiting} \<Longrightarrow> l \<noteq> Vl_new \<Longrightarrow> vs_inv (s\<lparr>vs_send := l\<rparr>)"
  by (auto simp: vs_inv_def vs_defs)

lemma v2s_exec_sel [simp]:
  "vs_send (v2s_exec lib no_url hh a s) = vs_send s" "vs_closing (v2s_exec lib no_url hh a s) = vs_closing s"
  "vs_goaway_sent (v2s_exec lib no_url hh a s) = vs_goaway_sent s" "vs_conn (v2s_exec lib no_url hh a s) = vs_conn s"
proof -
  note d = on_stream_open_def vs_create_stream_def on_recv_header_def on_end_headers_def vs_on_request_def vs_on_alt_svc_def
    on_recv_data_def on_end_stream_remote_def stream_read_data_def on_write_stream_data_offset_def on_stream_close_def
    vs_close_stream_def vs_async_submit_def vs_submit_response_def vs_reap_stream_def vs_emit_def vs_start_write_def Let_def
  show "vs_send (v2s_exec lib no_url hh a s) = vs_send s" "vs_closing (v2s_exec lib no_url hh a s) = vs_closing s"
    "vs_goaway_sent (v2s_exec lib no_url hh a s) = vs_goaway_sent s" "vs_conn (v2s_exec lib no_url hh a s) = vs_conn s"
    by (cases a; simp add: d split: option.split submit_answer.split list.split)+
qed

lemma vs_do_sel [simp]:
  "vs_send (vs_do lib no_url hh acts s) = vs_send s" "vs_closing (vs_do lib no_url hh acts s) = vs_closing s"
  "vs_goaway_sent (vs_do lib no_url hh acts s) = vs_goaway_sent s" "vs_conn (vs_do lib no_url hh acts s) = vs_conn s"
  unfolding vs_do_def by (induction acts arbitrary: s) simp_all

lemma vs_handle_buffer_inv:
  assumes "vs_inv s" "acts_possible lib no_url hh acts (vs_emit Sv_conn_read s)"
  shows "vs_inv (vs_handle_buffer_contents lib no_url hh acts ok s)"
  using assms vs_do_inv [OF _ assms(2)] by (simp add: vs_handle_buffer_contents_def Let_def)

lemma vs_send_turn_inv:
  assumes inv: "vs_inv s" and en: "v2l_enabled lib no_url hh (Lp_send t) s"
  shows "vs_inv (vs_send_turn lib no_url hh t s)"
proof -
  let ?s1 = "vs_do lib no_url hh (vt_acts t) (vs_emit Sv_conn_write (s\<lparr>vs_send_ready := False\<rparr>))"
  have s1: "vs_inv ?s1" using inv en by (intro vs_do_inv) simp_all
  have l: "vs_inv (u\<lparr>vs_send := l\<rparr>)" if "vs_inv u" "vs_send u = vs_send ?s1" "l \<noteq> Vl_new" for u l
    using that en by (intro vs_running_inv) auto
  have e: "vs_inv (vs_emit Sv_io_close (?s1\<lparr>vs_closing := True, vs_send := Vl_thrown\<rparr>))"
    using l [of "?s1\<lparr>vs_closing := True\<rparr>" Vl_thrown] s1 by simp
  have w: "vs_inv (?s1\<lparr>vs_sent := d, vs_send := Vl_running\<rparr>)" for d
    using l [of "?s1\<lparr>vs_sent := d\<rparr>" Vl_running] s1 by (auto elim: vs_inv_cong)
  have a: "vs_inv ((vs_arm_timer ex ?s1)\<lparr>vs_send := Vl_waiting\<rparr>)" for ex
    using s1 by (intro l) (simp_all add: vs_arm_timer_def)
  show ?thesis
    using inv s1 e w a by (auto simp: vs_send_turn_def Let_def intro: vs_end_send_loop_inv split: conn_write.split)
qed

lemma vs_begin_inv:
  assumes inv: "vs_inv s" and en: "v2l_enabled lib no_url hh (Lp_begin created acts ok) s"
  shows "vs_inv (vs_begin_session lib no_url hh created acts ok s)"
proof -
  have "vs_inv (s\<lparr>vs_conn := True, vs_send := Vl_running, vs_recv := Vl_running\<rparr>)"
    "vs_inv (s\<lparr>vs_send := Vl_thrown, vs_recv := Vl_thrown, vs_session_done := True\<rparr>)"
    using inv en vs_invD(7,8) [OF inv] by (auto simp: vs_inv_def vs_defs)
  with en show ?thesis by (auto simp: vs_begin_session_def intro: vs_handle_buffer_inv)
qed

lemma vs_end_session_inv:
  assumes inv: "vs_inv s" and en: "vs_send s = Vl_ended"
  shows "vs_inv (vs_end_session shut_down s)"
proof -
  let ?t = "vs_emit Sv_conn_del (vs_end_connection shut_down s)"
  have "vs_inv ?t" "vs_send ?t = Vl_ended" using inv en by (simp_all add: vs_end_connection_def Let_def)
  then show ?thesis by (auto simp: vs_end_session_def vs_inv_def vs_defs Let_def)
qed

lemma v2l_exec_inv:
  assumes "vs_inv s" "v2l_enabled lib no_url hh a s"
  shows "vs_inv (v2l_exec lib no_url hh a s)"
proof (cases a)
  case (Lp_begin created acts ok)
  with assms vs_begin_inv show ?thesis by (simp only: v2l_exec.simps)
next
  case (Lp_send t)
  with assms vs_send_turn_inv show ?thesis by (simp only: v2l_exec.simps)
next
  case (Lp_recv ec acts ok)
  with assms show ?thesis by (auto simp: vs_recv_turn_def intro: vs_handle_buffer_inv vs_terminate_inv)
next
  case (Lp_do b)
  with assms show ?thesis by (auto intro: v2s_exec_inv simp del: v2s_exec.simps)
next
  case Lp_shutdown
  with assms vs_terminate_inv [of "s\<lparr>vs_shutdown_started := True\<rparr>"] show ?thesis by (simp add: vs_shutdown_def Let_def)
next
  case (Lp_end shut_down)
  with assms show ?thesis by (auto intro: vs_end_session_inv)
qed (use assms in \<open>simp add: vs_handle_expiry_def Let_def\<close>)

interpretation vsl: machine "v2l_exec lib no_url hh" "v2l_enabled lib no_url hh" vs_inv
  for lib :: "'u h2_lib" and no_url hh
  by unfold_locales (rule v2l_exec_inv)

abbreviation vs_run :: "'u h2_lib \<Rightarrow> 'u \<Rightarrow> bool \<Rightarrow> bool \<Rightarrow> nat \<Rightarrow> string \<Rightarrow> 'u v2l_op list \<Rightarrow> 'u v2_session option" where
  "vs_run lib no_url hh server limit alt_svc ops \<equiv>
     run (v2l_exec lib no_url hh) (v2l_enabled lib no_url hh) (vs_init server limit alt_svc) ops"

lemma vs_init_inv: "vs_inv (vs_init server limit alt_svc)"
  by (simp add: vs_inv_def vs_defs vs_init_def distinct_keys_def)

lemma vs_run_inv: "vs_run lib no_url hh server limit alt_svc ops = Some s \<Longrightarrow> vs_inv s"
  by (rule vsl.run_inv [OF vs_init_inv])

end
