(* ===== verification/H2v2_Properties.thy ===== *)
theory H2v2_Properties
  imports H2v2_Machine
begin

text \<open>
  What the invariants of a stream of version 2 amount to, for every sequence of operations. The contracts of \<open>Body_Contract\<close>
  are interpreted on its definitions; those of the incoming side come from version 1.
\<close>

abbreviation v2_run :: "v2_write_mode \<Rightarrow> bool \<Rightarrow> v2_op list \<Rightarrow> v2_stream option" where
  "v2_run mode server ops \<equiv> run v2_exec v2_enabled (v2_start mode server) ops"

declare run.simps [simp del]

section \<open>Contracts\<close>

fun v2_input :: "v2_op \<Rightarrow> bytes" where
  "v2_input (Vop_data d) = d"
| "v2_input _ = []"

definition v2_delivered :: "v2_stream \<Rightarrow> bytes" where
  "v2_delivered s = hs_delivered (v2_view s)"

definition v2_buffered :: "v2_stream \<Rightarrow> bytes" where
  "v2_buffered s = v2_read_buffer s @ concat (tl (v2_pending_read_buffers s))"

lemma v2_buffered_view: "v2_buffered s = hs_buffered (v2_view s)"
  by (simp add: v2_buffered_def hs_buffered_def)

lemma v2_received_write_ops:
  "v2_received (v2_async_write b eof s) = v2_received s" "v2_received (v2_cancel_write s) = v2_received s"
  "0 < n \<Longrightarrow> v2_received (fst (v2_data_reader n s)) = v2_received s" "v2_received (v2_on_write_offset m s) = v2_received s"
proof -
  show "v2_received (fst (v2_data_reader n s)) = v2_received s" if "0 < n"
    using that by (cases s rule: data_reader_cases)
      (simp_all add: data_reader_idle data_reader_end data_reader_zero_copy data_reader_staged)
qed (simp_all add: v2_async_write_def v2_resume_def v2_cancel_write_def v2_on_write_offset_def Let_def)

lemma v2_received_exec:
  assumes "v2_enabled a s"
  shows "v2_received (v2_exec a s) = v2_received s @ v2_input a"
proof (cases "version_1 a")
  case (Some b)
  then have "hs_received (hs_exec b (v2_view s)) = hs_received (v2_view s) @ hs_input b"
    using assms hs_exec_accounts_each(3) v2_enabled_version_1 by blast
  moreover have "hs_input b = v2_input a" using Some by (cases a) (auto simp: hs_input_def)
  ultimately show ?thesis using v2_exec_version_1 [OF Some, of s] by (metis v2_view_sel(21))
next
  case None
  then show ?thesis using assms v2_received_write_ops
    by (cases a) (auto simp: v2_frame_def v2_run_posted_def Let_def split: option.split)
qed

interpretation v2_reader: body_reader v2_exec v2_enabled v2_inv v2_input v2_received v2_delivered v2_buffered "\<lambda>_. True"
proof unfold_locales
  have "v2_delivered s @ v2_buffered s = v2_received s" if "v2_inv s" for s
    using that hs_invD(2) [of "v2_view s"]
    by (simp add: v2_inv_def v2_delivered_def v2_buffered_view hs_read_inv_def hs_core_def)
  then show "prefix (v2_delivered s) (v2_received s)" "True \<Longrightarrow> v2_delivered s @ v2_buffered s = v2_received s"
    if "v2_inv s" for s
    using that by (auto intro: prefixI [OF sym])
qed (rule v2_received_exec)

text \<open>Writes and their answers.\<close>

fun v2_write_asked :: "v2_op \<Rightarrow> nat" where
  "v2_write_asked (Vop_write b eof) = 1"
| "v2_write_asked _ = 0"

definition v2_writes_done :: "v2_stream \<Rightarrow> nat" where
  "v2_writes_done s = length (filter is_v2_write (v2_events s))"

definition v2_writes_waiting :: "v2_stream \<Rightarrow> nat" where
  "v2_writes_waiting s = (if v2_write_handler s then 1 else 0)"

lemmas v2_account_defs = v2_writes_done_def v2_writes_waiting_def

lemma v2_account_out:
  assumes "v2_out s = v2_out t"
  shows "v2_writes_done s = v2_writes_done t" "v2_writes_waiting s = v2_writes_waiting t"
  using v2_out_eqD [OF assms] by (simp_all add: v2_account_defs)

lemma v2_events_emit: "v2_events (v2_emit e s) = v2_events s @ [e]"
  by (simp add: v2_emit_def)

lemma v2_account_write_ops:
  "\<not> v2_write_handler s \<Longrightarrow>
   v2_writes_done (v2_async_write b eof s) + v2_writes_waiting (v2_async_write b eof s) = v2_writes_done s + 1"
  "v2_writes_done (v2_cancel_write s) + v2_writes_waiting (v2_cancel_write s) = v2_writes_done s + v2_writes_waiting s"
  "v2_writes_done (v2_on_write_offset m s) + v2_writes_waiting (v2_on_write_offset m s) = v2_writes_done s + v2_writes_waiting s"
  "v2_writes_done (v2_mark_closed s) + v2_writes_waiting (v2_mark_closed s) = v2_writes_done s + v2_writes_waiting s"
  "0 < n \<Longrightarrow> v2_writes_done (fst (v2_data_reader n s)) + v2_writes_waiting (fst (v2_data_reader n s)) =
     v2_writes_done s + v2_writes_waiting s"
proof -
  show "v2_writes_done (fst (v2_data_reader n s)) + v2_writes_waiting (fst (v2_data_reader n s)) =
      v2_writes_done s + v2_writes_waiting s" if "0 < n"
    using that by (cases s rule: data_reader_cases)
      (simp_all add: data_reader_idle data_reader_end data_reader_zero_copy data_reader_staged v2_account_defs v2_events_emit)
qed (simp_all add: v2_account_defs v2_events_emit v2_async_write_def v2_resume_def v2_cancel_write_def
    v2_on_write_offset_def v2_mark_closed_def Let_def)

lemma v2_account_frame:
  "v2_writes_done (v2_exec (Vop_frame n) s) + v2_writes_waiting (v2_exec (Vop_frame n) s) = v2_writes_done s + v2_writes_waiting s"
proof (cases "v2_memory s")
  case (Some m)
  let ?t = "s\<lparr>v2_wire := v2_wire s @ take n m, v2_lent := v2_lent s - n\<rparr>"
  have "v2_writes_done ?t = v2_writes_done s" "v2_writes_waiting ?t = v2_writes_waiting s" by (simp_all add: v2_account_defs)
  then show ?thesis using Some v2_account_write_ops(3) [of n ?t] by (simp add: v2_frame_def)
qed (simp add: v2_frame_def)

lemma v2_account_posted:
  "v2_writes_done (v2_run_posted conn s) + v2_writes_waiting (v2_run_posted conn s) = v2_writes_done s + v2_writes_waiting s"
  by (simp add: v2_run_posted_def Let_def v2_account_defs v2_events_emit)

lemma v2_exec_accounts:
  assumes "v2_inv s" "v2_enabled a s"
  shows "v2_writes_done (v2_exec a s) + v2_writes_waiting (v2_exec a s) =
    v2_writes_done s + v2_writes_waiting s + v2_write_asked a"
proof (cases "version_1 a")
  case (Some b)
  then have z: "v2_write_asked a = 0" by (cases a) auto
  show ?thesis
  proof (cases "a = Vop_close")
    case True
    then have "v2_out (v2_exec a s) = v2_out (v2_mark_closed s)" using assms(2) by (simp add: v2_close_out)
    from v2_account_out [OF this] v2_account_write_ops(4) [of s] show ?thesis by (simp only: z add_0_right)
  next
    case False
    then have "v2_out (v2_exec a s) = v2_out s" by (rule v2_incoming_out [OF v2_inv_over [OF assms(1)] Some])
    from v2_account_out [OF this] show ?thesis by (simp only: z add_0_right)
  qed
next
  case None
  then consider (start) b eof where "a = Vop_write b eof" | (cancel) "a = Vop_cancel_write" | (pull) n where "a = Vop_pull n"
    | (frame) n where "a = Vop_frame n" | (posted) c where "a = Vop_posted c" by (cases a) auto
  then show ?thesis
  proof cases
    case start
    then show ?thesis using assms(2) v2_account_write_ops(1) [of s] by (simp add: v2_writes_waiting_def [of s])
  next
    case cancel
    then show ?thesis using v2_account_write_ops(2) by simp
  next
    case pull
    then show ?thesis using assms(2) v2_account_write_ops(5) by simp
  next
    case frame
    then show ?thesis using v2_account_frame by simp
  next
    case posted
    then show ?thesis using v2_account_posted by simp
  qed
qed

interpretation v2_acct: accounting v2_exec v2_enabled v2_inv v2_write_asked v2_writes_done v2_writes_waiting
  by unfold_locales (rule v2_exec_accounts)

text \<open>How a write is answered at the door: \<open>None\<close> is a write that is taken on.\<close>

definition v2_write_answer :: "v2_stream \<Rightarrow> bytes \<Rightarrow> bool \<Rightarrow> error_code option" where
  "v2_write_answer s buffer eof =
     (case last (v2_events (v2_async_write buffer eof s)) of
        V2_write ec \<Rightarrow> if v2_async_write buffer eof s = v2_emit (V2_write ec) s then Some ec else None
      | _ \<Rightarrow> None)"

lemma v2_write_answer_now: "v2_async_write buffer eof s = v2_emit (V2_write ec) s \<Longrightarrow> v2_write_answer s buffer eof = Some ec"
  by (simp add: v2_write_answer_def v2_events_emit)

interpretation v2_writer: writer_contract v2_write_answer v2_eof_requested v2_eof_submitted
  by unfold_locales (auto intro!: v2_write_answer_now simp: v2_async_write_def)

interpretation v2_detached: writer_contract "\<lambda>e b f. Some (v2_detached_write e b f)" "\<lambda>e. e" "\<lambda>e. e"
  by unfold_locales (simp_all add: v2_detached_write_def)

lemma v2_run_inv: "v2_run mode server ops = Some s \<Longrightarrow> v2_inv s"
  by (rule v2.run_inv [OF v2_start_inv])

lemma v2_start_received: "v2_received (v2_start mode server) = []"
  by (simp add: v2_start_def v2_init_def v2_on_request_def)

section \<open>The incoming side\<close>



text \<open>What a reader of version 2 was handed, followed by what is buffered for it, is the body nghttp2 delivered, in order and
  without a gap; the window of the stream is opened by what was handed out; a read waits only when nothing is buffered and
  the end has not come; and it is told \<open>eof\<close> only behind all of the body.\<close>
theorem v2_body_in_order:
  assumes "v2_run mode server ops = Some s"
  shows "v2_delivered s @ v2_buffered s = concat (map v2_input ops) \<and>
    hs_credited (v2_view s) = length (v2_delivered s) \<and>
    (v2_read_handler s \<noteq> None \<longrightarrow> v2_buffered s = [] \<and> \<not> v2_eof_received s) \<and>
    (V2_read Eof d n \<in> set (v2_events s) \<longrightarrow> v2_eof_received s \<and> v2_delivered s = concat (map v2_input ops))"
proof -
  have b: "v2_delivered s @ v2_buffered s = concat (map v2_input ops)"
    using v2_reader.run_conserves [OF v2_start_inv v2_start_received assms] by simp
  note D = hs_invD [OF v2_run_inv [OF assms, unfolded v2_inv_def, THEN conjunct1]]
  have "hs_eof_seen (v2_view s)" if "V2_read Eof d n \<in> set (v2_events s)"
    using that by (force simp: hs_eof_seen_def v2_view_def)
  then show ?thesis
    using b D(2,3) by (auto simp: hs_read_inv_def hs_core_def hs_read_idle_def v2_delivered_def v2_buffered_view)
qed

theorem v2_body_in_order_witness:
  "\<exists>s. v2_run V2_zero_copy True [Vop_data [1, 2, 3], Vop_eof, Vop_script [Read_again 4, Read_again 1], Vop_read 2] = Some s \<and>
       V2_read Eof [] 0 \<in> set (v2_events s) \<and> v2_delivered s = [1, 2, 3]"
proof -
  let ?ops = "[Vop_data [1, 2, 3], Vop_eof, Vop_script [Read_again 4, Read_again 1], Vop_read 2]"
  have "v2_run V2_zero_copy True ?ops \<noteq> None" by code_simp
  then obtain s where s: "v2_run V2_zero_copy True ?ops = Some s" by blast
  have "V2_read Eof [] 0 \<in> set (v2_events (the (v2_run V2_zero_copy True ?ops)))" by code_simp
  with s have "V2_read Eof [] 0 \<in> set (v2_events s)" by simp
  with s v2_body_in_order [OF s, of "[]" 0] show ?thesis by (intro exI [of _ s]) simp
qed

section \<open>The outgoing side\<close>

text \<open>C18: nghttp2 never reads memory that the application has back: whenever it refers to something of a stream, that memory is
  there, and what it will read from it is what comes next in the body. By reference this is the buffer of a write that still
  waits; staged, a chunk that is overwritten only after all of it went into frames.\<close>
theorem v2_zero_copy_safe:
  assumes "v2_run mode server ops = Some s" "v2_lent s > 0"
  shows "\<exists>m. v2_memory s = Some m \<and> length m = v2_lent s \<and> prefix (v2_wire s @ m) (v2_body s) \<and>
    (v2_write_mode s = V2_zero_copy \<longrightarrow> v2_write_handler s \<and> m = drop (v2_written s) (v2_write_buffer s))"
proof -
  have w: "v2_write_inv s" using v2_run_inv [OF assms(1)] by (simp add: v2_inv_def)
  then have b: "v2_body s = v2_wire s @ v2_in_flight s @ v2_unoffered s" "v2_lent_ok s" using assms(2) by (auto simp: v2_write_inv_def)
  show ?thesis
  proof (cases "v2_write_mode s")
    case V2_zero_copy
    then have h: "v2_write_handler s" "v2_offered s = length (v2_write_buffer s)" "v2_written s + v2_lent s = v2_offered s"
      using b(2) assms(2) by (auto simp: v2_lent_ok_def)
    then have "length (v2_write_buffer s) - v2_lent s = v2_written s" by simp
    then have "v2_memory s = Some (drop (v2_written s) (v2_write_buffer s))"
      using V2_zero_copy h(1,2) by (simp add: v2_memory_def)
    then show ?thesis using b(1) h assms(2) by (auto simp: v2_in_flight_def)
  next
    case V2_staged
    then show ?thesis using b assms(2) by (auto simp: v2_in_flight_def v2_memory_def v2_lent_ok_def)
  qed
qed

theorem v2_zero_copy_safe_witness:
  "\<exists>s. v2_run V2_zero_copy True [Vop_write [1, 2, 3] True, Vop_pull 1, Vop_frame 1, Vop_cancel_write] = Some s \<and>
       v2_memory s = Some [2, 3] \<and> v2_write_handler s"
proof -
  let ?ops = "[Vop_write [1, 2, 3] True, Vop_pull 1, Vop_frame 1, Vop_cancel_write]"
  have "v2_run V2_zero_copy True ?ops \<noteq> None" by code_simp
  then obtain s where s: "v2_run V2_zero_copy True ?ops = Some s" by blast
  have "v2_lent (the (v2_run V2_zero_copy True ?ops)) > 0" "v2_write_mode (the (v2_run V2_zero_copy True ?ops)) = V2_zero_copy"
    "drop (v2_written (the (v2_run V2_zero_copy True ?ops))) (v2_write_buffer (the (v2_run V2_zero_copy True ?ops))) = [2, 3]"
    by code_simp+
  with s v2_zero_copy_safe [OF s] show ?thesis by (intro exI [of _ s]) auto
qed



text \<open>What nghttp2 does with a write that waits: it makes frames of all it refers to, and asks for more.\<close>

lemma frame_all:
  assumes "v2_inv s" "v2_write_handler s" "v2_lent s > 0"
  defines "t \<equiv> v2_exec (Vop_frame (v2_lent s)) s"
  shows "v2_enabled (Vop_frame (v2_lent s)) s" "v2_lent t = 0" "v2_body t = v2_body s" "v2_write_mode t = v2_write_mode s"
    "v2_write_mode s = V2_zero_copy \<Longrightarrow> \<not> v2_write_handler t"
    "v2_write_mode s = V2_staged \<Longrightarrow> v2_write_handler t \<and> v2_unoffered t = v2_unoffered s" "\<not> v2_closed t"
proof -
  have w: "v2_write_inv s" using assms(1) by (simp add: v2_inv_def)
  then have c: "\<not> v2_closed s" "v2_lent_ok s" using assms(2) by (auto simp: v2_write_inv_def)
  then show "v2_enabled (Vop_frame (v2_lent s)) s" using assms(3) by simp
  obtain m where m: "v2_memory s = Some m" using assms(2) by (cases "v2_write_mode s") (simp_all add: v2_memory_def)
  have "v2_written s + v2_lent s = length (v2_write_buffer s)" if "v2_write_mode s = V2_zero_copy"
    using c(2) that assms(2,3) by (simp add: v2_lent_ok_def)
  then show "v2_lent t = 0" "v2_body t = v2_body s" "v2_write_mode t = v2_write_mode s"
    "v2_write_mode s = V2_zero_copy \<Longrightarrow> \<not> v2_write_handler t"
    "v2_write_mode s = V2_staged \<Longrightarrow> v2_write_handler t \<and> v2_unoffered t = v2_unoffered s" "\<not> v2_closed t"
    using assms(2) c(1) by (simp_all add: t_def v2_frame_def m v2_on_write_offset_def v2_unoffered_def Let_def)
qed

lemma pull_more:
  assumes "v2_inv s" "v2_write_handler s" "v2_lent s = 0"
  defines "t \<equiv> v2_exec (Vop_pull 1) s"
  shows "v2_enabled (Vop_pull 1) s" "v2_body t = v2_body s" "v2_write_mode t = v2_write_mode s"
    "\<not> v2_write_handler t \<or> v2_lent t > 0" "length (v2_unoffered t) < length (v2_unoffered s) \<or> \<not> v2_write_handler t"
    "\<not> v2_closed t"
proof -
  have w: "v2_write_inv s" using assms(1) by (simp add: v2_inv_def)
  then have c: "\<not> v2_closed s" "\<not> v2_is_deferred s" "v2_lent_ok s" using assms(2) by (auto simp: v2_write_inv_def)
  then show "v2_enabled (Vop_pull 1) s" using assms(3) by simp
  have e: "v2_eof_requested s \<and> \<not> v2_eof_submitted s" if "length (v2_write_buffer s) \<le> v2_offered s"
    using w c(3) assms(2,3) that by (auto simp: v2_write_inv_def v2_lent_ok_def split: v2_write_mode.splits)
  show "v2_body t = v2_body s" "v2_write_mode t = v2_write_mode s" "\<not> v2_write_handler t \<or> v2_lent t > 0"
    "length (v2_unoffered t) < length (v2_unoffered s) \<or> \<not> v2_write_handler t" "\<not> v2_closed t"
    using assms(2) e c(1) unfolding t_def
    by (cases s rule: data_reader_cases; auto simp: data_reader_end data_reader_zero_copy data_reader_staged
        v2_unoffered_def write_chunk_size_def)+
qed

definition nghttp2_acts :: "v2_op list \<Rightarrow> bool" where
  "nghttp2_acts ops \<longleftrightarrow> (\<forall>a \<in> set ops. (\<exists>n. a = Vop_pull n) \<or> (\<exists>n. a = Vop_frame n))"

lemma write_gets_through:
  assumes "v2_inv s" "v2_write_handler s"
  shows "\<exists>ops t. nghttp2_acts ops \<and> run v2_exec v2_enabled s ops = Some t \<and> \<not> v2_write_handler t \<and> v2_body t = v2_body s \<and>
    \<not> v2_closed t"
  using assms
proof (induction "length (v2_unoffered s)" arbitrary: s rule: less_induct)
  case less
  obtain s1 ops where s1: "nghttp2_acts ops" "run v2_exec v2_enabled s ops = Some s1" "v2_body s1 = v2_body s" "v2_inv s1" "\<not> v2_closed s1"
    "\<not> v2_write_handler s1 \<or> v2_write_handler s1 \<and> v2_lent s1 = 0 \<and> v2_unoffered s1 = v2_unoffered s"
  proof (cases "v2_lent s = 0")
    case True
    moreover have "\<not> v2_closed s" using less.prems by (auto simp: v2_inv_def v2_write_inv_def)
    ultimately show ?thesis using less.prems that [of "[]" s] by (simp add: nghttp2_acts_def run.simps)
  next
    case False
    then have l: "v2_lent s > 0" by simp
    note F = frame_all [OF less.prems l]
    have "v2_inv (v2_exec (Vop_frame (v2_lent s)) s)" by (rule v2_exec_inv [OF less.prems(1) F(1)])
    with F that [of "[Vop_frame (v2_lent s)]" "v2_exec (Vop_frame (v2_lent s)) s"] show ?thesis
      by (cases "v2_write_mode s") (simp_all add: nghttp2_acts_def run.simps)
  qed
  show ?case
  proof (cases "v2_write_handler s1")
    case False
    with s1 show ?thesis by blast
  next
    case True
    have "v2_lent s1 = 0" "v2_unoffered s1 = v2_unoffered s" using s1(6) True by auto
    note P = pull_more [OF s1(4) True this(1)] and u = this(2)
    let ?t = "v2_exec (Vop_pull 1) s1"
    have e: "v2_enabled (Vop_pull 1) s1" "v2_inv ?t" by (fact P(1), rule v2_exec_inv [OF s1(4) P(1)])
    have r: "run v2_exec v2_enabled s (ops @ [Vop_pull 1]) = Some ?t" "nghttp2_acts (ops @ [Vop_pull 1])"
      using s1(1,2) e(1) by (simp_all add: run_append run.simps nghttp2_acts_def)
    show ?thesis
    proof (cases "v2_write_handler ?t")
      case False
      with r P(2,6) s1(3) show ?thesis by (intro exI [of _ "ops @ [Vop_pull 1]"] exI [of _ ?t]) simp
    next
      case w: True
      then have "length (v2_unoffered ?t) < length (v2_unoffered s)" using P(5) u by auto
      then obtain ops' t where t: "nghttp2_acts ops'" "run v2_exec v2_enabled ?t ops' = Some t" "\<not> v2_write_handler t"
        "v2_body t = v2_body ?t" "\<not> v2_closed t" using less.hyps [OF _ e(2) w] by blast
      have "run v2_exec v2_enabled s ((ops @ [Vop_pull 1]) @ ops') = Some t" using r(1) t(2) by (simp only: run_append option.case)
      moreover have "nghttp2_acts ((ops @ [Vop_pull 1]) @ ops')" using r(2) t(1) by (auto simp: nghttp2_acts_def)
      moreover have "v2_body t = v2_body s" using t(4) P(2) s1(3) by simp
      ultimately show ?thesis using t(3,5) by blast
    qed
  qed
qed



text \<open>Every write on a stream of version 2 is answered exactly once, or is the one that still waits for its answer; and when
  the stream is destroyed, nothing is left waiting.\<close>
theorem v2_write_answered_once:
  assumes "v2_run mode server ops = Some s"
  shows "v2_writes_done s + v2_writes_waiting s = sum_list (map v2_write_asked ops) \<and>
    v2_writes_done (v2_dtor s) = sum_list (map v2_write_asked ops) \<and>
    v2_read_handler (v2_dtor s) = None \<and> \<not> v2_response_handler (v2_dtor s) \<and> \<not> v2_write_handler (v2_dtor s)"
proof -
  have "v2_writes_done (v2_start mode server) = 0" "v2_writes_waiting (v2_start mode server) = 0"
    by (simp_all add: v2_account_defs v2_start_def v2_init_def v2_on_request_def)
  then have "v2_writes_done s + v2_writes_waiting s = sum_list (map v2_write_asked ops)"
    using v2_acct.run_accounts [OF v2_start_inv assms] by simp
  moreover have "v2_writes_done (v2_dtor s) = v2_writes_done s + v2_writes_waiting s"
    by (simp add: v2_dtor_def Let_def v2_account_defs v2_events_emit)
  moreover have "v2_read_handler (v2_dtor s) = None \<and> \<not> v2_response_handler (v2_dtor s) \<and> \<not> v2_write_handler (v2_dtor s)"
    by (simp add: v2_dtor_def Let_def)
  ultimately show ?thesis by simp
qed

theorem v2_write_answered_once_witness:
  "\<exists>s. v2_run V2_zero_copy True [Vop_write [1] False, Vop_pull 1, Vop_frame 1, Vop_write [2] True] = Some s \<and>
       v2_writes_done s + v2_writes_waiting s = 2 \<and> v2_writes_done (v2_dtor s) = 2"
proof -
  let ?ops = "[Vop_write [1] False, Vop_pull 1, Vop_frame 1, Vop_write [2] True]"
  have "v2_run V2_zero_copy True ?ops \<noteq> None" by code_simp
  then obtain s where s: "v2_run V2_zero_copy True ?ops = Some s" by blast
  with v2_write_answered_once [OF s] show ?thesis by (intro exI [of _ s]) simp
qed

section \<open>Surprises\<close>

text \<open>Asked without room for a vector, a stream tells nghttp2 to wait for \<open>resume()\<close>, which only the next write would call: the
  write that waits is forgotten.\<close>

lemma v2_no_room_forgets_write:
  "\<exists>s. v2_run V2_staged False [Vop_write [1] False] = Some s \<and> v2_write_handler (fst (v2_data_reader 0 s)) \<and>
       v2_is_deferred (fst (v2_data_reader 0 s)) \<and> \<not> v2_enabled (Vop_pull 1) (fst (v2_data_reader 0 s))"
proof -
  have "v2_run V2_staged False [Vop_write [1] False] \<noteq> None" by code_simp
  then obtain s where s: "v2_run V2_staged False [Vop_write [1] False] = Some s" by blast
  have "v2_write_handler (fst (v2_data_reader 0 (the (v2_run V2_staged False [Vop_write [1] False]))))"
    "v2_is_deferred (fst (v2_data_reader 0 (the (v2_run V2_staged False [Vop_write [1] False]))))" by code_simp+
  with s show ?thesis by simp
qed

text \<open>That a write was cancelled is never forgotten: if its last bytes are in the frame in progress, it completes with success
  after all, and the write that follows is told that it was cancelled when the stream closes.\<close>

lemma v2_later_write_told_cancelled:
  "\<exists>s. v2_run V2_zero_copy True
         [Vop_write [1, 2] False, Vop_pull 1, Vop_cancel_write, Vop_frame 2, Vop_write [3] False, Vop_close] = Some s \<and>
       filter is_v2_write (v2_events s) = [V2_write Success, V2_write Canceled]"
proof -
  let ?ops = "[Vop_write [1, 2] False, Vop_pull 1, Vop_cancel_write, Vop_frame 2, Vop_write [3] False, Vop_close]"
  have "v2_run V2_zero_copy True ?ops \<noteq> None" by code_simp
  then obtain s where s: "v2_run V2_zero_copy True ?ops = Some s" by blast
  have "filter is_v2_write (v2_events (the (v2_run V2_zero_copy True ?ops))) = [V2_write Success, V2_write Canceled]" by code_simp
  with s show ?thesis by simp
qed

end
