(* ===== verification/H2v2_Session_Properties.thy ===== *)
theory H2v2_Session_Properties
  imports H2v2_Session_Machine H2v2_Properties H2_Session_Properties
begin

text \<open>
  What holds of a whole session of version 2, for every sequence of operations of \<open>H2v2_Session_Machine\<close>: what the pointers
  that nghttp2 keeps refer to, what the end of the send loop does for those who wait, and what is asked of nghttp2 at the end.
\<close>

section \<open>Everything that is reported stays reported\<close>

abbreviation grows :: "v2_stream \<Rightarrow> v2_stream \<Rightarrow> bool" where
  "grows s t \<equiv> prefix (v2_events s) (v2_events t)"

lemma grows_trans: "grows s t \<Longrightarrow> grows t u \<Longrightarrow> grows s u"
  by (rule prefix_order.trans)

lemma grows_invoke: "grows s (v2_invoke_read ec d s)"
  by (auto simp: stream_defs Let_def split: list.split read_action.split)

lemma grows_next: "v2_events (fst (v2_next_buffer view s)) = v2_events s"
  by (simp add: v2_next_buffer_def Let_def)

lemma grows_deliver: "grows s (fst (v2_deliver_loop s view consumed))"
proof (induction s view consumed rule: v2_deliver_loop.induct)
  case (1 s view consumed)
  show ?case
  proof (cases "v2_read_handler s = None \<or> v2_read_buffer s = []")
    case True
    then show ?thesis by (subst v2_deliver_loop.simps) (auto split: option.split)
  next
    case False
    then obtain room where r: "v2_read_handler s = Some room" "v2_read_buffer s \<noteq> []" by auto
    define copied where "copied = take room (v2_read_buffer s)"
    define s1 where "s1 = s\<lparr>v2_bytesRead := v2_bytesRead s + length copied, v2_read_buffer := drop (length copied) (v2_read_buffer s)\<rparr>"
    obtain s2 view2 where n: "v2_next_buffer view (v2_invoke_read Success copied s1) = (s2, view2)" by fastforce
    have e: "v2_deliver_loop s view consumed = v2_deliver_loop s2 view2 (consumed + length copied)"
      by (subst v2_deliver_loop.simps) (simp only: r option.case if_False Let_def copied_def [symmetric] s1_def [symmetric] n prod.case)
    have "grows s1 s2" using grows_invoke [of s1 Success copied] grows_next [of view "v2_invoke_read Success copied s1"] n by simp
    then have "grows s s2" by (simp add: s1_def)
    moreover have "grows s2 (fst (v2_deliver_loop s2 view2 (consumed + length copied)))"
      by (rule 1 [OF r copied_def s1_def n [symmetric] refl])
    ultimately show ?thesis unfolding e by (rule grows_trans)
  qed
qed

lemma grows_eof: "grows s (v2_eof_loop s)"
proof (induction s rule: v2_eof_loop.induct)
  case (1 s)
  show ?case
  proof (cases "v2_read_handler s = None")
    case True then show ?thesis by (subst v2_eof_loop.simps) simp
  next
    case False
    then have "v2_eof_loop s = v2_eof_loop (v2_invoke_read Eof [] s)" by (subst v2_eof_loop.simps) simp
    with 1 [OF False] grows_invoke grows_trans show ?thesis by metis
  qed
qed

lemma grows_finish: "grows s (v2_finish_delivery view s)"
proof -
  have "v2_events (v2_store view s) = v2_events s" by (simp add: v2_store_def)
  then show ?thesis using grows_eof [of s] grows_invoke [of "v2_store view s"] by (simp add: v2_finish_delivery_def Let_def)
qed

lemma grows_body: "grows s (v2_call_read_handler_body view s)"
proof -
  have "grows t (v2_deliver_and_finish view t)" for t
  proof -
    define p where "p = (if v2_pending_read_buffers t = [] then (t\<lparr>v2_read_buffer := view\<rparr>, v2_read_buffer t) else (t, view))"
    obtain s2 view2 c where l: "v2_deliver_loop (fst p) (snd p) 0 = (s2, view2, c)" by (metis prod_cases3)
    have "grows t (fst p)" by (simp add: p_def)
    moreover have "grows (fst p) s2" using grows_deliver [of "fst p" "snd p" 0] l by simp
    moreover have "grows s2 (v2_consume c s2)" by (simp add: v2_consume_def v2_emit_def)
    ultimately have "grows t (v2_consume c s2)" using grows_trans by metis
    moreover have "v2_deliver_and_finish view t = v2_finish_delivery view2 (v2_consume c s2)"
      using l by (simp add: v2_deliver_and_finish_def p_def split: if_splits)
    ultimately show ?thesis using grows_finish grows_trans by metis
  qed
  from this [of "s\<lparr>v2_inside_call_read_handler := True\<rparr>"] show ?thesis by (simp add: v2_call_read_handler_body_def Let_def)
qed

section \<open>What those who wait on a stream are told when it is closed\<close>

definition told_at_close :: "v2_stream \<Rightarrow> v2_stream \<Rightarrow> bool" where
  "told_at_close s t \<longleftrightarrow>
     v2_closed t \<and> \<not> v2_write_handler t \<and> \<not> v2_response_handler t \<and>
     (v2_write_handler s \<longrightarrow> V2_write (if v2_write_cancelled s then Canceled else Connection_reset) \<in> set (v2_events t)) \<and>
     (v2_response_handler s \<longrightarrow> V2_response End_of_stream \<in> set (v2_events t)) \<and>
     (v2_read_handler s \<noteq> None \<longrightarrow> V2_read Partial_message [] 0 \<in> set (v2_events t))"

lemma v2_close_erases:
  assumes "v2_inv s" "v2_in_map s" "v2_read_handler s \<noteq> None \<or> v2_response_handler s"
  defines "s3 \<equiv> v2_emit V2_erase ((v2_mark_closed s)\<lparr>v2_in_map := False\<rparr>)"
  defines "s4 \<equiv> if v2_read_handler s3 \<noteq> None then v2_call_read_handler_body [] (v2_invoke_read Partial_message [] s3) else s3"
  shows "v2_close_stream s =
    (if v2_response_handler s4 then v2_emit (V2_response End_of_stream) (s4\<lparr>v2_response_handler := False\<rparr>) else s4)"
proof -
  have i: "hs_inv (v2_view s)" using assms(1) by (simp add: v2_inv_def)
  have r: "v2_reader s" "\<not> v2_eof_received s" if "v2_read_handler s \<noteq> None"
    using hs_invD(2,3) [OF i] that by (auto simp: hs_read_inv_def hs_core_def hs_read_idle_def)
  have l: "v2_reader s \<longrightarrow> v2_server s \<or> v2_response_delivered s"
    "v2_server s \<longrightarrow> \<not> v2_has_response s \<and> v2_response_error s = Success \<and> \<not> v2_response_handler s"
    "v2_response_handler s \<longrightarrow> \<not> v2_response_delivered s \<and> \<not> v2_has_response s \<and> v2_response_error s = Success"
    using hs_invD(5) [OF i] by (auto simp: hs_life_def)
  have n: "\<not> (\<not> v2_response_delivered s \<and> (v2_has_response s \<or> v2_response_error s \<noteq> Success))"
    "\<not> (v2_reader s \<and> v2_eof_received s \<and> \<not> v2_reading_finished s)"
    using r l assms(3) by blast+
  let ?c = "v2_mark_closed s"
  have "v2_response_delivered ?c = v2_response_delivered s" "v2_has_response ?c = v2_has_response s"
    "v2_response_error ?c = v2_response_error s" "v2_reader ?c = v2_reader s" "v2_eof_received ?c = v2_eof_received s"
    "v2_reading_finished ?c = v2_reading_finished s"
    by (simp_all add: v2_mark_closed_def Let_def v2_reading_finished_def v2_emit_def)
  with n assms(2) show ?thesis
    unfolding v2_close_stream_def v2_close_stream_with_def s4_def s3_def Let_def by (simp only: if_False if_True not_True_eq_False simp_thms)
qed

lemma v2_close_no_response:
  assumes "v2_inv s" "v2_in_map s" "v2_read_handler s = None" "\<not> v2_response_handler s"
  shows "\<not> v2_response_handler (v2_close_stream s)"
proof -
  have "hs_inv (v2_view s)" using assms(1) by (simp add: v2_inv_def)
  then have d: "v2_close_deferred s \<longrightarrow> \<not> (\<not> v2_response_delivered s \<and> (v2_has_response s \<or> v2_response_error s \<noteq> Success))"
    using hs_invD(5) [of "v2_view s"] by (auto simp: hs_life_def)
  define c where "c = v2_mark_closed s"
  have c: "v2_response_delivered c = v2_response_delivered s" "v2_has_response c = v2_has_response s"
    "v2_response_error c = v2_response_error s" "v2_read_handler c = None" "v2_close_deferred c = v2_close_deferred s"
    "\<not> v2_response_handler c"
    using assms(3,4) by (simp_all add: c_def v2_mark_closed_def Let_def v2_emit_def)
  have "v2_call_read_handler [] c = c" if "\<not> v2_close_deferred c"
    using that c(4) by (simp add: v2_call_read_handler_def v2_call_read_handler_body_def v2_finish_deferred_close_def)
  with c d assms(2) show ?thesis
    by (auto simp: v2_close_stream_def v2_close_stream_with_def c_def [symmetric] Let_def v2_emit_def)
qed

lemma v2_call_body_response: "v2_response_handler (v2_call_read_handler_body view s) = v2_response_handler s"
proof -
  have "hs_rest2 (call_read_handler_body view (v2_view s)) = hs_rest2 (v2_view s)"
    using hs_same_body [of view "v2_view s"] by (simp add: hs_same_def)
  then have "hs_response_handler (call_read_handler_body view (v2_view s)) = hs_response_handler (v2_view s)"
    by (rule hs_rest2_eqD)
  then show ?thesis by (metis v2_likeD(1) [OF like_call_body] v2_view_sel(7))
qed

lemma v2_invoke_response: "v2_response_handler (v2_invoke_read ec d s) = v2_response_handler s"
  by (auto simp: stream_defs Let_def split: list.split read_action.split)

lemma v2_close_tells:
  assumes "v2_inv s" "v2_in_map s"
  shows "told_at_close s (v2_close_stream s)"
proof -
  let ?t = "v2_close_stream s"
  note out = v2_out_eqD [OF v2_close_out [OF assms(2)]]
  have w: "V2_write (if v2_write_cancelled s then Canceled else Connection_reset) \<in> set (filter is_v2_write (v2_events ?t))"
    if "v2_write_handler s"
    using that by (subst out(16)) (simp add: v2_mark_closed_def Let_def v2_emit_def)
  have h: "\<not> v2_write_handler ?t" "v2_closed ?t" using out(3,11) by (simp_all add: v2_mark_closed_def Let_def v2_emit_def)
  have q: "\<not> v2_response_handler ?t" if "\<not> (v2_read_handler s \<noteq> None \<or> v2_response_handler s)"
    using that v2_close_no_response assms by blast
  show ?thesis
  proof (cases "v2_read_handler s \<noteq> None \<or> v2_response_handler s")
    case False
    with w h q show ?thesis by (auto simp: told_at_close_def)
  next
    case True
    define s3 where "s3 = v2_emit V2_erase ((v2_mark_closed s)\<lparr>v2_in_map := False\<rparr>)"
    define s4 where "s4 = (if v2_read_handler s3 \<noteq> None then v2_call_read_handler_body [] (v2_invoke_read Partial_message [] s3) else s3)"
    have t: "?t = (if v2_response_handler s4 then v2_emit (V2_response End_of_stream) (s4\<lparr>v2_response_handler := False\<rparr>) else s4)"
      unfolding s4_def s3_def by (rule v2_close_erases [OF assms True])
    have f: "v2_read_handler s3 = v2_read_handler s" "v2_response_handler s3 = v2_response_handler s"
      by (simp_all add: s3_def v2_mark_closed_def Let_def v2_emit_def)
    have "V2_read Partial_message [] 0 \<in> set (v2_events s4)" if "v2_read_handler s \<noteq> None"
    proof -
      have "V2_read Partial_message [] 0 \<in> set (v2_events (v2_invoke_read Partial_message [] s3))"
        by (auto simp: stream_defs Let_def split: list.split read_action.split)
      then show ?thesis using that f(1) set_mono_prefix [OF grows_body [of "v2_invoke_read Partial_message [] s3" "[]"]] by (auto simp: s4_def)
    qed
    moreover have "v2_response_handler s4 = v2_response_handler s"
      using f(2) by (simp add: s4_def v2_call_body_response v2_invoke_response)
    ultimately show ?thesis using w h t by (auto simp: told_at_close_def v2_emit_def)
  qed
qed

section \<open>Pointers\<close>

text \<open>C20: In every run of a session of version 2, a pointer that nghttp2 keeps for a stream refers to a stream in the table that is
  not closed, under its number; and as long as the send loop is not over, nghttp2 has such a pointer for every stream it has
  open, so that no callback finds a null pointer where it relies on one.\<close>
theorem v2_pointers_valid:
  assumes "vs_run lib no_url hh server limit alt_svc ops = Some s"
  shows "(\<forall>sid \<in> set (vs_user_data s). \<exists>x. vs_find_stream sid s = Some x \<and> \<not> v2_closed (vx_stream x) \<and> v2_in_map (vx_stream x)) \<and>
    (vs_send s \<noteq> Vl_ended \<longrightarrow> \<not> vs_null s \<and> (\<forall>sid \<in> set (vs_open s). sid \<in> set (vs_user_data s)))"
proof -
  have inv: "vs_inv s" by (rule vs_run_inv [OF assms])
  have "\<exists>x. vs_find_stream sid s = Some x \<and> \<not> v2_closed (vx_stream x) \<and> v2_in_map (vx_stream x)" if "sid \<in> set (vs_user_data s)" for sid
    using that vs_invD(3,4,7) [OF inv] by (cases "vs_conn s") fastforce+
  with vs_invD(5,6) [OF inv] show ?thesis by blast
qed

text \<open>A turn of the send loop that has nothing to wait for.\<close>

definition sending :: "'u v2s_op list \<Rightarrow> bytes \<Rightarrow> error_code \<Rightarrow> 'u v2_turn" where
  "sending acts data ec = \<lparr>vt_wait = Success, vt_acts = acts, vt_nwrite = Cw_bytes data, vt_write = ec, vt_expiry = None\<rparr>"

theorem v2_pointers_valid_witness:
  "\<exists>s. vs_run plain_lib () True True 100 []
         [Lp_begin True [Sp_open 1, Sp_header 1 '':method'' ''GET'', Sp_end_headers 1] True,
          Lp_do (Sp_app 1 (Vop_write [1, 2] True)), Lp_send (sending [Sp_pull 1 1, Sp_framed 1 2] [9] Success)] = Some s \<and>
       vs_open s = [1] \<and> (\<exists>x. vs_find_stream 1 s = Some x \<and> \<not> v2_closed (vx_stream x))"
proof -
  let ?ops = "[Lp_begin True [Sp_open 1, Sp_header 1 '':method'' ''GET'', Sp_end_headers 1] True,
          Lp_do (Sp_app 1 (Vop_write [1, 2] True)), Lp_send (sending [Sp_pull 1 1, Sp_framed 1 2] [9] Success)]"
  let ?r = "vs_run plain_lib () True True 100 [] ?ops"
  have r: "?r \<noteq> None" "vs_open (the ?r) = [1]" "vs_send (the ?r) \<noteq> Vl_ended" by code_simp+
  then obtain s where s: "?r = Some s" by blast
  from v2_pointers_valid [OF s] r s show ?thesis by (intro exI [of _ s]) auto
qed

text \<open>The end of the send loop takes the pointers away while nghttp2 still has the streams open. When it ended because writing
  failed, and the receive loop has one more piece of input at hand, the callbacks for headers find a null pointer.\<close>

lemma v2_header_after_send_loop:
  "\<exists>s. vs_run plain_lib () True False 100 []
         [Lp_begin True [] True, Lp_do (Sp_submit (Sub_id 1) ()), Lp_send (sending [] [9] Connection_reset),
          Lp_recv Success [Sp_header 1 '':status'' ''200''] True] = Some s \<and> vs_null s"
proof -
  let ?ops = "[Lp_begin True [] True, Lp_do (Sp_submit (Sub_id 1) ()), Lp_send (sending [] [9] Connection_reset),
          Lp_recv Success [Sp_header 1 '':status'' ''200''] True]"
  let ?r = "vs_run plain_lib () True False 100 [] ?ops"
  have r: "?r \<noteq> None" "vs_null (the ?r)" by code_simp+
  then obtain s where s: "?r = Some s" by blast
  with r show ?thesis by (intro exI [of _ s]) (simp only: option.sel simp_thms)
qed

section \<open>The end of the send loop\<close>

lemma vs_on_stream_dying: "set (vs_dying s) \<subseteq> set (vs_dying (vs_on_stream f sid s))"
  by (auto simp: vs_on_stream_def Let_def split: option.split)

lemma vs_close_from_dying_grows: "set (vs_dying s) \<subseteq> set (vs_dying (vs_close_from i s))"
proof (induction i s rule: vs_close_from.induct)
  case (2 sid s)
  then show ?case using vs_on_stream_dying [of s v2_close_stream sid] by (auto simp: Let_def vs_close_stream_def)
qed simp

lemma vs_close_from_dying:
  assumes "vs_find_stream j s = Some x" "sid \<le> j" "\<not> v2_in_map (v2_close_stream (vx_stream x))"
  shows "x\<lparr>vx_stream := v2_close_stream (vx_stream x)\<rparr> \<in> set (vs_dying (vs_close_from (Some sid) s))"
  using assms
proof (induction "Some sid" s arbitrary: sid rule: vs_close_from.induct)
  case (2 sid s)
  let ?s1 = "vs_close_stream sid s"
  show ?case
  proof (cases "j = sid")
    case True
    then have "x\<lparr>vx_stream := v2_close_stream (vx_stream x)\<rparr> \<in> set (vs_dying ?s1)"
      using 2(2,4) by (simp add: vs_close_stream_def vs_on_stream_def Let_def)
    then show ?thesis using vs_close_from_dying_grows [of ?s1] by (auto simp: Let_def)
  next
    case False
    then have j: "vs_find_stream j ?s1 = Some x" "sid < j" using 2(2,3) by (simp_all add: vs_close_stream_def vs_find_on_stream)
    then have "j \<in> fst ` set (vs_streams ?s1)" using vs_keys_find [of j ?s1] by (simp add: vs_keys_def)
    then obtain k where k: "upper_bound sid (vs_streams ?s1) = Some k" "k \<le> j"
      using j(2) upper_bound_None upper_bound_Some by (metis not_None_eq not_le)
    then show ?thesis using 2(1) [OF refl k(1) j(1) k(2) 2(4)] by (simp add: Let_def)
  qed
qed

lemma vs_clear_gone: "vs_find_stream j s = Some x \<Longrightarrow> x\<lparr>vx_stream := v2_dtor (vx_stream x)\<rparr> \<in> set (vs_gone (vs_clear_streams s))"
  by (force simp: vs_clear_streams_def vs_find_stream_def dest: map_of_SomeD)

text \<open>C19: When the send loop ends, however it has come to that, no stream of the session is left and nghttp2 has no pointer. Each
  of the streams was closed, and whoever waited for it was told what has happened: a write that the connection was reset (or
  that it was cancelled, if it was its own cancellation), a read that the body is not complete, the request for a response
  that there will be none. A stream that had to be kept at its close was destroyed, with nobody waiting for it; the others are
  on their way.\<close>
theorem v2_send_loop_leaves_nobody:
  assumes "vs_run lib no_url hh server limit alt_svc ops = Some s" "vs_find_stream sid s = Some x"
  defines "t \<equiv> vs_end_send_loop s" and "y \<equiv> v2_close_stream (vx_stream x)"
  shows "vs_streams t = [] \<and> vs_user_data t = [] \<and> told_at_close (vx_stream x) y \<and>
    (if v2_in_map y then x\<lparr>vx_stream := v2_dtor y\<rparr> \<in> set (vs_gone t) \<and> v2_idle (v2_dtor y)
     else x\<lparr>vx_stream := y\<rparr> \<in> set (vs_dying t))"
proof -
  have inv: "vs_inv s" by (rule vs_run_inv [OF assms(1)])
  define s1 where "s1 = vs_emit Sv_io_cancel (s\<lparr>vs_timer := False, vs_send := Vl_ended\<rparr>)"
  define u where "u = vs_close_from (first_of (map fst (vs_streams s1))) s1"
  have t: "t = vs_clear_streams u" by (simp add: t_def u_def s1_def vs_end_send_loop_eq Let_def)
  have s1: "vs_inv s1" "vs_send s1 = Vl_ended" unfolding s1_def
    using vs_ended_inv [OF inv] by (subst vs_inv_simple) (auto elim: vs_inv_cong)
  have x: "vs_find_stream sid s1 = Some x" using assms(2) by (simp add: s1_def vs_find_stream_def)
  note all = vs_close_all [OF s1, folded u_def]
  have "x\<lparr>vx_stream := v2_dtor y\<rparr> \<in> set (vs_gone t)" if "v2_in_map y"
    using vs_clear_gone [of sid u "x\<lparr>vx_stream := y\<rparr>"] all(3) [of sid] x that by (simp add: t y_def Let_def)
  moreover have "x\<lparr>vx_stream := y\<rparr> \<in> set (vs_dying t)" if n: "\<not> v2_in_map y"
  proof -
    obtain k where k: "first_of (map fst (vs_streams s1)) = Some k"
      using x first_of_None [of "map fst (vs_streams s1)"] by (cases "first_of (map fst (vs_streams s1))") (auto simp: vs_find_stream_def)
    have "k \<le> sid" using first_of_Some [OF k] x by (force simp: vs_find_stream_def dest: map_of_SomeD)
    then show ?thesis using vs_close_from_dying [OF x _ n [unfolded y_def], of k] k by (simp add: t u_def y_def vs_clear_streams_def)
  qed
  moreover have "told_at_close (vx_stream x) y" unfolding y_def using vs_invD(3) [OF inv assms(2)] v2_close_tells by blast
  ultimately show ?thesis using all(2) v2_dtor_idle by (simp add: t vs_clear_streams_def)
qed

theorem v2_send_loop_leaves_nobody_witness:
  "\<exists>s x. vs_run plain_lib () True False 100 []
         [Lp_begin True [] True, Lp_do (Sp_submit (Sub_id 1) ()), Lp_do (Sp_app 1 (Vop_write [1] False)),
          Lp_do (Sp_app 1 Vop_get_response)] = Some s \<and>
       vs_find_stream 1 s = Some x \<and> V2_write Connection_reset \<in> set (v2_events (v2_close_stream (vx_stream x))) \<and>
       V2_response End_of_stream \<in> set (v2_events (v2_close_stream (vx_stream x)))"
proof -
  let ?ops = "[Lp_begin True [] True, Lp_do (Sp_submit (Sub_id 1) ()), Lp_do (Sp_app 1 (Vop_write [1] False)),
          Lp_do (Sp_app 1 Vop_get_response)]"
  let ?r = "vs_run plain_lib () True False 100 [] ?ops"
  have r: "?r \<noteq> None" "vs_find_stream 1 (the ?r) \<noteq> None" "v2_write_handler (vx_stream (the (vs_find_stream 1 (the ?r))))"
    "\<not> v2_write_cancelled (vx_stream (the (vs_find_stream 1 (the ?r))))"
    "v2_response_handler (vx_stream (the (vs_find_stream 1 (the ?r))))" by code_simp+
  then obtain s x where s: "?r = Some s" "vs_find_stream 1 s = Some x" by (metis option.exhaust_sel)
  with v2_send_loop_leaves_nobody [OF s] r show ?thesis
    by (intro exI [of _ s] exI [of _ x]) (simp add: told_at_close_def)
qed

section \<open>What is asked of nghttp2 at the end\<close>

fun is_request :: "v2s_event \<Rightarrow> bool" where
  "is_request Sv_conn_read = True"
| "is_request Sv_submit_request = True"
| "is_request Sv_terminate = True"
| "is_request Sv_handle_expiry = True"
| "is_request _ = False"

definition asked :: "'u v2_session \<Rightarrow> v2s_event list" where
  "asked s = filter is_request (vs_events s)"

lemma asked_simple [simp]:
  "\<not> is_request e \<Longrightarrow> asked (vs_emit e s) = asked s" "asked (vs_on_stream f sid s) = asked s" "asked (vs_start_write s) = asked s"
  by (simp_all add: asked_def vs_emit_def vs_start_write_def)

lemma asked_exec: "vs_closing s \<Longrightarrow> asked (v2s_exec lib no_url hh a s) = asked s"
proof (cases a)
  case (Sp_closed sid)
  then show ?thesis by (simp add: on_stream_close_def vs_close_stream_def) (simp add: asked_def)
qed (auto simp: on_end_headers_def vs_on_request_def vs_on_alt_svc_def on_recv_data_def on_end_stream_remote_def stream_read_data_def
    on_write_stream_data_offset_def vs_async_submit_def vs_submit_response_def Let_def split: option.split,
  auto simp: asked_def on_stream_open_def vs_create_stream_def on_recv_header_def vs_reap_stream_def Let_def
    split: option.split list.split)

lemma asked_do: "vs_closing s \<Longrightarrow> asked (vs_do lib no_url hh acts s) = asked s"
  unfolding vs_do_def by (induction acts arbitrary: s) (simp_all add: asked_exec del: v2s_exec.simps)

lemma asked_upd [simp]:
  "asked (s\<lparr>vs_send := l\<rparr>) = asked s" "asked (s\<lparr>vs_timer := b\<rparr>) = asked s" "asked (s\<lparr>vs_send_ready := b\<rparr>) = asked s"
  "asked (s\<lparr>vs_closing := b\<rparr>) = asked s" "asked (s\<lparr>vs_send_failed := b\<rparr>) = asked s" "asked (s\<lparr>vs_sent := d\<rparr>) = asked s"
  "asked (s\<lparr>vs_recv_done := b\<rparr>) = asked s" "asked (s\<lparr>vs_recv := l\<rparr>) = asked s" "asked (s\<lparr>vs_shutdown_started := b\<rparr>) = asked s"
  "asked (s\<lparr>vs_session_done := b\<rparr>) = asked s" "asked (s\<lparr>vs_conn := b\<rparr>) = asked s" "asked (s\<lparr>vs_stream_closed := b\<rparr>) = asked s"
  "asked (s\<lparr>vs_user_data := is\<rparr>) = asked s" "asked (s\<lparr>vs_open := is\<rparr>) = asked s" "asked (vs_clear_streams s) = asked s"
  "asked (vs_close_from i s) = asked s"
  by (simp_all add: asked_def vs_clear_streams_def)

lemma asked_end_loop [simp]: "asked (vs_end_send_loop s) = asked s" "vs_closing (vs_end_send_loop s) = vs_closing s"
  by (simp_all add: vs_end_send_loop_def Let_def) (simp add: vs_clear_streams_def)



text \<open>The send loop does not look at whether the session is closing: after a failure of \<open>nghttp2_conn_read\<close>, which is
  unrecoverable, \<open>nghttp2_conn_write\<close> is called again, and what it returns is sent.\<close>

lemma v2_write_after_failed_read:
  "\<exists>s. vs_run plain_lib () True True 100 []
         [Lp_begin True [] True, Lp_recv Success [] False, Lp_recv Success [] True, Lp_send (sending [] [7] Success)] = Some s \<and>
       vs_closing s \<and> vs_events s = [Sv_conn_read, Sv_conn_read, Sv_conn_write] \<and> vs_sent s = [[7]]"
proof -
  let ?r = "vs_run plain_lib () True True 100 []
    [Lp_begin True [] True, Lp_recv Success [] False, Lp_recv Success [] True, Lp_send (sending [] [7] Success)]"
  have r: "?r \<noteq> None" "vs_closing (the ?r)" "vs_events (the ?r) = [Sv_conn_read, Sv_conn_read, Sv_conn_write]"
    "vs_sent (the ?r) = [[7]]" by code_simp+
  then obtain s where s: "?r = Some s" by blast
  with r show ?thesis by (intro exI [of _ s]) (simp only: option.sel simp_thms)
qed

end
