(* ===== verification/H2_Connection.thy ===== *)
theory H2_Connection
  imports H2_Session_Machine H2_Send_Loop
begin

text \<open>
  The connection of an HTTP/2 session, \<^verbatim>\<open>include/anyhttp/h2/session_details.hpp\<close>: how the send loop of \<open>H2_Send_Loop\<close> and the
  receive loop work on the session of \<open>H2_Session\<close>, how a request that was upgraded from HTTP/1.1 is continued, and how the
  connection ends. The callbacks that nghttp2 makes during a call, and what the application does meanwhile, are an argument
  of the turn; \<open>want\<close> is whether nghttp2 wants to read or to write.
\<close>

section \<open>State\<close>

datatype terminate_code = Te_no_error | Te_stream_closed | Te_protocol_error

datatype conn_event =
    Ce_terminate terminate_code
  | Ce_io_cancel
  | Ce_io_close
  | Ce_io_shutdown
  | Ce_teardown
  | Ce_drain
  | Ce_session_del

record 'u h2_conn =
  cn_session :: "'u h2_session"
  cn_send :: send_loop
  cn_recv :: loop_state
  cn_buffer :: bytes
  cn_recv_done :: bool
  cn_shutdown_started :: bool
  cn_session_done :: bool
  cn_stream_closed :: bool
  cn_gone :: "'u exchange list"
  cn_log :: "conn_event list"

definition cn_emit :: "conn_event \<Rightarrow> 'u h2_conn \<Rightarrow> 'u h2_conn" where
  "cn_emit e c = c\<lparr>cn_log := cn_log c @ [e]\<rparr>"

definition cn_on_session :: "('u h2_session \<Rightarrow> 'u h2_session) \<Rightarrow> 'u h2_conn \<Rightarrow> 'u h2_conn" where
  "cn_on_session f c = c\<lparr>cn_session := f (cn_session c)\<rparr>"

definition cn_do :: "'u h2_lib \<Rightarrow> 'u \<Rightarrow> bool \<Rightarrow> 'u ss_op list \<Rightarrow> 'u h2_conn \<Rightarrow> 'u h2_conn" where
  "cn_do lib no_url hh acts c = cn_on_session (fold (ss_exec lib no_url hh) acts) c"

section \<open>Receiving\<close>

text \<open>What nghttp2 cannot parse stays in the buffer.\<close>

definition cn_handle_buffer_contents ::
  "'u h2_lib \<Rightarrow> 'u \<Rightarrow> bool \<Rightarrow> 'u ss_op list \<Rightarrow> bool \<Rightarrow> 'u h2_conn \<Rightarrow> 'u h2_conn" where
  "cn_handle_buffer_contents lib no_url hh acts ok c =
     (let c1 = cn_do lib no_url hh acts c
      in if \<not> ok then cn_emit (Ce_terminate Te_stream_closed) c1 else c1\<lparr>cn_buffer := []\<rparr>)"

definition cn_terminate :: "'u h2_conn \<Rightarrow> 'u h2_conn" where
  "cn_terminate c = (if \<not> ss_goaway_sent (cn_session c) then cn_emit (Ce_terminate Te_no_error) c else c)"

text \<open>A turn of \<open>recv_loop\<close>, where \<open>input\<close> is what was read.\<close>

definition cn_recv_turn ::
  "'u h2_lib \<Rightarrow> 'u \<Rightarrow> bool \<Rightarrow> bool \<Rightarrow> (bytes \<times> 'u ss_op list \<times> bool) option \<Rightarrow> 'u h2_conn \<Rightarrow> 'u h2_conn" where
  "cn_recv_turn lib no_url hh want input c =
     (case (if want then input else None) of
        Some (data, acts, ok) \<Rightarrow>
          cn_on_session start_write
            (cn_handle_buffer_contents lib no_url hh acts ok (c\<lparr>cn_buffer := cn_buffer c @ data\<rparr>))
      | None \<Rightarrow> cn_on_session start_write ((cn_terminate c)\<lparr>cn_recv_done := True, cn_recv := Ended\<rparr>))"

section \<open>Sending\<close>

text \<open>The end of \<open>send_loop\<close>: the read is cancelled, and the streams that are left are destroyed.\<close>

definition cn_end_send_loop :: "'u h2_conn \<Rightarrow> 'u h2_conn" where
  "cn_end_send_loop c =
     (let (xs, _) = session_dtor (cn_session c)
      in (cn_emit Ce_io_cancel c)\<lparr>cn_session := (cn_session c)\<lparr>ss_streams := []\<rparr>, cn_gone := cn_gone c @ xs\<rparr>)"

definition cn_send_turn :: "'u h2_lib \<Rightarrow> 'u \<Rightarrow> bool \<Rightarrow> 'u ss_op list \<Rightarrow> turn \<Rightarrow> 'u h2_conn \<Rightarrow> 'u h2_conn" where
  "cn_send_turn lib no_url hh acts t c =
     (let interrupted = (sl_state (cn_send c) = Waiting \<and> tn_wait t \<noteq> Success);
          c1 = (if interrupted then c
                else cn_do lib no_url hh acts (cn_on_session (\<lambda>s. s\<lparr>ss_send_ready := False\<rparr>) c));
          c2 = c1\<lparr>cn_send := send_turn (t\<lparr>tn_recv_done := cn_recv_done c1\<rparr>) (cn_send c1)\<rparr>
      in if sl_state (cn_send c2) = Ended \<or> sl_state (cn_send c2) = Write_failed then cn_end_send_loop c2
         else if sl_state (cn_send c2) = Thrown then cn_emit Ce_io_close c2
         else c2)"

section \<open>The beginning and the end\<close>

text \<open>A request that was upgraded to h2c is stream 1, and is complete. \<open>ok\<close> is what \<open>nghttp2_session_upgrade2\<close> answers.\<close>

definition cn_upgrade :: "bool \<Rightarrow> bool \<Rightarrow> string \<Rightarrow> 'u \<Rightarrow> field list \<Rightarrow> 'u \<Rightarrow> 'u h2_conn \<Rightarrow> 'u h2_conn" where
  "cn_upgrade hh ok method u fs no_url c =
     (if \<not> ok then cn_emit (Ce_terminate Te_protocol_error) c
      else cn_on_session (\<lambda>s.
             let s1 = create_stream no_url 1 s
             in case find_stream 1 s1 of
                  None \<Rightarrow> s1
                | Some x \<Rightarrow>
                    let x1 = x\<lparr>x_method := method, x_url := u, x_fields := fs\<rparr>;
                        s2 = s1\<lparr>ss_streams := AList.update 1 x1 (ss_streams s1)\<rparr>
                    in on_stream hs_on_eof 1 (ss_on_request hh 1 x1 s2)) c)"

definition cn_end_connection :: "bool \<Rightarrow> 'u h2_conn \<Rightarrow> 'u h2_conn" where
  "cn_end_connection shut_down c =
     (let c1 = (if \<not> sl_send_failed (cn_send c) then cn_emit Ce_teardown c else c);
          c2 = cn_emit Ce_io_shutdown c1;
          c3 = (if shut_down then cn_emit Ce_drain c2 else c2)
      in (cn_emit Ce_io_close c3)\<lparr>cn_stream_closed := True\<rparr>)"

definition cn_end_session :: "bool \<Rightarrow> 'u h2_conn \<Rightarrow> 'u h2_conn" where
  "cn_end_session shut_down c =
     (cn_on_session (\<lambda>s. s\<lparr>ss_open := False\<rparr>) (cn_emit Ce_session_del (cn_end_connection shut_down c)))\<lparr>cn_session_done := True\<rparr>"

definition cn_destroy :: "'u h2_conn \<Rightarrow> 'u h2_conn" where
  "cn_destroy c = (if cn_stream_closed c then c else cn_emit Ce_io_shutdown c)"

text \<open>\<open>ClientSession::shutdown\<close> up to its wait for the end of the session, and its result.\<close>

definition cn_shutdown :: "'u h2_conn \<Rightarrow> 'u h2_conn" where
  "cn_shutdown c =
     (if cn_shutdown_started c \<or> cn_session_done c then c\<lparr>cn_shutdown_started := True\<rparr>
      else let c1 = c\<lparr>cn_shutdown_started := True\<rparr>;
               c2 = (if ss_open (cn_session c1) then cn_terminate c1 else c1)
           in cn_on_session start_write (c2\<lparr>cn_recv_done := True\<rparr>))"

definition cn_shutdown_result :: "'u h2_conn \<Rightarrow> error_code" where
  "cn_shutdown_result c = (if sl_send_failed (cn_send c) then Connection_aborted else Success)"

section \<open>Runs\<close>

datatype 'u cn_op =
    Co_send "'u ss_op list" turn
  | Co_recv bool "(bytes \<times> 'u ss_op list \<times> bool) option"
  | Co_do "'u ss_op"
  | Co_shutdown
  | Co_end bool

fun cn_exec :: "'u h2_lib \<Rightarrow> 'u \<Rightarrow> bool \<Rightarrow> 'u cn_op \<Rightarrow> 'u h2_conn \<Rightarrow> 'u h2_conn" where
  "cn_exec lib no_url hh (Co_send acts t) c = cn_send_turn lib no_url hh acts t c"
| "cn_exec lib no_url hh (Co_recv want input) c = cn_recv_turn lib no_url hh want input c"
| "cn_exec lib no_url hh (Co_do a) c = cn_on_session (ss_exec lib no_url hh a) c"
| "cn_exec lib no_url hh Co_shutdown c = cn_shutdown c"
| "cn_exec lib no_url hh (Co_end shut_down) c = cn_end_session shut_down c"

abbreviation cn_possible :: "'u h2_lib \<Rightarrow> 'u \<Rightarrow> bool \<Rightarrow> 'u ss_op list \<Rightarrow> 'u h2_session \<Rightarrow> bool" where
  "cn_possible lib no_url hh acts s \<equiv> run (ss_exec lib no_url hh) ss_enabled s acts \<noteq> None"

fun cn_enabled :: "'u h2_lib \<Rightarrow> 'u \<Rightarrow> bool \<Rightarrow> 'u cn_op \<Rightarrow> 'u h2_conn \<Rightarrow> bool" where
  "cn_enabled lib no_url hh (Co_send acts t) c =
     ((sl_state (cn_send c) = Running \<or>
       sl_state (cn_send c) = Waiting \<and> (tn_wait t = Success \<longrightarrow> ss_send_ready (cn_session c))) \<and>
      cn_possible lib no_url hh acts ((cn_session c)\<lparr>ss_send_ready := False\<rparr>))"
| "cn_enabled lib no_url hh (Co_recv want input) c =
     (cn_recv c = Running \<and>
      (case input of None \<Rightarrow> True | Some (data, acts, ok) \<Rightarrow> cn_possible lib no_url hh acts (cn_session c)))"
| "cn_enabled lib no_url hh (Co_do a) c = ss_enabled a (cn_session c)"
| "cn_enabled lib no_url hh Co_shutdown c = (\<not> ss_server (cn_session c))"
| "cn_enabled lib no_url hh (Co_end shut_down) c = (sl_state (cn_send c) \<notin> {Running, Waiting} \<and> cn_recv c = Ended)"

definition hs_quiet :: "h2_stream \<Rightarrow> bool" where
  "hs_quiet t \<longleftrightarrow> \<not> hs_write_handler t \<and> hs_read_handler t = None \<and> \<not> hs_response_handler t"

lemma hs_dtor_quiet: "hs_quiet (hs_dtor s)"
  by (simp add: hs_quiet_def hs_dtor_def hs_emit_def Let_def)

definition cn_inv :: "'u h2_conn \<Rightarrow> bool" where
  "cn_inv c \<longleftrightarrow>
     ss_inv (cn_session c) \<and> (\<forall>x \<in> set (cn_gone c). hs_quiet (x_stream x)) \<and>
     (cn_recv c = Ended \<longrightarrow> cn_recv_done c \<and> (ss_goaway_sent (cn_session c) \<or> (\<exists>k. Ce_terminate k \<in> set (cn_log c))))"

lemma cn_sel [simp]:
  "cn_session (cn_emit e c) = cn_session c" "cn_gone (cn_emit e c) = cn_gone c" "cn_recv (cn_emit e c) = cn_recv c"
  "cn_recv_done (cn_emit e c) = cn_recv_done c" "cn_log (cn_emit e c) = cn_log c @ [e]" "cn_send (cn_emit e c) = cn_send c"
  "cn_session (cn_on_session f c) = f (cn_session c)" "cn_gone (cn_on_session f c) = cn_gone c"
  "cn_recv (cn_on_session f c) = cn_recv c" "cn_recv_done (cn_on_session f c) = cn_recv_done c"
  "cn_log (cn_on_session f c) = cn_log c" "cn_send (cn_on_session f c) = cn_send c"
  by (simp_all add: cn_emit_def cn_on_session_def)

lemma cn_do_sel [simp]:
  "cn_session (cn_do lib no_url hh acts c) = fold (ss_exec lib no_url hh) acts (cn_session c)"
  "cn_gone (cn_do lib no_url hh acts c) = cn_gone c" "cn_recv (cn_do lib no_url hh acts c) = cn_recv c"
  "cn_recv_done (cn_do lib no_url hh acts c) = cn_recv_done c" "cn_log (cn_do lib no_url hh acts c) = cn_log c"
  "cn_send (cn_do lib no_url hh acts c) = cn_send c"
  by (simp_all add: cn_do_def)

text \<open>A \<^verbatim>\<open>GOAWAY\<close> that was sent stays sent.\<close>

lemma goaway_on_stream: "ss_goaway_sent (on_stream f sid s) = ss_goaway_sent s"
  by (simp add: on_stream_def erase_stream_def ss_emit_def Let_def split: option.split)

lemma goaway_kept: "ss_goaway_sent s \<Longrightarrow> ss_goaway_sent (ss_exec lib no_url hh a s)"
proof -
  note d = goaway_on_stream ss_emit_def start_write_def on_begin_headers_callback_def create_stream_def emplace_def
    on_header_callback_def on_frame_recv_callback_def ss_on_request_def ss_on_response_def ss_on_alt_svc_def
    on_data_chunk_recv_callback_def on_frame_send_callback_def on_frame_not_send_callback_def on_stream_close_callback_def
    async_submit_def reap_stream_def Let_def
  assume "ss_goaway_sent s"
  then show ?thesis by (cases a) (simp_all add: d split: option.split list.split)
qed

lemma fold_kept: "ss_goaway_sent s \<Longrightarrow> ss_goaway_sent (fold (ss_exec lib no_url hh) acts s)"
  by (induction acts arbitrary: s) (simp_all add: goaway_kept del: ss_exec.simps)

lemma fold_inv: "ss_inv s \<Longrightarrow> cn_possible lib no_url hh acts s \<Longrightarrow> ss_inv (fold (ss_exec lib no_url hh) acts s)"
  by (induction acts arbitrary: s) (auto simp: ss_exec_inv simp del: ss_exec.simps split: if_splits)

lemma ss_inv_ready [simp]: "ss_inv (s\<lparr>ss_send_ready := b\<rparr>) = ss_inv s" "ss_inv (s\<lparr>ss_open := b\<rparr>) = ss_inv s"
  by (simp_all add: ss_inv_def find_stream_def)

lemma cn_end_send_loop_sel [simp]:
  "cn_session (cn_end_send_loop c) = (cn_session c)\<lparr>ss_streams := []\<rparr>"
  "cn_gone (cn_end_send_loop c) = cn_gone c @ map (\<lambda>x. x\<lparr>x_stream := hs_dtor (x_stream x)\<rparr>) (map snd (ss_streams (cn_session c)))"
  "cn_recv (cn_end_send_loop c) = cn_recv c" "cn_recv_done (cn_end_send_loop c) = cn_recv_done c"
  "cn_log (cn_end_send_loop c) = cn_log c @ [Ce_io_cancel]"
  by (simp_all add: cn_end_send_loop_def session_dtor_def)

lemma ss_inv_cleared: "ss_inv s \<Longrightarrow> ss_inv (s\<lparr>ss_streams := []\<rparr>)"
  by (simp add: ss_inv_def find_stream_def distinct_keys_def)

lemma cn_end_send_loop_inv: "cn_inv c \<Longrightarrow> cn_inv (cn_end_send_loop c)"
  using hs_dtor_quiet by (auto simp: cn_inv_def ss_inv_cleared)

lemma cn_send_turn_inv:
  assumes inv: "cn_inv c" and en: "cn_enabled lib no_url hh (Co_send acts t) c"
  shows "cn_inv (cn_send_turn lib no_url hh acts t c)"
proof -
  define c1 where "c1 = (if sl_state (cn_send c) = Waiting \<and> tn_wait t \<noteq> Success then c
    else cn_do lib no_url hh acts (cn_on_session (\<lambda>s. s\<lparr>ss_send_ready := False\<rparr>) c))"
  define c2 where "c2 = c1\<lparr>cn_send := send_turn (t\<lparr>tn_recv_done := cn_recv_done c1\<rparr>) (cn_send c1)\<rparr>"
  have "ss_inv (fold (ss_exec lib no_url hh) acts ((cn_session c)\<lparr>ss_send_ready := False\<rparr>))"
    using inv en by (intro fold_inv) (simp_all add: cn_inv_def)
  then have "cn_inv c1"
    using inv fold_kept [of "(cn_session c)\<lparr>ss_send_ready := False\<rparr>"] by (auto simp: cn_inv_def c1_def)
  then have c2: "cn_inv c2" by (simp add: cn_inv_def c2_def)
  then have "cn_inv (cn_emit Ce_io_close c2)" by (auto simp: cn_inv_def)
  with c2 cn_end_send_loop_inv [OF c2] show ?thesis by (simp add: cn_send_turn_def Let_def c1_def [symmetric] c2_def [symmetric])
qed

lemma cn_recv_turn_inv:
  assumes inv: "cn_inv c" and en: "cn_enabled lib no_url hh (Co_recv want input) c"
  shows "cn_inv (cn_recv_turn lib no_url hh want input c)"
proof (cases "if want then input else None")
  case None
  with inv show ?thesis by (auto simp: cn_recv_turn_def cn_inv_def cn_terminate_def start_write_def)
next
  case (Some p)
  then obtain data acts ok where p: "p = (data, acts, ok)" "input = Some (data, acts, ok)" by (cases p) (auto split: if_splits)
  then have "ss_inv (fold (ss_exec lib no_url hh) acts (cn_session c))"
    using inv en by (intro fold_inv) (simp_all add: cn_inv_def)
  with Some p inv en show ?thesis
    by (simp add: cn_recv_turn_def cn_handle_buffer_contents_def cn_inv_def Let_def) (auto simp: start_write_def)
qed

lemma cn_exec_inv:
  assumes "cn_inv c" "cn_enabled lib no_url hh a c"
  shows "cn_inv (cn_exec lib no_url hh a c)"
proof (cases a)
  case (Co_send acts t)
  with assms cn_send_turn_inv show ?thesis by (simp only: cn_exec.simps)
next
  case (Co_recv want input)
  with assms cn_recv_turn_inv show ?thesis by (simp only: cn_exec.simps)
next
  case (Co_do b)
  with assms ss_exec_inv [of "cn_session c" b] goaway_kept [of "cn_session c"] show ?thesis
    by (auto simp: cn_inv_def simp del: ss_exec.simps)
next
  case Co_shutdown
  with assms show ?thesis by (auto simp: cn_shutdown_def cn_terminate_def cn_inv_def start_write_def Let_def)
next
  case (Co_end shut_down)
  with assms show ?thesis by (auto simp: cn_end_session_def cn_end_connection_def cn_inv_def Let_def)
qed

interpretation cn: machine "cn_exec lib no_url hh" "cn_enabled lib no_url hh" cn_inv
  for lib :: "'u h2_lib" and no_url hh
  by unfold_locales (rule cn_exec_inv)

definition cn_start :: "'u h2_session \<Rightarrow> 'u h2_conn" where
  "cn_start s =
     \<lparr>cn_session = s, cn_send = sl_init 1460, cn_recv = Running, cn_buffer = [], cn_recv_done = False,
      cn_shutdown_started = False, cn_session_done = False, cn_stream_closed = False, cn_gone = [], cn_log = []\<rparr>"

section \<open>The end of a connection\<close>

text \<open>For every run of a connection: the streams of its session keep their invariant through both loops, and the receive loop does
  not end without a \<^verbatim>\<open>GOAWAY\<close> that was sent or asked for; when a turn ends the send loop, no stream is left in the table, and
  nobody waits for any of those that were destroyed.\<close>

theorem h2_connection_ends:
  assumes "ss_inv s" "run (cn_exec lib no_url hh) (cn_enabled lib no_url hh) (cn_start s) ops = Some c"
  shows "ss_inv (cn_session c) \<and> (\<forall>x \<in> set (cn_gone c). hs_quiet (x_stream x)) \<and>
    (cn_recv c = Ended \<longrightarrow> ss_goaway_sent (cn_session c) \<or> (\<exists>k. Ce_terminate k \<in> set (cn_log c))) \<and>
    ss_streams (cn_session (cn_end_send_loop c)) = []"
proof -
  have "cn_inv (cn_start s)" using assms(1) by (simp add: cn_inv_def cn_start_def)
  from cn.run_inv [OF this assms(2)] show ?thesis by (simp add: cn_inv_def)
qed

text \<open>Input that nghttp2 cannot parse is not taken out of the buffer, and is given to it again with what follows.\<close>

lemma h2_unparsed_input_stays:
  "cn_buffer (cn_handle_buffer_contents lib no_url hh acts False c) = cn_buffer c"
  by (simp add: cn_handle_buffer_contents_def cn_emit_def cn_do_def cn_on_session_def Let_def)

text \<open>A request that was upgraded is started as stream 1, with its body at its end.\<close>

lemma h2_upgraded_request_launched:
  assumes "find_stream 1 (cn_session c) = None"
  shows "Se_launch 1 (if hh then Launch_handler else Launch_not_found)
    \<in> set (ss_events (cn_session (cn_upgrade hh True method u fs no_url c)))"
proof -
  let ?s1 = "create_stream no_url 1 (cn_session c)"
  let ?x = "new_exchange no_url hs_init"
  let ?x1 = "?x\<lparr>x_method := method, x_url := u, x_fields := fs\<rparr>"
  let ?s2 = "?s1\<lparr>ss_streams := AList.update 1 ?x1 (ss_streams ?s1)\<rparr>"
  have f: "find_stream 1 ?s1 = Some ?x"
    using assms by (auto simp: create_stream_def emplace_def find_stream_def map_of_append map_add_def Let_def)
  have "\<not> hs_header_limit_exceeded (x_stream ?x1)" by (simp add: new_exchange_def hs_init_def)
  then have l: "Se_launch 1 (if hh then Launch_handler else Launch_not_found) \<in> set (ss_events (ss_on_request hh 1 ?x1 ?s2))"
    by (simp add: ss_on_request_def ss_emit_def)
  have g: "set (ss_events s) \<subseteq> set (ss_events (on_stream f sid s))" for f sid and s :: "'a h2_session"
    by (simp add: on_stream_def erase_stream_def ss_emit_def Let_def subset_iff split: option.split)
  have e: "cn_session (cn_upgrade hh True method u fs no_url c) = on_stream hs_on_eof 1 (ss_on_request hh 1 ?x1 ?s2)"
    using f by (simp add: cn_upgrade_def Let_def)
  show ?thesis unfolding e by (rule subsetD [OF g l])
qed

end
