(* ===== verification/Spec2Isabelle.thy ===== *)
theory Spec2Isabelle
  imports Quic_Properties Quic_App_Properties H2_Properties H2_Session_Properties H2_Send_Loop Alt_Svc_Properties
    File_Cache_Properties Server_Properties H1_Client_Properties H1_Server_Properties Quic_Server_Properties
    Quic_Client_Properties H3_Exchange_Properties H2v2_Session_Properties H2_Connection
begin

text \<open>
  \<^bold>\<open>A verification of anyhttp.\<close> The library serves and makes HTTP requests over HTTP/1.1, HTTP/2 and HTTP/3, and
  plain QUIC streams, behind one interface of readers and writers. This development models the parts of it that
  carry the protocols' logic of its own, between the callbacks of the protocol libraries below (nghttp2, ngtcp2,
  nghttp3, Boost.Beast) and the coroutines of the application above.

  \<^bold>\<open>How the parts interact.\<close> A \<open>server\<close> accepts connections, tells what they speak and makes a session for each. A
  session owns a table of streams (HTTP/2, QUIC), or one connection on which messages follow each other
  (HTTP/1.1). A stream buffers what arrives until it is read, and holds what is written until the library below
  has taken it. Reading and writing is done through handles (\<open>Reader\<close>, \<open>Writer\<close>) that may outlive the stream and
  the session. Completing a read or a write resumes the application inside of the call, which may at once
  issue the next operation or drop a handle.

  \<^bold>\<open>How the code is modelled.\<close> A class is a \<open>record\<close>, a member function a function on it; a coroutine is divided
  where it waits. What the libraries below answer is an argument, so that the theorems hold for every answer;
  where they rely on a promise of those libraries, it is a guard of the operation and is named in its theory.
  What the application does inside of a completion is a script (\<open>read_action\<close>, theory \<open>Prelude\<close>). A run is a list
  of operations in any order, or a sequence of steps of an inductive relation, and the theorems are about all
  runs. Some fields of the records are for observation only (what was received, handed out, written), and no
  operation depends on them.

  \<^bold>\<open>Shared theories.\<close>
  \<^item> \<open>Prelude\<close>: bytes, error codes, lists. \<open>Text_Lib\<close>: decimal numbers, searching, and case in strings.
  \<^item> \<open>Body_Contract\<close>: what a reader promises of a body, as a locale; the QUIC and the HTTP/2 stream interpret it.
    \<open>Read_Queue\<close>: the buffered chunks of a stream. \<open>Stream_Table\<close>: the table of a session, as a locale
    interpreted by association lists, and sums over its entries.

  \<^bold>\<open>QUIC\<close> (\<^verbatim>\<open>src/quic/stream.cpp\<close>, \<^verbatim>\<open>src/quic/streams.cpp\<close>, parts of \<^verbatim>\<open>src/quic/session.cpp\<close> and \<^verbatim>\<open>src/h3/stream.cpp\<close>).
  \<^item> \<open>Quic_Stream\<close> has \<open>QuicStream\<close> and its adapters: the record \<open>quic_stream\<close> and one definition per member function,
    named \<open>qs_\<close>. \<open>Quic_Stream_Read\<close> and \<open>Quic_Stream_Write\<close> have the invariants of the two directions,
    \<open>Quic_Machine\<close> the operations as a machine, \<open>Quic_Properties\<close> the theorems: the body is delivered in order
    and completely, no read is left waiting, what is sent is the body, a buffer written by reference is not
    released while the stack needs it, every write is answered once.
  \<^item> \<open>Quic_App\<close> has \<open>StreamApplication\<close>, which serves many streams on one connection: accepting, opening, and the
    queue of streams that have something to send, with the loop of \<open>write_pkt()\<close>. \<open>Quic_App_Stream\<close>,
    \<open>Quic_App_Inv\<close> and \<open>Quic_App_Machine\<close> have its invariants, \<open>Quic_App_Properties\<close> the theorems: each stream is
    in a state it can be in on its own, none is forgotten by the scheduler, it is round robin, refusals end.

  \<^bold>\<open>QUIC connections\<close> (\<^verbatim>\<open>src/quic/session.cpp\<close>, \<^verbatim>\<open>src/quic/server.cpp\<close>, \<^verbatim>\<open>src/quic/client.cpp\<close>).
  \<^item> \<open>Quic_Conn\<close> has what \<open>QuicSession\<close> does on both sides: reading, the write pass, timers, wake-ups, closing. Its virtual
    functions are the record \<open>role\<close>; \<open>Quic_Role\<close> states what a role promises as the locale \<open>quic_role\<close>, with the
    invariants that follow (\<open>role_invariant\<close>), interpreted by the server and by the client.
  \<^item> \<open>Quic_Udp\<close> has the datagrams of a write pass with and without segmentation offload, \<open>Quic_Alpn\<close> the choice of the
    protocol. \<open>Quic_Server\<close> has \<open>QuicServerSession\<close> and \<open>QuicServerImpl\<close>; \<open>Quic_Demux\<close> shows who gets which datagram,
    \<open>Quic_Server_Inv\<close>, \<open>Quic_Server_Table\<close>, \<open>Quic_Server_Run\<close> and \<open>Quic_Server_Quiet\<close> have the invariants,
    \<open>Quic_Server_Properties\<close> the theorems: nobody is left behind in the table of connection IDs, a closed connection
    is silent but for its \<^verbatim>\<open>CONNECTION_CLOSE\<close>, and the two ways in which a session is left behind after all.
  \<^item> \<open>Quic_Client\<close> has \<open>QuicClientSession\<close> with its receive loop, and \<open>async_connect()\<close>; \<open>Quic_Client_Properties\<close> shows that
    nobody is left waiting for a connection that is over.

  \<^bold>\<open>HTTP/3\<close> (\<^verbatim>\<open>src/h3/stream.cpp\<close>, \<^verbatim>\<open>src/h3/client.cpp\<close>, \<^verbatim>\<open>src/h3/server.cpp\<close>).
  \<^item> \<open>H3_Exchange\<close> has the header sections of a request and its response on top of the body of \<open>Quic_Stream\<close>;
    \<open>H3_Exchange_Properties\<close> shows that whoever asks for the response is answered exactly once, and the round trip of
    the header section of a response.

  \<^bold>\<open>HTTP/2\<close> (\<^verbatim>\<open>src/h2/stream.cpp\<close>, \<^verbatim>\<open>src/h2/session.cpp\<close>, \<^verbatim>\<open>include/anyhttp/h2/session_details.hpp\<close>).
  \<^item> \<open>H2_Stream\<close> has \<open>NGHttp2Stream\<close>, its adapters and the closing of a stream; \<open>H2_Stream_Read\<close> the lemmas on the
    delivery loop, \<open>H2_Machine\<close> the runs, \<open>H2_Contracts\<close> the interpretation of the contract of a reader,
    \<open>H2_Properties\<close> the theorems, as for QUIC, and that closing waits for the reader.
  \<^item> \<open>H2_Session\<close> has the callbacks and operations of \<open>NGHttp2Session\<close>, with header fields and their limits;
    \<open>H2_Session_Machine\<close> its runs; \<open>H2_Session_Properties\<close> the refinement to single streams, bounds, flow
    control of the connection, and the round trip of a header section. \<open>H2_Send_Loop\<close> has the loop that writes
    what nghttp2 gives to the socket; \<open>H2_Connection\<close> has both loops on the session, the continuation of an upgraded
    request, shutdown and the end of the connection, after which no stream is left with a pending operation.

  \<^bold>\<open>HTTP/2 on version 2 of nghttp2\<close> (\<^verbatim>\<open>src/h2v2/stream.cpp\<close>, \<^verbatim>\<open>src/h2v2/session.cpp\<close>, \<^verbatim>\<open>include/anyhttp/h2v2/session_details.hpp\<close>).
  \<^item> \<open>H2v2_Stream\<close> has \<open>NGHttp2Stream\<close> of that backend, named \<open>v2_\<close>: the outgoing body is taken by reference, either from the
    buffer of the caller or from a chunk of the stream. \<open>H2v2_View\<close> lifts such a stream to one of \<open>H2_Stream\<close>, with a
    simulation of its incoming side; \<open>H2v2_Machine\<close> has the runs and the invariant of the outgoing side;
    \<open>H2v2_Properties\<close> the theorems: the incoming side is that of version 1, nghttp2 never reads memory that the
    application has back, what is framed is the body, no write is stuck.
  \<^item> \<open>H2v2_Session\<close> has the callbacks, requests and responses of a session, named \<open>vs_\<close>, and its send and receive loops, where the
    callbacks nghttp2 makes during a call are an argument of the turn; \<open>H2v2_Session_Machine\<close> the runs and their invariant;
    \<open>H2v2_Session_Properties\<close> shows that the pointers nghttp2 keeps are valid, that the end of the send loop closes every
    stream and tells whoever waits, and that nothing is asked of a connection that is closing.

  \<^bold>\<open>HTTP/1.1\<close> (\<^verbatim>\<open>src/h1/session.cpp\<close>, \<^verbatim>\<open>include/anyhttp/h1/session.hpp\<close>).
  \<^item> \<open>H1_Message\<close> has what readers and writers of messages have in common, and when a sequence of written pieces is
    a sequence of messages. \<open>H1_Client\<close> has the client session, which pipelines requests; \<open>H1_Client_Inv\<close> its
    invariants; \<open>H1_Client_Properties\<close> shows that requests go out one after the other, that the n-th response is
    read for the n-th request, and that the connection is ended with nothing in progress.
  \<^item> \<open>H1_Server\<close> has the loop of the server session and the upgrade to HTTP/2; \<open>H1_Server_Properties\<close> shows that
    responses go out in order if handlers end them, and what happens if one does not.

  \<^bold>\<open>The rest.\<close>
  \<^item> \<open>Detect\<close> (\<^verbatim>\<open>include/anyhttp/detail/detect.hpp\<close>): what a client speaks, independent of how its bytes arrive.
  \<^item> \<open>Server\<close>, \<open>Server_Properties\<close> (\<^verbatim>\<open>src/server_impl.cpp\<close>): connections, the registry of sessions and the end of
    the server, as an inductive step relation over all interleavings.
  \<^item> \<open>File_Cache\<close>, \<open>File_Cache_Properties\<close> (\<^verbatim>\<open>src/file_handler.cpp\<close>): the file handler; its cache refines a plain list
    in the order of last use. \<open>Http_Date\<close> (\<^verbatim>\<open>src/common.cpp\<close>): dates in header fields.
  \<^item> \<open>Alt_Svc\<close>, \<open>Alt_Svc_Properties\<close> (\<^verbatim>\<open>src/alt_svc.cpp\<close>, \<^verbatim>\<open>src/client_impl.cpp\<close>): alternative services, parsed,
    advertised and followed.

  \<^bold>\<open>Termination and bounds.\<close> No definition uses fuel. The loops are total functions: the delivery loops of a stream
  end because each round takes a completion off the script or a byte off the buffer, the loop that evicts files
  takes an entry in each round, the parsers take a character, the loop that closes what is left of a session moves on to
  streams with larger numbers, and the loop of \<open>write_pkt()\<close> goes over the answers
  of ngtcp2, with a theorem that bounds how many of them can be refusals. Calls of the operating system that are
  interrupted are repeated along the list of its answers, past whose end a call succeeds. That the server ends is proved with a
  measure on its state. Sizes and counters are natural numbers; where a width matters (the age of an
  alternative, numbers in header fields), it is written out.

  \<^bold>\<open>Not modelled.\<close> The callbacks of HTTP/3 that forward between nghttp3, ngtcp2 and the streams (\<^verbatim>\<open>src/h3/application.cpp\<close>); the set-up of
  QUIC connections (TLS, settings, callback tables), which is configuration of ngtcp2;
  TLS; the runtimes of Boost.Asio
  and corosio; the handles of the public interface, which forward; logging, example handlers and applications.
\<close>

end
